(* ===== verification/TW_Prelude.thy ===== *)
theory TW_Prelude
  imports Complex_Main "HOL-Library.AList"
begin

text \<open>
  Shared vocabulary of the development: the exceptions of the engine and the results
  that carry them, Python dictionaries as association lists kept in insertion order,
  and the generic lemmas on both that the component theories rest on.

  A Python \<open>dict\<close> iterates in insertion order, and an assignment to a key that is
  present keeps the key's place. \<open>AList.update\<close> has exactly this behaviour (in place
  when present, appended at the end when not), so a dictionary is an association list
  with distinct keys (\<open>dict_ok\<close>), read with \<open>map_of\<close>, written with
  \<open>AList.update\<close> and emptied of a key with \<open>AList.delete\<close>.
\<close>

named_theorems tw_defs \<open>definitions the component proofs unfold as a group\<close>
named_theorems tw_frame \<open>fields an operation leaves alone\<close>
named_theorems tw_sign \<open>sign and zero tests that decimal rounding cannot change\<close>

section \<open>Exceptions and results\<close>

text \<open>
  \<open>fault\<close> says which statement of the source raised an \<open>InvariantViolation\<close>, the
  fail-fast class of \<open>src/src/tickwright/domain/errors.py\<close>. The message texts are not
  modelled; where a text is behaviour (a refusal a strategy reads), it is a string of the
  model. \<open>InvalidOperation\<close> and \<open>DivisionByZero\<close> are the two signals of Python's
  decimal context that the modelled code can reach.
\<close>

datatype fault =
    IllegalTransition
  | NonPositiveOrderFill
  | WrongPartition
  | NonPositiveFill
  | NoSpecForSymbol
  | WrongValuationRow
  | SplitWithoutNet
  | SplitPastNet
  | SplitMovesNothing
  | LedgerNotOpen
  | LedgerAlreadyOpen
  | StoreWriteFailed
  | NotResting
  | RebuildNotLimit
  | BadStochasticParam
  | NoTimeInForce
  | LimitWithoutPrice
  | BadCashQuantum
  | NoHandler
  | DeniedByDuplicateSymbol
  | CancelBeforePlace

datatype exc =
    InvariantViolation fault
  | StoreAccountMismatch
  | LeverageOutOfBounds
  | VenueReadUnresolvable string
  | ValueError
  | KeyError
  | InvalidOperation
  | DivisionByZero

type_synonym 'a res = "exc + 'a"

definition bind_res :: "'a res \<Rightarrow> ('a \<Rightarrow> 'b res) \<Rightarrow> 'b res" where
  "bind_res r f = (case r of Inl e \<Rightarrow> Inl e | Inr a \<Rightarrow> f a)"

lemma bind_res_simps [simp]:
  "bind_res (Inl e) f = Inl e"
  "bind_res (Inr a) f = f a"
  by (simp_all add: bind_res_def)

lemma bind_res_eq_Inr: "bind_res r f = Inr b \<longleftrightarrow> (\<exists>a. r = Inr a \<and> f a = Inr b)"
  by (cases r) auto

lemma bind_res_eq_Inl:
  "bind_res r f = Inl e \<longleftrightarrow> r = Inl e \<or> (\<exists>a. r = Inr a \<and> f a = Inl e)"
  by (cases r) auto

lemma bind_res_assoc: "bind_res (bind_res r f) g = bind_res r (\<lambda>a. bind_res (f a) g)"
  by (cases r) auto

text \<open>A comprehension whose body may raise: the first exception stops it.\<close>

fun traverse :: "('a \<Rightarrow> 'b res) \<Rightarrow> 'a list \<Rightarrow> 'b list res" where
  "traverse f [] = Inr []"
| "traverse f (x # xs) =
     bind_res (f x) (\<lambda>y. bind_res (traverse f xs) (\<lambda>ys. Inr (y # ys)))"

lemma traverse_Inr_list_all2:
  "traverse f xs = Inr ys \<longleftrightarrow> list_all2 (\<lambda>x y. f x = Inr y) xs ys"
proof (induction xs arbitrary: ys)
  case Nil
  then show ?case by auto
next
  case (Cons x xs)
  then show ?case
    by (cases ys) (auto simp: bind_res_eq_Inr)
qed

lemma traverse_total: "(\<And>x. x \<in> set xs \<Longrightarrow> f x = Inr (g x)) \<Longrightarrow> traverse f xs = Inr (map g xs)"
  by (induction xs) auto

section \<open>Dictionaries\<close>

type_synonym ('k, 'v) dict = "('k \<times> 'v) list"

definition dict_ok :: "('k, 'v) dict \<Rightarrow> bool" where
  "dict_ok d \<longleftrightarrow> distinct (map fst d)"

definition dget :: "('k, 'v) dict \<Rightarrow> 'k \<Rightarrow> 'v \<Rightarrow> 'v" where
  "dget d k v = (case map_of d k of None \<Rightarrow> v | Some x \<Rightarrow> x)"

lemma dict_ok_Nil [simp, intro]: "dict_ok []"
  by (simp add: dict_ok_def)

lemma dict_ok_update [simp, intro]: "dict_ok d \<Longrightarrow> dict_ok (AList.update k v d)"
  by (simp add: dict_ok_def distinct_update)

lemma dict_ok_delete [simp, intro]: "dict_ok d \<Longrightarrow> dict_ok (AList.delete k d)"
  by (simp add: dict_ok_def distinct_delete)

lemma dict_ok_Cons: "dict_ok ((k, v) # d) \<longleftrightarrow> k \<notin> fst ` set d \<and> dict_ok d"
  by (simp add: dict_ok_def)

lemma map_of_update [simp]: "map_of (AList.update k v d) k' = (if k = k' then Some v else map_of d k')"
  by (simp add: update_conv')

lemma map_of_delete [simp]: "map_of (AList.delete k d) k' = (if k = k' then None else map_of d k')"
  by (simp add: delete_conv')

lemma dget_update [simp]: "dget (AList.update k v d) k' x = (if k = k' then v else dget d k' x)"
  by (simp add: dget_def)

lemma dget_Nil [simp]: "dget [] k x = x"
  by (simp add: dget_def)

lemma dict_ok_map_of_iff: "dict_ok d \<Longrightarrow> map_of d k = Some v \<longleftrightarrow> (k, v) \<in> set d"
  by (auto simp: dict_ok_def map_of_is_SomeI dest: map_of_SomeD)

lemma update_absent: "k \<notin> fst ` set d \<Longrightarrow> AList.update k v d = d @ [(k, v)]"
  by (induction d) auto

lemma map_fst_update_present: "k \<in> fst ` set d \<Longrightarrow> map fst (AList.update k v d) = map fst d"
  by (induction d) auto

lemma set_update_dict: "dict_ok d \<Longrightarrow>
  set (AList.update k v d) = insert (k, v) {e \<in> set d. fst e \<noteq> k}"
proof (induction d)
  case Nil
  then show ?case by simp
next
  case (Cons e d)
  then show ?case
    by (cases e) (force simp: dict_ok_def)
qed

lemma sum_list_update_present:
  fixes f :: "'k \<times> 'v \<Rightarrow> 'a::ab_group_add"
  shows "map_of d k = Some w \<Longrightarrow>
    sum_list (map f (AList.update k v d)) = sum_list (map f d) - f (k, w) + f (k, v)"
  by (induction d) (auto simp: algebra_simps split: if_splits)

lemma sum_list_update_absent:
  fixes f :: "'k \<times> 'v \<Rightarrow> 'a::ab_group_add"
  shows "map_of d k = None \<Longrightarrow>
    sum_list (map f (AList.update k v d)) = sum_list (map f d) + f (k, v)"
  by (induction d) (auto simp: algebra_simps split: if_splits)

text \<open>A dict comprehension, and a sum over the values of a dictionary.\<close>

definition dict_of :: "('k \<times> 'v) list \<Rightarrow> ('k, 'v) dict" where
  "dict_of xs = foldl (\<lambda>d (k, v). AList.update k v d) [] xs"

lemma dict_of_snoc [simp]: "dict_of (xs @ [(k, v)]) = AList.update k v (dict_of xs)"
  by (simp add: dict_of_def)

lemma dict_of_Nil [simp]: "dict_of [] = []"
  by (simp add: dict_of_def)

lemma fst_set_dict_of: "fst ` set (dict_of xs) = fst ` set xs"
proof (induction xs rule: rev_induct)
  case (snoc x xs)
  then show ?case using dom_update [of "fst x" "snd x" "dict_of xs"]
    by (cases x) (simp add: dict_of_def dom_map_of_conv_image_fst)
qed simp

lemma dict_ok_dict_of [simp, intro]: "dict_ok (dict_of xs)"
  by (induction xs rule: rev_induct) auto

lemma dict_of_distinct: "distinct (map fst xs) \<Longrightarrow> dict_of xs = xs"
proof (induction xs rule: rev_induct)
  case Nil
  then show ?case by simp
next
  case (snoc x xs)
  then show ?case by (cases x) (simp add: update_absent)
qed

lemma dget_in: "dict_ok d \<Longrightarrow> (k, v) \<in> set d \<Longrightarrow> dget d k w = v"
  by (simp add: dget_def dict_ok_map_of_iff [symmetric])

lemma dget_out: "k \<notin> fst ` set d \<Longrightarrow> dget d k v = v"
  by (simp add: dget_def map_of_eq_None_iff [THEN iffD2])

lemma map_snd_dget: "dict_ok d \<Longrightarrow> map snd d = map (\<lambda>k. dget d k w) (map fst d)"
  by (auto simp: dget_in)

lemma sum_dict: "dict_ok d \<Longrightarrow> sum_list (map snd d) = (\<Sum>k \<in> fst ` set d. dget d k w)"
  by (subst map_snd_dget [of d w])
    (simp_all add: sum_list_distinct_conv_sum_set dict_ok_def del: map_map)

text \<open>\<open>max(xs, key=f)\<close>: the first of the largest, or nothing for an empty list.\<close>

fun max_first :: "('a \<Rightarrow> 'b::linorder) \<Rightarrow> 'a list \<Rightarrow> 'a option" where
  "max_first f [] = None"
| "max_first f (x # xs) = Some (foldl (\<lambda>b y. if f b < f y then y else b) x xs)"

lemma max_first_fold:
  "foldl (\<lambda>b y. if f b < f y then y else b) x xs \<in> insert x (set xs)
    \<and> (\<forall>y \<in> insert x (set xs). f y \<le> f (foldl (\<lambda>b y. if f b < f y then y else b) x xs))"
  for f :: "'a \<Rightarrow> 'b::linorder"
proof (induction xs arbitrary: x)
  case Nil
  then show ?case by simp
next
  case (Cons a xs)
  from Cons [of "if f x < f a then a else x"] show ?case
    by (auto split: if_splits intro: order_trans)
qed

lemma max_first_Some:
  "max_first f xs = Some b \<Longrightarrow> b \<in> set xs \<and> (\<forall>y \<in> set xs. f y \<le> f b)"
proof (cases xs)
  case (Cons a xs')
  then show "max_first f xs = Some b \<Longrightarrow> b \<in> set xs \<and> (\<forall>y \<in> set xs. f y \<le> f b)"
    using max_first_fold [of f a xs'] by auto
qed simp

lemma max_first_None [simp]: "max_first f xs = None \<longleftrightarrow> xs = []"
  by (cases xs) auto

section \<open>Sorted strings\<close>

text \<open>
  Python orders strings by code point from the left; \<open>sorted(xs)\<close> is a stable insertion
  sort by a comparison.
\<close>

fun str_le :: "string \<Rightarrow> string \<Rightarrow> bool" where
  "str_le [] ys = True"
| "str_le (x # xs) [] = False"
| "str_le (x # xs) (y # ys) =
     (of_char x < (of_char y :: nat) \<or> x = y \<and> str_le xs ys)"

fun insert_by :: "('a \<Rightarrow> 'a \<Rightarrow> bool) \<Rightarrow> 'a \<Rightarrow> 'a list \<Rightarrow> 'a list" where
  "insert_by le x [] = [x]"
| "insert_by le x (y # ys) = (if le x y then x # y # ys else y # insert_by le x ys)"

definition sort_by :: "('a \<Rightarrow> 'a \<Rightarrow> bool) \<Rightarrow> 'a list \<Rightarrow> 'a list" where
  "sort_by le xs = foldr (insert_by le) xs []"

abbreviation str_sort :: "string list \<Rightarrow> string list" where
  "str_sort \<equiv> sort_by str_le"

lemma str_le_refl [simp]: "str_le xs xs"
  by (induction xs) auto

lemma str_le_linear: "str_le xs ys \<or> str_le ys xs"
  by (induction xs ys rule: str_le.induct) (auto simp: nat_neq_iff dest!: of_char_eq_iff [THEN iffD1] not_less_iff_gr_or_eq [THEN iffD1])

lemma str_le_trans: "str_le xs ys \<Longrightarrow> str_le ys zs \<Longrightarrow> str_le xs zs"
proof (induction xs ys arbitrary: zs rule: str_le.induct)
  case (3 x xs y ys)
  then show ?case by (cases zs) auto
qed auto

lemma str_le_antisym: "str_le xs ys \<Longrightarrow> str_le ys xs \<Longrightarrow> xs = ys"
proof (induction xs ys rule: str_le.induct)
  case (1 ys)
  then show ?case by (cases ys) auto
qed auto

lemma set_insert_by [simp]: "set (insert_by le x ys) = insert x (set ys)"
  by (induction ys) auto

lemma set_sort_by [simp]: "set (sort_by le xs) = set xs"
  by (induction xs) (auto simp: sort_by_def)

lemma distinct_insert_by: "distinct (map f (insert_by le x ys)) \<longleftrightarrow> distinct (map f (x # ys))"
  by (induction ys) auto

lemma distinct_sort_by [simp]: "distinct (map f (sort_by le xs)) \<longleftrightarrow> distinct (map f xs)"
proof (induction xs)
  case (Cons x xs)
  have "sort_by le (x # xs) = insert_by le x (sort_by le xs)" by (simp add: sort_by_def)
  with Cons show ?case by (simp add: distinct_insert_by)
qed (simp add: sort_by_def)

lemma sorted_insert_by:
  assumes "\<And>a b. le a b \<or> le b a" "\<And>a b c. le a b \<Longrightarrow> le b c \<Longrightarrow> le a c"
  shows "sorted_wrt le ys \<Longrightarrow> sorted_wrt le (insert_by le x ys)"
proof (induction ys)
  case (Cons y ys)
  then show ?case using assms by (auto split: if_splits)
qed simp

lemma sorted_str_sort: "sorted_wrt str_le (str_sort xs)"
  by (induction xs) (auto simp: sort_by_def intro!: sorted_insert_by str_le_linear intro: str_le_trans)

end
