(* ===== verification/TW_Decimal.thy ===== *)
theory TW_Decimal
  imports TW_Prelude
begin

text \<open>
  Python's \<open>decimal.Decimal\<close> under the default context (28 significant digits, ties to
  even), which is the context every figure of the engine is computed in: nothing in the
  repository changes it. A finite \<open>Decimal\<close> is represented by the rational it denotes,
  since the engine compares figures by value. Every arithmetic operation of the source,
  the unary minus and \<open>abs\<close> included, is the exact operation followed by \<open>rnd\<close>, the
  rounding of the context; comparisons, \<open>min\<close>, \<open>max\<close>, \<open>int\<close> and \<open>adjusted\<close> are
  exact, as they are in Python. The exponent limits of the context (a million digits) are
  not modelled, nor is the sign of zero.
\<close>

type_synonym decimal = rat

section \<open>Powers of ten and the decimal exponent\<close>

definition pow10 :: "int \<Rightarrow> rat" where
  "pow10 e = (if 0 \<le> e then 10 ^ nat e else 1 / 10 ^ nat (- e))"

lemma pow10_powi: "pow10 e = 10 powi e"
  by (simp add: pow10_def power_int_def divide_simps)

lemma pow10_pos [simp]: "0 < pow10 e"
  by (simp add: pow10_def)

lemma pow10_nz [simp]: "pow10 e \<noteq> 0"
  using pow10_pos [of e] by linarith

lemma pow10_zero [simp]: "pow10 0 = 1"
  by (simp add: pow10_def)

lemma pow10_add: "pow10 (a + b) = pow10 a * pow10 b"
  by (simp add: pow10_powi power_int_add)

lemma pow10_diff: "pow10 (a - b) = pow10 a / pow10 b"
  by (simp add: pow10_powi power_int_diff)

lemma pow10_succ: "pow10 (e + 1) = 10 * pow10 e"
  by (simp add: pow10_add) (simp add: pow10_def)

lemma pow10_mono: "a \<le> b \<Longrightarrow> pow10 a \<le> pow10 b"
  by (simp add: pow10_powi power_int_increasing)

lemma pow10_strict_mono: "a < b \<Longrightarrow> pow10 a < pow10 b"
  by (simp add: pow10_powi power_int_strict_increasing)

lemma pow10_less_iff [simp]: "pow10 a < pow10 b \<longleftrightarrow> a < b"
  by (metis linorder_not_less pow10_mono pow10_strict_mono)

lemma pow10_le_iff [simp]: "pow10 a \<le> pow10 b \<longleftrightarrow> a \<le> b"
  by (meson linorder_not_less pow10_less_iff)

lemma pow10_nat: "pow10 (int n) = of_int (10 ^ n)"
  by (simp add: pow10_def)

lemma pow10_split_at: "f \<le> e \<Longrightarrow> pow10 e = of_int (10 ^ nat (e - f)) * pow10 f"
  using pow10_add [of "e - f" f] pow10_nat [of "nat (e - f)"] by simp

lemma pow10_abs [simp]: "\<bar>pow10 e\<bar> = pow10 e"
  by (rule abs_of_pos [OF pow10_pos])

lemma pow10_nonneg [simp]: "0 \<le> pow10 e"
  by (rule less_imp_le [OF pow10_pos])

lemma divide_pow10_sign [simp]:
  "0 \<le> a / pow10 e \<longleftrightarrow> 0 \<le> a" "a / pow10 e \<le> 0 \<longleftrightarrow> a \<le> 0"
  using pow10_pos [of e] by (auto simp: zero_le_divide_iff divide_le_0_iff simp del: pow10_pos)

text \<open>
  \<open>adjusted x\<close> is the exponent of the most significant digit of a non-zero \<open>x\<close>. It is
  found by dividing by ten from above and by multiplying by ten from below.
\<close>

function adj_up :: "rat \<Rightarrow> int" where
  "adj_up x = (if x < 10 then 0 else 1 + adj_up (x / 10))"
  by pat_completeness auto
termination
proof (relation "measure (\<lambda>x. nat \<lfloor>x\<rfloor>)", goal_cases)
  case 1
  show ?case by simp
next
  case (2 x)
  then have "10 \<le> x" by simp
  then have "\<lfloor>x / 10\<rfloor> < \<lfloor>x\<rfloor>" and "1 \<le> \<lfloor>x\<rfloor>"
    by linarith+
  then show ?case by simp
qed

function adj_down :: "rat \<Rightarrow> int" where
  "adj_down x = (if x \<le> 0 \<or> 1 \<le> x then 0 else adj_down (10 * x) - 1)"
  by pat_completeness auto
termination
proof (relation "measure (\<lambda>x. nat \<lfloor>1 / x\<rfloor>)", goal_cases)
  case 1
  show ?case by simp
next
  case (2 x)
  then have x: "0 < x" "x < 1" by auto
  then have "1 < 1 / x" by simp
  then have le: "1 \<le> \<lfloor>1 / x\<rfloor>" by linarith
  have "of_int (10 * \<lfloor>1 / (10 * x)\<rfloor>) \<le> 10 * (1 / (10 * x))"
    by (simp only: of_int_mult of_int_numeral) (rule mult_left_mono, simp_all)
  also have "10 * (1 / (10 * x)) = 1 / x" by simp
  finally have "10 * \<lfloor>1 / (10 * x)\<rfloor> \<le> \<lfloor>1 / x\<rfloor>"
    by (simp only: le_floor_iff)
  with le have "\<lfloor>1 / (10 * x)\<rfloor> < \<lfloor>1 / x\<rfloor>" by linarith
  with le show ?case by simp
qed

declare adj_up.simps [simp del] adj_down.simps [simp del]

definition adjusted :: "decimal \<Rightarrow> int" where
  "adjusted x = (if 1 \<le> \<bar>x\<bar> then adj_up \<bar>x\<bar> else adj_down \<bar>x\<bar>)"

lemma adj_up_bounds: "1 \<le> x \<Longrightarrow> pow10 (adj_up x) \<le> x \<and> x < pow10 (adj_up x + 1)"
proof (induction x rule: adj_up.induct)
  case (1 x)
  show ?case
  proof (cases "x < 10")
    case True
    with "1.prems" show ?thesis by (simp add: adj_up.simps [of x] pow10_def)
  next
    case False
    with "1.IH" have "pow10 (adj_up (x / 10)) \<le> x / 10 \<and> x / 10 < pow10 (adj_up (x / 10) + 1)"
      by simp
    with False show ?thesis
      using pow10_succ [of "adj_up (x / 10)"] pow10_succ [of "adj_up (x / 10) + 1"]
      by (simp add: adj_up.simps [of x] add.commute)
  qed
qed

lemma adj_down_bounds:
  "0 < x \<Longrightarrow> x < 10 \<Longrightarrow>
    pow10 (adj_down x) \<le> x \<and> x < pow10 (adj_down x + 1)"
proof (induction x rule: adj_down.induct)
  case (1 x)
  show ?case
  proof (cases "1 \<le> x")
    case True
    with "1.prems" show ?thesis by (simp add: adj_down.simps [of x] pow10_def)
  next
    case False
    with 1 have "pow10 (adj_down (10 * x)) \<le> 10 * x \<and> 10 * x < pow10 (adj_down (10 * x) + 1)"
      by auto
    with False "1.prems" show ?thesis
      using pow10_succ [of "adj_down (10 * x)"] pow10_succ [of "adj_down (10 * x) - 1"]
      by (simp add: adj_down.simps [of x])
  qed
qed

lemma adjusted_bounds:
  assumes "x \<noteq> 0"
  shows "pow10 (adjusted x) \<le> \<bar>x\<bar>" and "\<bar>x\<bar> < pow10 (adjusted x + 1)"
  using assms adj_up_bounds [of "\<bar>x\<bar>"] adj_down_bounds [of "\<bar>x\<bar>"]
  by (auto simp: adjusted_def)

lemma adjusted_unique:
  assumes "pow10 e \<le> \<bar>x\<bar>" and "\<bar>x\<bar> < pow10 (e + 1)"
  shows "adjusted x = e"
proof -
  have "x \<noteq> 0" using assms(1) pow10_pos [of e] by (auto simp del: pow10_pos)
  from adjusted_bounds [OF this] assms
  have "pow10 (adjusted x) < pow10 (e + 1)" "pow10 e < pow10 (adjusted x + 1)"
    by linarith+
  then show ?thesis by simp
qed

lemma adjusted_minus [simp]: "adjusted (- x) = adjusted x"
  by (simp add: adjusted_def)

lemma adjusted_mono: "0 < x \<Longrightarrow> x \<le> y \<Longrightarrow> adjusted x \<le> adjusted y"
proof -
  assume *: "0 < x" "x \<le> y"
  then have "pow10 (adjusted x) \<le> \<bar>x\<bar>" and "\<bar>y\<bar> < pow10 (adjusted y + 1)"
    using adjusted_bounds [of x] adjusted_bounds [of y] by auto
  with * have "pow10 (adjusted x) < pow10 (adjusted y + 1)" by linarith
  then show ?thesis by simp
qed

section \<open>Rounding to an integer\<close>

definition round_half_even :: "rat \<Rightarrow> int" where
  "round_half_even x =
     (let f = \<lfloor>x\<rfloor>; r = x - of_int f
      in if r < 1 / 2 then f else if 1 / 2 < r then f + 1 else if even f then f else f + 1)"

definition round_down :: "rat \<Rightarrow> int" where
  "round_down x = (if 0 \<le> x then \<lfloor>x\<rfloor> else \<lceil>x\<rceil>)"

definition round_up :: "rat \<Rightarrow> int" where
  "round_up x = (if 0 \<le> x then \<lceil>x\<rceil> else \<lfloor>x\<rfloor>)"

lemma round_half_even_of_int [simp]: "round_half_even (of_int n) = n"
  by (simp add: round_half_even_def)

lemma round_down_of_int [simp]: "round_down (of_int n) = n"
  by (simp add: round_down_def)

lemma round_up_of_int [simp]: "round_up (of_int n) = n"
  by (simp add: round_up_def)

lemma round_half_even_near: "\<bar>of_int (round_half_even x) - x\<bar> \<le> 1 / 2"
proof -
  have b: "of_int \<lfloor>x\<rfloor> \<le> x" "x < of_int \<lfloor>x\<rfloor> + 1" by linarith+
  have "round_half_even x = \<lfloor>x\<rfloor> \<and> x - of_int \<lfloor>x\<rfloor> \<le> 1 / 2
      \<or> round_half_even x = \<lfloor>x\<rfloor> + 1 \<and> 1 / 2 \<le> x - of_int \<lfloor>x\<rfloor>"
    unfolding round_half_even_def Let_def by (auto simp: not_less)
  then show ?thesis
  proof (elim disjE conjE)
    assume r: "round_half_even x = \<lfloor>x\<rfloor>" and "x - of_int \<lfloor>x\<rfloor> \<le> 1 / 2"
    with b show ?thesis unfolding r abs_le_iff by linarith
  next
    assume r: "round_half_even x = \<lfloor>x\<rfloor> + 1" and "1 / 2 \<le> x - of_int \<lfloor>x\<rfloor>"
    with b show ?thesis unfolding r abs_le_iff of_int_add of_int_1 by linarith
  qed
qed

lemma round_half_even_mono: "x \<le> y \<Longrightarrow> round_half_even x \<le> round_half_even y"
proof -
  assume "x \<le> y"
  then have le: "\<lfloor>x\<rfloor> \<le> \<lfloor>y\<rfloor>" by (rule floor_mono)
  show ?thesis
  proof (cases "\<lfloor>x\<rfloor> = \<lfloor>y\<rfloor>")
    case True
    with \<open>x \<le> y\<close> show ?thesis by (auto simp: round_half_even_def Let_def)
  next
    case False
    with le have "\<lfloor>x\<rfloor> + 1 \<le> \<lfloor>y\<rfloor>" by simp
    then show ?thesis by (auto simp: round_half_even_def Let_def)
  qed
qed

lemma round_half_even_minus: "round_half_even (- x) = - round_half_even x"
proof (cases "x = of_int \<lfloor>x\<rfloor>")
  case True
  then obtain n where "x = of_int n" by blast
  then show ?thesis
    using round_half_even_of_int [of "- n"] by (simp del: round_half_even_of_int) (simp add: round_half_even_def)
next
  case False
  then have fl: "\<lfloor>- x\<rfloor> = - \<lfloor>x\<rfloor> - 1" by linarith
  show ?thesis by (auto simp: round_half_even_def Let_def fl)
qed

lemma round_half_even_ge: "of_int n \<le> x \<Longrightarrow> n \<le> round_half_even x"
  using round_half_even_mono [of "of_int n" x] by simp

lemma round_half_even_le: "x \<le> of_int n \<Longrightarrow> round_half_even x \<le> n"
  using round_half_even_mono [of x "of_int n"] by simp

lemma round_down_abs: "of_int \<bar>round_down x\<bar> \<le> \<bar>x\<bar>"
proof (cases "0 \<le> x")
  case True
  then show ?thesis by (simp add: round_down_def)
next
  case False
  then have "\<lceil>x\<rceil> \<le> 0" "x \<le> of_int \<lceil>x\<rceil>" by linarith+
  with False show ?thesis by (simp add: round_down_def)
qed

lemma round_down_less: "\<bar>x\<bar> < of_int \<bar>round_down x\<bar> + 1"
proof (cases "0 \<le> x")
  case True
  moreover have "x < of_int \<lfloor>x\<rfloor> + 1" by linarith
  ultimately show ?thesis by (simp add: round_down_def)
next
  case False
  then have "\<lceil>x\<rceil> \<le> 0" "of_int \<lceil>x\<rceil> < x + 1" by linarith+
  with False show ?thesis by (simp add: round_down_def)
qed

section \<open>The context\<close>

text \<open>
  \<open>rnd\<close> keeps \<open>prec\<close> digits, counted from the most significant one. \<open>fits x\<close> says that the
  context represents \<open>x\<close> exactly; every result of an operation fits.
\<close>

definition prec :: int where
  "prec = 28"

definition rnd :: "rat \<Rightarrow> decimal" where
  "rnd x = (if x = 0 then 0
            else let q = pow10 (adjusted x - (prec - 1))
                 in of_int (round_half_even (x / q)) * q)"

definition fits :: "rat \<Rightarrow> bool" where
  "fits x \<longleftrightarrow> rnd x = x"

lemma rnd_zero [simp]: "rnd 0 = 0"
  by (simp add: rnd_def)

lemma rnd_minus [simp]: "rnd (- x) = - rnd x"
  by (simp add: rnd_def Let_def round_half_even_minus)

lemma pow10_prec: "pow10 (prec - 1) = of_int (10 ^ 27)" "pow10 prec = of_int (10 ^ 28)"
  by (simp_all add: prec_def pow10_def)

lemma pow10_split:
  "pow10 (prec - 1) * pow10 (e - (prec - 1)) = pow10 e"
  "pow10 prec * pow10 (e - (prec - 1)) = pow10 (e + 1)"
  by (simp_all add: pow10_add [symmetric] add.commute)

lemma rnd_scaled_bounds:
  assumes "0 < x"
  shows "of_int (10 ^ 27) \<le> x / pow10 (adjusted x - (prec - 1))"
    and "x / pow10 (adjusted x - (prec - 1)) < of_int (10 ^ 28)"
proof -
  have b: "pow10 (adjusted x) \<le> x" "x < pow10 (adjusted x + 1)"
    using adjusted_bounds [of x] assms by auto
  show "of_int (10 ^ 27) \<le> x / pow10 (adjusted x - (prec - 1))"
    unfolding pow10_prec [symmetric] pos_le_divide_eq [OF pow10_pos] pow10_split by (rule b)
  show "x / pow10 (adjusted x - (prec - 1)) < of_int (10 ^ 28)"
    unfolding pow10_prec [symmetric] pos_divide_less_eq [OF pow10_pos] pow10_split by (rule b)
qed

lemma rnd_between:
  assumes "0 < x"
  shows "pow10 (adjusted x) \<le> rnd x" and "rnd x \<le> pow10 (adjusted x + 1)"
proof -
  define q where "q = pow10 (adjusted x - (prec - 1))"
  have q: "0 < q" by (simp add: q_def)
  have r: "rnd x = of_int (round_half_even (x / q)) * q"
    using assms by (simp add: rnd_def Let_def q_def)
  have "10 ^ 27 \<le> round_half_even (x / q)" "round_half_even (x / q) \<le> 10 ^ 28"
    unfolding q_def
    by (rule round_half_even_ge [OF rnd_scaled_bounds(1) [OF assms]],
        rule round_half_even_le [OF less_imp_le [OF rnd_scaled_bounds(2) [OF assms]]])
  then have "of_int (10 ^ 27) * q \<le> rnd x" "rnd x \<le> of_int (10 ^ 28) * q"
    unfolding r by (intro mult_right_mono less_imp_le [OF q]; simp only: of_int_le_iff)+
  then show "pow10 (adjusted x) \<le> rnd x" and "rnd x \<le> pow10 (adjusted x + 1)"
    unfolding pow10_prec [symmetric] q_def pow10_split .
qed

lemma rnd_pos: "0 < x \<Longrightarrow> 0 < rnd x"
  using rnd_between(1) [of x] pow10_pos [of "adjusted x"] by linarith

lemma rnd_mono_pos:
  assumes "0 < x" "x \<le> y"
  shows "rnd x \<le> rnd y"
proof (cases "adjusted x = adjusted y")
  case True
  with assms show ?thesis
    by (simp add: rnd_def Let_def round_half_even_mono divide_right_mono less_imp_le)
next
  case False
  with adjusted_mono [OF assms] have "adjusted x + 1 \<le> adjusted y" by simp
  then have "pow10 (adjusted x + 1) \<le> pow10 (adjusted y)" by simp
  with rnd_between(2) [of x] rnd_between(1) [of y] assms show ?thesis by linarith
qed

lemma rnd_mono: "x \<le> y \<Longrightarrow> rnd x \<le> rnd y"
proof -
  assume le: "x \<le> y"
  consider "0 < x" | "x \<le> 0" "0 \<le> y" | "y < 0" by linarith
  then show ?thesis
  proof cases
    case 1
    from rnd_mono_pos [OF this le] show ?thesis .
  next
    case 2
    have "rnd x \<le> 0" using rnd_pos [of "- x"] 2(1) by (cases "x = 0") auto
    moreover have "0 \<le> rnd y" using rnd_pos [of y] 2(2) by (cases "y = 0") auto
    ultimately show ?thesis by simp
  next
    case 3
    then show ?thesis using rnd_mono_pos [of "- y" "- x"] le by simp
  qed
qed

lemma rnd_error: "x \<noteq> 0 \<Longrightarrow> \<bar>rnd x - x\<bar> \<le> pow10 (adjusted x - (prec - 1)) / 2"
proof -
  define q where "q = pow10 (adjusted x - (prec - 1))"
  have q: "0 < q" by (simp add: q_def)
  assume "x \<noteq> 0"
  then have "rnd x - x = (of_int (round_half_even (x / q)) - x / q) * q"
    using q by (simp add: rnd_def Let_def q_def left_diff_distrib)
  then have "\<bar>rnd x - x\<bar> = \<bar>of_int (round_half_even (x / q)) - x / q\<bar> * q"
    using q by (simp add: abs_mult)
  also have "\<dots> \<le> 1 / 2 * q"
    by (rule mult_right_mono [OF round_half_even_near less_imp_le [OF q]])
  finally show ?thesis by (simp add: q_def)
qed

text \<open>
  A figure with at most 28 digits is represented exactly, wherever its point is: rounding
  leaves it alone. Whole numbers below \<open>10 ^ 28\<close> are the common case.
\<close>

lemma fits_scaled:
  assumes "\<bar>n\<bar> < 10 ^ 28"
  shows "fits (of_int n * pow10 e)"
proof (cases "n = 0")
  case True
  then show ?thesis by (simp add: fits_def)
next
  case False
  define x where "x = of_int n * pow10 e"
  define k where "k = adjusted x - (prec - 1)"
  have x0: "x \<noteq> 0" using False by (simp add: x_def)
  have ax: "\<bar>x\<bar> = of_int \<bar>n\<bar> * pow10 e"
    unfolding x_def abs_mult abs_of_pos [OF pow10_pos] by simp
  have "pow10 (adjusted x) \<le> \<bar>x\<bar>" by (rule adjusted_bounds(1) [OF x0])
  also have "\<bar>x\<bar> < of_int (10 ^ 28) * pow10 e"
    unfolding ax by (rule mult_strict_right_mono) (use assms in \<open>simp_all only: of_int_less_iff pow10_pos\<close>)
  also have "of_int (10 ^ 28) * pow10 e = pow10 (prec + e)"
    by (simp only: pow10_prec(2) [symmetric] pow10_add)
  finally have "k \<le> e" by (simp add: k_def)
  then have "pow10 e = pow10 (int (nat (e - k))) * pow10 k"
    by (simp add: pow10_add [symmetric])
  then have xk: "x = of_int (n * 10 ^ nat (e - k)) * pow10 k"
    unfolding x_def pow10_nat by (simp add: mult.assoc)
  from xk have "x / pow10 k = of_int (n * 10 ^ nat (e - k))" by simp
  then have "rnd x = of_int (n * 10 ^ nat (e - k)) * pow10 k"
    using x0 unfolding rnd_def Let_def k_def [symmetric] by (simp only: if_False round_half_even_of_int)
  also have "\<dots> = x" using xk by simp
  finally show ?thesis by (simp add: fits_def x_def)
qed

lemma fits_of_int: "\<bar>n\<bar> < 10 ^ 28 \<Longrightarrow> fits (of_int n)"
  using fits_scaled [of n 0] by simp

lemma fits_zero [simp]: "fits 0"
  by (simp add: fits_def)

lemma fits_minus [simp]: "fits (- x) \<longleftrightarrow> fits x"
  by (simp add: fits_def)

lemma rnd_numeral [simp]: "(numeral n :: int) < 10 ^ 28 \<Longrightarrow> rnd (numeral n) = numeral n"
  using fits_of_int [of "numeral n"] by (simp add: fits_def)

lemma rnd_one [simp]: "rnd 1 = 1"
  using fits_of_int [of 1] by (simp add: fits_def)

lemma rnd_digits:
  "0 < x \<Longrightarrow> \<exists>m. 0 \<le> m \<and> m \<le> 10 ^ 28 \<and> rnd x = of_int m * pow10 (adjusted x - (prec - 1))"
proof -
  assume x: "0 < x"
  let ?q = "pow10 (adjusted x - (prec - 1))"
  have "10 ^ 27 \<le> round_half_even (x / ?q)" "round_half_even (x / ?q) \<le> 10 ^ 28"
    by (rule round_half_even_ge [OF rnd_scaled_bounds(1) [OF x]],
        rule round_half_even_le [OF less_imp_le [OF rnd_scaled_bounds(2) [OF x]]])
  with x show ?thesis
    by (intro exI [of _ "round_half_even (x / ?q)"]) (simp add: rnd_def Let_def)
qed

lemma rnd_idem [simp]: "rnd (rnd x) = rnd x"
proof -
  have pos: "rnd (rnd x) = rnd x" if x: "0 < x" for x
  proof -
    obtain m where m: "0 \<le> m" "m \<le> 10 ^ 28"
      and r: "rnd x = of_int m * pow10 (adjusted x - (prec - 1))"
      using rnd_digits [OF x] by blast
    show ?thesis
    proof (cases "m = 10 ^ 28")
      case True
      have "rnd x = of_int 1 * pow10 (adjusted x + 1)"
        unfolding r True pow10_prec(2) [symmetric] pow10_split by simp
      then show ?thesis using fits_scaled [of 1] by (simp add: fits_def)
    next
      case False
      with m have "\<bar>m\<bar> < 10 ^ 28" by simp
      then show ?thesis unfolding r using fits_scaled by (simp only: fits_def)
    qed
  qed
  consider "x = 0" | "0 < x" | "0 < - x" by linarith
  then show ?thesis
  proof cases
    case 3
    then show ?thesis using pos [of "- x"] by simp
  qed (simp_all add: pos)
qed

lemma fits_rnd [simp]: "fits (rnd x)"
  by (simp add: fits_def)

section \<open>Sign and order under rounding\<close>

text \<open>
  What the engine's control flow relies on is not that arithmetic is exact but that
  rounding never changes a sign, never rounds a non-zero figure to zero and never swaps
  two figures. The interface states those laws for an arbitrary rounding.
\<close>

locale decimal_context =
  fixes r :: "rat \<Rightarrow> rat"
  assumes r_minus: "r (- x) = - r x"
    and r_pos: "0 < x \<Longrightarrow> 0 < r x"
    and r_mono: "x \<le> y \<Longrightarrow> r x \<le> r y"
    and r_idem: "r (r x) = r x"
begin

lemma r_zero: "r 0 = 0"
  using r_minus [of 0] by simp

lemma r_neg: "x < 0 \<Longrightarrow> r x < 0"
  using r_pos [of "- x"] r_minus [of x] by simp

lemma r_pos_iff: "0 < r x \<longleftrightarrow> 0 < x"
  using r_pos r_neg r_zero by (metis linorder_neqE_linordered_idom order_less_asym)

lemma r_neg_iff: "r x < 0 \<longleftrightarrow> x < 0"
  using r_pos_iff [of "- x"] r_minus [of x] by simp

lemma r_zero_iff: "r x = 0 \<longleftrightarrow> x = 0"
  using r_pos_iff [of x] r_neg_iff [of x] r_zero by (metis linorder_neqE_linordered_idom less_irrefl)

lemma r_nonneg_iff: "0 \<le> r x \<longleftrightarrow> 0 \<le> x"
  using r_neg_iff [of x] by linarith

lemma r_abs: "\<bar>r x\<bar> = r \<bar>x\<bar>"
  using r_neg_iff [of x] by (simp add: abs_if r_minus)

lemma r_le_fixed: "x \<le> y \<Longrightarrow> r y = y \<Longrightarrow> r x \<le> y"
  using r_mono [of x y] by simp

lemma r_ge_fixed: "y \<le> x \<Longrightarrow> r y = y \<Longrightarrow> y \<le> r x"
  using r_mono [of y x] by simp

end

interpretation ctx: decimal_context rnd
  by unfold_locales (simp_all add: rnd_pos rnd_mono)

lemmas rnd_sign [tw_sign, simp] =
  ctx.r_pos_iff ctx.r_neg_iff ctx.r_zero_iff ctx.r_nonneg_iff

section \<open>The operations of the source\<close>

definition dadd :: "decimal \<Rightarrow> decimal \<Rightarrow> decimal" where
  "dadd a b = rnd (a + b)"

definition dsub :: "decimal \<Rightarrow> decimal \<Rightarrow> decimal" where
  "dsub a b = rnd (a - b)"

definition dmul :: "decimal \<Rightarrow> decimal \<Rightarrow> decimal" where
  "dmul a b = rnd (a * b)"

definition dneg :: "decimal \<Rightarrow> decimal" where
  "dneg a = rnd (- a)"

definition dabs :: "decimal \<Rightarrow> decimal" where
  "dabs a = rnd \<bar>a\<bar>"

text \<open>Division by zero is a signal of the context (\<open>DivisionByZero\<close>, or \<open>InvalidOperation\<close>
  for \<open>0 / 0\<close>), so it is a result.\<close>

definition ddiv :: "decimal \<Rightarrow> decimal \<Rightarrow> decimal res" where
  "ddiv a b =
     (if b = 0 then Inl (if a = 0 then InvalidOperation else DivisionByZero)
      else Inr (rnd (a / b)))"

text \<open>\<open>sum(xs, Decimal(0))\<close> folds from the left.\<close>

definition dsum :: "decimal list \<Rightarrow> decimal" where
  "dsum xs = foldl dadd 0 xs"

text \<open>\<open>int(d)\<close> truncates toward zero.\<close>

definition dint :: "decimal \<Rightarrow> int" where
  "dint x = round_down x"

text \<open>\<open>x.quantize(Decimal(1).scaleb(e), rounding)\<close>: the multiple of \<open>10 ^ e\<close> that the mode
  picks, refused with \<open>InvalidOperation\<close> when it needs more than 28 digits.\<close>

datatype rounding = ROUND_DOWN | ROUND_UP | ROUND_HALF_EVEN

fun round_by :: "rounding \<Rightarrow> rat \<Rightarrow> int" where
  "round_by ROUND_DOWN x = round_down x"
| "round_by ROUND_UP x = round_up x"
| "round_by ROUND_HALF_EVEN x = round_half_even x"

definition quantize :: "decimal \<Rightarrow> int \<Rightarrow> rounding \<Rightarrow> decimal res" where
  "quantize x e m =
     (let n = round_by m (x / pow10 e)
      in if \<bar>n\<bar> < 10 ^ 28 then Inr (of_int n * pow10 e) else Inl InvalidOperation)"

lemma dadd_sign [tw_sign, simp]:
  "dadd a b = 0 \<longleftrightarrow> a + b = 0" "0 < dadd a b \<longleftrightarrow> 0 < a + b" "dadd a b < 0 \<longleftrightarrow> a + b < 0"
  by (simp_all add: dadd_def)

lemma dsub_sign [tw_sign, simp]:
  "dsub a b = 0 \<longleftrightarrow> a = b" "0 < dsub a b \<longleftrightarrow> b < a" "dsub a b < 0 \<longleftrightarrow> a < b"
  by (simp_all add: dsub_def)

lemma dmul_sign [tw_sign, simp]:
  "dmul a b = 0 \<longleftrightarrow> a = 0 \<or> b = 0" "0 < dmul a b \<longleftrightarrow> 0 < a * b" "dmul a b < 0 \<longleftrightarrow> a * b < 0"
  by (simp_all add: dmul_def)

lemma dneg_sign [tw_sign, simp]:
  "dneg a = 0 \<longleftrightarrow> a = 0" "0 < dneg a \<longleftrightarrow> a < 0" "dneg a < 0 \<longleftrightarrow> 0 < a"
  by (simp_all add: dneg_def)

lemma dabs_sign [tw_sign, simp]:
  "dabs a = 0 \<longleftrightarrow> a = 0" "0 < dabs a \<longleftrightarrow> a \<noteq> 0" "0 \<le> dabs a"
  by (simp_all add: dabs_def)

lemma dabs_sum_zero [simp]: "dabs a + dabs b = 0 \<longleftrightarrow> a = 0 \<and> b = 0"
  using dabs_sign(3) [of a] dabs_sign(3) [of b] by (simp add: add_nonneg_eq_0_iff)

lemma dec_fits [simp]:
  "fits (dadd a b)" "fits (dsub a b)" "fits (dmul a b)" "fits (dneg a)" "fits (dabs a)"
  by (simp_all add: dadd_def dsub_def dmul_def dneg_def dabs_def)

lemma fits_abs [simp]: "fits \<bar>a\<bar> \<longleftrightarrow> fits a"
  by (simp add: abs_if)

text \<open>An operation whose exact result fits is exact.\<close>

lemma dec_exact:
  "fits (a + b) \<Longrightarrow> dadd a b = a + b"
  "fits (a - b) \<Longrightarrow> dsub a b = a - b"
  "fits (a * b) \<Longrightarrow> dmul a b = a * b"
  "fits a \<Longrightarrow> dneg a = - a"
  "fits a \<Longrightarrow> dabs a = \<bar>a\<bar>"
  by (simp_all add: dadd_def dsub_def dmul_def dneg_def dabs_def fits_def flip: ctx.r_abs)

lemma dadd_zero: "fits a \<Longrightarrow> dadd a 0 = a" "fits a \<Longrightarrow> dadd 0 a = a"
  by (simp_all add: dadd_def fits_def)

lemma dmul_unit: "fits a \<Longrightarrow> dmul a 1 = a" "fits a \<Longrightarrow> dmul a (- 1) = - a"
  by (simp_all add: dmul_def fits_def)

lemma dadd_commute: "dadd a b = dadd b a"
  by (simp add: dadd_def add.commute)

lemma dsum_fits [simp]: "fits (dsum xs)"
  by (induction xs rule: rev_induct) (simp_all add: dsum_def)

lemma dsum_Nil [simp]: "dsum [] = 0"
  by (simp add: dsum_def)

lemma dsum_snoc [simp]: "dsum (xs @ [x]) = dadd (dsum xs) x"
  by (simp add: dsum_def)

lemma dsum_singleton: "fits x \<Longrightarrow> dsum [x] = x"
  by (simp add: dsum_def dadd_zero)

lemma dsum_pos: "xs \<noteq> [] \<Longrightarrow> \<forall>x \<in> set xs. 0 < x \<Longrightarrow> 0 < dsum xs"
proof (induction xs rule: rev_induct)
  case Nil
  then show ?case by simp
next
  case (snoc x xs)
  then show ?case by (cases "xs = []") (auto simp: dsum_def intro: add_pos_pos)
qed

lemma quantize_Inr:
  "quantize x e m = Inr y \<Longrightarrow> y = of_int (round_by m (x / pow10 e)) * pow10 e"
  by (simp add: quantize_def Let_def split: if_splits)

lemma quantize_fits: "quantize x e m = Inr y \<Longrightarrow> fits y"
  by (auto simp: quantize_def Let_def fits_scaled split: if_splits)

lemma quantize_error: "quantize x e m = Inl err \<Longrightarrow> err = InvalidOperation"
  by (simp add: quantize_def Let_def split: if_splits)

lemma quantize_down_le: "quantize x e ROUND_DOWN = Inr y \<Longrightarrow> \<bar>y\<bar> \<le> \<bar>x\<bar>"
proof -
  assume "quantize x e ROUND_DOWN = Inr y"
  then have y: "\<bar>y\<bar> = of_int \<bar>round_down (x / pow10 e)\<bar> * pow10 e"
    by (auto dest!: quantize_Inr simp: abs_mult abs_of_pos)
  have "of_int \<bar>round_down (x / pow10 e)\<bar> * pow10 e \<le> \<bar>x / pow10 e\<bar> * pow10 e"
    by (rule mult_right_mono [OF round_down_abs]) (simp add: less_imp_le)
  also have "\<dots> = \<bar>x\<bar>" by (simp add: abs_of_pos)
  finally show ?thesis using y by simp
qed

lemma quantize_down_near: "quantize x e ROUND_DOWN = Inr y \<Longrightarrow> \<bar>x\<bar> < \<bar>y\<bar> + pow10 e"
proof -
  assume "quantize x e ROUND_DOWN = Inr y"
  then have y: "\<bar>y\<bar> = of_int \<bar>round_down (x / pow10 e)\<bar> * pow10 e"
    by (auto dest!: quantize_Inr simp: abs_mult abs_of_pos)
  have "\<bar>x\<bar> = \<bar>x / pow10 e\<bar> * pow10 e" by (simp add: abs_of_pos)
  also have "\<dots> < (of_int \<bar>round_down (x / pow10 e)\<bar> + 1) * pow10 e"
    by (rule mult_strict_right_mono [OF round_down_less]) simp
  finally show ?thesis using y by (simp add: distrib_right)
qed

end
