(* ===== verification/TW_Ids.thy ===== *)
theory TW_Ids
  imports TW_Prelude
begin

text \<open>
  Deterministic identities, \<open>src/src/tickwright/domain/ids.py\<close>: the structured form of a
  signal id with its two directions, and the client order id derived from it. Decimal
  printing and reading of integers are Python's \<open>str(int)\<close> and \<open>int(str)\<close> (surrounding
  white space, a sign, and single underscores between digits are accepted; digits beyond
  ASCII and the interpreter's cap of 4300 digits are not modelled).
\<close>

section \<open>Integers as text\<close>

definition digit_char :: "nat \<Rightarrow> char" where
  "digit_char d = char_of (48 + d)"

definition digit_of :: "char \<Rightarrow> nat option" where
  "digit_of c = (let n = of_char c :: nat in if 48 \<le> n \<and> n \<le> 57 then Some (n - 48) else None)"

fun show_nat :: "nat \<Rightarrow> string" where
  "show_nat n = (if n < 10 then [digit_char n] else show_nat (n div 10) @ [digit_char (n mod 10)])"

declare show_nat.simps [simp del]

definition show_int :: "int \<Rightarrow> string" where
  "show_int i = (if i < 0 then CHR ''-'' # show_nat (nat (- i)) else show_nat (nat i))"

fun read_digits :: "nat \<Rightarrow> bool \<Rightarrow> string \<Rightarrow> nat option" where
  "read_digits acc prev [] = (if prev then Some acc else None)"
| "read_digits acc prev (c # cs) =
     (case digit_of c of
        Some d \<Rightarrow> read_digits (10 * acc + d) True cs
      | None \<Rightarrow> if c = CHR ''_'' \<and> prev then read_digits acc False cs else None)"

definition is_space :: "char \<Rightarrow> bool" where
  "is_space c = (let n = of_char c :: nat in n = 32 \<or> 9 \<le> n \<and> n \<le> 13 \<or> 28 \<le> n \<and> n \<le> 31)"

definition strip :: "string \<Rightarrow> string" where
  "strip s = rev (dropWhile is_space (rev (dropWhile is_space s)))"

fun read_signed :: "string \<Rightarrow> int option" where
  "read_signed [] = None"
| "read_signed (c # cs) =
     (if c = CHR ''-'' then map_option (\<lambda>n. - int n) (read_digits 0 False cs)
      else if c = CHR ''+'' then map_option int (read_digits 0 False cs)
      else map_option int (read_digits 0 False (c # cs)))"

definition read_int :: "string \<Rightarrow> int option" where
  "read_int s = read_signed (strip s)"

lemma digit_char_code: "d < 10 \<Longrightarrow> (of_char (digit_char d) :: nat) = 48 + d"
  by (simp add: digit_char_def)

lemma digit_of_digit_char [simp]: "d < 10 \<Longrightarrow> digit_of (digit_char d) = Some d"
  by (simp add: digit_of_def digit_char_code Let_def)

lemma digit_char_not_space: "d < 10 \<Longrightarrow> \<not> is_space (digit_char d)"
  by (simp add: is_space_def digit_char_code Let_def)

lemma digit_char_not_mark:
  assumes "d < 10"
  shows "digit_char d \<noteq> CHR ''-''" "digit_char d \<noteq> CHR ''+''" "digit_char d \<noteq> CHR '':''"
  using assms digit_char_code [of d] by auto

lemma read_digits_append:
  "read_digits acc prev xs = Some m \<Longrightarrow> d < 10 \<Longrightarrow>
    read_digits acc prev (xs @ [digit_char d]) = Some (10 * m + d)"
  by (induction xs arbitrary: acc prev) (auto split: option.splits if_splits)

lemma read_show_nat: "read_digits 0 False (show_nat n) = Some n"
proof (induction n rule: show_nat.induct)
  case (1 n)
  show ?case
  proof (cases "n < 10")
    case True
    then show ?thesis by (simp add: show_nat.simps [of n])
  next
    case False
    with 1 have "read_digits 0 False (show_nat (n div 10)) = Some (n div 10)" by simp
    with False show ?thesis
      by (simp add: show_nat.simps [of n] read_digits_append)
  qed
qed

lemma show_nat_chars: "c \<in> set (show_nat n) \<Longrightarrow> \<exists>d < 10. c = digit_char d"
proof (induction n rule: show_nat.induct)
  case (1 n)
  show ?case
  proof (cases "n < 10")
    case True
    with "1.prems" show ?thesis by (auto simp: show_nat.simps [of n])
  next
    case False
    have m: "n mod 10 < 10" by simp
    with False 1 show ?thesis by (simp add: show_nat.simps [of n]) (metis m)
  qed
qed

lemma show_nat_nonempty [simp]: "show_nat n \<noteq> []"
  by (subst show_nat.simps) simp

lemma show_int_no_colon: "CHR '':'' \<notin> set (show_int i)"
  by (auto simp: show_int_def dest!: show_nat_chars digit_char_not_mark(3))

lemma show_int_no_space: "c \<in> set (show_int i) \<Longrightarrow> \<not> is_space c"
  by (auto simp: show_int_def is_space_def Let_def split: if_splits
      dest!: show_nat_chars simp: digit_char_code)

lemma strip_no_space: "(\<And>c. c \<in> set s \<Longrightarrow> \<not> is_space c) \<Longrightarrow> strip s = s"
proof -
  assume *: "\<And>c. c \<in> set s \<Longrightarrow> \<not> is_space c"
  have drop: "dropWhile is_space xs = xs" if "set xs \<subseteq> set s" for xs
    using that * by (cases xs) auto
  show ?thesis unfolding strip_def by (simp add: drop)
qed

lemma read_show_int [simp]: "read_int (show_int i) = Some i"
proof -
  have "strip (show_int i) = show_int i"
    by (rule strip_no_space) (rule show_int_no_space)
  moreover have "read_signed (show_int i) = Some i"
  proof (cases "i < 0")
    case True
    then show ?thesis by (simp add: show_int_def read_show_nat)
  next
    case False
    obtain c cs where s: "show_nat (nat i) = c # cs" by (cases "show_nat (nat i)") auto
    then obtain d where d: "d < 10" "c = digit_char d"
      using show_nat_chars [of c "nat i"] by auto
    have "read_digits 0 False (c # cs) = Some (nat i)"
      using read_show_nat [of "nat i"] s by simp
    with False show ?thesis
      by (simp only: show_int_def if_False s read_signed.simps d digit_char_not_mark) simp
  qed
  ultimately show ?thesis by (simp add: read_int_def)
qed

section \<open>Signal ids\<close>

record signal_id =
  si_strategy_id :: string
  si_symbol :: string
  si_seq :: int

definition render :: "signal_id \<Rightarrow> string" where
  "render s = si_strategy_id s @ '':'' @ si_symbol s @ '':'' @ show_int (si_seq s)"

text \<open>\<open>rsplit(":", 2)\<close>, refused unless it yields three fields.\<close>

definition rsplit2 :: "string \<Rightarrow> (string \<times> string \<times> string) res" where
  "rsplit2 s =
     (case dropWhile (\<lambda>c. c \<noteq> CHR '':'') (rev s) of
        [] \<Rightarrow> Inl ValueError
      | _ # t \<Rightarrow>
          (case dropWhile (\<lambda>c. c \<noteq> CHR '':'') t of
             [] \<Rightarrow> Inl ValueError
           | _ # u \<Rightarrow> Inr (rev u, rev (takeWhile (\<lambda>c. c \<noteq> CHR '':'') t),
                         rev (takeWhile (\<lambda>c. c \<noteq> CHR '':'') (rev s)))))"

definition parse :: "string \<Rightarrow> signal_id res" where
  "parse s =
     bind_res (rsplit2 s) (\<lambda>(strategy, symbol, seq).
       case read_int seq of
         None \<Rightarrow> Inl ValueError
       | Some n \<Rightarrow> Inr \<lparr>si_strategy_id = strategy, si_symbol = symbol, si_seq = n\<rparr>)"

lemma takeWhile_colon: "CHR '':'' \<notin> set xs \<Longrightarrow>
    takeWhile (\<lambda>c. c \<noteq> CHR '':'') (xs @ CHR '':'' # ys) = xs"
  by (induction xs) auto

lemma dropWhile_colon: "CHR '':'' \<notin> set xs \<Longrightarrow>
    dropWhile (\<lambda>c. c \<noteq> CHR '':'') (xs @ CHR '':'' # ys) = CHR '':'' # ys"
  by (induction xs) auto

lemma rsplit2_render:
  assumes "CHR '':'' \<notin> set symb" and "CHR '':'' \<notin> set seq"
  shows "rsplit2 (st @ '':'' @ symb @ '':'' @ seq) = Inr (st, symb, seq)"
proof -
  have r: "rev (st @ '':'' @ symb @ '':'' @ seq) =
      rev seq @ CHR '':'' # rev symb @ CHR '':'' # rev st"
    by simp
  show ?thesis
    unfolding rsplit2_def r using assms by (simp add: takeWhile_colon dropWhile_colon)
qed

text \<open>The engine's reading of a signal id: its seq, or the \<open>ValueError\<close> of a malformed id.\<close>

definition parsed_seq :: "string \<Rightarrow> int res" where
  "parsed_seq s = bind_res (parse s) (\<lambda>p. Inr (si_seq p))"

text \<open>
  \<open>derive_cloid\<close> hashes the id to 128 bits. The digest (BLAKE2b, as hex text) is the
  parameter \<open>digest\<close> of every definition that derives an id.
\<close>

definition derive_cloid :: "(string \<Rightarrow> string) \<Rightarrow> string \<Rightarrow> string" where
  "derive_cloid digest s = ''0x'' @ digest s"

lemma derive_cloid_inj: "inj digest \<Longrightarrow> derive_cloid digest s = derive_cloid digest t \<longleftrightarrow> s = t"
  by (simp add: derive_cloid_def inj_eq)

text \<open>
  A signal id is recovered from its wire form: whatever the strategy id contains,
  colons included, parsing the rendered form of a signal with a colon-free symbol gives
  back the strategy id, the symbol and the seq, so the seq high-water a restart computes
  from stored ids is the one that was issued.
\<close>

theorem parse_render:
  assumes "CHR '':'' \<notin> set (si_symbol s)"
  shows "parse (render s) = Inr s"
  unfolding parse_def render_def
  by (simp only: rsplit2_render [OF assms show_int_no_colon]) simp

theorem parse_render_witness:
  "parse (render \<lparr>si_strategy_id = ''desk:a'', si_symbol = ''BTC'', si_seq = 12\<rparr>)
    = Inr \<lparr>si_strategy_id = ''desk:a'', si_symbol = ''BTC'', si_seq = 12\<rparr>"
  by (rule parse_render) simp

lemma parsed_seq_render:
  "CHR '':'' \<notin> set symb \<Longrightarrow>
    parsed_seq (render \<lparr>si_strategy_id = st, si_symbol = symb, si_seq = n\<rparr>) = Inr n"
  unfolding parsed_seq_def parse_def render_def signal_id.select_convs
  by (subst rsplit2_render [OF _ show_int_no_colon]) simp_all

end
