(* ===== verification/TW_Orders.thy ===== *)
theory TW_Orders
  imports TW_Decimal TW_Ids
begin

text \<open>
  The event schema and the order saga: \<open>src/src/tickwright/domain/enums.py\<close>,
  \<open>events.py\<close> and \<open>order.py\<close>. An order is a record advanced by \<open>apply_event\<close>, which is
  the only place a state changes: it deduplicates on the event id and refuses every
  transition outside the table. \<open>order_ok\<close> is the saga's invariant; \<open>saga_step\<close> is the
  step relation of a saga under any sequence of events and cancel requests.
\<close>

section \<open>Enumerations\<close>

datatype side = BUY | SELL

datatype order_type = MARKET | LIMIT

datatype time_in_force = GTC | IOC

datatype order_state =
    PENDING | SUBMITTED | LIVE | PARTIALLY_FILLED | FILLED
  | CANCELLED | DENIED | REJECTED | FAILED

fun state_value :: "order_state \<Rightarrow> string" where
  "state_value PENDING = ''pending''"
| "state_value SUBMITTED = ''submitted''"
| "state_value LIVE = ''live''"
| "state_value PARTIALLY_FILLED = ''partially_filled''"
| "state_value FILLED = ''filled''"
| "state_value CANCELLED = ''cancelled''"
| "state_value DENIED = ''denied''"
| "state_value REJECTED = ''rejected''"
| "state_value FAILED = ''failed''"

section \<open>Signals\<close>

record place_signal =
  ps_strategy_id :: string
  ps_symbol :: string
  ps_seq :: int
  ps_side :: side
  ps_quantity :: decimal
  ps_order_type :: order_type
  ps_time_in_force :: time_in_force
  ps_price :: "decimal option"
  ps_post_only :: bool
  ps_reduce_only :: bool

datatype signal =
    PlaceSignal place_signal
  | CancelSignal (cs_strategy_id: string) (cs_symbol: string) (cs_seq: int)
      (cs_target_signal_id: string)
  | CancelAllSignal (ca_strategy_id: string) (ca_symbol: string) (ca_seq: int)

fun signal_sid :: "signal \<Rightarrow> signal_id" where
  "signal_sid (PlaceSignal p) =
     \<lparr>si_strategy_id = ps_strategy_id p, si_symbol = ps_symbol p, si_seq = ps_seq p\<rparr>"
| "signal_sid (CancelSignal st sy n _) = \<lparr>si_strategy_id = st, si_symbol = sy, si_seq = n\<rparr>"
| "signal_sid (CancelAllSignal st sy n) = \<lparr>si_strategy_id = st, si_symbol = sy, si_seq = n\<rparr>"

definition signal_id_of :: "signal \<Rightarrow> string" where
  "signal_id_of s = render (signal_sid s)"

section \<open>Venue reports and order events\<close>

record order_status_report =
  sr_ts_event :: int
  sr_ts_init :: int
  sr_cloid :: string
  sr_symbol :: string
  sr_status :: order_state
  sr_venue_oid :: "string option"
  sr_reason :: "string option"
  sr_reconciliation :: bool

record fill_report =
  fr_ts_event :: int
  fr_ts_init :: int
  fr_cloid :: string
  fr_symbol :: string
  fr_trade_id :: string
  fr_quantity :: decimal
  fr_price :: decimal
  fr_fee :: decimal
  fr_reconciliation :: bool

definition fill_event_id :: "string \<Rightarrow> string \<Rightarrow> string" where
  "fill_event_id cloid trade_id = cloid @ '':fill:'' @ trade_id"

definition fr_event_id :: "fill_report \<Rightarrow> string" where
  "fr_event_id r = fill_event_id (fr_cloid r) (fr_trade_id r)"

record order_env =
  ev_ts_event :: int
  ev_ts_init :: int
  ev_cloid :: string
  ev_strategy_id :: string
  ev_signal_id :: string
  ev_symbol :: string
  ev_venue_oid :: "string option"
  ev_reconciliation :: bool

record fill_body =
  fb_trade_id :: string
  fb_quantity :: decimal
  fb_price :: decimal
  fb_cum_qty :: decimal
  fb_fee :: decimal

datatype order_event =
    OrderPlaced (env: order_env)
  | OrderSubmitted (env: order_env)
  | OrderLive (env: order_env)
  | OrderPartiallyFilled (env: order_env) fill_body
  | OrderFilled (env: order_env) fill_body
  | OrderCancelled (env: order_env)
  | OrderDenied (env: order_env) string
  | OrderRejected (env: order_env) string
  | OrderFailed (env: order_env) string

fun event_state :: "order_event \<Rightarrow> order_state" where
  "event_state (OrderPlaced _) = PENDING"
| "event_state (OrderSubmitted _) = SUBMITTED"
| "event_state (OrderLive _) = LIVE"
| "event_state (OrderPartiallyFilled _ _) = PARTIALLY_FILLED"
| "event_state (OrderFilled _ _) = FILLED"
| "event_state (OrderCancelled _) = CANCELLED"
| "event_state (OrderDenied _ _) = DENIED"
| "event_state (OrderRejected _ _) = REJECTED"
| "event_state (OrderFailed _ _) = FAILED"

text \<open>The fill an event carries (\<open>OrderFillEvent\<close>), and the reason of a refusal.\<close>

fun event_fill :: "order_event \<Rightarrow> fill_body option" where
  "event_fill (OrderPartiallyFilled _ f) = Some f"
| "event_fill (OrderFilled _ f) = Some f"
| "event_fill _ = None"

fun event_reason :: "order_event \<Rightarrow> string option" where
  "event_reason (OrderDenied _ r) = Some r"
| "event_reason (OrderRejected _ r) = Some r"
| "event_reason (OrderFailed _ r) = Some r"
| "event_reason _ = None"

definition event_id :: "order_event \<Rightarrow> string" where
  "event_id e =
     (case event_fill e of
        Some f \<Rightarrow> fill_event_id (ev_cloid (env e)) (fb_trade_id f)
      | None \<Rightarrow> ev_cloid (env e) @ '':'' @ state_value (event_state e))"

lemma state_value_inj [simp]: "state_value a = state_value b \<longleftrightarrow> a = b"
  by (cases a; cases b) simp_all

lemma state_value_not_fill: "state_value s \<noteq> ''fill:'' @ t"
  by (cases s) simp_all

text \<open>
  Within one cloid the dedup key tells exactly the same facts apart as the events
  themselves: two events share a key iff both are fills of one trade or both record entry
  into the same state without a fill.
\<close>

lemma event_id_eq_iff:
  assumes "ev_cloid (env e) = ev_cloid (env e')"
  shows "event_id e = event_id e' \<longleftrightarrow>
    (case (event_fill e, event_fill e') of
       (Some f, Some f') \<Rightarrow> fb_trade_id f = fb_trade_id f'
     | (None, None) \<Rightarrow> event_state e = event_state e'
     | _ \<Rightarrow> False)"
  using assms state_value_not_fill state_value_not_fill [THEN not_sym]
  by (auto simp: event_id_def fill_event_id_def split: option.split)

section \<open>The order saga\<close>

definition legal_transitions :: "(order_state \<times> order_state) list" where
  "legal_transitions =
    [(PENDING, SUBMITTED), (PENDING, DENIED), (PENDING, FAILED),
     (SUBMITTED, LIVE), (SUBMITTED, PARTIALLY_FILLED), (SUBMITTED, FILLED),
     (SUBMITTED, CANCELLED), (SUBMITTED, REJECTED), (SUBMITTED, FAILED),
     (LIVE, PARTIALLY_FILLED), (LIVE, FILLED), (LIVE, CANCELLED), (LIVE, REJECTED),
     (PARTIALLY_FILLED, PARTIALLY_FILLED), (PARTIALLY_FILLED, FILLED),
     (PARTIALLY_FILLED, CANCELLED)]"

definition legal :: "order_state \<Rightarrow> order_state \<Rightarrow> bool" where
  "legal a b \<longleftrightarrow> (a, b) \<in> set legal_transitions"

fun terminal :: "order_state \<Rightarrow> bool" where
  "terminal FILLED = True"
| "terminal CANCELLED = True"
| "terminal DENIED = True"
| "terminal REJECTED = True"
| "terminal FAILED = True"
| "terminal _ = False"

definition working_state :: "order_state \<Rightarrow> bool" where
  "working_state s \<longleftrightarrow> s = LIVE \<or> s = PARTIALLY_FILLED"

record order =
  o_cloid :: string
  o_strategy_id :: string
  o_signal_id :: string
  o_symbol :: string
  o_side :: side
  o_quantity :: decimal
  o_type :: order_type
  o_state :: order_state
  o_cum_qty :: decimal
  o_venue_oid :: "string option"
  o_acked_ts_ns :: "int option"
  o_created_ts_ns :: "int option"
  o_reason :: "string option"
  o_cancel_requested :: bool
  o_cancel_requested_ts :: "int option"
  o_cancel_signal_id :: "string option"
  o_split_basis :: "(string \<times> decimal) list option"
  o_price :: "decimal option"
  o_time_in_force :: "time_in_force option"
  o_post_only :: bool
  o_reduce_only :: bool
  o_applied_event_ids :: "string set"

definition is_terminal :: "order \<Rightarrow> bool" where
  "is_terminal od = terminal (o_state od)"

definition has_prefix :: "string \<Rightarrow> string \<Rightarrow> bool" where
  "has_prefix p s \<longleftrightarrow> take (length p) s = p"

definition fill_count :: "order \<Rightarrow> nat" where
  "fill_count od = card (Set.filter (has_prefix (o_cloid od @ '':fill:'')) (o_applied_event_ids od))"

definition request_cancel :: "order \<Rightarrow> string \<Rightarrow> int \<Rightarrow> bool \<times> order" where
  "request_cancel od sid ts =
     (if is_terminal od \<or> o_cancel_requested od then (False, od)
      else (True, od\<lparr>o_cancel_requested := True, o_cancel_requested_ts := Some ts,
                    o_cancel_signal_id := Some sid\<rparr>))"

text \<open>The three parses of \<open>request_cancel_all\<close> happen in the order of the source, each only
  when the tests before it let the call through.\<close>

definition request_cancel_all :: "order \<Rightarrow> string \<Rightarrow> int \<Rightarrow> (bool \<times> order) res" where
  "request_cancel_all od sid ts =
     (if is_terminal od then Inr (False, od)
      else bind_res (parsed_seq sid) (\<lambda>seq.
        bind_res (parsed_seq (o_signal_id od)) (\<lambda>own.
          if seq \<le> own then Inr (False, od)
          else bind_res
            (case o_cancel_signal_id od of
               None \<Rightarrow> Inr False
             | Some c \<Rightarrow> bind_res (parsed_seq c) (\<lambda>n. Inr (seq \<le> n)))
            (\<lambda>later.
              if later then Inr (False, od)
              else Inr (True, od\<lparr>o_cancel_requested := True,
                o_cancel_requested_ts :=
                  (case o_cancel_requested_ts od of None \<Rightarrow> Some ts | Some t \<Rightarrow> Some t),
                o_cancel_signal_id := Some sid\<rparr>)))))"

definition mark_operator_cancel :: "order \<Rightarrow> int \<Rightarrow> order" where
  "mark_operator_cancel od ts =
     (if is_terminal od then od
      else od\<lparr>o_cancel_requested := True,
             o_cancel_requested_ts :=
               (case o_cancel_requested_ts od of None \<Rightarrow> Some ts | Some t \<Rightarrow> Some t)\<rparr>)"

definition apply_event :: "order \<Rightarrow> order_event \<Rightarrow> (bool \<times> order) res" where
  "apply_event od e =
     (if event_id e \<in> o_applied_event_ids od then Inr (False, od)
      else if \<not> legal (o_state od) (event_state e) then Inl (InvariantViolation IllegalTransition)
      else Inr (True, od\<lparr>
        o_state := event_state e,
        o_venue_oid := (case ev_venue_oid (env e) of None \<Rightarrow> o_venue_oid od | Some v \<Rightarrow> Some v),
        o_acked_ts_ns := (if event_state e = LIVE then Some (ev_ts_event (env e)) else o_acked_ts_ns od),
        o_cum_qty := (case event_fill e of None \<Rightarrow> o_cum_qty od | Some f \<Rightarrow> fb_cum_qty f),
        o_reason := (case event_reason e of None \<Rightarrow> o_reason od | Some r \<Rightarrow> Some r),
        o_applied_event_ids := insert (event_id e) (o_applied_event_ids od)\<rparr>))"

text \<open>The raw fill of \<open>record_fill\<close>: its keyword arguments.\<close>

record raw_fill =
  rf_trade_id :: string
  rf_quantity :: decimal
  rf_price :: decimal
  rf_ts_event :: int
  rf_ts_init :: int
  rf_fee :: decimal
  rf_reconciliation :: bool

definition fill_event :: "order \<Rightarrow> raw_fill \<Rightarrow> order_event" where
  "fill_event od f =
     (let cum = dadd (o_cum_qty od) (rf_quantity f);
          e = \<lparr>ev_ts_event = rf_ts_event f, ev_ts_init = rf_ts_init f, ev_cloid = o_cloid od,
               ev_strategy_id = o_strategy_id od, ev_signal_id = o_signal_id od, ev_symbol = o_symbol od,
               ev_venue_oid = o_venue_oid od, ev_reconciliation = rf_reconciliation f\<rparr>;
          b = \<lparr>fb_trade_id = rf_trade_id f, fb_quantity = rf_quantity f, fb_price = rf_price f,
               fb_cum_qty = cum, fb_fee = rf_fee f\<rparr>
      in if o_quantity od \<le> cum then OrderFilled e b else OrderPartiallyFilled e b)"

definition record_fill :: "order \<Rightarrow> raw_fill \<Rightarrow> (order_event option \<times> order) res" where
  "record_fill od f =
     (if rf_quantity f \<le> 0 then Inl (InvariantViolation NonPositiveOrderFill)
      else let e = fill_event od f
           in bind_res (apply_event od e) (\<lambda>(advanced, od').
                Inr (if advanced then Some e else None, od')))"

section \<open>Correctness of the saga\<close>

subsection \<open>What one application does\<close>

lemma apply_event_cases:
  obtains (dup) "event_id e \<in> o_applied_event_ids od" "apply_event od e = Inr (False, od)"
  | (illegal) "event_id e \<notin> o_applied_event_ids od" "\<not> legal (o_state od) (event_state e)"
      "apply_event od e = Inl (InvariantViolation IllegalTransition)"
  | (advance) od' where "event_id e \<notin> o_applied_event_ids od" "legal (o_state od) (event_state e)"
      "apply_event od e = Inr (True, od')" "o_state od' = event_state e"
      "o_applied_event_ids od' = insert (event_id e) (o_applied_event_ids od)"
      "o_cum_qty od' = (case event_fill e of None \<Rightarrow> o_cum_qty od | Some f \<Rightarrow> fb_cum_qty f)"
  by (cases "event_id e \<in> o_applied_event_ids od"; cases "legal (o_state od) (event_state e)")
    (auto simp: apply_event_def)

lemma apply_event_frame [tw_frame]:
  "apply_event od e = Inr (b, od') \<Longrightarrow>
    o_cloid od' = o_cloid od \<and> o_quantity od' = o_quantity od \<and> o_side od' = o_side od
    \<and> o_symbol od' = o_symbol od \<and> o_strategy_id od' = o_strategy_id od
    \<and> o_signal_id od' = o_signal_id od \<and> o_split_basis od' = o_split_basis od
    \<and> o_cancel_requested od' = o_cancel_requested od
    \<and> o_cancel_signal_id od' = o_cancel_signal_id od
    \<and> o_applied_event_ids od \<subseteq> o_applied_event_ids od'"
  by (auto simp: apply_event_def split: if_splits)

lemma apply_event_Inr:
  "apply_event od e = Inr (b, od') \<Longrightarrow> event_id e \<in> o_applied_event_ids od'
    \<and> (\<not> b \<longrightarrow> od' = od) \<and> (b \<longrightarrow> legal (o_state od) (o_state od') \<and> o_state od' = event_state e)"
  by (rule apply_event_cases [of e od]) auto

lemma apply_event_dup: "event_id e \<in> o_applied_event_ids od \<Longrightarrow> apply_event od e = Inr (False, od)"
  by (simp add: apply_event_def)

lemma legal_terminal: "terminal s \<Longrightarrow> \<not> legal s t"
  by (cases s) (auto simp: legal_def legal_transitions_def)

lemma legal_simps:
  "legal PENDING t \<longleftrightarrow> t \<in> {SUBMITTED, DENIED, FAILED}"
  "legal SUBMITTED t \<longleftrightarrow> t \<in> {LIVE, PARTIALLY_FILLED, FILLED, CANCELLED, REJECTED, FAILED}"
  "legal LIVE t \<longleftrightarrow> t \<in> {PARTIALLY_FILLED, FILLED, CANCELLED, REJECTED}"
  "legal PARTIALLY_FILLED t \<longleftrightarrow> t \<in> {PARTIALLY_FILLED, FILLED, CANCELLED}"
  by (auto simp: legal_def legal_transitions_def)

lemma fill_event_fields [simp]:
  "event_id (fill_event od f) = fill_event_id (o_cloid od) (rf_trade_id f)"
  "ev_cloid (env (fill_event od f)) = o_cloid od"
  by (simp_all add: fill_event_def event_id_def Let_def)

lemma fill_event_cum [simp]:
  "event_fill (fill_event od f) = Some \<lparr>fb_trade_id = rf_trade_id f, fb_quantity = rf_quantity f,
      fb_price = rf_price f, fb_cum_qty = dadd (o_cum_qty od) (rf_quantity f), fb_fee = rf_fee f\<rparr>"
  by (simp add: fill_event_def Let_def)

lemma fill_event_state:
  "event_state (fill_event od f) =
    (if o_quantity od \<le> dadd (o_cum_qty od) (rf_quantity f) then FILLED else PARTIALLY_FILLED)"
  by (simp add: fill_event_def Let_def)

lemma record_fill_eq_Inr:
  "record_fill od f = Inr (r, od') \<longleftrightarrow> 0 < rf_quantity f \<and>
    (\<exists>b. apply_event od (fill_event od f) = Inr (b, od')
      \<and> r = (if b then Some (fill_event od f) else None))"
  by (auto simp: record_fill_def Let_def bind_res_eq_Inr not_le)

lemma apply_event_True:
  "apply_event od e = Inr (True, od') \<Longrightarrow> event_id e \<notin> o_applied_event_ids od
    \<and> legal (o_state od) (event_state e) \<and> o_state od' = event_state e
    \<and> o_applied_event_ids od' = insert (event_id e) (o_applied_event_ids od)
    \<and> o_cum_qty od' = (case event_fill e of None \<Rightarrow> o_cum_qty od | Some f \<Rightarrow> fb_cum_qty f)"
  by (rule apply_event_cases [of e od]) auto

lemma apply_event_False:
  "apply_event od e = Inr (False, od') \<Longrightarrow> event_id e \<in> o_applied_event_ids od \<and> od' = od"
  by (rule apply_event_cases [of e od]) auto

lemma record_fill_None:
  "record_fill od f = Inr (None, od') \<Longrightarrow>
    od' = od \<and> fill_event_id (o_cloid od) (rf_trade_id f) \<in> o_applied_event_ids od"
  by (auto simp: record_fill_eq_Inr dest!: apply_event_False split: if_splits)

lemma record_fill_Some:
  "record_fill od f = Inr (Some e, od') \<Longrightarrow>
    0 < rf_quantity f \<and> e = fill_event od f \<and> legal (o_state od) (event_state e)
    \<and> o_state od' = event_state e
    \<and> fill_event_id (o_cloid od) (rf_trade_id f) \<notin> o_applied_event_ids od
    \<and> o_applied_event_ids od' =
        insert (fill_event_id (o_cloid od) (rf_trade_id f)) (o_applied_event_ids od)
    \<and> o_cum_qty od' = dadd (o_cum_qty od) (rf_quantity f)"
proof -
  assume "record_fill od f = Inr (Some e, od')"
  then have q: "0 < rf_quantity f" and e: "e = fill_event od f"
    and ap: "apply_event od (fill_event od f) = Inr (True, od')"
    by (auto simp: record_fill_eq_Inr split: if_splits)
  show ?thesis using q apply_event_True [OF ap] by (simp add: e)
qed

lemma record_fill_frame [tw_frame]:
  "record_fill od f = Inr (r, od') \<Longrightarrow> o_cloid od' = o_cloid od \<and> o_quantity od' = o_quantity od
    \<and> o_cancel_requested od' = o_cancel_requested od"
  by (auto simp: record_fill_eq_Inr dest: apply_event_frame)

subsection \<open>The saga under any sequence of inputs\<close>

text \<open>
  The inputs of a saga are a status event built over its own cloid, a raw fill, and the
  three cancel markers. \<open>saga_step\<close> relates a saga to its next value for each; an input
  that raises faults the engine and has no successor.
\<close>

inductive saga_step :: "order \<Rightarrow> order \<Rightarrow> bool" where
  status: "ev_cloid (env e) = o_cloid od \<Longrightarrow> event_fill e = None \<Longrightarrow>
    apply_event od e = Inr (b, od') \<Longrightarrow> saga_step od od'"
| fill: "record_fill od f = Inr (r, od') \<Longrightarrow> saga_step od od'"
| cancel: "request_cancel od sid ts = (b, od') \<Longrightarrow> saga_step od od'"
| cancel_all: "request_cancel_all od sid ts = Inr (b, od') \<Longrightarrow> saga_step od od'"
| operator: "saga_step od (mark_operator_cancel od ts)"

inductive_cases saga_stepE: "saga_step od od'"

definition fresh_order :: "order \<Rightarrow> bool" where
  "fresh_order od \<longleftrightarrow> o_state od = PENDING \<and> o_cum_qty od = 0 \<and> o_applied_event_ids od = {}
    \<and> \<not> o_cancel_requested od \<and> o_cancel_requested_ts od = None \<and> o_cancel_signal_id od = None"

text \<open>
  The saga's invariant ties the state to the filled quantity and to the dedup set: an
  order that never traded has filled nothing, a working remainder is positive, a filled
  order reached its quantity, and a fill id is recorded exactly when something filled.
\<close>

fun fill_matches :: "order_state \<Rightarrow> decimal \<Rightarrow> decimal \<Rightarrow> bool" where
  "fill_matches PARTIALLY_FILLED q c \<longleftrightarrow> 0 < c \<and> c < q"
| "fill_matches FILLED q c \<longleftrightarrow> 0 < c \<and> q \<le> c"
| "fill_matches CANCELLED q c \<longleftrightarrow> 0 \<le> c \<and> c < q"
| "fill_matches _ q c \<longleftrightarrow> c = 0"

definition order_ok :: "order \<Rightarrow> bool" where
  "order_ok od \<longleftrightarrow> fill_matches (o_state od) (o_quantity od) (o_cum_qty od)
    \<and> (o_cancel_requested od \<longrightarrow> o_cancel_requested_ts od \<noteq> None)"

lemma cancel_frame [tw_frame]:
  "request_cancel od sid ts = (b, od') \<Longrightarrow> o_state od' = o_state od \<and> o_cum_qty od' = o_cum_qty od
    \<and> o_quantity od' = o_quantity od \<and> o_applied_event_ids od' = o_applied_event_ids od"
  "request_cancel_all od sid ts = Inr (b, od') \<Longrightarrow> o_state od' = o_state od
    \<and> o_cum_qty od' = o_cum_qty od \<and> o_quantity od' = o_quantity od
    \<and> o_applied_event_ids od' = o_applied_event_ids od"
  "o_state (mark_operator_cancel od ts) = o_state od
    \<and> o_cum_qty (mark_operator_cancel od ts) = o_cum_qty od
    \<and> o_quantity (mark_operator_cancel od ts) = o_quantity od
    \<and> o_applied_event_ids (mark_operator_cancel od ts) = o_applied_event_ids od"
  by (auto simp: request_cancel_def request_cancel_all_def mark_operator_cancel_def
      bind_res_eq_Inr split: if_splits)

lemma cancel_marker_ts:
  "request_cancel od sid ts = (b, od') \<Longrightarrow>
    (o_cancel_requested od \<longrightarrow> o_cancel_requested_ts od \<noteq> None) \<Longrightarrow>
    (o_cancel_requested od' \<longrightarrow> o_cancel_requested_ts od' \<noteq> None)"
  "request_cancel_all od sid ts = Inr (b, od') \<Longrightarrow>
    (o_cancel_requested od \<longrightarrow> o_cancel_requested_ts od \<noteq> None) \<Longrightarrow>
    (o_cancel_requested od' \<longrightarrow> o_cancel_requested_ts od' \<noteq> None)"
  "(o_cancel_requested od \<longrightarrow> o_cancel_requested_ts od \<noteq> None) \<Longrightarrow>
    o_cancel_requested (mark_operator_cancel od ts) \<longrightarrow>
    o_cancel_requested_ts (mark_operator_cancel od ts) \<noteq> None"
  by (auto simp: request_cancel_def request_cancel_all_def mark_operator_cancel_def
      bind_res_eq_Inr split: if_splits option.splits)

lemma apply_event_marker:
  "apply_event od e = Inr (b, od') \<Longrightarrow> o_cancel_requested_ts od' = o_cancel_requested_ts od"
  by (auto simp: apply_event_def split: if_splits)

lemma event_no_fill_state: "event_fill e = None \<Longrightarrow> event_state e \<notin> {PARTIALLY_FILLED, FILLED}"
  by (cases e) auto

lemma fill_matches_status:
  "legal s t \<Longrightarrow> t \<notin> {PARTIALLY_FILLED, FILLED} \<Longrightarrow> 0 < q \<Longrightarrow> fill_matches s q c \<Longrightarrow>
    fill_matches t q c"
  by (cases s) (auto simp: legal_simps legal_terminal)

lemma fill_matches_nonneg: "fill_matches s q c \<Longrightarrow> 0 \<le> c"
  by (cases s) auto

lemma order_ok_status:
  assumes "apply_event od e = Inr (b, od')" and "event_fill e = None"
    and "0 < o_quantity od" and "order_ok od"
  shows "order_ok od'"
proof (cases b)
  case True
  with assms apply_event_True [of od e od'] have
    "legal (o_state od) (o_state od')" "o_state od' \<notin> {PARTIALLY_FILLED, FILLED}"
    "o_cum_qty od' = o_cum_qty od"
    by (auto dest: event_no_fill_state)
  with assms apply_event_frame [OF assms(1)] apply_event_marker [OF assms(1)] show ?thesis
    unfolding order_ok_def by (metis fill_matches_status)
next
  case False
  with assms show ?thesis by (auto dest: apply_event_False)
qed

lemma order_ok_fill:
  assumes "record_fill od f = Inr (r, od')" and "order_ok od"
  shows "order_ok od'"
proof (cases r)
  case None
  with assms show ?thesis by (auto dest: record_fill_None)
next
  case (Some e)
  with assms(1) have rf: "record_fill od f = Inr (Some e, od')" by simp
  note facts = record_fill_Some [OF rf] record_fill_frame [OF rf]
  obtain b where "apply_event od (fill_event od f) = Inr (b, od')"
    using rf by (auto simp: record_fill_eq_Inr)
  then have ts: "o_cancel_requested_ts od' = o_cancel_requested_ts od"
    by (rule apply_event_marker)
  have "0 \<le> o_cum_qty od" using assms(2) by (auto simp: order_ok_def intro: fill_matches_nonneg)
  with facts have "0 < o_cum_qty od'" by simp
  with facts ts assms(2) show ?thesis
    by (auto simp: order_ok_def fill_event_state not_le)
qed

lemma order_ok_step:
  assumes "saga_step od od'" and "0 < o_quantity od" and "order_ok od"
  shows "order_ok od' \<and> o_quantity od' = o_quantity od"
  using assms
proof (cases rule: saga_step.cases)
  case (status e b)
  with assms show ?thesis
    using order_ok_status [OF status(3,2)] apply_event_frame [OF status(3)] by simp
next
  case (fill f r)
  with assms show ?thesis
    using order_ok_fill [OF fill] record_fill_frame [OF fill] by simp
next
  case (cancel sid ts b)
  with assms cancel_frame(1) [OF cancel] cancel_marker_ts(1) [OF cancel] show ?thesis
    by (simp add: order_ok_def)
next
  case (cancel_all sid ts b)
  with assms cancel_frame(2) [OF cancel_all] cancel_marker_ts(2) [OF cancel_all] show ?thesis
    by (simp add: order_ok_def)
next
  case (operator ts)
  with assms cancel_frame(3) [of od ts] cancel_marker_ts(3) [of od ts] show ?thesis
    by (simp add: order_ok_def)
qed

lemma fresh_order_ok: "fresh_order od \<Longrightarrow> order_ok od"
  by (simp add: fresh_order_def order_ok_def)

lemma saga_reach_ok:
  "saga_step\<^sup>*\<^sup>* od od' \<Longrightarrow> fresh_order od \<Longrightarrow> 0 < o_quantity od \<Longrightarrow>
    order_ok od' \<and> o_quantity od' = o_quantity od"
proof (induction rule: rtranclp_induct)
  case base
  then show ?case by (simp add: fresh_order_ok)
next
  case (step y z)
  then show ?case using order_ok_step [of y z] by auto
qed

subsection \<open>Terminal states\<close>

lemma saga_step_terminal:
  assumes "saga_step od od'" and t: "is_terminal od"
  shows "od' = od"
  using assms(1)
proof (cases rule: saga_step.cases)
  case (status e b)
  with t show ?thesis
    by (cases b) (auto simp: is_terminal_def legal_terminal dest: apply_event_True apply_event_False)
next
  case (fill f r)
  with t show ?thesis
    by (cases r) (auto simp: is_terminal_def legal_terminal dest: record_fill_None record_fill_Some)
qed (use t in \<open>auto simp: request_cancel_def request_cancel_all_def mark_operator_cancel_def\<close>)

subsection \<open>A trade is counted once\<close>

text \<open>A list of raw fills in delivery order; the first exception stops the run.\<close>

fun book_fills :: "order \<Rightarrow> raw_fill list \<Rightarrow> order res" where
  "book_fills od [] = Inr od"
| "book_fills od (f # fs) = bind_res (record_fill od f) (\<lambda>(_, od'). book_fills od' fs)"

text \<open>The quantities of the first delivery of each trade that is not in the set yet.\<close>

fun first_quantities :: "string \<Rightarrow> string set \<Rightarrow> raw_fill list \<Rightarrow> decimal list" where
  "first_quantities c seen [] = []"
| "first_quantities c seen (f # fs) =
     (let i = fill_event_id c (rf_trade_id f)
      in if i \<in> seen then first_quantities c seen fs
         else rf_quantity f # first_quantities c (insert i seen) fs)"

lemma book_fills_cum:
  "book_fills od fs = Inr od' \<Longrightarrow>
    o_cum_qty od' = foldl dadd (o_cum_qty od)
      (first_quantities (o_cloid od) (o_applied_event_ids od) fs)"
proof (induction fs arbitrary: od)
  case Nil
  then show ?case by simp
next
  case (Cons f fs)
  then obtain r od1 where rf: "record_fill od f = Inr (r, od1)" and rest: "book_fills od1 fs = Inr od'"
    by (auto simp: bind_res_eq_Inr)
  note IH = Cons.IH [OF rest] and frame = record_fill_frame [OF rf]
  show ?case
  proof (cases r)
    case None
    with rf have "od1 = od" "fill_event_id (o_cloid od) (rf_trade_id f) \<in> o_applied_event_ids od"
      by (auto dest: record_fill_None)
    with IH show ?thesis by simp
  next
    case (Some e)
    with rf have "record_fill od f = Inr (Some e, od1)" by simp
    from record_fill_Some [OF this] IH frame show ?thesis by simp
  qed
qed

subsection \<open>Facts that outlive any later history\<close>

lemma saga_step_ids:
  assumes "saga_step od od'"
  shows "o_cloid od' = o_cloid od \<and> o_applied_event_ids od \<subseteq> o_applied_event_ids od'"
  using assms
proof (cases rule: saga_step.cases)
  case (fill f r)
  then obtain b where "apply_event od (fill_event od f) = Inr (b, od')"
    by (auto simp: record_fill_eq_Inr)
  then show ?thesis by (auto dest: apply_event_frame)
next
  case (status e b)
  then show ?thesis by (auto dest: apply_event_frame)
qed (auto simp: request_cancel_def request_cancel_all_def mark_operator_cancel_def
      bind_res_eq_Inr split: if_splits)

lemma saga_reach_ids:
  "saga_step\<^sup>*\<^sup>* od od' \<Longrightarrow>
    o_cloid od' = o_cloid od \<and> o_applied_event_ids od \<subseteq> o_applied_event_ids od'"
  by (induction rule: rtranclp_induct) (auto dest: saga_step_ids)

lemma record_fill_dup:
  "0 < rf_quantity f \<Longrightarrow> fill_event_id (o_cloid od) (rf_trade_id f) \<in> o_applied_event_ids od \<Longrightarrow>
    record_fill od f = Inr (None, od)"
  by (simp add: record_fill_def Let_def apply_event_dup)

section \<open>Properties\<close>

text \<open>An order and a fill to evaluate the properties on.\<close>

definition demo_order :: "order" where
  "demo_order = \<lparr>o_cloid = ''0xab'', o_strategy_id = ''demo'', o_signal_id = ''demo:BTC:1'',
    o_symbol = ''BTC'', o_side = BUY, o_quantity = 10, o_type = LIMIT, o_state = PENDING,
    o_cum_qty = 0, o_venue_oid = None, o_acked_ts_ns = None, o_created_ts_ns = Some 1,
    o_reason = None, o_cancel_requested = False, o_cancel_requested_ts = None,
    o_cancel_signal_id = None, o_split_basis = None, o_price = Some 100,
    o_time_in_force = Some GTC, o_post_only = False, o_reduce_only = False,
    o_applied_event_ids = {}\<rparr>"

definition demo_submitted :: "order" where
  "demo_submitted = demo_order\<lparr>o_state := SUBMITTED, o_applied_event_ids := {''0xab:submitted''}\<rparr>"

definition demo_fill :: "raw_fill" where
  "demo_fill = \<lparr>rf_trade_id = ''t1'', rf_quantity = 4, rf_price = 100, rf_ts_event = 5,
    rf_ts_init = 6, rf_fee = 0, rf_reconciliation = False\<rparr>"

definition demo_partial :: "order" where
  "demo_partial = demo_submitted\<lparr>o_state := PARTIALLY_FILLED, o_cum_qty := 4,
    o_applied_event_ids := {''0xab:fill:t1'', ''0xab:submitted''}\<rparr>"

lemma demo_submit:
  "apply_event demo_order (OrderSubmitted \<lparr>ev_ts_event = 2, ev_ts_init = 2, ev_cloid = ''0xab'',
      ev_strategy_id = ''demo'', ev_signal_id = ''demo:BTC:1'', ev_symbol = ''BTC'',
      ev_venue_oid = None, ev_reconciliation = False\<rparr>) = Inr (True, demo_submitted)"
  by (simp add: apply_event_def demo_order_def demo_submitted_def event_id_def legal_simps)

lemma demo_record: "record_fill demo_submitted demo_fill =
    Inr (Some (fill_event demo_submitted demo_fill), demo_partial)"
proof -
  have "apply_event demo_submitted (fill_event demo_submitted demo_fill) = Inr (True, demo_partial)"
    by (simp add: apply_event_def demo_submitted_def demo_order_def demo_fill_def demo_partial_def
        fill_event_id_def legal_simps fill_event_state dadd_def)
      (simp add: fill_event_def Let_def dadd_def)
  then show ?thesis by (simp add: record_fill_def Let_def demo_fill_def)
qed

lemma demo_reach: "saga_step\<^sup>*\<^sup>* demo_order demo_partial"
proof -
  have "saga_step demo_order demo_submitted"
    by (rule saga_step.status [OF _ _ demo_submit]) (simp_all add: demo_order_def)
  moreover have "saga_step demo_submitted demo_partial"
    by (rule saga_step.fill [OF demo_record])
  ultimately show ?thesis by (meson converse_rtranclp_into_rtranclp rtranclp.rtrancl_refl)
qed



text \<open>
  A terminal saga never moves again: no event, fill, cancel, cancel-all or operator
  cancel that the saga accepts changes anything about an order that is filled,
  cancelled, denied, rejected or failed.
\<close>

theorem terminal_absorbing:
  assumes "saga_step\<^sup>*\<^sup>* od od'" and "is_terminal od"
  shows "od' = od"
  using assms by (induction rule: rtranclp_induct) (auto dest: saga_step_terminal)

theorem terminal_absorbing_witness:
  "mark_operator_cancel (demo_order\<lparr>o_state := FILLED\<rparr>) 9 = demo_order\<lparr>o_state := FILLED\<rparr>"
  by (rule terminal_absorbing [OF r_into_rtranclp [of saga_step, OF saga_step.operator]])
    (simp add: is_terminal_def)

text \<open>
  A trade is booked once, whatever happens between its deliveries: after a fill has
  been recorded, any later delivery of the same trade id, with any price, quantity or fee,
  is a no-op at every later point of the saga's life.
\<close>

theorem fill_redelivery_noop:
  assumes "record_fill od f = Inr (Some e, od1)" and "saga_step\<^sup>*\<^sup>* od1 od2"
    and "rf_trade_id g = rf_trade_id f" and "0 < rf_quantity g"
  shows "record_fill od2 g = Inr (None, od2)"
proof (rule record_fill_dup [OF assms(4)])
  show "fill_event_id (o_cloid od2) (rf_trade_id g) \<in> o_applied_event_ids od2"
    using record_fill_Some [OF assms(1)] record_fill_frame [OF assms(1)]
      saga_reach_ids [OF assms(2)] assms(3) by auto
qed

theorem fill_redelivery_noop_witness:
  "record_fill demo_partial (demo_fill\<lparr>rf_quantity := 7\<rparr>) = Inr (None, demo_partial)"
  by (rule fill_redelivery_noop [OF demo_record rtranclp.rtrancl_refl])
    (simp_all add: demo_fill_def)

text \<open>
  Over any delivery sequence, the filled quantity is the running sum of the first
  delivery of each trade: redelivered and reordered duplicates contribute nothing.
\<close>

theorem cum_qty_counts_trades_once:
  assumes "book_fills od fs = Inr od'"
  shows "o_cum_qty od' = foldl dadd (o_cum_qty od)
    (first_quantities (o_cloid od) (o_applied_event_ids od) fs)"
  using assms by (rule book_fills_cum)

theorem cum_qty_counts_trades_once_witness:
  "o_cum_qty demo_partial = 4"
proof -
  have "record_fill demo_partial demo_fill = Inr (None, demo_partial)"
    by (rule record_fill_dup)
      (simp_all add: demo_partial_def demo_submitted_def demo_order_def demo_fill_def fill_event_id_def)
  then have "book_fills demo_submitted [demo_fill, demo_fill] = Inr demo_partial"
    by (simp add: demo_record)
  from cum_qty_counts_trades_once [OF this] show ?thesis
    by (simp add: demo_submitted_def demo_order_def demo_fill_def fill_event_id_def dadd_def)
qed

text \<open>
  A cancel-all is sent at most once and only to orders issued before it: when it takes
  the marker, the order was open and its seq is below the cancel's, and delivering the
  same cancel-all again finds the marker and sends nothing.
\<close>

theorem cancel_all_once:
  assumes "request_cancel_all od sid ts = Inr (True, od')"
  shows "\<not> is_terminal od
    \<and> (\<exists>own seq. parsed_seq (o_signal_id od) = Inr own \<and> parsed_seq sid = Inr seq \<and> own < seq)
    \<and> o_cancel_requested od' \<and> o_cancel_signal_id od' = Some sid
    \<and> request_cancel_all od' sid ts' = Inr (False, od')"
proof -
  from assms obtain own seq where "\<not> is_terminal od" "parsed_seq sid = Inr seq"
    "parsed_seq (o_signal_id od) = Inr own" "own < seq"
    and "o_state od' = o_state od" "o_signal_id od' = o_signal_id od"
      "o_cancel_requested od'" "o_cancel_signal_id od' = Some sid"
    by (auto simp: request_cancel_all_def bind_res_eq_Inr split: if_splits)
  then show ?thesis
    by (auto simp: request_cancel_all_def is_terminal_def)
qed

theorem cancel_all_once_witness:
  "fst (projr (request_cancel_all demo_order ''demo:BTC:4'' 7))
    \<and> request_cancel_all (snd (projr (request_cancel_all demo_order ''demo:BTC:4'' 7))) ''demo:BTC:4'' 8
      = Inr (False, snd (projr (request_cancel_all demo_order ''demo:BTC:4'' 7)))"
proof -
  have "parsed_seq ''demo:BTC:4'' = Inr 4" "parsed_seq ''demo:BTC:1'' = Inr 1"
    by code_simp+
  then have "\<exists>od'. request_cancel_all demo_order ''demo:BTC:4'' 7 = Inr (True, od')"
    by (simp add: request_cancel_all_def demo_order_def is_terminal_def)
  then obtain od' where r: "request_cancel_all demo_order ''demo:BTC:4'' 7 = Inr (True, od')" ..
  from cancel_all_once [OF r, of 8] r show ?thesis by simp
qed

end
