(* ===== verification/TW_Positions.thy ===== *)
theory TW_Positions
  imports TW_Orders
begin

text \<open>
  The per-partition ledger, \<open>src/src/tickwright/domain/position.py\<close>: average-cost
  accounting over one \<open>(strategy, symbol)\<close> partition. A position is a record; \<open>apply_fill\<close>
  is its gatekeeper (ownership, positive quantity, dedup, fee) and \<open>book\<close> its reducer in
  the four regimes open, add, reduce and flip. Three shapes of fill may be booked, and
  \<open>bookable\<close> is their union.
\<close>

section \<open>Fills a position accepts\<close>

definition UNATTRIBUTED :: "string" where
  "UNATTRIBUTED = ''__unattributed__''"

definition OPERATOR :: "string" where
  "OPERATOR = ''__operator__''"

definition is_flatten :: "place_signal \<Rightarrow> bool" where
  "is_flatten s \<longleftrightarrow> ps_strategy_id s = OPERATOR \<and> ps_reduce_only s"

definition reserved_id_refusal :: "string \<Rightarrow> string option" where
  "reserved_id_refusal sid =
     (if sid = UNATTRIBUTED then
        Some (UNATTRIBUTED @ '' is the reserved unattributed partition, not a strategy id'')
      else if sid = OPERATOR then
        Some (OPERATOR @ '' is reserved for operator orders, not a strategy id'')
      else None)"

record partition_fill =
  pf_event_id :: string
  pf_strategy_id :: "string option"
  pf_symbol :: string
  pf_quantity :: decimal
  pf_price :: decimal
  pf_fee :: decimal

record recon_fill =
  rc_symbol :: string
  rc_side :: side
  rc_quantity :: decimal
  rc_price :: decimal
  rc_ts_ns :: int

definition rc_event_id :: "recon_fill \<Rightarrow> string" where
  "rc_event_id f = ''reconcile:'' @ rc_symbol f @ '':'' @ show_int (rc_ts_ns f)"

datatype bookable =
    OrderFill order_env fill_body
  | ReconciliationFill recon_fill
  | PartitionFill partition_fill

fun bk_event_id :: "bookable \<Rightarrow> string" where
  "bk_event_id (OrderFill e f) = fill_event_id (ev_cloid e) (fb_trade_id f)"
| "bk_event_id (ReconciliationFill f) = rc_event_id f"
| "bk_event_id (PartitionFill f) = pf_event_id f"

fun bk_strategy :: "bookable \<Rightarrow> string option" where
  "bk_strategy (OrderFill e f) = Some (ev_strategy_id e)"
| "bk_strategy (ReconciliationFill f) = None"
| "bk_strategy (PartitionFill f) = pf_strategy_id f"

fun bk_symbol :: "bookable \<Rightarrow> string" where
  "bk_symbol (OrderFill e f) = ev_symbol e"
| "bk_symbol (ReconciliationFill f) = rc_symbol f"
| "bk_symbol (PartitionFill f) = pf_symbol f"

fun bk_quantity :: "bookable \<Rightarrow> decimal" where
  "bk_quantity (OrderFill e f) = fb_quantity f"
| "bk_quantity (ReconciliationFill f) = rc_quantity f"
| "bk_quantity (PartitionFill f) = pf_quantity f"

fun bk_price :: "bookable \<Rightarrow> decimal" where
  "bk_price (OrderFill e f) = fb_price f"
| "bk_price (ReconciliationFill f) = rc_price f"
| "bk_price (PartitionFill f) = pf_price f"

fun bk_fee :: "bookable \<Rightarrow> decimal" where
  "bk_fee (OrderFill e f) = fb_fee f"
| "bk_fee (ReconciliationFill f) = 0"
| "bk_fee (PartitionFill f) = pf_fee f"

section \<open>The position\<close>

datatype position_change = OPENED | CHANGED | CLOSED

record position =
  p_strategy_id :: "string option"
  p_symbol :: string
  p_signed_size :: decimal
  p_entry_price :: decimal
  p_realized_pnl :: decimal
  p_fees :: decimal
  p_funding :: decimal
  p_isolated_collateral :: "decimal option"
  p_applied :: "string set"

definition new_position :: "string option \<Rightarrow> string \<Rightarrow> position" where
  "new_position st sy = \<lparr>p_strategy_id = st, p_symbol = sy, p_signed_size = 0, p_entry_price = 0,
     p_realized_pnl = 0, p_fees = 0, p_funding = 0, p_isolated_collateral = Some 0,
     p_applied = {}\<rparr>"

definition is_flat :: "position \<Rightarrow> bool" where
  "is_flat p \<longleftrightarrow> p_signed_size p = 0"

definition cost_basis :: "position \<Rightarrow> decimal" where
  "cost_basis p = dmul (p_signed_size p) (p_entry_price p)"

definition unrealized_pnl :: "position \<Rightarrow> decimal \<Rightarrow> decimal" where
  "unrealized_pnl p mark = dmul (p_signed_size p) (dsub mark (p_entry_price p))"

definition book :: "position \<Rightarrow> decimal \<Rightarrow> decimal \<Rightarrow> (position_change list \<times> position) res" where
  "book p signed price =
     (let size = p_signed_size p; entry = p_entry_price p in
      if is_flat p then
        Inr ([OPENED], p\<lparr>p_signed_size := signed, p_entry_price := price\<rparr>)
      else if (0 < size) = (0 < signed) then
        bind_res (ddiv (dadd (dmul entry (dabs size)) (dmul price (dabs signed)))
                       (dadd (dabs size) (dabs signed)))
          (\<lambda>mean. Inr ([CHANGED], p\<lparr>p_entry_price := mean, p_signed_size := dadd size signed\<rparr>))
      else
        let closed = min (dabs size) (dabs signed);
            direction = (if 0 < size then 1 else -1);
            remaining = dadd size signed;
            q = p\<lparr>p_realized_pnl :=
                    dadd (p_realized_pnl p) (dmul (dmul (dsub price entry) closed) direction),
                  p_signed_size := remaining\<rparr>
        in if remaining = 0 then Inr ([CLOSED], q\<lparr>p_entry_price := 0\<rparr>)
           else if (0 < remaining) = (0 < direction) then Inr ([CHANGED], q)
           else Inr ([CLOSED, OPENED], q\<lparr>p_entry_price := price\<rparr>))"

definition signed_quantity :: "side \<Rightarrow> decimal \<Rightarrow> decimal" where
  "signed_quantity sd q = (if sd = BUY then q else dneg q)"

definition apply_fill :: "position \<Rightarrow> bookable \<Rightarrow> side \<Rightarrow> (position_change list \<times> position) res" where
  "apply_fill p f sd =
     (if bk_symbol f \<noteq> p_symbol p \<or> bk_strategy f \<noteq> p_strategy_id p then
        Inl (InvariantViolation WrongPartition)
      else if bk_quantity f \<le> 0 then Inl (InvariantViolation NonPositiveFill)
      else if bk_event_id f \<in> p_applied p then Inr ([], p)
      else book (p\<lparr>p_applied := insert (bk_event_id f) (p_applied p),
                   p_fees := dadd (p_fees p) (bk_fee f)\<rparr>)
             (signed_quantity sd (bk_quantity f)) (bk_price f))"

definition accrue_funding :: "position \<Rightarrow> decimal \<Rightarrow> position" where
  "accrue_funding p amount = p\<lparr>p_funding := dadd (p_funding p) amount\<rparr>"

text \<open>\<open>account_net_size\<close>: the symbol's net over every partition, in first-seen order.\<close>

definition account_net_size :: "position list \<Rightarrow> (string, decimal) dict" where
  "account_net_size ps =
     foldl (\<lambda>net p. AList.update (p_symbol p) (dadd (dget net (p_symbol p) 0) (p_signed_size p)) net)
       [] ps"

section \<open>The reducer never fails and keeps the ledger well formed\<close>

definition position_ok :: "position \<Rightarrow> bool" where
  "position_ok p \<longleftrightarrow> (p_signed_size p = 0 \<longrightarrow> p_entry_price p = 0)"

lemma signed_quantity_sign [tw_sign, simp]:
  "signed_quantity sd q = 0 \<longleftrightarrow> q = 0"
  "0 < q \<Longrightarrow> 0 < signed_quantity sd q \<longleftrightarrow> sd = BUY"
  by (auto simp: signed_quantity_def)

lemma book_total:
  assumes "signed \<noteq> 0"
  shows "\<exists>cs q. book p signed price = Inr (cs, q)"
  using assms by (auto simp: book_def Let_def ddiv_def is_flat_def)

text \<open>
  Which of the four regimes ran is read off the size before and after: the returned
  changes are the facts the change catalog names.
\<close>

definition regime :: "decimal \<Rightarrow> decimal \<Rightarrow> position_change list" where
  "regime before after =
     (if before = 0 then [OPENED]
      else if after = 0 then [CLOSED]
      else if (0 < before) = (0 < after) then [CHANGED]
      else [CLOSED, OPENED])"

lemma book_regime:
  assumes "book p signed price = Inr (cs, q)" and "signed \<noteq> 0"
  shows "cs = regime (p_signed_size p) (p_signed_size q)"
  using assms
  by (auto simp: book_def Let_def ddiv_def is_flat_def regime_def bind_res_eq_Inr split: if_splits)

lemma book_size:
  assumes "book p signed price = Inr (cs, q)"
  shows "p_signed_size q = (if p_signed_size p = 0 then signed else dadd (p_signed_size p) signed)"
  using assms
  by (auto simp: book_def Let_def ddiv_def is_flat_def bind_res_eq_Inr split: if_splits)

lemma book_ok:
  assumes "book p signed price = Inr (cs, q)" and "signed \<noteq> 0"
  shows "position_ok q"
  using assms
  by (auto simp: book_def Let_def ddiv_def is_flat_def position_ok_def bind_res_eq_Inr
      split: if_splits)

lemma book_frame [tw_frame]:
  assumes "book p signed price = Inr (cs, q)"
  shows "p_strategy_id q = p_strategy_id p \<and> p_symbol q = p_symbol p \<and> p_fees q = p_fees p
    \<and> p_funding q = p_funding p \<and> p_applied q = p_applied p
    \<and> p_isolated_collateral q = p_isolated_collateral p"
  using assms
  by (auto simp: book_def Let_def ddiv_def is_flat_def bind_res_eq_Inr split: if_splits)

text \<open>Realized PnL moves only when a fill trades against the open side.\<close>

lemma book_realized_same:
  assumes "book p signed price = Inr (cs, q)" and "p_signed_size p = 0 \<or> (0 < p_signed_size p) = (0 < signed)"
  shows "p_realized_pnl q = p_realized_pnl p"
  using assms
  by (auto simp: book_def Let_def ddiv_def is_flat_def bind_res_eq_Inr split: if_splits)

lemma apply_fill_total:
  assumes "bk_symbol f = p_symbol p" "bk_strategy f = p_strategy_id p" "0 < bk_quantity f"
  shows "\<exists>cs q. apply_fill p f sd = Inr (cs, q)"
  using assms book_total [of "signed_quantity sd (bk_quantity f)"]
  by (auto simp: apply_fill_def)

lemma apply_fill_cases:
  assumes "apply_fill p f sd = Inr (cs, q)"
  obtains (dup) "bk_event_id f \<in> p_applied p" "cs = []" "q = p"
  | (booked) p' where "bk_event_id f \<notin> p_applied p"
      "p' = p\<lparr>p_applied := insert (bk_event_id f) (p_applied p),
              p_fees := dadd (p_fees p) (bk_fee f)\<rparr>"
      "book p' (signed_quantity sd (bk_quantity f)) (bk_price f) = Inr (cs, q)"
      "0 < bk_quantity f" "bk_symbol f = p_symbol p" "bk_strategy f = p_strategy_id p"
  using assms by (auto simp: apply_fill_def split: if_splits)

lemma regime_nonempty [simp]: "regime a b \<noteq> []" "[] \<noteq> regime a b"
  by (simp_all add: regime_def)

lemma apply_fill_Inr:
  assumes "apply_fill p f sd = Inr (cs, q)"
  shows "bk_event_id f \<in> p_applied q
    \<and> p_symbol q = p_symbol p \<and> p_strategy_id q = p_strategy_id p \<and> p_funding q = p_funding p
    \<and> p_isolated_collateral q = p_isolated_collateral p \<and> p_applied p \<subseteq> p_applied q
    \<and> bk_symbol f = p_symbol p \<and> bk_strategy f = p_strategy_id p \<and> 0 < bk_quantity f"
  using assms
proof (cases rule: apply_fill_cases)
  case dup
  with assms show ?thesis by (auto simp: apply_fill_def split: if_splits)
next
  case (booked p')
  then show ?thesis using book_frame [OF booked(3)] by auto
qed

lemma apply_fill_booked:
  assumes "apply_fill p f sd = Inr (cs, q)"
  shows "cs \<noteq> [] \<longleftrightarrow> bk_event_id f \<notin> p_applied p"
    and "bk_event_id f \<notin> p_applied p \<Longrightarrow> p_fees q = dadd (p_fees p) (bk_fee f)"
    and "bk_event_id f \<notin> p_applied p \<Longrightarrow> cs = regime (p_signed_size p) (p_signed_size q)"
    and "bk_event_id f \<notin> p_applied p \<Longrightarrow> p_signed_size q =
      (if p_signed_size p = 0 then signed_quantity sd (bk_quantity f)
       else dadd (p_signed_size p) (signed_quantity sd (bk_quantity f)))"
    and "bk_event_id f \<in> p_applied p \<Longrightarrow> cs = [] \<and> q = p"
proof -
  note C = apply_fill_cases [OF assms]
  note R = book_regime and S = book_size and F = book_frame
  show "cs \<noteq> [] \<longleftrightarrow> bk_event_id f \<notin> p_applied p"
    by (rule C) (auto dest!: R)
  show "bk_event_id f \<in> p_applied p \<Longrightarrow> cs = [] \<and> q = p" by (rule C) auto
  show "bk_event_id f \<notin> p_applied p \<Longrightarrow> p_fees q = dadd (p_fees p) (bk_fee f)"
    by (rule C) (auto dest!: F)
  show "bk_event_id f \<notin> p_applied p \<Longrightarrow> cs = regime (p_signed_size p) (p_signed_size q)"
    by (rule C) (auto dest!: R)
  show "bk_event_id f \<notin> p_applied p \<Longrightarrow> p_signed_size q =
      (if p_signed_size p = 0 then signed_quantity sd (bk_quantity f)
       else dadd (p_signed_size p) (signed_quantity sd (bk_quantity f)))"
    by (rule C) (auto dest!: S)
qed

lemma apply_fill_ok: "apply_fill p f sd = Inr (cs, q) \<Longrightarrow> position_ok p \<Longrightarrow> position_ok q"
  by (erule apply_fill_cases) (auto dest!: book_ok)

lemma apply_fill_again:
  "apply_fill p f sd = Inr (cs, q) \<Longrightarrow> apply_fill q f sd = Inr ([], q)"
  by (frule apply_fill_Inr) (simp add: apply_fill_def not_le)

section \<open>Average-cost accounting conserves value\<close>

text \<open>
  The specification of the reducer, over exact rationals: what the partition is worth at a
  mark is its realized PnL plus its open size times the distance to its entry. A fill of
  \<open>signed\<close> at \<open>price\<close> may change that by exactly what it would be worth on its own.
\<close>

definition total_pnl :: "position \<Rightarrow> rat \<Rightarrow> rat" where
  "total_pnl p mark = p_realized_pnl p + p_signed_size p * (mark - p_entry_price p)"

text \<open>
  \<open>exact_book\<close> says that no operation of the regime that runs needs more than 28 digits;
  the weighted mean of an add is the only quotient.
\<close>

definition exact_book :: "position \<Rightarrow> decimal \<Rightarrow> decimal \<Rightarrow> bool" where
  "exact_book p signed price \<longleftrightarrow>
     (let size = p_signed_size p; entry = p_entry_price p;
          closed = min \<bar>size\<bar> \<bar>signed\<bar>; gain = (price - entry) * closed in
      fits size \<and> fits signed \<and>
      (size \<noteq> 0 \<longrightarrow> fits (size + signed) \<and>
        (if (0 < size) = (0 < signed)
         then fits (entry * \<bar>size\<bar>) \<and> fits (price * \<bar>signed\<bar>)
            \<and> fits (entry * \<bar>size\<bar> + price * \<bar>signed\<bar>)
            \<and> fits ((entry * \<bar>size\<bar> + price * \<bar>signed\<bar>) / (\<bar>size\<bar> + \<bar>signed\<bar>))
         else fits (price - entry) \<and> fits gain
            \<and> fits (p_realized_pnl p + (if 0 < size then gain else - gain)))))"

lemma exact_book_cong:
  assumes "p_signed_size p' = p_signed_size p" "p_entry_price p' = p_entry_price p"
    "p_realized_pnl p' = p_realized_pnl p"
  shows "exact_book p' signed price = exact_book p signed price"
  unfolding exact_book_def assms ..

lemma book_open:
  assumes "book p signed price = Inr (cs, q)" "p_signed_size p = 0"
  shows "total_pnl q mark = total_pnl p mark + signed * (mark - price)"
  using assms by (auto simp: book_def is_flat_def total_pnl_def)

lemma abs_same_sign:
  fixes a b :: rat
  assumes "a \<noteq> 0" "b \<noteq> 0" "(0 < a) = (0 < b)"
  shows "\<bar>a\<bar> + \<bar>b\<bar> = \<bar>a + b\<bar>"
  using assms by (auto simp: abs_if)

lemma mean_value:
  fixes entry size price signed mark :: rat
  assumes "size \<noteq> 0" "signed \<noteq> 0" "(0 < size) = (0 < signed)"
  shows "(size + signed) * (mark - (entry * \<bar>size\<bar> + price * \<bar>signed\<bar>) / (\<bar>size\<bar> + \<bar>signed\<bar>))
    = size * (mark - entry) + signed * (mark - price)"
proof (cases "0 < size")
  case True
  with assms have "0 < signed" by simp
  with True have "0 < size + signed" by simp
  with True \<open>0 < signed\<close> show ?thesis
    by (simp add: right_diff_distrib) (simp add: algebra_simps)
next
  case False
  with assms have neg: "size < 0" "signed < 0" by auto
  then have "size + signed \<noteq> 0" by simp
  moreover have "(entry * \<bar>size\<bar> + price * \<bar>signed\<bar>) / (\<bar>size\<bar> + \<bar>signed\<bar>) =
      (entry * size + price * signed) / (size + signed)"
    using neg minus_divide_divide [of "entry * size + price * signed" "size + signed"]
    by (simp add: algebra_simps)
  ultimately show ?thesis
    by (simp add: right_diff_distrib) (simp add: algebra_simps)
qed

lemma book_add:
  assumes b: "book p signed price = Inr (cs, q)" and e: "exact_book p signed price"
    and nz: "p_signed_size p \<noteq> 0" "signed \<noteq> 0" and same: "(0 < p_signed_size p) = (0 < signed)"
  shows "total_pnl q mark = total_pnl p mark + signed * (mark - price)"
proof -
  let ?size = "p_signed_size p" and ?entry = "p_entry_price p"
  let ?mean = "(?entry * \<bar>?size\<bar> + price * \<bar>signed\<bar>) / (\<bar>?size\<bar> + \<bar>signed\<bar>)"
  have f: "fits ?size" "fits signed" "fits (?size + signed)" "fits (?entry * \<bar>?size\<bar>)"
    "fits (price * \<bar>signed\<bar>)" "fits (?entry * \<bar>?size\<bar> + price * \<bar>signed\<bar>)" "fits ?mean"
    using e nz same by (simp_all add: exact_book_def Let_def)
  have "fits (\<bar>?size\<bar> + \<bar>signed\<bar>)"
    using f(3) abs_same_sign [OF nz same] by simp
  with f have "ddiv (dadd (dmul ?entry (dabs ?size)) (dmul price (dabs signed)))
      (dadd (dabs ?size) (dabs signed)) = Inr ?mean"
    using nz add_nonneg_eq_0_iff [of "\<bar>?size\<bar>" "\<bar>signed\<bar>"]
    by (simp add: ddiv_def dec_exact) (simp add: fits_def)
  with b nz same f have q: "q = p\<lparr>p_entry_price := ?mean, p_signed_size := ?size + signed\<rparr>"
    by (simp add: book_def is_flat_def Let_def dec_exact)
  show ?thesis
    using mean_value [OF nz same, of mark ?entry price] by (simp add: q total_pnl_def)
qed

lemma reduce_value:
  fixes size signed entry price mark :: rat
  assumes "size \<noteq> 0" "signed \<noteq> 0" "(0 < size) \<noteq> (0 < signed)"
  shows "(price - entry) * min \<bar>size\<bar> \<bar>signed\<bar> * (if 0 < size then 1 else - 1)
      + (size + signed) * (mark - (if (0 < size + signed) = (0 < size) then entry else price))
    = size * (mark - entry) + signed * (mark - price)"
proof -
  consider "size + signed = 0" | "size + signed \<noteq> 0" "(0 < size + signed) = (0 < size)"
    | "size + signed \<noteq> 0" "(0 < size + signed) \<noteq> (0 < size)" by blast
  then show ?thesis
  proof cases
    case 1
    then have "signed = - size" by simp
    then show ?thesis using assms by (auto simp: abs_if algebra_simps)
  next
    case 2
    with assms have "min \<bar>size\<bar> \<bar>signed\<bar> = \<bar>signed\<bar>" by (auto simp: min_def abs_if)
    with 2 assms show ?thesis by (auto simp: abs_if algebra_simps)
  next
    case 3
    with assms have "min \<bar>size\<bar> \<bar>signed\<bar> = \<bar>size\<bar>" by (auto simp: min_def abs_if)
    with 3 assms show ?thesis by (auto simp: abs_if algebra_simps)
  qed
qed

lemma book_reduce:
  assumes b: "book p signed price = Inr (cs, q)" and e: "exact_book p signed price"
    and nz: "p_signed_size p \<noteq> 0" "signed \<noteq> 0" and opp: "(0 < p_signed_size p) \<noteq> (0 < signed)"
  shows "total_pnl q mark = total_pnl p mark + signed * (mark - price)"
proof -
  let ?size = "p_signed_size p" and ?entry = "p_entry_price p"
  let ?closed = "min \<bar>?size\<bar> \<bar>signed\<bar>" and ?dir = "if 0 < ?size then 1 else - 1 :: rat"
  let ?gain = "(price - ?entry) * ?closed"
  have f: "fits ?size" "fits signed" "fits (?size + signed)" "fits (price - ?entry)" "fits ?gain"
    "fits (p_realized_pnl p + ?gain * ?dir)"
    using e nz opp by (auto simp: exact_book_def Let_def split: if_splits)
  have gd: "dmul (dmul (dsub price ?entry) (min (dabs ?size) (dabs signed))) ?dir = ?gain * ?dir"
  proof -
    have "dmul (dsub price ?entry) (min (dabs ?size) (dabs signed)) = ?gain"
      using f by (simp only: dec_exact)
    then show ?thesis
      by (cases "0 < ?size")
        (simp_all only: if_True if_False dmul_unit [OF f(5)] mult_1_right mult_minus1_right)
  qed
  have real: "p_realized_pnl q = p_realized_pnl p + ?gain * ?dir"
    and size: "p_signed_size q = ?size + signed"
    using b nz opp f gd
    by (auto simp: book_def is_flat_def Let_def dec_exact split: if_splits)
  have entry: "(?size + signed) * (mark - p_entry_price q) =
      (?size + signed) * (mark - (if (0 < ?size + signed) = (0 < ?size) then ?entry else price))"
    using b nz opp f by (auto simp: book_def is_flat_def Let_def dec_exact split: if_splits)
  have "?gain * ?dir + (?size + signed) * (mark - (if (0 < ?size + signed) = (0 < ?size) then ?entry else price))
      = ?size * (mark - ?entry) + signed * (mark - price)"
    using reduce_value [OF nz opp] .
  then show ?thesis by (simp add: total_pnl_def real size entry)
qed

lemma book_conserves:
  assumes "book p signed price = Inr (cs, q)" and "exact_book p signed price" and "signed \<noteq> 0"
  shows "total_pnl q mark = total_pnl p mark + signed * (mark - price)"
  using assms book_open [OF assms(1)] book_add [OF assms(1,2)] book_reduce [OF assms(1,2)]
  by blast

section \<open>Runs of fills\<close>

text \<open>The partition over a delivery sequence, each fill with the side of its saga.\<close>

fun apply_fills :: "position \<Rightarrow> (bookable \<times> side) list \<Rightarrow> position res" where
  "apply_fills p [] = Inr p"
| "apply_fills p ((f, sd) # fs) = bind_res (apply_fill p f sd) (\<lambda>(_, q). apply_fills q fs)"

text \<open>Every fill of the run that books does so exactly.\<close>

fun exact_run :: "position \<Rightarrow> (bookable \<times> side) list \<Rightarrow> bool" where
  "exact_run p [] = True"
| "exact_run p ((f, sd) # fs) \<longleftrightarrow>
     (bk_event_id f \<in> p_applied p \<or>
        fits (bk_quantity f) \<and> exact_book p (signed_quantity sd (bk_quantity f)) (bk_price f)) \<and>
     (case apply_fill p f sd of Inl _ \<Rightarrow> True | Inr (_, q) \<Rightarrow> exact_run q fs)"

text \<open>The value at a mark of the trades of a run, each counted at its first delivery.\<close>

fun trade_value :: "string set \<Rightarrow> rat \<Rightarrow> (bookable \<times> side) list \<Rightarrow> rat" where
  "trade_value seen mark [] = 0"
| "trade_value seen mark ((f, sd) # fs) =
     (if bk_event_id f \<in> seen then trade_value seen mark fs
      else (if sd = BUY then bk_quantity f else - bk_quantity f) * (mark - bk_price f)
        + trade_value (insert (bk_event_id f) seen) mark fs)"

lemma apply_fill_conserves:
  assumes "apply_fill p f sd = Inr (cs, q)" and "bk_event_id f \<notin> p_applied p"
    and "fits (bk_quantity f)" and "exact_book p (signed_quantity sd (bk_quantity f)) (bk_price f)"
  shows "total_pnl q mark = total_pnl p mark
    + (if sd = BUY then bk_quantity f else - bk_quantity f) * (mark - bk_price f)
    \<and> p_applied q = insert (bk_event_id f) (p_applied p)"
  using assms(1)
proof (cases rule: apply_fill_cases)
  case dup
  with assms(2) show ?thesis by simp
next
  case (booked p')
  have "exact_book p' (signed_quantity sd (bk_quantity f)) (bk_price f)"
    using assms(4) exact_book_cong [of p' p] booked(2) by simp
  moreover have "signed_quantity sd (bk_quantity f) \<noteq> 0" using booked(4) by simp
  ultimately have "total_pnl q mark = total_pnl p' mark
      + signed_quantity sd (bk_quantity f) * (mark - bk_price f)"
    by (rule book_conserves [OF booked(3)])
  moreover have "total_pnl p' mark = total_pnl p mark" by (simp add: booked(2) total_pnl_def)
  moreover have "p_applied q = insert (bk_event_id f) (p_applied p)"
    using book_frame [OF booked(3)] booked(2) by simp
  ultimately show ?thesis using assms(3) by (simp add: signed_quantity_def dec_exact)
qed

lemma apply_fills_value:
  "apply_fills p fs = Inr q \<Longrightarrow> exact_run p fs \<Longrightarrow>
    total_pnl q mark = total_pnl p mark + trade_value (p_applied p) mark fs"
proof (induction p fs rule: exact_run.induct)
  case (1 p)
  then show ?case by simp
next
  case (2 p f sd fs)
  then obtain cs p1 where af: "apply_fill p f sd = Inr (cs, p1)" and rest: "apply_fills p1 fs = Inr q"
    by (auto simp: bind_res_eq_Inr)
  have ex: "exact_run p1 fs" using "2.prems"(2) af by simp
  note IH = "2.IH" [OF af refl rest ex]
  show ?case
  proof (cases "bk_event_id f \<in> p_applied p")
    case True
    with af have "p1 = p" by (auto dest: apply_fill_booked(5))
    with IH True show ?thesis by simp
  next
    case False
    with "2.prems"(2) apply_fill_conserves [OF af] IH show ?thesis by simp
  qed
qed

lemma apply_fills_flat_realized:
  assumes "apply_fills p fs = Inr q" and "exact_run p fs" and "is_flat q"
  shows "p_realized_pnl q = total_pnl p 0 + trade_value (p_applied p) 0 fs"
  using apply_fills_value [OF assms(1,2), of 0] assms(3) by (simp add: total_pnl_def is_flat_def)

section \<open>Properties\<close>

definition demo_bookable :: "string \<Rightarrow> decimal \<Rightarrow> decimal \<Rightarrow> bookable" where
  "demo_bookable i q pr = PartitionFill \<lparr>pf_event_id = i, pf_strategy_id = Some ''s'',
     pf_symbol = ''BTC'', pf_quantity = q, pf_price = pr, pf_fee = 1\<rparr>"

text \<open>
  What a fill does to a partition, in every case: a fill of another partition and a
  non-positive quantity are refused before anything is recorded, a fill already reflected
  changes nothing, and any other fill books: its fee is charged, the size moves by the
  signed quantity, the returned changes name exactly the passage from the old size to the
  new one (a flip is a close and an open), and a flat partition has entry price zero.
\<close>

theorem apply_fill_spec:
  assumes "position_ok p"
  shows "case apply_fill p f sd of
      Inl e \<Rightarrow> (bk_symbol f \<noteq> p_symbol p \<or> bk_strategy f \<noteq> p_strategy_id p) \<and> e = InvariantViolation WrongPartition
        \<or> bk_quantity f \<le> 0 \<and> e = InvariantViolation NonPositiveFill
    | Inr (cs, q) \<Rightarrow> bk_symbol f = p_symbol p \<and> bk_strategy f = p_strategy_id p \<and> 0 < bk_quantity f
        \<and> position_ok q
        \<and> (if bk_event_id f \<in> p_applied p then cs = [] \<and> q = p
           else cs = regime (p_signed_size p) (p_signed_size q)
             \<and> p_fees q = dadd (p_fees p) (bk_fee f)
             \<and> p_signed_size q = (if p_signed_size p = 0 then signed_quantity sd (bk_quantity f)
                 else dadd (p_signed_size p) (signed_quantity sd (bk_quantity f))))"
proof (cases "apply_fill p f sd")
  case (Inl e)
  then have "bk_symbol f \<noteq> p_symbol p \<or> bk_strategy f \<noteq> p_strategy_id p \<or> bk_quantity f \<le> 0"
    using apply_fill_total [of f p sd] by force
  with Inl show ?thesis by (auto simp: apply_fill_def split: if_splits)
next
  case (Inr r)
  then obtain cs q where r: "apply_fill p f sd = Inr (cs, q)" by (cases r) auto
  show ?thesis
    using apply_fill_Inr [OF r] apply_fill_booked [OF r] apply_fill_ok [OF r assms] r by auto
qed

theorem apply_fill_spec_witness:
  "fst (projr (apply_fill (new_position (Some ''s'') ''BTC'') (demo_bookable ''e1'' 2 100) SELL)) = [OPENED]"
  using apply_fill_spec [of "new_position (Some ''s'') ''BTC''" "demo_bookable ''e1'' 2 100" SELL]
  by (auto simp: position_ok_def new_position_def demo_bookable_def regime_def split: sum.splits)

text \<open>
  C21. Average-cost accounting conserves value: after any delivery sequence whose arithmetic
  stays within 28 digits, the realized PnL plus the open size marked to any price equals
  what the partition was worth before plus, for each trade at its first delivery, its
  signed quantity times the distance from its own price to that mark. Opening, adding,
  reducing and flipping only redistribute it.
\<close>

theorem average_cost_conserves_value:
  assumes "apply_fills p fs = Inr q" and "exact_run p fs"
  shows "total_pnl q mark = total_pnl p mark + trade_value (p_applied p) mark fs"
  using assms by (rule apply_fills_value)

definition demo_fills :: "(bookable \<times> side) list" where
  "demo_fills = [(demo_bookable ''e1'' 2 100, BUY), (demo_bookable ''e2'' 2 120, BUY),
     (demo_bookable ''e1'' 2 100, BUY), (demo_bookable ''e3'' 5 130, SELL)]"

definition demo_position :: "position" where
  "demo_position = (new_position (Some ''s'') ''BTC'')\<lparr>p_signed_size := - 1, p_entry_price := 130,
     p_realized_pnl := 80, p_fees := 3, p_applied := {''e3'', ''e2'', ''e1''}\<rparr>"

theorem average_cost_conserves_value_witness:
  "exact_run (new_position (Some ''s'') ''BTC'') demo_fills
    \<and> total_pnl demo_position 125 = 0 + trade_value {} 125 demo_fills"
proof -
  have e: "exact_run (new_position (Some ''s'') ''BTC'') demo_fills" by code_simp
  have r: "apply_fills (new_position (Some ''s'') ''BTC'') demo_fills = Inr demo_position"
    by code_simp
  from average_cost_conserves_value [OF r e, of 125] e show ?thesis
    by (simp add: new_position_def total_pnl_def)
qed

end
