(* ===== verification/TW_Instruments.thy ===== *)
theory TW_Instruments
  imports TW_Orders
begin

text \<open>
  Instrument metadata and the pure arithmetic at the venue boundary:
  \<open>src/src/tickwright/domain/instrument.py\<close> (the quantizers and the min-notional rule),
  \<open>economics.py\<close> (fee, funding amount, funding boundaries) and \<open>leverage.py\<close> (the
  resolved leverage book and its startup check).
\<close>

section \<open>Specs and quantizers\<close>

record instrument_spec =
  is_symbol :: string
  is_sz_decimals :: int
  is_max_decimals :: int
  is_min_notional :: decimal
  is_max_sig_figs :: "int option"
  is_maker_fee :: decimal
  is_taker_fee :: decimal
  is_funding_rate :: decimal
  is_max_leverage :: int
  is_margin_maint :: decimal

record mark_tick =
  mt_ts_event :: int
  mt_ts_init :: int
  mt_symbol :: string
  mt_price :: decimal
  mt_seq :: "int option"

datatype guard_decision =
    Approved (ap_quantity: decimal) (ap_price: "decimal option")
  | Denied (dn_reason: string)

record pre_trade_reading =
  pr_symbol :: string
  pr_side :: side
  pr_account_net_size :: decimal
  pr_strategy_net_size :: decimal
  pr_open_remainder :: decimal
  pr_mark :: "mark_tick option"

record kill_switch_state =
  ks_tripped :: bool
  ks_reason :: "string option"
  ks_ts_ns :: int

definition quantize_size :: "decimal \<Rightarrow> instrument_spec \<Rightarrow> decimal res" where
  "quantize_size sz spec = quantize sz (- is_sz_decimals spec) ROUND_DOWN"

definition allowed_decimals :: "decimal \<Rightarrow> instrument_spec \<Rightarrow> int" where
  "allowed_decimals price spec =
     (let decimals = is_max_decimals spec - is_sz_decimals spec;
          capped = (case is_max_sig_figs spec of
                      Some sig \<Rightarrow> if price \<noteq> 0 then min decimals (sig - 1 - adjusted price) else decimals
                    | None \<Rightarrow> decimals)
      in max 0 capped)"

definition quantize_price :: "decimal \<Rightarrow> side \<Rightarrow> instrument_spec \<Rightarrow> decimal res" where
  "quantize_price price sd spec =
     quantize price (- allowed_decimals price spec) (if sd = BUY then ROUND_DOWN else ROUND_UP)"

definition below_min_notional :: "decimal \<Rightarrow> decimal \<Rightarrow> instrument_spec \<Rightarrow> bool" where
  "below_min_notional price quantity spec \<longleftrightarrow> dmul price quantity < is_min_notional spec"

definition direction_of :: "side \<Rightarrow> decimal" where
  "direction_of sd = (if sd = BUY then 1 else - 1)"

definition min_notional_refuses ::
  "decimal \<Rightarrow> decimal \<Rightarrow> instrument_spec \<Rightarrow> side \<Rightarrow> bool \<Rightarrow> decimal \<Rightarrow> bool" where
  "min_notional_refuses price quantity spec sd reduce_only account_net \<longleftrightarrow>
     below_min_notional price quantity spec \<and>
     \<not> (reduce_only \<and> dmul (direction_of sd) account_net < 0 \<and> dabs account_net \<le> quantity)"

section \<open>Economics\<close>

definition fill_fee :: "decimal \<Rightarrow> decimal \<Rightarrow> bool \<Rightarrow> instrument_spec \<Rightarrow> decimal" where
  "fill_fee price quantity maker spec =
     dmul (dmul price quantity) (if maker then is_maker_fee spec else is_taker_fee spec)"

definition funding_amount :: "decimal \<Rightarrow> decimal \<Rightarrow> instrument_spec \<Rightarrow> decimal" where
  "funding_amount signed_size price spec =
     dmul (dmul (dneg signed_size) price) (is_funding_rate spec)"

definition funding_boundaries :: "int \<Rightarrow> int \<Rightarrow> int \<Rightarrow> int list" where
  "funding_boundaries after through interval =
     map (\<lambda>i. i * interval) [after div interval + 1 .. through div interval]"

section \<open>The leverage book\<close>

datatype margin_mode = Cross | Isolated

record leverage_spec =
  lv_mode :: margin_mode
  lv_leverage :: int

definition DEFAULT_LEVERAGE :: "leverage_spec" where
  "DEFAULT_LEVERAGE = \<lparr>lv_mode = Isolated, lv_leverage = 1\<rparr>"

type_synonym leverage_book = "(string, leverage_spec) dict"

definition resolve_book :: "(string, leverage_spec) dict \<Rightarrow> string list \<Rightarrow> leverage_book" where
  "resolve_book configured traded =
     foldl (\<lambda>b s. AList.update s (dget configured s DEFAULT_LEVERAGE) b) [] traded"

definition for_symbol :: "leverage_book \<Rightarrow> string \<Rightarrow> leverage_spec" where
  "for_symbol book s = dget book s DEFAULT_LEVERAGE"

definition declares :: "leverage_book \<Rightarrow> string \<Rightarrow> bool" where
  "declares book s \<longleftrightarrow> map_of book s \<noteq> None"

definition leverage_in_bound :: "leverage_spec \<Rightarrow> instrument_spec \<Rightarrow> bool" where
  "leverage_in_bound l spec \<longleftrightarrow> 1 \<le> lv_leverage l \<and> lv_leverage l \<le> is_max_leverage spec"

text \<open>The two offence lists of the start-up check; any offence is the one exception.\<close>

definition validate_against :: "leverage_book \<Rightarrow> (string, instrument_spec) dict \<Rightarrow> unit res" where
  "validate_against book specs =
     (let unbounded = filter (\<lambda>(s, _). map_of specs s = None) book;
          out_of_bounds = filter (\<lambda>(s, l). case map_of specs s of None \<Rightarrow> False
                                  | Some spec \<Rightarrow> \<not> leverage_in_bound l spec) book
      in if unbounded = [] \<and> out_of_bounds = [] then Inr () else Inl LeverageOutOfBounds)"

section \<open>Quantization lands on the venue's grid\<close>

definition on_grid :: "int \<Rightarrow> rat \<Rightarrow> bool" where
  "on_grid e y \<longleftrightarrow> of_int \<lfloor>y / pow10 e\<rfloor> * pow10 e = y"

lemma on_grid_iff: "on_grid e y \<longleftrightarrow> (\<exists>n. y = of_int n * pow10 e)"
proof
  assume "\<exists>n. y = of_int n * pow10 e"
  then obtain n where "y = of_int n * pow10 e" ..
  then show "on_grid e y" by (simp add: on_grid_def)
qed (metis on_grid_def)

lemma on_grid_coarser: "on_grid e y \<Longrightarrow> f \<le> e \<Longrightarrow> on_grid f y"
proof -
  assume "on_grid e y" and le: "f \<le> e"
  then obtain n where "y = of_int n * pow10 e" by (auto simp: on_grid_iff)
  also have "pow10 e = of_int (10 ^ nat (e - f)) * pow10 f"
    by (rule pow10_split_at [OF le])
  finally have "y = of_int (n * 10 ^ nat (e - f)) * pow10 f" by simp
  then show ?thesis by (auto simp only: on_grid_iff)
qed

lemma quantize_on_grid: "quantize x e m = Inr y \<Longrightarrow> on_grid e y"
  by (auto dest!: quantize_Inr simp: on_grid_iff)

text \<open>
  A price is valid when it is a whole number, or has at most \<open>max_decimals - sz_decimals\<close>
  decimal places and at most \<open>max_sig_figs\<close> significant figures.
\<close>

definition valid_price :: "instrument_spec \<Rightarrow> decimal \<Rightarrow> bool" where
  "valid_price spec y \<longleftrightarrow> on_grid 0 y \<or>
     on_grid (- (is_max_decimals spec - is_sz_decimals spec)) y \<and>
     (case is_max_sig_figs spec of None \<Rightarrow> True | Some sig \<Rightarrow> on_grid (- (sig - 1 - adjusted y)) y)"

lemma quantize_passive:
  assumes "0 < x"
  shows "quantize x e ROUND_DOWN = Inr y \<Longrightarrow> 0 \<le> y \<and> y \<le> x"
    and "quantize x e ROUND_UP = Inr y \<Longrightarrow> x \<le> y"
proof -
  show "quantize x e ROUND_DOWN = Inr y \<Longrightarrow> 0 \<le> y \<and> y \<le> x"
  proof -
    assume q: "quantize x e ROUND_DOWN = Inr y"
    then have "y = of_int \<lfloor>x / pow10 e\<rfloor> * pow10 e"
      using assms by (auto dest!: quantize_Inr simp: round_down_def)
    moreover have "0 \<le> \<lfloor>x / pow10 e\<rfloor>" using assms by simp
    ultimately have "0 \<le> y" by simp
    with quantize_down_le [OF q] assms show ?thesis by simp
  qed
  show "quantize x e ROUND_UP = Inr y \<Longrightarrow> x \<le> y"
  proof -
    assume "quantize x e ROUND_UP = Inr y"
    then have y: "y = of_int \<lceil>x / pow10 e\<rceil> * pow10 e"
      using assms by (auto dest!: quantize_Inr simp: round_up_def)
    have "x = x / pow10 e * pow10 e" by simp
    also have "\<dots> \<le> of_int \<lceil>x / pow10 e\<rceil> * pow10 e"
      by (rule mult_right_mono) (simp_all add: less_imp_le)
    finally show ?thesis by (simp add: y)
  qed
qed

text \<open>Rounding on a grid that holds the decade keeps a figure inside its decade.\<close>

lemma grid_decade:
  assumes "0 < x" and "e \<le> adjusted x"
  shows "quantize x e ROUND_DOWN = Inr y \<Longrightarrow> pow10 (adjusted x) \<le> y"
    and "quantize x e ROUND_UP = Inr y \<Longrightarrow> y \<le> pow10 (adjusted x + 1)"
proof -
  have lo: "pow10 (adjusted x) \<le> x" and hi: "x < pow10 (adjusted x + 1)"
    using adjusted_bounds [of x] assms(1) by auto
  have split: "pow10 k = of_int (10 ^ nat (k - e)) * pow10 e" if "e \<le> k" for k
    by (rule pow10_split_at [OF that])
  show "pow10 (adjusted x) \<le> y" if "quantize x e ROUND_DOWN = Inr y"
  proof -
    have "of_int (10 ^ nat (adjusted x - e)) \<le> x / pow10 e"
      using lo unfolding split [OF assms(2)] pos_le_divide_eq [OF pow10_pos] .
    then have "10 ^ nat (adjusted x - e) \<le> \<lfloor>x / pow10 e\<rfloor>" by (simp only: le_floor_iff)
    then have "of_int (10 ^ nat (adjusted x - e)) * pow10 e \<le> of_int \<lfloor>x / pow10 e\<rfloor> * pow10 e"
      by (intro mult_right_mono) (simp_all only: of_int_le_iff less_imp_le [OF pow10_pos])
    then show ?thesis
      using quantize_Inr [OF that] assms(1) split [OF assms(2)] by (simp add: round_down_def)
  qed
  show "y \<le> pow10 (adjusted x + 1)" if "quantize x e ROUND_UP = Inr y"
  proof -
    have e': "e \<le> adjusted x + 1" using assms(2) by simp
    have "x / pow10 e \<le> of_int (10 ^ nat (adjusted x + 1 - e))"
      using hi unfolding split [OF e'] pos_divide_le_eq [OF pow10_pos] by simp
    then have "\<lceil>x / pow10 e\<rceil> \<le> 10 ^ nat (adjusted x + 1 - e)" by (simp only: ceiling_le_iff)
    then have "of_int \<lceil>x / pow10 e\<rceil> * pow10 e \<le> of_int (10 ^ nat (adjusted x + 1 - e)) * pow10 e"
      by (intro mult_right_mono) (simp_all only: of_int_le_iff less_imp_le [OF pow10_pos])
    then show ?thesis
      using quantize_Inr [OF that] assms(1) split [OF e'] by (simp add: round_up_def)
  qed
qed

lemma quantized_decade:
  assumes "0 < x" "e \<le> adjusted x" "quantize x e m = Inr y" "m = ROUND_DOWN \<or> m = ROUND_UP"
  shows "adjusted y = adjusted x \<or> y = pow10 (adjusted x + 1)"
proof -
  have lo: "pow10 (adjusted x) \<le> x" and hi: "x < pow10 (adjusted x + 1)"
    using adjusted_bounds [of x] assms(1) by auto
  have "pow10 (adjusted x) \<le> y \<and> y \<le> pow10 (adjusted x + 1)"
    using assms(3,4) lo hi quantize_passive [OF assms(1)] grid_decade [OF assms(1,2)] by force
  then show ?thesis
    using adjusted_unique [of "adjusted x" y] pow10_pos [of "adjusted x"] by force
qed

lemma pow10_on_grid: "e \<le> k \<Longrightarrow> on_grid e (pow10 k)"
  using on_grid_coarser [of k "pow10 k" e] on_grid_iff [of k] by (metis mult_1 of_int_1)

lemma adjusted_pow10 [simp]: "adjusted (pow10 k) = k"
  by (rule adjusted_unique) simp_all

lemma sig_grid:
  assumes "0 < x" "1 \<le> sig" "quantize x (- (sig - 1 - adjusted x)) m = Inr y"
    "m = ROUND_DOWN \<or> m = ROUND_UP"
  shows "on_grid (- (sig - 1 - adjusted y)) y"
proof -
  have "- (sig - 1 - adjusted x) \<le> adjusted x" using assms(2) by simp
  from quantized_decade [OF assms(1) this assms(3,4)] show ?thesis
  proof
    assume "adjusted y = adjusted x"
    then show ?thesis using quantize_on_grid [OF assms(3)] by simp
  next
    assume y: "y = pow10 (adjusted x + 1)"
    show ?thesis unfolding y adjusted_pow10 by (rule pow10_on_grid) (use assms(2) in simp)
  qed
qed

lemma coarse_sig_grid:
  assumes "0 < x" "1 \<le> sig" "d \<le> sig - 1 - adjusted x" "- d \<le> adjusted x"
    "quantize x (- d) m = Inr y" "m = ROUND_DOWN \<or> m = ROUND_UP"
  shows "on_grid (- (sig - 1 - adjusted y)) y"
  using quantized_decade [OF assms(1,4,5,6)]
proof
  assume "adjusted y = adjusted x"
  then show ?thesis
    using on_grid_coarser [OF quantize_on_grid [OF assms(5)]] assms(3) by simp
next
  assume y: "y = pow10 (adjusted x + 1)"
  show ?thesis unfolding y adjusted_pow10 by (rule pow10_on_grid) (use assms(2) in simp)
qed

lemma tiny_quantum:
  assumes "0 < x" "adjusted x < e" "quantize x e m = Inr y" "m = ROUND_DOWN \<or> m = ROUND_UP"
  shows "y = 0 \<or> y = pow10 e"
proof -
  have "x < pow10 (adjusted x + 1)" using adjusted_bounds [of x] assms(1) by auto
  also have "\<dots> \<le> pow10 e" using assms(2) by simp
  finally have "0 < x / pow10 e" "x / pow10 e < 1" using assms(1) by simp_all
  then have "\<lfloor>x / pow10 e\<rfloor> = 0" "\<lceil>x / pow10 e\<rceil> = 1" by linarith+
  with quantize_Inr [OF assms(3)] assms(1,4) show ?thesis
    by (auto simp: round_down_def round_up_def)
qed

lemma capped_sig_grid:
  assumes "0 < x" "1 \<le> sig" "d \<le> sig - 1 - adjusted x"
    "quantize x (- d) m = Inr y" "m = ROUND_DOWN \<or> m = ROUND_UP"
  shows "on_grid (- (sig - 1 - adjusted y)) y"
proof (cases "- d \<le> adjusted x")
  case True
  from coarse_sig_grid [OF assms(1-3) True assms(4,5)] show ?thesis .
next
  case False
  then have "y = 0 \<or> y = pow10 (- d)"
    using tiny_quantum [OF assms(1) _ assms(4,5)] by simp
  then show ?thesis
  proof
    assume "y = 0"
    then show ?thesis by (simp add: on_grid_def)
  next
    assume y: "y = pow10 (- d)"
    show ?thesis unfolding y adjusted_pow10 by (rule pow10_on_grid) (use assms(2) in simp)
  qed
qed

lemma quantized_price_valid:
  assumes "0 < x" and "\<forall>sig. is_max_sig_figs spec = Some sig \<longrightarrow> 1 \<le> sig"
    and q: "quantize_price x sd spec = Inr y"
  shows "valid_price spec y"
proof -
  define d where "d = allowed_decimals x spec"
  define m where "m = (if sd = BUY then ROUND_DOWN else ROUND_UP)"
  have q': "quantize x (- d) m = Inr y" using q by (simp add: quantize_price_def d_def m_def)
  have m: "m = ROUND_DOWN \<or> m = ROUND_UP" by (simp add: m_def)
  show ?thesis
  proof (cases "d = 0")
    case True
    then show ?thesis using quantize_on_grid [OF q'] by (simp add: valid_price_def)
  next
    case False
    then have le: "d \<le> is_max_decimals spec - is_sz_decimals spec"
      by (auto simp: d_def allowed_decimals_def Let_def max_def split: option.splits if_splits)
    have "on_grid (- (sig - 1 - adjusted y)) y" if "is_max_sig_figs spec = Some sig" for sig
    proof (rule capped_sig_grid [OF assms(1) _ _ q' m])
      show "1 \<le> sig" using assms(2) that by blast
      show "d \<le> sig - 1 - adjusted x"
        using that False assms(1) by (auto simp: d_def allowed_decimals_def Let_def max_def)
    qed
    with le quantize_on_grid [OF q'] show ?thesis
      unfolding valid_price_def by (auto intro: on_grid_coarser split: option.split)
  qed
qed

lemma quantized_price_passive:
  assumes "0 < x" and "\<forall>sig. is_max_sig_figs spec = Some sig \<longrightarrow> 1 \<le> sig"
    and "quantize_price x sd spec = Inr y"
  shows "valid_price spec y \<and> (sd = BUY \<longrightarrow> y \<le> x) \<and> (sd = SELL \<longrightarrow> x \<le> y)"
  using quantized_price_valid [OF assms] quantize_passive [OF assms(1)] assms(3)
  by (cases sd) (auto simp: quantize_price_def)

lemma quantize_size_le: "0 \<le> x \<Longrightarrow> quantize_size x spec = Inr y \<Longrightarrow> 0 \<le> y \<and> y \<le> x"
proof (cases "x = 0")
  case True
  assume "quantize_size x spec = Inr y"
  with True show ?thesis by (auto simp: quantize_size_def dest!: quantize_Inr) (simp add: round_down_def)+
next
  case False
  assume "0 \<le> x" "quantize_size x spec = Inr y"
  with False quantize_passive(1) [of x "- is_sz_decimals spec" y] show ?thesis
    by (simp add: quantize_size_def)
qed

lemma quantize_size_near:
  "0 \<le> x \<Longrightarrow> quantize_size x spec = Inr y \<Longrightarrow> x < y + pow10 (- is_sz_decimals spec)"
  using quantize_size_le [of x spec y] quantize_down_near [of x "- is_sz_decimals spec" y]
  by (simp add: quantize_size_def)

section \<open>Funding boundaries\<close>

lemma int_le_div_iff: "0 < k \<Longrightarrow> i \<le> n div k \<longleftrightarrow> i * k \<le> (n::int)"
proof
  assume k: "0 < k" and "i \<le> n div k"
  then have "i * k \<le> n div k * k" by (simp add: mult_right_mono)
  also have "\<dots> \<le> n" using k by (simp add: minus_mod_eq_div_mult [symmetric])
  finally show "i * k \<le> n" .
next
  assume k: "0 < k" and le: "i * k \<le> n"
  from zdiv_mono1 [OF le k] have "i * k div k \<le> n div k" .
  with k show "i \<le> n div k" by simp
qed

lemma set_funding_boundaries:
  assumes "0 < interval"
  shows "set (funding_boundaries after through interval) =
    {b. interval dvd b \<and> after < b \<and> b \<le> through}"
proof -
  have "after < i * interval \<longleftrightarrow> after div interval + 1 \<le> i" for i
  proof -
    have "after < i * interval \<longleftrightarrow> after div interval < i"
    proof
      assume "after div interval < i"
      then have "after div interval + 1 \<le> i" by simp
      then have "(after div interval + 1) * interval \<le> i * interval"
        using assms by (simp add: mult_right_mono)
      moreover have "after < (after div interval + 1) * interval"
        using int_le_div_iff [OF assms, of "after div interval + 1" after] by simp
      ultimately show "after < i * interval" by simp
    next
      assume "after < i * interval"
      then show "after div interval < i"
        using int_le_div_iff [OF assms, of "after div interval" after]
          mult_right_mono [of i "after div interval" interval] assms by fastforce
    qed
    then show ?thesis by (simp only: add1_zle_eq)
  qed
  then show ?thesis
    using int_le_div_iff [OF assms]
    unfolding funding_boundaries_def by (auto simp: image_def elim!: dvdE simp: mult.commute)
qed

lemma sorted_funding_boundaries:
  "0 < interval \<Longrightarrow> sorted_wrt (<) (funding_boundaries after through interval)"
  unfolding funding_boundaries_def sorted_wrt_map
  by (rule sorted_wrt_mono_rel [OF _ sorted_wrt_upto]) simp

lemma upto_append: "a \<le> b + 1 \<Longrightarrow> b \<le> c \<Longrightarrow> [a..b] @ [b + 1..c] = [a..(c::int)]"
  using upto_split2 [of a b c] by (cases "a = b + 1") auto

lemma funding_boundaries_tile:
  assumes "0 < interval" "a \<le> b" "b \<le> c"
  shows "funding_boundaries a b interval @ funding_boundaries b c interval = funding_boundaries a c interval"
  using assms zdiv_mono1 [of a b interval] zdiv_mono1 [of b c interval]
  unfolding funding_boundaries_def map_append [symmetric] by (subst upto_append) simp_all

section \<open>The resolved book\<close>

lemma map_of_resolve:
  "map_of (resolve_book configured traded) s =
    (if s \<in> set traded then Some (dget configured s DEFAULT_LEVERAGE) else None)"
  unfolding resolve_book_def
  by (induction traded rule: rev_induct) auto

lemma dict_ok_resolve: "dict_ok (resolve_book configured traded)"
  unfolding resolve_book_def by (induction traded rule: rev_induct) auto

lemma if_unit_iff: "((if P then Inr () else Inl e) = Inr ()) = P"
  by simp

lemma validate_against_ok:
  "dict_ok book \<Longrightarrow> validate_against book specs = Inr () \<longleftrightarrow>
    (\<forall>s l. map_of book s = Some l \<longrightarrow>
      (\<exists>spec. map_of specs s = Some spec \<and> leverage_in_bound l spec))"
proof -
  assume ok: "dict_ok book"
  have "validate_against book specs = Inr () \<longleftrightarrow>
      (\<forall>(s, l) \<in> set book. \<exists>spec. map_of specs s = Some spec \<and> leverage_in_bound l spec)"
    unfolding validate_against_def Let_def filter_empty_conv ball_conj_distrib [symmetric]
    by (intro trans [OF if_unit_iff] ball_cong [OF refl]) (auto split: option.split prod.split)
  also have "\<dots> \<longleftrightarrow> (\<forall>s l. map_of book s = Some l \<longrightarrow>
      (\<exists>spec. map_of specs s = Some spec \<and> leverage_in_bound l spec))"
    by (auto simp: dict_ok_map_of_iff [OF ok])
  finally show ?thesis .
qed

section \<open>Properties\<close>

definition demo_spec :: "instrument_spec" where
  "demo_spec = \<lparr>is_symbol = ''BTC'', is_sz_decimals = 2, is_max_decimals = 6, is_min_notional = 10,
     is_max_sig_figs = Some 5, is_maker_fee = 1 / 10000, is_taker_fee = 5 / 10000,
     is_funding_rate = 1 / 100000, is_max_leverage = 20, is_margin_maint = 1 / 40\<rparr>"

text \<open>
  A quantized price is one the venue accepts and never a more aggressive one: for a
  positive price it is a whole number or obeys both the decimal-places cap and the
  significant-figures cap (a round-up that carries into the next decade included), a buy
  is never raised and a sell never lowered.
\<close>

theorem quantize_price_valid_passive:
  assumes "0 < x" and "\<forall>sig. is_max_sig_figs spec = Some sig \<longrightarrow> 1 \<le> sig"
    and "quantize_price x sd spec = Inr y"
  shows "valid_price spec y \<and> (sd = BUY \<longrightarrow> y \<le> x) \<and> (sd = SELL \<longrightarrow> x \<le> y)"
  by (rule quantized_price_passive [OF assms])

theorem quantize_price_valid_passive_witness:
  "valid_price demo_spec 100 \<and> (99999 / 1000 :: decimal) \<le> 100"
proof -
  have "quantize_price (99999 / 1000 + 1 / 10000) SELL demo_spec = Inr 100" by code_simp
  from quantize_price_valid_passive [OF _ _ this] show ?thesis by (simp add: demo_spec_def)
qed

text \<open>
  Funding settles every boundary exactly once: the boundaries of a span are the
  multiples of the interval after its start and up to its end, in strictly ascending
  order, and consecutive spans tile a longer one without a gap or a repeat.
\<close>

theorem funding_boundaries_exact:
  assumes "0 < interval" "a \<le> b" "b \<le> c"
  shows "set (funding_boundaries a b interval) = {t. interval dvd t \<and> a < t \<and> t \<le> b}
    \<and> sorted_wrt (<) (funding_boundaries a b interval)
    \<and> funding_boundaries a b interval @ funding_boundaries b c interval
        = funding_boundaries a c interval"
  using set_funding_boundaries [OF assms(1)] sorted_funding_boundaries [OF assms(1)]
    funding_boundaries_tile [OF assms] by simp

theorem funding_boundaries_exact_witness:
  "funding_boundaries 0 7 3 = [3, 6] \<and> funding_boundaries 0 7 3 @ funding_boundaries 7 12 3 = [3, 6, 9, 12]"
  using funding_boundaries_exact [of 3 0 7 12]
  by (simp add: funding_boundaries_def upto.simps)

text \<open>
  A start that passes the leverage check trades every declared symbol within its
  bound: after the configured map is resolved over the traded symbols, the check succeeds
  exactly when each traded symbol has a spec and its leverage (the configured one or the
  default) lies between one and that spec's cap.
\<close>

theorem leverage_check_exact:
  "validate_against (resolve_book configured traded) specs = Inr () \<longleftrightarrow>
    (\<forall>s \<in> set traded. \<exists>spec. map_of specs s = Some spec
      \<and> 1 \<le> lv_leverage (for_symbol (resolve_book configured traded) s)
      \<and> lv_leverage (for_symbol (resolve_book configured traded) s) \<le> is_max_leverage spec)"
  by (auto simp: validate_against_ok [OF dict_ok_resolve] map_of_resolve for_symbol_def dget_def
      leverage_in_bound_def)

theorem leverage_check_exact_witness:
  "validate_against (resolve_book [(''BTC'', \<lparr>lv_mode = Cross, lv_leverage = 5\<rparr>)] [''BTC''])
    [(''BTC'', demo_spec)] = Inr ()"
  unfolding leverage_check_exact
  by (simp add: for_symbol_def dget_def resolve_book_def demo_spec_def)

end
