(* ===== verification/TW_Accounts.thy ===== *)
theory TW_Accounts
  imports TW_Positions TW_Instruments
begin

text \<open>
  The account aggregate and what the venue reports about it:
  \<open>src/src/tickwright/domain/account.py\<close>, \<open>domain/venue.py\<close> and the funding and cash
  facts of \<open>domain/events.py\<close>. The frozen snapshot \<open>AccountView\<close> belongs to the valuation
  and is not here. An accrual's \<open>event_id\<close> argument is provenance and does not reach the
  state, so the model's accruals do not take it.
\<close>

section \<open>The account\<close>

datatype netting = NET | HEDGE

record account_spec =
  as_account_id :: string
  as_netting :: netting
  as_genesis :: "decimal option"

definition declares_genesis :: "account_spec \<Rightarrow> bool" where
  "declares_genesis spec \<longleftrightarrow> as_genesis spec \<noteq> None"

record account =
  ac_account_id :: string
  ac_genesis :: decimal
  ac_genesis_ts_ns :: int
  ac_cash :: decimal

definition make_account :: "string \<Rightarrow> decimal \<Rightarrow> int \<Rightarrow> account" where
  "make_account ident genesis ts =
     \<lparr>ac_account_id = ident, ac_genesis = genesis, ac_genesis_ts_ns = ts, ac_cash = genesis\<rparr>"

definition accrue_realized :: "account \<Rightarrow> decimal \<Rightarrow> account" where
  "accrue_realized a amount = a\<lparr>ac_cash := dadd (ac_cash a) amount\<rparr>"

definition accrue_fee :: "account \<Rightarrow> decimal \<Rightarrow> account" where
  "accrue_fee a fee = a\<lparr>ac_cash := dsub (ac_cash a) fee\<rparr>"

definition accrue_account_funding :: "account \<Rightarrow> decimal \<Rightarrow> account" where
  "accrue_account_funding a funding = a\<lparr>ac_cash := dadd (ac_cash a) funding\<rparr>"

definition correct_cash :: "account \<Rightarrow> decimal \<Rightarrow> account" where
  "correct_cash a target = a\<lparr>ac_cash := target\<rparr>"

definition restore_account :: "string \<Rightarrow> decimal \<Rightarrow> int \<Rightarrow> decimal \<Rightarrow> account" where
  "restore_account ident genesis ts cash = (make_account ident genesis ts)\<lparr>ac_cash := cash\<rparr>"

definition open_account :: "account_spec \<Rightarrow> int \<Rightarrow> account" where
  "open_account spec ts =
     make_account (as_account_id spec) (case as_genesis spec of Some g \<Rightarrow> g | None \<Rightarrow> 0) ts"

section \<open>Venue truth\<close>

record venue_position_state =
  vp_symbol :: string
  vp_signed_size :: decimal
  vp_entry_price :: "decimal option"
  vp_notional :: decimal
  vp_unrealized_pnl :: decimal
  vp_margin_used :: decimal
  vp_isolated_collateral :: "decimal option"
  vp_liquidation_price :: "decimal option"
  vp_leverage :: leverage_spec

text \<open>\<open>copy_sign\<close> takes the sign bit of its argument; a zero size is a positive zero here.\<close>

definition copy_sign :: "decimal \<Rightarrow> decimal \<Rightarrow> decimal" where
  "copy_sign x s = (if s < 0 then - \<bar>x\<bar> else \<bar>x\<bar>)"

definition vp_cost_basis :: "venue_position_state \<Rightarrow> decimal" where
  "vp_cost_basis v = dsub (copy_sign (vp_notional v) (vp_signed_size v)) (vp_unrealized_pnl v)"

record venue_account_state =
  va_equity :: decimal
  va_free_margin :: decimal
  va_cross_maintenance_margin :: decimal
  va_as_of_ts_ns :: int
  va_cash_quantum :: decimal
  va_positions :: "venue_position_state list"

text \<open>\<open>__post_init__\<close>: the cash unit is one or a negative power of ten.\<close>

definition valid_cash_quantum :: "decimal \<Rightarrow> bool" where
  "valid_cash_quantum u \<longleftrightarrow> 0 < u \<and> u \<le> 1 \<and> u = pow10 (adjusted u)"

definition check_venue_state :: "venue_account_state \<Rightarrow> venue_account_state res" where
  "check_venue_state v =
     (if valid_cash_quantum (va_cash_quantum v) then Inr v else Inl (InvariantViolation BadCashQuantum))"

definition venue_cash :: "venue_account_state \<Rightarrow> decimal" where
  "venue_cash v = dsub (va_equity v) (dsum (map vp_unrealized_pnl (va_positions v)))"

definition venue_net_cash :: "venue_account_state \<Rightarrow> decimal" where
  "venue_net_cash v = dsub (venue_cash v) (dsum (map vp_cost_basis (va_positions v)))"

definition ingest_account :: "account_spec \<Rightarrow> venue_account_state \<Rightarrow> account" where
  "ingest_account spec v = make_account (as_account_id spec) (venue_cash v) (va_as_of_ts_ns v)"

section \<open>Accruals and corrections\<close>

record funding_accrual =
  fa_ts_event :: int
  fa_account_id :: string
  fa_symbol :: string
  fa_boundary_ts_ns :: int
  fa_amount :: decimal

definition fa_event_id :: "funding_accrual \<Rightarrow> string" where
  "fa_event_id a =
     fa_account_id a @ '':'' @ fa_symbol a @ '':funding:'' @ show_int (fa_boundary_ts_ns a)"

record cash_correction =
  cc_net_cash :: decimal
  cc_ts_ns :: int

definition cc_event_id :: "cash_correction \<Rightarrow> string" where
  "cc_event_id c = ''reconcile:cash:'' @ show_int (cc_ts_ns c)"

section \<open>Order references and requests\<close>

record order_ref =
  or_cloid :: string
  or_symbol :: string
  or_venue_oid :: "string option"
  or_acked_ts_ns :: "int option"
  or_created_ts_ns :: "int option"
  or_quantity :: "decimal option"

definition order_ref_of :: "order \<Rightarrow> order_ref" where
  "order_ref_of od = \<lparr>or_cloid = o_cloid od, or_symbol = o_symbol od, or_venue_oid = o_venue_oid od,
     or_acked_ts_ns = o_acked_ts_ns od, or_created_ts_ns = o_created_ts_ns od,
     or_quantity = Some (o_quantity od)\<rparr>"

record venue_order_view =
  vv_status :: "order_status_report option"
  vv_fills :: "fill_report list"

definition has_record :: "venue_order_view \<Rightarrow> bool" where
  "has_record v \<longleftrightarrow> vv_status v \<noteq> None \<or> vv_fills v \<noteq> []"

datatype venue_read_failure = SEND_FAILED | UNREADABLE_BODY | RATE_LIMITED_IP

record order_terms =
  ot_cloid :: string
  ot_symbol :: string
  ot_side :: side
  ot_quantity :: decimal
  ot_time_in_force :: time_in_force
  ot_post_only :: bool
  ot_reduce_only :: bool

datatype place_order = LimitOrder order_terms decimal | MarketOrder order_terms

fun po_terms :: "place_order \<Rightarrow> order_terms" where
  "po_terms (LimitOrder t p) = t"
| "po_terms (MarketOrder t) = t"

definition place_order_of :: "order \<Rightarrow> place_order res" where
  "place_order_of od =
     (case o_time_in_force od of
        None \<Rightarrow> Inl (InvariantViolation NoTimeInForce)
      | Some tif \<Rightarrow>
          let terms = \<lparr>ot_cloid = o_cloid od, ot_symbol = o_symbol od, ot_side = o_side od,
                ot_quantity = dsub (o_quantity od) (o_cum_qty od), ot_time_in_force = tif,
                ot_post_only = o_post_only od, ot_reduce_only = o_reduce_only od\<rparr>
          in if o_type od = MARKET then Inr (MarketOrder terms)
             else (case o_price od of
                     None \<Rightarrow> Inl (InvariantViolation LimitWithoutPrice)
                   | Some p \<Rightarrow> Inr (LimitOrder terms p)))"

section \<open>Lemmas\<close>

lemma account_frame [tw_frame]:
  "ac_account_id (accrue_realized a x) = ac_account_id a" "ac_genesis (accrue_realized a x) = ac_genesis a"
  "ac_genesis_ts_ns (accrue_realized a x) = ac_genesis_ts_ns a"
  "ac_account_id (accrue_fee a x) = ac_account_id a" "ac_genesis (accrue_fee a x) = ac_genesis a"
  "ac_genesis_ts_ns (accrue_fee a x) = ac_genesis_ts_ns a"
  "ac_account_id (accrue_account_funding a x) = ac_account_id a"
  "ac_genesis (accrue_account_funding a x) = ac_genesis a"
  "ac_genesis_ts_ns (accrue_account_funding a x) = ac_genesis_ts_ns a"
  "ac_account_id (correct_cash a x) = ac_account_id a" "ac_genesis (correct_cash a x) = ac_genesis a"
  "ac_genesis_ts_ns (correct_cash a x) = ac_genesis_ts_ns a"
  by (simp_all add: accrue_realized_def accrue_fee_def accrue_account_funding_def correct_cash_def)

lemma account_cash [simp]:
  "ac_cash (accrue_realized a x) = dadd (ac_cash a) x"
  "ac_cash (accrue_fee a x) = dsub (ac_cash a) x"
  "ac_cash (accrue_account_funding a x) = dadd (ac_cash a) x"
  "ac_cash (correct_cash a x) = x"
  by (simp_all add: accrue_realized_def accrue_fee_def accrue_account_funding_def correct_cash_def)

text \<open>The request for a fresh saga asks for its full size; a partly filled one for the rest.\<close>

lemma place_order_of_Inr:
  assumes "place_order_of od = Inr po"
  shows "ot_cloid (po_terms po) = o_cloid od \<and> ot_symbol (po_terms po) = o_symbol od
    \<and> ot_side (po_terms po) = o_side od \<and> ot_quantity (po_terms po) = dsub (o_quantity od) (o_cum_qty od)
    \<and> Some (ot_time_in_force (po_terms po)) = o_time_in_force od
    \<and> (case po of LimitOrder _ p \<Rightarrow> o_type od = LIMIT \<and> o_price od = Some p | MarketOrder _ \<Rightarrow> o_type od = MARKET)"
  using assms by (cases "o_type od") (auto simp: place_order_of_def Let_def split: option.splits)

end
