(* ===== verification/TW_Paper_Book.thy ===== *)
theory TW_Paper_Book
  imports TW_Accounts TW_Instruments
begin

text \<open>
  The parts of the paper exchange: the book of resting LIMIT orders
  (\<open>src/src/tickwright/adapters/paper/book.py\<close>), the fills the ledger has not applied yet
  (\<open>unapplied.py\<close>), the fill models (\<open>fill_model.py\<close>) and the funding loop (\<open>funding.py\<close>).
  A LIMIT order is its terms and its price. A probability or a random draw, a float in the
  source, is the exact number it stands for; a random draw is an argument. The lemmas show
  that the book never fills an order past the size it works, exactly on any lot grid.
\<close>

section \<open>The book\<close>

type_synonym limit_order = "order_terms \<times> decimal"

record book_fill =
  bf_filled :: decimal
  bf_complete :: bool
  bf_shrunk :: bool

record resting =
  rg_order :: limit_order
  rg_working :: decimal
  rg_filled :: decimal

type_synonym order_book = "(string, resting) dict"

definition rg_remaining :: "resting \<Rightarrow> decimal" where
  "rg_remaining r = dsub (rg_working r) (rg_filled r)"

definition at_working_size :: "resting \<Rightarrow> limit_order" where
  "at_working_size r = ((fst (rg_order r))\<lparr>ot_quantity := rg_working r\<rparr>, snd (rg_order r))"

definition rest_on :: "order_book \<Rightarrow> limit_order \<Rightarrow> decimal option \<Rightarrow> limit_order \<times> order_book" where
  "rest_on b lo working =
     (let w = (case working of None \<Rightarrow> ot_quantity (fst lo) | Some x \<Rightarrow> x);
          r = \<lparr>rg_order = lo, rg_working = min w (ot_quantity (fst lo)), rg_filled = 0\<rparr>
      in (at_working_size r, AList.update (ot_cloid (fst lo)) r b))"

definition working_of :: "order_book \<Rightarrow> string \<Rightarrow> limit_order option" where
  "working_of b c = (case map_of b c of None \<Rightarrow> None | Some r \<Rightarrow> Some (at_working_size r))"

definition resting_orders :: "order_book \<Rightarrow> limit_order list" where
  "resting_orders b = map (at_working_size \<circ> snd) b"

definition shrink_to :: "order_book \<Rightarrow> string \<Rightarrow> decimal \<Rightarrow> order_book res" where
  "shrink_to b c remaining =
     (case map_of b c of
        None \<Rightarrow> Inl KeyError
      | Some r \<Rightarrow> Inr (AList.update c
          (r\<lparr>rg_working := dadd (rg_filled r) (min (rg_remaining r) remaining)\<rparr>) b))"

definition take_fill :: "order_book \<Rightarrow> string \<Rightarrow> decimal \<Rightarrow> (book_fill \<times> order_book) res" where
  "take_fill b c quantity =
     (case map_of b c of
        None \<Rightarrow> Inl (InvariantViolation NotResting)
      | Some r \<Rightarrow>
          let filled = min quantity (rg_remaining r);
              r' = r\<lparr>rg_filled := dadd (rg_filled r) filled\<rparr>
          in if rg_remaining r' \<le> 0
             then Inr (\<lparr>bf_filled = filled, bf_complete = True,
                 bf_shrunk = rg_working r' < ot_quantity (fst (rg_order r'))\<rparr>, AList.delete c b)
             else Inr (\<lparr>bf_filled = filled, bf_complete = False, bf_shrunk = False\<rparr>, AList.update c r' b))"

definition has_partial :: "order_book \<Rightarrow> string \<Rightarrow> bool" where
  "has_partial b c = (case map_of b c of None \<Rightarrow> False | Some r \<Rightarrow> 0 < rg_filled r)"

definition take_off :: "order_book \<Rightarrow> string \<Rightarrow> limit_order option \<times> order_book" where
  "take_off b c = (map_option rg_order (map_of b c), AList.delete c b)"

section \<open>Fills the ledger has not applied\<close>

text \<open>\<open>applied c\<close> is the set of event ids the saga of \<open>c\<close> has applied.\<close>

type_synonym unapplied = "(fill_report \<times> side) list"

definition record_unapplied :: "unapplied \<Rightarrow> fill_report \<Rightarrow> side \<Rightarrow> unapplied" where
  "record_unapplied u f sd = u @ [(f, sd)]"

definition drain_unapplied :: "(string \<Rightarrow> string set) \<Rightarrow> unapplied \<Rightarrow> unapplied" where
  "drain_unapplied applied u = filter (\<lambda>(f, sd). fr_event_id f \<notin> applied (fr_cloid f)) u"

definition signed_size :: "(string \<Rightarrow> string set) \<Rightarrow> unapplied \<Rightarrow> string \<Rightarrow> decimal \<times> unapplied" where
  "signed_size applied u symbol =
     (let u' = drain_unapplied applied u
      in (foldl (\<lambda>s (f, sd). if fr_symbol f = symbol
                  then dadd s (if sd = BUY then fr_quantity f else dneg (fr_quantity f)) else s) 0 u', u'))"

definition unapplied_symbols :: "(string \<Rightarrow> string set) \<Rightarrow> unapplied \<Rightarrow> string list \<times> unapplied" where
  "unapplied_symbols applied u =
     (let u' = drain_unapplied applied u in (remdups (map (fr_symbol \<circ> fst) u'), u'))"

section \<open>Fill models\<close>

record paper_fill =
  pp_quantity :: decimal
  pp_price :: decimal

record stochastic_params =
  st_prob_slippage :: rat
  st_max_slippage :: decimal
  st_prob_fill_on_limit :: rat
  st_partial_fill_fraction :: decimal
  st_latency_seconds :: rat

definition check_stochastic :: "stochastic_params \<Rightarrow> stochastic_params res" where
  "check_stochastic p =
     (if \<not> (0 \<le> st_prob_slippage p \<and> st_prob_slippage p \<le> 1) then Inl (InvariantViolation BadStochasticParam)
      else if \<not> (0 \<le> st_prob_fill_on_limit p \<and> st_prob_fill_on_limit p \<le> 1)
      then Inl (InvariantViolation BadStochasticParam)
      else if \<not> (0 < st_partial_fill_fraction p \<and> st_partial_fill_fraction p \<le> 1)
      then Inl (InvariantViolation BadStochasticParam)
      else if st_max_slippage p < 0 then Inl (InvariantViolation BadStochasticParam)
      else if st_latency_seconds p < 0 then Inl (InvariantViolation BadStochasticParam)
      else Inr p)"

definition immediate_market :: "order_terms \<Rightarrow> decimal \<Rightarrow> paper_fill" where
  "immediate_market t tick_price = \<lparr>pp_quantity = ot_quantity t, pp_price = tick_price\<rparr>"

definition immediate_limit :: "limit_order \<Rightarrow> paper_fill" where
  "immediate_limit lo = \<lparr>pp_quantity = ot_quantity (fst lo), pp_price = snd lo\<rparr>"

text \<open>The draws \<open>u\<close> decide whether it happens, \<open>v\<close> how far the price slips.\<close>

definition slipped :: "stochastic_params \<Rightarrow> rat \<Rightarrow> decimal \<Rightarrow> side \<Rightarrow> decimal \<Rightarrow> decimal" where
  "slipped p u v sd price =
     (if st_prob_slippage p \<le> u then price
      else (let magnitude = dmul v (st_max_slippage p)
            in dmul price (if sd = BUY then dadd 1 magnitude else dsub 1 magnitude)))"

definition stochastic_market :: "stochastic_params \<Rightarrow> rat \<Rightarrow> decimal \<Rightarrow> order_terms \<Rightarrow> decimal \<Rightarrow> paper_fill" where
  "stochastic_market p u v t tick_price =
     \<lparr>pp_quantity = ot_quantity t, pp_price = slipped p u v (ot_side t) tick_price\<rparr>"

definition stochastic_limit :: "stochastic_params \<Rightarrow> rat \<Rightarrow> limit_order \<Rightarrow> paper_fill option" where
  "stochastic_limit p u lo =
     (if st_prob_fill_on_limit p \<le> u then None
      else Some \<lparr>pp_quantity = dmul (ot_quantity (fst lo)) (st_partial_fill_fraction p), pp_price = snd lo\<rparr>)"

section \<open>Funding\<close>

record funding_basis =
  fu_symbol :: string
  fu_signed_size :: decimal
  fu_price :: decimal
  fu_spec :: instrument_spec

text \<open>\<open>_settle\<close>: what it publishes, in order; an accrual of nothing is not published.\<close>

definition settle :: "string \<Rightarrow> int \<Rightarrow> funding_basis list \<Rightarrow> funding_accrual list" where
  "settle account_id boundary basis =
     concat (map (\<lambda>b.
       let amount = funding_amount (fu_signed_size b) (fu_price b) (fu_spec b)
       in if amount = 0 then []
          else [\<lparr>fa_ts_event = boundary, fa_account_id = account_id, fa_symbol = fu_symbol b,
                 fa_boundary_ts_ns = boundary, fa_amount = amount\<rparr>]) basis)"

text \<open>When the loop next wakes, and one turn of it at a wake-up time with the exposure read then.\<close>

definition funding_wake :: "int \<Rightarrow> int \<Rightarrow> int" where
  "funding_wake settled_through interval = settled_through div interval * interval + interval"

definition funding_turn ::
  "string \<Rightarrow> int \<Rightarrow> int \<Rightarrow> int \<Rightarrow> funding_basis list \<Rightarrow> funding_accrual list \<times> int" where
  "funding_turn account_id interval settled_through now exposure =
     (if exposure = [] then ([], now)
      else (concat (map (\<lambda>b. settle account_id b exposure) (funding_boundaries settled_through now interval)), now))"

fun run_funding :: "string \<Rightarrow> int \<Rightarrow> int \<Rightarrow> (int \<times> funding_basis list) list \<Rightarrow> funding_accrual list" where
  "run_funding account_id interval settled [] = []"
| "run_funding account_id interval settled ((now, exposure) # ws) =
     (case funding_turn account_id interval settled now exposure of
        (accruals, settled') \<Rightarrow> accruals @ run_funding account_id interval settled' ws)"


section \<open>Exactness on a lot grid\<close>

lemma on_grid_arith:
  "on_grid e a \<Longrightarrow> on_grid e b \<Longrightarrow> on_grid e (a + b)"
  "on_grid e a \<Longrightarrow> on_grid e b \<Longrightarrow> on_grid e (a - b)"
  "on_grid e a \<Longrightarrow> on_grid e (- a)"
  unfolding on_grid_iff by (metis of_int_add distrib_right, metis of_int_diff left_diff_distrib, metis of_int_minus mult_minus_left)

lemma on_grid_zero [simp]: "on_grid e 0"
  unfolding on_grid_iff by (rule exI [of _ 0]) simp

lemma on_grid_min: "on_grid e a \<Longrightarrow> on_grid e b \<Longrightarrow> on_grid e (min a b)"
  by (simp add: min_def)

lemma on_grid_fits:
  assumes "on_grid e x" "\<bar>x\<bar> < pow10 (e + 28)"
  shows "fits x"
proof -
  obtain n where x: "x = of_int n * pow10 e" using assms(1) by (auto simp: on_grid_iff)
  have "\<bar>of_int n :: rat\<bar> * pow10 e < pow10 28 * pow10 e" using assms(2) by (simp add: x abs_mult pow10_add mult.commute)
  then have "\<bar>of_int n :: rat\<bar> < pow10 (int 28)" by simp
  then have "(of_int \<bar>n\<bar> :: rat) < of_int (10 ^ 28)" by (simp only: pow10_nat of_int_abs)
  then have "\<bar>n\<bar> < 10 ^ 28" by (simp only: of_int_less_iff)
  then show ?thesis by (simp add: x fits_scaled)
qed

text \<open>A resting order on the grid \<open>10 ^ e\<close>, within the 28 digits of the context.\<close>

definition resting_ok :: "int \<Rightarrow> resting \<Rightarrow> bool" where
  "resting_ok e r \<longleftrightarrow> on_grid e (ot_quantity (fst (rg_order r))) \<and> on_grid e (rg_working r) \<and> on_grid e (rg_filled r)
     \<and> 0 \<le> rg_filled r \<and> rg_filled r < rg_working r \<and> rg_working r \<le> ot_quantity (fst (rg_order r))
     \<and> ot_quantity (fst (rg_order r)) < pow10 (e + 28)"

lemma resting_ok_exact:
  assumes "resting_ok e r" "on_grid e x" "0 \<le> x" "x \<le> rg_working r - rg_filled r"
  shows "rg_remaining r = rg_working r - rg_filled r" "dadd (rg_filled r) x = rg_filled r + x"
    "on_grid e (rg_filled r + x)" "dsub (rg_working r) (rg_filled r + x) = rg_working r - (rg_filled r + x)"
proof -
  note ok = assms(1) [unfolded resting_ok_def]
  show grid: "on_grid e (rg_filled r + x)" using ok assms(2) on_grid_arith by blast
  show "rg_remaining r = rg_working r - rg_filled r"
    unfolding rg_remaining_def
    by (intro dec_exact on_grid_fits [of e]) (use ok assms on_grid_arith in auto)
  show "dadd (rg_filled r) x = rg_filled r + x"
    by (intro dec_exact on_grid_fits [of e]) (use ok assms grid in auto)
  show "dsub (rg_working r) (rg_filled r + x) = rg_working r - (rg_filled r + x)"
    by (intro dec_exact on_grid_fits [of e]) (use ok assms grid on_grid_arith in auto)
qed

section \<open>No order fills past its size\<close>

datatype book_op = Rest limit_order "decimal option" | Shrink string decimal | Take string decimal | Off string

fun book_step :: "order_book \<Rightarrow> book_op \<Rightarrow> ((string \<times> decimal) list \<times> order_book) res" where
  "book_step b (Rest lo w) = Inr ([], snd (rest_on b lo w))"
| "book_step b (Shrink c x) = bind_res (shrink_to b c x) (\<lambda>b'. Inr ([], b'))"
| "book_step b (Take c q) = bind_res (take_fill b c q) (\<lambda>(f, b'). Inr ([(c, bf_filled f)], b'))"
| "book_step b (Off c) = Inr ([], snd (take_off b c))"

fun book_run :: "order_book \<Rightarrow> book_op list \<Rightarrow> ((string \<times> decimal) list \<times> order_book) res" where
  "book_run b [] = Inr ([], b)"
| "book_run b (op # ops) = bind_res (book_step b op) (\<lambda>(fs, b').
     bind_res (book_run b' ops) (\<lambda>(gs, b''). Inr (fs @ gs, b'')))"

fun op_ok :: "int \<Rightarrow> book_op \<Rightarrow> bool" where
  "op_ok e (Rest lo w) \<longleftrightarrow> on_grid e (ot_quantity (fst lo)) \<and> 0 < ot_quantity (fst lo)
     \<and> ot_quantity (fst lo) < pow10 (e + 28) \<and> (case w of None \<Rightarrow> True | Some x \<Rightarrow> on_grid e x \<and> 0 < x)"
| "op_ok e (Shrink c x) \<longleftrightarrow> on_grid e x \<and> 0 < x"
| "op_ok e (Take c q) \<longleftrightarrow> on_grid e q \<and> 0 < q"
| "op_ok e (Off c) \<longleftrightarrow> True"

definition taken :: "string \<Rightarrow> (string \<times> decimal) list \<Rightarrow> decimal" where
  "taken c fs = sum_list (map snd (filter (\<lambda>f. fst f = c) fs))"

lemma taken_simps [simp]:
  "taken c [] = 0" "taken c (fs @ gs) = taken c fs + taken c gs"
  "taken c [(c', q)] = (if c' = c then q else 0)"
  by (simp_all add: taken_def)

definition book_ok :: "int \<Rightarrow> order_book \<Rightarrow> bool" where
  "book_ok e b \<longleftrightarrow> (\<forall>c r. map_of b c = Some r \<longrightarrow> resting_ok e r)"

text \<open>What the book knows of the order \<open>c\<close> of quantity \<open>q\<close> once \<open>t\<close> of it is taken.\<close>

definition tallies :: "order_book \<Rightarrow> string \<Rightarrow> decimal \<Rightarrow> decimal \<Rightarrow> bool" where
  "tallies b c q t \<longleftrightarrow> (case map_of b c of None \<Rightarrow> t \<le> q
     | Some r \<Rightarrow> ot_quantity (fst (rg_order r)) = q \<and> rg_filled r = t)"

lemma rest_on_ok:
  assumes "book_ok e b" "op_ok e (Rest lo w)"
  shows "book_ok e (snd (rest_on b lo w))"
    and "tallies (snd (rest_on b lo w)) (ot_cloid (fst lo)) (ot_quantity (fst lo)) 0"
    and "ot_cloid (fst lo) \<noteq> c \<Longrightarrow> tallies b c q t \<Longrightarrow> tallies (snd (rest_on b lo w)) c q t"
  using assms
  by (auto simp: book_ok_def rest_on_def Let_def resting_ok_def tallies_def on_grid_min min_less_iff_disj
      split: option.splits)

lemma shrink_to_ok:
  assumes "book_ok e b" "shrink_to b c' x = Inr b'" "on_grid e x" "0 < x"
  shows "book_ok e b'" and "tallies b c q t \<Longrightarrow> tallies b' c q t"
proof -
  from assms(2) obtain r where r: "map_of b c' = Some r"
    and b': "b' = AList.update c' (r\<lparr>rg_working := dadd (rg_filled r) (min (rg_remaining r) x)\<rparr>) b"
    by (auto simp: shrink_to_def split: option.splits)
  have ok: "resting_ok e r" using assms(1) r by (simp add: book_ok_def)
  have rem: "rg_remaining r = rg_working r - rg_filled r"
    using resting_ok_exact(1) [OF ok on_grid_zero] ok by (simp add: resting_ok_def)
  define y where "y = min (rg_working r - rg_filled r) x"
  have y: "on_grid e y" "0 < y" "y \<le> rg_working r - rg_filled r"
    using ok assms(3,4) by (auto simp: y_def resting_ok_def intro!: on_grid_min on_grid_arith)
  have new: "dadd (rg_filled r) (min (rg_remaining r) x) = rg_filled r + y"
    using resting_ok_exact(2) [OF ok y(1) _ y(3)] y(2) by (simp add: rem y_def)
  have "resting_ok e (r\<lparr>rg_working := rg_filled r + y\<rparr>)"
    using ok y resting_ok_exact(3) [OF ok y(1) _ y(3)] by (simp add: resting_ok_def)
  then show "book_ok e b'" using assms(1) by (simp add: book_ok_def b' new)
  show "tallies b c q t \<Longrightarrow> tallies b' c q t" using r by (auto simp: tallies_def b')
qed

lemma take_fill_ok:
  assumes "book_ok e b" "take_fill b c' x = Inr (f, b')" "on_grid e x" "0 < x"
  shows "book_ok e b'" and "tallies b c q t \<Longrightarrow> tallies b' c q (t + taken c [(c', bf_filled f)])"
    and "0 < bf_filled f"
proof -
  from assms(2) obtain r where r: "map_of b c' = Some r" by (auto simp: take_fill_def split: option.splits)
  have ok: "resting_ok e r" using assms(1) r by (simp add: book_ok_def)
  have rem: "rg_remaining r = rg_working r - rg_filled r"
    using resting_ok_exact(1) [OF ok on_grid_zero] ok by (simp add: resting_ok_def)
  define y where "y = min x (rg_working r - rg_filled r)"
  have y: "on_grid e y" "0 < y" "y \<le> rg_working r - rg_filled r"
    using ok assms(3,4) by (auto simp: y_def resting_ok_def intro!: on_grid_min on_grid_arith)
  note ex = resting_ok_exact [OF ok y(1) _ y(3)]
  have r': "rg_remaining (r\<lparr>rg_filled := dadd (rg_filled r) y\<rparr>) = rg_working r - (rg_filled r + y)"
    using ex(2,4) y(2) by (simp add: rg_remaining_def)
  have f: "bf_filled f = y" and b': "b' = (if rg_working r - (rg_filled r + y) \<le> 0 then AList.delete c' b
      else AList.update c' (r\<lparr>rg_filled := rg_filled r + y\<rparr>) b)"
    using assms(2) r' ex(2) y(2) by (auto simp: take_fill_def r Let_def rem y_def [symmetric] split: if_splits)
  have "resting_ok e (r\<lparr>rg_filled := rg_filled r + y\<rparr>)" if "\<not> rg_working r - (rg_filled r + y) \<le> 0"
    using that ok y ex(3) by (simp add: resting_ok_def)
  then show "book_ok e b'" using assms(1) by (simp add: book_ok_def b')
  show "0 < bf_filled f" using y f by simp
  have "rg_filled r + y \<le> ot_quantity (fst (rg_order r))" using ok y(3) by (simp add: resting_ok_def)
  then show "tallies b c q t \<Longrightarrow> tallies b' c q (t + taken c [(c', bf_filled f)])"
    using r by (cases "c' = c") (auto simp: tallies_def b' f taken_def)
qed

lemma take_off_ok:
  "book_ok e b \<Longrightarrow> book_ok e (snd (take_off b c'))"
  "book_ok e b \<Longrightarrow> tallies b c q t \<Longrightarrow> tallies (snd (take_off b c')) c q t"
  by (auto simp: book_ok_def take_off_def tallies_def resting_ok_def split: option.splits dest!: spec)

lemma book_run_tallies:
  assumes "book_run b ops = Inr (fs, b')" "book_ok e b" "\<forall>op \<in> set ops. op_ok e op"
    and "\<forall>lo w. Rest lo w \<in> set ops \<longrightarrow> ot_cloid (fst lo) \<noteq> c" and "tallies b c q t"
  shows "book_ok e b' \<and> tallies b' c q (t + taken c fs)"
  using assms
proof (induction ops arbitrary: b fs t)
  case (Cons op ops)
  from Cons.prems(1) obtain fs1 b1 fs2 where 1: "book_step b op = Inr (fs1, b1)"
    and 2: "book_run b1 ops = Inr (fs2, b')" and fs: "fs = fs1 @ fs2" by (auto simp: bind_res_eq_Inr)
  have "book_ok e b1 \<and> tallies b1 c q (t + taken c fs1)"
  proof (cases op)
    case (Rest lo w)
    have "ot_cloid (fst lo) \<noteq> c" using Cons.prems(4) [rule_format, of lo w] by (simp add: Rest)
    with Rest 1 Cons.prems(2,3,5) show ?thesis by (auto intro: rest_on_ok)
  next
    case (Shrink c' x)
    with 1 Cons.prems shrink_to_ok [of e b c' x b1] show ?thesis by (auto simp: bind_res_eq_Inr)
  next
    case (Take c' x)
    with 1 obtain f where f: "take_fill b c' x = Inr (f, b1)" "fs1 = [(c', bf_filled f)]" by (auto simp: bind_res_eq_Inr)
    with Take Cons.prems take_fill_ok [OF Cons.prems(2) f(1)] show ?thesis by simp
  next
    case (Off c')
    with 1 Cons.prems take_off_ok [of e b] show ?thesis by auto
  qed
  then have next_state: "book_ok e b1" "tallies b1 c q (t + taken c fs1)" by auto
  have "book_ok e b' \<and> tallies b' c q (t + taken c fs1 + taken c fs2)"
    by (rule Cons.IH [OF 2 next_state(1) _ _ next_state(2)]) (use Cons.prems(3,4) in auto)
  then show ?case by (simp add: fs add.assoc)
qed simp

text \<open>
  The book never fills an order past the size it asked for. Rest an order on any book and
  run any sequence of fills, shrinks, removals and other orders on the lot grid: what is taken
  of the order never exceeds its quantity.
\<close>

theorem book_never_overfills:
  assumes "book_ok e b" "\<forall>op \<in> set (Rest lo w # ops). op_ok e op"
    and "\<forall>lo' w'. Rest lo' w' \<in> set ops \<longrightarrow> ot_cloid (fst lo') \<noteq> ot_cloid (fst lo)"
    and "book_run b (Rest lo w # ops) = Inr (fs, b')"
  shows "taken (ot_cloid (fst lo)) fs \<le> ot_quantity (fst lo)"
proof -
  have first: "book_ok e (snd (rest_on b lo w))"
    "tallies (snd (rest_on b lo w)) (ot_cloid (fst lo)) (ot_quantity (fst lo)) 0"
    using rest_on_ok [of e b lo w] assms(1,2) by auto
  have rest: "book_run (snd (rest_on b lo w)) ops = Inr (fs, b')"
    using assms(4) by (auto simp: bind_res_eq_Inr)
  from book_run_tallies [OF rest first(1) _ assms(3) first(2)] assms(2)
  have "book_ok e b'" "tallies b' (ot_cloid (fst lo)) (ot_quantity (fst lo)) (taken (ot_cloid (fst lo)) fs)" by auto
  then show ?thesis
  proof (cases "map_of b' (ot_cloid (fst lo))")
    case (Some r)
    with \<open>book_ok e b'\<close> have "resting_ok e r" by (simp add: book_ok_def)
    with \<open>tallies b' _ _ _\<close> Some show ?thesis by (auto simp: tallies_def resting_ok_def)
  qed (simp add: tallies_def)
qed

definition demo_limit :: "limit_order" where
  "demo_limit = (\<lparr>ot_cloid = ''c'', ot_symbol = ''BTC'', ot_side = SELL, ot_quantity = 10, ot_time_in_force = GTC,
     ot_post_only = False, ot_reduce_only = True\<rparr>, 100)"

theorem book_never_overfills_witness:
  "taken ''c'' [(''c'', 3), (''c'', 2), (''c'', 2)] \<le> ot_quantity (fst demo_limit)"
proof -
  have grid: "on_grid 0 x" if "x = of_int n" for x n using that by (auto simp: on_grid_iff)
  have "\<exists>b'. book_run [] [Rest demo_limit (Some 8), Take ''c'' 3, Take ''c'' 2, Shrink ''c'' 2, Take ''c'' 9]
      = Inr ([(''c'', 3), (''c'', 2), (''c'', 2)], b')" by (rule exI [of _ "[]"]) code_simp
  then obtain b' where run: "book_run [] [Rest demo_limit (Some 8), Take ''c'' 3, Take ''c'' 2, Shrink ''c'' 2, Take ''c'' 9]
      = Inr ([(''c'', 3), (''c'', 2), (''c'', 2)], b')" ..
  have big: "(10 :: rat) < pow10 (0 + 28)" by code_simp
  have "ot_cloid (fst demo_limit) = ''c''" by (simp add: demo_limit_def)
  with book_never_overfills [OF _ _ _ run, of 0] big show ?thesis
    by (simp add: book_ok_def demo_limit_def grid [of _ 10] grid [of _ 8] grid [of _ 3] grid [of _ 2] grid [of _ 9])
qed


section \<open>A fill counts once, applied or not\<close>

text \<open>What a fill moves the net by, and what a list of them moves a symbol by.\<close>

definition signed_fill :: "fill_report \<times> side \<Rightarrow> decimal" where
  "signed_fill x = (if snd x = BUY then fr_quantity (fst x) else - fr_quantity (fst x))"

definition moved_by :: "string \<Rightarrow> unapplied \<Rightarrow> decimal" where
  "moved_by symbol u = sum_list (map signed_fill (filter (\<lambda>x. fr_symbol (fst x) = symbol) u))"

definition turnover :: "unapplied \<Rightarrow> decimal" where
  "turnover u = sum_list (map (\<lambda>x. \<bar>signed_fill x\<bar>) u)"

definition fills_ok :: "int \<Rightarrow> unapplied \<Rightarrow> bool" where
  "fills_ok e u \<longleftrightarrow> (\<forall>x \<in> set u. on_grid e (fr_quantity (fst x))) \<and> turnover u < pow10 (e + 28)"

lemma turnover_nonneg [simp]: "0 \<le> turnover u"
  by (auto simp: turnover_def intro!: sum_list_nonneg)

lemma turnover_simps [simp]:
  "turnover [] = 0" "turnover (u @ v) = turnover u + turnover v" "turnover (x # u) = \<bar>signed_fill x\<bar> + turnover u"
  by (simp_all add: turnover_def)

lemma turnover_filter: "turnover (filter P u) \<le> turnover u"
  by (induction u) (auto simp: add_increasing)

lemma fills_ok_filter: "fills_ok e u \<Longrightarrow> fills_ok e (filter P u)"
  using turnover_filter [of P u] by (auto simp: fills_ok_def)

lemma moved_by_bounds: "(\<forall>x \<in> set u. on_grid e (fr_quantity (fst x))) \<Longrightarrow>
  on_grid e (moved_by symbol u) \<and> \<bar>moved_by symbol u\<bar> \<le> turnover u"
  by (induction u) (auto simp: moved_by_def signed_fill_def on_grid_arith)

lemma signed_fold_exact:
  assumes "fills_ok e u"
  shows "foldl (\<lambda>s (f, sd). if fr_symbol f = symbol
      then dadd s (if sd = BUY then fr_quantity f else dneg (fr_quantity f)) else s) 0 u = moved_by symbol u"
  using assms
proof (induction u rule: rev_induct)
  case Nil
  then show ?case by (simp add: moved_by_def)
next
  case (snoc x u)
  obtain f sd where x: "x = (f, sd)" by (cases x)
  have u: "fills_ok e u" using snoc.prems by (auto simp: fills_ok_def)
  note IH = snoc.IH [OF u]
  have grid: "\<forall>y \<in> set (u @ [x]). on_grid e (fr_quantity (fst y))" and small: "turnover (u @ [x]) < pow10 (e + 28)"
    using snoc.prems by (auto simp: fills_ok_def)
  have q: "fits (fr_quantity f)"
  proof (rule on_grid_fits)
    show "on_grid e (fr_quantity f)" using grid by (simp add: x)
    have "\<bar>fr_quantity f\<bar> \<le> turnover (u @ [x])" using turnover_nonneg [of u] by (auto simp: x signed_fill_def)
    then show "\<bar>fr_quantity f\<bar> < pow10 (e + 28)" using small by (rule le_less_trans)
  qed
  have sum: "moved_by symbol (u @ [y]) = moved_by symbol u + (if fr_symbol (fst y) = symbol then signed_fill y else 0)" for y
    by (simp add: moved_by_def)
  from moved_by_bounds [OF grid, of symbol] have b: "on_grid e (moved_by symbol (u @ [x]))"
    "\<bar>moved_by symbol (u @ [x])\<bar> \<le> turnover (u @ [x])" by auto
  have "fits (moved_by symbol (u @ [x]))"
    by (rule on_grid_fits [OF b(1) le_less_trans [OF b(2) small]])
  then show ?case using IH q
    by (cases sd; cases "fr_symbol f = symbol") (simp_all add: x sum signed_fill_def dec_exact)
qed

text \<open>
  The net the venue works with counts a fill exactly once at every moment. When the ledger
  applies one of the unapplied fills, moving its own net by the fill's signed size and marking the
  fill's id applied, the sum of ledger net and unapplied size is what it was.
\<close>

theorem net_counts_each_fill_once:
  assumes "fills_ok e (u @ [(f, sd)] @ v)" and "fr_symbol f = symbol"
    and "\<forall>x \<in> set (u @ v). fr_event_id (fst x) \<notin> applied (fr_cloid (fst x))
          \<and> (fr_event_id (fst x), fr_cloid (fst x)) \<noteq> (fr_event_id f, fr_cloid f)"
    and "fr_event_id f \<notin> applied (fr_cloid f)"
    and "applied' = applied(fr_cloid f := insert (fr_event_id f) (applied (fr_cloid f)))"
  shows "net + fst (signed_size applied (u @ [(f, sd)] @ v) symbol)
    = (net + signed_fill (f, sd)) + fst (signed_size applied' (u @ [(f, sd)] @ v) symbol)"
proof -
  have "filter (\<lambda>(f, sd). fr_event_id f \<notin> applied (fr_cloid f)) w = w" if "set w \<subseteq> set (u @ v)" for w
    using that assms(3) by (intro filter_True) (auto simp only: case_prod_beta)
  then have before: "drain_unapplied applied (u @ [(f, sd)] @ v) = u @ [(f, sd)] @ v"
    using assms(4) by (simp add: drain_unapplied_def)
  have "filter (\<lambda>(f, sd). fr_event_id f \<notin> applied' (fr_cloid f)) w = w" if "set w \<subseteq> set (u @ v)" for w
  proof (rule filter_True, rule ballI)
    fix x assume "x \<in> set w"
    with that assms(3) have "fr_event_id (fst x) \<notin> applied (fr_cloid (fst x))"
      "fr_event_id (fst x) = fr_event_id f \<longrightarrow> fr_cloid (fst x) \<noteq> fr_cloid f" by auto
    then show "case x of (f, sd) \<Rightarrow> fr_event_id f \<notin> applied' (fr_cloid f)" by (auto simp: case_prod_beta assms(5))
  qed
  then have after: "drain_unapplied applied' (u @ [(f, sd)] @ v) = u @ v"
    by (simp add: drain_unapplied_def assms(5))
  have "fills_ok e (u @ v)" using assms(1) by (auto simp: fills_ok_def)
  with assms(1,2) show ?thesis
    unfolding signed_size_def Let_def before after fst_conv
    by (simp only: signed_fold_exact) (simp add: moved_by_def)
qed

definition paper_demo_fill :: "string \<Rightarrow> decimal \<Rightarrow> fill_report" where
  "paper_demo_fill trade q = \<lparr>fr_ts_event = 1, fr_ts_init = 1, fr_cloid = ''c'', fr_symbol = ''BTC'', fr_trade_id = trade,
     fr_quantity = q, fr_price = 100, fr_fee = 0, fr_reconciliation = False\<rparr>"

theorem net_counts_each_fill_once_witness:
  "5 + fst (signed_size (\<lambda>c. {}) [(paper_demo_fill ''c-1'' 2, BUY), (paper_demo_fill ''c-2'' 3, SELL)] ''BTC'')
    = (5 + -3) + fst (signed_size ((\<lambda>c. {})(''c'' := {''c:fill:c-2''}))
        [(paper_demo_fill ''c-1'' 2, BUY), (paper_demo_fill ''c-2'' 3, SELL)] ''BTC'')"
proof -
  have grid: "on_grid 0 x" if "x = of_int n" for x n using that by (auto simp: on_grid_iff)
  have big: "(5 :: rat) < pow10 28" by code_simp
  have "fills_ok 0 ([(paper_demo_fill ''c-1'' 2, BUY)] @ [(paper_demo_fill ''c-2'' 3, SELL)] @ [])"
    using big by (simp add: fills_ok_def paper_demo_fill_def signed_fill_def grid [of _ 2] grid [of _ 3])
  from net_counts_each_fill_once [OF this, of "''BTC''" "\<lambda>c. {}" _ 5] show ?thesis
    by (simp add: paper_demo_fill_def fr_event_id_def fill_event_id_def signed_fill_def)
qed

section \<open>Funding settles every boundary once\<close>

lemma settle_symbol:
  assumes "distinct (map fu_symbol ex)" "x \<in> set ex" "funding_amount (fu_signed_size x) (fu_price x) (fu_spec x) \<noteq> 0"
  shows "map fa_boundary_ts_ns (filter (\<lambda>a. fa_symbol a = fu_symbol x) (settle account b ex)) = [b]"
proof -
  have none: "filter (\<lambda>a. fa_symbol a = s) (settle account b ys) = []" if "s \<notin> fu_symbol ` set ys" for s ys
    using that by (auto simp: settle_def filter_empty_conv Let_def split: if_splits)
  from assms(2) obtain ys zs where ex: "ex = ys @ x # zs" by (meson split_list)
  have "settle account b ex = settle account b ys @ settle account b [x] @ settle account b zs"
    by (simp add: settle_def ex)
  moreover have "filter (\<lambda>a. fa_symbol a = fu_symbol x) (settle account b ys) = []"
    "filter (\<lambda>a. fa_symbol a = fu_symbol x) (settle account b zs) = []"
    using assms(1) by (auto simp: ex intro!: none)
  ultimately show ?thesis using assms(3) by (simp add: settle_def Let_def)
qed

lemma settle_boundaries:
  assumes "distinct (map fu_symbol ex)" "x \<in> set ex" "funding_amount (fu_signed_size x) (fu_price x) (fu_spec x) \<noteq> 0"
  shows "map fa_boundary_ts_ns (filter (\<lambda>a. fa_symbol a = fu_symbol x) (concat (map (\<lambda>b. settle account b ex) bs))) = bs"
  by (induction bs) (simp_all add: settle_symbol [OF assms])

text \<open>
  C37. Funding is charged exactly once per boundary. However late the loop wakes, the accruals it
  publishes for a symbol with exposure are, in order, exactly the boundaries between its start and
  its last wake-up, each once.
\<close>

theorem funding_settles_each_boundary_once:
  assumes "0 < interval" and "sorted (start # map fst ws)"
    and "\<forall>(now, ex) \<in> set ws. distinct (map fu_symbol ex) \<and> (\<exists>x \<in> set ex. fu_symbol x = symbol
          \<and> funding_amount (fu_signed_size x) (fu_price x) (fu_spec x) \<noteq> 0)"
  shows "map fa_boundary_ts_ns (filter (\<lambda>a. fa_symbol a = symbol) (run_funding account interval start ws))
    = funding_boundaries start (last (start # map fst ws)) interval"
  using assms(2,3)
proof (induction ws arbitrary: start)
  case Nil
  then show ?case by (simp add: funding_boundaries_def)
next
  case (Cons w ws)
  obtain now ex where w: "w = (now, ex)" by (cases w)
  from Cons.prems obtain x where x: "distinct (map fu_symbol ex)" "x \<in> set ex" "fu_symbol x = symbol"
    "funding_amount (fu_signed_size x) (fu_price x) (fu_spec x) \<noteq> 0" by (auto simp: w)
  have le: "start \<le> now" "now \<le> last (now # map fst ws)"
  proof -
    have "now \<le> y" if "y \<in> set (now # map fst ws)" for y using that Cons.prems(1) by (auto simp: w)
    then show "now \<le> last (now # map fst ws)" using last_in_set by blast
  qed (use Cons.prems(1) in \<open>simp add: w\<close>)
  have turn: "map fa_boundary_ts_ns (filter (\<lambda>a. fa_symbol a = symbol)
      (fst (funding_turn account interval start now ex))) = funding_boundaries start now interval"
    using settle_boundaries [OF x(1,2,4), of account] x(2,3) by (auto simp: funding_turn_def)
  have "sorted (now # map fst ws)" using Cons.prems(1) by (simp add: w)
  from Cons.IH [OF this] Cons.prems(2) have rest:
    "map fa_boundary_ts_ns (filter (\<lambda>a. fa_symbol a = symbol) (run_funding account interval now ws))
      = funding_boundaries now (last (now # map fst ws)) interval" by simp
  have "snd (funding_turn account interval start now ex) = now" by (simp add: funding_turn_def)
  then have "run_funding account interval start (w # ws) =
      fst (funding_turn account interval start now ex) @ run_funding account interval now ws"
    by (simp add: w case_prod_beta)
  with turn rest funding_boundaries_tile [OF assms(1) le] show ?case by (simp add: w)
qed

definition paper_demo_spec :: "instrument_spec" where
  "paper_demo_spec = \<lparr>is_symbol = ''BTC'', is_sz_decimals = 3, is_max_decimals = 6, is_min_notional = 10,
     is_max_sig_figs = None, is_maker_fee = 0, is_taker_fee = 0, is_funding_rate = 1, is_max_leverage = 10,
     is_margin_maint = 0\<rparr>"

theorem funding_settles_each_boundary_once_witness:
  "map fa_boundary_ts_ns (filter (\<lambda>a. fa_symbol a = ''BTC'') (run_funding ''paper-a'' 10 3
      [(12, [\<lparr>fu_symbol = ''BTC'', fu_signed_size = 2, fu_price = 5, fu_spec = paper_demo_spec\<rparr>]),
       (35, [\<lparr>fu_symbol = ''BTC'', fu_signed_size = 2, fu_price = 6, fu_spec = paper_demo_spec\<rparr>])]))
    = [10, 20, 30]"
proof -
  have amount: "funding_amount 2 5 paper_demo_spec \<noteq> 0 \<and> funding_amount 2 6 paper_demo_spec \<noteq> 0" by code_simp
  have "map fa_boundary_ts_ns (filter (\<lambda>a. fa_symbol a = ''BTC'') (run_funding ''paper-a'' 10 3
      [(12, [\<lparr>fu_symbol = ''BTC'', fu_signed_size = 2, fu_price = 5, fu_spec = paper_demo_spec\<rparr>]),
       (35, [\<lparr>fu_symbol = ''BTC'', fu_signed_size = 2, fu_price = 6, fu_spec = paper_demo_spec\<rparr>])]))
    = funding_boundaries 3 (last (3 # map fst
      [(12, [\<lparr>fu_symbol = ''BTC'', fu_signed_size = 2, fu_price = 5, fu_spec = paper_demo_spec\<rparr>]),
       (35, [\<lparr>fu_symbol = ''BTC'', fu_signed_size = 2, fu_price = 6, fu_spec = paper_demo_spec\<rparr>])])) 10"
    by (rule funding_settles_each_boundary_once) (use amount in auto)
  also have "\<dots> = [10, 20, 30]" by (simp add: funding_boundaries_def upto.simps)
  finally show ?thesis .
qed

text \<open>The loop wakes at the first boundary after what it settled.\<close>

lemma funding_wake_next: "0 < interval \<Longrightarrow> funding_boundaries s (funding_wake s interval) interval = [funding_wake s interval]"
  by (simp add: funding_boundaries_def funding_wake_def algebra_simps flip: distrib_right)

section \<open>Slippage is adverse\<close>

lemma slipped_adverse:
  assumes "0 \<le> v" "0 \<le> st_max_slippage p" "0 \<le> price" "fits price"
  shows "if sd = BUY then price \<le> slipped p u v sd price else slipped p u v sd price \<le> price"
proof -
  define m where "m = dmul v (st_max_slippage p)"
  have m: "0 \<le> m" using assms(1,2) by (simp add: m_def dmul_def)
  have up: "1 \<le> dadd 1 m" using rnd_mono [of 1 "1 + m"] m by (simp add: dadd_def)
  have down: "dsub 1 m \<le> 1" using rnd_mono [of "1 - m" 1] m by (simp add: dsub_def)
  have "price * 1 \<le> price * dadd 1 m" "price * dsub 1 m \<le> price * 1"
    using up down assms(3) by (intro mult_left_mono; simp)+
  then have "price \<le> dmul price (dadd 1 m)" "dmul price (dsub 1 m) \<le> price"
    using rnd_mono [of price "price * dadd 1 m"] rnd_mono [of "price * dsub 1 m" price] assms(4)
    by (simp_all add: dmul_def fits_def)
  then show ?thesis by (simp add: slipped_def m_def [symmetric] Let_def)
qed

end
