(* ===== verification/TW_Store.thy ===== *)
theory TW_Store
  imports TW_Accounts
begin

text \<open>
  The durable store as the engine sees it: the row encodings of
  \<open>src/src/tickwright/adapters/store/_records.py\<close> and the operations of \<open>_sql.py\<close>
  behind the \<open>Store\<close> protocol. A table is a dictionary from its key to its row. A write is
  one transaction: it either applies as a whole or raises \<open>InvariantViolation\<close> and leaves the
  store as it was; which of the two happens is the argument \<open>ok\<close> of the write. Text columns
  carry exact decimals, so an encoded figure is the figure.
\<close>

section \<open>Rows\<close>

record account_row =
  ar_account_id :: string
  ar_genesis :: decimal
  ar_genesis_ts_ns :: int
  ar_cash :: decimal
  ar_ts_ns :: int

record position_row =
  rw_strategy_id :: string
  rw_symbol :: string
  rw_signed_size :: decimal
  rw_entry_price :: "decimal option"
  rw_realized_pnl :: decimal
  rw_fees :: decimal
  rw_funding :: decimal
  rw_isolated_collateral :: "decimal option"
  rw_ts_ns :: int

definition account_values :: "account \<Rightarrow> int \<Rightarrow> account_row" where
  "account_values a ts = \<lparr>ar_account_id = ac_account_id a, ar_genesis = ac_genesis a,
     ar_genesis_ts_ns = ac_genesis_ts_ns a, ar_cash = ac_cash a, ar_ts_ns = ts\<rparr>"

definition restore_account_row :: "account_row \<Rightarrow> account" where
  "restore_account_row r = restore_account (ar_account_id r) (ar_genesis r) (ar_genesis_ts_ns r) (ar_cash r)"

definition owner_name :: "string option \<Rightarrow> string" where
  "owner_name st = (case st of None \<Rightarrow> UNATTRIBUTED | Some s \<Rightarrow> s)"

definition owner_of :: "string \<Rightarrow> string option" where
  "owner_of s = (if s = UNATTRIBUTED then None else Some s)"

definition position_values :: "position \<Rightarrow> int \<Rightarrow> position_row" where
  "position_values p ts = \<lparr>rw_strategy_id = owner_name (p_strategy_id p), rw_symbol = p_symbol p,
     rw_signed_size = p_signed_size p,
     rw_entry_price = (if is_flat p then None else Some (p_entry_price p)),
     rw_realized_pnl = p_realized_pnl p, rw_fees = p_fees p, rw_funding = p_funding p,
     rw_isolated_collateral = p_isolated_collateral p, rw_ts_ns = ts\<rparr>"

definition restore_position :: "position_row \<Rightarrow> position" where
  "restore_position r = \<lparr>p_strategy_id = owner_of (rw_strategy_id r), p_symbol = rw_symbol r,
     p_signed_size = rw_signed_size r,
     p_entry_price = (case rw_entry_price r of None \<Rightarrow> 0 | Some x \<Rightarrow> x),
     p_realized_pnl = rw_realized_pnl r, p_fees = rw_fees r, p_funding = rw_funding r,
     p_isolated_collateral = rw_isolated_collateral r, p_applied = {}\<rparr>"

text \<open>The upsert of the account row updates the columns \<open>cash\<close> and \<open>ts_ns\<close> only.\<close>

definition upsert_account :: "account_row option \<Rightarrow> account_row \<Rightarrow> account_row" where
  "upsert_account stored new = (case stored of None \<Rightarrow> new
     | Some r \<Rightarrow> r\<lparr>ar_cash := ar_cash new, ar_ts_ns := ar_ts_ns new\<rparr>)"

section \<open>The store\<close>

type_synonym transition = "order_state \<times> int"

record store =
  st_orders :: "(string, order \<times> transition list) dict"
  st_account :: "account_row option"
  st_positions :: "(string \<times> string, position_row) dict"
  st_marks :: "(string, int \<times> int) dict"
  st_kill_switch :: "kill_switch_state option"
  st_seqs :: "(string, int) dict"
  st_snapshots :: "(string, string \<times> int) dict"

definition empty_store :: "store" where
  "empty_store = \<lparr>st_orders = [], st_account = None, st_positions = [], st_marks = [],
     st_kill_switch = None, st_seqs = [], st_snapshots = []\<rparr>"

definition transaction :: "bool \<Rightarrow> store \<Rightarrow> store res" where
  "transaction ok s = (if ok then Inr s else Inl (InvariantViolation StoreWriteFailed))"

definition next_history :: "transition list option \<Rightarrow> order_state \<Rightarrow> int \<Rightarrow> transition list" where
  "next_history existing s ts = (case existing of None \<Rightarrow> [] | Some h \<Rightarrow> h) @ [(s, ts)]"

definition write_order :: "store \<Rightarrow> order \<Rightarrow> int \<Rightarrow> store" where
  "write_order s od ts =
     s\<lparr>st_orders := AList.update (o_cloid od)
        (od, next_history (map_option snd (map_of (st_orders s) (o_cloid od))) (o_state od) ts) (st_orders s)\<rparr>"

definition checkpoint_order :: "bool \<Rightarrow> store \<Rightarrow> order \<Rightarrow> int \<Rightarrow> store res" where
  "checkpoint_order ok s od ts = transaction ok (write_order s od ts)"

definition get_order :: "store \<Rightarrow> string \<Rightarrow> order option" where
  "get_order s cloid = map_option fst (map_of (st_orders s) cloid)"

definition all_orders :: "store \<Rightarrow> order list" where
  "all_orders s = sort_by (\<lambda>a b. str_le (o_cloid a) (o_cloid b)) (map (fst \<circ> snd) (st_orders s))"

definition save_strategy_snapshot :: "bool \<Rightarrow> store \<Rightarrow> string \<Rightarrow> string \<Rightarrow> int \<Rightarrow> store res" where
  "save_strategy_snapshot ok s ident dat ts =
     transaction ok (s\<lparr>st_snapshots := AList.update ident (dat, ts) (st_snapshots s)\<rparr>)"

definition load_strategy_snapshot :: "store \<Rightarrow> string \<Rightarrow> string option" where
  "load_strategy_snapshot s ident = map_option fst (map_of (st_snapshots s) ident)"

definition save_kill_switch :: "bool \<Rightarrow> store \<Rightarrow> kill_switch_state \<Rightarrow> store res" where
  "save_kill_switch ok s k = transaction ok (s\<lparr>st_kill_switch := Some k\<rparr>)"

definition load_kill_switch :: "store \<Rightarrow> kill_switch_state option" where
  "load_kill_switch s = st_kill_switch s"

text \<open>\<open>ON CONFLICT ... WHERE EXCLUDED.seq > seq_records.seq\<close>: the record never goes down.\<close>

definition store_raise_seq :: "bool \<Rightarrow> store \<Rightarrow> string \<Rightarrow> int \<Rightarrow> store res" where
  "store_raise_seq ok s ident n = transaction ok
     (case map_of (st_seqs s) ident of
        None \<Rightarrow> s\<lparr>st_seqs := AList.update ident n (st_seqs s)\<rparr>
      | Some m \<Rightarrow> if m < n then s\<lparr>st_seqs := AList.update ident n (st_seqs s)\<rparr> else s)"

definition seq_records :: "store \<Rightarrow> (string, int) dict" where
  "seq_records s = st_seqs s"

definition position_key :: "position \<Rightarrow> string \<times> string" where
  "position_key p = (owner_name (p_strategy_id p), p_symbol p)"

definition write_ledger ::
  "store \<Rightarrow> account \<Rightarrow> position list \<Rightarrow> order option \<Rightarrow> (string \<times> int) option \<Rightarrow> int \<Rightarrow> store" where
  "write_ledger s a ps od mark ts =
     (let s1 = (case od of None \<Rightarrow> s | Some x \<Rightarrow> write_order s x ts)
      in s1\<lparr>st_account := Some (upsert_account (st_account s1) (account_values a ts)),
            st_positions := foldl (\<lambda>d p. AList.update (position_key p) (position_values p ts) d)
              (st_positions s1) ps,
            st_marks := (case mark of None \<Rightarrow> st_marks s1
              | Some (sy, b) \<Rightarrow> AList.update sy (b, ts) (st_marks s1))\<rparr>)"

definition checkpoint_ledger ::
  "bool \<Rightarrow> store \<Rightarrow> account \<Rightarrow> position list \<Rightarrow> order option \<Rightarrow> (string \<times> int) option \<Rightarrow> int \<Rightarrow> store res" where
  "checkpoint_ledger ok s a ps od mark ts = transaction ok (write_ledger s a ps od mark ts)"

definition row_le :: "position_row \<Rightarrow> position_row \<Rightarrow> bool" where
  "row_le a b \<longleftrightarrow> str_le (rw_strategy_id a) (rw_strategy_id b) \<and>
     (rw_strategy_id a = rw_strategy_id b \<longrightarrow> str_le (rw_symbol a) (rw_symbol b))"

definition all_positions :: "store \<Rightarrow> position list" where
  "all_positions s = map restore_position (sort_by row_le (map snd (st_positions s)))"

definition has_orders :: "store \<Rightarrow> bool" where
  "has_orders s \<longleftrightarrow> st_orders s \<noteq> []"

definition funding_mark :: "store \<Rightarrow> string \<Rightarrow> int option" where
  "funding_mark s sy = map_option fst (map_of (st_marks s) sy)"

definition load_account :: "store \<Rightarrow> account option" where
  "load_account s = map_option restore_account_row (st_account s)"

definition history :: "store \<Rightarrow> string \<Rightarrow> transition list" where
  "history s cloid = (case map_of (st_orders s) cloid of None \<Rightarrow> [] | Some (od, h) \<Rightarrow> h)"

section \<open>What a ledger store promises\<close>

text \<open>
  The contract the accounting engine relies on: an account that is open keeps its identity
  and its opening declaration whatever is written, and the write that carries a funding mark
  is the only one that moves it.
\<close>

locale ledger_store =
  fixes record_ledger :: "'s \<Rightarrow> account \<Rightarrow> position list \<Rightarrow> order option \<Rightarrow> (string \<times> int) option \<Rightarrow> int \<Rightarrow> 's"
    and account_in :: "'s \<Rightarrow> account option"
    and mark_in :: "'s \<Rightarrow> string \<Rightarrow> int option"
  assumes account_record: "account_in (record_ledger s a ps od mk ts) =
      Some (case account_in s of None \<Rightarrow> a | Some b \<Rightarrow> b\<lparr>ac_cash := ac_cash a\<rparr>)"
    and mark_record: "mark_in (record_ledger s a ps od mk ts) sy =
      (case mk of None \<Rightarrow> mark_in s sy | Some (x, b) \<Rightarrow> if x = sy then Some b else mark_in s sy)"
begin

type_synonym entry = "account \<times> position list \<times> order option \<times> (string \<times> int) option \<times> int"

definition record_all :: "'s \<Rightarrow> entry list \<Rightarrow> 's" where
  "record_all s es = foldl (\<lambda>s (a, ps, od, mk, ts). record_ledger s a ps od mk ts) s es"

text \<open>Genesis is written once: no run of writes moves it, and the cash line is the last one.\<close>

lemma genesis_kept:
  "account_in s = Some b \<Longrightarrow> \<exists>c. account_in (record_all s es) = Some (b\<lparr>ac_cash := c\<rparr>)"
proof (induction es arbitrary: s b)
  case Nil
  then show ?case by (auto simp: record_all_def intro: exI [of _ "ac_cash b"])
next
  case (Cons e es)
  obtain a ps od mk ts where e: "e = (a, ps, od, mk, ts)" by (cases e) auto
  have "account_in (record_ledger s a ps od mk ts) = Some (b\<lparr>ac_cash := ac_cash a\<rparr>)"
    using Cons.prems by (simp add: account_record)
  from Cons.IH [OF this] show ?case by (simp add: record_all_def e)
qed

text \<open>Marks advance when every write that carries one carries a later boundary.\<close>

definition advances :: "'s \<Rightarrow> (string \<times> int) option \<Rightarrow> bool" where
  "advances s mk \<longleftrightarrow> (case mk of None \<Rightarrow> True
     | Some (x, b) \<Rightarrow> (case mark_in s x of None \<Rightarrow> True | Some m \<Rightarrow> m < b))"

lemma mark_monotone:
  assumes "advances s mk" "mark_in s sy = Some m"
  shows "\<exists>m'. mark_in (record_ledger s a ps od mk ts) sy = Some m' \<and> m \<le> m'"
  using assms by (auto simp: advances_def mark_record split: option.splits)

end

lemma write_order_fields [simp]:
  "st_account (write_order s od ts) = st_account s" "st_positions (write_order s od ts) = st_positions s"
  "st_marks (write_order s od ts) = st_marks s" "st_seqs (write_order s od ts) = st_seqs s"
  by (simp_all add: write_order_def)

lemma write_ledger_fields [simp]:
  "st_account (write_ledger s a ps od mk ts) = Some (upsert_account (st_account s) (account_values a ts))"
  "st_positions (write_ledger s a ps od mk ts) =
    foldl (\<lambda>d p. AList.update (position_key p) (position_values p ts) d) (st_positions s) ps"
  "st_marks (write_ledger s a ps od mk ts) =
    (case mk of None \<Rightarrow> st_marks s | Some (sy, b) \<Rightarrow> AList.update sy (b, ts) (st_marks s))"
  "st_orders (write_ledger s a ps od mk ts) =
    (case od of None \<Rightarrow> st_orders s | Some x \<Rightarrow> st_orders (write_order s x ts))"
  "st_seqs (write_ledger s a ps od mk ts) = st_seqs s"
  by (simp_all add: write_ledger_def Let_def split: option.split)

lemma write_ledger_account:
  "load_account (write_ledger s a ps od mk ts) =
    Some (case load_account s of None \<Rightarrow> a | Some b \<Rightarrow> b\<lparr>ac_cash := ac_cash a\<rparr>)"
  by (cases "st_account s")
    (simp_all add: load_account_def upsert_account_def account_values_def
      restore_account_row_def restore_account_def make_account_def)

lemma write_ledger_mark:
  "funding_mark (write_ledger s a ps od mk ts) sy =
    (case mk of None \<Rightarrow> funding_mark s sy | Some (x, b) \<Rightarrow> if x = sy then Some b else funding_mark s sy)"
  by (auto simp: funding_mark_def split: option.split prod.split)

interpretation sql: ledger_store write_ledger load_account funding_mark
  by unfold_locales (rule write_ledger_account, rule write_ledger_mark)

section \<open>Rows read back\<close>

lemma owner_round: "st \<noteq> Some UNATTRIBUTED \<Longrightarrow> owner_of (owner_name st) = st"
  by (cases st) (auto simp: owner_of_def owner_name_def)

lemma owner_name_inj: "st \<noteq> Some UNATTRIBUTED \<Longrightarrow> st' \<noteq> Some UNATTRIBUTED \<Longrightarrow>
    owner_name st = owner_name st' \<longleftrightarrow> st = st'"
  by (metis owner_round)

lemma position_row_round:
  assumes "position_ok p" "p_strategy_id p \<noteq> Some UNATTRIBUTED"
  shows "restore_position (position_values p ts) = p\<lparr>p_applied := {}\<rparr>"
  using assms owner_round [OF assms(2)]
  by (auto simp: restore_position_def position_values_def is_flat_def position_ok_def)

lemma account_row_round: "restore_account_row (account_values a ts) = a"
  by (simp add: restore_account_row_def account_values_def restore_account_def make_account_def)

definition row_at :: "store \<Rightarrow> string option \<Rightarrow> string \<Rightarrow> position option" where
  "row_at s st sy = map_option restore_position (map_of (st_positions s) (owner_name st, sy))"

lemma fold_update_last:
  "map_of (foldl (\<lambda>d p. AList.update (k p) (v p) d) d ps) x =
    (case List.find (\<lambda>p. k p = x) (rev ps) of None \<Rightarrow> map_of d x | Some p \<Rightarrow> Some (v p))"
  by (induction ps rule: rev_induct) (auto split: option.split)

lemma write_ledger_positions:
  "map_of (st_positions (write_ledger s a ps od mk ts)) k =
    (case List.find (\<lambda>p. position_key p = k) (rev ps) of None \<Rightarrow> map_of (st_positions s) k
     | Some p \<Rightarrow> Some (position_values p ts))"
  by (simp add: fold_update_last)

lemma write_ledger_orders:
  "get_order (write_ledger s a ps od mk ts) cloid =
    (case od of Some x \<Rightarrow> if o_cloid x = cloid then Some x else get_order s cloid | None \<Rightarrow> get_order s cloid)"
  by (cases od) (auto simp: write_order_def get_order_def)

text \<open>Keys of the position table are the key columns of its rows.\<close>

definition store_ok :: "store \<Rightarrow> bool" where
  "store_ok s \<longleftrightarrow> dict_ok (st_orders s) \<and> dict_ok (st_positions s) \<and> dict_ok (st_marks s) \<and> dict_ok (st_seqs s)
     \<and> (\<forall>(k, r) \<in> set (st_positions s). k = (rw_strategy_id r, rw_symbol r))
     \<and> (\<forall>(k, od, h) \<in> set (st_orders s). k = o_cloid od)"

lemma fold_update_ok:
  assumes "dict_ok d" "\<forall>(k, r) \<in> set d. k = (rw_strategy_id r, rw_symbol r)"
  shows "dict_ok (foldl (\<lambda>d p. AList.update (position_key p) (position_values p ts) d) d ps) \<and>
    (\<forall>(k, r) \<in> set (foldl (\<lambda>d p. AList.update (position_key p) (position_values p ts) d) d ps).
      k = (rw_strategy_id r, rw_symbol r))"
  using assms
proof (induction ps rule: rev_induct)
  case (snoc p ps)
  then show ?case
    by (auto simp: set_update_dict position_key_def position_values_def)
qed simp

lemma write_order_ok: "store_ok s \<Longrightarrow> store_ok (write_order s od ts)"
  by (auto simp: store_ok_def write_order_def set_update_dict)

lemma write_ledger_ok: "store_ok s \<Longrightarrow> store_ok (write_ledger s a ps od mk ts)"
proof -
  assume ok: "store_ok s"
  then have "dict_ok (st_orders (write_ledger s a ps od mk ts)) \<and>
      (\<forall>(k, od, h) \<in> set (st_orders (write_ledger s a ps od mk ts)). k = o_cloid od)"
    using write_order_ok by (cases od) (auto simp: store_ok_def)
  with ok fold_update_ok [of "st_positions s" ts ps] show ?thesis
    by (simp add: store_ok_def split: option.split)
qed

end
