(* ===== verification/TW_Cache.thy ===== *)
theory TW_Cache
  imports TW_Store TW_Ids
begin

text \<open>
  The order read-model: \<open>src/src/tickwright/engine/cache.py\<close>. The cache's operations take
  the store they write through and return both; the write's outcome is the argument \<open>ok\<close>.
  The lemmas show that the cache answers exactly what the store would, and that the sequence
  high water covers every sequence number ever recorded or used.
\<close>

section \<open>The cache\<close>

record cache =
  ch_orders :: "(string, order) dict"
  ch_last_event_ns :: "(string, int) dict"
  ch_seq_records :: "(string, int) dict"

definition empty_cache :: "cache" where
  "empty_cache = \<lparr>ch_orders = [], ch_last_event_ns = [], ch_seq_records = []\<rparr>"

definition cache_raise_seq :: "bool \<Rightarrow> store \<Rightarrow> cache \<Rightarrow> string \<Rightarrow> int \<Rightarrow> (store \<times> cache) res" where
  "cache_raise_seq ok s c ident n =
     bind_res (store_raise_seq ok s ident n) (\<lambda>s'.
       Inr (s', c\<lparr>ch_seq_records := AList.update ident (max (dget (ch_seq_records c) ident 0) n)
                    (ch_seq_records c)\<rparr>))"

definition project_order :: "cache \<Rightarrow> order \<Rightarrow> int \<Rightarrow> cache" where
  "project_order c od ts = c\<lparr>ch_orders := AList.update (o_cloid od) od (ch_orders c),
     ch_last_event_ns := AList.update (o_cloid od) ts (ch_last_event_ns c)\<rparr>"

definition cache_checkpoint :: "bool \<Rightarrow> store \<Rightarrow> cache \<Rightarrow> order \<Rightarrow> int \<Rightarrow> (store \<times> cache) res" where
  "cache_checkpoint ok s c od ts =
     bind_res (checkpoint_order ok s od ts) (\<lambda>s'. Inr (s', project_order c od ts))"

definition rebuild_cache :: "store \<Rightarrow> cache" where
  "rebuild_cache s = \<lparr>ch_orders = dict_of (map (\<lambda>od. (o_cloid od, od)) (all_orders s)),
     ch_last_event_ns = [], ch_seq_records = seq_records s\<rparr>"

definition cached_order :: "cache \<Rightarrow> string \<Rightarrow> order option" where
  "cached_order c cloid = map_of (ch_orders c) cloid"

definition cached_orders :: "cache \<Rightarrow> order list" where
  "cached_orders c = map snd (ch_orders c)"

definition last_event_ts :: "cache \<Rightarrow> string \<Rightarrow> int option" where
  "last_event_ts c cloid = map_of (ch_last_event_ns c) cloid"

definition open_orders :: "cache \<Rightarrow> string option \<Rightarrow> string option \<Rightarrow> order list" where
  "open_orders c strategy_id symbol =
     filter (\<lambda>od. \<not> is_terminal od
        \<and> (case strategy_id of None \<Rightarrow> True | Some x \<Rightarrow> o_strategy_id od = x)
        \<and> (case symbol of None \<Rightarrow> True | Some x \<Rightarrow> o_symbol od = x)) (cached_orders c)"

text \<open>The seqs one order names: its own and that of the cancel it carries.\<close>

definition order_seqs :: "order \<Rightarrow> int list res" where
  "order_seqs od = bind_res (parsed_seq (o_signal_id od)) (\<lambda>n.
     case o_cancel_signal_id od of
       None \<Rightarrow> Inr [n]
     | Some x \<Rightarrow> bind_res (parsed_seq x) (\<lambda>m. Inr [n, m]))"

fun raise_all :: "(string, int) dict \<Rightarrow> order list \<Rightarrow> (string, int) dict res" where
  "raise_all hw [] = Inr hw"
| "raise_all hw (od # ods) = bind_res (order_seqs od) (\<lambda>ns.
     raise_all (AList.update (o_strategy_id od) (fold max ns (dget hw (o_strategy_id od) 0)) hw) ods)"

definition seq_high_water :: "cache \<Rightarrow> (string, int) dict res" where
  "seq_high_water c = raise_all (ch_seq_records c) (cached_orders c)"

section \<open>The cache is the store's orders\<close>

definition cache_agrees :: "store \<Rightarrow> cache \<Rightarrow> bool" where
  "cache_agrees s c \<longleftrightarrow> (\<forall>cloid. cached_order c cloid = get_order s cloid)"

lemma project_agrees: "cache_agrees s c \<Longrightarrow> cache_agrees (write_order s od ts) (project_order c od ts')"
  by (auto simp: cache_agrees_def cached_order_def project_order_def get_order_def write_order_def)

lemma cache_checkpoint_agrees:
  "cache_checkpoint ok s c od ts = Inr (s', c') \<Longrightarrow> cache_agrees s c \<Longrightarrow> cache_agrees s' c'"
  using project_agrees [of s c od ts ts]
  by (auto simp: cache_checkpoint_def checkpoint_order_def transaction_def split: if_splits)

lemma rebuild_agrees:
  assumes "store_ok s"
  shows "cache_agrees s (rebuild_cache s)"
proof -
  have keys: "map (\<lambda>x. o_cloid (fst (snd x))) (st_orders s) = map fst (st_orders s)"
    using assms by (force simp: store_ok_def)
  have "map o_cloid (map (fst \<circ> snd) (st_orders s)) = map fst (st_orders s)"
    using keys by (simp add: comp_def del: map_eq_conv)
  moreover have "distinct (map fst (st_orders s))" using assms by (simp add: store_ok_def dict_ok_def)
  ultimately have d: "distinct (map o_cloid (map (fst \<circ> snd) (st_orders s)))" by (simp only:)
  have dict: "dict_of (map (\<lambda>od. (o_cloid od, od)) (all_orders s)) = map (\<lambda>od. (o_cloid od, od)) (all_orders s)"
    using d by (intro dict_of_distinct) (simp add: all_orders_def comp_def)
  have ok: "dict_ok (map (\<lambda>od. (o_cloid od, od)) (all_orders s))"
    using d by (simp add: dict_ok_def all_orders_def comp_def)
  have same: "map_of (map (\<lambda>od. (o_cloid od, od)) (all_orders s)) cloid = Some od \<longleftrightarrow> get_order s cloid = Some od"
    for cloid od
  proof -
    have "map_of (map (\<lambda>od. (o_cloid od, od)) (all_orders s)) cloid = Some od \<longleftrightarrow>
        (\<exists>k h. (k, od, h) \<in> set (st_orders s) \<and> cloid = o_cloid od)"
      unfolding dict_ok_map_of_iff [OF ok] by (force simp: all_orders_def)
    also have "\<dots> \<longleftrightarrow> (\<exists>h. (cloid, od, h) \<in> set (st_orders s))"
      using assms by (fastforce simp: store_ok_def)
    also have "\<dots> \<longleftrightarrow> get_order s cloid = Some od"
      using assms by (force simp: get_order_def store_ok_def dict_ok_map_of_iff [symmetric])
    finally show ?thesis .
  qed
  have "map_of (map (\<lambda>od. (o_cloid od, od)) (all_orders s)) cloid = get_order s cloid" for cloid
    using same [of cloid] by (metis not_None_eq)
  then show ?thesis
    by (simp add: cache_agrees_def cached_order_def rebuild_cache_def dict)
qed

section \<open>The high water\<close>

lemma fold_max_ge: "b \<le> fold max ns (b::int) \<and> (\<forall>n \<in> set ns. n \<le> fold max ns b)"
  by (induction ns arbitrary: b) (fastforce simp: max_def)+

lemma raise_all_ge:
  "raise_all hw ods = Inr hw' \<Longrightarrow>
    (\<forall>ident n. map_of hw ident = Some n \<longrightarrow> n \<le> dget hw' ident 0)
    \<and> (\<forall>od \<in> set ods. \<exists>ns. order_seqs od = Inr ns \<and> (\<forall>n \<in> set ns. n \<le> dget hw' (o_strategy_id od) 0))"
proof (induction ods arbitrary: hw)
  case Nil
  then show ?case by (auto simp: dget_def)
next
  case (Cons od ods)
  then obtain ns where ns: "order_seqs od = Inr ns"
    and rest: "raise_all (AList.update (o_strategy_id od) (fold max ns (dget hw (o_strategy_id od) 0)) hw) ods = Inr hw'"
    by (auto simp: bind_res_eq_Inr)
  note ih = Cons.IH [OF rest]
  have top: "fold max ns (dget hw (o_strategy_id od) 0) \<le> dget hw' (o_strategy_id od) 0"
    using ih by simp
  have "n \<le> dget hw' ident 0" if "map_of hw ident = Some n" for ident n
  proof (cases "ident = o_strategy_id od")
    case True
    with that fold_max_ge [of n ns] top show ?thesis by (simp add: dget_def)
  next
    case False
    with that ih show ?thesis by simp
  qed
  moreover have "\<forall>n \<in> set ns. n \<le> dget hw' (o_strategy_id od) 0"
    using top fold_max_ge [where ns = ns and b = "dget hw (o_strategy_id od) 0"] by fastforce
  ultimately show ?case using ih ns by auto
qed

section \<open>Properties\<close>

text \<open>
  No sequence number is ever reused after a restart: when the boot computes the high
  water, each strategy's mark is at least its durable record and at least every sequence
  number parsed out of a cached order's signal id or the id of the cancel it carries.
\<close>

theorem high_water_covers:
  assumes "seq_high_water c = Inr hw"
  shows "(\<forall>ident n. map_of (ch_seq_records c) ident = Some n \<longrightarrow> n \<le> dget hw ident 0)
    \<and> (\<forall>od \<in> set (cached_orders c). \<exists>n. parsed_seq (o_signal_id od) = Inr n \<and> n \<le> dget hw (o_strategy_id od) 0
        \<and> (\<forall>x. o_cancel_signal_id od = Some x \<longrightarrow>
            (\<exists>m. parsed_seq x = Inr m \<and> m \<le> dget hw (o_strategy_id od) 0)))"
  using raise_all_ge [OF assms [unfolded seq_high_water_def]]
  by (fastforce simp: order_seqs_def bind_res_eq_Inr split: option.splits)

definition demo_cache :: "cache" where
  "demo_cache = \<lparr>ch_orders = [(''c'', demo_order\<lparr>o_signal_id := ''demo:BTC:7'', o_cancel_signal_id := Some ''demo:BTC:9''\<rparr>)],
     ch_last_event_ns = [], ch_seq_records = [(''demo'', 4), (''t'', 2)]\<rparr>"

theorem high_water_covers_witness:
  "dget [(''demo'', 9), (''t'', 2)] ''demo'' 0 \<ge> (4::int)"
proof -
  have "seq_high_water demo_cache = Inr [(''demo'', 9), (''t'', 2)]" by code_simp
  from high_water_covers [OF this] show ?thesis by (simp add: demo_cache_def)
qed

end
