(* ===== verification/TW_Valuation.thy ===== *)
theory TW_Valuation
  imports TW_Accounts
begin

text \<open>
  The read-time valuation of positions and of the account,
  \<open>src/src/tickwright/domain/valuation.py\<close>, with the frozen views it assembles
  (\<open>PositionView\<close> in \<open>domain/position.py\<close>, \<open>AccountView\<close> in \<open>domain/account.py\<close>). A figure
  that needs an absent mark is \<open>None\<close>, never a partial sum. The lemmas show exactly when that
  happens and what price the liquidation formula solves for.
\<close>

section \<open>Views and rows\<close>

record account_view =
  av_cash :: decimal
  av_equity :: "decimal option"
  av_total_margin_used :: "decimal option"
  av_total_maintenance_margin :: "decimal option"
  av_free_margin :: "decimal option"
  av_effective_leverage :: "decimal option"

record position_view =
  pv_symbol :: string
  pv_size :: decimal
  pv_entry_price :: decimal
  pv_realized_pnl :: decimal
  pv_fees :: decimal
  pv_funding :: decimal
  pv_unrealized_pnl :: "decimal option"
  pv_notional :: "decimal option"
  pv_leverage :: int
  pv_margin_mode :: margin_mode
  pv_margin_used :: "decimal option"
  pv_maintenance_margin :: "decimal option"
  pv_liquidation_price :: "decimal option"
  pv_effective_leverage :: "decimal option"
  pv_mark_ts :: "int option"

record symbol_valuation =
  sv_symbol :: string
  sv_net :: decimal
  sv_cost_basis :: decimal
  sv_unrealized_pnl :: "decimal option"
  sv_notional :: "decimal option"
  sv_isolated_collateral :: "decimal option"
  sv_margin_used :: "decimal option"
  sv_maintenance_margin :: "decimal option"
  sv_leverage :: int
  sv_margin_mode :: margin_mode

text \<open>\<open>LiquidationSource\<close>: ours, or the venue's own figure read through.\<close>

datatype liquidation_source = Computed | Reported "decimal option"

fun resolve_liquidation :: "liquidation_source \<Rightarrow> decimal option \<Rightarrow> decimal option" where
  "resolve_liquidation Computed computed = computed"
| "resolve_liquidation (Reported price) computed = price"

section \<open>One figure at a time\<close>

definition add_known :: "decimal option \<Rightarrow> decimal option \<Rightarrow> decimal option" where
  "add_known running trm = (case running of None \<Rightarrow> None
     | Some r \<Rightarrow> (case trm of None \<Rightarrow> None | Some t \<Rightarrow> Some (dadd r t)))"

definition summed :: "decimal option list \<Rightarrow> decimal option" where
  "summed ts = foldl add_known (Some 0) ts"

definition negated :: "decimal option \<Rightarrow> decimal option" where
  "negated t = map_option dneg t"

definition backing_collateral ::
  "margin_mode \<Rightarrow> decimal option \<Rightarrow> decimal option \<Rightarrow> decimal option \<Rightarrow> decimal option" where
  "backing_collateral mode isolated upnl equity =
     (if mode = Isolated then
        (case (isolated, upnl) of (Some c, Some u) \<Rightarrow> Some (dadd c u) | _ \<Rightarrow> None)
      else equity)"

definition liquidation_maintenance ::
  "margin_mode \<Rightarrow> decimal option \<Rightarrow> decimal option \<Rightarrow> decimal option" where
  "liquidation_maintenance mode own account = (if mode = Isolated then own else account)"

definition liquidation_price ::
  "decimal \<Rightarrow> decimal option \<Rightarrow> decimal option \<Rightarrow> decimal option \<Rightarrow> instrument_spec option \<Rightarrow>
    decimal option res" where
  "liquidation_price account_net mark backing maintenance spec =
     (if account_net = 0 then Inr None
      else case (mark, backing, maintenance, spec) of
        (Some mk, Some b, Some m, Some sp) \<Rightarrow>
          let sd = (if 0 < account_net then 1 else - 1);
              available = dsub b m
          in bind_res (ddiv (dmul sd available) (dabs account_net)) (\<lambda>x.
             bind_res (ddiv x (dsub 1 (dmul (is_margin_maint sp) sd))) (\<lambda>y.
               let price = dsub mk y
               in Inr (if 0 < price then Some price else None)))
      | _ \<Rightarrow> Inr None)"

definition effective_leverage :: "decimal option \<Rightarrow> decimal option \<Rightarrow> decimal option res" where
  "effective_leverage notional backing =
     (case (notional, backing) of
        (Some n, Some b) \<Rightarrow> if b \<le> 0 then Inr None else bind_res (ddiv n b) (\<lambda>x. Inr (Some x))
      | _ \<Rightarrow> Inr None)"

definition maintenance_margin :: "decimal option \<Rightarrow> instrument_spec option \<Rightarrow> decimal option" where
  "maintenance_margin notional spec =
     (if notional = Some 0 then Some 0
      else case (notional, spec) of
        (Some n, Some sp) \<Rightarrow> Some (dmul n (is_margin_maint sp))
      | _ \<Rightarrow> None)"

definition margin_used :: "decimal option \<Rightarrow> leverage_spec \<Rightarrow> decimal option \<Rightarrow> decimal option res" where
  "margin_used notional lev backing =
     (if lv_mode lev = Isolated then Inr backing
      else case notional of None \<Rightarrow> Inr None
        | Some n \<Rightarrow> bind_res (ddiv n (of_int (lv_leverage lev))) (\<lambda>x. Inr (Some x)))"

definition notional_of :: "decimal \<Rightarrow> decimal option \<Rightarrow> decimal option" where
  "notional_of account_net mark =
     (if account_net = 0 then Some 0 else map_option (\<lambda>mk. dmul (dabs account_net) mk) mark)"

definition position_upnl :: "position \<Rightarrow> decimal option \<Rightarrow> decimal option" where
  "position_upnl p mark = (if is_flat p then Some 0 else map_option (unrealized_pnl p) mark)"

section \<open>Rows, the account view and a position view\<close>

text \<open>
  The three running totals of \<open>account_valuation\<close>, then one row per symbol in the order of
  \<open>account_net_size\<close>.
\<close>

definition symbol_totals ::
  "position list \<Rightarrow> (string, decimal) dict \<Rightarrow>
    (string, decimal option) dict \<times> (string, decimal option) dict \<times> (string, decimal) dict" where
  "symbol_totals ps marks =
     foldl (\<lambda>(upnl, buckets, basis) p. let sy = p_symbol p in
        (AList.update sy (add_known (dget upnl sy (Some 0)) (position_upnl p (map_of marks sy))) upnl,
         AList.update sy (add_known (dget buckets sy (Some 0)) (p_isolated_collateral p)) buckets,
         AList.update sy (dadd (dget basis sy 0) (cost_basis p)) basis))
       ([], [], []) ps"

definition valuation_row ::
  "(string, decimal) dict \<Rightarrow> leverage_book \<Rightarrow> (string, instrument_spec) dict \<Rightarrow>
    string \<Rightarrow> decimal \<Rightarrow> decimal option \<Rightarrow> decimal option \<Rightarrow> decimal \<Rightarrow> symbol_valuation res" where
  "valuation_row marks leverage specs sy net upnl bucket basis =
     (let lev = for_symbol leverage sy;
          notional = notional_of net (map_of marks sy)
      in bind_res (margin_used notional lev (backing_collateral (lv_mode lev) bucket upnl None)) (\<lambda>used.
         Inr \<lparr>sv_symbol = sy, sv_net = net, sv_cost_basis = basis, sv_unrealized_pnl = upnl,
           sv_notional = notional, sv_isolated_collateral = bucket, sv_margin_used = used,
           sv_maintenance_margin = maintenance_margin notional (map_of specs sy),
           sv_leverage = lv_leverage lev, sv_margin_mode = lv_mode lev\<rparr>))"

definition account_valuation ::
  "position list \<Rightarrow> (string, decimal) dict \<Rightarrow> leverage_book \<Rightarrow> (string, instrument_spec) dict \<Rightarrow>
    (string, symbol_valuation) dict res" where
  "account_valuation ps marks leverage specs =
     (case symbol_totals ps marks of (upnl, buckets, basis) \<Rightarrow>
        traverse (\<lambda>(sy, net).
          bind_res (valuation_row marks leverage specs sy net (dget upnl sy None) (dget buckets sy None)
              (dget basis sy 0)) (\<lambda>row. Inr (sy, row)))
          (account_net_size ps))"

definition account_view_of :: "account \<Rightarrow> (string, symbol_valuation) dict \<Rightarrow> account_view res" where
  "account_view_of a rows =
     (let rs = map snd rows;
          equity = add_known (Some (ac_cash a)) (summed (map sv_unrealized_pnl rs));
          total_notional = summed (map sv_notional rs);
          used = summed (map sv_margin_used rs);
          maint = summed (map sv_maintenance_margin rs)
      in bind_res (effective_leverage total_notional equity) (\<lambda>lev.
         Inr \<lparr>av_cash = ac_cash a, av_equity = equity, av_total_margin_used = used,
           av_total_maintenance_margin = maint, av_free_margin = add_known equity (negated used),
           av_effective_leverage = lev\<rparr>))"

definition position_view_of ::
  "position \<Rightarrow> symbol_valuation \<Rightarrow> decimal option \<Rightarrow> decimal option \<Rightarrow> decimal option \<Rightarrow> int option \<Rightarrow>
    instrument_spec option \<Rightarrow> liquidation_source \<Rightarrow> position_view res" where
  "position_view_of p row equity account_maint mark mark_ts spec source =
     (if sv_symbol row \<noteq> p_symbol p then Inl (InvariantViolation WrongValuationRow)
      else let backing = backing_collateral (sv_margin_mode row) (sv_isolated_collateral row)
                 (sv_unrealized_pnl row) equity
      in bind_res (liquidation_price (sv_net row) mark backing
             (liquidation_maintenance (sv_margin_mode row) (sv_maintenance_margin row) account_maint) spec) (\<lambda>liq.
         bind_res (effective_leverage (sv_notional row) backing) (\<lambda>lev.
         Inr \<lparr>pv_symbol = p_symbol p, pv_size = p_signed_size p, pv_entry_price = p_entry_price p,
           pv_realized_pnl = p_realized_pnl p, pv_fees = p_fees p, pv_funding = p_funding p,
           pv_unrealized_pnl = position_upnl p mark, pv_notional = sv_notional row,
           pv_leverage = sv_leverage row, pv_margin_mode = sv_margin_mode row,
           pv_margin_used = sv_margin_used row, pv_maintenance_margin = sv_maintenance_margin row,
           pv_liquidation_price = resolve_liquidation source liq, pv_effective_leverage = lev,
           pv_mark_ts = mark_ts\<rparr>)))"

section \<open>Unknown figures\<close>

lemma add_known_None [simp]: "add_known a b = None \<longleftrightarrow> a = None \<or> b = None"
  by (auto simp: add_known_def split: option.splits)

lemma summed_None [simp]: "summed ts = None \<longleftrightarrow> None \<in> set ts"
proof -
  have "foldl add_known a ts = None \<longleftrightarrow> a = None \<or> None \<in> set ts" for a
    by (induction ts arbitrary: a) auto
  then show ?thesis by (simp add: summed_def)
qed

lemma position_upnl_None [simp]: "position_upnl p mark = None \<longleftrightarrow> \<not> is_flat p \<and> mark = None"
  by (simp add: position_upnl_def)

lemma position_upnl_None' [simp]: "None = position_upnl p mark \<longleftrightarrow> \<not> is_flat p \<and> mark = None"
  by (auto simp: position_upnl_def)

lemma symbol_totals_snoc:
  "symbol_totals (ps @ [p]) marks = (case symbol_totals ps marks of (upnl, buckets, basis) \<Rightarrow>
     let sy = p_symbol p in
        (AList.update sy (add_known (dget upnl sy (Some 0)) (position_upnl p (map_of marks sy))) upnl,
         AList.update sy (add_known (dget buckets sy (Some 0)) (p_isolated_collateral p)) buckets,
         AList.update sy (dadd (dget basis sy 0) (cost_basis p)) basis))"
  by (simp add: symbol_totals_def case_prod_beta Let_def)

lemma upnl_total:
  "map_of (fst (symbol_totals ps marks)) sy =
    (if sy \<in> p_symbol ` set ps
     then Some (summed (map (\<lambda>p. position_upnl p (map_of marks sy)) (filter (\<lambda>p. p_symbol p = sy) ps)))
     else None)"
proof (induction ps rule: rev_induct)
  case Nil
  then show ?case by (simp add: symbol_totals_def)
next
  case (snoc p ps)
  obtain u b c where t: "symbol_totals ps marks = (u, b, c)" by (cases "symbol_totals ps marks")
  have empty: "sy \<notin> p_symbol ` set ps \<Longrightarrow> filter (\<lambda>p. p_symbol p = sy) ps = []"
    by (auto simp: filter_empty_conv)
  from snoc show ?case
    by (auto simp: symbol_totals_snoc t Let_def dget_def summed_def empty)
qed

lemma net_symbols: "fst ` set (account_net_size ps) = p_symbol ` set ps"
proof (induction ps rule: rev_induct)
  case (snoc p ps)
  then show ?case using dom_update [of "p_symbol p" _ "account_net_size ps"]
    by (simp add: account_net_size_def dom_map_of_conv_image_fst)
qed (simp add: account_net_size_def)

lemma valuation_rows:
  assumes "account_valuation ps marks leverage specs = Inr rows"
  shows "map fst rows = map fst (account_net_size ps)"
    and "(sy, row) \<in> set rows \<Longrightarrow> sv_unrealized_pnl row = dget (fst (symbol_totals ps marks)) sy None"
proof -
  obtain u b c where t: "symbol_totals ps marks = (u, b, c)" by (cases "symbol_totals ps marks")
  have all: "list_all2 (\<lambda>(sy, net) (sy', row). sy' = sy \<and> sv_unrealized_pnl row = dget u sy None)
      (account_net_size ps) rows"
    using assms unfolding account_valuation_def t prod.case traverse_Inr_list_all2
    by (rule list_all2_mono) (auto simp: bind_res_eq_Inr valuation_row_def Let_def)
  then show "map fst rows = map fst (account_net_size ps)"
    by (induction rule: list_all2_induct) auto
  show "(sy, row) \<in> set rows \<Longrightarrow> sv_unrealized_pnl row = dget (fst (symbol_totals ps marks)) sy None"
    using all unfolding t by (induction rule: list_all2_induct) auto
qed

lemma equity_unknown:
  assumes "account_valuation ps marks leverage specs = Inr rows" "account_view_of a rows = Inr v"
  shows "av_equity v = None \<longleftrightarrow> (\<exists>p \<in> set ps. \<not> is_flat p \<and> map_of marks (p_symbol p) = None)"
proof -
  have "av_equity v = None \<longleftrightarrow> (\<exists>(sy, row) \<in> set rows. sv_unrealized_pnl row = None)"
    using assms(2) by (force simp: account_view_of_def Let_def bind_res_eq_Inr image_iff)
  also have "\<dots> \<longleftrightarrow> (\<exists>sy \<in> p_symbol ` set ps. dget (fst (symbol_totals ps marks)) sy None = None)"
  proof -
    let ?known = "\<lambda>sy. dget (fst (symbol_totals ps marks)) sy None = None"
    have keys: "fst ` set rows = p_symbol ` set ps"
      using valuation_rows(1) [OF assms(1)] net_symbols by (metis list.set_map)
    have "(\<exists>(sy, row) \<in> set rows. sv_unrealized_pnl row = None) \<longleftrightarrow> (\<exists>r \<in> set rows. ?known (fst r))"
      by (rule bex_cong [OF refl]) (auto simp: valuation_rows(2) [OF assms(1)])
    also have "\<dots> \<longleftrightarrow> (\<exists>sy \<in> fst ` set rows. ?known sy)" by simp
    finally show ?thesis unfolding keys .
  qed
  also have "\<dots> \<longleftrightarrow> (\<exists>p \<in> set ps. \<not> is_flat p \<and> map_of marks (p_symbol p) = None)"
  proof -
    have "dget (fst (symbol_totals ps marks)) sy None = None \<longleftrightarrow>
        (\<exists>p \<in> set ps. p_symbol p = sy \<and> \<not> is_flat p \<and> map_of marks sy = None)"
      if "sy \<in> p_symbol ` set ps" for sy
      using that by (auto simp: dget_def upnl_total image_iff)
    then show ?thesis by fastforce
  qed
  finally show ?thesis .
qed

section \<open>What the liquidation price solves\<close>

text \<open>
  The exactness the statement needs: no step of the formula rounds. \<open>solvency\<close> is how far
  the backing collateral is above the maintenance requirement once the price is \<open>x\<close>: both
  move with the price, the backing by the signed size and the requirement by the
  maintenance fraction of the notional.
\<close>

definition exact_liquidation :: "decimal \<Rightarrow> decimal \<Rightarrow> decimal \<Rightarrow> decimal \<Rightarrow> decimal \<Rightarrow> bool" where
  "exact_liquidation net mk b m mm \<longleftrightarrow>
     (let sd = (if 0 < net then 1 else - 1); x = sd * (b - m) / \<bar>net\<bar>; d = 1 - mm * sd
      in fits (b - m) \<and> fits net \<and> fits x \<and> fits (mm * sd) \<and> fits d \<and> d \<noteq> 0 \<and> fits (x / d) \<and> fits (mk - x / d))"

definition solvency :: "rat \<Rightarrow> rat \<Rightarrow> rat \<Rightarrow> rat \<Rightarrow> rat \<Rightarrow> rat \<Rightarrow> rat" where
  "solvency net mk b m mm x = (b + net * (x - mk)) - (m + mm * \<bar>net\<bar> * (x - mk))"

lemma solvency_root:
  fixes net mk b m mm :: rat
  assumes "net \<noteq> 0"
  defines "sd \<equiv> (if 0 < net then 1 else - 1)"
  assumes "1 - mm * sd \<noteq> 0"
  shows "solvency net mk b m mm (mk - sd * (b - m) / \<bar>net\<bar> / (1 - mm * sd)) = 0"
proof -
  define q where "q = sd * (b - m) / \<bar>net\<bar> / (1 - mm * sd)"
  have sd: "sd * sd = 1" "net = sd * \<bar>net\<bar>" by (auto simp: sd_def)
  have "q * (1 - mm * sd) = sd * (b - m) / \<bar>net\<bar>" using assms(3) by (simp add: q_def)
  then have "q * (1 - mm * sd) * \<bar>net\<bar> = sd * (b - m)" using assms(1) by simp
  then have "sd * (q * (1 - mm * sd) * \<bar>net\<bar>) = b - m" using sd(1) by (simp flip: mult.assoc)
  moreover have "sd * (q * (1 - mm * sd) * \<bar>net\<bar>) = q * (sd * \<bar>net\<bar>) - (sd * sd) * mm * \<bar>net\<bar> * q"
    by (simp add: algebra_simps)
  ultimately have "q * net - mm * \<bar>net\<bar> * q = b - m" using sd by simp
  then show ?thesis unfolding solvency_def q_def [symmetric] by (simp add: algebra_simps)
qed

lemma liquidation_price_exact:
  assumes "net \<noteq> 0" "exact_liquidation net mk b m (is_margin_maint spec)"
    and "liquidation_price net (Some mk) (Some b) (Some m) (Some spec) = Inr r"
  defines "sd \<equiv> (if 0 < net then 1 else - 1)"
  defines "x \<equiv> mk - sd * (b - m) / \<bar>net\<bar> / (1 - is_margin_maint spec * sd)"
  shows "r = (if 0 < x then Some x else None)"
proof -
  have e: "fits (b - m)" "fits net" "fits (sd * (b - m) / \<bar>net\<bar>)" "fits (is_margin_maint spec * sd)"
    "fits (1 - is_margin_maint spec * sd)" "1 - is_margin_maint spec * sd \<noteq> 0"
    "fits (sd * (b - m) / \<bar>net\<bar> / (1 - is_margin_maint spec * sd))" "fits x"
    using assms(2) unfolding exact_liquidation_def Let_def x_def sd_def by blast+
  have sub: "dsub b m = b - m" using e(1) by (rule dec_exact)
  have "fits (m - b)" using e(1) fits_minus [of "b - m"] by simp
  then have one: "dmul sd (b - m) = sd * (b - m)" using e(1) by (auto simp: sd_def dmul_def fits_def)
  define d q y where "d = 1 - is_margin_maint spec * sd" and "q = sd * (b - m) / \<bar>net\<bar>" and "y = q / d"
  have two: "ddiv (sd * (b - m)) (dabs net) = Inr q"
    using e(2,3) assms(1) by (simp add: ddiv_def dec_exact fits_def q_def)
  have three: "dsub 1 (dmul (is_margin_maint spec) sd) = d"
    using e(4,5) by (simp add: dec_exact d_def)
  have four: "ddiv q d = Inr y"
    using e(6,7) unfolding d_def [symmetric] q_def [symmetric] y_def [symmetric]
    by (simp add: ddiv_def fits_def flip: y_def)
  have x: "x = mk - y" by (simp add: x_def y_def q_def d_def)
  have five: "dsub mk y = mk - y" using e(8) unfolding x by (rule dec_exact)
  from assms(3,1) show ?thesis
    unfolding liquidation_price_def Let_def sd_def [symmetric] by (auto simp: sub one two three four x) (simp_all add: five)
qed

section \<open>Properties\<close>

text \<open>
  An account figure is never a partial sum: the reported equity is absent exactly when
  some position that is not flat has no mark for its symbol, and a missing mark on a flat
  position's symbol hides nothing.
\<close>

theorem equity_never_partial:
  assumes "account_valuation ps marks leverage specs = Inr rows" "account_view_of a rows = Inr v"
  shows "av_equity v = None \<longleftrightarrow> (\<exists>p \<in> set ps. \<not> is_flat p \<and> map_of marks (p_symbol p) = None)"
  using assms by (rule equity_unknown)

definition flat_btc :: "position" where
  "flat_btc = new_position (Some ''s'') ''BTC''"

theorem equity_never_partial_witness:
  "\<not> (\<exists>p \<in> set [flat_btc]. \<not> is_flat p \<and> map_of [] (p_symbol p) = (None :: decimal option))"
proof -
  have rows: "account_valuation [flat_btc] [] [] [] = Inr [(''BTC'', \<lparr>sv_symbol = ''BTC'', sv_net = 0,
      sv_cost_basis = 0, sv_unrealized_pnl = Some 0, sv_notional = Some 0, sv_isolated_collateral = Some 0,
      sv_margin_used = Some 0, sv_maintenance_margin = Some 0, sv_leverage = 1, sv_margin_mode = Isolated\<rparr>)]"
    by code_simp
  have view: "account_view_of (make_account ''a'' 100 0) [(''BTC'', \<lparr>sv_symbol = ''BTC'', sv_net = 0,
      sv_cost_basis = 0, sv_unrealized_pnl = Some 0, sv_notional = Some 0, sv_isolated_collateral = Some 0,
      sv_margin_used = Some 0, sv_maintenance_margin = Some 0, sv_leverage = 1, sv_margin_mode = Isolated\<rparr>)]
    = Inr \<lparr>av_cash = 100, av_equity = Some 100, av_total_margin_used = Some 0,
        av_total_maintenance_margin = Some 0, av_free_margin = Some 100, av_effective_leverage = Some 0\<rparr>"
    by code_simp
  from equity_never_partial [OF rows view] show ?thesis by simp
qed

text \<open>
  The computed liquidation price is the price at which the backing collateral meets the
  maintenance requirement: when no step of the formula rounds, a reported price is positive
  and the account is exactly solvent there, and no price is reported exactly when that
  price is not positive.
\<close>

theorem liquidation_price_solves:
  assumes "net \<noteq> 0" "exact_liquidation net mk b m (is_margin_maint spec)"
    and "liquidation_price net (Some mk) (Some b) (Some m) (Some spec) = Inr r"
  shows "case r of
      Some x \<Rightarrow> 0 < x \<and> solvency net mk b m (is_margin_maint spec) x = 0
    | None \<Rightarrow> \<exists>x \<le> 0. solvency net mk b m (is_margin_maint spec) x = 0"
proof -
  define x where "x = mk - (if 0 < net then 1 else - 1) * (b - m) / \<bar>net\<bar>
    / (1 - is_margin_maint spec * (if 0 < net then 1 else - 1))"
  have "1 - is_margin_maint spec * (if 0 < net then 1 else - 1) \<noteq> 0"
    using assms(2) unfolding exact_liquidation_def Let_def by blast
  from solvency_root [OF assms(1) this, of mk b m]
  have root: "solvency net mk b m (is_margin_maint spec) x = 0" unfolding x_def .
  have "r = (if 0 < x then Some x else None)"
    using liquidation_price_exact [OF assms] unfolding x_def .
  with root show ?thesis by (cases "0 < x") (auto simp: not_less)
qed

theorem liquidation_price_solves_witness:
  "solvency 2 100 50 (10 / 2) (1 / 4) 70 = 0"
proof -
  have exact: "exact_liquidation 2 100 50 (10 / 2) (is_margin_maint (demo_spec\<lparr>is_margin_maint := 1 / 4\<rparr>))"
    by code_simp
  have run: "liquidation_price 2 (Some 100) (Some 50) (Some (10 / 2)) (Some (demo_spec\<lparr>is_margin_maint := 1 / 4\<rparr>))
      = Inr (Some 70)" by code_simp
  from liquidation_price_solves [OF _ exact run] show ?thesis by simp
qed

end
