(* ===== verification/TW_Portfolio.thy ===== *)
theory TW_Portfolio
  imports TW_Cache TW_Valuation
begin

text \<open>
  The accounting read-model, \<open>src/src/tickwright/engine/portfolio.py\<close>: the account, the
  partitions, the marks and the folds over them. The source keeps position objects by
  reference. A partition that is filed is mutated in place by a fold, so the model updates
  its entry of \<open>pj_positions\<close>; a partition a fold creates is filed only by \<open>project\<close>, so a
  \<open>ledger_change\<close> says with \<open>lc_fresh\<close> whether it still carries its own object. What a
  change's position is at a later moment is \<open>change_position\<close>.
\<close>

section \<open>State and changes\<close>

type_synonym partition_key = "string option \<times> string"

record portfolio =
  pj_spec :: account_spec
  pj_account :: account
  pj_opened :: bool
  pj_positions :: "(partition_key, position) dict"
  pj_fills_applied :: int
  pj_last_fills :: "(string, int) dict"
  pj_marks :: "(string, mark_tick) dict"
  pj_leverage :: leverage_book
  pj_specs :: "(string, instrument_spec) dict"
  pj_venue_liquidation :: "(string, decimal option) dict"

definition make_portfolio ::
  "account_spec \<Rightarrow> int \<Rightarrow> leverage_book \<Rightarrow> (string, instrument_spec) dict \<Rightarrow> portfolio" where
  "make_portfolio spec now leverage specs =
     \<lparr>pj_spec = spec, pj_account = open_account spec now, pj_opened = False, pj_positions = [],
      pj_fills_applied = 0, pj_last_fills = [], pj_marks = [], pj_leverage = leverage,
      pj_specs = specs, pj_venue_liquidation = []\<rparr>"

record ledger_change =
  lc_position :: position
  lc_changes :: "position_change list"
  lc_fresh :: bool

definition key_of :: "position \<Rightarrow> partition_key" where
  "key_of p = (p_strategy_id p, p_symbol p)"

definition change_position :: "portfolio \<Rightarrow> ledger_change \<Rightarrow> position" where
  "change_position pj c = (if lc_fresh c then lc_position c
     else case map_of (pj_positions pj) (key_of (lc_position c)) of Some p \<Rightarrow> p | None \<Rightarrow> lc_position c)"

record heal_change =
  hc_fills :: "ledger_change list"
  hc_applied :: "string set"
  hc_collateral :: "position list"

record funding_change =
  fc_positions :: "position list"
  fc_funding_mark :: "string \<times> int"

abbreviation filed :: "portfolio \<Rightarrow> position list" where
  "filed pj \<equiv> map snd (pj_positions pj)"

section \<open>Small reads and writes\<close>

definition observe_mark :: "portfolio \<Rightarrow> mark_tick \<Rightarrow> portfolio" where
  "observe_mark pj m = pj\<lparr>pj_marks := AList.update (mt_symbol m) m (pj_marks pj)\<rparr>"

definition latest_mark :: "portfolio \<Rightarrow> string \<Rightarrow> mark_tick option" where
  "latest_mark pj sy = map_of (pj_marks pj) sy"

definition observe_venue_liquidation :: "portfolio \<Rightarrow> venue_account_state \<Rightarrow> portfolio" where
  "observe_venue_liquidation pj v =
     pj\<lparr>pj_venue_liquidation := dict_of (map (\<lambda>p. (vp_symbol p, vp_liquidation_price p)) (va_positions v))\<rparr>"

definition account_net :: "portfolio \<Rightarrow> (string, decimal) dict" where
  "account_net pj = account_net_size (filed pj)"

definition partition_sizes :: "portfolio \<Rightarrow> string \<Rightarrow> (string option \<times> decimal) list" where
  "partition_sizes pj sy =
     map (\<lambda>((ow, _), p). (ow, p_signed_size p))
       (filter (\<lambda>((_, held), p). held = sy \<and> \<not> is_flat p) (pj_positions pj))"

section \<open>Dividing one figure over partitions\<close>

text \<open>
  \<open>_share\<close> and \<open>_split\<close> divide alike: every partition but the last takes its weight's part,
  the last takes what is left.
\<close>

definition apportion :: "decimal \<Rightarrow> decimal list \<Rightarrow> decimal \<Rightarrow> decimal list res" where
  "apportion amount ws weight_sum =
     bind_res (traverse (\<lambda>w. ddiv (dmul amount w) weight_sum) (butlast ws)) (\<lambda>shares.
       Inr (shares @ [dsub amount (dsum shares)]))"

definition share :: "decimal \<Rightarrow> position list \<Rightarrow> decimal list res" where
  "share bucket across =
     (let exposure = dsum (map (\<lambda>p. dabs (p_signed_size p)) across)
      in if exposure = 0 then Inr (map (\<lambda>_. 0) across)
         else apportion bucket (map (\<lambda>p. dabs (p_signed_size p)) across) exposure)"

definition split_funding :: "decimal \<Rightarrow> position list \<Rightarrow> position list res" where
  "split_funding amount across =
     (let net = dsum (map p_signed_size across)
      in if across = [] \<or> net = 0 then Inr across
         else bind_res (apportion amount (map p_signed_size across) net) (\<lambda>shares.
           Inr (map2 accrue_funding across shares)))"

section \<open>Folding a fill\<close>

definition lock_isolated_collateral :: "portfolio \<Rightarrow> position \<Rightarrow> position_change list \<Rightarrow> position res" where
  "lock_isolated_collateral pj p changes =
     (let q = (if CLOSED \<in> set changes then p\<lparr>p_isolated_collateral := Some 0\<rparr> else p);
          opened = OPENED \<in> set changes;
          lev = for_symbol (pj_leverage pj) (p_symbol p)
      in if \<not> opened \<and> CHANGED \<notin> set changes then Inr q
         else if lv_mode lev \<noteq> Isolated then Inr q
         else if \<not> declares_genesis (pj_spec pj) then Inr (q\<lparr>p_isolated_collateral := None\<rparr>)
         else if \<not> opened then Inr q
         else bind_res (ddiv (dmul (dabs (p_signed_size q)) (p_entry_price q)) (of_int (lv_leverage lev)))
           (\<lambda>x. Inr (q\<lparr>p_isolated_collateral := Some x\<rparr>)))"

text \<open>The partition a fill books to, and whether it has to be created.\<close>

definition partition_for :: "portfolio \<Rightarrow> bookable \<Rightarrow> position \<times> bool" where
  "partition_for pj f = (case map_of (pj_positions pj) (bk_strategy f, bk_symbol f) of
     Some p \<Rightarrow> (p, False) | None \<Rightarrow> (new_position (bk_strategy f) (bk_symbol f), True))"

definition accrue_fill :: "portfolio \<Rightarrow> position \<Rightarrow> position \<Rightarrow> bookable \<Rightarrow> portfolio" where
  "accrue_fill pj p q f = pj\<lparr>
     pj_account := accrue_fee (accrue_realized (pj_account pj) (dsub (p_realized_pnl q) (p_realized_pnl p)))
       (dsub (p_fees q) (p_fees p)),
     pj_fills_applied := pj_fills_applied pj + 1,
     pj_last_fills := AList.update (bk_symbol f) (pj_fills_applied pj + 1) (pj_last_fills pj)\<rparr>"

definition refile :: "portfolio \<Rightarrow> position \<Rightarrow> portfolio" where
  "refile pj p = pj\<lparr>pj_positions := AList.update (key_of p) p (pj_positions pj)\<rparr>"

definition fold_fill :: "portfolio \<Rightarrow> bookable \<Rightarrow> side \<Rightarrow> (portfolio \<times> ledger_change) res" where
  "fold_fill pj f sd =
     (case partition_for pj f of (p, fresh) \<Rightarrow>
        bind_res (apply_fill p f sd) (\<lambda>(changes, q).
          let pj1 = (if changes = [] then pj else accrue_fill pj p q f)
          in bind_res (lock_isolated_collateral pj1 q changes) (\<lambda>q'.
            Inr (if fresh then pj1 else refile pj1 q',
                 \<lparr>lc_position = q', lc_changes = changes, lc_fresh = fresh\<rparr>))))"

definition project :: "portfolio \<Rightarrow> ledger_change \<Rightarrow> portfolio" where
  "project pj c = (if lc_fresh c then refile pj (lc_position c) else pj)"

section \<open>The venue's collateral\<close>

definition by_symbol :: "position list \<Rightarrow> (string, position list) dict" where
  "by_symbol ps = foldl (\<lambda>d p. AList.update (p_symbol p) (dget d (p_symbol p) [] @ [p]) d) [] ps"

definition venue_shares :: "portfolio \<Rightarrow> venue_account_state \<Rightarrow> (position \<times> decimal) list res" where
  "venue_shares pj v =
     (let venue = dict_of (map (\<lambda>p. (vp_symbol p, vp_isolated_collateral p)) (va_positions v))
      in bind_res (traverse (\<lambda>(sy, across).
             bind_res (share (case dget venue sy None of None \<Rightarrow> 0 | Some b \<Rightarrow> b) across) (\<lambda>shares.
               Inr (zip across shares))) (by_symbol (filed pj)))
           (\<lambda>groups. Inr (concat groups)))"

definition carried :: "portfolio \<Rightarrow> venue_account_state \<Rightarrow> string \<Rightarrow> bool" where
  "carried pj v sy \<longleftrightarrow>
     (let venue = dict_of (map (\<lambda>p. (vp_symbol p, vp_signed_size p)) (va_positions v))
      in case map_of (account_net pj) sy of None \<Rightarrow> False | Some net \<Rightarrow> dget venue sy 0 = net)"

definition ingest_collateral :: "portfolio \<Rightarrow> venue_account_state \<Rightarrow> (portfolio \<times> position list) res" where
  "ingest_collateral pj v =
     bind_res (venue_shares pj v) (\<lambda>shares.
       let moved = map (\<lambda>(p, x). p\<lparr>p_isolated_collateral := Some x\<rparr>)
             (filter (\<lambda>(p, x). \<not> (p_isolated_collateral p = None \<and> \<not> carried pj v (p_symbol p))
                \<and> p_isolated_collateral p \<noteq> Some x) shares)
       in Inr (foldl refile pj moved, moved))"

section \<open>Healing\<close>

text \<open>Several fills folded in order; none of the changes is projected in between.\<close>

fun fold_fills :: "portfolio \<Rightarrow> (bookable \<times> side) list \<Rightarrow> (portfolio \<times> ledger_change list) res" where
  "fold_fills pj [] = Inr (pj, [])"
| "fold_fills pj ((f, sd) # fs) =
     bind_res (fold_fill pj f sd) (\<lambda>(pj1, c).
     bind_res (fold_fills pj1 fs) (\<lambda>(pj2, cs). Inr (pj2, c # cs)))"

definition healed_basis :: "portfolio \<Rightarrow> ledger_change list \<Rightarrow> decimal" where
  "healed_basis pj folded =
     dsum (map (cost_basis \<circ> snd)
       (foldl (\<lambda>d c. let p = change_position pj c in AList.update (key_of p) p d) (pj_positions pj) folded))"

definition apply_heal ::
  "portfolio \<Rightarrow> recon_fill list \<Rightarrow> cash_correction option \<Rightarrow> venue_account_state option \<Rightarrow>
    (portfolio \<times> heal_change option) res" where
  "apply_heal pj fills cash snapshot =
     bind_res (fold_fills pj (map (\<lambda>f. (ReconciliationFill f, rc_side f)) fills)) (\<lambda>(pj1, folded).
     bind_res (case snapshot of None \<Rightarrow> Inr (pj1, []) | Some v \<Rightarrow> ingest_collateral pj1 v) (\<lambda>(pj2, ingested).
       let applied = set (map (\<lambda>(f, c). rc_event_id f)
             (filter (\<lambda>(f, c). lc_changes c \<noteq> []) (zip fills folded)))
       in if applied = {} \<and> cash = None \<and> ingested = [] then Inr (pj2, None)
          else
            let pj3 = (case cash of None \<Rightarrow> pj2
                  | Some cc \<Rightarrow> pj2\<lparr>pj_account := correct_cash (pj_account pj2)
                      (dadd (cc_net_cash cc) (healed_basis pj2 folded))\<rparr>)
            in Inr (pj3, Some \<lparr>hc_fills = folded, hc_applied = applied, hc_collateral = ingested\<rparr>)))"

definition project_heal :: "portfolio \<Rightarrow> heal_change \<Rightarrow> portfolio" where
  "project_heal pj h = foldl project pj (hc_fills h)"

section \<open>Funding\<close>

text \<open>
  The gate: a boundary at or before genesis is already inside it, and one at or before the
  symbol's durable mark was applied.
\<close>

definition funding_gate :: "store \<Rightarrow> portfolio \<Rightarrow> funding_accrual \<Rightarrow> bool" where
  "funding_gate s pj a \<longleftrightarrow> ac_genesis_ts_ns (pj_account pj) < fa_boundary_ts_ns a
     \<and> (case funding_mark s (fa_symbol a) of None \<Rightarrow> True | Some m \<Rightarrow> m < fa_boundary_ts_ns a)"

definition exposed :: "portfolio \<Rightarrow> string \<Rightarrow> position list" where
  "exposed pj sy = map snd (filter (\<lambda>((_, held), p). held = sy \<and> \<not> is_flat p) (pj_positions pj))"

definition apply_funding ::
  "store \<Rightarrow> portfolio \<Rightarrow> funding_accrual \<Rightarrow> (portfolio \<times> funding_change option) res" where
  "apply_funding s pj a =
     (if \<not> funding_gate s pj a then Inr (pj, None)
      else bind_res (split_funding (fa_amount a) (exposed pj (fa_symbol a))) (\<lambda>ps.
        let pj1 = foldl refile pj ps
        in Inr (pj1\<lparr>pj_account := accrue_account_funding (pj_account pj1) (fa_amount a)\<rparr>,
                Some \<lparr>fc_positions = ps, fc_funding_mark = (fa_symbol a, fa_boundary_ts_ns a)\<rparr>)))"

section \<open>Recovery and the opening of the ledger\<close>

definition refuse_disagreement :: "store \<Rightarrow> portfolio \<Rightarrow> account option \<Rightarrow> unit res" where
  "refuse_disagreement s pj stored =
     (case stored of
        None \<Rightarrow> if declares_genesis (pj_spec pj) \<and> has_orders s then Inl StoreAccountMismatch else Inr ()
      | Some a \<Rightarrow>
          if ac_account_id a \<noteq> as_account_id (pj_spec pj)
             \<or> declares_genesis (pj_spec pj) \<and> Some (ac_genesis a) \<noteq> as_genesis (pj_spec pj)
          then Inl StoreAccountMismatch else Inr ())"

definition seed_genesis :: "bool \<Rightarrow> int \<Rightarrow> store \<Rightarrow> portfolio \<Rightarrow> (store \<times> portfolio) res" where
  "seed_genesis ok now s pj =
     (if \<not> declares_genesis (pj_spec pj) then Inr (s, pj)
      else bind_res (checkpoint_ledger ok s (pj_account pj) [] None None now) (\<lambda>s'.
        Inr (s', pj\<lparr>pj_opened := True\<rparr>)))"

definition recover :: "bool \<Rightarrow> int \<Rightarrow> store \<Rightarrow> portfolio \<Rightarrow> (store \<times> portfolio) res" where
  "recover ok now s pj =
     bind_res (refuse_disagreement s pj (load_account s)) (\<lambda>_.
       case load_account s of
         None \<Rightarrow> seed_genesis ok now s pj
       | Some a \<Rightarrow> Inr (s, pj\<lparr>pj_account := a, pj_opened := True,
           pj_positions := dict_of (map (\<lambda>p. (key_of p, p)) (all_positions s))\<rparr>))"

definition is_opened :: "store \<Rightarrow> portfolio \<Rightarrow> bool" where
  "is_opened s pj \<longleftrightarrow> pj_opened pj \<or> load_account s \<noteq> None"

definition materialise ::
  "bool \<Rightarrow> int \<Rightarrow> store \<Rightarrow> portfolio \<Rightarrow> venue_account_state \<Rightarrow> (store \<times> portfolio) res" where
  "materialise ok now s pj v =
     (if is_opened s pj then Inl (InvariantViolation LedgerAlreadyOpen)
      else let a = ingest_account (pj_spec pj) v
      in bind_res (checkpoint_ledger ok s a [] None None now) (\<lambda>s'.
        Inr (s', pj\<lparr>pj_account := a, pj_opened := True\<rparr>)))"

section \<open>Views\<close>

definition mark_prices :: "portfolio \<Rightarrow> (string, decimal) dict" where
  "mark_prices pj = map (\<lambda>(sy, m). (sy, mt_price m)) (pj_marks pj)"

definition rows_of :: "portfolio \<Rightarrow> position list \<Rightarrow> (string, symbol_valuation) dict res" where
  "rows_of pj ps = account_valuation ps (mark_prices pj) (pj_leverage pj) (pj_specs pj)"

definition liquidation_source_of :: "portfolio \<Rightarrow> string \<Rightarrow> liquidation_source" where
  "liquidation_source_of pj sy = (if declares_genesis (pj_spec pj) then Computed
     else Reported (dget (pj_venue_liquidation pj) sy None))"

definition view_of ::
  "portfolio \<Rightarrow> position \<Rightarrow> (string, symbol_valuation) dict \<Rightarrow> account_view \<Rightarrow> position_view res" where
  "view_of pj p rows av =
     (let mark = latest_mark pj (p_symbol p)
      in case map_of rows (p_symbol p) of None \<Rightarrow> Inl KeyError
         | Some row \<Rightarrow> position_view_of p row (av_equity av) (av_total_maintenance_margin av)
             (map_option mt_price mark) (map_option mt_ts_event mark)
             (map_of (pj_specs pj) (p_symbol p)) (liquidation_source_of pj (p_symbol p)))"

definition position_of :: "portfolio \<Rightarrow> string \<Rightarrow> string option \<Rightarrow> position_view option res" where
  "position_of pj sy strategy_id =
     (case map_of (pj_positions pj) (strategy_id, sy) of None \<Rightarrow> Inr None
      | Some p \<Rightarrow> bind_res (rows_of pj (filed pj)) (\<lambda>rows.
          bind_res (account_view_of (pj_account pj) rows) (\<lambda>av.
          bind_res (view_of pj p rows av) (\<lambda>v. Inr (Some v)))))"

definition open_positions :: "portfolio \<Rightarrow> string option \<Rightarrow> position_view list res" where
  "open_positions pj strategy_id =
     bind_res (rows_of pj (filed pj)) (\<lambda>rows.
     bind_res (account_view_of (pj_account pj) rows) (\<lambda>av.
       traverse (\<lambda>p. view_of pj p rows av)
         (map snd (filter (\<lambda>((ow, _), p). ow = strategy_id \<and> \<not> is_flat p) (pj_positions pj)))))"

definition account_of :: "portfolio \<Rightarrow> account_view res" where
  "account_of pj = bind_res (rows_of pj (filed pj)) (account_view_of (pj_account pj))"

record ledger_reading =
  lr_account :: account_view
  lr_rows :: "(string, symbol_valuation) dict"
  lr_mark_observed :: "(string, int) dict"
  lr_last_fills :: "(string, int) dict"

definition ledger_reading_of :: "portfolio \<Rightarrow> venue_account_state \<Rightarrow> ledger_reading res" where
  "ledger_reading_of pj v =
     bind_res (venue_shares pj v) (\<lambda>shares.
     bind_res (rows_of pj (map (\<lambda>(p, x). p\<lparr>p_isolated_collateral := Some x\<rparr>) shares)) (\<lambda>rows.
     bind_res (account_view_of (pj_account pj) rows) (\<lambda>av.
       Inr \<lparr>lr_account = av, lr_rows = rows,
         lr_mark_observed = map (\<lambda>(sy, m). (sy, mt_ts_event m)) (pj_marks pj),
         lr_last_fills = pj_last_fills pj\<rparr>)))"

definition reading_holds :: "ledger_reading \<Rightarrow> string \<Rightarrow> bool" where
  "reading_holds r sy \<longleftrightarrow> (case map_of (lr_rows r) sy of None \<Rightarrow> False | Some row \<Rightarrow> sv_net row \<noteq> 0)"

definition filled_since :: "ledger_reading \<Rightarrow> int \<Rightarrow> string list" where
  "filled_since r before = map fst (filter (\<lambda>(sy, n). before < n) (lr_last_fills r))"

section \<open>A well-formed portfolio\<close>

text \<open>
  Partitions are filed under their own owner and symbol, the reserved name is nobody's id,
  and a flat partition has no entry price.
\<close>

definition filed_ok :: "partition_key \<times> position \<Rightarrow> bool" where
  "filed_ok e \<longleftrightarrow> fst e = key_of (snd e) \<and> p_strategy_id (snd e) \<noteq> Some UNATTRIBUTED \<and> position_ok (snd e)"

definition pj_ok :: "portfolio \<Rightarrow> bool" where
  "pj_ok pj \<longleftrightarrow> dict_ok (pj_positions pj) \<and> (\<forall>e \<in> set (pj_positions pj). filed_ok e)"

lemma pj_ok_lookup: "pj_ok pj \<Longrightarrow> map_of (pj_positions pj) k = Some p \<Longrightarrow>
    k = key_of p \<and> p_strategy_id p \<noteq> Some UNATTRIBUTED \<and> position_ok p"
  by (auto simp: pj_ok_def filed_ok_def dest!: map_of_SomeD)

lemma pj_ok_refile:
  assumes "pj_ok pj" "p_strategy_id p \<noteq> Some UNATTRIBUTED" "position_ok p"
  shows "pj_ok (refile pj p)"
  using assms by (auto simp: pj_ok_def refile_def set_update_dict filed_ok_def)

lemma refile_fields [simp]:
  "pj_account (refile pj p) = pj_account pj" "pj_spec (refile pj p) = pj_spec pj"
  "pj_opened (refile pj p) = pj_opened pj" "pj_leverage (refile pj p) = pj_leverage pj"
  "pj_fills_applied (refile pj p) = pj_fills_applied pj" "pj_marks (refile pj p) = pj_marks pj"
  "map_of (pj_positions (refile pj p)) k = (if key_of p = k then Some p else map_of (pj_positions pj) k)"
  by (simp_all add: refile_def)

lemma accrue_fill_fields [simp]:
  "pj_positions (accrue_fill pj p q f) = pj_positions pj" "pj_spec (accrue_fill pj p q f) = pj_spec pj"
  "pj_opened (accrue_fill pj p q f) = pj_opened pj" "pj_leverage (accrue_fill pj p q f) = pj_leverage pj"
  by (simp_all add: accrue_fill_def)

lemma lock_frame [tw_frame]:
  assumes "lock_isolated_collateral pj p cs = Inr q"
  shows "key_of q = key_of p" "p_signed_size q = p_signed_size p" "p_entry_price q = p_entry_price p"
    "p_realized_pnl q = p_realized_pnl p" "p_fees q = p_fees p" "p_funding q = p_funding p"
    "p_applied q = p_applied p" "p_strategy_id q = p_strategy_id p" "p_symbol q = p_symbol p"
  using assms by (auto simp: lock_isolated_collateral_def Let_def key_of_def bind_res_eq_Inr split: if_splits)

lemma lock_ok: "lock_isolated_collateral pj p cs = Inr q \<Longrightarrow> position_ok p \<Longrightarrow> position_ok q"
  by (simp add: position_ok_def lock_frame)

lemma lock_nothing [simp]: "lock_isolated_collateral pj p [] = Inr p"
  by (simp add: lock_isolated_collateral_def)

text \<open>The one case analysis of \<open>fold_fill\<close>: what was folded, into which partition, and where it went.\<close>

lemma fold_fill_cases:
  assumes "fold_fill pj f sd = Inr (pj', c)"
  obtains p fresh changes q where "partition_for pj f = (p, fresh)" "apply_fill p f sd = Inr (changes, q)"
    "lc_changes c = changes" "lc_fresh c = fresh" "key_of (lc_position c) = key_of p"
    "p_signed_size (lc_position c) = p_signed_size q" "p_realized_pnl (lc_position c) = p_realized_pnl q"
    "p_fees (lc_position c) = p_fees q" "p_funding (lc_position c) = p_funding p"
    "position_ok q \<Longrightarrow> position_ok (lc_position c)"
    "pj' = (let pj1 = (if changes = [] then pj else accrue_fill pj p (lc_position c) f)
            in if fresh then pj1 else refile pj1 (lc_position c))"
proof -
  obtain p fresh where p: "partition_for pj f = (p, fresh)" by (cases "partition_for pj f")
  from assms obtain changes q q' where a: "apply_fill p f sd = Inr (changes, q)"
    and l: "lock_isolated_collateral (if changes = [] then pj else accrue_fill pj p q f) q changes = Inr q'"
    and r: "pj' = (let pj1 = (if changes = [] then pj else accrue_fill pj p q f) in if fresh then pj1 else refile pj1 q')"
      "c = \<lparr>lc_position = q', lc_changes = changes, lc_fresh = fresh\<rparr>"
    by (auto simp: fold_fill_def p bind_res_eq_Inr Let_def)
  have "accrue_fill pj p q f = accrue_fill pj p q' f" by (simp add: accrue_fill_def lock_frame [OF l])
  with r apply_fill_Inr [OF a] lock_frame [OF l] lock_ok [OF l] show ?thesis
    by (intro that [OF p a]) (auto simp: key_of_def)
qed

lemma partition_for_ok:
  assumes "pj_ok pj" "partition_for pj f = (p, fresh)" "bk_strategy f \<noteq> Some UNATTRIBUTED"
  shows "position_ok p" "key_of p = (bk_strategy f, bk_symbol f)"
    "fresh \<longleftrightarrow> map_of (pj_positions pj) (key_of p) = None" "\<not> fresh \<Longrightarrow> map_of (pj_positions pj) (key_of p) = Some p"
  using assms pj_ok_lookup [OF assms(1)]
  by (auto simp: partition_for_def new_position_def position_ok_def key_of_def split: option.splits)

lemma fold_fill_all:
  assumes "fold_fill pj f sd = Inr (pj', c)" "pj_ok pj" "bk_strategy f \<noteq> Some UNATTRIBUTED"
  shows "pj_ok pj' \<and> pj_ok (project pj' c) \<and> pj_spec pj' = pj_spec pj \<and> pj_opened pj' = pj_opened pj
    \<and> ac_genesis_ts_ns (pj_account pj') = ac_genesis_ts_ns (pj_account pj)
    \<and> ac_genesis (pj_account pj') = ac_genesis (pj_account pj)
    \<and> ac_account_id (pj_account pj') = ac_account_id (pj_account pj)
    \<and> position_ok (lc_position c) \<and> key_of (lc_position c) = (bk_strategy f, bk_symbol f)"
  using assms(1)
proof (cases rule: fold_fill_cases)
  case (1 p fresh changes q)
  note P = partition_for_ok [OF assms(2) 1(1) assms(3)]
  have ok: "position_ok (lc_position c)" by (rule 1(10) [OF apply_fill_ok [OF 1(2) P(1)]])
  have key: "key_of (lc_position c) = (bk_strategy f, bk_symbol f)" using 1(5) P(2) by simp
  then have st: "p_strategy_id (lc_position c) \<noteq> Some UNATTRIBUTED" using assms(3) by (simp add: key_of_def)
  have base: "pj_ok (if changes = [] then pj else accrue_fill pj p (lc_position c) f)"
    using assms(2) by (simp add: pj_ok_def)
  then have one: "pj_ok pj'" unfolding 1(11) Let_def using pj_ok_refile [OF base st ok] by simp
  moreover have "pj_ok (project pj' c)" unfolding project_def using pj_ok_refile [OF one st ok] one by simp
  moreover have "pj_spec pj' = pj_spec pj \<and> pj_opened pj' = pj_opened pj
    \<and> ac_genesis_ts_ns (pj_account pj') = ac_genesis_ts_ns (pj_account pj)
    \<and> ac_genesis (pj_account pj') = ac_genesis (pj_account pj)
    \<and> ac_account_id (pj_account pj') = ac_account_id (pj_account pj)"
    unfolding 1(11) Let_def by (simp add: accrue_fill_def tw_frame)
  ultimately show ?thesis using ok key by blast
qed

lemmas fold_fill_ok = fold_fill_all [THEN conjunct1]
  fold_fill_all [THEN conjunct2, THEN conjunct1]
  fold_fill_all [THEN conjunct2, THEN conjunct2]

section \<open>The parts add up\<close>

lemma apportion_sum:
  assumes "apportion amount ws t = Inr xs" "ws \<noteq> []"
  shows "length xs = length ws"
    and "dsum (butlast xs) = sum_list (butlast xs) \<Longrightarrow> fits (amount - sum_list (butlast xs)) \<Longrightarrow> sum_list xs = amount"
proof -
  from assms(1) obtain shares where s: "traverse (\<lambda>w. ddiv (dmul amount w) t) (butlast ws) = Inr shares"
    and xs: "xs = shares @ [dsub amount (dsum shares)]" by (auto simp: apportion_def bind_res_eq_Inr)
  have "length shares = length ws - 1"
    using s unfolding traverse_Inr_list_all2 by (auto dest: list_all2_lengthD)
  then show "length xs = length ws" using assms(2) xs by (cases ws) auto
  show "dsum (butlast xs) = sum_list (butlast xs) \<Longrightarrow> fits (amount - sum_list (butlast xs)) \<Longrightarrow> sum_list xs = amount"
    using xs by (simp add: dec_exact)
qed

section \<open>Several folds, then the projection\<close>

definition owners_ok :: "(bookable \<times> side) list \<Rightarrow> bool" where
  "owners_ok fs \<longleftrightarrow> (\<forall>(f, sd) \<in> set fs. bk_strategy f \<noteq> Some UNATTRIBUTED)"

abbreviation change_key :: "ledger_change \<Rightarrow> partition_key" where
  "change_key c \<equiv> key_of (lc_position c)"

lemma fold_fill_files:
  assumes "fold_fill pj f sd = Inr (pj', c)" "pj_ok pj" "bk_strategy f \<noteq> Some UNATTRIBUTED"
  shows "lc_fresh c \<longleftrightarrow> map_of (pj_positions pj) (change_key c) = None"
    and "map_of (pj_positions pj') k =
      (if k = change_key c \<and> \<not> lc_fresh c then Some (lc_position c) else map_of (pj_positions pj) k)"
  using assms(1) partition_for_ok [OF assms(2) _ assms(3)]
  by (cases rule: fold_fill_cases; force simp: Let_def split: if_splits)+

text \<open>What a run of folds leaves behind, in the terms the checkpoint needs.\<close>

definition folds_to :: "portfolio \<Rightarrow> portfolio \<Rightarrow> ledger_change list \<Rightarrow> bool" where
  "folds_to pj pj' cs \<longleftrightarrow> pj_ok pj' \<and> pj_spec pj' = pj_spec pj \<and> pj_opened pj' = pj_opened pj
     \<and> ac_genesis_ts_ns (pj_account pj') = ac_genesis_ts_ns (pj_account pj)
     \<and> ac_genesis (pj_account pj') = ac_genesis (pj_account pj)
     \<and> ac_account_id (pj_account pj') = ac_account_id (pj_account pj)
     \<and> (\<forall>c \<in> set cs. (lc_fresh c \<longleftrightarrow> map_of (pj_positions pj) (change_key c) = None)
          \<and> position_ok (lc_position c) \<and> p_strategy_id (lc_position c) \<noteq> Some UNATTRIBUTED)
     \<and> (\<forall>k. map_of (pj_positions pj') k = None \<longleftrightarrow> map_of (pj_positions pj) k = None)
     \<and> (\<forall>k. k \<notin> change_key ` set cs \<longrightarrow> map_of (pj_positions pj') k = map_of (pj_positions pj) k)"

lemma fold_fills_to:
  assumes "fold_fills pj fs = Inr (pj', cs)" "pj_ok pj" "owners_ok fs"
  shows "folds_to pj pj' cs"
  using assms
proof (induction fs arbitrary: pj cs)
  case Nil
  then show ?case by (auto simp: folds_to_def)
next
  case (Cons x fs)
  obtain f sd where x: "x = (f, sd)" by (cases x)
  from Cons.prems(1) obtain pj1 c cs1 where one: "fold_fill pj f sd = Inr (pj1, c)"
    and rest: "fold_fills pj1 fs = Inr (pj', cs1)" and cs: "cs = c # cs1"
    by (auto simp: x bind_res_eq_Inr)
  have own: "bk_strategy f \<noteq> Some UNATTRIBUTED" "owners_ok fs"
    using Cons.prems(3) by (auto simp: x owners_ok_def)
  note all = fold_fill_all [OF one Cons.prems(2) own(1)]
  note files = fold_fill_files [OF one Cons.prems(2) own(1)]
  have ih: "folds_to pj1 pj' cs1" by (rule Cons.IH [OF rest _ own(2)]) (use all in blast)
  have none: "map_of (pj_positions pj1) k = None \<longleftrightarrow> map_of (pj_positions pj) k = None" for k
    using files(1) files(2) [of k] by auto
  have st: "p_strategy_id (lc_position c) \<noteq> Some UNATTRIBUTED"
    using all own(1) by (auto simp: key_of_def)
  show ?case
    using ih all none st files(1) files(2) unfolding folds_to_def cs by simp
qed

lemma project_lookup:
  "map_of (pj_positions (foldl project pj cs)) k =
    (case List.find (\<lambda>c. change_key c = k \<and> lc_fresh c) (rev cs) of
       Some c \<Rightarrow> Some (lc_position c) | None \<Rightarrow> map_of (pj_positions pj) k)"
  by (induction cs rule: rev_induct) (auto simp: project_def split: option.split)

lemma project_fields [simp]:
  "pj_account (foldl project pj cs) = pj_account pj" "pj_spec (foldl project pj cs) = pj_spec pj"
  "pj_opened (foldl project pj cs) = pj_opened pj"
  by (induction cs arbitrary: pj) (simp_all add: project_def)

lemma project_ok:
  assumes "\<forall>c \<in> set cs. position_ok (lc_position c) \<and> p_strategy_id (lc_position c) \<noteq> Some UNATTRIBUTED"
  shows "pj_ok pj \<Longrightarrow> pj_ok (foldl project pj cs)"
  using assms by (induction cs arbitrary: pj) (auto simp: project_def pj_ok_refile)

lemma key_change_position: "pj_ok pj \<Longrightarrow> key_of (change_position pj c) = change_key c"
  by (auto simp: change_position_def dest: pj_ok_lookup split: option.split)

lemma find_map: "List.find P (map f xs) = map_option f (List.find (\<lambda>x. P (f x)) xs)"
  by (induction xs) auto

lemma find_Some_mem: "List.find P xs = Some x \<Longrightarrow> x \<in> set xs \<and> P x"
  by (induction xs) (auto split: if_splits)

lemma find_cong: "(\<And>x. x \<in> set xs \<Longrightarrow> P x = Q x) \<Longrightarrow> List.find P xs = List.find Q xs"
  by (induction xs) auto

text \<open>After the projection each written partition is exactly what was handed to the write.\<close>

lemma projected_written:
  assumes "folds_to pj pj' cs" "pj_ok pj"
  shows "map_of (pj_positions (foldl project pj' cs)) k =
    (case List.find (\<lambda>p. key_of p = k) (rev (map (change_position pj') cs)) of
       Some p \<Rightarrow> Some p | None \<Rightarrow> map_of (pj_positions pj) k)"
proof -
  have ok: "pj_ok pj'" using assms(1) by (simp add: folds_to_def)
  have find: "List.find (\<lambda>p. key_of p = k) (rev (map (change_position pj') cs)) =
      map_option (change_position pj') (List.find (\<lambda>c. change_key c = k) (rev cs))"
    by (simp add: rev_map find_map key_change_position [OF ok])
  show ?thesis
  proof (cases "List.find (\<lambda>c. change_key c = k) (rev cs)")
    case None
    then have no: "k \<notin> change_key ` set cs" by (auto simp: find_None_iff)
    then have "List.find (\<lambda>c. change_key c = k \<and> lc_fresh c) (rev cs) = None" by (auto simp: find_None_iff)
    moreover have "map_of (pj_positions pj') k = map_of (pj_positions pj) k"
      using assms(1) no unfolding folds_to_def by blast
    ultimately show ?thesis using None by (simp add: find project_lookup)
  next
    case (Some c)
    then have c: "c \<in> set cs" "change_key c = k" by (auto dest: find_Some_mem)
    show ?thesis
    proof (cases "map_of (pj_positions pj) k")
      case None
      then have "\<forall>c \<in> set cs. change_key c = k \<longrightarrow> lc_fresh c" using assms(1) by (auto simp: folds_to_def)
      then have "List.find (\<lambda>c. change_key c = k \<and> lc_fresh c) (rev cs) = Some c"
        using Some by (subst find_cong [where Q = "\<lambda>c. change_key c = k"]) auto
      moreover have "lc_fresh c" using None c assms(1) by (auto simp: folds_to_def)
      ultimately show ?thesis by (simp add: find project_lookup Some change_position_def)
    next
      case (Some p)
      then have none: "\<forall>c \<in> set cs. change_key c = k \<longrightarrow> \<not> lc_fresh c" using assms(1) by (auto simp: folds_to_def)
      then have "List.find (\<lambda>c. change_key c = k \<and> lc_fresh c) (rev cs) = None" by (auto simp: find_None_iff)
      moreover obtain p' where "map_of (pj_positions pj') k = Some p'"
        using Some assms(1) by (metis (no_types, lifting) folds_to_def not_None_eq option.distinct(1))
      moreover have "\<not> lc_fresh c" using Some c assms(1) by (auto simp: folds_to_def)
      ultimately show ?thesis
        using \<open>List.find (\<lambda>c. change_key c = k) (rev cs) = Some c\<close> c
        by (simp add: find project_lookup change_position_def)
    qed
  qed
qed

section \<open>Refiling a list of partitions\<close>

lemma refile_all_lookup:
  "map_of (pj_positions (foldl refile pj ps)) k =
    (case List.find (\<lambda>p. key_of p = k) (rev ps) of Some p \<Rightarrow> Some p | None \<Rightarrow> map_of (pj_positions pj) k)"
  by (induction ps rule: rev_induct) (auto split: option.split)

lemma refile_all_fields [simp]:
  "pj_account (foldl refile pj ps) = pj_account pj" "pj_spec (foldl refile pj ps) = pj_spec pj"
  "pj_opened (foldl refile pj ps) = pj_opened pj"
  by (induction ps arbitrary: pj) simp_all

lemma refile_all_ok:
  "pj_ok pj \<Longrightarrow> \<forall>p \<in> set ps. position_ok p \<and> p_strategy_id p \<noteq> Some UNATTRIBUTED \<Longrightarrow> pj_ok (foldl refile pj ps)"
  by (induction ps arbitrary: pj) (auto simp: pj_ok_refile)

lemma filed_keys: "pj_ok pj \<Longrightarrow> map key_of (filed pj) = map fst (pj_positions pj)"
  by (auto simp: pj_ok_def filed_ok_def)

lemma filed_lookup: "pj_ok pj \<Longrightarrow> p \<in> set (filed pj) \<Longrightarrow>
    map_of (pj_positions pj) (key_of p) = Some p \<and> position_ok p \<and> p_strategy_id p \<noteq> Some UNATTRIBUTED"
  by (force simp: pj_ok_def filed_ok_def dict_ok_map_of_iff)

lemma filed_distinct: "pj_ok pj \<Longrightarrow> distinct (map key_of (filed pj))"
  by (simp only: filed_keys) (simp add: pj_ok_def dict_ok_def)

section \<open>Cash follows the partitions\<close>

text \<open>
  What the partitions have booked: realized PnL less fees plus funding. Cash moves by the
  same amount, so the difference stays put.
\<close>

definition contribution :: "position \<Rightarrow> rat" where
  "contribution p = p_realized_pnl p - p_fees p + p_funding p"

definition booked :: "portfolio \<Rightarrow> rat" where
  "booked pj = (\<Sum>(k, p) \<leftarrow> pj_positions pj. contribution p)"

lemma booked_refile:
  "booked (refile pj p) = booked pj + contribution p
    - (case map_of (pj_positions pj) (key_of p) of None \<Rightarrow> 0 | Some old \<Rightarrow> contribution old)"
proof (cases "map_of (pj_positions pj) (key_of p)")
  case None
  with sum_list_update_absent [OF None, of "\<lambda>(k, p). contribution p" p] show ?thesis
    by (simp add: booked_def refile_def)
next
  case (Some old)
  with sum_list_update_present [OF Some, of "\<lambda>(k, p). contribution p" p] show ?thesis
    by (simp add: booked_def refile_def)
qed

lemma booked_refile_all:
  assumes "distinct (map key_of olds)" "\<forall>p \<in> set olds. map_of (pj_positions pj) (key_of p) = Some p"
    "list_all2 (\<lambda>old new. key_of new = key_of old) olds news"
  shows "booked (foldl refile pj news) = booked pj + (\<Sum>p \<leftarrow> news. contribution p) - (\<Sum>p \<leftarrow> olds. contribution p)"
  using assms(3,1,2)
proof (induction arbitrary: pj rule: list_all2_induct)
  case Nil
  then show ?case by simp
next
  case (Cons old olds new news)
  have "\<forall>p \<in> set olds. map_of (pj_positions (refile pj new)) (key_of p) = Some p"
    using Cons.prems Cons.hyps by (auto simp: rev_image_eqI)
  from Cons.IH [OF _ this] Cons.prems Cons.hyps show ?case by (simp add: booked_refile)
qed

definition exact_accrual :: "portfolio \<Rightarrow> bookable \<Rightarrow> ledger_change \<Rightarrow> bool" where
  "exact_accrual pj f c \<longleftrightarrow>
     (let p = fst (partition_for pj f); q = lc_position c; cash = ac_cash (pj_account pj);
          gain = p_realized_pnl q - p_realized_pnl p; fee = p_fees q - p_fees p
      in fits gain \<and> fits fee \<and> fits (cash + gain) \<and> fits (cash + gain - fee))"

lemma booked_cong: "pj_positions pj = pj_positions pj' \<Longrightarrow> booked pj = booked pj'"
  by (simp add: booked_def)

lemma fold_fill_cash:
  assumes "fold_fill pj f sd = Inr (pj', c)" "pj_ok pj" "bk_strategy f \<noteq> Some UNATTRIBUTED"
    and "exact_accrual pj f c"
  shows "ac_cash (pj_account pj') - booked (project pj' c) = ac_cash (pj_account pj) - booked pj"
  using assms(1)
proof (cases rule: fold_fill_cases)
  case (1 p fresh changes q)
  note P = partition_for_ok [OF assms(2) 1(1) assms(3)]
  define gain where "gain = p_realized_pnl q - p_realized_pnl p"
  define fee where "fee = p_fees q - p_fees p"
  have old: "contribution p = (case map_of (pj_positions pj) (key_of p) of None \<Rightarrow> 0 | Some old \<Rightarrow> contribution old)"
    using P(3,4) 1(1) by (cases fresh)
      (auto simp: partition_for_def contribution_def new_position_def split: option.splits)
  have fund: "contribution (lc_position c) - contribution p = gain - fee"
    using 1(7-9) by (simp add: contribution_def gain_def fee_def)
  define pj1 where "pj1 = (if changes = [] then pj else accrue_fill pj p (lc_position c) f)"
  have pos: "pj_positions pj1 = pj_positions pj" by (simp add: pj1_def)
  have pj': "pj' = (if fresh then pj1 else refile pj1 (lc_position c))" using 1(11) by (simp add: pj1_def Let_def)
  have "project pj' c = refile pj1 (lc_position c)" using pj' 1(4) by (simp add: project_def)
  then have booked: "booked (project pj' c) = booked pj + (gain - fee)"
    using old fund 1(5) booked_cong [OF pos] pos by (simp add: booked_refile)
  have "ac_cash (pj_account pj1) = ac_cash (pj_account pj) + gain - fee"
  proof (cases "changes = []")
    case True
    then have "q = p" using apply_fill_booked(1,5) [OF 1(2)] by blast
    then show ?thesis by (simp add: pj1_def True gain_def fee_def)
  next
    case False
    have "fits gain" "fits fee" "fits (ac_cash (pj_account pj) + gain)" "fits (ac_cash (pj_account pj) + gain - fee)"
      using assms(4) 1(1,7,8) by (simp_all add: exact_accrual_def Let_def gain_def fee_def)
    then show ?thesis
      using False 1(7,8) dec_exact(2) [of "p_realized_pnl q" "p_realized_pnl p"]
        dec_exact(2) [of "p_fees q" "p_fees p"] dec_exact(1) [of "ac_cash (pj_account pj)" gain]
        dec_exact(2) [of "ac_cash (pj_account pj) + gain" fee]
      by (simp add: pj1_def accrue_fill_def gain_def [symmetric] fee_def [symmetric])
  qed
  moreover have "pj_account pj' = pj_account pj1" using pj' by simp
  ultimately show ?thesis using booked by simp
qed

section \<open>Funding\<close>

lemma exposed_sub: "set (exposed pj sy) \<subseteq> set (filed pj)"
  by (auto simp: exposed_def)

lemma exposed_distinct: "pj_ok pj \<Longrightarrow> distinct (map key_of (exposed pj sy))"
proof -
  assume ok: "pj_ok pj"
  have "map key_of (exposed pj sy) = map fst (filter (\<lambda>((_, held), p). held = sy \<and> \<not> is_flat p) (pj_positions pj))"
    using ok by (auto simp: exposed_def pj_ok_def filed_ok_def)
  then show ?thesis using ok by (simp add: pj_ok_def dict_ok_def distinct_map_filter)
qed

text \<open>A split touches nothing but the funding line of the partitions it is given.\<close>

lemma split_funding_all2:
  assumes "split_funding amount ps = Inr qs"
  shows "list_all2 (\<lambda>p q. \<exists>x. q = p\<lparr>p_funding := x\<rparr>) ps qs"
proof -
  have refl: "list_all2 (\<lambda>p q. \<exists>x. q = p\<lparr>p_funding := x\<rparr>) ps ps"
    by (rule list_all2_refl) (metis position.surjective position.update_convs(7))
  show ?thesis
  proof (cases "ps = [] \<or> dsum (map p_signed_size ps) = 0")
    case True
    with assms refl show ?thesis by (auto simp: split_funding_def)
  next
    case False
    then obtain xs where xs: "apportion amount (map p_signed_size ps) (dsum (map p_signed_size ps)) = Inr xs"
      and qs: "qs = map2 accrue_funding ps xs"
      using assms by (auto simp: split_funding_def Let_def bind_res_eq_Inr)
    have "length xs = length ps" using apportion_sum(1) [OF xs] False by simp
    then show ?thesis unfolding qs
      by (auto simp: list_all2_conv_all_nth accrue_funding_def)
  qed
qed

lemma apply_funding_Some:
  assumes "apply_funding s pj a = Inr (pj', Some fc)"
  shows "funding_gate s pj a" "split_funding (fa_amount a) (exposed pj (fa_symbol a)) = Inr (fc_positions fc)"
    "pj' = (foldl refile pj (fc_positions fc))\<lparr>pj_account := accrue_account_funding (pj_account pj) (fa_amount a)\<rparr>"
    "fc_funding_mark fc = (fa_symbol a, fa_boundary_ts_ns a)"
  using assms by (auto simp: apply_funding_def Let_def bind_res_eq_Inr split: if_splits)

lemma apply_funding_None:
  "apply_funding s pj a = Inr (pj', None) \<Longrightarrow> pj' = pj \<and> \<not> funding_gate s pj a"
  by (auto simp: apply_funding_def Let_def bind_res_eq_Inr split: if_splits)

lemma split_funding_owners:
  assumes "pj_ok pj" "split_funding amount (exposed pj sy) = Inr qs"
  shows "\<forall>q \<in> set qs. p_strategy_id q \<noteq> Some UNATTRIBUTED \<and> position_ok q"
proof
  fix q assume "q \<in> set qs"
  then obtain p x where "p \<in> set (exposed pj sy)" "q = p\<lparr>p_funding := x\<rparr>"
    using split_funding_all2 [OF assms(2)] by (auto simp: list_all2_conv_all_nth in_set_conv_nth) metis
  then show "p_strategy_id q \<noteq> Some UNATTRIBUTED \<and> position_ok q"
    using filed_lookup [OF assms(1), of p] exposed_sub by (auto simp: position_ok_def subset_iff)
qed

lemma apply_funding_ok:
  assumes "apply_funding s pj a = Inr (pj', Some fc)" "pj_ok pj"
  shows "pj_ok pj'"
    and "map_of (pj_positions pj') k = (case List.find (\<lambda>p. key_of p = k) (rev (fc_positions fc)) of
      Some p \<Rightarrow> Some p | None \<Rightarrow> map_of (pj_positions pj) k)"
proof -
  note F = apply_funding_Some [OF assms(1)]
  have "\<forall>q \<in> set (fc_positions fc). position_ok q \<and> p_strategy_id q \<noteq> Some UNATTRIBUTED"
    using split_funding_owners [OF assms(2) F(2)] by blast
  from refile_all_ok [OF assms(2) this] show "pj_ok pj'" by (simp add: F(3) pj_ok_def)
  show "map_of (pj_positions pj') k = (case List.find (\<lambda>p. key_of p = k) (rev (fc_positions fc)) of
      Some p \<Rightarrow> Some p | None \<Rightarrow> map_of (pj_positions pj) k)"
    by (simp add: F(3) refile_all_lookup)
qed

definition exact_split :: "decimal \<Rightarrow> position list \<Rightarrow> bool" where
  "exact_split amount ps \<longleftrightarrow>
     (case apportion amount (map p_signed_size ps) (dsum (map p_signed_size ps)) of
        Inl _ \<Rightarrow> False
      | Inr xs \<Rightarrow> dsum (butlast xs) = sum_list (butlast xs) \<and> fits (amount - sum_list (butlast xs))
          \<and> list_all2 (\<lambda>p x. fits (p_funding p + x)) ps xs)"

lemma accrue_sum:
  "list_all2 (\<lambda>p x. fits (p_funding p + x)) ps xs \<Longrightarrow>
    (\<Sum>q \<leftarrow> map2 accrue_funding ps xs. contribution q) = (\<Sum>p \<leftarrow> ps. contribution p) + sum_list xs"
  by (induction rule: list_all2_induct) (simp_all add: contribution_def accrue_funding_def dec_exact)

lemma split_funding_sum:
  assumes "split_funding amount ps = Inr qs" "exact_split amount ps" "ps \<noteq> []" "dsum (map p_signed_size ps) \<noteq> 0"
  shows "(\<Sum>q \<leftarrow> qs. contribution q) = (\<Sum>p \<leftarrow> ps. contribution p) + amount"
proof -
  obtain xs where xs: "apportion amount (map p_signed_size ps) (dsum (map p_signed_size ps)) = Inr xs"
      and qs: "qs = map2 accrue_funding ps xs"
      using assms by (auto simp: split_funding_def Let_def bind_res_eq_Inr)
  with assms(2) have e: "dsum (butlast xs) = sum_list (butlast xs)" "fits (amount - sum_list (butlast xs))"
    "list_all2 (\<lambda>p x. fits (p_funding p + x)) ps xs" by (simp_all add: exact_split_def)
  have "sum_list xs = amount" by (rule apportion_sum(2) [OF xs _ e(1,2)]) (use assms(3) in simp)
  with accrue_sum [OF e(3)] show ?thesis unfolding qs by simp
qed

lemma apply_funding_cash:
  assumes "apply_funding s pj a = Inr (pj', Some fc)" "pj_ok pj"
    and "exposed pj (fa_symbol a) \<noteq> []" "dsum (map p_signed_size (exposed pj (fa_symbol a))) \<noteq> 0"
    and "exact_split (fa_amount a) (exposed pj (fa_symbol a))" "fits (ac_cash (pj_account pj) + fa_amount a)"
  shows "ac_cash (pj_account pj') - booked pj' = ac_cash (pj_account pj) - booked pj"
proof -
  note F = apply_funding_Some [OF assms(1)]
  let ?olds = "exposed pj (fa_symbol a)"
  have "\<forall>p \<in> set ?olds. map_of (pj_positions pj) (key_of p) = Some p"
    using filed_lookup [OF assms(2)] exposed_sub by blast
  moreover have "list_all2 (\<lambda>old new. key_of new = key_of old) ?olds (fc_positions fc)"
    using split_funding_all2 [OF F(2)] by (rule list_all2_mono) (auto simp: key_of_def)
  ultimately have "booked (foldl refile pj (fc_positions fc)) = booked pj + fa_amount a"
    using booked_refile_all [OF exposed_distinct [OF assms(2)]] split_funding_sum [OF F(2) assms(5,3,4)] by simp
  then have "booked pj' = booked pj + fa_amount a" unfolding F(3) by (simp add: booked_def)
  with assms(6) show ?thesis unfolding F(3) by (simp add: dec_exact)
qed

section \<open>Collateral\<close>

lemma by_symbol_snoc:
  "by_symbol (ps @ [p]) = AList.update (p_symbol p) (dget (by_symbol ps) (p_symbol p) [] @ [p]) (by_symbol ps)"
  by (simp add: by_symbol_def)

lemma by_symbol_lookup:
  "map_of (by_symbol ps) sy = (if sy \<in> p_symbol ` set ps then Some (filter (\<lambda>p. p_symbol p = sy) ps) else None)"
proof (induction ps rule: rev_induct)
  case (snoc p ps)
  have "p_symbol p \<notin> p_symbol ` set ps \<Longrightarrow> filter (\<lambda>q. p_symbol q = p_symbol p) ps = []"
    by (intro filter_False) (metis image_eqI)
  with snoc show ?case by (auto simp: by_symbol_snoc dget_def)
qed (simp add: by_symbol_def)

lemma by_symbol_ok: "dict_ok (by_symbol ps)"
  by (induction ps rule: rev_induct) (auto simp: by_symbol_def)

lemma share_length: "share bucket across = Inr xs \<Longrightarrow> length xs = length across"
  by (auto simp: share_def Let_def bind_res_eq_Inr split: if_splits dest!: apportion_sum(1))

text \<open>The shares of one symbol's bucket add up to the bucket the venue posts.\<close>

lemma share_sum:
  assumes "share bucket across = Inr xs" "dsum (butlast xs) = sum_list (butlast xs)" "fits (bucket - sum_list (butlast xs))"
    "dsum (map (\<lambda>p. dabs (p_signed_size p)) across) \<noteq> 0"
  shows "sum_list xs = bucket"
  using assms apportion_sum(2) by (fastforce simp: share_def Let_def)

end
