(* ===== verification/TW_Flatten.thy ===== *)
theory TW_Flatten
  imports TW_Positions
begin

text \<open>
  How a flatten order's fill is split over every partition of its symbol:
  \<open>src/src/tickwright/engine/flatten_split.py\<close>. Owners are sorted as Python sorts
  strings, by code point from the left (\<open>str_sort\<close>). The lemmas show
  that the greedy apportionment never hands a partition more lots than it holds, that the
  moves of successive fills add up to the order's cumulative fill, and that a full fill
  takes every partition to zero.
\<close>

section \<open>The split\<close>

record partition_move =
  pm_size :: decimal
  pm_fee :: decimal

type_synonym basis = "(string \<times> decimal) list"

definition split_refusal :: "basis \<Rightarrow> side \<Rightarrow> decimal \<Rightarrow> string option" where
  "split_refusal basis sd quantity =
     (let net = dsum (map snd basis)
      in if net = 0 then Some ''a flatten order needs a net position to close''
         else if (sd = SELL) \<noteq> (0 < net)
         then Some ''a flatten order must trade against the net position''
         else if dabs net < quantity
         then Some ''a flatten order may not trade more than the net position''
         else None)"

text \<open>\<open>_hand_out\<close>: one lot at a time, each to the partition furthest behind.\<close>

fun hand_loop ::
  "(string, int) dict \<Rightarrow> int \<Rightarrow> string list \<Rightarrow> int list \<Rightarrow> (string, int) dict \<Rightarrow> (string, int) dict res" where
  "hand_loop lots side_lots ordered [] got = Inr got"
| "hand_loop lots side_lots ordered (handed # rest) got =
     (case max_first (\<lambda>ow. dget lots ow 0 * handed - dget got ow 0 * side_lots) ordered of
        None \<Rightarrow> Inl ValueError
      | Some best \<Rightarrow>
          hand_loop lots side_lots ordered rest (AList.update best (dget got best 0 + 1) got))"

definition hand_out :: "(string, int) dict \<Rightarrow> int \<Rightarrow> (string, int) dict res" where
  "hand_out lots n =
     hand_loop lots (sum_list (map snd lots)) (str_sort (map fst lots)) [1..n]
       (map (\<lambda>(ow, _). (ow, 0)) lots)"

definition lots_of :: "decimal \<Rightarrow> decimal \<Rightarrow> int res" where
  "lots_of lot s = bind_res (ddiv (dabs s) lot) (\<lambda>x. Inr (dint x))"

definition side_lots :: "decimal \<Rightarrow> bool \<Rightarrow> basis \<Rightarrow> (string, int) dict res" where
  "side_lots lot up basis =
     bind_res (traverse (\<lambda>(ow, s). bind_res (lots_of lot s) (\<lambda>n. Inr (ow, n)))
        (filter (\<lambda>(ow, s). (0 < s) = up) basis)) (\<lambda>d. Inr (dict_of d))"

definition total_moves :: "basis \<Rightarrow> decimal \<Rightarrow> decimal \<Rightarrow> (string, decimal) dict res" where
  "total_moves basis lot filled =
     (let net_long = 0 < dsum (map snd basis)
      in bind_res (side_lots lot net_long basis) (\<lambda>with_net.
         bind_res (side_lots lot (\<not> net_long) basis) (\<lambda>against.
           let with_lots = sum_list (map snd with_net);
               against_lots = sum_list (map snd against)
           in bind_res (ddiv filled lot) (\<lambda>f.
                let fill_lots = dint f
                in if with_lots - against_lots = 0 then Inl DivisionByZero
                   else let with_moved = with_lots * fill_lots div (with_lots - against_lots)
                   in bind_res (hand_out with_net with_moved) (\<lambda>g1.
                      bind_res (hand_out against (with_moved - fill_lots)) (\<lambda>g2.
                        let got = foldl (\<lambda>d (k, v). AList.update k v d) g1 g2
                        in Inr (dict_of (map (\<lambda>(ow, size).
                             (ow, dmul (of_int ((if 0 < size then - 1 else 1) * dget got ow 0)) lot))
                             basis))))))))"

definition split_fee :: "(string, decimal) dict \<Rightarrow> decimal \<Rightarrow> (string, decimal) dict res" where
  "split_fee moves fee =
     (let weights = map (\<lambda>(ow, m). (ow, dabs m)) moves;
          weight_sum = dsum (map snd weights);
          step = adjusted fee - 20
      in bind_res (traverse (\<lambda>(ow, w).
             bind_res (ddiv (dmul fee w) weight_sum) (\<lambda>x.
             bind_res (quantize x step ROUND_HALF_EVEN) (\<lambda>y. Inr (ow, y)))) weights) (\<lambda>shares.
           case max_first (\<lambda>ow. dget weights ow 0) (str_sort (map fst weights)) of
             None \<Rightarrow> Inl ValueError
           | Some largest \<Rightarrow>
               Inr (AList.update largest
                 (dadd (dget shares largest 0) (dsub fee (dsum (map snd shares)))) shares)))"

definition flatten_split ::
  "basis \<Rightarrow> decimal \<Rightarrow> decimal \<Rightarrow> decimal \<Rightarrow> decimal \<Rightarrow> (string, partition_move) dict res" where
  "flatten_split basis lot cum_qty quantity fee =
     (let net = dsum (map snd basis)
      in if net = 0 then Inl (InvariantViolation SplitWithoutNet)
         else if dabs net < cum_qty then Inl (InvariantViolation SplitPastNet)
         else bind_res (total_moves basis lot (dsub cum_qty quantity)) (\<lambda>before.
              bind_res (total_moves basis lot cum_qty) (\<lambda>after.
                let sizes = filter (\<lambda>(ow, x). x \<noteq> 0)
                      (map (\<lambda>(ow, x). (ow, dsub x (dget before ow 0))) after)
                in if sizes = [] then Inr []
                   else bind_res (split_fee sizes fee) (\<lambda>fees.
                     Inr (map (\<lambda>(ow, x). (ow, \<lparr>pm_size = x, pm_fee = dget fees ow 0\<rparr>)) sizes)))))"

section \<open>The apportionment in lots\<close>

lemma hand_loop_append:
  "hand_loop lots s ordered (xs @ ys) got =
    bind_res (hand_loop lots s ordered xs got) (hand_loop lots s ordered ys)"
  by (induction xs arbitrary: got) (auto split: option.split)

definition hand_ok :: "(string, int) dict \<Rightarrow> int \<Rightarrow> (string, int) dict \<Rightarrow> bool" where
  "hand_ok lots handed got \<longleftrightarrow> map fst got = map fst lots \<and> sum_list (map snd got) = handed
     \<and> (\<forall>ow. 0 \<le> dget got ow 0 \<and> dget got ow 0 \<le> dget lots ow 0)"

text \<open>
  One hand-out: the partition furthest behind is strictly behind, so it still has a lot.
\<close>

lemma furthest_behind:
  assumes "dict_ok lots" and "hand_ok lots (h - 1) got" and "h \<le> sum_list (map snd lots)" "1 \<le> h"
    and best: "max_first (\<lambda>ow. dget lots ow 0 * h - dget got ow 0 * sum_list (map snd lots)) ordered = Some b"
    and ordered: "set ordered = fst ` set lots"
  shows "dget got b 0 < dget lots b 0"
proof (rule ccontr)
  let ?S = "sum_list (map snd lots)" and ?K = "fst ` set lots"
  let ?key = "\<lambda>ow. dget lots ow 0 * h - dget got ow 0 * ?S"
  assume "\<not> dget got b 0 < dget lots b 0"
  then have "dget lots b 0 * h \<le> dget got b 0 * ?S"
    using assms(2-4) by (intro mult_mono) (auto simp: hand_ok_def intro: order_trans)
  then have "?key b \<le> 0" by simp
  then have "(\<Sum>ow \<in> ?K. ?key ow) \<le> 0"
    using max_first_Some [OF best] ordered by (intro sum_nonpos) force
  moreover have "(\<Sum>ow \<in> ?K. ?key ow) = ?S * h - (h - 1) * ?S"
  proof -
    have keys: "map fst got = map fst lots" using assms(2) by (simp add: hand_ok_def)
    then have "dict_ok got" using assms(1) by (simp add: dict_ok_def)
    moreover have "fst ` set got = ?K" using keys by (metis list.set_map)
    ultimately show ?thesis
      using sum_dict [of got 0] sum_dict [OF assms(1), of 0] assms(2)
      by (simp add: sum_subtractf sum_distrib_right [symmetric] hand_ok_def)
  qed
  ultimately show False using assms(3,4) by (simp add: algebra_simps)
qed

lemma hand_step:
  assumes "dict_ok lots" "hand_ok lots (h - 1) got" "dget got b 0 < dget lots b 0"
  shows "hand_ok lots h (AList.update b (dget got b 0 + 1) got)"
proof -
  have "0 \<le> dget got b 0" using assms(2) by (simp add: hand_ok_def)
  then have "b \<in> fst ` set lots" using assms(3) dget_out [of b lots "0::int"] by (cases "b \<in> fst ` set lots") auto
  then have b: "b \<in> fst ` set got"
    using assms(2) by (metis hand_ok_def list.set_map)
  then obtain w where w: "map_of got b = Some w" by (metis map_of_eq_None_iff not_Some_eq)
  have "sum_list (map snd (AList.update b (dget got b 0 + 1) got)) = h"
    using sum_list_update_present [OF w, of snd "dget got b 0 + 1"] assms(2) w
    by (simp add: hand_ok_def dget_def)
  then show ?thesis
    using assms map_fst_update_present [OF b] by (auto simp: hand_ok_def)
qed

lemma hand_loop_ok:
  assumes "dict_ok lots" "set ordered = fst ` set lots" "n \<le> sum_list (map snd lots)" "0 \<le> h"
    and "hand_ok lots h got" "h \<le> n"
  shows "\<exists>got'. hand_loop lots (sum_list (map snd lots)) ordered [h + 1..n] got = Inr got'
    \<and> hand_ok lots n got' \<and> (\<forall>ow. dget got ow 0 \<le> dget got' ow 0)"
  using assms(4-6)
proof (induction "nat (n - h)" arbitrary: h got)
  case 0
  then show ?case by simp
next
  case (Suc m)
  then have up: "[h + 1..n] = (h + 1) # [h + 1 + 1..n]" by (simp add: upto_rec1)
  have "lots \<noteq> []" using Suc.prems Suc.hyps(2) assms(3) by auto
  then obtain b where b: "max_first (\<lambda>ow. dget lots ow 0 * (h + 1) - dget got ow 0 * sum_list (map snd lots))
      ordered = Some b" using assms(2) by (cases ordered) auto
  have "dget got b 0 < dget lots b 0"
    by (rule furthest_behind [OF assms(1) _ _ _ b assms(2)]) (use Suc.prems Suc.hyps(2) assms(3) in auto)
  then have "hand_ok lots (h + 1) (AList.update b (dget got b 0 + 1) got)"
    using hand_step [OF assms(1), of "h + 1"] Suc.prems by simp
  moreover have "m = nat (n - (h + 1))" "0 \<le> h + 1" "h + 1 \<le> n" using Suc.hyps(2) Suc.prems by auto
  ultimately obtain got' where g: "hand_loop lots (sum_list (map snd lots)) ordered [h + 1 + 1..n]
      (AList.update b (dget got b 0 + 1) got) = Inr got'" "hand_ok lots n got'"
    and mono: "\<forall>ow. dget (AList.update b (dget got b 0 + 1) got) ow 0 \<le> dget got' ow 0"
    using Suc.hyps(1) by blast
  have "dget got ow 0 \<le> dget got' ow 0" for ow
    using mono [THEN spec, of ow] by (simp split: if_splits)
  with b g show ?case unfolding up by simp
qed

lemma dget_zero_map [simp]: "dget (map (\<lambda>(ow, _). (ow, 0::int)) lots) ow 0 = 0"
  by (induction lots) (auto simp: dget_def split: prod.split)

lemma hand_out_start: "\<forall>ow. 0 \<le> dget lots ow 0 \<Longrightarrow> hand_ok lots 0 (map (\<lambda>(ow, _). (ow, 0)) lots)"
proof -
  assume nonneg: "\<forall>ow. 0 \<le> dget lots ow 0"
  have "sum_list (map snd (map (\<lambda>(ow, _). (ow, 0::int)) lots)) = 0"
    by (induction lots) (auto split: prod.split)
  moreover have "map fst (map (\<lambda>(ow, _). (ow, 0::int)) lots) = map fst lots" by (simp add: case_prod_beta)
  ultimately show ?thesis using nonneg by (simp add: hand_ok_def)
qed

lemma hand_out_ok:
  assumes "dict_ok lots" "\<forall>ow. 0 \<le> dget lots ow 0" "0 \<le> n" "n \<le> sum_list (map snd lots)"
  shows "\<exists>g. hand_out lots n = Inr g \<and> hand_ok lots n g"
  using hand_loop_ok [OF assms(1) _ assms(4) order_refl hand_out_start [OF assms(2)] assms(3), of "str_sort (map fst lots)"]
  unfolding hand_out_def by auto

lemma hand_out_mono:
  assumes "dict_ok lots" "\<forall>ow. 0 \<le> dget lots ow 0" "0 \<le> n" "n \<le> k" "k \<le> sum_list (map snd lots)"
    and "hand_out lots n = Inr g" "hand_out lots k = Inr g'"
  shows "dget g ow 0 \<le> dget g' ow 0"
proof -
  have ok: "hand_ok lots n g" using hand_out_ok [OF assms(1-3)] assms(4-6) by auto
  have "[1..k] = [1..n] @ [n + 1..k]"
    using assms(3,4) upto_split2 [of 1 n k] by (cases "n = 0") auto
  then have "hand_loop lots (sum_list (map snd lots)) (str_sort (map fst lots)) [n + 1..k] g = Inr g'"
    using assms(6,7) unfolding hand_out_def by (simp add: hand_loop_append)
  with hand_loop_ok [OF assms(1) _ assms(5,3) ok assms(4), of "str_sort (map fst lots)"] show ?thesis by auto
qed

lemma hand_ok_full:
  assumes "dict_ok lots" "hand_ok lots (sum_list (map snd lots)) g"
  shows "dget g ow 0 = dget lots ow 0"
proof (cases "ow \<in> fst ` set lots")
  case False
  with assms(2) show ?thesis by (metis dget_out hand_ok_def list.set_map)
next
  case True
  have keys: "map fst g = map fst lots" using assms(2) by (simp add: hand_ok_def)
  then have "dict_ok g" using assms(1) by (simp add: dict_ok_def)
  moreover have "fst ` set g = fst ` set lots" using keys by (metis list.set_map)
  ultimately have "(\<Sum>k \<in> fst ` set lots. dget lots k 0 - dget g k 0) = 0"
    using sum_dict [of g 0] sum_dict [OF assms(1), of 0] assms(2)
    by (simp add: sum_subtractf hand_ok_def)
  then have "\<forall>k \<in> fst ` set lots. dget lots k 0 - dget g k 0 = 0"
    using assms(2) by (subst (asm) sum_nonneg_eq_0_iff) (auto simp: hand_ok_def)
  with True show ?thesis by fastforce
qed

section \<open>A basis on the lot grid\<close>

text \<open>
  Sizes are whole lots of \<open>10 ^ e\<close> (the guard quantized every order that built them), the
  owners are distinct, and the sizes together have fewer than 29 digits.
\<close>

abbreviation lots_in :: "int \<Rightarrow> decimal \<Rightarrow> int" where
  "lots_in e s \<equiv> \<lfloor>s / pow10 e\<rfloor>"

definition whole_lots :: "int \<Rightarrow> decimal \<Rightarrow> bool" where
  "whole_lots e s \<longleftrightarrow> of_int (lots_in e s) * pow10 e = s"

definition lot_basis :: "int \<Rightarrow> basis \<Rightarrow> bool" where
  "lot_basis e basis \<longleftrightarrow> distinct (map fst basis) \<and> (\<forall>s \<in> snd ` set basis. whole_lots e s)
     \<and> (\<Sum>(ow, s) \<leftarrow> basis. \<bar>lots_in e s\<bar>) < 10 ^ 28"

definition net_lots :: "int \<Rightarrow> basis \<Rightarrow> int" where
  "net_lots e basis = (\<Sum>(ow, s) \<leftarrow> basis. lots_in e s)"

lemma lots_in_mult [simp]: "lots_in e (of_int n * pow10 e) = n"
  by simp

lemma whole_lots_mult [simp]: "whole_lots e (of_int n * pow10 e)"
  by (simp add: whole_lots_def)

lemma abs_sum_list_le: "\<bar>\<Sum>(ow, s) \<leftarrow> basis. f s\<bar> \<le> (\<Sum>(ow, s) \<leftarrow> basis. \<bar>f s\<bar> :: int)"
  by (induction basis) (auto intro: order_trans [OF abs_triangle_ineq])

lemma dsum_lots:
  "(\<forall>s \<in> snd ` set basis. whole_lots e s) \<Longrightarrow> (\<Sum>(ow, s) \<leftarrow> basis. \<bar>lots_in e s\<bar>) < 10 ^ 28 \<Longrightarrow>
    dsum (map snd basis) = of_int (net_lots e basis) * pow10 e"
proof (induction basis rule: rev_induct)
  case Nil
  then show ?case by (simp add: net_lots_def)
next
  case (snoc x xs)
  obtain ow s where x: "x = (ow, s)" by (cases x)
  have s: "s = of_int (lots_in e s) * pow10 e" using snoc.prems(1) by (simp add: x whole_lots_def)
  have "dsum (map snd xs) = of_int (net_lots e xs) * pow10 e"
    using snoc.IH snoc.prems by (auto simp: x)
  moreover have "\<bar>net_lots e xs + lots_in e s\<bar> < 10 ^ 28"
    using snoc.prems(2) abs_sum_list_le [of "lots_in e" xs] by (simp add: x net_lots_def)
  then have "fits (of_int (net_lots e xs + lots_in e s) * pow10 e)" by (rule fits_scaled)
  ultimately show ?case
    using s by (simp add: x dec_exact net_lots_def distrib_right)
qed

lemma lots_of_whole: "whole_lots e s \<Longrightarrow> \<bar>lots_in e s\<bar> < 10 ^ 28 \<Longrightarrow> lots_of (pow10 e) s = Inr \<bar>lots_in e s\<bar>"
proof -
  assume whole: "whole_lots e s" and small: "\<bar>lots_in e s\<bar> < 10 ^ 28"
  have s: "s = of_int (lots_in e s) * pow10 e" using whole by (simp add: whole_lots_def)
  have "fits s" using fits_scaled [OF small, of e] s by simp
  then have "dabs s = of_int \<bar>lots_in e s\<bar> * pow10 e"
    using s by (metis abs_mult abs_of_pos dec_exact(5) of_int_abs pow10_pos)
  moreover have "rnd (of_int \<bar>lots_in e s\<bar>) = of_int \<bar>lots_in e s\<bar>"
    using fits_of_int [of "\<bar>lots_in e s\<bar>"] small unfolding fits_def by simp
  ultimately show ?thesis by (simp add: lots_of_def ddiv_def dint_def del: of_int_abs)
qed

definition side_basis :: "int \<Rightarrow> bool \<Rightarrow> basis \<Rightarrow> (string, int) dict" where
  "side_basis e up basis = map (\<lambda>(ow, s). (ow, \<bar>lots_in e s\<bar>)) (filter (\<lambda>(ow, s). (0 < s) = up) basis)"

lemma lots_small: "lot_basis e basis \<Longrightarrow> (ow, s) \<in> set basis \<Longrightarrow> \<bar>lots_in e s\<bar> < 10 ^ 28"
proof -
  assume ok: "lot_basis e basis" and mem: "(ow, s) \<in> set basis"
  have "\<bar>lots_in e s\<bar> \<le> (\<Sum>(ow, s) \<leftarrow> basis. \<bar>lots_in e s\<bar>)"
    using mem by (intro member_le_sum_list) force+
  with ok show ?thesis by (simp add: lot_basis_def)
qed

lemma fst_side_basis: "fst ` set (side_basis e up basis) = {ow. \<exists>s. (ow, s) \<in> set basis \<and> (0 < s) = up}"
  by (force simp: side_basis_def)

lemma dict_ok_side_basis: "lot_basis e basis \<Longrightarrow> dict_ok (side_basis e up basis)"
proof -
  assume "lot_basis e basis"
  then have "distinct (map fst basis)" by (simp add: lot_basis_def)
  then have "distinct (map fst (filter (\<lambda>(ow, s). (0 < s) = up) basis))" by (rule distinct_map_filter)
  then show ?thesis by (simp add: side_basis_def dict_ok_def comp_def case_prod_beta)
qed

lemma side_lots_basis:
  assumes "lot_basis e basis"
  shows "side_lots (pow10 e) up basis = Inr (side_basis e up basis)"
proof -
  have "traverse (\<lambda>(ow, s). bind_res (lots_of (pow10 e) s) (\<lambda>n. Inr (ow, n)))
      (filter (\<lambda>(ow, s). (0 < s) = up) basis) = Inr (side_basis e up basis)"
    unfolding side_basis_def
    by (rule traverse_total) (use assms lots_small [OF assms] in \<open>force simp: lots_of_whole lot_basis_def\<close>)
  then show ?thesis
    using dict_ok_side_basis [OF assms] by (simp add: side_lots_def dict_of_distinct dict_ok_def)
qed

lemma whole_sign: "whole_lots e s \<Longrightarrow> 0 < lots_in e s \<longleftrightarrow> 0 < s"
  unfolding whole_lots_def by (metis mult_pos_pos of_int_0_less_iff pow10_pos zero_less_mult_pos2)

lemma side_nets:
  "\<forall>s \<in> snd ` set basis. whole_lots e s \<Longrightarrow>
    sum_list (map snd (side_basis e True basis)) - sum_list (map snd (side_basis e False basis)) = net_lots e basis"
proof (induction basis)
  case Nil
  then show ?case by (simp add: side_basis_def net_lots_def)
next
  case (Cons x xs)
  then show ?case using whole_sign [of e "snd x"]
    by (cases x) (force simp: side_basis_def net_lots_def)
qed

section \<open>Total moves, in lots\<close>

abbreviation merge_dict :: "(string, int) dict \<Rightarrow> (string, int) dict \<Rightarrow> (string, int) dict" where
  "merge_dict d d' \<equiv> foldl (\<lambda>d (k, v). AList.update k v d) d d'"

lemma dget_merge:
  "dict_ok d' \<Longrightarrow> dget (merge_dict d d') k v = (if k \<in> fst ` set d' then dget d' k v else dget d k v)"
proof (induction d' rule: rev_induct)
  case Nil
  then show ?case by simp
next
  case (snoc x xs)
  obtain a b where x: "x = (a, b)" by (cases x)
  from snoc.prems have "dict_ok xs" and a: "a \<notin> fst ` set xs" by (auto simp: x dict_ok_def)
  then have none: "map_of xs a = None" by (simp add: map_of_eq_None_iff)
  have "dget (xs @ [x]) k v = (if k = a then b else dget xs k v)"
    using none by (auto simp: x dget_def map_add_def split: option.splits)
  with snoc.IH [OF \<open>dict_ok xs\<close>] a show ?case by (simp add: x)
qed

text \<open>The side that holds the net moves at least as fast as the fill, the other at most.\<close>

lemma moved_share:
  assumes "0 < w - (a::int)" "0 \<le> a" "0 \<le> f" "f \<le> w - a"
  shows "w * f div (w - a) = f + a * f div (w - a)" and "0 \<le> a * f div (w - a)"
    and "a * f div (w - a) \<le> a" and "f = w - a \<Longrightarrow> a * f div (w - a) = a"
proof -
  have "w * f = a * f + f * (w - a)" by (simp add: algebra_simps)
  then show "w * f div (w - a) = f + a * f div (w - a)"
    using assms(1) by simp
  show "0 \<le> a * f div (w - a)" using assms by (simp add: pos_imp_zdiv_nonneg_iff)
  have "a * f div (w - a) \<le> a * (w - a) div (w - a)"
    using assms by (intro zdiv_mono1 mult_left_mono) auto
  then show "a * f div (w - a) \<le> a" using assms(1) by simp
  show "f = w - a \<Longrightarrow> a * f div (w - a) = a" using assms(1) by simp
qed

definition side_total :: "int \<Rightarrow> bool \<Rightarrow> basis \<Rightarrow> int" where
  "side_total e up basis = sum_list (map snd (side_basis e up basis))"

definition against_moved :: "int \<Rightarrow> basis \<Rightarrow> int \<Rightarrow> int" where
  "against_moved e basis f =
     (let up = 0 < net_lots e basis; w = side_total e up basis; a = side_total e (\<not> up) basis
      in a * f div (w - a))"

lemma side_total_nonneg: "0 \<le> side_total e up basis"
  by (auto simp: side_total_def side_basis_def intro!: sum_list_nonneg)

lemma side_totals:
  assumes "lot_basis e basis"
  defines "up \<equiv> 0 < net_lots e basis"
  shows "side_total e up basis - side_total e (\<not> up) basis = \<bar>net_lots e basis\<bar>"
proof -
  have net: "side_total e True basis - side_total e False basis = net_lots e basis"
    using side_nets [of basis e] assms(1) by (simp add: side_total_def lot_basis_def)
  show ?thesis by (cases up) (use net in \<open>auto simp: up_def\<close>)
qed

lemma against_moved_bounds:
  assumes "lot_basis e basis" "net_lots e basis \<noteq> 0" "0 \<le> f" "f \<le> \<bar>net_lots e basis\<bar>"
  defines "up \<equiv> 0 < net_lots e basis"
  shows "side_total e up basis * f div (side_total e up basis - side_total e (\<not> up) basis)
      = f + against_moved e basis f"
    and "0 \<le> against_moved e basis f" "against_moved e basis f \<le> side_total e (\<not> up) basis"
    and "f = \<bar>net_lots e basis\<bar> \<Longrightarrow> against_moved e basis f = side_total e (\<not> up) basis"
  using moved_share [of "side_total e up basis" "side_total e (\<not> up) basis" f]
    side_totals [OF assms(1)] side_total_nonneg assms(2-4)
  unfolding up_def against_moved_def Let_def by simp_all

lemma against_moved_mono:
  assumes "lot_basis e basis" "net_lots e basis \<noteq> 0" "f \<le> f'"
  shows "against_moved e basis f \<le> against_moved e basis f'"
  using side_totals [OF assms(1)] side_total_nonneg assms(2,3) unfolding against_moved_def Let_def
  by (intro zdiv_mono1 mult_left_mono) auto

definition moved :: "int \<Rightarrow> basis \<Rightarrow> int \<Rightarrow> string \<Rightarrow> int" where
  "moved e basis f ow =
     (let up = 0 < net_lots e basis; n = against_moved e basis f
      in case hand_out (side_basis e up basis) (f + n) of
        Inl _ \<Rightarrow> 0
      | Inr g \<Rightarrow> (case hand_out (side_basis e (\<not> up) basis) n of
          Inl _ \<Rightarrow> 0 | Inr g' \<Rightarrow> dget (merge_dict g g') ow 0))"

lemma side_basis_nonneg: "0 \<le> dget (side_basis e up basis) ow 0"
  by (auto simp: dget_def side_basis_def split: option.split dest!: map_of_SomeD)

text \<open>Both hand-outs exist, and \<open>moved\<close> reads the one of the owner's side.\<close>

lemma moved_hands:
  assumes "lot_basis e basis" "net_lots e basis \<noteq> 0" "0 \<le> f" "f \<le> \<bar>net_lots e basis\<bar>"
  defines "up \<equiv> 0 < net_lots e basis"
  obtains g g' where
    "hand_out (side_basis e up basis) (f + against_moved e basis f) = Inr g"
    "hand_ok (side_basis e up basis) (f + against_moved e basis f) g"
    "hand_out (side_basis e (\<not> up) basis) (against_moved e basis f) = Inr g'"
    "hand_ok (side_basis e (\<not> up) basis) (against_moved e basis f) g'"
    "\<And>ow s. (ow, s) \<in> set basis \<Longrightarrow>
       moved e basis f ow = (if (0 < s) = up then dget g ow 0 else dget g' ow 0)"
    "\<And>ow s. (ow, s) \<in> set basis \<Longrightarrow> dget (merge_dict g g') ow 0 = moved e basis f ow"
proof -
  note ok = dict_ok_side_basis [OF assms(1)]
  note b = against_moved_bounds [OF assms(1-4), folded up_def]
  have "f + against_moved e basis f \<le> side_total e up basis"
    using side_totals [OF assms(1), folded up_def] b(3) assms(4) by linarith
  then obtain g where g: "hand_out (side_basis e up basis) (f + against_moved e basis f) = Inr g"
    "hand_ok (side_basis e up basis) (f + against_moved e basis f) g"
    using hand_out_ok [OF ok [of up], of "f + against_moved e basis f"] side_basis_nonneg b(2) assms(3)
    unfolding side_total_def by auto
  obtain g' where g': "hand_out (side_basis e (\<not> up) basis) (against_moved e basis f) = Inr g'"
    "hand_ok (side_basis e (\<not> up) basis) (against_moved e basis f) g'"
    using hand_out_ok [OF ok [of "\<not> up"], of "against_moved e basis f"] side_basis_nonneg b(2,3)
    unfolding side_total_def by auto
  have keys: "map fst g' = map fst (side_basis e (\<not> up) basis)" using g'(2) by (simp add: hand_ok_def)
  then have "dict_ok g'" using ok [of "\<not> up"] by (simp add: dict_ok_def)
  moreover have "fst ` set g' = {ow. \<exists>s. (ow, s) \<in> set basis \<and> (0 < s) = (\<not> up)}"
    using keys fst_side_basis [of e "\<not> up" basis] unfolding list.set_map [symmetric] by simp
  moreover have "(ow, s) \<in> set basis \<Longrightarrow> (ow, s') \<in> set basis \<Longrightarrow> s = s'" for ow s s'
    using assms(1) eq_key_imp_eq_value [of basis] by (auto simp: lot_basis_def)
  ultimately have m: "(ow, s) \<in> set basis \<Longrightarrow>
      dget (merge_dict g g') ow 0 = (if (0 < s) = up then dget g ow 0 else dget g' ow 0)" for ow s
    by (auto simp: dget_merge)
  show ?thesis
    by (rule that [OF g g']) (simp_all add: moved_def Let_def g(1) g'(1) m flip: up_def)
qed

definition toward_zero :: "decimal \<Rightarrow> int" where
  "toward_zero s = (if 0 < s then - 1 else 1)"

lemma sum_by_side:
  "(\<Sum>(ow, s) \<leftarrow> basis. toward_zero s * (if (0 < s) = up then f ow else g ow)) =
    (if up then - 1 else 1) * ((\<Sum>(ow, s) \<leftarrow> filter (\<lambda>(ow, s). (0 < s) = up) basis. f ow)
      - (\<Sum>(ow, s) \<leftarrow> filter (\<lambda>(ow, s). (0 < s) = (\<not> up)) basis. g ow))"
  by (induction basis) (auto simp: toward_zero_def algebra_simps)

lemma hand_sum:
  assumes "lot_basis e basis" "hand_ok (side_basis e up basis) n g"
  shows "(\<Sum>(ow, s) \<leftarrow> filter (\<lambda>(ow, s). (0 < s) = up) basis. dget g ow 0) = n"
proof -
  have keys: "map fst g = map fst (side_basis e up basis)" using assms(2) by (simp add: hand_ok_def)
  then have "dict_ok g" using dict_ok_side_basis [OF assms(1)] by (simp add: dict_ok_def)
  then have "sum_list (map snd g) = (\<Sum>k \<leftarrow> map fst g. dget g k 0)"
    by (rule arg_cong [OF map_snd_dget])
  moreover have "sum_list (map snd g) = n" using assms(2) by (simp add: hand_ok_def)
  ultimately have "n = (\<Sum>k \<leftarrow> map fst g. dget g k 0)" by (simp only:)
  then show ?thesis unfolding keys by (simp add: side_basis_def comp_def case_prod_unfold)
qed

lemma moved_sum:
  assumes "lot_basis e basis" "net_lots e basis \<noteq> 0" "0 \<le> f" "f \<le> \<bar>net_lots e basis\<bar>"
  shows "(\<Sum>(ow, s) \<leftarrow> basis. toward_zero s * moved e basis f ow) = (if 0 < net_lots e basis then - f else f)"
proof -
  define up where "up \<longleftrightarrow> 0 < net_lots e basis"
  obtain g g' where g: "hand_ok (side_basis e up basis) (f + against_moved e basis f) g"
    and g': "hand_ok (side_basis e (\<not> up) basis) (against_moved e basis f) g'"
    and m: "\<And>ow s. (ow, s) \<in> set basis \<Longrightarrow>
       moved e basis f ow = (if (0 < s) = up then dget g ow 0 else dget g' ow 0)"
    using moved_hands [OF assms] unfolding up_def by metis
  have "(\<Sum>(ow, s) \<leftarrow> basis. toward_zero s * moved e basis f ow) =
      (\<Sum>(ow, s) \<leftarrow> basis. toward_zero s * (if (0 < s) = up then dget g ow 0 else dget g' ow 0))"
    by (rule arg_cong [where f = sum_list], rule map_cong) (auto simp: m)
  also have "\<dots> = (if up then - 1 else 1) * ((f + against_moved e basis f) - against_moved e basis f)"
    unfolding sum_by_side hand_sum [OF assms(1) g] hand_sum [OF assms(1) g'] ..
  finally show ?thesis by (simp add: up_def)
qed

lemma side_basis_get:
  "lot_basis e basis \<Longrightarrow> (ow, s) \<in> set basis \<Longrightarrow> dget (side_basis e (0 < s) basis) ow 0 = \<bar>lots_in e s\<bar>"
  by (rule dget_in [OF dict_ok_side_basis]) (auto simp: side_basis_def intro!: image_eqI [where x = "(ow, s)"])

lemma moved_bounds:
  assumes "lot_basis e basis" "net_lots e basis \<noteq> 0" "0 \<le> f" "f \<le> \<bar>net_lots e basis\<bar>"
    and mem: "(ow, s) \<in> set basis"
  shows "0 \<le> moved e basis f ow" "moved e basis f ow \<le> \<bar>lots_in e s\<bar>"
    and "f = \<bar>net_lots e basis\<bar> \<Longrightarrow> moved e basis f ow = \<bar>lots_in e s\<bar>"
proof -
  define up where "up \<longleftrightarrow> 0 < net_lots e basis"
  obtain g g' where g: "hand_ok (side_basis e up basis) (f + against_moved e basis f) g"
    and g': "hand_ok (side_basis e (\<not> up) basis) (against_moved e basis f) g'"
    and m: "moved e basis f ow = (if (0 < s) = up then dget g ow 0 else dget g' ow 0)"
    using moved_hands [OF assms(1-4)] mem unfolding up_def by metis
  note get = side_basis_get [OF assms(1) mem]
  have le: "dget g ow 0 \<le> dget (side_basis e up basis) ow 0"
    "dget g' ow 0 \<le> dget (side_basis e (\<not> up) basis) ow 0" using g g' by (simp_all add: hand_ok_def)
  show "0 \<le> moved e basis f ow" using g g' m by (auto simp: hand_ok_def)
  show "moved e basis f ow \<le> \<bar>lots_in e s\<bar>"
    using le m get by (cases "0 < s"; cases up) simp_all
  show "moved e basis f ow = \<bar>lots_in e s\<bar>" if full: "f = \<bar>net_lots e basis\<bar>"
  proof -
    have n: "against_moved e basis f = side_total e (\<not> up) basis"
      using against_moved_bounds(4) [OF assms(1-4) full] by (simp add: up_def)
    then have "f + against_moved e basis f = side_total e up basis"
      using side_totals [OF assms(1)] full by (simp add: up_def)
    then have "dget g ow 0 = dget (side_basis e up basis) ow 0"
      "dget g' ow 0 = dget (side_basis e (\<not> up) basis) ow 0"
      using hand_ok_full [OF dict_ok_side_basis [OF assms(1)]] g g' n by (simp_all add: side_total_def)
    with m get show ?thesis by (cases "0 < s"; cases up) simp_all
  qed
qed

lemma moved_mono:
  assumes "lot_basis e basis" "net_lots e basis \<noteq> 0" "0 \<le> f" "f \<le> f'" "f' \<le> \<bar>net_lots e basis\<bar>"
    and mem: "(ow, s) \<in> set basis"
  shows "moved e basis f ow \<le> moved e basis f' ow"
proof -
  define up where "up \<longleftrightarrow> 0 < net_lots e basis"
  have f': "0 \<le> f'" and f: "f \<le> \<bar>net_lots e basis\<bar>" using assms(3-5) by auto
  obtain g g' where g: "hand_out (side_basis e up basis) (f + against_moved e basis f) = Inr g"
      "hand_out (side_basis e (\<not> up) basis) (against_moved e basis f) = Inr g'"
    and m: "moved e basis f ow = (if (0 < s) = up then dget g ow 0 else dget g' ow 0)"
    using moved_hands [OF assms(1-3) f] mem unfolding up_def by metis
  obtain h h' where h: "hand_out (side_basis e up basis) (f' + against_moved e basis f') = Inr h"
      "hand_out (side_basis e (\<not> up) basis) (against_moved e basis f') = Inr h'"
    and m': "moved e basis f' ow = (if (0 < s) = up then dget h ow 0 else dget h' ow 0)"
    using moved_hands [OF assms(1,2) f' assms(5)] mem unfolding up_def by metis
  note ok = dict_ok_side_basis [OF assms(1)]
  note b = against_moved_bounds [OF assms(1-3) f, folded up_def]
    against_moved_bounds [OF assms(1,2) f' assms(5), folded up_def] against_moved_mono [OF assms(1,2,4)]
  have "dget g' ow 0 \<le> dget h' ow 0"
    by (rule hand_out_mono [OF ok _ _ _ _ g(2) h(2)]) (use b in \<open>auto simp: side_basis_nonneg side_total_def\<close>)
  moreover have "dget g ow 0 \<le> dget h ow 0"
  proof (rule hand_out_mono [OF ok _ _ _ _ g(1) h(1)])
    show "f' + against_moved e basis f' \<le> sum_list (map snd (side_basis e up basis))"
      using b(7) side_totals [OF assms(1), folded up_def] assms(5) by (simp add: side_total_def)
  qed (use b assms(3,4) in \<open>auto simp: side_basis_nonneg\<close>)
  ultimately show ?thesis using m m' by simp
qed

lemma hand_out_zero: "hand_out lots 0 = Inr g \<Longrightarrow> dget g ow 0 = 0"
  by (auto simp: hand_out_def)

lemma moved_zero:
  assumes "lot_basis e basis" "net_lots e basis \<noteq> 0" "(ow, s) \<in> set basis"
  shows "moved e basis 0 ow = 0"
proof -
  have zero: "against_moved e basis 0 = 0" by (simp add: against_moved_def Let_def)
  define up where "up \<longleftrightarrow> 0 < net_lots e basis"
  have f: "0 \<le> (0::int)" "0 \<le> \<bar>net_lots e basis\<bar>" by simp_all
  obtain g g' where "hand_out (side_basis e up basis) (0 + against_moved e basis 0) = Inr g"
      "hand_out (side_basis e (\<not> up) basis) (against_moved e basis 0) = Inr g'"
      "moved e basis 0 ow = (if (0 < s) = up then dget g ow 0 else dget g' ow 0)"
    using moved_hands [OF assms(1,2) f] assms(3) unfolding up_def by metis
  then show ?thesis using hand_out_zero by (simp add: zero)
qed

lemma ddiv_lots: "\<bar>n\<bar> < 10 ^ 28 \<Longrightarrow> ddiv (of_int n * pow10 e) (pow10 e) = Inr (of_int n)"
  using fits_of_int [of n] by (simp add: ddiv_def fits_def)

lemma net_small: "lot_basis e basis \<Longrightarrow> \<bar>net_lots e basis\<bar> < 10 ^ 28"
  using abs_sum_list_le [of "lots_in e" basis] by (simp add: lot_basis_def net_lots_def)

lemma dsum_basis: "lot_basis e basis \<Longrightarrow> dsum (map snd basis) = of_int (net_lots e basis) * pow10 e"
  by (rule dsum_lots) (simp_all add: lot_basis_def)

definition move_of :: "int \<Rightarrow> basis \<Rightarrow> int \<Rightarrow> string \<times> decimal \<Rightarrow> int" where
  "move_of e basis f = (\<lambda>(ow, s). toward_zero s * moved e basis f ow)"

lemma move_of_small:
  assumes "lot_basis e basis" "net_lots e basis \<noteq> 0" "0 \<le> f" "f \<le> \<bar>net_lots e basis\<bar>" "p \<in> set basis"
  shows "\<bar>move_of e basis f p\<bar> < 10 ^ 28"
proof -
  obtain ow s where p: "p = (ow, s)" by (cases p)
  have "\<bar>move_of e basis f p\<bar> = \<bar>moved e basis f ow\<bar>" by (simp add: p move_of_def toward_zero_def)
  with moved_bounds [OF assms(1-4)] lots_small [OF assms(1)] assms(5) show ?thesis by (force simp: p)
qed

theorem total_moves_lots:
  assumes "lot_basis e basis" "net_lots e basis \<noteq> 0" "0 \<le> f" "f \<le> \<bar>net_lots e basis\<bar>"
  shows "total_moves basis (pow10 e) (of_int f * pow10 e) =
    Inr (map (\<lambda>p. (fst p, of_int (move_of e basis f p) * pow10 e)) basis)"
proof -
  define up where "up \<longleftrightarrow> 0 < net_lots e basis"
  obtain g g' where hands: "hand_out (side_basis e up basis) (f + against_moved e basis f) = Inr g"
      "hand_out (side_basis e (\<not> up) basis) (against_moved e basis f) = Inr g'"
    and m: "\<And>ow s. (ow, s) \<in> set basis \<Longrightarrow> dget (merge_dict g g') ow 0 = moved e basis f ow"
    using moved_hands [OF assms] unfolding up_def by metis
  let ?w = "side_total e up basis" and ?a = "side_total e (\<not> up) basis"
  have "0 < dsum (map snd basis) \<longleftrightarrow> up"
    using pow10_pos [of e] by (simp add: dsum_basis [OF assms(1)] up_def zero_less_mult_iff not_less less_imp_le del: pow10_pos)
  moreover have "?w * f div (?w - ?a) = f + against_moved e basis f" "?w - ?a \<noteq> 0"
    using against_moved_bounds(1) [OF assms, folded up_def] side_totals [OF assms(1), folded up_def] assms(2) by auto
  moreover have "ddiv (of_int f * pow10 e) (pow10 e) = Inr (of_int f)"
    using assms(3,4) net_small [OF assms(1)] by (intro ddiv_lots) linarith
  moreover have "map (\<lambda>(ow, size). (ow, dmul (of_int ((if 0 < size then - 1 else 1) * dget (merge_dict g g') ow 0)) (pow10 e))) basis
      = map (\<lambda>p. (fst p, of_int (move_of e basis f p) * pow10 e)) basis"
  proof (rule map_cong [OF refl])
    fix p assume p: "p \<in> set basis"
    obtain ow s where os: "p = (ow, s)" by (cases p)
    have "move_of e basis f p = (if 0 < s then - 1 else 1) * dget (merge_dict g g') ow 0"
      using m p by (simp add: os move_of_def toward_zero_def)
    then show "(\<lambda>(ow, size). (ow, dmul (of_int ((if 0 < size then - 1 else 1) * dget (merge_dict g g') ow 0)) (pow10 e))) p
        = (fst p, of_int (move_of e basis f p) * pow10 e)"
      using fits_scaled [OF move_of_small [OF assms p], of e] by (simp add: os dec_exact del: of_int_mult)
  qed
  moreover have "distinct (map fst (map (\<lambda>p. (fst p, of_int (move_of e basis f p) * pow10 e :: decimal)) basis))"
    using assms(1) by (simp add: lot_basis_def comp_def)
  ultimately show ?thesis
    using hands unfolding total_moves_def Let_def
    by (simp add: side_lots_basis [OF assms(1)] dint_def dict_of_distinct side_total_def
        del: map_map of_int_mult map_eq_conv)
qed

section \<open>One fill, and a run of fills\<close>

definition piece :: "int \<Rightarrow> basis \<Rightarrow> int \<Rightarrow> int \<Rightarrow> string \<times> decimal \<Rightarrow> rat" where
  "piece e basis f f' p = of_int (move_of e basis f' p - move_of e basis f p) * pow10 e"

lemma piece_bounds:
  assumes "lot_basis e basis" "net_lots e basis \<noteq> 0" "0 \<le> f" "f \<le> f'" "f' \<le> \<bar>net_lots e basis\<bar>"
    and mem: "(ow, s) \<in> set basis"
  shows "0 \<le> of_int (toward_zero s) * piece e basis f f' (ow, s)" "\<bar>piece e basis f f' (ow, s)\<bar> \<le> \<bar>s\<bar>"
    and "fits (piece e basis f f' (ow, s))"
proof -
  have f': "0 \<le> f'" and f: "f \<le> \<bar>net_lots e basis\<bar>" using assms(3-5) by auto
  define d where "d = moved e basis f' ow - moved e basis f ow"
  have d: "0 \<le> d" "d \<le> \<bar>lots_in e s\<bar>"
    using moved_mono [OF assms] moved_bounds [OF assms(1-3) f mem] moved_bounds [OF assms(1,2) f' assms(5) mem]
    by (simp_all add: d_def)
  have p: "piece e basis f f' (ow, s) = of_int (toward_zero s * d) * pow10 e"
    by (simp add: piece_def move_of_def d_def algebra_simps)
  have unit: "toward_zero s * toward_zero s = 1" "\<bar>toward_zero s\<bar> = 1" by (simp_all add: toward_zero_def)
  have "of_int (toward_zero s) * piece e basis f f' (ow, s) = of_int (toward_zero s * toward_zero s * d) * pow10 e"
    unfolding p by (simp add: mult.assoc)
  then show "0 \<le> of_int (toward_zero s) * piece e basis f f' (ow, s)"
    using d(1) unit by (simp only: mult_1) simp
  have "whole_lots e s" using assms(1) mem by (auto simp: lot_basis_def)
  then have "\<bar>s\<bar> = of_int \<bar>lots_in e s\<bar> * pow10 e"
    unfolding whole_lots_def by (metis abs_mult abs_of_pos of_int_abs pow10_pos)
  moreover have "\<bar>piece e basis f f' (ow, s)\<bar> = of_int d * pow10 e"
    unfolding p abs_mult abs_of_pos [OF pow10_pos] using unit d(1) by (simp flip: of_int_abs add: abs_mult)
  ultimately show "\<bar>piece e basis f f' (ow, s)\<bar> \<le> \<bar>s\<bar>"
    using d(2) by (simp only: mult_right_mono of_int_le_iff pow10_nonneg)
  have "\<bar>toward_zero s * d\<bar> < 10 ^ 28" using d lots_small [OF assms(1) mem] unit by (simp add: abs_mult)
  then show "fits (piece e basis f f' (ow, s))" unfolding p by (rule fits_scaled)
qed

lemma sum_scaled_diff:
  "(\<Sum>x \<leftarrow> xs. of_int (f x - g x) * k) = (of_int ((\<Sum>x \<leftarrow> xs. f x) - (\<Sum>x \<leftarrow> xs. g x)) * k :: rat)"
  by (induction xs) (simp_all add: algebra_simps)

lemma sum_nonzero:
  "sum_list (map snd (filter (\<lambda>(ow, x). x \<noteq> 0) (map (\<lambda>p. (fst p, g p)) xs))) = (\<Sum>p \<leftarrow> xs. g p :: rat)"
  by (induction xs) auto

lemma piece_sum:
  assumes "lot_basis e basis" "net_lots e basis \<noteq> 0" "0 \<le> f" "f \<le> f'" "f' \<le> \<bar>net_lots e basis\<bar>"
  shows "(\<Sum>p \<leftarrow> basis. piece e basis f f' p) = (if 0 < net_lots e basis then - 1 else 1) * of_int (f' - f) * pow10 e"
proof -
  have f': "0 \<le> f'" and f: "f \<le> \<bar>net_lots e basis\<bar>" using assms(3-5) by auto
  have "(\<Sum>p \<leftarrow> basis. piece e basis f f' p) =
      of_int ((\<Sum>p \<leftarrow> basis. move_of e basis f' p) - (\<Sum>p \<leftarrow> basis. move_of e basis f p)) * pow10 e"
    unfolding piece_def by (rule sum_scaled_diff)
  moreover have "(\<Sum>p \<leftarrow> basis. move_of e basis f' p) = (if 0 < net_lots e basis then - f' else f')"
    "(\<Sum>p \<leftarrow> basis. move_of e basis f p) = (if 0 < net_lots e basis then - f else f)"
    using moved_sum [OF assms(1-3) f] moved_sum [OF assms(1,2) f' assms(5)] by (simp_all add: move_of_def)
  ultimately show ?thesis by (cases "0 < net_lots e basis") (simp_all add: algebra_simps)
qed

lemma flatten_split_net:
  assumes "lot_basis e basis" "flatten_split basis (pow10 e) (of_int c * pow10 e) quantity fee = Inr moves"
  shows "net_lots e basis \<noteq> 0" "c \<le> \<bar>net_lots e basis\<bar>"
proof -
  have net: "dsum (map snd basis) = of_int (net_lots e basis) * pow10 e" by (rule dsum_basis [OF assms(1)])
  show "net_lots e basis \<noteq> 0" using assms(2) by (auto simp: flatten_split_def Let_def net split: if_splits)
  have "dabs (dsum (map snd basis)) = of_int \<bar>net_lots e basis\<bar> * pow10 e"
    unfolding net using fits_scaled [OF net_small [OF assms(1)]]
    by (simp add: dec_exact abs_mult)
  moreover have "\<not> dabs (dsum (map snd basis)) < of_int c * pow10 e"
    using assms(2) by (auto simp: flatten_split_def Let_def split: if_splits)
  ultimately show "c \<le> \<bar>net_lots e basis\<bar>"
    unfolding not_less using pow10_pos [of e] by (simp only: mult_le_cancel_right_pos of_int_le_iff)
qed

lemma flatten_split_sizes:
  assumes "lot_basis e basis" "0 \<le> f" "f \<le> c"
    and "flatten_split basis (pow10 e) (of_int c * pow10 e) (of_int (c - f) * pow10 e) fee = Inr moves"
  shows "map (\<lambda>(ow, m). (ow, pm_size m)) moves =
    filter (\<lambda>(ow, x). x \<noteq> 0) (map (\<lambda>p. (fst p, piece e basis f c p)) basis)"
proof -
  note net = flatten_split_net [OF assms(1,4)]
  have c: "0 \<le> c" and f: "f \<le> \<bar>net_lots e basis\<bar>" using assms(2,3) net(2) by auto
  have "fits (of_int f * pow10 e)" using f assms(2) net_small [OF assms(1)] by (intro fits_scaled) linarith
  then have cum: "dsub (of_int c * pow10 e) (of_int (c - f) * pow10 e) = of_int f * pow10 e"
    using dec_exact(2) [of "of_int c * pow10 e" "of_int (c - f) * pow10 e"] by (simp add: left_diff_distrib [symmetric])
  define before where "before = map (\<lambda>p. (fst p, of_int (move_of e basis f p) * pow10 e :: decimal)) basis"
  define sizes where "sizes = filter (\<lambda>(ow, x). x \<noteq> 0) (map (\<lambda>p. (fst p, piece e basis f c p)) basis)"
  have keys: "dict_ok before" using assms(1) by (simp add: before_def lot_basis_def dict_ok_def comp_def)
  have diff: "map (\<lambda>(ow, x). (ow, dsub x (dget before ow 0)))
      (map (\<lambda>p. (fst p, of_int (move_of e basis c p) * pow10 e)) basis) = map (\<lambda>p. (fst p, piece e basis f c p)) basis"
    unfolding map_map
  proof (rule map_cong [OF refl])
    fix p assume p: "p \<in> set basis"
    have "dget before (fst p) 0 = of_int (move_of e basis f p) * pow10 e"
      by (rule dget_in [OF keys]) (use p in \<open>simp add: before_def\<close>)
    moreover have "fits (piece e basis f c p)"
      using piece_bounds(3) [OF assms(1) net(1) assms(2,3) net(2)] p by (cases p) auto
    ultimately show "((\<lambda>(ow, x). (ow, dsub x (dget before ow 0))) \<circ> (\<lambda>p. (fst p, of_int (move_of e basis c p) * pow10 e))) p
        = (fst p, piece e basis f c p)"
      using dec_exact(2) [of "of_int (move_of e basis c p) * pow10 e" "of_int (move_of e basis f p) * pow10 e"]
      by (simp add: piece_def left_diff_distrib)
  qed
  have tb: "total_moves basis (pow10 e) (of_int f * pow10 e) = Inr before"
    unfolding before_def by (rule total_moves_lots [OF assms(1) net(1) assms(2) f])
  have ta: "total_moves basis (pow10 e) (of_int c * pow10 e) =
      Inr (map (\<lambda>p. (fst p, of_int (move_of e basis c p) * pow10 e)) basis)"
    by (rule total_moves_lots [OF assms(1) net(1) c net(2)])
  show ?thesis
    using assms(4) unfolding flatten_split_def Let_def cum tb ta bind_res_simps diff sizes_def [symmetric]
    by (auto simp: bind_res_eq_Inr comp_def case_prod_unfold split: if_splits)
qed

text \<open>The fills of one flatten order, in the order they arrive.\<close>

fun split_run ::
  "basis \<Rightarrow> decimal \<Rightarrow> decimal \<Rightarrow> (decimal \<times> decimal) list \<Rightarrow> (string, partition_move) dict list res" where
  "split_run basis lot cum [] = Inr []"
| "split_run basis lot cum ((quantity, fee) # fills) =
     bind_res (flatten_split basis lot (dadd cum quantity) quantity fee) (\<lambda>m.
     bind_res (split_run basis lot (dadd cum quantity) fills) (\<lambda>ms. Inr (m # ms)))"

definition size_moved :: "(string, partition_move) dict \<Rightarrow> string \<Rightarrow> rat" where
  "size_moved m ow = (case map_of m ow of None \<Rightarrow> 0 | Some x \<Rightarrow> pm_size x)"

lemma size_moved_map: "size_moved m ow = dget (map (\<lambda>(ow, m). (ow, pm_size m)) m) ow 0"
  by (induction m) (auto simp: size_moved_def dget_def split: prod.split option.splits)

lemma dget_filter_nonzero:
  "distinct (map fst d) \<Longrightarrow> dget (filter (\<lambda>(ow, x). x \<noteq> 0) d) ow 0 = (dget d ow 0 :: rat)"
proof (induction d)
  case (Cons a d)
  then have "fst a \<notin> fst ` set (filter (\<lambda>(ow, x). x \<noteq> 0) d)" by auto
  then have "map_of (filter (\<lambda>(ow, x). x \<noteq> 0) d) (fst a) = None" by (simp add: map_of_eq_None_iff)
  with Cons show ?case by (cases a) (auto simp: dget_def)
qed simp

lemma size_moved_piece:
  assumes "lot_basis e basis" "0 \<le> f" "f \<le> c" "(ow, s) \<in> set basis"
    and "flatten_split basis (pow10 e) (of_int c * pow10 e) (of_int (c - f) * pow10 e) fee = Inr moves"
  shows "size_moved moves ow = piece e basis f c (ow, s)"
proof -
  have d: "distinct (map fst basis)" using assms(1) by (simp add: lot_basis_def)
  then have "dict_ok (map (\<lambda>p. (fst p, piece e basis f c p)) basis)" by (simp add: dict_ok_def comp_def)
  then have "dget (map (\<lambda>p. (fst p, piece e basis f c p)) basis) ow 0 = piece e basis f c (ow, s)"
    by (rule dget_in) (use assms(4) in force)
  moreover have "distinct (map fst (map (\<lambda>p. (fst p, piece e basis f c p)) basis))"
    using d by (simp add: comp_def)
  ultimately show ?thesis
    unfolding size_moved_map flatten_split_sizes [OF assms(1-3,5)] by (simp only: dget_filter_nonzero)
qed

definition lot_fills :: "int \<Rightarrow> (decimal \<times> decimal) list \<Rightarrow> bool" where
  "lot_fills e fills \<longleftrightarrow> (\<forall>(quantity, fee) \<in> set fills. whole_lots e quantity \<and> 0 < quantity)"

definition filled_lots :: "int \<Rightarrow> (decimal \<times> decimal) list \<Rightarrow> int" where
  "filled_lots e fills = (\<Sum>(quantity, fee) \<leftarrow> fills. lots_in e quantity)"

lemma filled_lots_nonneg: "lot_fills e fills \<Longrightarrow> 0 \<le> filled_lots e fills"
  by (induction fills) (auto simp: lot_fills_def filled_lots_def)

lemma split_run_moves:
  assumes "lot_basis e basis" "0 \<le> f" "lot_fills e fills"
    "f + filled_lots e fills < 10 ^ 28" "(ow, s) \<in> set basis"
    and "split_run basis (pow10 e) (of_int f * pow10 e) fills = Inr ms"
  shows "(\<Sum>m \<leftarrow> ms. size_moved m ow) = piece e basis f (f + filled_lots e fills) (ow, s)"
  using assms(2-4,6)
proof (induction fills arbitrary: f ms)
  case Nil
  then show ?case by (simp add: piece_def filled_lots_def)
next
  case (Cons x fills)
  obtain quantity fee where x: "x = (quantity, fee)" by (cases x)
  define c where "c = f + lots_in e quantity"
  have q: "quantity = of_int (c - f) * pow10 e" and pos: "0 < c - f"
    using Cons.prems(2) whole_sign [of e quantity] by (auto simp: x lot_fills_def whole_lots_def c_def)
  have rest: "0 \<le> filled_lots e fills" "lot_fills e fills"
    using Cons.prems(2) filled_lots_nonneg [of e fills] by (auto simp: lot_fills_def)
  have all: "f + filled_lots e (x # fills) = c + filled_lots e fills"
    by (simp add: x c_def filled_lots_def)
  have "fits (of_int c * pow10 e)"
    using Cons.prems(1,3) pos rest(1) by (intro fits_scaled) (simp add: all)
  then have cum: "dadd (of_int f * pow10 e) quantity = of_int c * pow10 e"
    using dec_exact(1) [of "of_int f * pow10 e" quantity] by (simp add: q left_diff_distrib)
  from Cons.prems(4) obtain m ms' where
    m: "flatten_split basis (pow10 e) (of_int c * pow10 e) quantity fee = Inr m"
    and ms': "split_run basis (pow10 e) (of_int c * pow10 e) fills = Inr ms'" "ms = m # ms'"
    unfolding x split_run.simps cum by (auto simp: bind_res_eq_Inr)
  have "(\<Sum>m \<leftarrow> ms'. size_moved m ow) = piece e basis c (c + filled_lots e fills) (ow, s)"
    by (rule Cons.IH [OF _ rest(2) _ ms'(1)]) (use Cons.prems(1,3) pos all in simp_all)
  moreover have "size_moved m ow = piece e basis f c (ow, s)"
    by (rule size_moved_piece [OF assms(1) Cons.prems(1) _ assms(5) m [unfolded q]]) (use pos in simp)
  ultimately show ?case
    unfolding ms'(2) all by (simp add: piece_def algebra_simps)
qed

lemma full_piece:
  assumes "lot_basis e basis" "net_lots e basis \<noteq> 0" "(ow, s) \<in> set basis"
  shows "piece e basis 0 \<bar>net_lots e basis\<bar> (ow, s) = - s"
proof -
  have "whole_lots e s" using assms(1,3) by (auto simp: lot_basis_def)
  then have s: "s = of_int (lots_in e s) * pow10 e" and sgn: "0 < lots_in e s \<longleftrightarrow> 0 < s"
    using whole_sign by (simp_all add: whole_lots_def)
  have m: "moved e basis \<bar>net_lots e basis\<bar> ow = \<bar>lots_in e s\<bar>"
    by (rule moved_bounds(3) [OF assms(1,2) _ _ assms(3)]) simp_all
  define n where "n = lots_in e s"
  have "toward_zero s * \<bar>n\<bar> = - n" using sgn [folded n_def] by (auto simp: toward_zero_def)
  then have "toward_zero s * \<bar>lots_in e s\<bar> = - lots_in e s" by (simp only: n_def)
  then have "piece e basis 0 \<bar>net_lots e basis\<bar> (ow, s) = of_int (- lots_in e s) * pow10 e"
    by (simp add: piece_def move_of_def m moved_zero [OF assms(1-3)])
  with s show ?thesis by simp
qed

section \<open>Properties\<close>

definition demo_basis :: "basis" where
  "demo_basis = [(''a'', 3), (''b'', - 1)]"

lemma demo_basis_ok: "lot_basis 0 demo_basis" "net_lots 0 demo_basis = 2"
  by code_simp+





lemma demo_sides:
  "side_lots 1 True demo_basis = Inr [(''a'', 3)]" "side_lots 1 False demo_basis = Inr [(''b'', 1)]"
  "dsum (map snd demo_basis) = 2" by code_simp+

lemma demo_hands:
  "hand_out [(''a'', 3)] 0 = Inr [(''a'', 0)]" "hand_out [(''a'', 3)] 1 = Inr [(''a'', 1)]"
  "hand_out [(''a'', 3)] 3 = Inr [(''a'', 3)]"
  "hand_out [(''b'', 1)] 0 = Inr [(''b'', 0)]" "hand_out [(''b'', 1)] 1 = Inr [(''b'', 1)]" by code_simp+

lemma demo_moves:
  "total_moves demo_basis 1 0 = Inr [(''a'', 0), (''b'', 0)]"
  "total_moves demo_basis 1 1 = Inr [(''a'', - 1), (''b'', 0)]"
  "total_moves demo_basis 1 2 = Inr [(''a'', - 3), (''b'', 1)]"
  unfolding total_moves_def Let_def demo_sides(3)
  by (simp_all add: demo_sides(1,2) ddiv_def dint_def round_down_def demo_hands)
    (simp_all add: dict_of_def dget_def demo_basis_def dmul_def)

lemma demo_quantized:
  "quantize 1 (adjusted 1 - 20) ROUND_HALF_EVEN = Inr 1" "quantize 1 (adjusted 3 - 20) ROUND_HALF_EVEN = Inr 1"
  "quantize 2 (adjusted 3 - 20) ROUND_HALF_EVEN = Inr 2" by code_simp+

lemma demo_fees:
  "split_fee [(''a'', - 1)] 1 = Inr [(''a'', 1)]"
  "split_fee [(''a'', - 2), (''b'', 1)] 3 = Inr [(''a'', 2), (''b'', 1)]"
  by (simp_all add: split_fee_def ddiv_def dabs_def dmul_def dsum_def dadd_def dsub_def demo_quantized
      sort_by_def dget_def)

lemma demo_splits:
  "flatten_split demo_basis (pow10 0) 1 1 1 = Inr [(''a'', \<lparr>pm_size = - 1, pm_fee = 1\<rparr>)]"
  "flatten_split demo_basis (pow10 0) 2 1 3 =
    Inr [(''a'', \<lparr>pm_size = - 2, pm_fee = 2\<rparr>), (''b'', \<lparr>pm_size = 1, pm_fee = 1\<rparr>)]"
  by (simp_all add: flatten_split_def demo_sides demo_moves demo_fees dabs_def dsub_def dget_def)
text \<open>
  A split conserves the fill: over a basis on the lot grid, the pieces of one fill of a
  flatten order add up to exactly the fill, signed against the net, and each piece moves its
  partition toward zero by no more than the partition holds.
\<close>

theorem flatten_split_conserves:
  assumes "lot_basis e basis" "whole_lots e quantity" "whole_lots e cum" "0 < quantity" "quantity \<le> cum"
    and "flatten_split basis (pow10 e) cum quantity fee = Inr moves"
  shows "(\<Sum>(ow, m) \<leftarrow> moves. pm_size m) = (if 0 < dsum (map snd basis) then - quantity else quantity)
    \<and> (\<forall>(ow, m) \<in> set moves. \<exists>s. (ow, s) \<in> set basis \<and> \<bar>pm_size m\<bar> \<le> \<bar>s\<bar>
        \<and> (if 0 < s then pm_size m < 0 else 0 < pm_size m))"
proof -
  define c where "c = lots_in e cum"
  define f where "f = c - lots_in e quantity"
  have cum: "cum = of_int c * pow10 e" and q: "quantity = of_int (c - f) * pow10 e"
    using assms(2,3) by (simp_all add: whole_lots_def c_def f_def)
  have le: "0 \<le> f" "f \<le> c"
    using assms(4,5) by (auto simp: f_def c_def intro!: floor_mono divide_right_mono)
  note split = assms(6) [unfolded cum q]
  note net = flatten_split_net [OF assms(1) split]
  note sizes = flatten_split_sizes [OF assms(1) le split]
  have "(\<Sum>(ow, m) \<leftarrow> moves. pm_size m) = sum_list (map snd (map (\<lambda>(ow, m). (ow, pm_size m)) moves))"
    by (simp add: comp_def case_prod_unfold)
  also have "\<dots> = (\<Sum>p \<leftarrow> basis. piece e basis f c p)"
    unfolding sizes by (rule sum_nonzero)
  also have "\<dots> = (if 0 < dsum (map snd basis) then - quantity else quantity)"
    unfolding piece_sum [OF assms(1) net(1) le net(2)] q dsum_basis [OF assms(1)]
    using pow10_pos [of e]
    by (cases "0 < net_lots e basis") (simp_all add: zero_less_mult_iff not_less algebra_simps del: pow10_pos)
  finally have total: "(\<Sum>(ow, m) \<leftarrow> moves. pm_size m) = (if 0 < dsum (map snd basis) then - quantity else quantity)" .
  have "\<exists>s. (ow, s) \<in> set basis \<and> \<bar>pm_size m\<bar> \<le> \<bar>s\<bar> \<and> (if 0 < s then pm_size m < 0 else 0 < pm_size m)"
    if "(ow, m) \<in> set moves" for ow m
  proof -
    have "(ow, pm_size m) \<in> set (map (\<lambda>(ow, m). (ow, pm_size m)) moves)" using that by force
    then obtain s where s: "(ow, s) \<in> set basis" "pm_size m = piece e basis f c (ow, s)" "pm_size m \<noteq> 0"
      unfolding sizes by auto
    with piece_bounds [OF assms(1) net(1) le net(2) s(1)] show ?thesis
      by (auto simp: toward_zero_def split: if_splits intro!: exI [of _ s])
  qed
  with total show ?thesis unfolding case_prod_unfold by (metis prod.collapse)
qed

theorem flatten_split_conserves_witness:
  "(- 2) + 1 = - (1 :: decimal)"
proof -
  have "whole_lots 0 1" "whole_lots 0 2" "0 < dsum (map snd demo_basis)" by code_simp+
  with flatten_split_conserves [OF demo_basis_ok(1) _ _ _ _ demo_splits(2)] show ?thesis by simp
qed

text \<open>
  C26. A fully filled flatten order leaves every partition flat: however the venue cuts the
  order into fills on the lot grid, once they add up to the net of the basis the pieces
  booked to each partition add up to minus the size it held, offsetting partitions included.
\<close>

theorem full_flatten_zeroes:
  assumes "lot_basis e basis" "lot_fills e fills" "net_lots e basis \<noteq> 0"
    and "(\<Sum>(quantity, fee) \<leftarrow> fills. lots_in e quantity) = \<bar>net_lots e basis\<bar>"
    and "split_run basis (pow10 e) 0 fills = Inr ms" and "(ow, s) \<in> set basis"
  shows "s + (\<Sum>m \<leftarrow> ms. size_moved m ow) = 0"
  using split_run_moves [OF assms(1) order_refl assms(2) _ assms(6), of ms] full_piece [OF assms(1,3,6)]
    assms(4,5) net_small [OF assms(1)]
  by (simp add: filled_lots_def)

theorem full_flatten_zeroes_witness:
  "(- 1) + (\<Sum>m \<leftarrow> [[(''a'', \<lparr>pm_size = - 1, pm_fee = 1\<rparr>)],
     [(''a'', \<lparr>pm_size = - 2, pm_fee = 2\<rparr>), (''b'', \<lparr>pm_size = 1, pm_fee = 1\<rparr>)]]. size_moved m ''b'') = 0"
proof -
  have run: "split_run demo_basis (pow10 0) 0 [(1, 1), (1, 3)] = Inr [[(''a'', \<lparr>pm_size = - 1, pm_fee = 1\<rparr>)],
     [(''a'', \<lparr>pm_size = - 2, pm_fee = 2\<rparr>), (''b'', \<lparr>pm_size = 1, pm_fee = 1\<rparr>)]]"
    using demo_splits by (simp add: dadd_def)
  have fills: "lot_fills 0 [(1, 1), (1, 3)]" by code_simp
  show ?thesis
    by (rule full_flatten_zeroes [OF demo_basis_ok(1) fills _ _ run])
      (simp_all add: demo_basis_ok(2), simp add: demo_basis_def)
qed

end
