(* ===== verification/TW_Checkpoint.thy ===== *)
theory TW_Checkpoint
  imports TW_Portfolio TW_Flatten
begin

text \<open>
  The one writer of both read-models, \<open>src/src/tickwright/engine/checkpoint.py\<close>. Every verb
  folds, writes one transaction, then projects. The clock reading a verb takes is its
  argument \<open>ts\<close>, the outcome of its store write its argument \<open>ok\<close>; a refused write raises and
  faults the run, so the read-models it leaves behind are not results. The lemmas show that
  after every verb the store holds exactly what the read-models show, so a recovery from the
  store loses nothing, and that no ledger write happens before the account row is open.
\<close>

section \<open>The checkpointer\<close>

record checkpointer =
  cp_store :: store
  cp_cache :: cache
  cp_portfolio :: portfolio
  cp_specs :: "(string, instrument_spec) dict"

definition make_checkpointer ::
  "account_spec \<Rightarrow> store \<Rightarrow> int \<Rightarrow> leverage_book \<Rightarrow> (string, instrument_spec) dict \<Rightarrow> checkpointer" where
  "make_checkpointer spec s now leverage specs =
     \<lparr>cp_store = s, cp_cache = empty_cache, cp_portfolio = make_portfolio spec now leverage specs,
      cp_specs = specs\<rparr>"

definition pre_trade_reading_of :: "checkpointer \<Rightarrow> string \<Rightarrow> side \<Rightarrow> string \<Rightarrow> pre_trade_reading res" where
  "pre_trade_reading_of cp sy sd strategy_id =
     bind_res (position_of (cp_portfolio cp) sy (Some strategy_id)) (\<lambda>own.
       Inr \<lparr>pr_symbol = sy, pr_side = sd,
         pr_account_net_size = dget (account_net (cp_portfolio cp)) sy 0,
         pr_strategy_net_size = (case own of Some v \<Rightarrow> pv_size v | None \<Rightarrow> 0),
         pr_open_remainder = dsum (map (\<lambda>od. dsub (o_quantity od) (o_cum_qty od))
           (filter (\<lambda>od. o_side od = sd) (open_orders (cp_cache cp) None (Some sy)))),
         pr_mark = latest_mark (cp_portfolio cp) sy\<rparr>)"

definition cp_recover :: "bool \<Rightarrow> int \<Rightarrow> checkpointer \<Rightarrow> checkpointer res" where
  "cp_recover ok now cp =
     bind_res (recover ok now (cp_store cp) (cp_portfolio cp)) (\<lambda>(s, pj).
       Inr (cp\<lparr>cp_store := s, cp_portfolio := pj, cp_cache := rebuild_cache s\<rparr>))"

definition cp_raise_seq :: "bool \<Rightarrow> checkpointer \<Rightarrow> string \<Rightarrow> int \<Rightarrow> checkpointer res" where
  "cp_raise_seq ok cp ident n =
     bind_res (cache_raise_seq ok (cp_store cp) (cp_cache cp) ident n) (\<lambda>(s, c).
       Inr (cp\<lparr>cp_store := s, cp_cache := c\<rparr>))"

text \<open>\<open>checkpoint\<close>: a transition that is not a fill.\<close>

definition cp_checkpoint :: "bool \<Rightarrow> int \<Rightarrow> checkpointer \<Rightarrow> order \<Rightarrow> checkpointer res" where
  "cp_checkpoint ok ts cp od =
     bind_res (cache_checkpoint ok (cp_store cp) (cp_cache cp) od ts) (\<lambda>(s, c).
       Inr (cp\<lparr>cp_store := s, cp_cache := c\<rparr>))"

text \<open>\<open>_require_open_ledger\<close>; \<open>is_opened\<close> caches what it found.\<close>

definition require_open_ledger :: "checkpointer \<Rightarrow> portfolio res" where
  "require_open_ledger cp =
     (if is_opened (cp_store cp) (cp_portfolio cp) then Inr ((cp_portfolio cp)\<lparr>pj_opened := True\<rparr>)
      else Inl (InvariantViolation LedgerNotOpen))"

definition basis_le :: "string \<times> decimal \<Rightarrow> string \<times> decimal \<Rightarrow> bool" where
  "basis_le a b \<longleftrightarrow> str_le (fst a) (fst b) \<and> (fst a = fst b \<longrightarrow> snd a \<le> snd b)"

definition split_basis :: "checkpointer \<Rightarrow> string \<Rightarrow> (string \<times> decimal) list" where
  "split_basis cp sy = sort_by basis_le
     (map (\<lambda>(ow, x). (owner_name ow, x)) (partition_sizes (cp_portfolio cp) sy))"

text \<open>\<open>_split\<close>: one flatten fill as one piece per partition it moves.\<close>

definition split_pieces ::
  "checkpointer \<Rightarrow> (string \<times> decimal) list \<Rightarrow> order_env \<Rightarrow> fill_body \<Rightarrow> (bookable \<times> side) list res" where
  "split_pieces cp basis e b =
     (case map_of (cp_specs cp) (ev_symbol e) of
        None \<Rightarrow> Inl (InvariantViolation NoSpecForSymbol)
      | Some spec \<Rightarrow>
          bind_res (flatten_split basis (pow10 (- is_sz_decimals spec)) (fb_cum_qty b) (fb_quantity b) (fb_fee b))
          (\<lambda>moves.
            if moves = [] then Inl (InvariantViolation SplitMovesNothing)
            else Inr (map (\<lambda>(ow, m).
              (PartitionFill \<lparr>pf_event_id = fill_event_id (ev_cloid e) (fb_trade_id b) @ '':'' @ ow,
                 pf_strategy_id = owner_of ow, pf_symbol = ev_symbol e, pf_quantity = dabs (pm_size m),
                 pf_price = fb_price b, pf_fee = pm_fee m\<rparr>,
               if 0 < pm_size m then BUY else SELL)) moves)))"

definition write_changes ::
  "bool \<Rightarrow> int \<Rightarrow> checkpointer \<Rightarrow> portfolio \<Rightarrow> ledger_change list \<Rightarrow> order option \<Rightarrow> checkpointer res" where
  "write_changes ok ts cp pj cs od =
     bind_res (checkpoint_ledger ok (cp_store cp) (pj_account pj) (map (change_position pj) cs) od None ts) (\<lambda>s.
       Inr (cp\<lparr>cp_store := s,
         cp_cache := (case od of None \<Rightarrow> cp_cache cp | Some x \<Rightarrow> project_order (cp_cache cp) x ts),
         cp_portfolio := foldl project pj cs\<rparr>))"

definition checkpoint_fill ::
  "bool \<Rightarrow> int \<Rightarrow> checkpointer \<Rightarrow> order \<Rightarrow> order_env \<Rightarrow> fill_body \<Rightarrow> side \<Rightarrow> checkpointer res" where
  "checkpoint_fill ok ts cp od e b sd =
     bind_res (require_open_ledger cp) (\<lambda>pj.
     bind_res (case o_split_basis od of None \<Rightarrow> Inr [(OrderFill e b, sd)]
               | Some basis \<Rightarrow> split_pieces cp basis e b) (\<lambda>pieces.
     bind_res (fold_fills pj pieces) (\<lambda>(pj', cs). write_changes ok ts cp pj' cs (Some od))))"

definition leftover_piece :: "string option \<Rightarrow> string \<Rightarrow> decimal \<Rightarrow> decimal \<Rightarrow> int \<Rightarrow> bookable \<times> side" where
  "leftover_piece ow sy x price ts =
     (PartitionFill \<lparr>pf_event_id = ''leftover:'' @ sy @ '':'' @ show_int ts @ '':'' @ owner_name ow,
        pf_strategy_id = ow, pf_symbol = sy, pf_quantity = dabs x, pf_price = price, pf_fee = 0\<rparr>,
      if 0 < x then BUY else SELL)"

fun leftover_loop ::
  "checkpointer \<Rightarrow> string \<Rightarrow> int \<Rightarrow> (string option \<times> decimal) list \<Rightarrow> (bookable \<times> side) list \<times> decimal \<times> decimal \<Rightarrow>
    ((bookable \<times> side) list \<times> decimal \<times> decimal) res" where
  "leftover_loop cp sy ts [] acc = Inr acc"
| "leftover_loop cp sy ts ((ow, x) # rest) (pieces, gone, cost) =
     bind_res (position_of (cp_portfolio cp) sy ow) (\<lambda>view.
       case view of
         None \<Rightarrow> leftover_loop cp sy ts rest (pieces, gone, cost)
       | Some v \<Rightarrow>
           if ow = None \<or> x = 0 then leftover_loop cp sy ts rest (pieces, gone, cost)
           else leftover_loop cp sy ts rest
             (pieces @ [leftover_piece ow sy (dneg x) (pv_entry_price v) ts],
              dadd gone x, dadd cost (dmul x (pv_entry_price v))))"

definition checkpoint_leftover :: "bool \<Rightarrow> int \<Rightarrow> checkpointer \<Rightarrow> string \<Rightarrow> checkpointer res" where
  "checkpoint_leftover ok ts cp sy =
     bind_res (leftover_loop cp sy ts (partition_sizes (cp_portfolio cp) sy) ([], 0, 0)) (\<lambda>(pieces, gone, cost).
     bind_res (if gone = 0 then Inr pieces
               else bind_res (ddiv cost gone) (\<lambda>price. Inr (pieces @ [leftover_piece None sy gone price ts])))
       (\<lambda>all_pieces.
         if all_pieces = [] then Inr cp
         else bind_res (fold_fills (cp_portfolio cp) all_pieces) (\<lambda>(pj', cs).
           write_changes ok ts cp pj' cs None)))"

definition heal_rows :: "portfolio \<Rightarrow> heal_change \<Rightarrow> position list" where
  "heal_rows pj h = map snd (dict_of (map (\<lambda>p. (key_of p, p))
     (map (change_position pj) (hc_fills h) @ hc_collateral h)))"

definition checkpoint_heal ::
  "bool \<Rightarrow> int \<Rightarrow> checkpointer \<Rightarrow> recon_fill list \<Rightarrow> cash_correction option \<Rightarrow> venue_account_state option \<Rightarrow>
    (checkpointer \<times> heal_change option) res" where
  "checkpoint_heal ok ts cp fills cash snapshot =
     bind_res (require_open_ledger cp) (\<lambda>pj.
     bind_res (apply_heal pj fills cash snapshot) (\<lambda>(pj', change).
       case change of
         None \<Rightarrow> Inr (cp\<lparr>cp_portfolio := pj'\<rparr>, None)
       | Some h \<Rightarrow>
           bind_res (checkpoint_ledger ok (cp_store cp) (pj_account pj') (heal_rows pj' h) None None ts) (\<lambda>s.
             Inr (cp\<lparr>cp_store := s, cp_portfolio := project_heal pj' h\<rparr>, Some h))))"

definition checkpoint_funding :: "bool \<Rightarrow> int \<Rightarrow> checkpointer \<Rightarrow> funding_accrual \<Rightarrow> checkpointer res" where
  "checkpoint_funding ok ts cp a =
     bind_res (require_open_ledger cp) (\<lambda>pj.
     bind_res (apply_funding (cp_store cp) pj a) (\<lambda>(pj', change).
       case change of
         None \<Rightarrow> Inr (cp\<lparr>cp_portfolio := pj'\<rparr>)
       | Some fc \<Rightarrow>
           bind_res (checkpoint_ledger ok (cp_store cp) (pj_account pj') (fc_positions fc) None
               (Some (fc_funding_mark fc)) ts) (\<lambda>s.
             Inr (cp\<lparr>cp_store := s, cp_portfolio := pj'\<rparr>))))"

section \<open>Memory and store agree\<close>

text \<open>
  The applied event ids are the one thing the position row does not hold; a redelivered
  fill is refused by the order's own applied set, which its row does hold.
\<close>

definition synced :: "store \<Rightarrow> portfolio \<Rightarrow> bool" where
  "synced s pj \<longleftrightarrow> store_ok s \<and> pj_ok pj \<and> load_account s = Some (pj_account pj)
     \<and> (\<forall>st sy. st \<noteq> Some UNATTRIBUTED \<longrightarrow>
          row_at s st sy = map_option (\<lambda>p. p\<lparr>p_applied := {}\<rparr>) (map_of (pj_positions pj) (st, sy)))"

text \<open>
  An order is mutated in place before its next checkpoint, so while a placement is under way
  the cache may be ahead of the store for its order; \<open>T\<close> holds those client ids. Which orders
  exist never differs.
\<close>

definition cache_agrees_off :: "string set \<Rightarrow> store \<Rightarrow> cache \<Rightarrow> bool" where
  "cache_agrees_off T s c \<longleftrightarrow> (\<forall>cloid. (cached_order c cloid = None \<longleftrightarrow> get_order s cloid = None)
     \<and> (cloid \<notin> T \<longrightarrow> cached_order c cloid = get_order s cloid))"

lemma cache_agrees_off_empty: "cache_agrees_off {} s c \<longleftrightarrow> cache_agrees s c"
  by (auto simp: cache_agrees_off_def cache_agrees_def)

definition cp_synced :: "string set \<Rightarrow> checkpointer \<Rightarrow> bool" where
  "cp_synced T cp \<longleftrightarrow> synced (cp_store cp) (cp_portfolio cp) \<and> cache_agrees_off T (cp_store cp) (cp_cache cp)"

lemma project_agrees_off:
  "cache_agrees_off T s c \<Longrightarrow> cache_agrees_off T (write_order s od ts) (project_order c od ts')"
  by (auto simp: cache_agrees_off_def cached_order_def project_order_def get_order_def write_order_def)

lemma store_key: "st \<noteq> Some UNATTRIBUTED \<Longrightarrow> p_strategy_id p \<noteq> Some UNATTRIBUTED \<Longrightarrow>
    position_key p = (owner_name st, sy) \<longleftrightarrow> key_of p = (st, sy)"
  using owner_name_inj [of "p_strategy_id p" st] by (simp add: position_key_def key_of_def)

text \<open>
  The one lemma behind every verb: a write of the partitions that moved, with the new account,
  synchronizes the store with the portfolio that holds them.
\<close>

lemma synced_write:
  assumes "synced s pj" "pj_ok pj'"
    and upd: "\<And>k. map_of (pj_positions pj') k =
      (case List.find (\<lambda>p. key_of p = k) (rev ps) of Some p \<Rightarrow> Some p | None \<Rightarrow> map_of (pj_positions pj) k)"
    and owners: "\<forall>p \<in> set ps. p_strategy_id p \<noteq> Some UNATTRIBUTED \<and> position_ok p"
    and same: "ac_genesis (pj_account pj') = ac_genesis (pj_account pj)"
      "ac_genesis_ts_ns (pj_account pj') = ac_genesis_ts_ns (pj_account pj)"
      "ac_account_id (pj_account pj') = ac_account_id (pj_account pj)"
  shows "synced (write_ledger s (pj_account pj') ps od mk ts) pj'"
proof -
  have account: "load_account (write_ledger s (pj_account pj') ps od mk ts) = Some (pj_account pj')"
    using assms(1) same by (simp add: write_ledger_account synced_def)
  have "row_at (write_ledger s (pj_account pj') ps od mk ts) st sy =
      map_option (\<lambda>p. p\<lparr>p_applied := {}\<rparr>) (map_of (pj_positions pj') (st, sy))"
    if st: "st \<noteq> Some UNATTRIBUTED" for st sy
  proof -
    have "List.find (\<lambda>p. position_key p = (owner_name st, sy)) (rev ps) =
        List.find (\<lambda>p. key_of p = (st, sy)) (rev ps)"
      by (rule find_cong) (use owners st store_key in auto)
    then have "row_at (write_ledger s (pj_account pj') ps od mk ts) st sy =
      (case List.find (\<lambda>p. key_of p = (st, sy)) (rev ps) of
         None \<Rightarrow> row_at s st sy | Some p \<Rightarrow> Some (restore_position (position_values p ts)))"
      unfolding row_at_def write_ledger_positions by (simp split: option.split)
    also have "\<dots> = map_option (\<lambda>p. p\<lparr>p_applied := {}\<rparr>) (map_of (pj_positions pj') (st, sy))"
      using assms(1) st owners by (auto simp: upd synced_def position_row_round split: option.split dest!: find_Some_mem)
    finally show ?thesis .
  qed
  with account assms(1,2) show ?thesis by (simp add: synced_def write_ledger_ok)
qed

lemma opened_synced: "synced s pj \<Longrightarrow> synced s (pj\<lparr>pj_opened := b\<rparr>)"
  by (simp add: synced_def pj_ok_def)

lemma require_open_synced:
  "require_open_ledger cp = Inr pj \<Longrightarrow> synced (cp_store cp) (cp_portfolio cp) \<Longrightarrow>
    synced (cp_store cp) pj \<and> pj_positions pj = pj_positions (cp_portfolio cp) \<and> pj_account pj = pj_account (cp_portfolio cp)"
  by (auto simp: require_open_ledger_def opened_synced split: if_splits)

lemma change_position_ok:
  assumes "folds_to pj pj' cs" "c \<in> set cs"
  shows "p_strategy_id (change_position pj' c) \<noteq> Some UNATTRIBUTED \<and> position_ok (change_position pj' c)"
  using assms pj_ok_lookup [of pj'] by (auto simp: folds_to_def change_position_def split: option.split)

lemma write_changes_synced:
  assumes "write_changes ok ts cp pj' cs od = Inr cp'" "fold_fills pj fs = Inr (pj', cs)" "owners_ok fs"
    and "synced (cp_store cp) pj" "cache_agrees_off T (cp_store cp) (cp_cache cp)"
  shows "cp_synced T cp'"
proof -
  have pj: "pj_ok pj" using assms(4) by (simp add: synced_def)
  note folds = fold_fills_to [OF assms(2) pj assms(3)]
  have cp': "cp' = cp\<lparr>cp_store := write_ledger (cp_store cp) (pj_account pj') (map (change_position pj') cs) od None ts,
      cp_cache := (case od of None \<Rightarrow> cp_cache cp | Some x \<Rightarrow> project_order (cp_cache cp) x ts),
      cp_portfolio := foldl project pj' cs\<rparr>"
    using assms(1) by (simp add: write_changes_def checkpoint_ledger_def transaction_def split: if_splits)
  have "pj_ok (foldl project pj' cs)"
    using folds by (intro project_ok) (auto simp: folds_to_def)
  moreover have "\<forall>p \<in> set (map (change_position pj') cs). p_strategy_id p \<noteq> Some UNATTRIBUTED \<and> position_ok p"
    using change_position_ok [OF folds] by auto
  ultimately have "synced (write_ledger (cp_store cp) (pj_account (foldl project pj' cs)) (map (change_position pj') cs) od None ts)
      (foldl project pj' cs)"
    using folds by (intro synced_write [OF assms(4)] projected_written [OF folds pj]) (simp_all add: folds_to_def)
  moreover have "cache_agrees_off T (cp_store cp') (cp_cache cp')"
    using assms(5) by (auto simp: cp' cache_agrees_off_def cached_order_def project_order_def write_ledger_orders split: option.split)
  ultimately show ?thesis by (simp add: cp_synced_def cp')
qed

section \<open>Every verb keeps them in step\<close>

lemma split_pieces_owners:
  "split_pieces cp basis e b = Inr pieces \<Longrightarrow> owners_ok pieces"
  by (auto simp: split_pieces_def bind_res_eq_Inr owners_ok_def owner_of_def split: option.splits if_splits)

lemma checkpoint_fill_synced:
  assumes "checkpoint_fill ok ts cp od e b sd = Inr cp'" "cp_synced T cp" "ev_strategy_id e \<noteq> UNATTRIBUTED"
  shows "cp_synced T cp'"
proof -
  from assms(1) obtain pj pieces pj' cs where o: "require_open_ledger cp = Inr pj"
    and pieces: "(case o_split_basis od of None \<Rightarrow> Inr [(OrderFill e b, sd)]
               | Some basis \<Rightarrow> split_pieces cp basis e b) = Inr pieces"
    and f: "fold_fills pj pieces = Inr (pj', cs)" and w: "write_changes ok ts cp pj' cs (Some od) = Inr cp'"
    by (auto simp: checkpoint_fill_def bind_res_eq_Inr)
  have "owners_ok pieces"
    using pieces split_pieces_owners assms(3) by (auto simp: owners_ok_def split: option.splits)
  then show ?thesis
    using write_changes_synced [where T = T, OF w f] require_open_synced [OF o] assms(2) by (simp add: cp_synced_def)
qed

lemma partition_sizes_owners:
  "pj_ok pj \<Longrightarrow> (ow, x) \<in> set (partition_sizes pj sy) \<Longrightarrow> ow \<noteq> Some UNATTRIBUTED"
  by (fastforce simp: partition_sizes_def pj_ok_def filed_ok_def key_of_def)

lemma leftover_piece_owner [simp]: "bk_strategy (fst (leftover_piece ow sy x price ts)) = ow"
  by (simp add: leftover_piece_def)

lemma owners_ok_snoc: "owners_ok (ps @ [p]) \<longleftrightarrow> owners_ok ps \<and> bk_strategy (fst p) \<noteq> Some UNATTRIBUTED"
  by (auto simp: owners_ok_def case_prod_unfold)

lemma leftover_loop_owners:
  assumes "leftover_loop cp sy ts rest acc = Inr (pieces, m, c)" "owners_ok (fst acc)"
    "\<forall>(ow, x) \<in> set rest. ow \<noteq> Some UNATTRIBUTED"
  shows "owners_ok pieces"
  using assms
proof (induction rest arbitrary: acc)
  case Nil
  then show ?case by simp
next
  case (Cons e rest)
  obtain ow x where e: "e = (ow, x)" by (cases e)
  obtain ps g k where acc: "acc = (ps, g, k)" by (cases acc)
  have own: "ow \<noteq> Some UNATTRIBUTED" and rest: "\<forall>(ow, x) \<in> set rest. ow \<noteq> Some UNATTRIBUTED"
    using Cons.prems(3) by (auto simp: e)
  from Cons.prems(1) obtain view where v: "position_of (cp_portfolio cp) sy ow = Inr view"
    by (auto simp: e acc bind_res_eq_Inr)
  show ?case
  proof (cases "view = None \<or> ow = None \<or> x = 0")
    case True
    then have "leftover_loop cp sy ts rest acc = Inr (pieces, m, c)"
      using Cons.prems(1) v by (auto simp: e acc split: option.splits)
    from Cons.IH [OF this Cons.prems(2) rest] show ?thesis .
  next
    case False
    then obtain w where w: "view = Some w" by auto
    have "leftover_loop cp sy ts rest (ps @ [leftover_piece ow sy (dneg x) (pv_entry_price w) ts], dadd g x,
        dadd k (dmul x (pv_entry_price w))) = Inr (pieces, m, c)"
      using Cons.prems(1) v False by (auto simp: e acc w)
    from Cons.IH [OF this _ rest] Cons.prems(2) own show ?thesis by (simp add: acc owners_ok_snoc)
  qed
qed

lemma checkpoint_leftover_synced:
  assumes "checkpoint_leftover ok ts cp sy = Inr cp'" "cp_synced T cp"
  shows "cp_synced T cp'"
proof -
  have ok: "pj_ok (cp_portfolio cp)" using assms(2) by (simp add: cp_synced_def synced_def)
  from assms(1) obtain pieces m c all_pieces where
    l: "leftover_loop cp sy ts (partition_sizes (cp_portfolio cp) sy) ([], 0, 0) = Inr (pieces, m, c)"
    and all_pieces: "(if m = 0 then Inr pieces
        else bind_res (ddiv c m) (\<lambda>price. Inr (pieces @ [leftover_piece None sy m price ts]))) = Inr all_pieces"
    and rest: "(if all_pieces = [] then Inr cp
         else bind_res (fold_fills (cp_portfolio cp) all_pieces) (\<lambda>(pj', cs).
           write_changes ok ts cp pj' cs None)) = Inr cp'"
    by (auto simp: checkpoint_leftover_def bind_res_eq_Inr)
  have "owners_ok pieces"
    by (rule leftover_loop_owners [OF l]) (use partition_sizes_owners [OF ok] in \<open>auto simp: owners_ok_def\<close>)
  then have owners: "owners_ok all_pieces"
    using all_pieces by (auto simp: owners_ok_def leftover_piece_def bind_res_eq_Inr split: if_splits)
  show ?thesis
  proof (cases "all_pieces = []")
    case True
    with rest assms(2) show ?thesis by simp
  next
    case False
    with rest obtain pj' cs where f: "fold_fills (cp_portfolio cp) all_pieces = Inr (pj', cs)"
      and w: "write_changes ok ts cp pj' cs None = Inr cp'" by (auto simp: bind_res_eq_Inr)
    from write_changes_synced [where T = T, OF w f owners] assms(2) show ?thesis by (simp add: cp_synced_def)
  qed
qed

lemma checkpoint_funding_synced:
  assumes "checkpoint_funding ok ts cp a = Inr cp'" "cp_synced T cp"
  shows "cp_synced T cp'"
proof -
  from assms(1) obtain pj pj' change where o: "require_open_ledger cp = Inr pj"
    and f: "apply_funding (cp_store cp) pj a = Inr (pj', change)"
    and rest: "(case change of
         None \<Rightarrow> Inr (cp\<lparr>cp_portfolio := pj'\<rparr>)
       | Some fc \<Rightarrow>
           bind_res (checkpoint_ledger ok (cp_store cp) (pj_account pj') (fc_positions fc) None
               (Some (fc_funding_mark fc)) ts) (\<lambda>s.
             Inr (cp\<lparr>cp_store := s, cp_portfolio := pj'\<rparr>))) = Inr cp'"
    by (auto simp: checkpoint_funding_def bind_res_eq_Inr)
  have pj: "synced (cp_store cp) pj" using require_open_synced [OF o] assms(2) by (simp add: cp_synced_def)
  show ?thesis
  proof (cases change)
    case None
    then show ?thesis using f rest pj assms(2) apply_funding_None [of "cp_store cp" pj a pj']
      by (auto simp: cp_synced_def)
  next
    case (Some fc)
    have okpj: "pj_ok pj" using pj by (simp add: synced_def)
    note F = apply_funding_Some [OF f [unfolded Some]] and K = apply_funding_ok [OF f [unfolded Some] okpj]
    have cp': "cp' = cp\<lparr>cp_store := write_ledger (cp_store cp) (pj_account pj') (fc_positions fc) None
        (Some (fc_funding_mark fc)) ts, cp_portfolio := pj'\<rparr>"
      using rest Some by (simp add: checkpoint_ledger_def transaction_def split: if_splits)
    have "\<forall>q \<in> set (fc_positions fc). p_strategy_id q \<noteq> Some UNATTRIBUTED \<and> position_ok q"
      using K(1) pj_ok_lookup [OF K(1)] split_funding_owners [OF okpj F(2)] by blast
    then have "synced (write_ledger (cp_store cp) (pj_account pj') (fc_positions fc) None
        (Some (fc_funding_mark fc)) ts) pj'"
      using F(3) by (intro synced_write [OF pj K(1) K(2)]) (simp_all add: tw_frame)
    then show ?thesis using assms(2) by (simp add: cp' cp_synced_def cache_agrees_off_def write_ledger_orders)
  qed
qed

section \<open>A heal keeps them in step\<close>

lemma venue_shares_filed:
  assumes "venue_shares pj v = Inr shares" "(p, x) \<in> set shares"
  shows "p \<in> set (filed pj)"
proof -
  from assms(1) obtain groups where g: "shares = concat groups"
    and t: "list_all2 (\<lambda>e ps. (case e of (sy, across) \<Rightarrow> bind_res (share (case dget (dict_of (map
        (\<lambda>p. (vp_symbol p, vp_isolated_collateral p)) (va_positions v))) sy None of None \<Rightarrow> 0 | Some b \<Rightarrow> b) across)
        (\<lambda>shares. Inr (zip across shares))) = Inr ps) (by_symbol (filed pj)) groups"
    unfolding venue_shares_def Let_def bind_res_eq_Inr traverse_Inr_list_all2 by auto
  have all: "list_all2 (\<lambda>(sy, across) ps. \<exists>b xs. share b across = Inr xs \<and> ps = zip across xs)
      (by_symbol (filed pj)) groups"
    by (rule list_all2_mono [OF t]) (auto simp: bind_res_eq_Inr, blast)
  from assms(2) g obtain ps where ps: "ps \<in> set groups" "(p, x) \<in> set ps" by auto
  then obtain i where i: "i < length groups" "(p, x) \<in> set (groups ! i)"
    by (auto simp only: in_set_conv_nth [of ps])
  obtain sy across where e: "by_symbol (filed pj) ! i = (sy, across)" by (cases "by_symbol (filed pj) ! i")
  have len: "i < length (by_symbol (filed pj))" using i(1) all by (simp add: list_all2_lengthD)
  have "p \<in> set across"
    using list_all2_nthD2 [OF all i(1)] i(2) by (auto simp: e dest: set_zip_leftD)
  moreover have "map_of (by_symbol (filed pj)) sy = Some across"
    using len e by_symbol_ok by (metis dict_ok_map_of_iff nth_mem)
  ultimately show ?thesis by (auto simp: by_symbol_lookup split: if_splits)
qed

lemma ingest_spec:
  assumes "ingest_collateral pj v = Inr (pj', gone)"
  shows "pj' = foldl refile pj gone" "\<forall>q \<in> set gone. \<exists>p \<in> set (filed pj). \<exists>x. q = p\<lparr>p_isolated_collateral := x\<rparr>"
  using assms venue_shares_filed by (fastforce simp: ingest_collateral_def Let_def bind_res_eq_Inr)+

lemma find_append: "List.find P (xs @ ys) = (case List.find P xs of Some x \<Rightarrow> Some x | None \<Rightarrow> List.find P ys)"
  by (induction xs) auto

lemma find_refiled: "List.find (\<lambda>p. key_of p = k) (rev (heal_rows pj h)) =
    List.find (\<lambda>p. key_of p = k) (rev (map (change_position pj) (hc_fills h) @ hc_collateral h))"
proof -
  define ps where "ps = map (change_position pj) (hc_fills h) @ hc_collateral h"
  have "List.find (\<lambda>p. key_of p = k) (map snd (dict_of (map (\<lambda>p. (key_of p, p)) ps))) =
      map_of (dict_of (map (\<lambda>p. (key_of p, p)) ps)) k \<and>
    List.find (\<lambda>p. key_of p = k) (rev (map snd (dict_of (map (\<lambda>p. (key_of p, p)) ps)))) =
      map_of (dict_of (map (\<lambda>p. (key_of p, p)) ps)) k"
  proof -
    have keyed: "\<forall>(k, p) \<in> set (dict_of (map (\<lambda>p. (key_of p, p)) ps)). k = key_of p"
      by (induction ps rule: rev_induct) (auto simp: set_update_dict)
    have one: "List.find (\<lambda>p. key_of p = k) (map snd d) = map_of d k"
      if "\<forall>(k, p) \<in> set d. k = key_of p" for d
      using that by (induction d) auto
    have "map_of (rev d) k = map_of d k" if "dict_ok d" for d :: "(partition_key, position) dict"
    proof -
      have "dict_ok (rev d)" using that by (simp add: dict_ok_def flip: rev_map)
      with that show ?thesis by (metis dict_ok_map_of_iff not_None_eq set_rev)
    qed
    then show ?thesis using one [OF keyed] one [of "rev (dict_of (map (\<lambda>p. (key_of p, p)) ps))"] keyed
      by (simp add: rev_map)
  qed
  moreover have "map_of (dict_of (map (\<lambda>p. (key_of p, p)) ps)) k = List.find (\<lambda>p. key_of p = k) (rev ps)"
    by (induction ps rule: rev_induct) auto
  ultimately show ?thesis by (simp add: heal_rows_def ps_def)
qed

lemma set_heal_rows: "set (heal_rows pj h) \<subseteq> set (map (change_position pj) (hc_fills h) @ hc_collateral h)"
proof -
  have "set (dict_of (map (\<lambda>p. (key_of p, p)) ps)) \<subseteq> set (map (\<lambda>p. (key_of p, p)) ps)" for ps
    by (induction ps rule: rev_induct) (auto simp: set_update_dict)
  then have "snd ` set (dict_of (map (\<lambda>p. (key_of p, p)) ps)) \<subseteq> set ps" for ps by fastforce
  then show ?thesis unfolding heal_rows_def list.set_map [of snd] .
qed

lemma change_position_cong:
  "map_of (pj_positions pj) (change_key c) = map_of (pj_positions pj') (change_key c) \<Longrightarrow>
    change_position pj c = change_position pj' c"
  by (simp add: change_position_def)

lemma healed_written:
  assumes folds: "folds_to pj pj1 cs" and pj: "pj_ok pj"
    and kept: "\<forall>q \<in> set gone. \<exists>p \<in> set (filed pj1). \<exists>x. q = p\<lparr>p_isolated_collateral := x\<rparr>"
    and pos: "pj_positions pj3 = pj_positions (foldl refile pj1 gone)"
  shows "pj_ok pj3"
    and "map_of (pj_positions (foldl project pj3 cs)) k =
      (case List.find (\<lambda>p. key_of p = k) (rev (map (change_position pj3) cs @ gone)) of
         Some p \<Rightarrow> Some p | None \<Rightarrow> map_of (pj_positions pj) k)"
    and "p \<in> set (map (change_position pj3) cs @ gone) \<Longrightarrow> p_strategy_id p \<noteq> Some UNATTRIBUTED \<and> position_ok p"
proof -
  have ok1: "pj_ok pj1" using folds by (simp add: folds_to_def)
  have good: "\<forall>q \<in> set gone. position_ok q \<and> p_strategy_id q \<noteq> Some UNATTRIBUTED
      \<and> map_of (pj_positions pj1) (key_of q) \<noteq> None"
    using kept filed_lookup [OF ok1] by (fastforce simp: position_ok_def key_of_def)
  have "pj_ok (foldl refile pj1 gone)" using good by (intro refile_all_ok [OF ok1]) blast
  then show ok3: "pj_ok pj3" by (simp add: pj_ok_def pos)
  have look: "map_of (pj_positions pj3) k = (case List.find (\<lambda>p. key_of p = k) (rev gone) of
      Some p \<Rightarrow> Some p | None \<Rightarrow> map_of (pj_positions pj1) k)" for k by (simp add: pos refile_all_lookup)
  have key3: "List.find (\<lambda>p. key_of p = k) (rev (map (change_position pj3) cs)) =
      map_option (change_position pj3) (List.find (\<lambda>c. change_key c = k) (rev cs))"
    by (simp add: rev_map find_map key_change_position [OF ok3])
  show "map_of (pj_positions (foldl project pj3 cs)) k =
      (case List.find (\<lambda>p. key_of p = k) (rev (map (change_position pj3) cs @ gone)) of
         Some p \<Rightarrow> Some p | None \<Rightarrow> map_of (pj_positions pj) k)"
  proof (cases "List.find (\<lambda>p. key_of p = k) (rev gone)")
    case (Some q)
    then have "map_of (pj_positions pj1) k \<noteq> None" using good by (auto dest: find_Some_mem)
    moreover have "map_of (pj_positions pj1) k = None \<longleftrightarrow> map_of (pj_positions pj) k = None"
      using folds unfolding folds_to_def by blast
    ultimately have "map_of (pj_positions pj) k \<noteq> None" by simp
    then have "\<forall>c \<in> set cs. change_key c = k \<longrightarrow> \<not> lc_fresh c" using folds by (auto simp: folds_to_def)
    then have "List.find (\<lambda>c. change_key c = k \<and> lc_fresh c) (rev cs) = None" by (auto simp: find_None_iff)
    then show ?thesis by (simp add: project_lookup look Some find_append)
  next
    case None
    then have same: "map_of (pj_positions pj3) k = map_of (pj_positions pj1) k" by (simp add: look)
    have "map_option (change_position pj3) (List.find (\<lambda>c. change_key c = k) (rev cs)) =
        map_option (change_position pj1) (List.find (\<lambda>c. change_key c = k) (rev cs))"
      using same by (auto intro!: option.map_cong0 change_position_cong dest: find_Some_mem)
    moreover have "List.find (\<lambda>p. key_of p = k) (rev (map (change_position pj1) cs)) =
        map_option (change_position pj1) (List.find (\<lambda>c. change_key c = k) (rev cs))"
      by (simp add: rev_map find_map key_change_position [OF ok1])
    moreover have "map_of (pj_positions (foldl project pj3 cs)) k = map_of (pj_positions (foldl project pj1 cs)) k"
      by (simp add: project_lookup same split: option.split)
    ultimately show ?thesis
      using projected_written [OF folds pj, of k] key3 None by (simp add: find_append)
  qed
  show "p_strategy_id p \<noteq> Some UNATTRIBUTED \<and> position_ok p" if "p \<in> set (map (change_position pj3) cs @ gone)"
  proof (cases "p \<in> set gone")
    case True
    with good show ?thesis by blast
  next
    case False
    with that obtain c where "c \<in> set cs" "p = change_position pj3 c" by auto
    then show ?thesis
      using folds pj_ok_lookup [OF ok3] by (auto simp: folds_to_def change_position_def split: option.split)
  qed
qed

lemma bind_pair_InrE:
  assumes "bind_res m (\<lambda>(a, b). f a b) = Inr y"
  obtains a b where "m = Inr (a, b)" "f a b = Inr y"
  using assms by (auto simp: bind_res_eq_Inr)

lemma correct_cash_frame:
  "ac_genesis (correct_cash a x) = ac_genesis a" "ac_genesis_ts_ns (correct_cash a x) = ac_genesis_ts_ns a"
  "ac_account_id (correct_cash a x) = ac_account_id a"
  by (simp_all add: correct_cash_def)

lemma apply_heal_cases:
  assumes "apply_heal pj fills cash snapshot = Inr (pj', change)" "pj_ok pj"
  obtains cs pj1 gone where "folds_to pj pj1 cs"
    "\<forall>q \<in> set gone. \<exists>p \<in> set (filed pj1). \<exists>x. q = p\<lparr>p_isolated_collateral := x\<rparr>"
    "pj_positions pj' = pj_positions (foldl refile pj1 gone)"
    "ac_genesis (pj_account pj') = ac_genesis (pj_account pj)"
    "ac_genesis_ts_ns (pj_account pj') = ac_genesis_ts_ns (pj_account pj)"
    "ac_account_id (pj_account pj') = ac_account_id (pj_account pj)"
    "case change of None \<Rightarrow> gone = [] \<and> pj_account pj' = pj_account pj1 \<and> (\<forall>c \<in> set cs. lc_changes c = [])
       \<and> (\<exists>fs. fold_fills pj fs = Inr (pj1, cs) \<and> owners_ok fs)
     | Some h \<Rightarrow> hc_fills h = cs \<and> hc_collateral h = gone"
proof -
  from assms(1) obtain pj1 cs pj2 gone where
    f: "fold_fills pj (map (\<lambda>f. (ReconciliationFill f, rc_side f)) fills) = Inr (pj1, cs)"
    and g: "(case snapshot of None \<Rightarrow> Inr (pj1, []) | Some v \<Rightarrow> ingest_collateral pj1 v) = Inr (pj2, gone)"
    and rest: "(let applied = set (map (\<lambda>(f, c). rc_event_id f) (filter (\<lambda>(f, c). lc_changes c \<noteq> []) (zip fills cs)))
       in if applied = {} \<and> cash = None \<and> gone = [] then Inr (pj2, None)
          else let pj3 = (case cash of None \<Rightarrow> pj2
                  | Some cc \<Rightarrow> pj2\<lparr>pj_account := correct_cash (pj_account pj2)
                      (dadd (cc_net_cash cc) (healed_basis pj2 cs))\<rparr>)
            in Inr (pj3, Some \<lparr>hc_fills = cs, hc_applied = applied, hc_collateral = gone\<rparr>)) = (Inr (pj', change) :: (portfolio \<times> heal_change option) res)"
    unfolding apply_heal_def by (elim bind_pair_InrE) (rule that, assumption+)
  have owners: "owners_ok (map (\<lambda>f. (ReconciliationFill f, rc_side f)) fills)"
    by (auto simp: owners_ok_def)
  note folds = fold_fills_to [OF f assms(2) owners]
  have len: "length cs = length fills"
    using f by (induction fills arbitrary: pj cs) (auto simp: bind_res_eq_Inr)
  have gone: "pj2 = foldl refile pj1 gone" "\<forall>q \<in> set gone. \<exists>p \<in> set (filed pj1). \<exists>x. q = p\<lparr>p_isolated_collateral := x\<rparr>"
    using g ingest_spec by (auto split: option.splits)
  define ap where "ap = set (map (\<lambda>(f, c). rc_event_id f) (filter (\<lambda>(f, c). lc_changes c \<noteq> []) (zip fills cs)))"
  have idle: "lc_changes c = []" if "ap = {}" "c \<in> set cs" for c
  proof -
    from that(2) len obtain f where "(f, c) \<in> set (zip fills cs)" by (metis in_set_impl_in_set_zip2)
    with that(1) show ?thesis by (auto simp: ap_def filter_empty_conv)
  qed
  note rest = rest [unfolded Let_def, folded ap_def]
  have acc: "ac_genesis (pj_account pj') = ac_genesis (pj_account pj1)
      \<and> ac_genesis_ts_ns (pj_account pj') = ac_genesis_ts_ns (pj_account pj1)
      \<and> ac_account_id (pj_account pj') = ac_account_id (pj_account pj1) \<and> pj_positions pj' = pj_positions pj2"
    using rest gone(1) by (auto simp: correct_cash_frame split: if_splits option.splits)
  have which: "(\<forall>c \<in> set cs. lc_changes c = []) \<and> gone = [] \<and> pj' = pj2 \<and> change = None
      \<or> (\<exists>h. change = Some h \<and> hc_fills h = cs \<and> hc_collateral h = gone)"
    using rest idle by (cases "ap = {} \<and> cash = None \<and> gone = []") auto
  show thesis
  proof (rule that [OF folds gone(2)])
    show "case change of None \<Rightarrow> gone = [] \<and> pj_account pj' = pj_account pj1 \<and> (\<forall>c \<in> set cs. lc_changes c = [])
       \<and> (\<exists>fs. fold_fills pj fs = Inr (pj1, cs) \<and> owners_ok fs)
     | Some h \<Rightarrow> hc_fills h = cs \<and> hc_collateral h = gone"
      using which
    proof
      assume a: "(\<forall>c \<in> set cs. lc_changes c = []) \<and> gone = [] \<and> pj' = pj2 \<and> change = None"
      have "\<exists>fs. fold_fills pj fs = Inr (pj1, cs) \<and> owners_ok fs" using f owners by blast
      with a gone(1) show ?thesis by simp
    qed (elim exE conjE; simp)
  qed (use acc folds gone(1) in \<open>simp_all add: folds_to_def\<close>)
qed

lemma fold_fill_idle:
  assumes "fold_fill pj f sd = Inr (pj', c)" "lc_changes c = []" "pj_ok pj" "bk_strategy f \<noteq> Some UNATTRIBUTED"
  shows "map_of (pj_positions pj') = map_of (pj_positions pj) \<and> pj_account pj' = pj_account pj"
proof -
  obtain p fresh where p: "partition_for pj f = (p, fresh)" by (cases "partition_for pj f")
  from assms(1) obtain changes q where a: "apply_fill p f sd = Inr (changes, q)"
    and l: "bind_res (lock_isolated_collateral (if changes = [] then pj else accrue_fill pj p q f) q changes) (\<lambda>q'.
      Inr (if fresh then (if changes = [] then pj else accrue_fill pj p q f)
           else refile (if changes = [] then pj else accrue_fill pj p q f) q',
        \<lparr>lc_position = q', lc_changes = changes, lc_fresh = fresh\<rparr>)) = Inr (pj', c)"
    unfolding fold_fill_def p Let_def prod.case by (elim bind_pair_InrE)
  from l assms(2) have none: "changes = []" by (auto simp: bind_res_eq_Inr)
  have "q = p" using apply_fill_booked(1,5) [OF a] none by blast
  with l none have pj': "pj' = (if fresh then pj else refile pj p)" by auto
  show ?thesis
  proof (cases fresh)
    case False
    with partition_for_ok [OF assms(3) p assms(4)] pj' show ?thesis by (auto simp: refile_def update_conv' fun_upd_idem)
  qed (simp add: pj')
qed

lemma fold_fills_idle:
  "fold_fills pj fs = Inr (pj', cs) \<Longrightarrow> \<forall>c \<in> set cs. lc_changes c = [] \<Longrightarrow> pj_ok pj \<Longrightarrow> owners_ok fs \<Longrightarrow>
    map_of (pj_positions pj') = map_of (pj_positions pj) \<and> pj_account pj' = pj_account pj"
proof (induction fs arbitrary: pj cs)
  case (Cons x fs)
  obtain f sd where x: "x = (f, sd)" by (cases x)
  from Cons.prems(1) obtain pj1 c cs1 where one: "fold_fill pj f sd = Inr (pj1, c)"
    and rest: "fold_fills pj1 fs = Inr (pj', cs1)" and cs: "cs = c # cs1"
    by (auto simp: x bind_res_eq_Inr)
  have own: "bk_strategy f \<noteq> Some UNATTRIBUTED" "owners_ok fs"
    using Cons.prems(4) by (auto simp: x owners_ok_def)
  have "map_of (pj_positions pj1) = map_of (pj_positions pj) \<and> pj_account pj1 = pj_account pj"
    by (rule fold_fill_idle [OF one _ Cons.prems(3) own(1)]) (use Cons.prems(2) cs in simp)
  moreover have "map_of (pj_positions pj') = map_of (pj_positions pj1) \<and> pj_account pj' = pj_account pj1"
    by (rule Cons.IH [OF rest _ _ own(2)])
      (use Cons.prems cs fold_fill_all [OF one Cons.prems(3) own(1)] in simp_all)
  ultimately show ?case by simp
qed simp

lemma checkpoint_heal_synced:
  assumes "checkpoint_heal ok ts cp fills cash snapshot = Inr (cp', change)" "cp_synced T cp"
  shows "cp_synced T cp'"
proof -
  from assms(1) obtain pj pj' change' where o: "require_open_ledger cp = Inr pj"
    and h: "apply_heal pj fills cash snapshot = Inr (pj', change')"
    and rest: "(case change' of
         None \<Rightarrow> Inr (cp\<lparr>cp_portfolio := pj'\<rparr>, None)
       | Some h \<Rightarrow>
           bind_res (checkpoint_ledger ok (cp_store cp) (pj_account pj') (heal_rows pj' h) None None ts) (\<lambda>s.
             Inr (cp\<lparr>cp_store := s, cp_portfolio := project_heal pj' h\<rparr>, Some h))) = Inr (cp', change)"
    unfolding checkpoint_heal_def by (auto simp only: bind_res_eq_Inr split_paired_Ex prod.case)
  have pj: "synced (cp_store cp) pj" using require_open_synced [OF o] assms(2) by (simp add: cp_synced_def)
  then have okpj: "pj_ok pj" by (simp add: synced_def)
  from h okpj show ?thesis
  proof (cases rule: apply_heal_cases)
    case (1 cs pj1 gone)
    note W = healed_written [OF 1(1) okpj 1(2) 1(3)]
    show ?thesis
    proof (cases change')
      case None
      then obtain fs where f: "fold_fills pj fs = Inr (pj1, cs)" "owners_ok fs" and n: "gone = []"
        "pj_account pj' = pj_account pj1" "\<forall>c \<in> set cs. lc_changes c = []" using 1(7) by auto
      have "map_of (pj_positions pj') = map_of (pj_positions pj) \<and> pj_account pj' = pj_account pj"
        using fold_fills_idle [OF f(1) n(3) okpj f(2)] 1(3) n by simp
      then have "synced (cp_store cp) pj'" using pj W(1) by (simp add: synced_def)
      with None rest assms(2) show ?thesis by (auto simp: cp_synced_def)
    next
      case (Some hc)
      then have hc: "hc_fills hc = cs" "hc_collateral hc = gone" using 1(7) by auto
      have cp': "cp' = cp\<lparr>cp_store := write_ledger (cp_store cp) (pj_account pj') (heal_rows pj' hc) None None ts,
          cp_portfolio := project_heal pj' hc\<rparr>"
        using rest Some by (auto simp: checkpoint_ledger_def transaction_def split: if_splits)
      have proj: "project_heal pj' hc = foldl project pj' cs" by (simp add: project_heal_def hc)
      have fresh: "\<forall>c \<in> set cs. position_ok (lc_position c) \<and> p_strategy_id (lc_position c) \<noteq> Some UNATTRIBUTED"
        using 1(1) unfolding folds_to_def by blast
      have "synced (write_ledger (cp_store cp) (pj_account (project_heal pj' hc)) (heal_rows pj' hc) None None ts)
          (project_heal pj' hc)"
      proof (rule synced_write [OF pj])
        show "pj_ok (project_heal pj' hc)" unfolding proj by (rule project_ok [OF fresh W(1)])
        show "map_of (pj_positions (project_heal pj' hc)) k =
            (case List.find (\<lambda>p. key_of p = k) (rev (heal_rows pj' hc)) of
               Some p \<Rightarrow> Some p | None \<Rightarrow> map_of (pj_positions pj) k)" for k
          unfolding find_refiled unfolding proj hc by (rule W(2))
        show "\<forall>p \<in> set (heal_rows pj' hc). p_strategy_id p \<noteq> Some UNATTRIBUTED \<and> position_ok p"
          using set_heal_rows [of pj' hc] W(3) unfolding hc by blast
      qed (use 1(4-6) in \<open>simp_all add: proj\<close>)
      then show ?thesis using assms(2) by (simp add: cp' proj cp_synced_def cache_agrees_off_def write_ledger_orders)
    qed
  qed
qed

section \<open>Every verb, and a run of them\<close>

datatype verb =
    Transition order
  | FillOf order order_env fill_body side
  | Leftover string
  | Heal "recon_fill list" "cash_correction option" "venue_account_state option"
  | Funding funding_accrual

text \<open>One verb, the outcome of its store write and its clock reading.\<close>

fun cp_step :: "checkpointer \<Rightarrow> verb \<times> bool \<times> int \<Rightarrow> checkpointer res" where
  "cp_step cp (Transition od, ok, ts) = cp_checkpoint ok ts cp od"
| "cp_step cp (FillOf od e b sd, ok, ts) = checkpoint_fill ok ts cp od e b sd"
| "cp_step cp (Leftover sy, ok, ts) = checkpoint_leftover ok ts cp sy"
| "cp_step cp (Heal fills cash snapshot, ok, ts) =
     bind_res (checkpoint_heal ok ts cp fills cash snapshot) (\<lambda>(cp', change). Inr cp')"
| "cp_step cp (Funding a, ok, ts) = checkpoint_funding ok ts cp a"

fun cp_run :: "checkpointer \<Rightarrow> (verb \<times> bool \<times> int) list \<Rightarrow> checkpointer res" where
  "cp_run cp [] = Inr cp"
| "cp_run cp (v # vs) = bind_res (cp_step cp v) (\<lambda>cp'. cp_run cp' vs)"

definition verb_ok :: "verb \<Rightarrow> bool" where
  "verb_ok v = (case v of FillOf od e b sd \<Rightarrow> ev_strategy_id e \<noteq> UNATTRIBUTED | _ \<Rightarrow> True)"

lemma write_order_synced: "synced s pj \<Longrightarrow> synced (write_order s od ts) pj"
  by (simp add: synced_def write_order_ok load_account_def row_at_def)

lemma cp_checkpoint_synced: "cp_checkpoint ok ts cp od = Inr cp' \<Longrightarrow> cp_synced T cp \<Longrightarrow> cp_synced T cp'"
  by (auto simp: cp_checkpoint_def bind_res_eq_Inr cp_synced_def cache_checkpoint_def checkpoint_order_def
    transaction_def write_order_synced project_agrees_off split: if_splits)

lemma cp_step_synced:
  assumes "cp_step cp v = Inr cp'" "cp_synced T cp" "verb_ok (fst v)"
  shows "cp_synced T cp'"
proof -
  obtain w ok ts where v: "v = (w, ok, ts)" by (cases v)
  show ?thesis
    using assms cp_checkpoint_synced checkpoint_fill_synced checkpoint_leftover_synced
      checkpoint_heal_synced checkpoint_funding_synced
    by (cases w) (auto simp: v verb_ok_def bind_res_eq_Inr)
qed

lemma cp_run_synced:
  "cp_run cp vs = Inr cp' \<Longrightarrow> cp_synced T cp \<Longrightarrow> \<forall>v \<in> set vs. verb_ok (fst v) \<Longrightarrow> cp_synced T cp'"
  by (induction vs arbitrary: cp) (auto simp: bind_res_eq_Inr dest: cp_step_synced)

end
