(* ===== verification/TW_Recovery.thy ===== *)
theory TW_Recovery
  imports TW_Checkpoint
begin

text \<open>
  What a crash costs: nothing that was written. The lemmas follow the store through any run
  of the checkpointer's verbs (\<open>src/src/tickwright/engine/checkpoint.py\<close>) with the laws of the
  locale \<open>ledger_store\<close>, and close the loop with the recovery of
  \<open>engine/portfolio.py\<close> and \<open>engine/cache.py\<close>: the account, the partitions and the orders that
  come back are the ones the engine held.
\<close>

section \<open>What a verb may do to the store\<close>

definition store_step :: "store \<Rightarrow> store \<Rightarrow> bool" where
  "store_step s s' \<longleftrightarrow> s' = s \<or> (\<exists>od ts. s' = write_order s od ts)
     \<or> (\<exists>a ps od mk ts. s' = write_ledger s a ps od mk ts \<and> sql.advances s mk)"

lemma advances_None [simp]: "sql.advances s None"
  by (simp add: sql.advances_def)

lemma store_stepI [intro, simp]:
  "store_step s s" "store_step s (write_order s od ts)"
  "sql.advances s mk \<Longrightarrow> store_step s (write_ledger s a ps x mk ts)"
  by (simp_all add: store_step_def) blast+

lemma write_changes_step: "write_changes ok ts cp pj cs od = Inr cp' \<Longrightarrow> store_step (cp_store cp) (cp_store cp')"
  by (auto simp: write_changes_def checkpoint_ledger_def transaction_def split: if_splits)

lemma cp_checkpoint_step: "cp_checkpoint ok ts cp od = Inr cp' \<Longrightarrow> store_step (cp_store cp) (cp_store cp')"
  by (auto simp: cp_checkpoint_def cache_checkpoint_def checkpoint_order_def transaction_def
    bind_res_eq_Inr split: if_splits)

lemma checkpoint_fill_step:
  "checkpoint_fill ok ts cp od e b sd = Inr cp' \<Longrightarrow> store_step (cp_store cp) (cp_store cp')"
  by (auto simp: checkpoint_fill_def bind_res_eq_Inr dest: write_changes_step)

lemma checkpoint_leftover_step:
  "checkpoint_leftover ok ts cp sy = Inr cp' \<Longrightarrow> store_step (cp_store cp) (cp_store cp')"
  by (auto simp: checkpoint_leftover_def bind_res_eq_Inr split: if_splits dest: write_changes_step)

lemma checkpoint_heal_step:
  assumes "checkpoint_heal ok ts cp fills cash snapshot = Inr (cp', change)"
  shows "store_step (cp_store cp) (cp_store cp')"
proof -
  from assms obtain pj pj' change' where
    rest: "(case change' of
         None \<Rightarrow> Inr (cp\<lparr>cp_portfolio := pj'\<rparr>, None)
       | Some h \<Rightarrow>
           bind_res (checkpoint_ledger ok (cp_store cp) (pj_account pj') (heal_rows pj' h) None None ts) (\<lambda>s.
             Inr (cp\<lparr>cp_store := s, cp_portfolio := project_heal pj' h\<rparr>, Some h))) = Inr (cp', change)"
    unfolding checkpoint_heal_def by (auto simp only: bind_res_eq_Inr split_paired_Ex prod.case)
  then show ?thesis
    by (cases change') (auto simp: checkpoint_ledger_def transaction_def split: if_splits)
qed

lemma funding_gate_advances:
  "funding_gate s pj a \<Longrightarrow> sql.advances s (Some (fa_symbol a, fa_boundary_ts_ns a))"
  by (auto simp: funding_gate_def sql.advances_def split: option.splits)

lemma apply_funding_mark:
  "apply_funding s pj a = Inr (pj', Some fc) \<Longrightarrow>
    fc_funding_mark fc = (fa_symbol a, fa_boundary_ts_ns a) \<and> funding_gate s pj a"
  by (auto simp: apply_funding_def bind_res_eq_Inr Let_def split: if_splits)

lemma checkpoint_funding_cases:
  assumes "checkpoint_funding ok ts cp a = Inr cp'"
  obtains (shut) pj where "require_open_ledger cp = Inr pj" "\<not> funding_gate (cp_store cp) pj a"
      "cp' = cp\<lparr>cp_portfolio := pj\<rparr>"
  | (applied) pj and pj' :: portfolio and ps where "require_open_ledger cp = Inr pj" "funding_gate (cp_store cp) pj a"
      "cp_store cp' = write_ledger (cp_store cp) (pj_account pj') ps None
        (Some (fa_symbol a, fa_boundary_ts_ns a)) ts"
proof -
  from assms obtain pj pj' change where o: "require_open_ledger cp = Inr pj"
    and f: "apply_funding (cp_store cp) pj a = Inr (pj', change)"
    and rest: "(case change of
         None \<Rightarrow> Inr (cp\<lparr>cp_portfolio := pj'\<rparr>)
       | Some fc \<Rightarrow>
           bind_res (checkpoint_ledger ok (cp_store cp) (pj_account pj') (fc_positions fc) None
               (Some (fc_funding_mark fc)) ts) (\<lambda>s.
             Inr (cp\<lparr>cp_store := s, cp_portfolio := pj'\<rparr>))) = Inr cp'"
    by (auto simp: checkpoint_funding_def bind_res_eq_Inr)
  show thesis
  proof (cases change)
    case None
    with f have "pj' = pj \<and> \<not> funding_gate (cp_store cp) pj a"
      by (auto simp: apply_funding_def bind_res_eq_Inr Let_def split: if_splits)
    with None rest o show ?thesis by (auto intro: shut)
  next
    case (Some fc)
    note M = apply_funding_mark [OF f [unfolded Some]]
    have "cp_store cp' = write_ledger (cp_store cp) (pj_account pj') (fc_positions fc) None
        (Some (fa_symbol a, fa_boundary_ts_ns a)) ts"
      using rest Some M by (auto simp: checkpoint_ledger_def transaction_def split: if_splits)
    with M o show ?thesis by (intro applied [of pj pj' "fc_positions fc"]) simp_all
  qed
qed

lemma checkpoint_funding_step:
  assumes "checkpoint_funding ok ts cp a = Inr cp'"
  shows "store_step (cp_store cp) (cp_store cp')"
  using assms
proof (cases rule: checkpoint_funding_cases)
  case (applied pj pj' ps)
  then show ?thesis using funding_gate_advances by simp
qed simp

lemma cp_step_store: "cp_step cp v = Inr cp' \<Longrightarrow> store_step (cp_store cp) (cp_store cp')"
proof -
  assume a: "cp_step cp v = Inr cp'"
  obtain w ok ts where v: "v = (w, ok, ts)" by (cases v)
  show ?thesis
    using a cp_checkpoint_step checkpoint_fill_step checkpoint_leftover_step checkpoint_heal_step
      checkpoint_funding_step
    by (cases w) (auto simp: v bind_res_eq_Inr)
qed

section \<open>Genesis and marks along a run\<close>

lemma store_step_genesis:
  assumes "store_step s s'" "load_account s = Some b"
  shows "\<exists>c. load_account s' = Some (b\<lparr>ac_cash := c\<rparr>)"
  using assms(1) unfolding store_step_def
proof (elim disjE exE conjE)
  fix a ps od mk ts
  assume "s' = write_ledger s a ps od mk ts"
  then show ?thesis
    using sql.genesis_kept [OF assms(2), of "[(a, ps, od, mk, ts)]"] by (simp add: sql.record_all_def)
next
  assume "s' = s"
  with assms(2) show ?thesis by (auto intro: exI [of _ "ac_cash b"])
next
  fix od ts
  assume "s' = write_order s od ts"
  with assms(2) show ?thesis by (auto simp: load_account_def intro!: exI [of _ "ac_cash b"])
qed

lemma store_step_mark:
  assumes "store_step s s'" "funding_mark s sy = Some m"
  shows "\<exists>m'. funding_mark s' sy = Some m' \<and> m \<le> m'"
  using assms(1) unfolding store_step_def
proof (elim disjE exE conjE)
  fix a ps od mk ts
  assume "s' = write_ledger s a ps od mk ts" "sql.advances s mk"
  then show ?thesis using sql.mark_monotone [OF _ assms(2)] by blast
qed (use assms(2) in \<open>auto simp: funding_mark_def\<close>)

lemma cp_run_genesis:
  "cp_run cp vs = Inr cp' \<Longrightarrow> load_account (cp_store cp) = Some b \<Longrightarrow>
    \<exists>c. load_account (cp_store cp') = Some (b\<lparr>ac_cash := c\<rparr>)"
proof (induction vs arbitrary: cp b)
  case Nil
  then show ?case by (auto intro: exI [of _ "ac_cash b"])
next
  case (Cons v vs)
  from Cons.prems(1) obtain cp1 where s: "cp_step cp v = Inr cp1" "cp_run cp1 vs = Inr cp'"
    by (auto simp: bind_res_eq_Inr)
  from store_step_genesis [OF cp_step_store [OF s(1)] Cons.prems(2)] obtain c where
    "load_account (cp_store cp1) = Some (b\<lparr>ac_cash := c\<rparr>)" by blast
  from Cons.IH [OF s(2) this] show ?case by simp
qed

lemma cp_run_mark:
  "cp_run cp vs = Inr cp' \<Longrightarrow> funding_mark (cp_store cp) sy = Some m \<Longrightarrow>
    \<exists>m'. funding_mark (cp_store cp') sy = Some m' \<and> m \<le> m'"
proof (induction vs arbitrary: cp m)
  case (Cons v vs)
  from Cons.prems(1) obtain cp1 where s: "cp_step cp v = Inr cp1" "cp_run cp1 vs = Inr cp'"
    by (auto simp: bind_res_eq_Inr)
  from store_step_mark [OF cp_step_store [OF s(1)] Cons.prems(2)] obtain m1 where
    m: "funding_mark (cp_store cp1) sy = Some m1" "m \<le> m1" by blast
  from Cons.IH [OF s(2) m(1)] m(2) show ?case by force
qed simp

section \<open>What a recovery reads back\<close>

lemma key_of_restored: "key_of (restore_position r) = (owner_of (rw_strategy_id r), rw_symbol r)"
  by (simp add: key_of_def restore_position_def)

lemma owner_of_inj: "owner_of a = owner_of b \<longleftrightarrow> a = b"
  by (simp add: owner_of_def)

lemma owner_of_name: "owner_of a = st \<longleftrightarrow> st \<noteq> Some UNATTRIBUTED \<and> a = owner_name st"
  by (auto simp: owner_of_def owner_name_def split: option.splits)

lemma recovered_lookup:
  assumes "store_ok s"
  shows "dict_of (map (\<lambda>p. (key_of p, p)) (all_positions s)) = map (\<lambda>p. (key_of p, p)) (all_positions s)"
    and "map_of (map (\<lambda>p. (key_of p, p)) (all_positions s)) (st, sy) =
      (if st = Some UNATTRIBUTED then None else row_at s st sy)"
proof -
  define rows where "rows = map snd (st_positions s)"
  have keys: "map (\<lambda>r. (rw_strategy_id r, rw_symbol r)) rows = map fst (st_positions s)"
    unfolding rows_def map_map using assms by (intro map_cong) (auto simp: store_ok_def)
  have "distinct (map (\<lambda>r. (rw_strategy_id r, rw_symbol r)) rows)"
    using assms by (simp only: keys) (simp add: store_ok_def dict_ok_def)
  then have "distinct (map (\<lambda>r. (owner_of (rw_strategy_id r), rw_symbol r)) rows)"
    by (simp add: distinct_map inj_on_def owner_of_inj)
  then have d: "distinct (map (\<lambda>r. key_of (restore_position r)) (sort_by row_le rows))"
    by (simp add: key_of_restored)
  have ap: "all_positions s = map restore_position (sort_by row_le rows)"
    by (simp add: all_positions_def rows_def)
  show "dict_of (map (\<lambda>p. (key_of p, p)) (all_positions s)) = map (\<lambda>p. (key_of p, p)) (all_positions s)"
    using d by (intro dict_of_distinct) (simp add: ap comp_def)
  have ok: "dict_ok (map (\<lambda>p. (key_of p, p)) (all_positions s))"
    using d by (simp add: dict_ok_def ap comp_def)
  have "p \<in> set (all_positions s) \<longleftrightarrow> (\<exists>r \<in> set rows. p = restore_position r)" for p
    by (simp add: ap image_iff)
  moreover have "(k, p) \<in> set (map (\<lambda>p. (key_of p, p)) ps) \<longleftrightarrow> p \<in> set ps \<and> key_of p = k" for k p ps
    by (induction ps) auto
  ultimately have listed: "(k, p) \<in> set (map (\<lambda>p. (key_of p, p)) (all_positions s)) \<longleftrightarrow>
      (\<exists>r \<in> set rows. p = restore_position r \<and> key_of p = k)" for k p
    by blast
  have row_in: "r \<in> set rows \<and> (rw_strategy_id r, rw_symbol r) = k \<longleftrightarrow> (k, r) \<in> set (st_positions s)" for r k
  proof -
    have "\<forall>e \<in> set (st_positions s). fst e = (rw_strategy_id (snd e), rw_symbol (snd e))"
      using assms by (auto simp: store_ok_def)
    then show ?thesis unfolding rows_def set_map image_iff by (metis fst_conv prod.collapse snd_conv)
  qed
  have "map_of (map (\<lambda>p. (key_of p, p)) (all_positions s)) (st, sy) = Some p \<longleftrightarrow>
      st \<noteq> Some UNATTRIBUTED \<and> row_at s st sy = Some p" for p
  proof -
    have "map_of (map (\<lambda>p. (key_of p, p)) (all_positions s)) (st, sy) = Some p \<longleftrightarrow>
        (\<exists>r \<in> set rows. p = restore_position r \<and> key_of p = (st, sy))"
      unfolding dict_ok_map_of_iff [OF ok] listed by blast
    also have "\<dots> \<longleftrightarrow> (\<exists>r. (r \<in> set rows \<and> (rw_strategy_id r, rw_symbol r) = (owner_name st, sy))
        \<and> p = restore_position r \<and> st \<noteq> Some UNATTRIBUTED)"
      unfolding Bex_def by (intro arg_cong [of _ _ Ex] ext) (use owner_of_name in \<open>auto simp: key_of_restored\<close>)
    also have "\<dots> \<longleftrightarrow> st \<noteq> Some UNATTRIBUTED \<and>
        (\<exists>r. ((owner_name st, sy), r) \<in> set (st_positions s) \<and> p = restore_position r)"
      unfolding row_in by blast
    also have "\<dots> \<longleftrightarrow> st \<noteq> Some UNATTRIBUTED \<and> row_at s st sy = Some p"
      using assms unfolding row_at_def map_option_eq_Some
      by (subst dict_ok_map_of_iff) (auto simp: store_ok_def)
    finally show ?thesis .
  qed
  then show "map_of (map (\<lambda>p. (key_of p, p)) (all_positions s)) (st, sy) =
      (if st = Some UNATTRIBUTED then None else row_at s st sy)"
    by (cases "row_at s st sy"; cases "map_of (map (\<lambda>p. (key_of p, p)) (all_positions s)) (st, sy)") auto
qed

text \<open>The account of a spec: the one it declares, under its own id.\<close>

definition account_of_spec :: "account_spec \<Rightarrow> account \<Rightarrow> bool" where
  "account_of_spec spec a \<longleftrightarrow> ac_account_id a = as_account_id spec
     \<and> (declares_genesis spec \<longrightarrow> Some (ac_genesis a) = as_genesis spec)"

definition applied_cleared :: "position \<Rightarrow> position" where
  "applied_cleared p = p\<lparr>p_applied := {}\<rparr>"

lemma recover_synced_store:
  assumes "synced s pj" "account_of_spec spec (pj_account pj)"
    and cp0: "cp0 = make_checkpointer spec s t lev specs"
  shows "\<exists>cp1. cp_recover ok now cp0 = Inr cp1 \<and> cp_synced {} cp1 \<and> cp_store cp1 = s
     \<and> pj_account (cp_portfolio cp1) = pj_account pj
     \<and> (\<forall>k. map_of (pj_positions (cp_portfolio cp1)) k = map_option applied_cleared (map_of (pj_positions pj) k))
     \<and> (\<forall>cloid. cached_order (cp_cache cp1) cloid = get_order s cloid)"
proof -
  have ok: "store_ok s" and acc: "load_account s = Some (pj_account pj)" and pj: "pj_ok pj"
    and rows: "\<And>st sy. st \<noteq> Some UNATTRIBUTED \<Longrightarrow>
      row_at s st sy = map_option applied_cleared (map_of (pj_positions pj) (st, sy))"
    using assms(1) by (auto simp: synced_def applied_cleared_def [abs_def])
  define pj1 where "pj1 = (cp_portfolio cp0)\<lparr>pj_account := pj_account pj, pj_opened := True,
    pj_positions := dict_of (map (\<lambda>p. (key_of p, p)) (all_positions s))\<rparr>"
  define cp1 where "cp1 = cp0\<lparr>cp_store := s, cp_portfolio := pj1, cp_cache := rebuild_cache s\<rparr>"
  have "refuse_disagreement s (cp_portfolio cp0) (load_account s) = Inr ()"
    using assms(2) by (auto simp: refuse_disagreement_def acc cp0 make_checkpointer_def make_portfolio_def account_of_spec_def)
  then have run: "cp_recover ok now cp0 = Inr cp1"
    using cp0 by (simp add: cp_recover_def recover_def acc pj1_def cp1_def make_checkpointer_def)
  have look: "map_of (pj_positions pj1) k = map_option applied_cleared (map_of (pj_positions pj) k)" for k
  proof (cases k)
    case (Pair st sy)
    have "map_of (pj_positions pj) (Some UNATTRIBUTED, sy) = None"
      using pj_ok_lookup [OF pj, of "(Some UNATTRIBUTED, sy)"]
      by (cases "map_of (pj_positions pj) (Some UNATTRIBUTED, sy)") (auto simp: key_of_def)
    then show ?thesis
      by (simp add: pj1_def recovered_lookup [OF ok] Pair rows)
  qed
  have "pj_ok pj1"
    unfolding pj_ok_def
  proof
    show d: "dict_ok (pj_positions pj1)" by (simp add: pj1_def)
    show "\<forall>e \<in> set (pj_positions pj1). filed_ok e"
    proof
      fix e assume "e \<in> set (pj_positions pj1)"
      then have "map_of (pj_positions pj1) (fst e) = Some (snd e)" using d by (simp add: dict_ok_map_of_iff)
      then obtain p where "map_of (pj_positions pj) (fst e) = Some p" "snd e = applied_cleared p"
        by (auto simp: look)
      with pj_ok_lookup [OF pj] show "filed_ok e"
        by (fastforce simp: filed_ok_def applied_cleared_def key_of_def position_ok_def)
    qed
  qed
  moreover have "pj_account pj1 = pj_account pj" by (simp add: pj1_def)
  moreover have "map_option (\<lambda>p. p\<lparr>p_applied := {}\<rparr>) (map_of (pj_positions pj1) (st, sy)) =
      map_option applied_cleared (map_of (pj_positions pj) (st, sy))" for st sy
    by (simp add: look option.map_comp comp_def applied_cleared_def [abs_def])
  ultimately have "synced s pj1" using ok acc rows by (simp add: synced_def)
  moreover have "cache_agrees s (rebuild_cache s)" by (rule rebuild_agrees [OF ok])
  ultimately show ?thesis
    using run look by (auto simp: cp1_def cp_synced_def cache_agrees_off_empty cache_agrees_def pj1_def)
qed

text \<open>A first start on an empty store opens the declared account.\<close>

lemma first_recover:
  assumes "declares_genesis spec" "cp_recover ok now (make_checkpointer spec empty_store t lev specs) = Inr cp0"
  shows "cp_synced {} cp0" "account_of_spec spec (pj_account (cp_portfolio cp0))"
proof -
  have cp0: "cp0 = (make_checkpointer spec empty_store t lev specs)
      \<lparr>cp_store := write_ledger empty_store (open_account spec t) [] None None now,
       cp_portfolio := (make_portfolio spec t lev specs)\<lparr>pj_opened := True\<rparr>,
       cp_cache := rebuild_cache (write_ledger empty_store (open_account spec t) [] None None now)\<rparr>"
    using assms by (auto simp: cp_recover_def recover_def refuse_disagreement_def load_account_def empty_store_def
      make_checkpointer_def seed_genesis_def make_portfolio_def checkpoint_ledger_def transaction_def has_orders_def
      bind_res_eq_Inr split: if_splits)
  have e: "store_ok empty_store" by (simp add: store_ok_def empty_store_def)
  have w: "store_ok (write_ledger empty_store (open_account spec t) [] None None now)" by (rule write_ledger_ok [OF e])
  have "load_account empty_store = None" by (simp add: load_account_def empty_store_def)
  then have "synced (cp_store cp0) (cp_portfolio cp0)"
    using w by (simp add: cp0 synced_def write_ledger_account pj_ok_def make_portfolio_def row_at_def) (simp add: empty_store_def)
  then show "cp_synced {} cp0" using rebuild_agrees [OF w] by (simp add: cp_synced_def cp0 cache_agrees_off_empty)
  show "account_of_spec spec (pj_account (cp_portfolio cp0))"
    using assms(1) by (auto simp: cp0 account_of_spec_def make_portfolio_def open_account_def make_account_def
      declares_genesis_def)
qed

lemma run_account_of_spec:
  assumes "cp_run cp vs = Inr cp'" "cp_synced {} cp" "\<forall>v \<in> set vs. verb_ok (fst v)"
    and "account_of_spec spec (pj_account (cp_portfolio cp))"
  shows "account_of_spec spec (pj_account (cp_portfolio cp'))"
proof -
  have "cp_synced {} cp'" by (rule cp_run_synced [OF assms(1-3)])
  then have a: "load_account (cp_store cp') = Some (pj_account (cp_portfolio cp'))" by (simp add: cp_synced_def synced_def)
  have "load_account (cp_store cp) = Some (pj_account (cp_portfolio cp))"
    using assms(2) by (simp add: cp_synced_def synced_def)
  from cp_run_genesis [OF assms(1) this] a assms(4) show ?thesis by (auto simp: account_of_spec_def)
qed

section \<open>A run of the demo account\<close>

definition demo_account_spec :: "account_spec" where
  "demo_account_spec = \<lparr>as_account_id = ''acct'', as_netting = NET, as_genesis = Some 1000\<rparr>"

definition demo_start :: "checkpointer" where
  "demo_start = make_checkpointer demo_account_spec empty_store 5 [] [(''BTC'', demo_spec)]"

definition demo_env :: "order_env" where
  "demo_env = \<lparr>ev_ts_event = 7, ev_ts_init = 7, ev_cloid = ''0xab'', ev_strategy_id = ''demo'',
     ev_signal_id = ''demo:BTC:1'', ev_symbol = ''BTC'', ev_venue_oid = None, ev_reconciliation = False\<rparr>"

definition demo_body :: "fill_body" where
  "demo_body = \<lparr>fb_trade_id = ''t1'', fb_quantity = 4, fb_price = 100, fb_cum_qty = 4, fb_fee = 1\<rparr>"

definition demo_accrual :: "int \<Rightarrow> funding_accrual" where
  "demo_accrual b = \<lparr>fa_ts_event = b, fa_account_id = ''acct'', fa_symbol = ''BTC'', fa_boundary_ts_ns = b, fa_amount = - 2\<rparr>"

definition ran :: "'a res \<Rightarrow> bool" where
  "ran r = (case r of Inr _ \<Rightarrow> True | Inl _ \<Rightarrow> False)"

lemma ran_iff: "ran r \<longleftrightarrow> (\<exists>x. r = Inr x)"
  by (cases r) (simp_all add: ran_def)

definition demo_verbs :: "(verb \<times> bool \<times> int) list" where
  "demo_verbs = [(FillOf demo_order demo_env demo_body BUY, True, 9), (Funding (demo_accrual 20), True, 21)]"

lemma demo_opens: "ran (cp_recover True 5 demo_start)" by code_simp

lemma demo_life: "ran (bind_res (cp_recover True 5 demo_start) (\<lambda>cp. cp_run cp demo_verbs))" by code_simp

lemma demo_verbs_ok: "\<forall>v \<in> set demo_verbs. verb_ok (fst v)"
  by (simp add: demo_verbs_def verb_ok_def demo_env_def UNATTRIBUTED_def)

lemma demo_synced: "cp_recover True 5 demo_start = Inr cp0 \<Longrightarrow> cp_synced {} cp0"
  using first_recover(1) [of demo_account_spec] by (simp add: demo_start_def demo_account_spec_def declares_genesis_def)

section \<open>The properties\<close>

text \<open>
  C2. A crash loses nothing. Start on an empty store with a declared genesis, run any sequence
  of the checkpointer's verbs, and start a new process on the store that run left behind:
  the recovery succeeds, writes nothing, and comes back with the account, every partition
  (less the applied ids, which the row does not hold) and every order the old process held.
\<close>

theorem crash_recovery:
  assumes "declares_genesis spec"
    and "cp_recover ok now (make_checkpointer spec empty_store t lev specs) = Inr cp0"
    and "cp_run cp0 vs = Inr cp" and "\<forall>v \<in> set vs. verb_ok (fst v)"
  shows "\<exists>cp1. cp_recover ok' now' (make_checkpointer spec (cp_store cp) t' lev' specs') = Inr cp1
     \<and> cp_store cp1 = cp_store cp \<and> pj_account (cp_portfolio cp1) = pj_account (cp_portfolio cp)
     \<and> (\<forall>k. map_of (pj_positions (cp_portfolio cp1)) k =
          map_option applied_cleared (map_of (pj_positions (cp_portfolio cp)) k))
     \<and> (\<forall>cloid. cached_order (cp_cache cp1) cloid = cached_order (cp_cache cp) cloid)"
proof -
  note first = first_recover [OF assms(1,2)]
  have syn: "cp_synced {} cp" by (rule cp_run_synced [OF assms(3) first(1) assms(4)])
  have acc: "account_of_spec spec (pj_account (cp_portfolio cp))"
    by (rule run_account_of_spec [OF assms(3) first(1) assms(4) first(2)])
  have "synced (cp_store cp) (cp_portfolio cp)" using syn by (simp add: cp_synced_def)
  from recover_synced_store [OF this acc refl] obtain cp1 where
    "cp_recover ok' now' (make_checkpointer spec (cp_store cp) t' lev' specs') = Inr cp1"
    "cp_store cp1 = cp_store cp" "pj_account (cp_portfolio cp1) = pj_account (cp_portfolio cp)"
    "\<forall>k. map_of (pj_positions (cp_portfolio cp1)) k =
       map_option applied_cleared (map_of (pj_positions (cp_portfolio cp)) k)"
    "\<forall>cloid. cached_order (cp_cache cp1) cloid = get_order (cp_store cp) cloid" by blast
  then show ?thesis using syn by (auto simp: cp_synced_def cache_agrees_off_empty cache_agrees_def)
qed

theorem crash_recovery_witness:
  "\<exists>cp0 cp cp1. cp_recover True 5 demo_start = Inr cp0 \<and> cp_run cp0 demo_verbs = Inr cp
     \<and> cp_recover True 30 (make_checkpointer demo_account_spec (cp_store cp) 30 [] []) = Inr cp1
     \<and> pj_account (cp_portfolio cp1) = pj_account (cp_portfolio cp)"
proof -
  from demo_life obtain cp0 cp where run: "cp_recover True 5 demo_start = Inr cp0" "cp_run cp0 demo_verbs = Inr cp"
    unfolding ran_iff by (auto simp: bind_res_eq_Inr)
  have d: "declares_genesis demo_account_spec" by code_simp
  from crash_recovery [OF d run(1) [unfolded demo_start_def] run(2) demo_verbs_ok] run show ?thesis by blast
qed

text \<open>The facts that settle a boundary: inside genesis, or at or before the durable mark.\<close>

definition settled :: "store \<Rightarrow> string \<Rightarrow> int \<Rightarrow> bool" where
  "settled s sy b \<longleftrightarrow> (\<exists>a. load_account s = Some a \<and> b \<le> ac_genesis_ts_ns a)
     \<or> (\<exists>m. funding_mark s sy = Some m \<and> b \<le> m)"

lemma checkpoint_funding_settles:
  assumes "checkpoint_funding ok ts cp a = Inr cp'" "cp_synced {} cp"
  shows "settled (cp_store cp') (fa_symbol a) (fa_boundary_ts_ns a)"
  using assms(1)
proof (cases rule: checkpoint_funding_cases)
  case (shut pj)
  have "synced (cp_store cp) pj" using require_open_synced [OF shut(1)] assms(2) by (simp add: cp_synced_def)
  then show ?thesis
    using shut(2,3) by (auto simp: settled_def synced_def funding_gate_def split: option.splits)
next
  case (applied pj pj' ps)
  then show ?thesis by (simp add: settled_def write_ledger_mark)
qed

lemma settled_run:
  assumes "settled (cp_store cp) sy b" "cp_run cp vs = Inr cp'"
  shows "settled (cp_store cp') sy b"
  using assms(1) unfolding settled_def
proof (elim disjE exE conjE)
  fix a assume a: "load_account (cp_store cp) = Some a" "b \<le> ac_genesis_ts_ns a"
  from cp_run_genesis [OF assms(2) a(1)] a(2) show "(\<exists>a. load_account (cp_store cp') = Some a \<and> b \<le> ac_genesis_ts_ns a)
     \<or> (\<exists>m. funding_mark (cp_store cp') sy = Some m \<and> b \<le> m)" by auto
next
  fix m assume m: "funding_mark (cp_store cp) sy = Some m" "b \<le> m"
  from cp_run_mark [OF assms(2) m(1)] m(2) show "(\<exists>a. load_account (cp_store cp') = Some a \<and> b \<le> ac_genesis_ts_ns a)
     \<or> (\<exists>m. funding_mark (cp_store cp') sy = Some m \<and> b \<le> m)" by (auto intro: order_trans)
qed

lemma settled_shuts:
  assumes "settled (cp_store cp) (fa_symbol a) (fa_boundary_ts_ns a)" "cp_synced {} cp"
  shows "checkpoint_funding ok ts cp a = Inr (cp\<lparr>cp_portfolio := (cp_portfolio cp)\<lparr>pj_opened := True\<rparr>\<rparr>)"
proof -
  have l: "load_account (cp_store cp) = Some (pj_account (cp_portfolio cp))"
    using assms(2) by (simp add: cp_synced_def synced_def)
  then have "\<not> funding_gate (cp_store cp) ((cp_portfolio cp)\<lparr>pj_opened := True\<rparr>) a"
    using assms(1) by (auto simp: settled_def funding_gate_def)
  then show ?thesis
    using l by (simp add: checkpoint_funding_def require_open_ledger_def is_opened_def apply_funding_def)
qed

text \<open>
  C13. Funding is applied at most once for a symbol and a boundary. After an accrual was handed
  to the checkpointer, and whatever verbs follow, an accrual of the same symbol at the same or
  an earlier boundary is accepted and changes neither the store, nor the account, nor a partition.
\<close>

theorem funding_applied_once:
  assumes "cp_synced {} cp" and "checkpoint_funding ok ts cp a = Inr cp1"
    and "cp_run cp1 vs = Inr cp2" and "\<forall>v \<in> set vs. verb_ok (fst v)"
    and "fa_symbol a' = fa_symbol a" and "fa_boundary_ts_ns a' \<le> fa_boundary_ts_ns a"
  shows "\<exists>cp3. checkpoint_funding ok' ts' cp2 a' = Inr cp3 \<and> cp_store cp3 = cp_store cp2
     \<and> pj_account (cp_portfolio cp3) = pj_account (cp_portfolio cp2)
     \<and> pj_positions (cp_portfolio cp3) = pj_positions (cp_portfolio cp2)"
proof -
  have syn1: "cp_synced {} cp1" by (rule checkpoint_funding_synced [OF assms(2,1)])
  have syn2: "cp_synced {} cp2" by (rule cp_run_synced [OF assms(3) syn1 assms(4)])
  have "settled (cp_store cp2) (fa_symbol a) (fa_boundary_ts_ns a)"
    by (rule settled_run [OF checkpoint_funding_settles [OF assms(2,1)] assms(3)])
  then have "settled (cp_store cp2) (fa_symbol a') (fa_boundary_ts_ns a')"
    using assms(5,6) by (auto simp: settled_def intro: order_trans)
  from settled_shuts [OF this syn2] show ?thesis by simp
qed

theorem funding_applied_once_witness:
  "\<exists>cp0 cp1 cp2 cp3. cp_recover True 5 demo_start = Inr cp0
     \<and> checkpoint_funding True 8 cp0 (demo_accrual 7) = Inr cp1 \<and> cp_run cp1 demo_verbs = Inr cp2
     \<and> checkpoint_funding True 40 cp2 (demo_accrual 7) = Inr cp3 \<and> cp_store cp3 = cp_store cp2"
proof -
  have "ran (bind_res (cp_recover True 5 demo_start) (\<lambda>cp0.
      bind_res (checkpoint_funding True 8 cp0 (demo_accrual 7)) (\<lambda>cp1. cp_run cp1 demo_verbs)))" by code_simp
  then obtain cp0 cp1 cp2 where run: "cp_recover True 5 demo_start = Inr cp0"
    "checkpoint_funding True 8 cp0 (demo_accrual 7) = Inr cp1" "cp_run cp1 demo_verbs = Inr cp2"
    unfolding ran_iff by (auto simp: bind_res_eq_Inr)
  from funding_applied_once [OF demo_synced [OF run(1)] run(2,3) demo_verbs_ok refl order_refl] run
  show ?thesis by blast
qed

text \<open>
  No ledger write before the account is open. While neither the portfolio nor the store has
  an account, a fill, a heal and a funding accrual are refused, so nothing they carry can be
  written without the account row it belongs to.
\<close>

theorem unopened_refuses:
  assumes "\<not> is_opened (cp_store cp) (cp_portfolio cp)"
  shows "checkpoint_fill ok ts cp od e b sd = Inl (InvariantViolation LedgerNotOpen)
     \<and> checkpoint_heal ok ts cp fills cash snapshot = Inl (InvariantViolation LedgerNotOpen)
     \<and> checkpoint_funding ok ts cp a = Inl (InvariantViolation LedgerNotOpen)"
  using assms by (simp add: checkpoint_fill_def checkpoint_heal_def checkpoint_funding_def require_open_ledger_def)

theorem unopened_refuses_witness:
  "checkpoint_funding True 8 (make_checkpointer (demo_account_spec\<lparr>as_genesis := None\<rparr>) empty_store 5 [] [])
     (demo_accrual 7) = Inl (InvariantViolation LedgerNotOpen)"
proof -
  have "\<not> is_opened (cp_store (make_checkpointer (demo_account_spec\<lparr>as_genesis := None\<rparr>) empty_store 5 [] []))
      (cp_portfolio (make_checkpointer (demo_account_spec\<lparr>as_genesis := None\<rparr>) empty_store 5 [] []))"
    by code_simp
  from unopened_refuses [OF this] show ?thesis by blast
qed

end
