(* ===== verification/TW_Guard.thy ===== *)
theory TW_Guard
  imports TW_Positions TW_Instruments
begin

text \<open>
  The pre-trade guard, \<open>src/src/tickwright/engine/guard.py\<close>: the kill switch, the
  quantization and min-notional checks, the optional caps and the rate cap. \<open>check\<close> is
  \<open>RealGuard.check\<close> with its early returns in order; the guard's state is the kill-switch
  flag and the queue of approval times. The clock is read at most twice per check, and the
  two readings are the arguments \<open>now_mark\<close> and \<open>now_rate\<close>. Durations are in nanoseconds,
  as \<open>duration_ns\<close> returns them; the figure a refusal quotes after its sentence is left out.
\<close>

section \<open>Limits\<close>

record symbol_limits =
  sl_max_order_size :: "decimal option"
  sl_max_order_value :: "decimal option"
  sl_max_position :: "decimal option"

definition NO_SYMBOL_LIMITS :: "symbol_limits" where
  "NO_SYMBOL_LIMITS = \<lparr>sl_max_order_size = None, sl_max_order_value = None, sl_max_position = None\<rparr>"

text \<open>\<open>SymbolLimits.__post_init__\<close>: a cap that is set is positive.\<close>

definition make_symbol_limits ::
  "decimal option \<Rightarrow> decimal option \<Rightarrow> decimal option \<Rightarrow> symbol_limits res" where
  "make_symbol_limits a b c =
     (if \<exists>cap \<in> set [a, b, c]. \<exists>x \<in> set_option cap. x \<le> 0 then Inl ValueError
      else Inr \<lparr>sl_max_order_size = a, sl_max_order_value = b, sl_max_position = c\<rparr>)"

record rate_cap =
  rc_max_orders :: int
  rc_window_ns :: int

definition make_rate_cap :: "int \<Rightarrow> int \<Rightarrow> rate_cap res" where
  "make_rate_cap n w = (if n \<le> 0 \<or> w < 1 then Inl ValueError
     else Inr \<lparr>rc_max_orders = n, rc_window_ns = w\<rparr>)"

record limits =
  lm_symbols :: "(string, symbol_limits) dict"
  lm_mark_max_age_ns :: int
  lm_rate_cap :: "rate_cap option"

datatype order_kind = PLAIN | REDUCE_ONLY | FLATTEN

definition order_kind_of :: "place_signal \<Rightarrow> order_kind" where
  "order_kind_of s = (if is_flatten s then FLATTEN else if ps_reduce_only s then REDUCE_ONLY else PLAIN)"

definition shrinks :: "decimal \<Rightarrow> decimal \<Rightarrow> bool" where
  "shrinks before after \<longleftrightarrow>
     dabs after < dabs before \<and> (after = 0 \<or> (0 < after) = (0 < before))"

section \<open>The guard\<close>

record guard =
  g_specs :: "(string, instrument_spec) dict"
  g_limits :: limits
  g_tripped :: bool
  g_approved_ns :: "int list"

text \<open>The constructor restores the persisted kill switch.\<close>

definition make_guard :: "(string, instrument_spec) dict \<Rightarrow> limits \<Rightarrow> kill_switch_state option \<Rightarrow> guard" where
  "make_guard specs lm restored =
     \<lparr>g_specs = specs, g_limits = lm,
      g_tripped = (case restored of None \<Rightarrow> False | Some k \<Rightarrow> ks_tripped k),
      g_approved_ns = []\<rparr>"

text \<open>
  A trip or a reset writes the store first and changes the live flag only when the write
  returned; \<open>write_ok\<close> is the outcome of that write. The second component is the row saved.
\<close>

definition set_kill_switch ::
  "guard \<Rightarrow> bool \<Rightarrow> string option \<Rightarrow> int \<Rightarrow> bool \<Rightarrow> (guard \<times> kill_switch_state) res" where
  "set_kill_switch g tripped why now write_ok =
     (if write_ok then
        Inr (g\<lparr>g_tripped := tripped\<rparr>, \<lparr>ks_tripped = tripped, ks_reason = why, ks_ts_ns = now\<rparr>)
      else Inl (InvariantViolation StoreWriteFailed))"

text \<open>The rate gate: prune what left the window, then refuse or record.\<close>

definition prune :: "int \<Rightarrow> int \<Rightarrow> int list \<Rightarrow> int list" where
  "prune window now ts = dropWhile (\<lambda>t. window \<le> now - t) ts"

definition rate_gate :: "rate_cap \<Rightarrow> int \<Rightarrow> int list \<Rightarrow> bool \<times> int list" where
  "rate_gate cap now ts =
     (let d = prune (rc_window_ns cap) now ts
      in if rc_max_orders cap \<le> int (length d) then (False, d) else (True, d @ [now]))"

text \<open>The max-order-value cap: the reason to refuse, if any.\<close>

definition value_refusal ::
  "limits \<Rightarrow> decimal \<Rightarrow> side \<Rightarrow> decimal \<Rightarrow> decimal option \<Rightarrow> mark_tick option \<Rightarrow> int \<Rightarrow> string option" where
  "value_refusal lm cap sd quantity price mark now_mark =
     (case price of
        Some p \<Rightarrow>
          if sd = SELL then
            (case mark of
               None \<Rightarrow> Some ''no mark for max order value''
             | Some m \<Rightarrow>
                 if lm_mark_max_age_ns lm < now_mark - mt_ts_event m then Some ''stale mark for max order value''
                 else if cap < dmul quantity (max p (mt_price m)) then Some ''above max order value''
                 else None)
          else if cap < dmul quantity p then Some ''above max order value'' else None
      | None \<Rightarrow>
          (case mark of
             None \<Rightarrow> Some ''no mark for max order value''
           | Some m \<Rightarrow>
               if lm_mark_max_age_ns lm < now_mark - mt_ts_event m then Some ''stale mark for max order value''
               else if cap < dmul quantity (mt_price m) then Some ''above max order value''
               else None))"

text \<open>Every cap up to the rate cap, for a quantized order: the first reason to refuse.\<close>

definition before_size :: "place_signal \<Rightarrow> pre_trade_reading \<Rightarrow> decimal" where
  "before_size s r = dadd (pr_account_net_size r) (dmul (direction_of (ps_side s)) (pr_open_remainder r))"

definition worst_case :: "place_signal \<Rightarrow> pre_trade_reading \<Rightarrow> decimal \<Rightarrow> decimal" where
  "worst_case s r q = dadd (before_size s r) (dmul (direction_of (ps_side s)) q)"

definition own_before :: "place_signal \<Rightarrow> pre_trade_reading \<Rightarrow> decimal" where
  "own_before s r = dadd (pr_strategy_net_size r) (dmul (direction_of (ps_side s)) (pr_open_remainder r))"

definition cap_refusal ::
  "limits \<Rightarrow> place_signal \<Rightarrow> pre_trade_reading \<Rightarrow> decimal \<Rightarrow> decimal option \<Rightarrow> int \<Rightarrow> string option" where
  "cap_refusal lm s r q price now_mark =
     (let kind = order_kind_of s;
          sl = dget (lm_symbols lm) (ps_symbol s) NO_SYMBOL_LIMITS;
          skips = shrinks (before_size s r) (worst_case s r q) \<or> kind \<noteq> PLAIN
      in if kind = REDUCE_ONLY \<and>
            \<not> shrinks (own_before s r) (dadd (own_before s r) (dmul (direction_of (ps_side s)) q))
         then Some ''reduce-only order would not reduce strategy position''
         else if (case sl_max_order_size sl of Some cap \<Rightarrow> cap < q \<and> \<not> skips | None \<Rightarrow> False)
         then Some ''above max order size''
         else
           (case (case sl_max_order_value sl of
                    Some cap \<Rightarrow> if skips then None
                      else value_refusal lm cap (ps_side s) q price (pr_mark r) now_mark
                  | None \<Rightarrow> None) of
              Some why \<Rightarrow> Some why
            | None \<Rightarrow>
                (case sl_max_position sl of
                   Some cap \<Rightarrow> if cap < dabs (worst_case s r q) \<and> \<not> skips
                               then Some ''above max position'' else None
                 | None \<Rightarrow> None)))"

definition quantized_price :: "place_signal \<Rightarrow> instrument_spec \<Rightarrow> decimal option res" where
  "quantized_price s spec =
     (case ps_price s of
        None \<Rightarrow> Inr None
      | Some p \<Rightarrow> bind_res (quantize_price p (ps_side s) spec) (\<lambda>x. Inr (Some x)))"

definition notional_refuses ::
  "place_signal \<Rightarrow> pre_trade_reading \<Rightarrow> instrument_spec \<Rightarrow> decimal \<Rightarrow> decimal option \<Rightarrow> bool" where
  "notional_refuses s r spec q price =
     (case price of
        Some p \<Rightarrow> min_notional_refuses p q spec (ps_side s) (order_kind_of s \<noteq> PLAIN) (pr_account_net_size r)
      | None \<Rightarrow> False)"

definition check ::
  "guard \<Rightarrow> place_signal \<Rightarrow> pre_trade_reading \<Rightarrow> int \<Rightarrow> int \<Rightarrow> (guard_decision \<times> guard) res" where
  "check g s r now_mark now_rate =
     (if g_tripped g \<and> order_kind_of s \<noteq> FLATTEN then Inr (Denied ''kill switch tripped'', g)
      else case map_of (g_specs g) (ps_symbol s) of
        None \<Rightarrow> Inl (InvariantViolation NoSpecForSymbol)
      | Some spec \<Rightarrow>
          bind_res (quantize_size (ps_quantity s) spec) (\<lambda>q.
            if q \<le> 0 then Inr (Denied ''size rounds to zero'', g)
            else bind_res (quantized_price s spec) (\<lambda>price.
              if notional_refuses s r spec q price
              then Inr (Denied ''below min notional'', g)
              else case cap_refusal (g_limits g) s r q price now_mark of
                Some why \<Rightarrow> Inr (Denied why, g)
              | None \<Rightarrow>
                  (case lm_rate_cap (g_limits g) of
                     None \<Rightarrow> Inr (Approved q price, g)
                   | Some cap \<Rightarrow>
                       if order_kind_of s = FLATTEN then Inr (Approved q price, g)
                       else
                         (case rate_gate cap now_rate (g_approved_ns g) of
                            (True, ts) \<Rightarrow> Inr (Approved q price, g\<lparr>g_approved_ns := ts\<rparr>)
                          | (False, ts) \<Rightarrow> Inr (Denied ''above max orders per window'',
                                             g\<lparr>g_approved_ns := ts\<rparr>))))))"

text \<open>\<open>NoopGuard\<close> approves everything as it came.\<close>

definition noop_check :: "place_signal \<Rightarrow> guard_decision" where
  "noop_check s = Approved (ps_quantity s) (ps_price s)"

section \<open>What an approval means\<close>

text \<open>Every fact the checks establish about an approved order, in one elimination.\<close>

lemma check_approved:
  assumes "check g s r nm nr = Inr (Approved q price, g')"
  shows "\<exists>spec. map_of (g_specs g) (ps_symbol s) = Some spec
    \<and> quantize_size (ps_quantity s) spec = Inr q \<and> 0 < q
    \<and> quantized_price s spec = Inr price
    \<and> \<not> notional_refuses s r spec q price
    \<and> cap_refusal (g_limits g) s r q price nm = None
    \<and> (g_tripped g \<longrightarrow> order_kind_of s = FLATTEN)
    \<and> g_specs g' = g_specs g \<and> g_limits g' = g_limits g \<and> g_tripped g' = g_tripped g"
  using assms
  by (auto simp: check_def bind_res_eq_Inr not_le split: if_splits option.splits prod.splits bool.splits)

lemma check_frame [tw_frame]:
  "check g s r nm nr = Inr (d, g') \<Longrightarrow>
    g_specs g' = g_specs g \<and> g_limits g' = g_limits g \<and> g_tripped g' = g_tripped g"
  by (auto simp: check_def bind_res_eq_Inr split: if_splits option.splits prod.splits bool.splits)

lemma quantize_price_error: "quantize_price p sd spec = Inl e \<Longrightarrow> e = InvalidOperation"
  unfolding quantize_price_def Let_def
  by (auto simp: bind_res_eq_Inl dest: quantize_error split: if_splits)

lemma quantized_price_error: "quantized_price s spec = Inl e \<Longrightarrow> e = InvalidOperation"
  by (auto simp: quantized_price_def bind_res_eq_Inl dest: quantize_price_error split: option.splits)

lemma quantize_size_error: "quantize_size x spec = Inl e \<Longrightarrow> e = InvalidOperation"
  by (auto simp: quantize_size_def dest: quantize_error)

lemma check_error:
  assumes "check g s r nm nr = Inl e"
  shows "e = InvariantViolation NoSpecForSymbol \<and> map_of (g_specs g) (ps_symbol s) = None
    \<or> e = InvalidOperation"
proof (cases "map_of (g_specs g) (ps_symbol s)")
  case None
  with assms show ?thesis by (simp add: check_def split: if_splits)
next
  case (Some spec)
  show ?thesis
  proof (cases "quantize_size (ps_quantity s) spec")
    case (Inl x)
    with assms Some show ?thesis by (auto simp: check_def dest: quantize_size_error split: if_splits)
  next
    case (Inr q)
    show ?thesis
    proof (cases "quantized_price s spec")
      case (Inl x)
      with assms Some Inr show ?thesis
        by (auto simp: check_def dest: quantized_price_error split: if_splits)
    next
      case (Inr price)
      then have False using assms Some \<open>quantize_size (ps_quantity s) spec = Inr q\<close>
        by (simp add: check_def split: if_splits option.splits prod.splits bool.splits)
      then show ?thesis ..
    qed
  qed
qed

lemma cap_refusal_None:
  assumes "cap_refusal lm s r q price nm = None"
  defines "sl \<equiv> dget (lm_symbols lm) (ps_symbol s) NO_SYMBOL_LIMITS"
  shows "order_kind_of s = REDUCE_ONLY \<Longrightarrow>
      shrinks (own_before s r) (dadd (own_before s r) (dmul (direction_of (ps_side s)) q))"
    and "order_kind_of s = PLAIN \<Longrightarrow> \<not> shrinks (before_size s r) (worst_case s r q) \<Longrightarrow>
      (\<forall>cap. sl_max_order_size sl = Some cap \<longrightarrow> q \<le> cap)
      \<and> (\<forall>cap. sl_max_position sl = Some cap \<longrightarrow> dabs (worst_case s r q) \<le> cap)
      \<and> (\<forall>cap. sl_max_order_value sl = Some cap \<longrightarrow>
          value_refusal lm cap (ps_side s) q price (pr_mark r) nm = None)"
  using assms(1) unfolding cap_refusal_def Let_def sl_def
  by (auto split: if_splits option.splits)

lemma value_refusal_None:
  assumes "value_refusal lm cap sd q price mark nm = None"
  shows "\<exists>v. dmul q v \<le> cap \<and> (\<forall>p. price = Some p \<longrightarrow> p \<le> v)
    \<and> (price = None \<or> sd = SELL \<longrightarrow> (\<exists>m. mark = Some m \<and> mt_price m \<le> v
        \<and> nm - mt_ts_event m \<le> lm_mark_max_age_ns lm))"
  using assms
  by (auto simp: value_refusal_def not_less split: option.splits if_splits
      intro: exI [where x = "max a b" for a b])

section \<open>The rate cap over any run\<close>

lemma prune_split: "\<exists>dropped. ts = dropped @ prune w now ts \<and> (\<forall>t \<in> set dropped. t \<le> now - w)"
  unfolding prune_def
  by (rule exI [of _ "takeWhile (\<lambda>t. w \<le> now - t) ts"]) (auto dest: set_takeWhileD)

lemma prune_sorted: "sorted ts \<Longrightarrow> t \<in> set (prune w now ts) \<Longrightarrow> now - w < t"
proof (induction ts)
  case Nil
  then show ?case by (simp add: prune_def)
next
  case (Cons a ts)
  then show ?case by (auto simp: prune_def split: if_splits)
qed

definition window_load :: "int \<Rightarrow> int list \<Rightarrow> int \<Rightarrow> nat" where
  "window_load w ts t = length (filter (\<lambda>s. t - w < s \<and> s \<le> t) ts)"

text \<open>
  The queue holds the tail of all approval times so far; what was pruned is older than the
  window of the last reading.
\<close>

definition rate_inv :: "rate_cap \<Rightarrow> int list \<Rightarrow> int list \<Rightarrow> int \<Rightarrow> bool" where
  "rate_inv cap all queue since \<longleftrightarrow>
     sorted all \<and> (\<forall>t \<in> set all. t \<le> since)
     \<and> (\<exists>dropped. all = dropped @ queue \<and> (\<forall>t \<in> set dropped. t \<le> since - rc_window_ns cap))
     \<and> (\<forall>t. int (window_load (rc_window_ns cap) all t) \<le> rc_max_orders cap)"

lemma rate_inv_prune:
  assumes "rate_inv cap all queue since" and "since \<le> now"
  shows "rate_inv cap all (prune (rc_window_ns cap) now queue) now"
proof -
  from assms(1) obtain dropped where d: "all = dropped @ queue"
    "\<forall>t \<in> set dropped. t \<le> since - rc_window_ns cap" by (auto simp: rate_inv_def)
  obtain more where m: "queue = more @ prune (rc_window_ns cap) now queue"
    "\<forall>t \<in> set more. t \<le> now - rc_window_ns cap" using prune_split by blast
  have "all = (dropped @ more) @ prune (rc_window_ns cap) now queue" using d(1) m(1) by simp
  moreover have "\<forall>t \<in> set (dropped @ more). t \<le> now - rc_window_ns cap"
    using d(2) m(2) assms(2) by fastforce
  ultimately show ?thesis using assms unfolding rate_inv_def by (auto intro: order_trans)
qed

lemma rate_inv_approve:
  assumes inv: "rate_inv cap all queue now" and "\<forall>t \<in> set queue. now - rc_window_ns cap < t"
    and room: "int (length queue) < rc_max_orders cap" and w: "0 < rc_window_ns cap"
  shows "rate_inv cap (all @ [now]) (queue @ [now]) now"
proof -
  from inv obtain dropped where d: "all = dropped @ queue"
    "\<forall>t \<in> set dropped. t \<le> now - rc_window_ns cap" by (auto simp: rate_inv_def)
  have "int (window_load (rc_window_ns cap) (all @ [now]) t) \<le> rc_max_orders cap" for t
  proof (cases "t < now")
    case True
    then show ?thesis using inv by (simp add: rate_inv_def window_load_def)
  next
    case False
    then have "filter (\<lambda>s. t - rc_window_ns cap < s \<and> s \<le> t) dropped = []"
      using d(2) by (auto simp: filter_empty_conv)
    then have "window_load (rc_window_ns cap) (all @ [now]) t \<le> length queue + 1"
      unfolding window_load_def d(1) by (simp add: le_SucI)
    with room show ?thesis by linarith
  qed
  moreover have "sorted (all @ [now])" "\<forall>t \<in> set (all @ [now]). t \<le> now"
    using inv by (auto simp: rate_inv_def sorted_append)
  ultimately show ?thesis using d unfolding rate_inv_def by auto
qed

text \<open>
  A run of the guard: the checks made in order, each with its reading and its two clock
  readings. \<open>approvals\<close> lists the times of the approvals that count against the rate cap
  (a \<open>FLATTEN\<close> skips it), and is the history the cap is stated over.
\<close>

type_synonym guard_call = "place_signal \<times> pre_trade_reading \<times> int \<times> int"

definition counted :: "guard_decision \<Rightarrow> place_signal \<Rightarrow> int \<Rightarrow> int list" where
  "counted d s t = (case d of Approved _ _ \<Rightarrow> if order_kind_of s = FLATTEN then [] else [t] | Denied _ \<Rightarrow> [])"

fun guard_run :: "guard \<Rightarrow> guard_call list \<Rightarrow> (guard \<times> int list) res" where
  "guard_run g [] = Inr (g, [])"
| "guard_run g ((s, r, nm, nr) # calls) =
     bind_res (check g s r nm nr) (\<lambda>(d, g').
       bind_res (guard_run g' calls) (\<lambda>(g'', ts).
         Inr (g'', counted d s nr @ ts)))"

lemma check_rate:
  assumes "check g s r nm nr = Inr (d, g')" and "lm_rate_cap (g_limits g) = Some cap"
  shows "(case d of Approved _ _ \<Rightarrow> order_kind_of s \<noteq> FLATTEN | Denied _ \<Rightarrow> False) \<and>
      rate_gate cap nr (g_approved_ns g) = (True, g_approved_ns g')
    \<or> \<not> (case d of Approved _ _ \<Rightarrow> order_kind_of s \<noteq> FLATTEN | Denied _ \<Rightarrow> False) \<and>
      (g_approved_ns g' = g_approved_ns g
       \<or> rate_gate cap nr (g_approved_ns g) = (False, g_approved_ns g'))"
proof (cases "map_of (g_specs g) (ps_symbol s)")
  case None
  with assms show ?thesis by (auto simp: check_def split: if_splits)
next
  case (Some spec)
  show ?thesis
  proof (cases "quantize_size (ps_quantity s) spec")
    case (Inl x)
    with assms Some show ?thesis by (auto simp: check_def split: if_splits)
  next
    case (Inr q)
    then show ?thesis using assms Some
      by (cases "quantized_price s spec")
        (auto simp: check_def split: if_splits option.splits prod.splits bool.splits)
  qed
qed

lemma rate_inv_later: "rate_inv cap all queue since \<Longrightarrow> since \<le> now \<Longrightarrow> rate_inv cap all queue now"
  unfolding rate_inv_def by (auto; fastforce)

lemma rate_inv_sorted: "rate_inv cap all queue since \<Longrightarrow> sorted queue"
  unfolding rate_inv_def by (auto simp: sorted_append)

lemma rate_gate_inv:
  assumes "rate_inv cap all queue since" "since \<le> now" "0 < rc_window_ns cap"
    and "rate_gate cap now queue = (ok, queue')"
  shows "rate_inv cap (all @ (if ok then [now] else [])) queue' now"
proof -
  let ?d = "prune (rc_window_ns cap) now queue"
  have inv: "rate_inv cap all ?d now" by (rule rate_inv_prune [OF assms(1,2)])
  have fresh: "\<forall>t \<in> set ?d. now - rc_window_ns cap < t"
    using prune_sorted [OF rate_inv_sorted [OF assms(1)]] by blast
  show ?thesis
  proof (cases "int (length ?d) < rc_max_orders cap")
    case True
    with rate_inv_approve [OF inv fresh True assms(3)] assms(4) show ?thesis
      by (auto simp: rate_gate_def Let_def)
  next
    case False
    with inv assms(4) show ?thesis by (auto simp: rate_gate_def Let_def)
  qed
qed

lemma check_rate_inv:
  assumes "check g s r nm nr = Inr (d, g')" "lm_rate_cap (g_limits g) = Some cap"
    "0 < rc_window_ns cap" "rate_inv cap all (g_approved_ns g) since" "since \<le> nr"
  shows "rate_inv cap (all @ counted d s nr) (g_approved_ns g') nr"
  using check_rate [OF assms(1,2)]
proof (elim disjE conjE)
  assume "rate_gate cap nr (g_approved_ns g) = (True, g_approved_ns g')"
    "case d of Approved _ _ \<Rightarrow> order_kind_of s \<noteq> FLATTEN | Denied _ \<Rightarrow> False"
  with rate_gate_inv [OF assms(4,5,3)] show ?thesis by (cases d) (auto simp: counted_def)
next
  assume "g_approved_ns g' = g_approved_ns g"
    "\<not> (case d of Approved _ _ \<Rightarrow> order_kind_of s \<noteq> FLATTEN | Denied _ \<Rightarrow> False)"
  with rate_inv_later [OF assms(4,5)] show ?thesis by (cases d) (auto simp: counted_def)
next
  assume "rate_gate cap nr (g_approved_ns g) = (False, g_approved_ns g')"
    "\<not> (case d of Approved _ _ \<Rightarrow> order_kind_of s \<noteq> FLATTEN | Denied _ \<Rightarrow> False)"
  with rate_gate_inv [OF assms(4,5,3)] show ?thesis by (cases d) (force simp: counted_def)+
qed

lemma guard_run_rate_inv:
  assumes "guard_run g calls = Inr (g', ts)" "lm_rate_cap (g_limits g) = Some cap"
    "0 < rc_window_ns cap" "rate_inv cap all (g_approved_ns g) since"
    "sorted (since # map (\<lambda>(s, r, nm, nr). nr) calls)"
  shows "\<exists>now. rate_inv cap (all @ ts) (g_approved_ns g') now"
  using assms
proof (induction calls arbitrary: g all since ts)
  case Nil
  then show ?case by auto
next
  case (Cons c calls)
  obtain s r nm nr where c: "c = (s, r, nm, nr)" by (cases c)
  from Cons.prems(1) obtain d h us where step: "check g s r nm nr = Inr (d, h)"
    and rest: "guard_run h calls = Inr (g', us)"
    and ts: "ts = counted d s nr @ us"
    unfolding c by (auto simp: bind_res_eq_Inr)
  have "since \<le> nr" using Cons.prems(5) unfolding c by simp
  from check_rate_inv [OF step Cons.prems(2,3,4) this]
  moreover have "lm_rate_cap (g_limits h) = Some cap" using check_frame [OF step] Cons.prems(2) by simp
  moreover have "sorted (nr # map (\<lambda>(s, r, nm, nr). nr) calls)" using Cons.prems(5) c by simp
  ultimately have "\<exists>now. rate_inv cap ((all @ counted d s nr) @ us) (g_approved_ns g') now"
    by (intro Cons.IH [OF rest _ Cons.prems(3)])
  then show ?case unfolding ts append_assoc .
qed

lemma rate_inv_empty: "0 \<le> rc_max_orders cap \<Longrightarrow> rate_inv cap [] [] t"
  by (simp add: rate_inv_def window_load_def)

section \<open>Properties\<close>

definition demo_limits :: "limits" where
  "demo_limits = \<lparr>lm_symbols = [(''BTC'', \<lparr>sl_max_order_size = Some 5, sl_max_order_value = Some 600,
       sl_max_position = Some 8\<rparr>)], lm_mark_max_age_ns = 1000,
     lm_rate_cap = Some \<lparr>rc_max_orders = 1, rc_window_ns = 10\<rparr>\<rparr>"

definition demo_guard :: "guard" where
  "demo_guard = make_guard [(''BTC'', demo_spec)] demo_limits None"

definition demo_reading :: "pre_trade_reading" where
  "demo_reading = \<lparr>pr_symbol = ''BTC'', pr_side = BUY, pr_account_net_size = 2, pr_strategy_net_size = 2,
     pr_open_remainder = 0, pr_mark = None\<rparr>"

definition demo_place :: "place_signal" where
  "demo_place = \<lparr>ps_strategy_id = ''s'', ps_symbol = ''BTC'', ps_seq = 1, ps_side = BUY,
     ps_quantity = 3 + 1 / 1000, ps_order_type = LIMIT, ps_time_in_force = GTC, ps_price = Some 100,
     ps_post_only = False, ps_reduce_only = False\<rparr>"

text \<open>
  C22. What an approval guarantees: the symbol has a spec, the approved size is positive and
  no larger than the size asked for, an approved price is on the venue's grid and no more
  aggressive than the one asked for, a plain order that does not shrink the worst-case
  exposure is inside the size cap, the position cap and the value cap (the value being at
  least the size times the limit price), a reduce-only order shrinks the strategy's own
  worst case, and with the kill switch tripped only a flatten is approved.
\<close>

theorem approval_sound:
  assumes "check g s r nm nr = Inr (Approved q price, g')" and "map_of (g_specs g) (ps_symbol s) = Some spec"
    and "0 < ps_quantity s" and "\<forall>p. ps_price s = Some p \<longrightarrow> 0 < p"
    and "\<forall>sig. is_max_sig_figs spec = Some sig \<longrightarrow> 1 \<le> sig"
  defines "sl \<equiv> dget (lm_symbols (g_limits g)) (ps_symbol s) NO_SYMBOL_LIMITS"
  shows "0 < q \<and> q \<le> ps_quantity s
    \<and> rel_option (\<lambda>p y. valid_price spec y \<and> (ps_side s = BUY \<longrightarrow> y \<le> p) \<and> (ps_side s = SELL \<longrightarrow> p \<le> y))
        (ps_price s) price
    \<and> (g_tripped g \<longrightarrow> order_kind_of s = FLATTEN)
    \<and> (order_kind_of s = REDUCE_ONLY \<longrightarrow>
        shrinks (own_before s r) (dadd (own_before s r) (dmul (direction_of (ps_side s)) q)))
    \<and> (order_kind_of s = PLAIN \<and> \<not> shrinks (before_size s r) (worst_case s r q) \<longrightarrow>
        (\<forall>cap. sl_max_order_size sl = Some cap \<longrightarrow> q \<le> cap)
        \<and> (\<forall>cap. sl_max_position sl = Some cap \<longrightarrow> dabs (worst_case s r q) \<le> cap)
        \<and> (\<forall>cap. sl_max_order_value sl = Some cap \<longrightarrow>
            (\<exists>v. dmul q v \<le> cap \<and> (\<forall>p. price = Some p \<longrightarrow> p \<le> v))))"
proof -
  from check_approved [OF assms(1)] assms(2)
  have size: "quantize_size (ps_quantity s) spec = Inr q" and q: "0 < q"
    and price: "quantized_price s spec = Inr price"
    and caps: "cap_refusal (g_limits g) s r q price nm = None"
    and kill: "g_tripped g \<longrightarrow> order_kind_of s = FLATTEN" by auto
  have "rel_option (\<lambda>p y. valid_price spec y \<and> (ps_side s = BUY \<longrightarrow> y \<le> p) \<and> (ps_side s = SELL \<longrightarrow> p \<le> y))
        (ps_price s) price"
    using price assms(4) quantized_price_passive [OF _ assms(5)]
    by (auto simp: quantized_price_def bind_res_eq_Inr split: option.splits)
  with q kill quantize_size_le [OF less_imp_le [OF assms(3)] size] cap_refusal_None [OF caps]
    value_refusal_None
  show ?thesis unfolding sl_def by meson
qed

theorem approval_sound_witness:
  "(3::decimal) \<le> 3 + 1 / 1000 \<and> dabs (worst_case demo_place demo_reading 3) \<le> 8"
proof -
  have "check demo_guard demo_place demo_reading 5 5 =
      Inr (Approved 3 (Some 100), demo_guard\<lparr>g_approved_ns := [5]\<rparr>)" by code_simp
  moreover have "\<not> shrinks (before_size demo_place demo_reading) (worst_case demo_place demo_reading 3)"
    "order_kind_of demo_place = PLAIN" by code_simp+
  ultimately show ?thesis using approval_sound [of demo_guard demo_place demo_reading 5 5 3 "Some 100" _ demo_spec]
    by (simp add: demo_guard_def make_guard_def demo_place_def demo_spec_def demo_limits_def dget_def)
qed

text \<open>
  The rate cap holds over every window of every run: starting from a fresh guard, with
  clock readings that do not go backwards, any sequence of checks (approved, denied or
  flatten) approves at most \<open>max_orders\<close> counted orders in any window of \<open>window_ns\<close>,
  whatever instant the window ends at.
\<close>

theorem rate_cap_every_window:
  assumes "guard_run (make_guard specs lm restored) calls = Inr (g', ts)"
    and "lm_rate_cap lm = Some cap" and "make_rate_cap (rc_max_orders cap) (rc_window_ns cap) = Inr cap"
    and "sorted (map (\<lambda>(s, r, nm, nr). nr) calls)"
  shows "int (window_load (rc_window_ns cap) ts t) \<le> rc_max_orders cap"
proof -
  have pos: "0 < rc_window_ns cap" "0 \<le> rc_max_orders cap"
    using assms(3) by (auto simp: make_rate_cap_def split: if_splits)
  obtain since where since: "sorted (since # map (\<lambda>(s, r, nm, nr). nr) calls)"
    using assms(4) by (cases "map (\<lambda>(s, r, nm, nr). nr) calls") auto
  from guard_run_rate_inv [OF assms(1) _ pos(1) _ since, of "[]"] pos(2) assms(2)
  obtain now where "rate_inv cap ts (g_approved_ns g') now"
    by (auto simp: make_guard_def rate_inv_empty)
  then show ?thesis by (auto simp: rate_inv_def)
qed

theorem rate_cap_every_window_witness:
  "window_load 10 [5, 15] 14 \<le> 1"
proof -
  have "guard_run (make_guard [(''BTC'', demo_spec)] demo_limits None)
      [(demo_place, demo_reading, 5, 5), (demo_place, demo_reading, 9, 9), (demo_place, demo_reading, 15, 15)]
    = Inr (demo_guard\<lparr>g_approved_ns := [15]\<rparr>, [5, 15])" by code_simp
  from rate_cap_every_window [OF this, of "\<lparr>rc_max_orders = 1, rc_window_ns = 10\<rparr>" 14] show ?thesis
    by (simp add: demo_limits_def make_rate_cap_def)
qed

end
