(* ===== verification/TW_Execution.thy ===== *)
theory TW_Execution
  imports TW_Recovery TW_Guard
begin

text \<open>
  The saga orchestrator, \<open>src/src/tickwright/engine/execution.py\<close>. A handler is cut where the
  source awaits a send: \<open>_place\<close> is the three steps \<open>place_intent\<close> (dedup, decision, write-ahead),
  \<open>place_send\<close> (submitted, handed to the exchange) and \<open>place_sent\<close> (the checkpoint after the
  send returns), so that other handlers may run in between. The order object a coroutine holds
  is the one in the cache; \<open>touch\<close> is its mutation in place. What a handler publishes or sends
  is the list of effects it returns. Clock readings and the outcome of the store writes are
  arguments; \<open>dg\<close> is the digest behind \<open>derive_cloid\<close>. The awaits of \<open>_announce\<close> hand an event
  to the bus and are not cut points.
\<close>

section \<open>Effects and state\<close>

record external_order_ref =
  xr_symbol :: string
  xr_venue_oid :: string

record venue_open_order =
  vo_cloid :: string
  vo_symbol :: string
  vo_venue_oid :: "string option"

datatype cancel_ref = SagaRef order_ref | ExternalRef external_order_ref

datatype effect =
    Published order_event
  | Placing place_order
  | Cancelling "cancel_ref list"

text \<open>
  \<open>em_intents\<close> and \<open>em_sending\<close> are the placements under way: the client ids whose intent is
  written and not yet sent, and those whose send has not yet returned.
\<close>

record manager =
  em_cp :: checkpointer
  em_guard :: "guard option"
  em_exit_run :: bool
  em_barrier :: bool
  em_intents :: "string list"
  em_sending :: "string list"

definition make_manager :: "checkpointer \<Rightarrow> guard option \<Rightarrow> bool \<Rightarrow> bool \<Rightarrow> manager" where
  "make_manager cp g exit_run barrier =
     \<lparr>em_cp = cp, em_guard = g, em_exit_run = exit_run, em_barrier = barrier, em_intents = [], em_sending = []\<rparr>"

definition barrier_has_cleared :: "manager \<Rightarrow> manager" where
  "barrier_has_cleared m = m\<lparr>em_barrier := True\<rparr>"

abbreviation saga_of :: "manager \<Rightarrow> string \<Rightarrow> order option" where
  "saga_of m \<equiv> cached_order (cp_cache (em_cp m))"

definition touch :: "manager \<Rightarrow> order \<Rightarrow> manager" where
  "touch m od = m\<lparr>em_cp := (em_cp m)\<lparr>cp_cache := (cp_cache (em_cp m))
     \<lparr>ch_orders := AList.update (o_cloid od) od (ch_orders (cp_cache (em_cp m)))\<rparr>\<rparr>\<rparr>"

text \<open>A checkpoint of one saga through the manager's checkpointer.\<close>

definition save :: "bool \<Rightarrow> int \<Rightarrow> manager \<Rightarrow> order \<Rightarrow> manager res" where
  "save ok ts m od = bind_res (cp_checkpoint ok ts (em_cp m) od) (\<lambda>cp. Inr (m\<lparr>em_cp := cp\<rparr>))"

section \<open>Events built over a saga\<close>

definition saga_env :: "order \<Rightarrow> int \<Rightarrow> string option \<Rightarrow> bool \<Rightarrow> order_env" where
  "saga_env od now venue_oid reconciliation =
     \<lparr>ev_ts_event = now, ev_ts_init = now, ev_cloid = o_cloid od, ev_strategy_id = o_strategy_id od,
      ev_signal_id = o_signal_id od, ev_symbol = o_symbol od,
      ev_venue_oid = (case venue_oid of Some v \<Rightarrow> Some v | None \<Rightarrow> o_venue_oid od),
      ev_reconciliation = reconciliation\<rparr>"

definition reason_or :: "string option \<Rightarrow> string \<Rightarrow> string" where
  "reason_or r d = (case r of None \<Rightarrow> d | Some x \<Rightarrow> if x = '''' then d else x)"

definition status_event :: "order \<Rightarrow> order_status_report \<Rightarrow> int \<Rightarrow> order_event option" where
  "status_event od r now =
     (let e = saga_env od now (sr_venue_oid r) (sr_reconciliation r)
      in case sr_status r of
           SUBMITTED \<Rightarrow> Some (OrderSubmitted e)
         | LIVE \<Rightarrow> Some (OrderLive e)
         | CANCELLED \<Rightarrow> Some (OrderCancelled e)
         | REJECTED \<Rightarrow> Some (OrderRejected e (reason_or (sr_reason r) ''venue rejected''))
         | FAILED \<Rightarrow> Some (OrderFailed e (reason_or (sr_reason r) ''proven never landed''))
         | _ \<Rightarrow> None)"

definition order_for :: "(string \<Rightarrow> string) \<Rightarrow> place_signal \<Rightarrow> decimal \<Rightarrow> int \<Rightarrow> order" where
  "order_for dg s quantity now =
     \<lparr>o_cloid = derive_cloid dg (signal_id_of (PlaceSignal s)), o_strategy_id = ps_strategy_id s,
      o_signal_id = signal_id_of (PlaceSignal s), o_symbol = ps_symbol s, o_side = ps_side s,
      o_quantity = quantity, o_type = ps_order_type s, o_state = PENDING, o_cum_qty = 0,
      o_venue_oid = None, o_acked_ts_ns = None, o_created_ts_ns = Some now, o_reason = None,
      o_cancel_requested = False, o_cancel_requested_ts = None, o_cancel_signal_id = None,
      o_split_basis = None, o_price = None, o_time_in_force = Some (ps_time_in_force s),
      o_post_only = ps_post_only s, o_reduce_only = ps_reduce_only s, o_applied_event_ids = {}\<rparr>"

section \<open>Placing\<close>

text \<open>The decision on a signal that has no saga yet, and the guard after it.\<close>

definition decide ::
  "int \<Rightarrow> int \<Rightarrow> manager \<Rightarrow> place_signal \<Rightarrow> (guard_decision \<times> manager) res" where
  "decide now_mark now_rate m s =
     (if \<not> em_barrier m then Inr (Denied ''the startup barrier has not cleared'', m)
      else if ps_strategy_id s = OPERATOR \<and> \<not> is_flatten s
      then Inr (Denied ''an operator order must be reduce-only'', m)
      else if em_exit_run m \<and> ps_strategy_id s \<noteq> OPERATOR
      then Inr (Denied ''an exit run places no strategy order'', m)
      else bind_res (pre_trade_reading_of (em_cp m) (ps_symbol s) (ps_side s) (ps_strategy_id s)) (\<lambda>reading.
        case em_guard m of
          None \<Rightarrow> Inr (noop_check s, m)
        | Some g \<Rightarrow> bind_res (check g s reading now_mark now_rate) (\<lambda>(d, g').
            Inr (d, m\<lparr>em_guard := Some g'\<rparr>))))"

text \<open>A flatten order that is not denied records its basis, or is denied by it.\<close>

definition flatten_basis ::
  "checkpointer \<Rightarrow> place_signal \<Rightarrow> guard_decision \<Rightarrow> (string \<times> decimal) list option \<times> guard_decision" where
  "flatten_basis cp s d =
     (case d of
        Denied why \<Rightarrow> (None, d)
      | Approved q price \<Rightarrow>
          if is_flatten s then
            (let basis = split_basis cp (ps_symbol s)
             in (Some basis, case split_refusal basis (ps_side s) q of None \<Rightarrow> d | Some why \<Rightarrow> Denied why))
          else (None, d))"

definition place_intent ::
  "(string \<Rightarrow> string) \<Rightarrow> bool \<Rightarrow> int \<Rightarrow> int \<Rightarrow> int \<Rightarrow> int \<Rightarrow> int \<Rightarrow> manager \<Rightarrow> place_signal \<Rightarrow> (manager \<times> effect list) res" where
  "place_intent dg ok now_mark now_rate created ts now m s =
     (if saga_of m (derive_cloid dg (signal_id_of (PlaceSignal s))) \<noteq> None then Inr (m, [])
      else bind_res (decide now_mark now_rate m s) (\<lambda>(d, m1).
        case flatten_basis (em_cp m1) s d of
          (basis, Denied why) \<Rightarrow>
            let od = order_for dg s (ps_quantity s) created;
                denied = OrderDenied (saga_env od now None False) why
            in bind_res (apply_event od denied) (\<lambda>(_, od1).
               bind_res (save ok ts m1 od1) (\<lambda>m2. Inr (m2, [Published denied])))
        | (basis, Approved q price) \<Rightarrow>
            let od = (order_for dg s q created)\<lparr>o_split_basis := basis, o_price := price\<rparr>
            in bind_res (save ok ts m1 od) (\<lambda>m2.
               Inr (m2\<lparr>em_intents := o_cloid od # em_intents m2\<rparr>,
                    [Published (OrderPlaced (saga_env od now None False))]))))"

definition place_send :: "int \<Rightarrow> manager \<Rightarrow> string \<Rightarrow> (manager \<times> effect list) res" where
  "place_send now m cloid =
     (case saga_of m cloid of
        None \<Rightarrow> Inl KeyError
      | Some od \<Rightarrow>
          let submitted = OrderSubmitted (saga_env od now None False)
          in bind_res (apply_event od submitted) (\<lambda>(_, od1).
             bind_res (place_order_of od1) (\<lambda>po.
               Inr ((touch m od1)\<lparr>em_intents := removeAll cloid (em_intents m), em_sending := cloid # em_sending m\<rparr>,
                    [Published submitted, Placing po]))))"

definition place_sent :: "bool \<Rightarrow> int \<Rightarrow> manager \<Rightarrow> string \<Rightarrow> (manager \<times> effect list) res" where
  "place_sent ok ts m cloid =
     (case saga_of m cloid of
        None \<Rightarrow> Inl KeyError
      | Some od \<Rightarrow> bind_res (save ok ts m od) (\<lambda>m1.
          Inr (m1\<lparr>em_sending := removeAll cloid (em_sending m1)\<rparr>, [])))"

section \<open>Cancelling\<close>

definition cancel_order ::
  "(string \<Rightarrow> string) \<Rightarrow> bool \<Rightarrow> int \<Rightarrow> int \<Rightarrow> manager \<Rightarrow> string \<Rightarrow> string \<Rightarrow> (manager \<times> effect list) res" where
  "cancel_order dg ok now ts m sid target =
     (case saga_of m (derive_cloid dg target) of
        None \<Rightarrow> Inr (m, [])
      | Some od \<Rightarrow>
          (case request_cancel od sid now of
             (False, _) \<Rightarrow> Inr (m, [])
           | (True, od1) \<Rightarrow> bind_res (save ok ts m od1) (\<lambda>m1.
               Inr (m1, [Cancelling [SagaRef (order_ref_of od1)]]))))"

fun save_all :: "bool \<Rightarrow> int \<Rightarrow> manager \<Rightarrow> order list \<Rightarrow> manager res" where
  "save_all ok ts m [] = Inr m"
| "save_all ok ts m (od # ods) = bind_res (save ok ts m od) (\<lambda>m1. save_all ok ts m1 ods)"

fun mark_all :: "string \<Rightarrow> int \<Rightarrow> order list \<Rightarrow> order list res" where
  "mark_all sid now [] = Inr []"
| "mark_all sid now (od # ods) =
     bind_res (request_cancel_all od sid now) (\<lambda>(marked, od1).
     bind_res (mark_all sid now ods) (\<lambda>rest. Inr (if marked then od1 # rest else rest)))"

definition cancel_all ::
  "bool \<Rightarrow> int \<Rightarrow> int \<Rightarrow> manager \<Rightarrow> string \<Rightarrow> string \<Rightarrow> int \<Rightarrow> (manager \<times> effect list) res" where
  "cancel_all ok now ts m st sy n =
     bind_res (cp_raise_seq ok (em_cp m) st n) (\<lambda>cp.
     bind_res (mark_all (signal_id_of (CancelAllSignal st sy n)) now
                 (open_orders (cp_cache cp) (Some st) (Some sy))) (\<lambda>marked.
     bind_res (save_all ok ts (m\<lparr>em_cp := cp\<rparr>) marked) (\<lambda>m1.
       Inr (m1, if marked = [] then [] else [Cancelling (map (SagaRef \<circ> order_ref_of) marked)]))))"

definition operator_ref ::
  "bool \<Rightarrow> int \<Rightarrow> int \<Rightarrow> manager \<Rightarrow> venue_open_order + external_order_ref \<Rightarrow> (manager \<times> cancel_ref) res" where
  "operator_ref ok now ts m target =
     (case target of
        Inr x \<Rightarrow> Inr (m, ExternalRef x)
      | Inl v \<Rightarrow>
          (case saga_of m (vo_cloid v) of
             None \<Rightarrow> Inr (m, SagaRef \<lparr>or_cloid = vo_cloid v, or_symbol = vo_symbol v,
               or_venue_oid = vo_venue_oid v, or_acked_ts_ns = None, or_created_ts_ns = None,
               or_quantity = None\<rparr>)
           | Some od \<Rightarrow> bind_res (save ok ts m (mark_operator_cancel od now)) (\<lambda>m1.
               Inr (m1, SagaRef (order_ref_of (mark_operator_cancel od now))))))"

fun operator_refs ::
  "bool \<Rightarrow> int \<Rightarrow> int \<Rightarrow> manager \<Rightarrow> (venue_open_order + external_order_ref) list \<Rightarrow> (manager \<times> cancel_ref list) res" where
  "operator_refs ok now ts m [] = Inr (m, [])"
| "operator_refs ok now ts m (x # xs) =
     bind_res (operator_ref ok now ts m x) (\<lambda>(m1, r).
     bind_res (operator_refs ok now ts m1 xs) (\<lambda>(m2, rs). Inr (m2, r # rs)))"

definition cancel_for_operator ::
  "bool \<Rightarrow> int \<Rightarrow> int \<Rightarrow> manager \<Rightarrow> (venue_open_order + external_order_ref) list \<Rightarrow> (manager \<times> effect list) res" where
  "cancel_for_operator ok now ts m resting =
     bind_res (operator_refs ok now ts m resting) (\<lambda>(m1, rs). Inr (m1, [Cancelling rs]))"

section \<open>Reports\<close>

definition apply_status ::
  "bool \<Rightarrow> int \<Rightarrow> int \<Rightarrow> manager \<Rightarrow> order_status_report \<Rightarrow> (manager \<times> effect list) res" where
  "apply_status ok now ts m r =
     (case saga_of m (sr_cloid r) of
        None \<Rightarrow> Inr (m, [])
      | Some od \<Rightarrow>
          if is_terminal od then Inr (m, [])
          else (case status_event od r now of
            None \<Rightarrow> Inr (m, [])
          | Some e \<Rightarrow> bind_res (apply_event od e) (\<lambda>(advanced, od1).
              if \<not> advanced then Inr (m, [])
              else bind_res (save ok ts m od1) (\<lambda>m1. Inr (m1, [Published e])))))"

definition raw_of :: "fill_report \<Rightarrow> int \<Rightarrow> raw_fill" where
  "raw_of r now = \<lparr>rf_trade_id = fr_trade_id r, rf_quantity = fr_quantity r, rf_price = fr_price r,
     rf_ts_event = fr_ts_event r, rf_ts_init = now, rf_fee = fr_fee r,
     rf_reconciliation = fr_reconciliation r\<rparr>"

definition apply_fill_report ::
  "bool \<Rightarrow> int \<Rightarrow> int \<Rightarrow> manager \<Rightarrow> fill_report \<Rightarrow> (manager \<times> effect list) res" where
  "apply_fill_report ok now ts m r =
     (case saga_of m (fr_cloid r) of
        None \<Rightarrow> Inr (m, [])
      | Some od \<Rightarrow> bind_res (record_fill od (raw_of r now)) (\<lambda>(event, od1).
          case event of
            None \<Rightarrow> Inr (m, [])
          | Some e \<Rightarrow>
              (case event_fill e of
                 None \<Rightarrow> Inr (m, [])
               | Some b \<Rightarrow> bind_res (checkpoint_fill ok ts (em_cp m) od1 (env e) b (o_side od1)) (\<lambda>cp.
                   Inr (m\<lparr>em_cp := cp\<rparr>, [Published e])))))"

datatype execution_report = Filled fill_report | Status order_status_report

definition on_execution_report ::
  "bool \<Rightarrow> int \<Rightarrow> int \<Rightarrow> manager \<Rightarrow> execution_report \<Rightarrow> (manager \<times> effect list) res" where
  "on_execution_report ok now ts m r =
     (case r of Filled f \<Rightarrow> apply_fill_report ok now ts m f | Status q \<Rightarrow> apply_status ok now ts m q)"

definition on_signal ::
  "(string \<Rightarrow> string) \<Rightarrow> bool \<Rightarrow> int \<Rightarrow> int \<Rightarrow> int \<Rightarrow> int \<Rightarrow> int \<Rightarrow> manager \<Rightarrow> signal \<Rightarrow> (manager \<times> effect list) res" where
  "on_signal dg ok now_mark now_rate created ts now m sg =
     (case sg of
        PlaceSignal s \<Rightarrow> place_intent dg ok now_mark now_rate created ts now m s
      | CancelSignal st sy n target \<Rightarrow> cancel_order dg ok now ts m (signal_id_of sg) target
      | CancelAllSignal st sy n \<Rightarrow> cancel_all ok now ts m st sy n)"

end
