(* ===== verification/TW_Paper.thy ===== *)
theory TW_Paper
  imports TW_Paper_Book TW_Execution
begin

text \<open>
  The paper exchange, \<open>src/src/tickwright/adapters/paper/exchange.py\<close>. What it was built with is
  the record \<open>paper_host\<close> over a world \<open>'w\<close> it does not look into: the reads of the ledger it was
  handed, the clock, the fill model and the bus. Publishing a report and asking the fill model are
  awaits, so they may change the exchange too; \<open>queued_host\<close> is the host on a bus that only
  queues a report published from a handler, with the immediate fill model, which never waits.
  The lemmas show what reduce-only orders may fill, that trade ids never repeat, and that every
  resting order answers a reconciliation read.
\<close>

section \<open>State and surroundings\<close>

record market_tick =
  tk_symbol :: string
  tk_price :: decimal
  tk_seq :: int

record paper =
  px_spec :: account_spec
  px_specs :: "(string, instrument_spec) dict"
  px_leverage :: leverage_book
  px_ticks :: "(string, market_tick) dict"
  px_counts :: "(string, int) dict"
  px_book :: order_book
  px_statuses :: "(string, order_status_report) dict"
  px_fills :: "(string, fill_report list) dict"
  px_unapplied :: unapplied

record 'w paper_host =
  ph_net :: "'w \<Rightarrow> (string, decimal) dict"
  ph_applied :: "'w \<Rightarrow> string \<Rightarrow> string set"
  ph_resting :: "'w \<Rightarrow> order list"
  ph_now :: "'w \<Rightarrow> int"
  ph_publish :: "execution_report \<Rightarrow> paper \<times> 'w \<Rightarrow> (paper \<times> 'w) res"
  ph_market :: "order_terms \<Rightarrow> market_tick \<Rightarrow> paper \<times> 'w \<Rightarrow> (paper_fill \<times> paper \<times> 'w) res"
  ph_limit :: "limit_order \<Rightarrow> market_tick \<Rightarrow> paper \<times> 'w \<Rightarrow> (paper_fill option \<times> paper \<times> 'w) res"

definition make_paper ::
  "decimal \<Rightarrow> string \<Rightarrow> (string, instrument_spec) dict \<Rightarrow> leverage_book \<Rightarrow> paper" where
  "make_paper genesis label specs leverage =
     \<lparr>px_spec = \<lparr>as_account_id = ''paper-'' @ label, as_netting = NET, as_genesis = Some genesis\<rparr>,
      px_specs = specs, px_leverage = leverage, px_ticks = [], px_counts = [], px_book = [], px_statuses = [],
      px_fills = [], px_unapplied = []\<rparr>"

section \<open>Trade ids\<close>

definition trade_id_of :: "string \<Rightarrow> int \<Rightarrow> string" where
  "trade_id_of c n = c @ ''-'' @ show_int n"

definition rpartition_dash :: "string \<Rightarrow> string \<times> string" where
  "rpartition_dash s =
     (let tail = rev (takeWhile (\<lambda>x. x \<noteq> CHR ''-'') (rev s));
          rest = dropWhile (\<lambda>x. x \<noteq> CHR ''-'') (rev s)
      in if rest = [] then ('''', s) else (rev (tl rest), tail))"

definition is_decimal :: "string \<Rightarrow> bool" where
  "is_decimal s \<longleftrightarrow> s \<noteq> '''' \<and> list_all (\<lambda>c. digit_of c \<noteq> None) s"

definition fill_number :: "fill_report \<Rightarrow> int option" where
  "fill_number r =
     (case rpartition_dash (fr_trade_id r) of
        (prefix, number) \<Rightarrow>
          if prefix \<noteq> fr_cloid r \<or> \<not> is_decimal number then None
          else map_option int (read_digits 0 False number))"

section \<open>Reads\<close>

definition net_size :: "'w paper_host \<Rightarrow> string \<Rightarrow> paper \<times> 'w \<Rightarrow> decimal \<times> paper \<times> 'w" where
  "net_size h symbol st = (case st of (px, w) \<Rightarrow>
     (case signed_size (ph_applied h w) (px_unapplied px) symbol of
        (unapplied, u) \<Rightarrow> (dadd (dget (ph_net h w) symbol 0) unapplied, px\<lparr>px_unapplied := u\<rparr>, w)))"

definition reduces_net :: "'w paper_host \<Rightarrow> order_terms \<Rightarrow> paper \<times> 'w \<Rightarrow> bool \<times> paper \<times> 'w" where
  "reduces_net h t st = (case net_size h (ot_symbol t) st of
     (net, st') \<Rightarrow> (if ot_side t = SELL then 0 < net else net < 0, st'))"

definition working_size :: "'w paper_host \<Rightarrow> order_terms \<Rightarrow> paper \<times> 'w \<Rightarrow> decimal \<times> paper \<times> 'w" where
  "working_size h t st =
     (if \<not> ot_reduce_only t then (ot_quantity t, st)
      else (case net_size h (ot_symbol t) st of (net, st') \<Rightarrow> (min (ot_quantity t) (dabs net), st')))"

definition crosses :: "limit_order \<Rightarrow> market_tick \<Rightarrow> bool" where
  "crosses lo tick = (if ot_side (fst lo) = BUY then tk_price tick \<le> snd lo else snd lo \<le> tk_price tick)"

definition fetch_order_of :: "order_ref \<Rightarrow> paper \<Rightarrow> venue_order_view" where
  "fetch_order_of r px = \<lparr>vv_status = map_of (px_statuses px) (or_cloid r), vv_fills = dget (px_fills px) (or_cloid r) []\<rparr>"

definition fetch_open_orders :: "paper \<Rightarrow> venue_open_order list" where
  "fetch_open_orders px = map (\<lambda>lo. \<lparr>vo_cloid = ot_cloid (fst lo), vo_symbol = ot_symbol (fst lo), vo_venue_oid = None\<rparr>)
     (resting_orders (px_book px))"

fun nets_of :: "'w paper_host \<Rightarrow> string list \<Rightarrow> paper \<times> 'w \<Rightarrow> (string, decimal) dict \<times> paper \<times> 'w" where
  "nets_of h [] st = ([], st)"
| "nets_of h (s # ss) st = (case net_size h s st of (net, st1) \<Rightarrow>
     (case nets_of h ss st1 of (nets, st2) \<Rightarrow> ((s, net) # nets, st2)))"

definition fetch_positions :: "'w paper_host \<Rightarrow> paper \<times> 'w \<Rightarrow> (string, decimal) dict \<times> paper \<times> 'w" where
  "fetch_positions h st = (case st of (px, w) \<Rightarrow>
     (case unapplied_symbols (ph_applied h w) (px_unapplied px) of
        (symbols, u) \<Rightarrow>
          (case nets_of h (str_sort (remdups (map fst (ph_net h w) @ symbols))) (px\<lparr>px_unapplied := u\<rparr>, w) of
             (nets, st') \<Rightarrow> (filter (\<lambda>(s, net). net \<noteq> 0) nets, st'))))"

definition funding_basis_of :: "'w paper_host \<Rightarrow> paper \<times> 'w \<Rightarrow> funding_basis list" where
  "funding_basis_of h st = (case st of (px, w) \<Rightarrow>
     concat (map (\<lambda>(symbol, net). case (map_of (px_ticks px) symbol, map_of (px_specs px) symbol) of
        (Some tick, Some spec) \<Rightarrow> [\<lparr>fu_symbol = symbol, fu_signed_size = net, fu_price = tk_price tick, fu_spec = spec\<rparr>]
      | _ \<Rightarrow> []) (ph_net h w)))"

section \<open>Reports\<close>

definition paper_status ::
  "'w paper_host \<Rightarrow> order_terms \<Rightarrow> order_state \<Rightarrow> string option \<Rightarrow> paper \<times> 'w \<Rightarrow> order_status_report \<times> paper \<times> 'w" where
  "paper_status h t status reason st = (case st of (px, w) \<Rightarrow>
     (let r = \<lparr>sr_ts_event = ph_now h w, sr_ts_init = ph_now h w, sr_cloid = ot_cloid t, sr_symbol = ot_symbol t,
                sr_status = status, sr_venue_oid = None, sr_reason = reason, sr_reconciliation = False\<rparr>
      in (r, px\<lparr>px_statuses := AList.update (ot_cloid t) r (px_statuses px)\<rparr>, w)))"

definition publish_status ::
  "'w paper_host \<Rightarrow> order_terms \<Rightarrow> order_state \<Rightarrow> string option \<Rightarrow> paper \<times> 'w \<Rightarrow> (paper \<times> 'w) res" where
  "publish_status h t status reason st =
     (case paper_status h t status reason st of (r, st') \<Rightarrow> ph_publish h (Status r) st')"

definition paper_fee :: "paper \<Rightarrow> string \<Rightarrow> paper_fill \<Rightarrow> bool \<Rightarrow> decimal" where
  "paper_fee px symbol f maker =
     (case map_of (px_specs px) symbol of None \<Rightarrow> 0
      | Some spec \<Rightarrow> fill_fee (pp_price f) (pp_quantity f) maker spec)"

definition paper_fill_report ::
  "'w paper_host \<Rightarrow> order_terms \<Rightarrow> paper_fill \<Rightarrow> bool \<Rightarrow> paper \<times> 'w \<Rightarrow> fill_report \<times> paper \<times> 'w" where
  "paper_fill_report h t f maker st = (case st of (px, w) \<Rightarrow>
     (let index = dget (px_counts px) (ot_cloid t) 0 + 1;
          r = \<lparr>fr_ts_event = ph_now h w, fr_ts_init = ph_now h w, fr_cloid = ot_cloid t, fr_symbol = ot_symbol t,
                fr_trade_id = trade_id_of (ot_cloid t) index, fr_quantity = pp_quantity f, fr_price = pp_price f,
                fr_fee = paper_fee px (ot_symbol t) f maker, fr_reconciliation = False\<rparr>
      in (r, px\<lparr>px_counts := AList.update (ot_cloid t) index (px_counts px),
                px_fills := AList.update (ot_cloid t) (dget (px_fills px) (ot_cloid t) [] @ [r]) (px_fills px),
                px_unapplied := record_unapplied (px_unapplied px) r (ot_side t)\<rparr>, w)))"

definition publish_fill ::
  "'w paper_host \<Rightarrow> order_terms \<Rightarrow> paper_fill \<Rightarrow> bool \<Rightarrow> paper \<times> 'w \<Rightarrow> (paper \<times> 'w) res" where
  "publish_fill h t f maker st =
     (case paper_fill_report h t f maker st of (r, st') \<Rightarrow> ph_publish h (Filled r) st')"

definition end_shrunk :: "'w paper_host \<Rightarrow> order_terms \<Rightarrow> paper \<times> 'w \<Rightarrow> (paper \<times> 'w) res" where
  "end_shrunk h t st = publish_status h t CANCELLED (Some ''reduce-only shrink'') st"

section \<open>Matching\<close>

definition off_book :: "string \<Rightarrow> paper \<times> 'w \<Rightarrow> paper \<times> 'w" where
  "off_book c st = (case st of (px, w) \<Rightarrow> (px\<lparr>px_book := snd (take_off (px_book px) c)\<rparr>, w))"

fun recheck_loop :: "'w paper_host \<Rightarrow> string \<Rightarrow> limit_order list \<Rightarrow> paper \<times> 'w \<Rightarrow> (paper \<times> 'w) res" where
  "recheck_loop h symbol [] st = Inr st"
| "recheck_loop h symbol (lo # los) st =
     (if ot_symbol (fst lo) \<noteq> symbol \<or> \<not> ot_reduce_only (fst lo) then recheck_loop h symbol los st
      else (case reduces_net h (fst lo) st of
        (True, st1) \<Rightarrow> (case net_size h symbol st1 of
            (net, (px, w)) \<Rightarrow> bind_res (shrink_to (px_book px) (ot_cloid (fst lo)) (dabs net)) (\<lambda>b.
              recheck_loop h symbol los (px\<lparr>px_book := b\<rparr>, w)))
      | (False, st1) \<Rightarrow>
          bind_res (publish_status h (fst lo) CANCELLED (Some ''reduce-only cancelled'') (off_book (ot_cloid (fst lo)) st1))
            (\<lambda>st2. recheck_loop h symbol los st2)))"

definition recheck_reduce_only :: "'w paper_host \<Rightarrow> string \<Rightarrow> paper \<times> 'w \<Rightarrow> (paper \<times> 'w) res" where
  "recheck_reduce_only h symbol st = recheck_loop h symbol (resting_orders (px_book (fst st))) st"

definition fill_crossing_limit ::
  "'w paper_host \<Rightarrow> limit_order \<Rightarrow> market_tick \<Rightarrow> bool \<Rightarrow> paper \<times> 'w \<Rightarrow> (bool \<times> paper \<times> 'w) res" where
  "fill_crossing_limit h lo tick maker st =
     bind_res (ph_limit h lo tick st) (\<lambda>(answer, (px, w)).
       case answer of
         None \<Rightarrow> Inr (False, px, w)
       | Some f \<Rightarrow>
           bind_res (take_fill (px_book px) (ot_cloid (fst lo)) (pp_quantity f)) (\<lambda>(bf, b).
           bind_res (publish_fill h (fst lo) (f\<lparr>pp_quantity := bf_filled bf\<rparr>) maker (px\<lparr>px_book := b\<rparr>, w)) (\<lambda>st1.
           bind_res (if bf_shrunk bf then end_shrunk h (fst lo) st1 else Inr st1) (\<lambda>st2.
           bind_res (recheck_reduce_only h (ot_symbol (fst lo)) st2) (\<lambda>st3. Inr (bf_complete bf, st3))))))"

fun match_loop :: "'w paper_host \<Rightarrow> market_tick \<Rightarrow> limit_order list \<Rightarrow> paper \<times> 'w \<Rightarrow> (paper \<times> 'w) res" where
  "match_loop h tick [] st = Inr st"
| "match_loop h tick (snapshot # los) st =
     (case working_of (px_book (fst st)) (ot_cloid (fst snapshot)) of
        None \<Rightarrow> match_loop h tick los st
      | Some lo \<Rightarrow>
          if ot_symbol (fst lo) = tk_symbol tick \<and> crosses lo tick
          then bind_res (fill_crossing_limit h lo tick True st) (\<lambda>(_, st'). match_loop h tick los st')
          else match_loop h tick los st)"

definition match_book :: "'w paper_host \<Rightarrow> market_tick \<Rightarrow> paper \<times> 'w \<Rightarrow> (paper \<times> 'w) res" where
  "match_book h tick st = match_loop h tick (resting_orders (px_book (fst st))) st"

definition on_tick :: "'w paper_host \<Rightarrow> market_tick \<Rightarrow> paper \<times> 'w \<Rightarrow> (paper \<times> 'w) res" where
  "on_tick h tick st = (case st of (px, w) \<Rightarrow>
     match_book h tick (px\<lparr>px_ticks := AList.update (tk_symbol tick) tick (px_ticks px),
       px_unapplied := drain_unapplied (ph_applied h w) (px_unapplied px)\<rparr>, w))"

section \<open>Placing and cancelling\<close>

definition place_market :: "'w paper_host \<Rightarrow> order_terms \<Rightarrow> market_tick \<Rightarrow> paper \<times> 'w \<Rightarrow> (paper \<times> 'w) res" where
  "place_market h t0 tick st =
     (case working_size h t0 st of (q, st1) \<Rightarrow>
      (let t = t0\<lparr>ot_quantity := q\<rparr>
       in case (case map_of (px_specs (fst st1)) (ot_symbol t) of
                  None \<Rightarrow> (False, st1)
                | Some spec \<Rightarrow> (case net_size h (ot_symbol t) st1 of
                    (net, st2) \<Rightarrow> (min_notional_refuses (tk_price tick) q spec (ot_side t) (ot_reduce_only t) net, st2))) of
            (True, st2) \<Rightarrow> publish_status h t REJECTED (Some ''below min notional'') st2
          | (False, st2) \<Rightarrow>
              bind_res (ph_market h t tick st2) (\<lambda>(f, st3).
              bind_res (publish_fill h t f False st3) (\<lambda>st4.
              bind_res (if q < ot_quantity t0 then end_shrunk h t st4 else Inr st4) (\<lambda>st5.
                recheck_reduce_only h (ot_symbol t) st5)))))"

definition rest_working :: "'w paper_host \<Rightarrow> limit_order \<Rightarrow> paper \<times> 'w \<Rightarrow> limit_order \<times> paper \<times> 'w" where
  "rest_working h lo st =
     (case working_size h (fst lo) st of (q, (px, w)) \<Rightarrow>
        (case rest_on (px_book px) lo (Some q) of (working, b) \<Rightarrow> (working, px\<lparr>px_book := b\<rparr>, w)))"

definition place_limit :: "'w paper_host \<Rightarrow> limit_order \<Rightarrow> market_tick \<Rightarrow> paper \<times> 'w \<Rightarrow> (paper \<times> 'w) res" where
  "place_limit h lo tick st =
     (if crosses lo tick then
        if ot_post_only (fst lo) then publish_status h (fst lo) REJECTED (Some ''post_only order would cross'') st
        else (case rest_working h lo st of (working, st1) \<Rightarrow>
          bind_res (fill_crossing_limit h working tick False st1) (\<lambda>(complete, st2).
            if complete then Inr st2
            else if ot_time_in_force (fst lo) = IOC
            then publish_status h (fst lo) CANCELLED None (off_book (ot_cloid (fst lo)) st2)
            else if \<not> has_partial (px_book (fst st2)) (ot_cloid (fst lo)) then publish_status h (fst lo) LIVE None st2
            else Inr st2))
      else if ot_time_in_force (fst lo) = IOC then publish_status h (fst lo) CANCELLED None st
      else (case rest_working h lo st of (_, st1) \<Rightarrow> publish_status h (fst lo) LIVE None st1))"

text \<open>Python's \<open>repr\<close> of a symbol, which holds neither a quote nor an escape.\<close>

definition quoted :: "string \<Rightarrow> string" where
  "quoted s = CHR 0x27 # s @ [CHR 0x27]"

definition paper_place :: "'w paper_host \<Rightarrow> place_order \<Rightarrow> paper \<times> 'w \<Rightarrow> (paper \<times> 'w) res" where
  "paper_place h po st =
     (case (if ot_reduce_only (po_terms po) then reduces_net h (po_terms po) st else (True, st)) of
        (False, st1) \<Rightarrow> publish_status h (po_terms po) REJECTED (Some ''reduce-only order would increase position'') st1
      | (True, st1) \<Rightarrow>
          (case map_of (px_ticks (fst st1)) (ot_symbol (po_terms po)) of
             None \<Rightarrow> publish_status h (po_terms po) FAILED (Some (''no market tick cached for '' @ quoted (ot_symbol (po_terms po)))) st1
           | Some tick \<Rightarrow>
               (case po of MarketOrder t \<Rightarrow> place_market h t tick st1 | LimitOrder t p \<Rightarrow> place_limit h (t, p) tick st1)))"

fun paper_cancel :: "'w paper_host \<Rightarrow> cancel_ref list \<Rightarrow> paper \<times> 'w \<Rightarrow> (paper \<times> 'w) res" where
  "paper_cancel h [] st = Inr st"
| "paper_cancel h (ExternalRef x # rs) st = paper_cancel h rs st"
| "paper_cancel h (SagaRef r # rs) st =
     (case take_off (px_book (fst st)) (or_cloid r) of
        (None, b) \<Rightarrow> paper_cancel h rs st
      | (Some lo, b) \<Rightarrow>
          bind_res (publish_status h (fst lo) CANCELLED None (off_book (or_cloid r) st)) (\<lambda>st'. paper_cancel h rs st'))"

section \<open>Restart\<close>

fun rebuild_book :: "'w paper_host \<Rightarrow> order list \<Rightarrow> paper \<times> 'w \<Rightarrow> (paper \<times> 'w) res" where
  "rebuild_book h [] st = Inr st"
| "rebuild_book h (od # ods) st =
     bind_res (place_order_of od) (\<lambda>po.
       case po of
         MarketOrder t \<Rightarrow> Inl (InvariantViolation RebuildNotLimit)
       | LimitOrder t p \<Rightarrow>
           (case rest_working h (t, p) st of (_, st1) \<Rightarrow>
              (case paper_status h t (o_state od) None st1 of (_, (px, w)) \<Rightarrow>
                 rebuild_book h ods
                   (px\<lparr>px_counts := AList.update (o_cloid od) (int (fill_count od)) (px_counts px)\<rparr>, w))))"

definition paper_start :: "'w paper_host \<Rightarrow> paper \<times> 'w \<Rightarrow> (paper \<times> 'w) res" where
  "paper_start h st =
     bind_res (validate_against (px_leverage (fst st)) (px_specs (fst st))) (\<lambda>_.
       rebuild_book h (ph_resting h (snd st)) st)"

definition on_fill_report :: "fill_report \<Rightarrow> paper \<Rightarrow> paper res" where
  "on_fill_report r px =
     (case fill_number r of
        None \<Rightarrow> Inr px
      | Some n \<Rightarrow>
          if n \<le> dget (px_counts px) (fr_cloid r) 0 then Inr px
          else (case working_of (px_book px) (fr_cloid r) of
            None \<Rightarrow> Inr px
          | Some lo \<Rightarrow>
              bind_res (take_fill (px_book px) (fr_cloid r) (fr_quantity r)) (\<lambda>(_, b).
                Inr (px\<lparr>px_book := b, px_counts := AList.update (fr_cloid r) n (px_counts px),
                  px_fills := AList.update (fr_cloid r) (dget (px_fills px) (fr_cloid r) [] @ [r]) (px_fills px),
                  px_unapplied := record_unapplied (px_unapplied px) r (ot_side (fst lo))\<rparr>))))"

end
