(* ===== verification/TW_Paper_Runs.thy ===== *)
theory TW_Paper_Runs
  imports TW_Paper
begin

text \<open>
  The paper exchange over any sequence of its handlers, on a host whose awaits do not yield: a
  report published from a handler is queued (\<open>InMemoryBus.publish\<close> while it drains) and the fill
  model does not sleep. The locale \<open>paper_keeps\<close> carries a property of the exchange's own memory
  through every handler from what its few primitive updates do to it.
\<close>

section \<open>A host that does not yield\<close>

type_synonym 'v queue = "'v \<times> execution_report list"

definition calm_host :: "'v queue paper_host \<Rightarrow> bool" where
  "calm_host h \<longleftrightarrow>
     (\<forall>r px v q. ph_publish h r (px, v, q) = Inr (px, v, q @ [r]))
   \<and> (\<forall>t tick st. \<exists>f. ph_market h t tick st = Inr (f, st))
   \<and> (\<forall>lo tick st. \<exists>a. ph_limit h lo tick st = Inr (a, st))
   \<and> (\<forall>v q q'. ph_net h (v, q) = ph_net h (v, q') \<and> ph_applied h (v, q) = ph_applied h (v, q'))"

text \<open>
  The host of the engine's handlers, over given ledger reads and the decisions of a fill model
  that does not sleep. A decision may depend on what is queued so far, as a random stream does.
\<close>

definition queued_host ::
  "('v \<Rightarrow> (string, decimal) dict) \<Rightarrow> ('v \<Rightarrow> string \<Rightarrow> string set) \<Rightarrow> ('v \<Rightarrow> order list) \<Rightarrow> ('v \<Rightarrow> int) \<Rightarrow>
    (order_terms \<Rightarrow> market_tick \<Rightarrow> 'v queue \<Rightarrow> paper_fill) \<Rightarrow>
    (limit_order \<Rightarrow> market_tick \<Rightarrow> 'v queue \<Rightarrow> paper_fill option) \<Rightarrow> 'v queue paper_host" where
  "queued_host net applied resting now market limit =
     \<lparr>ph_net = (\<lambda>w. net (fst w)), ph_applied = (\<lambda>w. applied (fst w)), ph_resting = (\<lambda>w. resting (fst w)),
      ph_now = (\<lambda>w. now (fst w)), ph_publish = (\<lambda>r (px, v, q). Inr (px, v, q @ [r])),
      ph_market = (\<lambda>t tick st. Inr (market t tick (snd st), st)),
      ph_limit = (\<lambda>lo tick st. Inr (limit lo tick (snd st), st))\<rparr>"

lemma queued_calm: "calm_host (queued_host net applied resting now market limit)"
  by (simp add: calm_host_def queued_host_def)

definition immediate_host ::
  "('v \<Rightarrow> (string, decimal) dict) \<Rightarrow> ('v \<Rightarrow> string \<Rightarrow> string set) \<Rightarrow> ('v \<Rightarrow> order list) \<Rightarrow> ('v \<Rightarrow> int) \<Rightarrow> 'v queue paper_host" where
  "immediate_host net applied resting now =
     queued_host net applied resting now (\<lambda>t tick w. immediate_market t (tk_price tick)) (\<lambda>lo tick w. Some (immediate_limit lo))"

lemma calm_limit:
  assumes "calm_host h"
  obtains a where "ph_limit h lo tick st = Inr (a, st)"
  using assms unfolding calm_host_def by blast

lemma calm_market:
  assumes "calm_host h"
  obtains f where "ph_market h t tick st = Inr (f, st)"
  using assms unfolding calm_host_def by blast

text \<open>A book left over from another: nothing new rests on it.\<close>

definition lessens :: "order_book \<Rightarrow> order_book \<Rightarrow> bool" where
  "lessens b b' \<longleftrightarrow> (dict_ok b \<longrightarrow> dict_ok b') \<and> (\<forall>c r'. map_of b' c = Some r' \<longrightarrow> (\<exists>r. map_of b c = Some r \<and> rg_order r' = rg_order r))"

lemma lessens_ops:
  "lessens b (snd (take_off b c))"
  "shrink_to b c x = Inr b' \<Longrightarrow> lessens b b'"
  "take_fill b c q = Inr (f, b') \<Longrightarrow> lessens b b'"
  by (auto simp: lessens_def take_off_def shrink_to_def take_fill_def Let_def split: option.splits if_splits)

section \<open>What every handler keeps\<close>

locale paper_keeps =
  fixes h :: "'v queue paper_host" and I :: "paper \<Rightarrow> bool" and Rests :: "limit_order \<Rightarrow> bool"
  assumes calm: "calm_host h"
    and fresh_reads: "I px \<Longrightarrow> I (px\<lparr>px_unapplied := u\<rparr>)" "I px \<Longrightarrow> I (px\<lparr>px_ticks := ts\<rparr>)"
    and status: "I px \<Longrightarrow> I (px\<lparr>px_statuses := AList.update c r (px_statuses px)\<rparr>)"
    and filled: "I px \<Longrightarrow> I (fst (snd (paper_fill_report h t f maker (px, w))))"
    and less: "I px \<Longrightarrow> lessens (px_book px) b \<Longrightarrow> I (px\<lparr>px_book := b\<rparr>)"
    and rests: "I px \<Longrightarrow> Rests lo \<Longrightarrow> I (px\<lparr>px_book := snd (rest_on (px_book px) lo (Some q))\<rparr>)"
begin

lemma keeps_net: "net_size h sy st = (n, st') \<Longrightarrow> I (fst st) \<Longrightarrow> I (fst st')"
  using fresh_reads(1) by (auto simp: net_size_def signed_size_def Let_def split: prod.splits)

lemma keeps_reduces: "reduces_net h t st = (b, st') \<Longrightarrow> I (fst st) \<Longrightarrow> I (fst st')"
  using keeps_net by (auto simp: reduces_net_def split: prod.splits)

lemma keeps_working: "working_size h t st = (q, st') \<Longrightarrow> I (fst st) \<Longrightarrow> I (fst st')"
  using keeps_net by (auto simp: working_size_def split: prod.splits if_splits)

lemma keeps_publish_status: "publish_status h t s r st = Inr st' \<Longrightarrow> I (fst st) \<Longrightarrow> I (fst st')"
proof -
  obtain px v q where st: "st = (px, v, q)" by (cases st)
  assume "publish_status h t s r st = Inr st'" "I (fst st)"
  then show ?thesis using calm status by (auto simp: publish_status_def paper_status_def calm_host_def Let_def st)
qed

lemma keeps_publish_fill: "publish_fill h t f maker st = Inr st' \<Longrightarrow> I (fst st) \<Longrightarrow> I (fst st')"
proof -
  obtain px v q where st: "st = (px, v, q)" by (cases st)
  assume a: "publish_fill h t f maker st = Inr st'" "I (fst st)"
  obtain r px1 where r: "paper_fill_report h t f maker (px, v, q) = (r, px1, v, q)"
    by (simp add: paper_fill_report_def Let_def)
  with a calm have "fst st' = px1" by (auto simp: publish_fill_def calm_host_def st)
  with filled [of px t f maker "(v, q)"] a(2) r show ?thesis by (simp add: st)
qed

lemma keeps_end: "(if b then end_shrunk h t st else Inr st) = Inr st' \<Longrightarrow> I (fst st) \<Longrightarrow> I (fst st')"
  by (cases b) (simp_all add: end_shrunk_def keeps_publish_status)

lemma keeps_guard: "(if b then reduces_net h t st else (True, st)) = (x, st') \<Longrightarrow> I (fst st) \<Longrightarrow> I (fst st')"
  by (cases b) (simp_all add: keeps_reduces)

lemma keeps_off: "I (fst st) \<Longrightarrow> I (fst (off_book c st))"
  using less lessens_ops(1) by (auto simp: off_book_def split: prod.split)

lemma keeps_recheck_loop: "recheck_loop h sy los st = Inr st' \<Longrightarrow> I (fst st) \<Longrightarrow> I (fst st')"
proof (induction los arbitrary: st)
  case (Cons lo los)
  show ?case
  proof (cases "ot_symbol (fst lo) \<noteq> sy \<or> \<not> ot_reduce_only (fst lo)")
    case True
    then have "recheck_loop h sy (lo # los) st = recheck_loop h sy los st" by simp
    with Cons show ?thesis by simp
  next
    case False
    obtain b st1 where r: "reduces_net h (fst lo) st = (b, st1)" by (rule prod.exhaust)
    note i1 = keeps_reduces [OF r Cons.prems(2)]
    show ?thesis
    proof (cases b)
      case True
      obtain n px w where n: "net_size h sy st1 = (n, px, w)" by (cases "net_size h sy st1") auto
      from Cons.prems(1) False True r n obtain bk where s: "shrink_to (px_book px) (ot_cloid (fst lo)) (dabs n) = Inr bk"
        and rest: "recheck_loop h sy los (px\<lparr>px_book := bk\<rparr>, w) = Inr st'" by (auto simp: bind_res_eq_Inr)
      have "I px" using keeps_net [OF n i1] by simp
      then have "I (px\<lparr>px_book := bk\<rparr>)" by (rule less [OF _ lessens_ops(2) [OF s]])
      with Cons.IH [OF rest] show ?thesis by simp
    next
      case nored: False
      from Cons.prems(1) False nored r obtain st2 where
        p: "publish_status h (fst lo) CANCELLED (Some ''reduce-only cancelled'') (off_book (ot_cloid (fst lo)) st1) = Inr st2"
        and rest: "recheck_loop h sy los st2 = Inr st'" by (auto simp: bind_res_eq_Inr)
      show ?thesis by (rule Cons.IH [OF rest keeps_publish_status [OF p keeps_off [OF i1]]])
    qed
  qed
qed simp

lemma keeps_recheck: "recheck_reduce_only h sy st = Inr st' \<Longrightarrow> I (fst st) \<Longrightarrow> I (fst st')"
  unfolding recheck_reduce_only_def by (rule keeps_recheck_loop)

lemma keeps_crossing:
  assumes "fill_crossing_limit h lo tick maker st = Inr (whole, st')" "I (fst st)"
  shows "I (fst st')"
proof -
  obtain px w where st: "st = (px, w)" by (cases st)
  obtain a where a: "ph_limit h lo tick st = Inr (a, st)" by (rule calm_limit [OF calm])
  show ?thesis
  proof (cases a)
    case None
    with assms a show ?thesis by (auto simp: fill_crossing_limit_def st)
  next
    case (Some f)
    with assms(1) a obtain bf b st1 st2 where
      1: "take_fill (px_book px) (ot_cloid (fst lo)) (pp_quantity f) = Inr (bf, b)"
      and 2: "publish_fill h (fst lo) (f\<lparr>pp_quantity := bf_filled bf\<rparr>) maker (px\<lparr>px_book := b\<rparr>, w) = Inr st1"
      and 3: "(if bf_shrunk bf then end_shrunk h (fst lo) st1 else Inr st1) = Inr st2"
      and 4: "recheck_reduce_only h (ot_symbol (fst lo)) st2 = Inr st'"
      by (auto simp: fill_crossing_limit_def st bind_res_eq_Inr)
    have "I (px\<lparr>px_book := b\<rparr>)" using assms(2) by (intro less lessens_ops(3) [OF 1]) (simp add: st)
    then have "I (fst st1)" using keeps_publish_fill [OF 2] by simp
    then have "I (fst st2)" by (rule keeps_end [OF 3])
    then show ?thesis by (rule keeps_recheck [OF 4])
  qed
qed

lemma keeps_match_loop: "match_loop h tick los st = Inr st' \<Longrightarrow> I (fst st) \<Longrightarrow> I (fst st')"
proof (induction los arbitrary: st)
  case (Cons lo0 los)
  show ?case
  proof (cases "working_of (px_book (fst st)) (ot_cloid (fst lo0))")
    case None
    with Cons show ?thesis by simp
  next
    case (Some lo)
    show ?thesis
    proof (cases "ot_symbol (fst lo) = tk_symbol tick \<and> crosses lo tick")
      case True
      with Cons.prems(1) Some obtain whole st1 where c: "fill_crossing_limit h lo tick True st = Inr (whole, st1)"
        and m: "match_loop h tick los st1 = Inr st'" by (auto simp: bind_res_eq_Inr)
      show ?thesis by (rule Cons.IH [OF m keeps_crossing [OF c Cons.prems(2)]])
    next
      case False
      with Cons.prems(1) Some have "match_loop h tick los st = Inr st'" by (simp split: if_splits)
      then show ?thesis by (rule Cons.IH [OF _ Cons.prems(2)])
    qed
  qed
qed simp

lemma keeps_tick: "on_tick h tick st = Inr st' \<Longrightarrow> I (fst st) \<Longrightarrow> I (fst st')"
proof -
  obtain px w where st: "st = (px, w)" by (cases st)
  assume a: "on_tick h tick st = Inr st'" "I (fst st)"
  have "I (px\<lparr>px_ticks := AList.update (tk_symbol tick) tick (px_ticks px),
       px_unapplied := drain_unapplied (ph_applied h w) (px_unapplied px)\<rparr>)"
    using a(2) fresh_reads by (simp add: st)
  with a(1) keeps_match_loop show ?thesis by (fastforce simp: on_tick_def match_book_def st)
qed

lemma keeps_market:
  assumes "place_market h t0 tick st = Inr st'" "I (fst st)"
  shows "I (fst st')"
proof -
  obtain q st1 where w: "working_size h t0 st = (q, st1)" by (rule prod.exhaust)
  define t where "t = t0\<lparr>ot_quantity := q\<rparr>"
  note i1 = keeps_working [OF w assms(2)]
  obtain b st2 where b: "(case map_of (px_specs (fst st1)) (ot_symbol t) of
                  None \<Rightarrow> (False, st1)
                | Some spec \<Rightarrow> (case net_size h (ot_symbol t) st1 of
                    (net, st2) \<Rightarrow> (min_notional_refuses (tk_price tick) q spec (ot_side t) (ot_reduce_only t) net, st2)))
        = (b, st2)" by (rule prod.exhaust)
  have i2: "I (fst st2)" using b i1 keeps_net by (auto split: option.splits prod.splits)
  note run = assms(1) [unfolded place_market_def Let_def w prod.case, folded t_def, unfolded b prod.case]
  show ?thesis
  proof (cases b)
    case True
    with run have "publish_status h t REJECTED (Some ''below min notional'') st2 = Inr st'" by simp
    then show ?thesis by (rule keeps_publish_status [OF _ i2])
  next
    case False
    obtain f where f: "ph_market h t tick st2 = Inr (f, st2)" by (rule calm_market [OF calm])
    with run False obtain st4 st5 where 4: "publish_fill h t f False st2 = Inr st4"
      and 5: "(if q < ot_quantity t0 then end_shrunk h t st4 else Inr st4) = Inr st5"
      and 6: "recheck_reduce_only h (ot_symbol t) st5 = Inr st'" by (auto simp: bind_res_eq_Inr)
    have "I (fst st5)" by (rule keeps_end [OF 5 keeps_publish_fill [OF 4 i2]])
    then show ?thesis by (rule keeps_recheck [OF 6])
  qed
qed

lemma keeps_rest:
  assumes "rest_working h lo st = (wk, st')" "I (fst st)" "Rests lo"
  shows "I (fst st')"
proof -
  obtain q px w where w: "working_size h (fst lo) st = (q, px, w)" by (cases "working_size h (fst lo) st") auto
  have "I px" using keeps_working [OF w assms(2)] by simp
  with assms(1,3) w show ?thesis using rests [of px lo q] by (auto simp: rest_working_def split: prod.splits)
qed

lemma keeps_limit:
  assumes "place_limit h lo tick st = Inr st'" "I (fst st)" "Rests lo"
  shows "I (fst st')"
proof -
  obtain wk st1 where r: "rest_working h lo st = (wk, st1)" by (rule prod.exhaust)
  note i1 = keeps_rest [OF r assms(2,3)]
  show ?thesis
  proof (cases "crosses lo tick \<and> \<not> ot_post_only (fst lo)")
    case True
    with assms(1) r obtain whole st2 where c: "fill_crossing_limit h wk tick False st1 = Inr (whole, st2)"
      and e: "(if whole then Inr st2
            else if ot_time_in_force (fst lo) = IOC
            then publish_status h (fst lo) CANCELLED None (off_book (ot_cloid (fst lo)) st2)
            else if \<not> has_partial (px_book (fst st2)) (ot_cloid (fst lo)) then publish_status h (fst lo) LIVE None st2
            else Inr st2) = Inr st'"
      by (auto simp: place_limit_def bind_res_eq_Inr)
    have "I (fst st2)" by (rule keeps_crossing [OF c i1])
    with e keeps_publish_status keeps_off show ?thesis by (metis Inr_inject)
  next
    case False
    with assms(1,2) i1 r keeps_publish_status show ?thesis by (auto simp: place_limit_def split: if_splits)
  qed
qed

lemma keeps_place:
  assumes "paper_place h po st = Inr st'" "I (fst st)" "case po of LimitOrder t p \<Rightarrow> Rests (t, p) | MarketOrder t \<Rightarrow> True"
  shows "I (fst st')"
proof -
  obtain b st1 where b: "(if ot_reduce_only (po_terms po) then reduces_net h (po_terms po) st else (True, st)) = (b, st1)"
    by (rule prod.exhaust)
  have i1: "I (fst st1)" by (rule keeps_guard [OF b assms(2)])
  note run = assms(1) [unfolded paper_place_def b prod.case]
  show ?thesis
  proof (cases "b \<and> map_of (px_ticks (fst st1)) (ot_symbol (po_terms po)) \<noteq> None")
    case True
    then obtain tick where "map_of (px_ticks (fst st1)) (ot_symbol (po_terms po)) = Some tick" by auto
    with run True assms(3) i1 keeps_market keeps_limit show ?thesis by (cases po) auto
  next
    case False
    with run have "\<exists>s r. publish_status h (po_terms po) s r st1 = Inr st'" by (auto split: bool.splits)
    with i1 keeps_publish_status show ?thesis by blast
  qed
qed

lemma keeps_cancel: "paper_cancel h rs st = Inr st' \<Longrightarrow> I (fst st) \<Longrightarrow> I (fst st')"
proof (induction rs arbitrary: st)
  case (Cons x rs)
  show ?case
  proof (cases x)
    case (SagaRef r)
    show ?thesis
    proof (cases "map_of (px_book (fst st)) (or_cloid r)")
      case None
      with Cons SagaRef show ?thesis by (simp add: take_off_def)
    next
      case (Some rg)
      with Cons.prems(1) SagaRef obtain st1 where
        p: "publish_status h (fst (rg_order rg)) CANCELLED None (off_book (or_cloid r) st) = Inr st1"
        and rest: "paper_cancel h rs st1 = Inr st'" by (auto simp: take_off_def bind_res_eq_Inr)
      show ?thesis by (rule Cons.IH [OF rest keeps_publish_status [OF p keeps_off [OF Cons.prems(2)]]])
    qed
  qed (use Cons in simp)
qed simp

end

section \<open>Runs\<close>

text \<open>
  One handler, or a change of the world around the exchange, with what it reads and queues. A
  reader that drains the unapplied fills is a step too.
\<close>

inductive paper_step :: "'v queue paper_host \<Rightarrow> paper \<times> 'v queue \<Rightarrow> paper \<times> 'v queue \<Rightarrow> bool" for h where
  tick: "on_tick h tick st = Inr st' \<Longrightarrow> paper_step h st st'"
| place: "paper_place h po st = Inr st' \<Longrightarrow> paper_step h st st'"
| cancel: "paper_cancel h rs st = Inr st' \<Longrightarrow> paper_step h st st'"
| redelivered: "on_fill_report r px = Inr px' \<Longrightarrow> paper_step h (px, w) (px', w)"
| read: "net_size h symbol st = (n, st') \<Longrightarrow> paper_step h st st'"
| world: "paper_step h (px, w) (px, w')"

definition starts :: "'v queue paper_host \<Rightarrow> paper \<times> 'v queue \<Rightarrow> bool" where
  "starts h st \<longleftrightarrow> (\<exists>genesis label specs leverage w. paper_start h (make_paper genesis label specs leverage, w) = Inr st)"

lemma rebuild_unfold:
  assumes "rebuild_book h (od # ods) (px, w) = Inr st"
  obtains t p q u r where "place_order_of od = Inr (LimitOrder t p)"
    "rebuild_book h ods (px\<lparr>px_unapplied := u, px_book := snd (rest_on (px_book px) (t, p) (Some q)),
      px_statuses := AList.update (ot_cloid t) r (px_statuses px),
      px_counts := AList.update (o_cloid od) (int (fill_count od)) (px_counts px)\<rparr>, w) = Inr st"
proof -
  from assms obtain po where po: "place_order_of od = Inr po"
    and rest: "(case po of MarketOrder t \<Rightarrow> Inl (InvariantViolation RebuildNotLimit)
       | LimitOrder t p \<Rightarrow> (case rest_working h (t, p) (px, w) of (_, st1) \<Rightarrow>
              (case paper_status h t (o_state od) None st1 of (_, (px, w)) \<Rightarrow>
                 rebuild_book h ods
                   (px\<lparr>px_counts := AList.update (o_cloid od) (int (fill_count od)) (px_counts px)\<rparr>, w)))) = Inr st"
    by (auto simp: bind_res_eq_Inr)
  show thesis
  proof (cases po)
    case (LimitOrder t p)
    obtain q u where q: "working_size h t (px, w) = (q, px\<lparr>px_unapplied := u\<rparr>, w)"
    proof (cases "ot_reduce_only t")
      case True
      then show thesis using that by (auto simp: working_size_def net_size_def signed_size_def Let_def)
    next
      case False
      then have "working_size h t (px, w) = (ot_quantity t, px\<lparr>px_unapplied := px_unapplied px\<rparr>, w)"
        by (simp add: working_size_def)
      then show thesis by (rule that)
    qed
    obtain wk b where wk: "rest_on (px_book px) (t, p) (Some q) = (wk, b)" by fastforce
    have "rest_working h (t, p) (px, w) = (wk, px\<lparr>px_unapplied := u, px_book := b\<rparr>, w)"
      using q wk by (simp add: rest_working_def)
    with rest LimitOrder po wk show ?thesis by (intro that [where t = t and p = p and u = u and q = q]) (simp_all add: paper_status_def Let_def)
  qed (use rest in simp)
qed

section \<open>Trade ids never repeat\<close>

definition numbers_ok :: "paper \<Rightarrow> bool" where
  "numbers_ok px \<longleftrightarrow> (\<forall>c. 0 \<le> dget (px_counts px) c 0 \<and> (\<forall>r \<in> set (dget (px_fills px) c []). fr_cloid r = c)
     \<and> (\<exists>ns. map fill_number (dget (px_fills px) c []) = map Some ns \<and> sorted_wrt (<) ns
          \<and> (\<forall>n \<in> set ns. n \<le> dget (px_counts px) c 0)))"

lemma show_int_digits: "0 \<le> n \<Longrightarrow> list_all (\<lambda>c. digit_of c \<noteq> None) (show_int n) \<and> CHR ''-'' \<notin> set (show_int n)
    \<and> show_int n \<noteq> '''' \<and> read_digits 0 False (show_int n) = Some (nat n)"
  using digit_of_digit_char
  by (fastforce simp: show_int_def list_all_iff read_show_nat dest!: show_nat_chars dest: digit_char_not_mark(1))

lemma rpartition_id: "CHR ''-'' \<notin> set s \<Longrightarrow> rpartition_dash (c @ CHR ''-'' # s) = (c, s)"
  by (simp add: rpartition_dash_def takeWhile_append dropWhile_append Let_def)

lemma fill_number_own:
  assumes "0 \<le> n" "fr_trade_id r = trade_id_of (fr_cloid r) n"
  shows "fill_number r = Some n"
  using show_int_digits [OF assms(1)] assms
  by (simp add: fill_number_def trade_id_of_def rpartition_id is_decimal_def)

lemma numbers_cong: "numbers_ok px \<Longrightarrow> px_counts px' = px_counts px \<Longrightarrow> px_fills px' = px_fills px \<Longrightarrow> numbers_ok px'"
  unfolding numbers_ok_def by metis

lemma numbers_snoc:
  assumes "numbers_ok px" "fill_number r = Some n" "dget (px_counts px) (fr_cloid r) 0 < n"
  shows "numbers_ok (px\<lparr>px_counts := AList.update (fr_cloid r) n (px_counts px),
    px_fills := AList.update (fr_cloid r) (dget (px_fills px) (fr_cloid r) [] @ [r]) (px_fills px), px_unapplied := u\<rparr>)"
    (is "numbers_ok ?px")
  unfolding numbers_ok_def
proof
  fix c
  show "0 \<le> dget (px_counts ?px) c 0 \<and> (\<forall>r \<in> set (dget (px_fills ?px) c []). fr_cloid r = c)
     \<and> (\<exists>ns. map fill_number (dget (px_fills ?px) c []) = map Some ns \<and> sorted_wrt (<) ns
          \<and> (\<forall>n \<in> set ns. n \<le> dget (px_counts ?px) c 0))"
  proof (cases "c = fr_cloid r")
    case True
    with assms(1) obtain ns where ns: "map fill_number (dget (px_fills px) c []) = map Some ns" "sorted_wrt (<) ns"
      "\<forall>m \<in> set ns. m \<le> dget (px_counts px) c 0" "0 \<le> dget (px_counts px) c 0"
      "\<forall>r \<in> set (dget (px_fills px) c []). fr_cloid r = c" unfolding numbers_ok_def by blast
    have "map fill_number (dget (px_fills ?px) c []) = map Some (ns @ [n])" using ns(1) assms(2) True by simp
    moreover have "sorted_wrt (<) (ns @ [n])" using ns(2,3) assms(3) True by (auto simp: sorted_wrt_append)
    moreover have "\<forall>m \<in> set (ns @ [n]). m \<le> dget (px_counts ?px) c 0" using ns(3) assms(3) True by auto
    ultimately show ?thesis using ns(4,5) assms(3) True
      by (intro conjI exI [of _ "ns @ [n]"]) auto
  next
    case False
    with assms(1) show ?thesis by (simp add: numbers_ok_def)
  qed
qed

lemma numbers_filled:
  assumes "numbers_ok px"
  shows "numbers_ok (fst (snd (paper_fill_report h t f maker (px, w))))"
proof -
  define n where "n = dget (px_counts px) (ot_cloid t) 0 + 1"
  obtain r where r: "fst (paper_fill_report h t f maker (px, w)) = r" by blast
  have c: "fr_cloid r = ot_cloid t" "fr_trade_id r = trade_id_of (fr_cloid r) n"
    using r by (auto simp: paper_fill_report_def Let_def n_def)
  have "0 \<le> n" using assms by (simp add: numbers_ok_def n_def)
  from numbers_snoc [OF assms fill_number_own [OF this c(2)]] r c(1) show ?thesis
    by (auto simp: paper_fill_report_def Let_def n_def)
qed

interpretation ids: paper_keeps "queued_host net applied resting now market limit" numbers_ok "\<lambda>lo. True"
  for net applied resting now market limit
  by (rule paper_keeps.intro) (simp_all add: queued_calm numbers_filled, simp_all add: numbers_ok_def)

lemma redelivered_cases:
  assumes "on_fill_report r px = Inr px'"
  obtains "px' = px"
  | n b f u where "fill_number r = Some n" "dget (px_counts px) (fr_cloid r) 0 < n"
    "take_fill (px_book px) (fr_cloid r) (fr_quantity r) = Inr (f, b)"
    "px' = px\<lparr>px_book := b, px_counts := AList.update (fr_cloid r) n (px_counts px),
      px_fills := AList.update (fr_cloid r) (dget (px_fills px) (fr_cloid r) [] @ [r]) (px_fills px), px_unapplied := u\<rparr>"
proof (cases "fill_number r")
  case None
  with assms that(1) show ?thesis by (simp add: on_fill_report_def)
next
  case (Some n)
  show ?thesis
  proof (cases "n \<le> dget (px_counts px) (fr_cloid r) 0 \<or> working_of (px_book px) (fr_cloid r) = None")
    case True
    with assms Some that(1) show ?thesis by (auto simp: on_fill_report_def split: if_splits)
  next
    case False
    then obtain lo where "working_of (px_book px) (fr_cloid r) = Some lo" by auto
    with assms Some False obtain f b where t: "take_fill (px_book px) (fr_cloid r) (fr_quantity r) = Inr (f, b)"
      and px': "px' = px\<lparr>px_book := b, px_counts := AList.update (fr_cloid r) n (px_counts px),
        px_fills := AList.update (fr_cloid r) (dget (px_fills px) (fr_cloid r) [] @ [r]) (px_fills px),
        px_unapplied := record_unapplied (px_unapplied px) r (ot_side (fst lo))\<rparr>"
      by (auto simp: on_fill_report_def bind_res_eq_Inr)
    from False have "dget (px_counts px) (fr_cloid r) 0 < n" by simp
    from that(2) [OF Some this t px'] show ?thesis .
  qed
qed

lemma numbers_redelivered:
  assumes "on_fill_report r px = Inr px'" "numbers_ok px"
  shows "numbers_ok px'"
  using assms(1)
proof (cases rule: redelivered_cases)
  case (2 n b f u)
  have "px_counts px' = AList.update (fr_cloid r) n (px_counts px)"
    "px_fills px' = AList.update (fr_cloid r) (dget (px_fills px) (fr_cloid r) [] @ [r]) (px_fills px)" by (simp_all add: 2(4))
  then show ?thesis by (intro numbers_cong [OF numbers_snoc [OF assms(2) 2(1,2)]]) simp_all
qed (simp add: assms(2))

lemma numbers_rebuilt:
  "rebuild_book h ods (px, w) = Inr st \<Longrightarrow> px_fills px = [] \<Longrightarrow> \<forall>c. 0 \<le> dget (px_counts px) c 0 \<Longrightarrow> numbers_ok (fst st)"
proof (induction ods arbitrary: px)
  case Nil
  then show ?case by (auto simp: numbers_ok_def)
next
  case (Cons od ods)
  from Cons.prems(1) show ?case
  proof (rule rebuild_unfold)
    fix t p q u r
    assume "rebuild_book h ods (px\<lparr>px_unapplied := u, px_book := snd (rest_on (px_book px) (t, p) (Some q)),
      px_statuses := AList.update (ot_cloid t) r (px_statuses px),
      px_counts := AList.update (o_cloid od) (int (fill_count od)) (px_counts px)\<rparr>, w) = Inr st"
    from Cons.IH [OF this] Cons.prems(2,3) show ?thesis by simp
  qed
qed

lemma starts_numbers: "starts h st \<Longrightarrow> numbers_ok (fst st)"
  by (auto simp: starts_def paper_start_def bind_res_eq_Inr make_paper_def intro!: numbers_rebuilt)

lemma step_numbers:
  "paper_step (queued_host net applied resting now market limit) st st' \<Longrightarrow> numbers_ok (fst st) \<Longrightarrow> numbers_ok (fst st')"
proof (induction rule: paper_step.induct)
  case (place po st st')
  then show ?case by (cases po) (metis ids.keeps_place place_order.case)+
qed (auto dest: ids.keeps_tick ids.keeps_cancel ids.keeps_net numbers_redelivered)

lemma run_numbers:
  "(paper_step (queued_host net applied resting now market limit))\<^sup>*\<^sup>* st st' \<Longrightarrow> numbers_ok (fst st) \<Longrightarrow> numbers_ok (fst st')"
  by (induction rule: rtranclp_induct) (auto intro: step_numbers)



section \<open>Every resting order answers a read\<close>

definition recorded :: "paper \<Rightarrow> string \<Rightarrow> bool" where
  "recorded px c \<longleftrightarrow> map_of (px_statuses px) c \<noteq> None \<or> dget (px_fills px) c [] \<noteq> []"

definition on_record_but :: "string set \<Rightarrow> paper \<Rightarrow> bool" where
  "on_record_but X px \<longleftrightarrow> (\<forall>c. map_of (px_book px) c \<noteq> None \<longrightarrow> c \<notin> X \<longrightarrow> recorded px c)"

definition keyed :: "paper \<Rightarrow> bool" where
  "keyed px \<longleftrightarrow> dict_ok (px_book px) \<and> (\<forall>c r. map_of (px_book px) c = Some r \<longrightarrow> ot_cloid (fst (rg_order r)) = c)"

lemma paper_fill_report_frame [simp]:
  "px_book (fst (snd (paper_fill_report h t f maker (px, w)))) = px_book px"
  "px_statuses (fst (snd (paper_fill_report h t f maker (px, w)))) = px_statuses px"
  by (simp_all add: paper_fill_report_def Let_def)

lemma recorded_fill:
  "recorded px c \<Longrightarrow> recorded (fst (snd (paper_fill_report h t f maker (px, w)))) c"
  "recorded (fst (snd (paper_fill_report h t f maker (px, w)))) (ot_cloid t)"
  by (auto simp: recorded_def paper_fill_report_def Let_def)

lemma lessens_gone: "lessens b b' \<Longrightarrow> map_of b c = None \<Longrightarrow> map_of b' c = None"
  unfolding lessens_def by (metis not_None_eq)

lemma rest_on_lookup:
  "map_of (snd (rest_on b lo w)) c = (if ot_cloid (fst lo) = c
    then Some \<lparr>rg_order = lo, rg_working = min (case w of None \<Rightarrow> ot_quantity (fst lo) | Some x \<Rightarrow> x) (ot_quantity (fst lo)),
      rg_filled = 0\<rparr> else map_of b c)"
  by (simp add: rest_on_def Let_def)

lemma rest_on_dict: "dict_ok b \<Longrightarrow> dict_ok (snd (rest_on b lo w))"
  by (simp add: rest_on_def Let_def)

interpretation held: paper_keeps "queued_host net applied resting now market limit"
  "\<lambda>px. recorded px c" "\<lambda>lo. True" for net applied resting now market limit c
  by (rule paper_keeps.intro) (simp_all add: queued_calm recorded_fill, auto simp: recorded_def)

interpretation gone: paper_keeps "queued_host net applied resting now market limit"
  "\<lambda>px. map_of (px_book px) c = None" "\<lambda>lo. ot_cloid (fst lo) \<noteq> c" for net applied resting now market limit c
  by (rule paper_keeps.intro) (auto simp: queued_calm rest_on_lookup dest: lessens_gone)

lemma keyed_less: "keyed px \<Longrightarrow> lessens (px_book px) (px_book px') \<Longrightarrow> keyed px'"
  unfolding keyed_def lessens_def by metis

interpretation keys: paper_keeps "queued_host net applied resting now market limit" keyed "\<lambda>lo. True"
  for net applied resting now market limit
proof (rule paper_keeps.intro)
  show "keyed (px\<lparr>px_book := b\<rparr>)" if "keyed px" "lessens (px_book px) b" for px b
    by (rule keyed_less [OF that(1)]) (simp add: that(2))
  show "keyed (px\<lparr>px_book := snd (rest_on (px_book px) lo (Some q))\<rparr>)" if "keyed px" for px lo q
    using that by (simp add: keyed_def rest_on_lookup rest_on_dict)
qed (simp_all add: queued_calm keyed_def)

interpretation onrec: paper_keeps "queued_host net applied resting now market limit"
  "on_record_but X" "\<lambda>lo. ot_cloid (fst lo) \<in> X" for net applied resting now market limit X
proof (rule paper_keeps.intro)
  show "on_record_but X (px\<lparr>px_book := b\<rparr>)" if "on_record_but X px" "lessens (px_book px) b" for px b
    using that lessens_gone unfolding on_record_but_def by (fastforce simp: recorded_def)
  show "on_record_but X (fst (snd (paper_fill_report h t f maker (px, w))))" if "on_record_but X px" for h t f maker px w
    using that by (auto simp: on_record_but_def intro!: recorded_fill(1))
  show "on_record_but X (px\<lparr>px_book := snd (rest_on (px_book px) lo (Some q))\<rparr>)"
    if "on_record_but X px" "ot_cloid (fst lo) \<in> X" for px lo q
    using that by (auto simp: on_record_but_def rest_on_lookup recorded_def)
qed (auto simp: queued_calm on_record_but_def recorded_def)

lemma status_records:
  assumes "publish_status (queued_host net applied resting now market limit) t s r st = Inr st'"
  shows "recorded (fst st') (ot_cloid t)"
proof -
  obtain px v q where st: "st = (px, v, q)" by (cases st)
  from assms show ?thesis
    by (auto simp: publish_status_def paper_status_def queued_host_def recorded_def Let_def st)
qed

lemma take_fill_whole:
  "take_fill b c q = Inr (bf, b') \<Longrightarrow> bf_complete bf \<Longrightarrow> map_of b' c = None"
  by (auto simp: take_fill_def Let_def split: option.splits if_splits)

text \<open>A crossing fill that ends the order lifts it off the book; any other leaves a record of it.\<close>

lemma crossing_records:
  assumes "fill_crossing_limit (queued_host net applied resting now market limit) lo tick maker st = Inr (whole, st')"
  shows "(whole \<longrightarrow> map_of (px_book (fst st')) (ot_cloid (fst lo)) = None)
    \<and> (\<not> whole \<longrightarrow> st' = st \<or> recorded (fst st') (ot_cloid (fst lo)))"
proof -
  let ?h = "queued_host net applied resting now market limit"
  obtain px w where st: "st = (px, w)" by (cases st)
  have lim: "ph_limit ?h lo tick st = Inr (limit lo tick w, st)" by (simp add: queued_host_def st)
  show ?thesis
  proof (cases "limit lo tick w")
    case None
    with assms lim show ?thesis by (simp add: fill_crossing_limit_def st)
  next
    case (Some f)
    with assms lim obtain bf b st1 st2 where
      1: "take_fill (px_book px) (ot_cloid (fst lo)) (pp_quantity f) = Inr (bf, b)"
      and 2: "publish_fill ?h (fst lo) (f\<lparr>pp_quantity := bf_filled bf\<rparr>) maker (px\<lparr>px_book := b\<rparr>, w) = Inr st1"
      and 3: "(if bf_shrunk bf then end_shrunk ?h (fst lo) st1 else Inr st1) = Inr st2"
      and 4: "recheck_reduce_only ?h (ot_symbol (fst lo)) st2 = Inr st'" and whole: "whole = bf_complete bf"
      by (auto simp: fill_crossing_limit_def st bind_res_eq_Inr)
    obtain v q where w: "w = (v, q)" by (cases w)
    from 2 have st1: "fst st1 = fst (snd (paper_fill_report ?h (fst lo) (f\<lparr>pp_quantity := bf_filled bf\<rparr>) maker (px\<lparr>px_book := b\<rparr>, w)))"
      by (auto simp: publish_fill_def paper_fill_report_def queued_host_def w Let_def)
    have "recorded (fst st1) (ot_cloid (fst lo))" unfolding st1 by (rule recorded_fill(2))
    then have "recorded (fst st2) (ot_cloid (fst lo))" by (rule held.keeps_end [OF 3])
    then have rec: "recorded (fst st') (ot_cloid (fst lo))" by (rule held.keeps_recheck [OF 4])
    have "map_of (px_book (fst st')) (ot_cloid (fst lo)) = None" if "bf_complete bf"
    proof -
      have "map_of (px_book (fst st1)) (ot_cloid (fst lo)) = None"
        using take_fill_whole [OF 1 that] by (simp add: st1)
      then have "map_of (px_book (fst st2)) (ot_cloid (fst lo)) = None" by (rule gone.keeps_end [OF 3])
      then show ?thesis by (rule gone.keeps_recheck [OF 4])
    qed
    with rec whole show ?thesis by simp
  qed
qed

lemma limit_records:
  assumes "place_limit (queued_host net applied resting now market limit) lo tick st = Inr st'"
    and "on_record_but {} (fst st)"
  shows "on_record_but {} (fst st')"
proof -
  let ?h = "queued_host net applied resting now market limit" and ?c = "ot_cloid (fst lo)"
  have "on_record_but {?c} (fst st')"
    by (rule onrec.keeps_limit [OF assms(1)]) (use assms(2) in \<open>auto simp: on_record_but_def\<close>)
  moreover have "map_of (px_book (fst st')) ?c = None \<or> recorded (fst st') ?c"
  proof -
    obtain wk st1 where r: "rest_working ?h lo st = (wk, st1)" by (rule prod.exhaust)
    have wk: "ot_cloid (fst wk) = ?c" and new: "\<not> has_partial (px_book (fst st1)) ?c"
      using r by (auto simp: rest_working_def rest_on_def at_working_size_def has_partial_def Let_def split: prod.splits)
    show ?thesis
    proof (cases "crosses lo tick \<and> \<not> ot_post_only (fst lo)")
      case True
      with assms(1) r obtain whole st2 where c: "fill_crossing_limit ?h wk tick False st1 = Inr (whole, st2)"
        and e: "(if whole then Inr st2
              else if ot_time_in_force (fst lo) = IOC
              then publish_status ?h (fst lo) CANCELLED None (off_book ?c st2)
              else if \<not> has_partial (px_book (fst st2)) ?c then publish_status ?h (fst lo) LIVE None st2
              else Inr st2) = Inr st'"
        by (auto simp: place_limit_def bind_res_eq_Inr)
      from crossing_records [OF c] e new wk status_records show ?thesis by (metis Inr_inject)
    next
      case False
      with assms(1) r have "recorded (fst st') ?c"
        by (cases "crosses lo tick"; cases "ot_time_in_force (fst lo) = IOC") (auto simp: place_limit_def intro: status_records)
      then show ?thesis by blast
    qed
  qed
  ultimately show ?thesis by (auto simp: on_record_but_def)
qed

lemma place_records:
  assumes "paper_place (queued_host net applied resting now market limit) po st = Inr st'"
    and "on_record_but {} (fst st)"
  shows "on_record_but {} (fst st')"
proof (cases po)
  case (MarketOrder t)
  then show ?thesis using onrec.keeps_place [OF assms] by simp
next
  case (LimitOrder t p)
  let ?h = "queued_host net applied resting now market limit"
  obtain b st1 where b: "(if ot_reduce_only (po_terms po) then reduces_net ?h (po_terms po) st else (True, st)) = (b, st1)"
    by (rule prod.exhaust)
  have i1: "on_record_but {} (fst st1)" by (rule onrec.keeps_guard [OF b assms(2)])
  note run = assms(1) [unfolded paper_place_def b prod.case]
  show ?thesis
  proof (cases "b \<and> map_of (px_ticks (fst st1)) (ot_symbol (po_terms po)) \<noteq> None")
    case True
    then obtain tick where "map_of (px_ticks (fst st1)) (ot_symbol (po_terms po)) = Some tick" by auto
    with run True have "place_limit ?h (t, p) tick st1 = Inr st'" by (simp add: LimitOrder)
    then show ?thesis by (rule limit_records [OF _ i1])
  next
    case False
    with run have "publish_status ?h (po_terms po) REJECTED (Some ''reduce-only order would increase position'') st1 = Inr st'
      \<or> publish_status ?h (po_terms po) FAILED (Some (''no market tick cached for '' @ quoted (ot_symbol (po_terms po)))) st1 = Inr st'"
      by (auto split: bool.splits)
    then show ?thesis using onrec.keeps_publish_status [OF _ i1] by blast
  qed
qed

definition book_sound :: "paper \<Rightarrow> bool" where
  "book_sound px \<longleftrightarrow> keyed px \<and> on_record_but {} px"

lemma redelivered_sound:
  assumes "on_fill_report r px = Inr px'" "book_sound px"
  shows "book_sound px'"
  using assms(1)
proof (cases rule: redelivered_cases)
  case (2 n b f u)
  have f: "px_book px' = b" "px_statuses px' = px_statuses px"
    "px_fills px' = AList.update (fr_cloid r) (dget (px_fills px) (fr_cloid r) [] @ [r]) (px_fills px)"
    by (simp_all add: 2(4))
  have l: "lessens (px_book px) b" by (rule lessens_ops(3) [OF 2(3)])
  have "keyed px'" by (rule keyed_less [of px]) (use assms(2) l in \<open>simp_all add: book_sound_def f(1)\<close>)
  moreover have "recorded px' c" if "map_of b c \<noteq> None" for c
  proof -
    have "map_of (px_book px) c \<noteq> None" using that lessens_gone [OF l] by metis
    then have "recorded px c" using assms(2) by (simp add: book_sound_def on_record_but_def)
    then show ?thesis unfolding recorded_def f(2,3) by auto
  qed
  then have "on_record_but {} px'" by (simp add: on_record_but_def f(1))
  ultimately show ?thesis by (simp add: book_sound_def)
qed (simp add: assms(2))

lemma rebuild_sound: "rebuild_book h ods (px, w) = Inr st \<Longrightarrow> book_sound px \<Longrightarrow> book_sound (fst st)"
proof (induction ods arbitrary: px)
  case (Cons od ods)
  from Cons.prems(1) show ?case
  proof (rule rebuild_unfold)
    fix t p q u r
    assume run: "rebuild_book h ods (px\<lparr>px_unapplied := u, px_book := snd (rest_on (px_book px) (t, p) (Some q)),
      px_statuses := AList.update (ot_cloid t) r (px_statuses px),
      px_counts := AList.update (o_cloid od) (int (fill_count od)) (px_counts px)\<rparr>, w) = Inr st"
    show ?thesis
      by (rule Cons.IH [OF run])
        (use Cons.prems(2) in \<open>auto simp: book_sound_def keyed_def on_record_but_def rest_on_lookup rest_on_dict recorded_def\<close>)
  qed
qed auto

lemma starts_sound:
  assumes "starts h st"
  shows "book_sound (fst st)"
proof -
  obtain px ods w where run: "rebuild_book h ods (px, w) = Inr st" and px: "px_book px = []"
    using assms by (auto simp: starts_def paper_start_def bind_res_eq_Inr make_paper_def)
  show ?thesis by (rule rebuild_sound [OF run]) (simp add: px book_sound_def keyed_def on_record_but_def)
qed

lemma step_sound:
  "paper_step (queued_host net applied resting now market limit) st st' \<Longrightarrow> book_sound (fst st) \<Longrightarrow> book_sound (fst st')"
proof (induction rule: paper_step.induct)
  case (tick t st st')
  then show ?case using onrec.keeps_tick keys.keeps_tick unfolding book_sound_def by blast
next
  case (place po st st')
  then have "keyed (fst st')" by (cases po) (metis book_sound_def keys.keeps_place place_order.case)+
  with place place_records show ?case unfolding book_sound_def by blast
next
  case (cancel rs st st')
  then show ?case using onrec.keeps_cancel keys.keeps_cancel unfolding book_sound_def by blast
next
  case (redelivered r px px' w)
  then show ?case using redelivered_sound by simp
next
  case (read sy st n st')
  then show ?case using onrec.keeps_net [OF read(1)] keys.keeps_net [OF read(1)] unfolding book_sound_def by blast
qed simp

lemma run_sound:
  "(paper_step (queued_host net applied resting now market limit))\<^sup>*\<^sup>* st st' \<Longrightarrow> book_sound (fst st) \<Longrightarrow> book_sound (fst st')"
  by (induction rule: rtranclp_induct) (auto intro: step_sound)

text \<open>
  What rests on the paper book is always on record: whatever the exchange has served since it
  started, every order its open-orders read lists has a status or a fill in its order read, so a
  reconciliation pass never finds an order missing that paper can still fill.
\<close>

theorem resting_is_on_record:
  assumes "starts (queued_host net applied resting now market limit) st"
    and "(paper_step (queued_host net applied resting now market limit))\<^sup>*\<^sup>* st st'"
    and "v \<in> set (fetch_open_orders (fst st'))" and "or_cloid r = vo_cloid v"
  shows "has_record (fetch_order_of r (fst st'))"
proof -
  have sound: "book_sound (fst st')" by (rule run_sound [OF assms(2) starts_sound [OF assms(1)]])
  from assms(3) obtain c rg where cr: "(c, rg) \<in> set (px_book (fst st'))"
    and v: "vo_cloid v = ot_cloid (fst (rg_order rg))"
    by (auto simp: fetch_open_orders_def resting_orders_def at_working_size_def)
  then have "map_of (px_book (fst st')) c = Some rg"
    using sound by (simp add: book_sound_def keyed_def dict_ok_map_of_iff)
  with sound v assms(4) have "recorded (fst st') (or_cloid r)"
    by (auto simp: book_sound_def keyed_def on_record_but_def)
  then show ?thesis by (auto simp: recorded_def has_record_def fetch_order_of_def)
qed


section \<open>A life of the paper exchange\<close>

definition demo_host :: "unit queue paper_host" where
  "demo_host = queued_host (\<lambda>v. [(''BTC'', 10)]) (\<lambda>v c. {}) (\<lambda>v. []) (\<lambda>v. 7)
     (\<lambda>t tick w. immediate_market t (tk_price tick)) (\<lambda>lo tick w. Some ((immediate_limit lo)\<lparr>pp_quantity := 2\<rparr>))"

definition demo_begin :: "(paper \<times> unit queue) res" where
  "demo_begin = paper_start demo_host (make_paper 1000 ''a'' [] [], (), [])"

definition paper_demo_order :: "place_order" where
  "paper_demo_order = LimitOrder \<lparr>ot_cloid = ''c'', ot_symbol = ''BTC'', ot_side = SELL, ot_quantity = 5,
     ot_time_in_force = GTC, ot_post_only = False, ot_reduce_only = True\<rparr> 100"

text \<open>A tick, a reduce-only order that crosses and fills 2 of 5, and the next tick, which fills 2 more.\<close>

definition demo_rested :: "(paper \<times> unit queue) res" where
  "demo_rested = bind_res demo_begin (\<lambda>st. bind_res (on_tick demo_host \<lparr>tk_symbol = ''BTC'', tk_price = 101, tk_seq = 1\<rparr> st)
     (\<lambda>st1. paper_place demo_host paper_demo_order st1))"

definition demo_twice :: "(paper \<times> unit queue) res" where
  "demo_twice = bind_res demo_rested (on_tick demo_host \<lparr>tk_symbol = ''BTC'', tk_price = 102, tk_seq = 2\<rparr>)"

lemma demo_twice_runs:
  "case demo_twice of Inr (px, w) \<Rightarrow> length (dget (px_fills px) ''c'' []) = 2 \<and> map vo_cloid (fetch_open_orders px) = [''c'']
     | Inl _ \<Rightarrow> False"
  by code_simp

lemma demo_paper_life:
  obtains st st' where "starts demo_host st" "(paper_step demo_host)\<^sup>*\<^sup>* st st'"
    "length (dget (px_fills (fst st')) ''c'' []) = 2" "map vo_cloid (fetch_open_orders (fst st')) = [''c'']"
proof -
  obtain st' where d: "demo_twice = Inr st'" "length (dget (px_fills (fst st')) ''c'' []) = 2"
    "map vo_cloid (fetch_open_orders (fst st')) = [''c'']"
    using demo_twice_runs by (auto split: sum.splits)
  from d(1) obtain st st1 st2 where b: "demo_begin = Inr st"
    and 1: "on_tick demo_host \<lparr>tk_symbol = ''BTC'', tk_price = 101, tk_seq = 1\<rparr> st = Inr st1"
    and 2: "paper_place demo_host paper_demo_order st1 = Inr st2"
    and 3: "on_tick demo_host \<lparr>tk_symbol = ''BTC'', tk_price = 102, tk_seq = 2\<rparr> st2 = Inr st'"
    unfolding demo_twice_def demo_rested_def bind_res_eq_Inr by blast
  have "starts demo_host st" using b unfolding starts_def demo_begin_def by blast
  moreover have "(paper_step demo_host)\<^sup>*\<^sup>* st st'"
    using paper_step.tick [OF 1] paper_step.place [OF 2] paper_step.tick [OF 3]
    by (meson rtranclp.rtrancl_into_rtrancl rtranclp.rtrancl_refl)
  ultimately show thesis using d(2,3) by (rule that)
qed


theorem resting_is_on_record_witness:
  "\<exists>st' v r. v \<in> set (fetch_open_orders (fst (st' :: paper \<times> unit queue))) \<and> or_cloid r = vo_cloid v
     \<and> has_record (fetch_order_of r (fst st'))"
proof -
  obtain st st' where l: "starts demo_host st" "(paper_step demo_host)\<^sup>*\<^sup>* st st'"
    and listed: "map vo_cloid (fetch_open_orders (fst st')) = [''c'']" by (rule demo_paper_life)
  define v where "v = hd (fetch_open_orders (fst st'))"
  have "fetch_open_orders (fst st') \<noteq> []" using listed by (metis list.simps(8) not_Cons_self2)
  then have v: "v \<in> set (fetch_open_orders (fst st'))" by (simp add: v_def)
  define r where "r = \<lparr>or_cloid = vo_cloid v, or_symbol = ''BTC'', or_venue_oid = None, or_acked_ts_ns = None,
    or_created_ts_ns = None, or_quantity = None\<rparr>"
  have "or_cloid r = vo_cloid v" by (simp add: r_def)
  have "has_record (fetch_order_of r (fst st'))"
    by (rule resting_is_on_record [OF l(1,2) [unfolded demo_host_def] v \<open>or_cloid r = vo_cloid v\<close>])
  with v \<open>or_cloid r = vo_cloid v\<close> show ?thesis by (intro exI conjI)
qed


end
