(* ===== verification/TW_Paper_Net.thy ===== *)
theory TW_Paper_Net
  imports TW_Paper_Runs
begin

text \<open>
  Reduce-only orders on the paper book. The net is the ledger's plus the fills it has not applied
  yet; as long as only the exchange's own fills move it, every resting reduce-only order points
  against the net and works no more than the net. The last section runs the two paths that miss
  this: a restart, and a fill redelivered after it.
\<close>

section \<open>The net\<close>

definition venue_net ::
  "('v \<Rightarrow> (string, decimal) dict) \<Rightarrow> ('v \<Rightarrow> string \<Rightarrow> string set) \<Rightarrow> paper \<times> 'v queue \<Rightarrow> string \<Rightarrow> decimal" where
  "venue_net net applied st symbol =
     dadd (dget (net (fst (snd st))) symbol 0) (fst (signed_size (applied (fst (snd st))) (px_unapplied (fst st)) symbol))"

definition drained :: "('v \<Rightarrow> string \<Rightarrow> string set) \<Rightarrow> paper \<times> 'v queue \<Rightarrow> paper \<times> 'v queue" where
  "drained applied st =
     ((fst st)\<lparr>px_unapplied := drain_unapplied (applied (fst (snd st))) (px_unapplied (fst st))\<rparr>, snd st)"

lemma net_size_queued:
  "net_size (queued_host net applied resting now market limit) symbol st = (venue_net net applied st symbol, drained applied st)"
  by (cases st) (simp add: net_size_def venue_net_def drained_def queued_host_def signed_size_def Let_def)

lemma drain_idem: "drain_unapplied a (drain_unapplied a u) = drain_unapplied a u"
  by (simp add: drain_unapplied_def)

lemma venue_net_drained [simp]: "venue_net net applied (drained applied st) = venue_net net applied st"
  by (rule ext) (simp add: venue_net_def drained_def signed_size_def drain_idem)

lemma drained_frame [simp]:
  "px_book (fst (drained applied st)) = px_book (fst st)" "snd (drained applied st) = snd st"
  by (simp_all add: drained_def)

lemma venue_net_cong:
  "px_unapplied (fst st') = px_unapplied (fst st) \<Longrightarrow> fst (snd st') = fst (snd st) \<Longrightarrow>
    venue_net net applied st' = venue_net net applied st"
  by (rule ext) (simp add: venue_net_def)

lemma signed_size_other:
  "fr_symbol f \<noteq> symbol \<Longrightarrow> fst (signed_size a (u @ [(f, sd)]) symbol) = fst (signed_size a u symbol)"
  by (simp add: signed_size_def drain_unapplied_def Let_def)

section \<open>Fitting the net\<close>

definition points_against :: "(string \<Rightarrow> decimal) \<Rightarrow> order_terms \<Rightarrow> bool" where
  "points_against N t \<longleftrightarrow> (if ot_side t = SELL then 0 < N (ot_symbol t) else N (ot_symbol t) < 0)"

definition fits_net :: "(string \<Rightarrow> decimal) \<Rightarrow> resting \<Rightarrow> bool" where
  "fits_net N r \<longleftrightarrow> (ot_reduce_only (fst (rg_order r)) \<longrightarrow> points_against N (fst (rg_order r))
     \<and> rg_working r \<le> dadd (rg_filled r) (dabs (N (ot_symbol (fst (rg_order r))))))"

text \<open>Every order of the book fits, but perhaps those of \<open>C\<close>.\<close>

definition book_fits :: "(string \<Rightarrow> decimal) \<Rightarrow> string set \<Rightarrow> order_book \<Rightarrow> bool" where
  "book_fits N C b \<longleftrightarrow> (\<forall>c r. map_of b c = Some r \<longrightarrow> c \<notin> C \<longrightarrow> fits_net N r)"

lemma book_fits_cong:
  "book_fits N C b \<Longrightarrow> (\<And>c r. map_of b' c = Some r \<Longrightarrow> c \<notin> C \<Longrightarrow> map_of b c = Some r) \<Longrightarrow> book_fits N C b'"
  unfolding book_fits_def by blast

lemma fits_net_other:
  "fits_net N r \<Longrightarrow> N' (ot_symbol (fst (rg_order r))) = N (ot_symbol (fst (rg_order r))) \<Longrightarrow> fits_net N' r"
  by (simp add: fits_net_def points_against_def)

lemma reduces_queued:
  "reduces_net (queued_host net applied resting now market limit) t st =
    (points_against (venue_net net applied st) t, drained applied st)"
  by (simp add: reduces_net_def net_size_queued points_against_def)

lemma working_queued:
  assumes "working_size (queued_host net applied resting now market limit) t st = (q, st')"
  shows "px_book (fst st') = px_book (fst st)" "venue_net net applied st' = venue_net net applied st"
    and "ot_reduce_only t \<Longrightarrow> q \<le> dabs (venue_net net applied st (ot_symbol t))"
  using assms by (auto simp: working_size_def net_size_queued split: if_splits)

lemma publish_status_queued:
  assumes "publish_status (queued_host net applied resting now market limit) t s why st = Inr st'"
  shows "px_book (fst st') = px_book (fst st)" "venue_net net applied st' = venue_net net applied st"
proof -
  obtain px v q where st: "st = (px, v, q)" by (cases st)
  have "px_book (fst st') = px_book px \<and> px_unapplied (fst st') = px_unapplied px \<and> fst (snd st') = v"
    using assms by (auto simp: publish_status_def paper_status_def queued_host_def Let_def st)
  then show "px_book (fst st') = px_book (fst st)" "venue_net net applied st' = venue_net net applied st"
    by (auto simp: st intro!: venue_net_cong)
qed

lemma publish_fill_queued:
  assumes "publish_fill (queued_host net applied resting now market limit) t f maker st = Inr st'"
  shows "px_book (fst st') = px_book (fst st)"
    and "symbol \<noteq> ot_symbol t \<Longrightarrow> venue_net net applied st' symbol = venue_net net applied st symbol"
proof -
  obtain px v q where st: "st = (px, v, q)" by (cases st)
  define r where "r = fst (paper_fill_report (queued_host net applied resting now market limit) t f maker (px, v, q))"
  have "px_book (fst st') = px_book px" "fst (snd st') = v" "px_unapplied (fst st') = px_unapplied px @ [(r, ot_side t)]"
    using assms by (auto simp: publish_fill_def paper_fill_report_def queued_host_def record_unapplied_def Let_def st r_def)
  moreover have "fr_symbol r = ot_symbol t" by (simp add: r_def paper_fill_report_def Let_def)
  ultimately show "px_book (fst st') = px_book (fst st)"
    "symbol \<noteq> ot_symbol t \<Longrightarrow> venue_net net applied st' symbol = venue_net net applied st symbol"
    by (simp_all add: st venue_net_def signed_size_other)
qed

lemma end_queued:
  assumes "(if b then end_shrunk (queued_host net applied resting now market limit) t st else Inr st) = Inr st'"
  shows "px_book (fst st') = px_book (fst st) \<and> venue_net net applied st' = venue_net net applied st"
proof (cases b)
  case True
  with assms have "publish_status (queued_host net applied resting now market limit) t CANCELLED
      (Some ''reduce-only shrink'') st = Inr st'" by (simp add: end_shrunk_def)
  from publish_status_queued [OF this] show ?thesis by simp
qed (use assms in simp)

lemma off_book_frame [simp]:
  "px_book (fst (off_book c st)) = AList.delete c (px_book (fst st))"
  "venue_net net applied (off_book c st) = venue_net net applied st"
proof -
  show "px_book (fst (off_book c st)) = AList.delete c (px_book (fst st))"
    by (simp add: off_book_def take_off_def split: prod.split)
  show "venue_net net applied (off_book c st) = venue_net net applied st"
    by (rule venue_net_cong) (simp_all add: off_book_def split: prod.split)
qed

section \<open>The check after a fill\<close>

text \<open>The terms a snapshot was taken with, and the snapshots a check has to visit.\<close>

definition same_terms :: "order_book \<Rightarrow> limit_order \<Rightarrow> bool" where
  "same_terms b lo \<longleftrightarrow> (\<forall>r. map_of b (ot_cloid (fst lo)) = Some r \<longrightarrow>
     ot_side (fst (rg_order r)) = ot_side (fst lo) \<and> ot_symbol (fst (rg_order r)) = ot_symbol (fst lo)
     \<and> ot_reduce_only (fst (rg_order r)) = ot_reduce_only (fst lo))"

definition to_check :: "string \<Rightarrow> limit_order list \<Rightarrow> string set" where
  "to_check symbol los = set (map (\<lambda>lo. ot_cloid (fst lo))
     (filter (\<lambda>lo. ot_symbol (fst lo) = symbol \<and> ot_reduce_only (fst lo)) los))"

lemma shrink_fits:
  assumes "shrink_to b c (dabs (N symbol)) = Inr b'" "same_terms b lo" "c = ot_cloid (fst lo)"
    and "ot_symbol (fst lo) = symbol" "points_against N (fst lo)" "book_fits N (insert c C) b"
  shows "book_fits N C b'" and "same_terms b lo' \<Longrightarrow> same_terms b' lo'"
proof -
  from assms(1) obtain r where r: "map_of b c = Some r"
    and b': "b' = AList.update c (r\<lparr>rg_working := dadd (rg_filled r) (min (rg_remaining r) (dabs (N symbol)))\<rparr>) b"
    by (auto simp: shrink_to_def split: option.splits)
  have t: "ot_side (fst (rg_order r)) = ot_side (fst lo)" "ot_symbol (fst (rg_order r)) = symbol"
    using assms(2,3,4) r by (auto simp: same_terms_def)
  have "dadd (rg_filled r) (min (rg_remaining r) (dabs (N symbol))) \<le> dadd (rg_filled r) (dabs (N symbol))"
    unfolding dadd_def by (rule rnd_mono) simp
  then have "fits_net N (r\<lparr>rg_working := dadd (rg_filled r) (min (rg_remaining r) (dabs (N symbol)))\<rparr>)"
    using assms(4,5) t by (auto simp: fits_net_def points_against_def split: if_splits)
  with assms(6) show "book_fits N C b'" by (simp add: book_fits_def b')
  show "same_terms b lo' \<Longrightarrow> same_terms b' lo'" using r by (auto simp: same_terms_def b')
qed

lemma recheck_loop_fits:
  "recheck_loop (queued_host net applied resting now market limit) symbol los st = Inr st' \<Longrightarrow>
    \<forall>lo \<in> set los. same_terms (px_book (fst st)) lo \<Longrightarrow>
    book_fits (venue_net net applied st) (to_check symbol los) (px_book (fst st)) \<Longrightarrow>
    book_fits (venue_net net applied st') {} (px_book (fst st'))"
proof (induction los arbitrary: st)
  case Nil
  then show ?case by (simp add: to_check_def)
next
  case (Cons lo los)
  let ?h = "queued_host net applied resting now market limit" and ?c = "ot_cloid (fst lo)"
  show ?case
  proof (cases "ot_symbol (fst lo) \<noteq> symbol \<or> \<not> ot_reduce_only (fst lo)")
    case True
    then have "recheck_loop ?h symbol los st = Inr st'" using Cons.prems(1) by simp
    moreover have "to_check symbol (lo # los) = to_check symbol los" by (cases "ot_symbol (fst lo) = symbol") (use True in \<open>simp_all add: to_check_def\<close>)
    ultimately show ?thesis using Cons.IH Cons.prems(2,3) by simp
  next
    case False
    then have C: "to_check symbol (lo # los) = insert ?c (to_check symbol los)" using False by (simp add: to_check_def)
    show ?thesis
    proof (cases "points_against (venue_net net applied st) (fst lo)")
      case True
      obtain px w where d: "drained applied (drained applied st) = (px, w)" by (rule prod.exhaust)
      have bk: "px_book px = px_book (fst st)" using drained_frame(1) [of applied "drained applied st"] by (simp add: d)
      from Cons.prems(1) False True have
        "bind_res (shrink_to (px_book (fst st)) ?c (dabs (venue_net net applied st symbol)))
          (\<lambda>b. recheck_loop ?h symbol los (px\<lparr>px_book := b\<rparr>, w)) = Inr st'"
        by (simp add: reduces_queued net_size_queued d bk)
      then obtain b where s: "shrink_to (px_book (fst st)) ?c (dabs (venue_net net applied st symbol)) = Inr b"
        and rest: "recheck_loop ?h symbol los (px\<lparr>px_book := b\<rparr>, w) = Inr st'"
        unfolding bind_res_eq_Inr by blast
      let ?st1 = "(px\<lparr>px_book := b\<rparr>, w)"
      have "venue_net net applied ?st1 = venue_net net applied (px, w)" by (rule venue_net_cong) simp_all
      also have "\<dots> = venue_net net applied st" by (simp flip: d)
      finally have n: "venue_net net applied ?st1 = venue_net net applied st" .
      have lo: "same_terms (px_book (fst st)) lo" "\<forall>lo' \<in> set los. same_terms (px_book (fst st)) lo'"
        using Cons.prems(2) by auto
      have sy: "ot_symbol (fst lo) = symbol" using False by simp
      note sh = shrink_fits [OF s lo(1) refl sy True]
      show ?thesis
      proof (rule Cons.IH [OF rest])
        show "\<forall>lo' \<in> set los. same_terms (px_book (fst ?st1)) lo'"
          using sh(2) Cons.prems(3) [unfolded C] lo(2) by auto
        show "book_fits (venue_net net applied ?st1) (to_check symbol los) (px_book (fst ?st1))"
          using sh(1) [OF Cons.prems(3) [unfolded C]] by (simp add: n)
      qed
    next
      case against: False
      from Cons.prems(1) False against have "bind_res (publish_status ?h (fst lo) CANCELLED (Some ''reduce-only cancelled'')
          (off_book ?c (drained applied st))) (recheck_loop ?h symbol los) = Inr st'" by (simp add: reduces_queued)
      then obtain st2 where p: "publish_status ?h (fst lo) CANCELLED (Some ''reduce-only cancelled'')
          (off_book ?c (drained applied st)) = Inr st2" and rest: "recheck_loop ?h symbol los st2 = Inr st'"
        unfolding bind_res_eq_Inr by blast
      note pub = publish_status_queued [OF p]
      show ?thesis
      proof (rule Cons.IH [OF rest])
        show "\<forall>lo' \<in> set los. same_terms (px_book (fst st2)) lo'"
          using Cons.prems(2) by (auto simp: pub same_terms_def)
        show "book_fits (venue_net net applied st2) (to_check symbol los) (px_book (fst st2))"
          using Cons.prems(3) by (auto simp: pub book_fits_def C split: if_splits)
      qed
    qed
  qed
qed

lemma recheck_fits:
  assumes "recheck_reduce_only (queued_host net applied resting now market limit) symbol st = Inr st'"
    and "keyed (fst st)"
    and "\<And>c r. map_of (px_book (fst st)) c = Some r \<Longrightarrow> ot_symbol (fst (rg_order r)) \<noteq> symbol \<Longrightarrow> fits_net (venue_net net applied st) r"
  shows "book_fits (venue_net net applied st') {} (px_book (fst st'))"
proof (rule recheck_loop_fits [OF assms(1) [unfolded recheck_reduce_only_def]])
  let ?b = "px_book (fst st)"
  have from_book: "\<exists>c r. map_of ?b c = Some r \<and> lo = at_working_size r \<and> ot_cloid (fst lo) = c" if "lo \<in> set (resting_orders ?b)" for lo
    using that assms(2) by (auto simp: resting_orders_def keyed_def dict_ok_map_of_iff at_working_size_def)
  show "\<forall>lo \<in> set (resting_orders ?b). same_terms ?b lo"
    using from_book by (force simp: same_terms_def at_working_size_def)
  show "book_fits (venue_net net applied st) (to_check symbol (resting_orders ?b)) ?b"
    unfolding book_fits_def
  proof (intro allI impI)
    fix c r
    assume r: "map_of ?b c = Some r" and c: "c \<notin> to_check symbol (resting_orders ?b)"
    have "at_working_size r \<in> set (resting_orders ?b)" using map_of_SomeD [OF r] by (force simp: resting_orders_def)
    moreover have "ot_cloid (fst (at_working_size r)) = c" using assms(2) r by (simp add: keyed_def at_working_size_def)
    ultimately have "c \<in> to_check symbol (resting_orders ?b)"
      if "ot_symbol (fst (at_working_size r)) = symbol" "ot_reduce_only (fst (at_working_size r))"
      using that unfolding to_check_def set_map set_filter by blast
    then have "ot_symbol (fst (rg_order r)) \<noteq> symbol \<or> \<not> ot_reduce_only (fst (rg_order r))"
      using c by (auto simp: at_working_size_def)
    then show "fits_net (venue_net net applied st) r" using assms(3) [OF r] by (auto simp: fits_net_def)
  qed
qed

section \<open>Every handler keeps the book fitted\<close>

definition fitted ::
  "('v \<Rightarrow> (string, decimal) dict) \<Rightarrow> ('v \<Rightarrow> string \<Rightarrow> string set) \<Rightarrow> paper \<times> 'v queue \<Rightarrow> bool" where
  "fitted net applied st \<longleftrightarrow> keyed (fst st) \<and> book_fits (venue_net net applied st) {} (px_book (fst st))"

lemma fitted_drained [simp]: "fitted net applied (drained applied st) \<longleftrightarrow> fitted net applied st"
  by (simp add: fitted_def keyed_def)

lemma fitted_status:
  assumes "publish_status (queued_host net applied resting now market limit) t s why st = Inr st'" "fitted net applied st"
  shows "fitted net applied st'"
  using assms(2) publish_status_queued [OF assms(1)] by (simp add: fitted_def keyed_def)

lemma fitted_off: "fitted net applied st \<Longrightarrow> fitted net applied (off_book c st)"
  by (auto simp: fitted_def keyed_def book_fits_def)

lemma take_fill_others:
  "take_fill b c q = Inr (bf, b') \<Longrightarrow> map_of b' c' = Some r \<Longrightarrow> c' \<noteq> c \<Longrightarrow> map_of b c' = Some r"
  by (auto simp: take_fill_def Let_def split: option.splits if_splits)

lemma fitted_crossing:
  assumes "fill_crossing_limit (queued_host net applied resting now market limit) lo tick maker st = Inr (whole, st')"
    and "fitted net applied st" and "working_of (px_book (fst st)) (ot_cloid (fst lo)) = Some lo"
  shows "fitted net applied st'"
proof -
  let ?h = "queued_host net applied resting now market limit" and ?c = "ot_cloid (fst lo)"
  obtain px w where st: "st = (px, w)" by (cases st)
  have key: "keyed (fst st')" using assms(1,2) keys.keeps_crossing unfolding fitted_def by blast
  have lim: "ph_limit ?h lo tick st = Inr (limit lo tick w, st)" by (simp add: queued_host_def st)
  show ?thesis
  proof (cases "limit lo tick w")
    case None
    with assms(1,2) lim show ?thesis by (simp add: fill_crossing_limit_def st)
  next
    case (Some f)
    with assms(1) lim obtain bf b st1 st2 where
      1: "take_fill (px_book px) ?c (pp_quantity f) = Inr (bf, b)"
      and 2: "publish_fill ?h (fst lo) (f\<lparr>pp_quantity := bf_filled bf\<rparr>) maker (px\<lparr>px_book := b\<rparr>, w) = Inr st1"
      and 3: "(if bf_shrunk bf then end_shrunk ?h (fst lo) st1 else Inr st1) = Inr st2"
      and 4: "recheck_reduce_only ?h (ot_symbol (fst lo)) st2 = Inr st'"
      by (auto simp: fill_crossing_limit_def st bind_res_eq_Inr)
    obtain r0 where r0: "map_of (px_book px) ?c = Some r0" "ot_symbol (fst (rg_order r0)) = ot_symbol (fst lo)"
      using assms(3) by (auto simp: st working_of_def at_working_size_def split: option.splits)
    have less: "lessens (px_book px) b" by (rule lessens_ops(3) [OF 1])
    have bk: "px_book (fst st2) = b" using publish_fill_queued(1) [OF 2] end_queued [OF 3] by simp
    have kpx: "keyed px" using assms(2) by (simp add: fitted_def st)
    have key2: "keyed (fst st2)" by (rule keyed_less [OF kpx]) (simp add: bk less)
    have "fits_net (venue_net net applied st2) r"
      if r: "map_of b c = Some r" and sy: "ot_symbol (fst (rg_order r)) \<noteq> ot_symbol (fst lo)" for c r
    proof -
      obtain r1 where r1: "map_of (px_book px) c = Some r1" "rg_order r = rg_order r1"
        using less r unfolding lessens_def by blast
      have "c \<noteq> ?c" using r0 r1 sy by auto
      from take_fill_others [OF 1 r this] assms(2) have old: "fits_net (venue_net net applied st) r"
        by (simp add: fitted_def book_fits_def st)
      have "venue_net net applied (px\<lparr>px_book := b\<rparr>, w) = venue_net net applied st"
        by (rule venue_net_cong) (simp_all add: st)
      with publish_fill_queued(2) [OF 2 sy] end_queued [OF 3]
      have "venue_net net applied st2 (ot_symbol (fst (rg_order r))) = venue_net net applied st (ot_symbol (fst (rg_order r)))"
        by simp
      with old show ?thesis by (rule fits_net_other)
    qed
    from recheck_fits [OF 4 key2] this key bk show ?thesis by (simp add: fitted_def)
  qed
qed

lemma fitted_match_loop:
  "match_loop (queued_host net applied resting now market limit) tick los st = Inr st' \<Longrightarrow>
    fitted net applied st \<Longrightarrow> fitted net applied st'"
proof (induction los arbitrary: st)
  case (Cons lo0 los)
  let ?h = "queued_host net applied resting now market limit"
  show ?case
  proof (cases "working_of (px_book (fst st)) (ot_cloid (fst lo0))")
    case None
    with Cons show ?thesis by simp
  next
    case (Some lo)
    have c: "ot_cloid (fst lo) = ot_cloid (fst lo0)"
      using Some Cons.prems(2) by (auto simp: working_of_def fitted_def keyed_def at_working_size_def split: option.splits)
    show ?thesis
    proof (cases "ot_symbol (fst lo) = tk_symbol tick \<and> crosses lo tick")
      case True
      with Cons.prems(1) Some obtain whole st1 where x: "fill_crossing_limit ?h lo tick True st = Inr (whole, st1)"
        and m: "match_loop ?h tick los st1 = Inr st'" by (auto simp: bind_res_eq_Inr)
      from Some c have "working_of (px_book (fst st)) (ot_cloid (fst lo)) = Some lo" by simp
      then show ?thesis by (rule Cons.IH [OF m fitted_crossing [OF x Cons.prems(2)]])
    next
      case False
      with Cons.prems(1) Some have "match_loop ?h tick los st = Inr st'" by (simp split: if_splits)
      then show ?thesis by (rule Cons.IH [OF _ Cons.prems(2)])
    qed
  qed
qed simp

lemma fitted_tick:
  assumes "on_tick (queued_host net applied resting now market limit) tick st = Inr st'" "fitted net applied st"
  shows "fitted net applied st'"
proof -
  obtain px v q where st: "st = (px, v, q)" by (cases st)
  let ?st1 = "(px\<lparr>px_ticks := AList.update (tk_symbol tick) tick (px_ticks px),
    px_unapplied := drain_unapplied (applied v) (px_unapplied px)\<rparr>, v, q)"
  have "venue_net net applied ?st1 = venue_net net applied (drained applied st)"
    by (rule venue_net_cong) (simp_all add: st drained_def)
  with assms(2) have "fitted net applied ?st1" by (simp add: fitted_def keyed_def st)
  moreover have "match_loop (queued_host net applied resting now market limit) tick
      (resting_orders (px_book (fst ?st1))) ?st1 = Inr st'"
    using assms(1) by (simp add: on_tick_def match_book_def st queued_host_def)
  ultimately show ?thesis using fitted_match_loop by blast
qed

lemma fitted_market:
  assumes "place_market (queued_host net applied resting now market limit) t0 tick st = Inr st'" "fitted net applied st"
  shows "fitted net applied st'"
proof -
  let ?h = "queued_host net applied resting now market limit"
  have key: "keyed (fst st')" using assms keys.keeps_market unfolding fitted_def by blast
  obtain q st1 where w: "working_size ?h t0 st = (q, st1)" by (rule prod.exhaust)
  define t where "t = t0\<lparr>ot_quantity := q\<rparr>"
  obtain b st2 where b: "(case map_of (px_specs (fst st1)) (ot_symbol t) of
                  None \<Rightarrow> (False, st1)
                | Some spec \<Rightarrow> (case net_size ?h (ot_symbol t) st1 of
                    (net, st2) \<Rightarrow> (min_notional_refuses (tk_price tick) q spec (ot_side t) (ot_reduce_only t) net, st2)))
        = (b, st2)" by (rule prod.exhaust)
  have "px_book (fst st2) = px_book (fst st1) \<and> venue_net net applied st2 = venue_net net applied st1"
    using b by (cases "map_of (px_specs (fst st1)) (ot_symbol t)") (auto simp: net_size_queued)
  with assms(2) working_queued(1,2) [OF w] have fit2: "fitted net applied st2" by (simp add: fitted_def keyed_def)
  note run = assms(1) [unfolded place_market_def Let_def w prod.case, folded t_def, unfolded b prod.case]
  show ?thesis
  proof (cases b)
    case True
    with run have "publish_status ?h t REJECTED (Some ''below min notional'') st2 = Inr st'" by simp
    then show ?thesis by (rule fitted_status [OF _ fit2])
  next
    case False
    have f: "ph_market ?h t tick st2 = Inr (market t tick (snd st2), st2)" by (simp add: queued_host_def)
    from run False obtain st4 st5 where 4: "publish_fill ?h t (market t tick (snd st2)) False st2 = Inr st4"
      and 5: "(if q < ot_quantity t0 then end_shrunk ?h t st4 else Inr st4) = Inr st5"
      and 6: "recheck_reduce_only ?h (ot_symbol t) st5 = Inr st'" by (auto simp: f bind_res_eq_Inr)
    have bk: "px_book (fst st5) = px_book (fst st2)" using publish_fill_queued(1) [OF 4] end_queued [OF 5] by simp
    have "fits_net (venue_net net applied st5) r"
      if r: "map_of (px_book (fst st5)) c = Some r" and sy: "ot_symbol (fst (rg_order r)) \<noteq> ot_symbol t" for c r
    proof -
      have old: "fits_net (venue_net net applied st2) r" using r fit2 by (simp add: bk fitted_def book_fits_def)
      have "venue_net net applied st5 (ot_symbol (fst (rg_order r))) = venue_net net applied st2 (ot_symbol (fst (rg_order r)))"
        using publish_fill_queued(2) [OF 4 sy] end_queued [OF 5] by simp
      with old show ?thesis by (rule fits_net_other)
    qed
    moreover have "keyed (fst st5)" using fit2 by (simp add: fitted_def keyed_def bk)
    ultimately show ?thesis using recheck_fits [OF 6] key by (simp add: fitted_def)
  qed
qed

lemma fitted_limit:
  assumes "place_limit (queued_host net applied resting now market limit) lo tick st = Inr st'" "fitted net applied st"
    and "ot_reduce_only (fst lo) \<Longrightarrow> points_against (venue_net net applied st) (fst lo)"
  shows "fitted net applied st'"
proof -
  let ?h = "queued_host net applied resting now market limit" and ?c = "ot_cloid (fst lo)"
  obtain wk st1 where r: "rest_working ?h lo st = (wk, st1)" by (rule prod.exhaust)
  obtain q px w where ws: "working_size ?h (fst lo) st = (q, px, w)" by (cases "working_size ?h (fst lo) st") auto
  note wq = working_queued [OF ws]
  obtain b where b: "rest_on (px_book px) lo (Some q) = (wk, b)" and st1: "st1 = (px\<lparr>px_book := b\<rparr>, w)"
    using r ws by (auto simp: rest_working_def split: prod.splits)
  have b': "b = snd (rest_on (px_book px) lo (Some q))" and wk: "wk = at_working_size
      \<lparr>rg_order = lo, rg_working = min q (ot_quantity (fst lo)), rg_filled = 0\<rparr>"
    using b by (auto simp: rest_on_def Let_def)
  have N1: "venue_net net applied st1 = venue_net net applied st"
    using wq(2) venue_net_cong [of st1 "(px, w)" net applied] by (simp add: st1)
  have new: "fits_net (venue_net net applied st) \<lparr>rg_order = lo, rg_working = min q (ot_quantity (fst lo)), rg_filled = 0\<rparr>"
    using assms(3) wq(3) by (auto simp: fits_net_def dadd_zero min_le_iff_disj)
  have bk: "px_book (fst st1) = snd (rest_on (px_book (fst st)) lo (Some q))" using wq(1) by (simp add: st1 b')
  have fit1: "fitted net applied st1"
    using assms(2) new unfolding fitted_def keyed_def N1 bk book_fits_def
    by (auto simp: rest_on_lookup rest_on_dict)
  have on: "working_of (px_book (fst st1)) (ot_cloid (fst wk)) = Some wk"
    by (simp add: st1 b' working_of_def rest_on_lookup wk at_working_size_def)
  show ?thesis
  proof (cases "crosses lo tick \<and> \<not> ot_post_only (fst lo)")
    case True
    with assms(1) r obtain whole st2 where c: "fill_crossing_limit ?h wk tick False st1 = Inr (whole, st2)"
      and e: "(if whole then Inr st2
            else if ot_time_in_force (fst lo) = IOC
            then publish_status ?h (fst lo) CANCELLED None (off_book ?c st2)
            else if \<not> has_partial (px_book (fst st2)) ?c then publish_status ?h (fst lo) LIVE None st2
            else Inr st2) = Inr st'"
      by (auto simp: place_limit_def bind_res_eq_Inr)
    have "fitted net applied st2" by (rule fitted_crossing [OF c fit1 on])
    with e fitted_status fitted_off show ?thesis by (metis Inr_inject)
  next
    case False
    with assms(1,2) fit1 r show ?thesis
      by (cases "crosses lo tick"; cases "ot_time_in_force (fst lo) = IOC") (auto simp: place_limit_def intro: fitted_status)
  qed
qed

lemma fitted_place:
  assumes "paper_place (queued_host net applied resting now market limit) po st = Inr st'" "fitted net applied st"
  shows "fitted net applied st'"
proof -
  let ?h = "queued_host net applied resting now market limit"
  obtain b st1 where b: "(if ot_reduce_only (po_terms po) then reduces_net ?h (po_terms po) st else (True, st)) = (b, st1)"
    by (rule prod.exhaust)
  have fit1: "fitted net applied st1" using b assms(2) by (auto simp: reduces_queued split: if_splits)
  have against: "points_against (venue_net net applied st1) (po_terms po)" if b "ot_reduce_only (po_terms po)"
    using b that by (auto simp: reduces_queued)
  note run = assms(1) [unfolded paper_place_def b prod.case]
  show ?thesis
  proof (cases "b \<and> map_of (px_ticks (fst st1)) (ot_symbol (po_terms po)) \<noteq> None")
    case True
    then obtain tick where tick: "map_of (px_ticks (fst st1)) (ot_symbol (po_terms po)) = Some tick" by auto
    show ?thesis
    proof (cases po)
      case (LimitOrder t p)
      with run True tick have "place_limit ?h (t, p) tick st1 = Inr st'" by simp
      then show ?thesis by (rule fitted_limit [OF _ fit1]) (use against True LimitOrder in simp)
    next
      case (MarketOrder t)
      with run True tick have "place_market ?h t tick st1 = Inr st'" by simp
      then show ?thesis by (rule fitted_market [OF _ fit1])
    qed
  next
    case False
    with run show ?thesis using fitted_status [OF _ fit1] by (auto split: bool.splits)
  qed
qed

lemma fitted_cancel:
  "paper_cancel (queued_host net applied resting now market limit) rs st = Inr st' \<Longrightarrow>
    fitted net applied st \<Longrightarrow> fitted net applied st'"
proof (induction rs arbitrary: st)
  case (Cons x rs)
  let ?h = "queued_host net applied resting now market limit"
  show ?case
  proof (cases x)
    case (SagaRef r)
    show ?thesis
    proof (cases "map_of (px_book (fst st)) (or_cloid r)")
      case None
      with Cons SagaRef show ?thesis by (simp add: take_off_def)
    next
      case (Some rg)
      with Cons.prems(1) SagaRef obtain st1 where
        p: "publish_status ?h (fst (rg_order rg)) CANCELLED None (off_book (or_cloid r) st) = Inr st1"
        and rest: "paper_cancel ?h rs st1 = Inr st'" by (auto simp: take_off_def bind_res_eq_Inr)
      show ?thesis by (rule Cons.IH [OF rest fitted_status [OF p fitted_off [OF Cons.prems(2)]]])
    qed
  qed (use Cons in simp)
qed simp


section \<open>Runs in which only paper moves the net\<close>

text \<open>
  The handlers, and any change of the ledger that leaves every net as it was, as applying one of
  the exchange's own fills does (\<open>net_counts_each_fill_once\<close>).
\<close>

inductive venue_step ::
  "('v \<Rightarrow> (string, decimal) dict) \<Rightarrow> ('v \<Rightarrow> string \<Rightarrow> string set) \<Rightarrow> 'v queue paper_host \<Rightarrow>
    paper \<times> 'v queue \<Rightarrow> paper \<times> 'v queue \<Rightarrow> bool" for net applied h where
  tick: "on_tick h tick st = Inr st' \<Longrightarrow> venue_step net applied h st st'"
| place: "paper_place h po st = Inr st' \<Longrightarrow> venue_step net applied h st st'"
| cancel: "paper_cancel h rs st = Inr st' \<Longrightarrow> venue_step net applied h st st'"
| read: "net_size h symbol st = (n, st') \<Longrightarrow> venue_step net applied h st st'"
| ledger: "venue_net net applied (px, w') = venue_net net applied (px, w) \<Longrightarrow> venue_step net applied h (px, w) (px, w')"

lemma fitted_step:
  "venue_step net applied (queued_host net applied resting now market limit) st st' \<Longrightarrow>
    fitted net applied st \<Longrightarrow> fitted net applied st'"
proof (induction rule: venue_step.induct)
  case (read symbol st n st')
  then show ?case by (auto simp: net_size_queued)
next
  case (ledger px w' w)
  then show ?case by (simp add: fitted_def)
qed (auto intro: fitted_tick fitted_place fitted_cancel)

lemma fitted_run:
  "(venue_step net applied (queued_host net applied resting now market limit))\<^sup>*\<^sup>* st st' \<Longrightarrow>
    fitted net applied st \<Longrightarrow> fitted net applied st'"
  by (induction rule: rtranclp_induct) (auto intro: fitted_step)


definition flat_net :: "decimal \<Rightarrow> unit \<Rightarrow> (string, decimal) dict" where
  "flat_net x v = [(''BTC'', x)]"

definition net_host :: "decimal \<Rightarrow> order list \<Rightarrow> unit queue paper_host" where
  "net_host x ods = queued_host (flat_net x) (\<lambda>v c. {}) (\<lambda>v. ods) (\<lambda>v. 7)
     (\<lambda>t tick w. immediate_market t (tk_price tick)) (\<lambda>lo tick w. Some (immediate_limit lo))"

definition sell_at :: "string \<Rightarrow> decimal \<Rightarrow> place_order" where
  "sell_at c p = LimitOrder \<lparr>ot_cloid = c, ot_symbol = ''BTC'', ot_side = SELL, ot_quantity = 5,
     ot_time_in_force = GTC, ot_post_only = False, ot_reduce_only = True\<rparr> p"

definition btc_tick :: "decimal \<Rightarrow> market_tick" where
  "btc_tick p = \<lparr>tk_symbol = ''BTC'', tk_price = p, tk_seq = 1\<rparr>"

text \<open>Long 6; reduce-only sells of 5 rest at 110 and at 120; a tick at 112 fills the first.\<close>

definition two_sells :: "(paper \<times> unit queue) res" where
  "two_sells = bind_res (on_tick (net_host 6 []) (btc_tick 100) (make_paper 1000 ''a'' [] [], (), []))
     (\<lambda>st. bind_res (paper_place (net_host 6 []) (sell_at ''c'' 110) st)
     (\<lambda>st. bind_res (paper_place (net_host 6 []) (sell_at ''d'' 120) st)
     (\<lambda>st. on_tick (net_host 6 []) (btc_tick 112) st)))"

lemma two_sells_runs:
  "case two_sells of Inr (px, w) \<Rightarrow> map (\<lambda>(c, r). (c, rg_working r, ot_reduce_only (fst (rg_order r)))) (px_book px) = [(''d'', 1, True)]
   | Inl _ \<Rightarrow> False"
  by code_simp


section \<open>Two paths that miss the check\<close>

definition stored_sell :: "string \<Rightarrow> order" where
  "stored_sell c = \<lparr>o_cloid = c, o_strategy_id = ''s'', o_signal_id = ''s:BTC:1'', o_symbol = ''BTC'', o_side = SELL,
     o_quantity = 5, o_type = LIMIT, o_state = LIVE, o_cum_qty = 0, o_venue_oid = None, o_acked_ts_ns = None,
     o_created_ts_ns = Some 1, o_reason = None, o_cancel_requested = False, o_cancel_requested_ts = None,
     o_cancel_signal_id = None, o_split_basis = None, o_price = Some 100, o_time_in_force = Some GTC,
     o_post_only = False, o_reduce_only = True, o_applied_event_ids = {}\<rparr>"

definition restart :: "decimal \<Rightarrow> order list \<Rightarrow> (paper \<times> unit queue) res" where
  "restart x ods = paper_start (net_host x ods) (make_paper 1000 ''a'' [] [], (), [])"

fun fills_in :: "execution_report list \<Rightarrow> fill_report list" where
  "fills_in [] = []"
| "fills_in (Filled f # rs) = f # fills_in rs"
| "fills_in (Status s # rs) = fills_in rs"

text \<open>
  A restart rests a stored reduce-only order without asking whether it still reduces. On a flat
  net it works nothing, and the first crossing tick publishes a fill of nothing, which the order
  saga refuses as a fault; on a short net a sell works the size of the net and deepens it.
\<close>

theorem restart_rests_what_no_longer_reduces:
  "(case bind_res (restart 0 [stored_sell ''c'']) (on_tick (net_host 0 []) (btc_tick 101)) of
      Inr (px, v, q) \<Rightarrow> map fr_quantity (fills_in q) = [0]
        \<and> map (\<lambda>f. record_fill (stored_sell ''c'') (raw_of f 9)) (fills_in q) = [Inl (InvariantViolation NonPositiveOrderFill)]
    | Inl _ \<Rightarrow> False)
   \<and> (case bind_res (restart (- 2) [stored_sell ''c'']) (on_tick (net_host (- 2) []) (btc_tick 101)) of
      Inr (px, v, q) \<Rightarrow> map fr_quantity (fills_in q) = [2] | Inl _ \<Rightarrow> False)"
  by code_simp

text \<open>
  A fill of an earlier run that is redelivered after a restart moves the net but is not followed
  by the check: long 5, two rebuilt reduce-only sells of 5, the fill of one comes back, and the
  next tick fills the other too, so the account is left short 5.
\<close>

definition redelivery :: "fill_report" where
  "redelivery = \<lparr>fr_ts_event = 3, fr_ts_init = 3, fr_cloid = ''c'', fr_symbol = ''BTC'', fr_trade_id = ''c-1'',
     fr_quantity = 5, fr_price = 100, fr_fee = 0, fr_reconciliation = False\<rparr>"

theorem redelivered_fill_skips_the_check:
  "case bind_res (restart 5 [stored_sell ''c'', stored_sell ''d'']) (\<lambda>(px, w).
      bind_res (on_fill_report redelivery px) (\<lambda>px'. on_tick (net_host 5 []) (btc_tick 101) (px', w))) of
     Inr st \<Rightarrow> venue_net (flat_net 5) (\<lambda>v c. {}) st ''BTC'' = - 5 | Inl _ \<Rightarrow> False"
  by code_simp

end
