(* ===== verification/TW_Saga_Runs.thy ===== *)
theory TW_Saga_Runs
  imports TW_Execution
begin

text \<open>
  The orchestrator of \<open>src/src/tickwright/engine/execution.py\<close> under any interleaving of its
  handlers with the ledger verbs, the sends that return, and crashes followed by a recovery
  from the store. The lemmas carry one invariant through every step; the properties count what
  a whole life of the engine publishes and sends.
\<close>

section \<open>Runs\<close>

definition signal_ok :: "signal \<Rightarrow> bool" where
  "signal_ok sg = (case sg of PlaceSignal s \<Rightarrow> ps_strategy_id s \<noteq> UNATTRIBUTED | _ \<Rightarrow> True)"

text \<open>
  One step, with what it publishes and sends: a handler, the two later parts of a placement
  under way, a ledger verb of another component, the barrier, or a crash and the start of a
  new process on the store the old one left.
\<close>

inductive em_step :: "(string \<Rightarrow> string) \<Rightarrow> manager \<Rightarrow> effect list \<Rightarrow> manager \<Rightarrow> bool" for dg where
  signal: "on_signal dg ok nm nr created ts now m sg = Inr (m', es) \<Longrightarrow> signal_ok sg \<Longrightarrow> em_step dg m es m'"
| send: "c \<in> set (em_intents m) \<Longrightarrow> place_send now m c = Inr (m', es) \<Longrightarrow> em_step dg m es m'"
| sent: "c \<in> set (em_sending m) \<Longrightarrow> place_sent ok ts m c = Inr (m', es) \<Longrightarrow> em_step dg m es m'"
| report: "on_execution_report ok now ts m r = Inr (m', es) \<Longrightarrow> em_step dg m es m'"
| operator: "cancel_for_operator ok now ts m resting = Inr (m', es) \<Longrightarrow> em_step dg m es m'"
| leftover: "checkpoint_leftover ok ts (em_cp m) sy = Inr cp \<Longrightarrow> em_step dg m [] (m\<lparr>em_cp := cp\<rparr>)"
| heal: "checkpoint_heal ok ts (em_cp m) fills cash snapshot = Inr (cp, change) \<Longrightarrow> em_step dg m [] (m\<lparr>em_cp := cp\<rparr>)"
| funding: "checkpoint_funding ok ts (em_cp m) a = Inr cp \<Longrightarrow> em_step dg m [] (m\<lparr>em_cp := cp\<rparr>)"
| barrier: "em_step dg m [] (barrier_has_cleared m)"
| crash: "cp_recover ok now (make_checkpointer spec (cp_store (em_cp m)) t lev specs) = Inr cp \<Longrightarrow>
    em_step dg m [] (make_manager cp g exit_run b)"

inductive em_run :: "(string \<Rightarrow> string) \<Rightarrow> manager \<Rightarrow> effect list \<Rightarrow> manager \<Rightarrow> bool" for dg where
  start: "em_run dg m [] m"
| more: "em_step dg m es m' \<Longrightarrow> em_run dg m' es' m'' \<Longrightarrow> em_run dg m (es @ es') m''"

inductive_cases em_runE: "em_run dg m es m'"

section \<open>The invariant\<close>

abbreviation row_of :: "manager \<Rightarrow> string \<Rightarrow> order option" where
  "row_of m \<equiv> get_order (cp_store (em_cp m))"

definition ahead_of :: "order \<Rightarrow> order \<Rightarrow> bool" where
  "ahead_of od0 od \<longleftrightarrow> (\<exists>e. event_fill e = None \<and> ev_cloid (env e) = o_cloid od0 \<and> apply_event od0 e = Inr (True, od))"

definition saga_sound :: "manager \<Rightarrow> string \<Rightarrow> bool" where
  "saga_sound m c \<longleftrightarrow>
     (case saga_of m c of
        None \<Rightarrow> row_of m c = None \<and> c \<notin> set (em_intents m) \<and> c \<notin> set (em_sending m)
      | Some od \<Rightarrow> o_cloid od = c \<and> o_strategy_id od \<noteq> UNATTRIBUTED
          \<and> (row_of m c = Some od \<or> c \<in> set (em_sending m) \<and> (\<exists>od0. row_of m c = Some od0 \<and> ahead_of od0 od)))"

definition em_inv :: "manager \<Rightarrow> bool" where
  "em_inv m \<longleftrightarrow> synced (cp_store (em_cp m)) (cp_portfolio (em_cp m)) \<and> (\<forall>c. saga_sound m c)
     \<and> distinct (em_intents m) \<and> set (em_intents m) \<inter> set (em_sending m) = {}
     \<and> dict_ok (ch_orders (cp_cache (em_cp m)))"

lemma em_inv_sound: "em_inv m \<Longrightarrow> saga_sound m c"
  by (simp add: em_inv_def)

lemma em_inv_synced: "em_inv m \<Longrightarrow> cp_synced (set (em_sending m)) (em_cp m)"
proof -
  assume inv: "em_inv m"
  have "cache_agrees_off (set (em_sending m)) (cp_store (em_cp m)) (cp_cache (em_cp m))"
    unfolding cache_agrees_off_def
  proof
    fix c
    have "saga_sound m c" using inv by (simp add: em_inv_def)
    then show "(saga_of m c = None \<longleftrightarrow> row_of m c = None) \<and> (c \<notin> set (em_sending m) \<longrightarrow> saga_of m c = row_of m c)"
      by (auto simp: saga_sound_def split: option.splits)
  qed
  with inv show ?thesis by (simp add: em_inv_def cp_synced_def)
qed

lemma em_inv_saga: "em_inv m \<Longrightarrow> saga_of m c = Some od \<Longrightarrow> o_cloid od = c \<and> o_strategy_id od \<noteq> UNATTRIBUTED"
  by (auto simp: em_inv_def saga_sound_def dest!: spec [of _ c])

subsection \<open>What one save does\<close>

lemma save_Inr:
  assumes "save ok ts m od = Inr m'"
  shows "m' = m\<lparr>em_cp := (em_cp m)\<lparr>cp_store := write_order (cp_store (em_cp m)) od ts,
      cp_cache := project_order (cp_cache (em_cp m)) od ts\<rparr>\<rparr>"
  using assms by (auto simp: save_def cp_checkpoint_def cache_checkpoint_def checkpoint_order_def transaction_def
    bind_res_eq_Inr split: if_splits)

lemma save_fields:
  assumes "save ok ts m od = Inr m'"
  shows "saga_of m' c = (if c = o_cloid od then Some od else saga_of m c)"
    and "row_of m' c = (if c = o_cloid od then Some od else row_of m c)"
    and "em_intents m' = em_intents m" "em_sending m' = em_sending m"
    and "cp_portfolio (em_cp m') = cp_portfolio (em_cp m)"
    and "ch_orders (cp_cache (em_cp m')) = AList.update (o_cloid od) od (ch_orders (cp_cache (em_cp m)))"
  using save_Inr [OF assms] by (auto simp: cached_order_def project_order_def get_order_def write_order_def)

lemma save_inv:
  assumes "save ok ts m od = Inr m'" "em_inv m" "o_strategy_id od \<noteq> UNATTRIBUTED"
  shows "em_inv m'"
proof -
  note F = save_fields [OF assms(1)]
  have "synced (cp_store (em_cp m')) (cp_portfolio (em_cp m'))"
    using assms(2) save_Inr [OF assms(1)] by (simp add: em_inv_def write_order_synced)
  moreover have "saga_sound m' c" for c
    using assms(2,3) by (auto simp: em_inv_def saga_sound_def F dest!: spec [of _ c] split: option.splits)
  ultimately show ?thesis using assms(2) by (simp add: em_inv_def F)
qed

text \<open>Two managers that agree on the sagas, the rows and the placements under way.\<close>

definition same_sagas :: "manager \<Rightarrow> manager \<Rightarrow> bool" where
  "same_sagas m m' \<longleftrightarrow> ch_orders (cp_cache (em_cp m')) = ch_orders (cp_cache (em_cp m)) \<and> row_of m' = row_of m
     \<and> em_intents m' = em_intents m \<and> em_sending m' = em_sending m"

lemma same_sagas_inv:
  "same_sagas m m' \<Longrightarrow> em_inv m \<Longrightarrow> synced (cp_store (em_cp m')) (cp_portfolio (em_cp m')) \<Longrightarrow> em_inv m'"
  by (simp add: same_sagas_def em_inv_def saga_sound_def cached_order_def cong: option.case_cong)

lemma write_changes_orders:
  assumes "write_changes ok ts cp pj cs od = Inr cp'"
  shows "cached_order (cp_cache cp') c = (case od of Some x \<Rightarrow> if o_cloid x = c then Some x else cached_order (cp_cache cp) c
      | None \<Rightarrow> cached_order (cp_cache cp) c)"
    and "get_order (cp_store cp') c = (case od of Some x \<Rightarrow> if o_cloid x = c then Some x else get_order (cp_store cp) c
      | None \<Rightarrow> get_order (cp_store cp) c)"
  using assms by (auto simp: write_changes_def checkpoint_ledger_def transaction_def write_ledger_orders
    cached_order_def project_order_def split: if_splits option.splits)

lemma checkpoint_fill_orders:
  assumes "checkpoint_fill ok ts cp od e b sd = Inr cp'"
  shows "cached_order (cp_cache cp') c = (if o_cloid od = c then Some od else cached_order (cp_cache cp) c)"
    and "get_order (cp_store cp') c = (if o_cloid od = c then Some od else get_order (cp_store cp) c)"
  using assms by (auto simp: checkpoint_fill_def bind_res_eq_Inr write_changes_orders)

lemma checkpoint_fill_dict:
  assumes "checkpoint_fill ok ts cp od e b sd = Inr cp'" "dict_ok (ch_orders (cp_cache cp))"
  shows "dict_ok (ch_orders (cp_cache cp'))"
  using assms by (auto simp: checkpoint_fill_def write_changes_def bind_res_eq_Inr project_order_def)

lemma checkpoint_leftover_orders:
  assumes "checkpoint_leftover ok ts cp sy = Inr cp'"
  shows "cp_cache cp' = cp_cache cp \<and> get_order (cp_store cp') = get_order (cp_store cp)"
  using assms by (auto simp: checkpoint_leftover_def bind_res_eq_Inr write_changes_orders split: if_splits)
    (auto simp: write_changes_def bind_res_eq_Inr)

lemma checkpoint_heal_orders:
  assumes "checkpoint_heal ok ts cp fills cash snapshot = Inr (cp', change)"
  shows "cp_cache cp' = cp_cache cp \<and> get_order (cp_store cp') = get_order (cp_store cp)"
proof -
  from assms obtain pj pj' change' where
    "(case change' of
         None \<Rightarrow> Inr (cp\<lparr>cp_portfolio := pj'\<rparr>, None)
       | Some h \<Rightarrow>
           bind_res (checkpoint_ledger ok (cp_store cp) (pj_account pj') (heal_rows pj' h) None None ts) (\<lambda>s.
             Inr (cp\<lparr>cp_store := s, cp_portfolio := project_heal pj' h\<rparr>, Some h))) = Inr (cp', change)"
    unfolding checkpoint_heal_def by (auto simp only: bind_res_eq_Inr split_paired_Ex prod.case)
  then show ?thesis
    by (cases change') (auto simp: checkpoint_ledger_def transaction_def write_ledger_orders split: if_splits)
qed

lemma checkpoint_funding_orders:
  assumes "checkpoint_funding ok ts cp a = Inr cp'"
  shows "cp_cache cp' = cp_cache cp \<and> get_order (cp_store cp') = get_order (cp_store cp)"
proof -
  from assms obtain pj' and change :: "funding_change option" where
    "(case change of
         None \<Rightarrow> Inr (cp\<lparr>cp_portfolio := pj'\<rparr>)
       | Some fc \<Rightarrow>
           bind_res (checkpoint_ledger ok (cp_store cp) (pj_account pj') (fc_positions fc) None
               (Some (fc_funding_mark fc)) ts) (\<lambda>s.
             Inr (cp\<lparr>cp_store := s, cp_portfolio := pj'\<rparr>))) = (Inr cp' :: checkpointer res)"
    by (auto simp: checkpoint_funding_def bind_res_eq_Inr)
  then show ?thesis
    by (cases change) (auto simp: checkpoint_ledger_def transaction_def write_ledger_orders split: if_splits)
qed

section \<open>One lemma per handler\<close>

text \<open>
  \<open>grows\<close>: no saga disappears or forgets an applied event, and the placements under way stay.
  \<open>calm\<close>: nothing is sent to be placed and no fill is published.
\<close>

definition grows :: "manager \<Rightarrow> manager \<Rightarrow> bool" where
  "grows m m' \<longleftrightarrow> em_intents m' = em_intents m \<and> em_sending m' = em_sending m
     \<and> (\<forall>c od. saga_of m c = Some od \<longrightarrow>
          (\<exists>od'. saga_of m' c = Some od' \<and> o_applied_event_ids od \<subseteq> o_applied_event_ids od'))"

definition calm :: "effect list \<Rightarrow> bool" where
  "calm es \<longleftrightarrow> (\<forall>x \<in> set es. (\<forall>po. x \<noteq> Placing po) \<and> (\<forall>e. x = Published e \<longrightarrow> event_fill e = None))"

lemma calm_simps [simp]:
  "calm []" "calm (Published e # es) \<longleftrightarrow> event_fill e = None \<and> calm es" "\<not> calm (Placing po # es)"
  "calm (Cancelling rs # es) \<longleftrightarrow> calm es"
  by (auto simp: calm_def)

lemma grows_refl [simp, intro]: "grows m m"
  by (simp add: grows_def)

lemma grows_trans: "grows m m' \<Longrightarrow> grows m' m'' \<Longrightarrow> grows m m''"
  by (fastforce simp: grows_def)

lemma same_sagas_grows: "same_sagas m m' \<Longrightarrow> grows m m'"
  by (simp add: same_sagas_def grows_def cached_order_def)

lemma save_grows:
  assumes "save ok ts m od = Inr m'"
    "\<And>od0. saga_of m (o_cloid od) = Some od0 \<Longrightarrow> o_applied_event_ids od0 \<subseteq> o_applied_event_ids od"
  shows "grows m m'"
  using assms(2) by (auto simp: grows_def save_fields [OF assms(1)])

lemma decide_fields:
  "decide nm nr m s = Inr (d, m1) \<Longrightarrow> em_cp m1 = em_cp m \<and> em_intents m1 = em_intents m \<and> em_sending m1 = em_sending m"
  by (auto simp: decide_def bind_res_eq_Inr split: if_splits option.splits)

lemma order_for_fields [simp]:
  "o_cloid (order_for dg s q t) = derive_cloid dg (signal_id_of (PlaceSignal s))"
  "o_strategy_id (order_for dg s q t) = ps_strategy_id s" "o_applied_event_ids (order_for dg s q t) = {}"
  "o_state (order_for dg s q t) = PENDING"
  by (simp_all add: order_for_def)

lemma place_intent_cases:
  assumes "place_intent dg ok nm nr created ts now m s = Inr (m', es)"
  obtains (known) "m' = m" "es = []"
  | (denied) m1 od e why where "em_cp m1 = em_cp m" "em_intents m1 = em_intents m" "em_sending m1 = em_sending m"
      "saga_of m (o_cloid od) = None" "save ok ts m1 od = Inr m'" "o_strategy_id od = ps_strategy_id s"
      "es = [Published (OrderDenied e why)]"
  | (intent) m1 od m2 where "em_cp m1 = em_cp m" "em_intents m1 = em_intents m" "em_sending m1 = em_sending m"
      "saga_of m (o_cloid od) = None" "save ok ts m1 od = Inr m2" "o_strategy_id od = ps_strategy_id s"
      "m' = m2\<lparr>em_intents := o_cloid od # em_intents m2\<rparr>"
      "es = [Published (OrderPlaced (saga_env od now None False))]"
proof (cases "saga_of m (derive_cloid dg (signal_id_of (PlaceSignal s))) = None")
  case False
  with assms show ?thesis by (intro known) (simp_all add: place_intent_def)
next
  case True
  then obtain d m1 where d: "decide nm nr m s = Inr (d, m1)" and
    rest: "(case flatten_basis (em_cp m1) s d of
          (basis, Denied why) \<Rightarrow>
            let od = order_for dg s (ps_quantity s) created;
                denied = OrderDenied (saga_env od now None False) why
            in bind_res (apply_event od denied) (\<lambda>(_, od1).
               bind_res (save ok ts m1 od1) (\<lambda>m2. Inr (m2, [Published denied])))
        | (basis, Approved q price) \<Rightarrow>
            let od = (order_for dg s q created)\<lparr>o_split_basis := basis, o_price := price\<rparr>
            in bind_res (save ok ts m1 od) (\<lambda>m2.
               Inr (m2\<lparr>em_intents := o_cloid od # em_intents m2\<rparr>,
                    [Published (OrderPlaced (saga_env od now None False))]))) = Inr (m', es)"
    using assms by (auto simp: place_intent_def bind_res_eq_Inr)
  note D = decide_fields [OF d]
  obtain basis d' where f: "flatten_basis (em_cp m1) s d = (basis, d')" by (cases "flatten_basis (em_cp m1) s d")
  show ?thesis
  proof (cases d')
    case (Denied why)
    with rest f obtain b od1 where a: "apply_event (order_for dg s (ps_quantity s) created)
        (OrderDenied (saga_env (order_for dg s (ps_quantity s) created) now None False) why) = Inr (b, od1)"
      and sv: "save ok ts m1 od1 = Inr m'"
      and es: "es = [Published (OrderDenied (saga_env (order_for dg s (ps_quantity s) created) now None False) why)]"
      by (auto simp: Let_def bind_res_eq_Inr)
    show ?thesis
      by (rule denied [OF _ _ _ _ sv _ es]) (use D apply_event_frame [OF a] True in simp_all)
  next
    case (Approved q price)
    define od where "od = (order_for dg s q created)\<lparr>o_split_basis := basis, o_price := price\<rparr>"
    from rest f Approved obtain m2 where sv: "save ok ts m1 od = Inr m2"
      and r: "m' = m2\<lparr>em_intents := o_cloid od # em_intents m2\<rparr>"
        "es = [Published (OrderPlaced (saga_env od now None False))]"
      by (auto simp: Let_def bind_res_eq_Inr od_def)
    show ?thesis
      by (rule intent [OF _ _ _ _ sv _ r]) (use D True in \<open>simp_all add: od_def\<close>)
  qed
qed

text \<open>What a step guarantees that sends nothing and publishes no fill.\<close>

definition quiet :: "manager \<Rightarrow> effect list \<Rightarrow> manager \<Rightarrow> bool" where
  "quiet m es m' \<longleftrightarrow> em_inv m' \<and> grows m m' \<and> calm es"

lemma quiet_refl [simp]: "em_inv m \<Longrightarrow> calm es \<Longrightarrow> quiet m es m"
  by (simp add: quiet_def)

lemma quiet_save:
  assumes "save ok ts m od = Inr m'" "em_inv m" "o_strategy_id od \<noteq> UNATTRIBUTED" "calm es"
    "\<And>od0. saga_of m (o_cloid od) = Some od0 \<Longrightarrow> o_applied_event_ids od0 \<subseteq> o_applied_event_ids od"
  shows "quiet m es m'"
  using save_inv [OF assms(1-3)] save_grows [OF assms(1,5)] assms(4) by (simp add: quiet_def)

lemma quiet_saga_save:
  assumes "save ok ts m od' = Inr m'" "em_inv m" "saga_of m c = Some od" "calm es"
    "o_cloid od' = o_cloid od" "o_strategy_id od' = o_strategy_id od"
    "o_applied_event_ids od \<subseteq> o_applied_event_ids od'"
  shows "quiet m es m'"
  using em_inv_saga [OF assms(2,3)] assms(3-7) by (intro quiet_save [OF assms(1,2)]) auto

lemma quiet_ledger:
  assumes "cp_synced (set (em_sending m)) cp" "em_inv m"
    "cp_cache cp = cp_cache (em_cp m) \<and> get_order (cp_store cp) = row_of m"
  shows "quiet m [] (m\<lparr>em_cp := cp\<rparr>)"
proof -
  have same: "same_sagas m (m\<lparr>em_cp := cp\<rparr>)" using assms(3) by (simp add: same_sagas_def)
  have "synced (cp_store (em_cp (m\<lparr>em_cp := cp\<rparr>))) (cp_portfolio (em_cp (m\<lparr>em_cp := cp\<rparr>)))"
    using assms(1) by (simp add: cp_synced_def)
  from same_sagas_inv [OF same assms(2) this] same_sagas_grows [OF same] show ?thesis by (simp add: quiet_def)
qed

lemma cancel_order_quiet:
  "cancel_order dg ok now ts m sid target = Inr (m', es) \<Longrightarrow> em_inv m \<Longrightarrow> quiet m es m'"
  by (auto simp: cancel_order_def request_cancel_def bind_res_eq_Inr quiet_saga_save
    split: option.splits prod.splits bool.splits if_splits)

lemma request_cancel_all_frame:
  "request_cancel_all od sid ts = Inr (b, od') \<Longrightarrow> o_cloid od' = o_cloid od \<and> o_strategy_id od' = o_strategy_id od
    \<and> o_applied_event_ids od' = o_applied_event_ids od \<and> (b \<longrightarrow> o_cancel_requested od')"
  by (auto simp: request_cancel_all_def bind_res_eq_Inr split: if_splits option.splits)

definition marked_from :: "order list \<Rightarrow> order \<Rightarrow> bool" where
  "marked_from ods od' \<longleftrightarrow> (\<exists>od \<in> set ods. o_cloid od' = o_cloid od \<and> o_strategy_id od' = o_strategy_id od
     \<and> o_applied_event_ids od' = o_applied_event_ids od \<and> o_cancel_requested od')"

lemma mark_all_from: "mark_all sid now ods = Inr marked \<Longrightarrow> \<forall>od' \<in> set marked. marked_from ods od'"
proof (induction ods arbitrary: marked)
  case (Cons od ods)
  from Cons.prems obtain b od1 rest where one: "request_cancel_all od sid now = Inr (b, od1)"
    and r: "mark_all sid now ods = Inr rest" "marked = (if b then od1 # rest else rest)"
    by (auto simp: bind_res_eq_Inr)
  from Cons.IH [OF r(1)] request_cancel_all_frame [OF one] r(2) show ?case
    by (auto simp: marked_from_def)
qed simp

lemma mark_all_distinct:
  "mark_all sid now ods = Inr marked \<Longrightarrow> distinct (map o_cloid ods) \<Longrightarrow>
    distinct (map o_cloid marked) \<and> o_cloid ` set marked \<subseteq> o_cloid ` set ods"
proof (induction ods arbitrary: marked)
  case (Cons od ods)
  from Cons.prems(1) obtain b od1 rest where one: "request_cancel_all od sid now = Inr (b, od1)"
    and r: "mark_all sid now ods = Inr rest" "marked = (if b then od1 # rest else rest)"
    by (auto simp: bind_res_eq_Inr)
  have "distinct (map o_cloid rest) \<and> o_cloid ` set rest \<subseteq> o_cloid ` set ods"
    using Cons.IH [OF r(1)] Cons.prems(2) by simp
  with request_cancel_all_frame [OF one] r(2) Cons.prems(2) show ?case by auto
qed simp

text \<open>The sagas a save_all may write: each a later form of the one filed under its id.\<close>

definition later_form :: "manager \<Rightarrow> order \<Rightarrow> bool" where
  "later_form m od' \<longleftrightarrow> (\<exists>od. saga_of m (o_cloid od') = Some od \<and> o_strategy_id od' = o_strategy_id od
     \<and> o_applied_event_ids od \<subseteq> o_applied_event_ids od')"

lemma later_form_quiet:
  assumes "save ok ts m od' = Inr m'" "em_inv m" "later_form m od'" "calm es"
  shows "quiet m es m'"
proof -
  from assms(3) obtain od where od: "saga_of m (o_cloid od') = Some od" "o_strategy_id od' = o_strategy_id od"
    "o_applied_event_ids od \<subseteq> o_applied_event_ids od'" by (auto simp: later_form_def)
  show ?thesis
    using em_inv_saga [OF assms(2) od(1)] od by (intro quiet_save [OF assms(1,2) _ assms(4)]) auto
qed

lemma save_all_quiet:
  assumes "save_all ok ts m ods = Inr m'" "em_inv m" "calm es"
    "\<forall>od \<in> set ods. later_form m od" "distinct (map o_cloid ods)"
  shows "quiet m es m' \<and> (\<forall>c. row_of m' c = (case List.find (\<lambda>od. o_cloid od = c) ods of Some od \<Rightarrow> Some od | None \<Rightarrow> row_of m c))"
  using assms
proof (induction ods arbitrary: m)
  case (Cons od ods)
  from Cons.prems(1) obtain m1 where one: "save ok ts m od = Inr m1" and rest: "save_all ok ts m1 ods = Inr m'"
    by (auto simp: bind_res_eq_Inr)
  have q: "quiet m es m1" using later_form_quiet [OF one] Cons.prems by simp
  have "\<forall>x \<in> set ods. later_form m1 x"
  proof
    fix x assume x: "x \<in> set ods"
    moreover have "o_cloid od \<notin> o_cloid ` set ods" using Cons.prems(5) by simp
    ultimately have "o_cloid x \<noteq> o_cloid od" by (metis imageI)
    with x Cons.prems(4) show "later_form m1 x" by (auto simp: later_form_def save_fields [OF one])
  qed
  from Cons.IH [OF rest _ Cons.prems(3) this] q Cons.prems(5)
  have r: "quiet m1 es m' \<and> (\<forall>c. row_of m' c = (case List.find (\<lambda>od. o_cloid od = c) ods of
      Some od \<Rightarrow> Some od | None \<Rightarrow> row_of m1 c))" by (simp add: quiet_def)
  moreover have "List.find (\<lambda>x. o_cloid x = o_cloid od) ods = None"
    using Cons.prems(5) by (simp add: find_None_iff) (metis imageI)
  ultimately have "row_of m' c = (case List.find (\<lambda>od. o_cloid od = c) (od # ods) of Some od \<Rightarrow> Some od | None \<Rightarrow> row_of m c)" for c
    by (auto simp: save_fields [OF one] split: option.split)
  with q r show ?case by (auto simp: quiet_def intro: grows_trans)
qed simp

lemma cancel_all_spec:
  assumes "cancel_all ok now ts m st sy n = Inr (m', es)" "em_inv m"
  shows "quiet m es m' \<and> (\<forall>rs r od. Cancelling rs \<in> set es \<longrightarrow> SagaRef r \<in> set rs \<longrightarrow>
    row_of m' (or_cloid r) = Some od \<longrightarrow> o_cancel_requested od)"
proof -
  from assms(1) obtain cp marked m1 where c: "cp_raise_seq ok (em_cp m) st n = Inr cp"
    and k: "mark_all (signal_id_of (CancelAllSignal st sy n)) now (open_orders (cp_cache cp) (Some st) (Some sy)) = Inr marked"
    and sv: "save_all ok ts (m\<lparr>em_cp := cp\<rparr>) marked = Inr m'"
    and es: "es = (if marked = [] then [] else [Cancelling (map (SagaRef \<circ> order_ref_of) marked)])"
    by (auto simp: cancel_all_def bind_res_eq_Inr)
  have same: "same_sagas m (m\<lparr>em_cp := cp\<rparr>)" and port: "cp_portfolio cp = cp_portfolio (em_cp m)"
    and ord: "ch_orders (cp_cache cp) = ch_orders (cp_cache (em_cp m))"
    and st: "synced (cp_store cp) (cp_portfolio cp)"
    using c assms(2)
    by (auto simp: cp_raise_seq_def cache_raise_seq_def store_raise_seq_def transaction_def bind_res_eq_Inr same_sagas_def
      cached_order_def get_order_def fun_eq_iff em_inv_def synced_def store_ok_def load_account_def row_at_def
      split: if_splits option.splits)
  have inv: "em_inv (m\<lparr>em_cp := cp\<rparr>)" using same_sagas_inv [OF same assms(2)] st by simp
  define ods where "ods = open_orders (cp_cache cp) (Some st) (Some sy)"
  have filed: "(o_cloid od, od) \<in> set (ch_orders (cp_cache (em_cp m)))" if "od \<in> set ods" for od
  proof -
    from that obtain c where c: "(c, od) \<in> set (ch_orders (cp_cache (em_cp m)))"
      by (auto simp: ods_def open_orders_def cached_orders_def ord)
    then have "saga_of m c = Some od"
      using assms(2) by (simp add: em_inv_def cached_order_def dict_ok_map_of_iff)
    with em_inv_saga [OF assms(2)] c show ?thesis by blast
  qed
  have keys: "map (o_cloid \<circ> snd) (ch_orders (cp_cache (em_cp m))) = map fst (ch_orders (cp_cache (em_cp m)))"
  proof (rule map_cong [OF refl])
    fix e assume "e \<in> set (ch_orders (cp_cache (em_cp m)))"
    then have "saga_of m (fst e) = Some (snd e)"
      using assms(2) by (simp add: em_inv_def cached_order_def dict_ok_map_of_iff)
    with em_inv_saga [OF assms(2)] show "(o_cloid \<circ> snd) e = fst e" by auto
  qed
  have "distinct (map fst (ch_orders (cp_cache (em_cp m))))" using assms(2) by (simp add: em_inv_def dict_ok_def)
  then have "distinct (map o_cloid (map snd (ch_orders (cp_cache (em_cp m)))))"
    by (simp only: map_map keys)
  then have dod: "distinct (map o_cloid ods)"
    unfolding ods_def open_orders_def cached_orders_def ord by (rule distinct_map_filter)
  have later: "\<forall>od \<in> set marked. later_form (m\<lparr>em_cp := cp\<rparr>) od"
  proof
    fix od' assume "od' \<in> set marked"
    then have "marked_from ods od'" using mark_all_from [OF k] by (simp add: ods_def)
    then obtain od where od: "od \<in> set ods" "o_cloid od' = o_cloid od" "o_strategy_id od' = o_strategy_id od"
      "o_applied_event_ids od' = o_applied_event_ids od" by (auto simp: marked_from_def)
    have "saga_of m (o_cloid od) = Some od"
      using assms(2) filed [OF od(1)] by (simp add: em_inv_def cached_order_def dict_ok_map_of_iff)
    with od show "later_form (m\<lparr>em_cp := cp\<rparr>) od'" by (simp add: later_form_def cached_order_def ord)
  qed
  have dm: "distinct (map o_cloid marked)" using mark_all_distinct [OF k] dod by (simp add: ods_def)
  have calm: "calm es" by (simp add: es)
  note S = save_all_quiet [OF sv inv calm later dm]
  have "quiet m es m'" using S same_sagas_grows [OF same] by (auto simp: quiet_def intro: grows_trans)
  moreover have "o_cancel_requested od" if "od' \<in> set marked" "row_of m' (o_cloid od') = Some od" for od od'
  proof -
    have "List.find (\<lambda>od. o_cloid od = o_cloid od') marked \<noteq> None" using that(1) by (auto simp: find_None_iff)
    then obtain x where x: "List.find (\<lambda>od. o_cloid od = o_cloid od') marked = Some x" by auto
    then have "x \<in> set marked" by (auto dest: find_Some_mem)
    then have "o_cancel_requested x" using mark_all_from [OF k] by (auto simp: marked_from_def)
    with S x that(2) show ?thesis by auto
  qed
  ultimately show ?thesis by (auto simp: es order_ref_of_def split: if_splits)
qed

text \<open>The cancel mark is durable: the row carries the request, or the order is over.\<close>

definition marked_row :: "manager \<Rightarrow> string \<Rightarrow> bool" where
  "marked_row m c \<longleftrightarrow> (\<forall>od. row_of m c = Some od \<longrightarrow> o_cancel_requested od \<or> is_terminal od)"

definition refs_marked :: "manager \<Rightarrow> effect list \<Rightarrow> bool" where
  "refs_marked m es \<longleftrightarrow> (\<forall>rs r. Cancelling rs \<in> set es \<longrightarrow> SagaRef r \<in> set rs \<longrightarrow> marked_row m (or_cloid r))"

lemma mark_operator_frame [simp]:
  "o_cloid (mark_operator_cancel od ts) = o_cloid od" "o_strategy_id (mark_operator_cancel od ts) = o_strategy_id od"
  "o_applied_event_ids (mark_operator_cancel od ts) = o_applied_event_ids od"
  "o_cancel_requested (mark_operator_cancel od ts) \<or> is_terminal (mark_operator_cancel od ts)"
  by (auto simp: mark_operator_cancel_def is_terminal_def)

lemma operator_ref_spec:
  assumes "operator_ref ok now ts m x = Inr (m', r)" "em_inv m"
  shows "quiet m [] m' \<and> (\<forall>q. r = SagaRef q \<longrightarrow> marked_row m' (or_cloid q)) \<and> (\<forall>c. marked_row m c \<longrightarrow> marked_row m' c)"
proof (cases x)
  case (Inr y)
  with assms show ?thesis by (auto simp: operator_ref_def)
next
  case (Inl v)
  show ?thesis
  proof (cases "saga_of m (vo_cloid v)")
    case None
    moreover have "row_of m (vo_cloid v) = None"
      using assms(2) None by (auto simp: em_inv_def saga_sound_def dest!: spec [of _ "vo_cloid v"])
    ultimately show ?thesis using assms Inl by (auto simp: operator_ref_def marked_row_def)
  next
    case (Some od)
    with assms(1) Inl have sv: "save ok ts m (mark_operator_cancel od now) = Inr m'"
      and r: "r = SagaRef (order_ref_of (mark_operator_cancel od now))"
      by (auto simp: operator_ref_def bind_res_eq_Inr)
    have "quiet m [] m'" by (rule quiet_saga_save [OF sv assms(2) Some]) simp_all
    with r show ?thesis
      using mark_operator_frame(4) [of od now] by (auto simp: marked_row_def save_fields [OF sv] order_ref_of_def)
  qed
qed

lemma operator_refs_spec:
  "operator_refs ok now ts m xs = Inr (m', rs) \<Longrightarrow> em_inv m \<Longrightarrow>
    quiet m [] m' \<and> (\<forall>q. SagaRef q \<in> set rs \<longrightarrow> marked_row m' (or_cloid q)) \<and> (\<forall>c. marked_row m c \<longrightarrow> marked_row m' c)"
proof (induction xs arbitrary: m rs)
  case (Cons x xs)
  from Cons.prems(1) obtain m1 r rest where one: "operator_ref ok now ts m x = Inr (m1, r)"
    and r: "operator_refs ok now ts m1 xs = Inr (m', rest)" "rs = r # rest"
    by (auto simp: bind_res_eq_Inr)
  note S = operator_ref_spec [OF one Cons.prems(2)]
  then have "em_inv m1" by (simp add: quiet_def)
  from Cons.IH [OF r(1) this] S r(2) show ?case by (auto simp: quiet_def intro: grows_trans)
qed simp

lemma cancel_for_operator_spec:
  assumes "cancel_for_operator ok now ts m resting = Inr (m', es)" "em_inv m"
  shows "quiet m es m' \<and> refs_marked m' es"
proof -
  from assms(1) obtain rs where r: "operator_refs ok now ts m resting = Inr (m', rs)" "es = [Cancelling rs]"
    by (auto simp: cancel_for_operator_def bind_res_eq_Inr)
  with operator_refs_spec [OF r(1) assms(2)] show ?thesis by (simp add: quiet_def refs_marked_def)
qed

lemma cancel_order_spec:
  assumes "cancel_order dg ok now ts m sid target = Inr (m', es)" "em_inv m"
  shows "quiet m es m' \<and> refs_marked m' es"
proof -
  have "refs_marked m' es"
    using assms(1) by (auto simp: cancel_order_def request_cancel_def bind_res_eq_Inr refs_marked_def marked_row_def
      order_ref_of_def save_fields split: option.splits if_splits)
  with cancel_order_quiet [OF assms] show ?thesis by simp
qed

lemma apply_status_quiet:
  assumes "apply_status ok now ts m r = Inr (m', es)" "em_inv m"
  shows "quiet m es m'"
proof (cases "saga_of m (sr_cloid r)")
  case None
  with assms show ?thesis by (simp add: apply_status_def)
next
  case (Some od)
  show ?thesis
  proof (cases "es = [] \<and> m' = m")
    case True
    with assms(2) show ?thesis by simp
  next
    case False
    with assms(1) Some obtain e od1 where e: "status_event od r now = Some e" and a: "apply_event od e = Inr (True, od1)"
      and sv: "save ok ts m od1 = Inr m'" and es: "es = [Published e]"
      by (auto simp: apply_status_def bind_res_eq_Inr split: if_splits option.splits)
    have "event_fill e = None" using e by (auto simp: status_event_def Let_def split: order_state.splits)
    with apply_event_frame [OF a] es show ?thesis by (intro quiet_saga_save [OF sv assms(2) Some]) auto
  qed
qed

section \<open>Counting what a life publishes and sends\<close>

fun placed :: "string \<Rightarrow> effect list \<Rightarrow> nat" where
  "placed c [] = 0"
| "placed c (Placing po # es) = (if ot_cloid (po_terms po) = c then 1 else 0) + placed c es"
| "placed c (x # es) = placed c es"

fun fills_published :: "string \<Rightarrow> string \<Rightarrow> effect list \<Rightarrow> nat" where
  "fills_published c i [] = 0"
| "fills_published c i (Published e # es) =
     (if event_fill e \<noteq> None \<and> ev_cloid (env e) = c \<and> event_id e = i then 1 else 0) + fills_published c i es"
| "fills_published c i (x # es) = fills_published c i es"

definition may_place :: "manager \<Rightarrow> string \<Rightarrow> nat" where
  "may_place m c = (if saga_of m c = None \<or> c \<in> set (em_intents m) then 1 else 0)"

definition may_book :: "manager \<Rightarrow> string \<Rightarrow> string \<Rightarrow> nat" where
  "may_book m c i = (case saga_of m c of None \<Rightarrow> 1 | Some od \<Rightarrow> if i \<in> o_applied_event_ids od then 0 else 1)"

lemma counts_append [simp]:
  "placed c (es @ es') = placed c es + placed c es'"
  "fills_published c i (es @ es') = fills_published c i es + fills_published c i es'"
  by (induction c es rule: placed.induct; simp) (induction c i es rule: fills_published.induct; simp)

lemma calm_counts: "calm es \<Longrightarrow> placed c es = 0 \<and> fills_published c i es = 0"
proof (induction es)
  case (Cons x es)
  then show ?case by (cases x) auto
qed simp

definition accounted :: "manager \<Rightarrow> effect list \<Rightarrow> manager \<Rightarrow> bool" where
  "accounted m es m' \<longleftrightarrow> em_inv m'
     \<and> (\<forall>c. placed c es + may_place m' c \<le> may_place m c)
     \<and> (\<forall>c t. fills_published c (fill_event_id c t) es + may_book m' c (fill_event_id c t) \<le> may_book m c (fill_event_id c t))"

lemma grows_may:
  assumes "grows m m'"
  shows "may_place m' c \<le> may_place m c" "may_book m' c i \<le> may_book m c i"
  using assms unfolding grows_def may_place_def may_book_def
  by (cases "saga_of m c"; force split: option.split)+

lemma quiet_accounted: "quiet m es m' \<Longrightarrow> accounted m es m'"
  using grows_may calm_counts by (auto simp: quiet_def accounted_def)

lemma place_intent_accounted:
  assumes "place_intent dg ok nm nr created ts now m s = Inr (m', es)" "em_inv m" "ps_strategy_id s \<noteq> UNATTRIBUTED"
  shows "accounted m es m' \<and> (\<forall>po. Placing po \<notin> set es) \<and> refs_marked m' es"
  using assms(1)
proof (cases rule: place_intent_cases)
  case known
  with assms(2) show ?thesis by (auto simp: quiet_accounted refs_marked_def)
next
  case (denied m1 od e why)
  have same: "same_sagas m m1" using denied by (simp add: same_sagas_def)
  have inv: "em_inv m1" using assms(2) denied(1) same_sagas_inv [OF same assms(2)] by (simp add: em_inv_def)
  have "quiet m1 es m'"
    by (rule quiet_save [OF denied(5) inv]) (use denied assms(3) in auto)
  then have "quiet m es m'" using same_sagas_grows [OF same] by (auto simp: quiet_def intro: grows_trans)
  then show ?thesis by (auto simp: quiet_accounted denied(7) refs_marked_def)
next
  case (intent m1 od m2)
  have same: "same_sagas m m1" using intent by (simp add: same_sagas_def)
  have inv: "em_inv m1" using assms(2) intent(1) same_sagas_inv [OF same assms(2)] by (simp add: em_inv_def)
  have q: "quiet m1 es m2"
    by (rule quiet_save [OF intent(5) inv]) (use intent assms(3) in auto)
  have new: "o_cloid od \<notin> set (em_intents m)" "o_cloid od \<notin> set (em_sending m)"
    using assms(2) intent(4) by (auto simp: em_inv_def saga_sound_def dest!: spec [of _ "o_cloid od"])
  note F = save_fields [OF intent(5)]
  have "em_inv m2" using q by (simp add: quiet_def)
  moreover have "saga_of m2 (o_cloid od) = Some od" by (simp add: F)
  ultimately have "saga_sound m' c" for c
    using em_inv_sound [of m2 c] by (auto simp: saga_sound_def intent(7) split: option.splits)
  then have "em_inv m'"
    using q new intent(2,3) by (simp add: quiet_def em_inv_def intent(7) F)
  moreover have "may_place m' c \<le> may_place m c" for c
    using intent(2,4) intent(1) by (auto simp: may_place_def intent(7) F)
  moreover have "may_book m' c i \<le> may_book m c i" for c i
    using grows_may(2) [of m1 m2 c i] q intent(1) by (simp add: may_book_def intent(7) quiet_def)
  ultimately show ?thesis by (auto simp: accounted_def intent(8) refs_marked_def)
qed

lemma place_order_of_cong:
  "o_time_in_force od' = o_time_in_force od \<Longrightarrow> o_cloid od' = o_cloid od \<Longrightarrow> o_symbol od' = o_symbol od \<Longrightarrow>
    o_side od' = o_side od \<Longrightarrow> o_quantity od' = o_quantity od \<Longrightarrow> o_cum_qty od' = o_cum_qty od \<Longrightarrow>
    o_post_only od' = o_post_only od \<Longrightarrow> o_reduce_only od' = o_reduce_only od \<Longrightarrow> o_type od' = o_type od \<Longrightarrow>
    o_price od' = o_price od \<Longrightarrow> place_order_of od' = place_order_of od"
  by (auto simp: place_order_of_def Let_def split: option.split)

lemma place_send_cases:
  assumes "place_send now m c = Inr (m', es)" "em_inv m" "c \<in> set (em_intents m)"
  obtains od od1 po where "saga_of m c = Some od" "row_of m c = Some od" "od1 = od \<or> ahead_of od od1" "o_cloid od = c"
    "o_strategy_id od1 = o_strategy_id od" "o_cloid od1 = c"
    "o_applied_event_ids od \<subseteq> o_applied_event_ids od1" "place_order_of od = Inr po"
    "m' = (touch m od1)\<lparr>em_intents := removeAll c (em_intents m), em_sending := c # em_sending m\<rparr>"
    "es = [Published (OrderSubmitted (saga_env od now None False)), Placing po]"
proof -
  have sound: "saga_sound m c" and disj: "c \<notin> set (em_sending m)" using assms(2,3) by (auto simp: em_inv_def)
  with assms(3) obtain od where od: "saga_of m c = Some od" "row_of m c = Some od" "o_cloid od = c"
    by (auto simp: saga_sound_def split: option.splits)
  define e where "e = OrderSubmitted (saga_env od now None False)"
  from assms(1) od obtain b od1 po where a: "apply_event od e = Inr (b, od1)" and po: "place_order_of od1 = Inr po"
    and r: "m' = (touch m od1)\<lparr>em_intents := removeAll c (em_intents m), em_sending := c # em_sending m\<rparr>"
      "es = [Published e, Placing po]"
    by (auto simp: place_send_def Let_def bind_res_eq_Inr e_def)
  have nofill: "event_fill e = None" by (simp add: e_def)
  have "place_order_of od1 = place_order_of od"
    using a nofill by (intro place_order_of_cong) (auto simp: apply_event_def split: if_splits)
  moreover have "ahead_of od od1" if b
    using a nofill that unfolding ahead_of_def by (intro exI [of _ e]) (simp add: e_def saga_env_def)
  moreover have "od1 = od" if "\<not> b" using a that by (cases b) (auto dest: apply_event_False)
  ultimately show thesis
    using od po apply_event_frame [OF a] by (intro that [OF od(1,2) _ od(3) _ _ _ _ r [unfolded e_def]]) auto
qed

lemma touch_fields [simp]:
  "saga_of (touch m od) c = (if c = o_cloid od then Some od else saga_of m c)" "row_of (touch m od) c = row_of m c"
  "em_intents (touch m od) = em_intents m" "em_sending (touch m od) = em_sending m"
  "cp_portfolio (em_cp (touch m od)) = cp_portfolio (em_cp m)" "cp_store (em_cp (touch m od)) = cp_store (em_cp m)"
  "ch_orders (cp_cache (em_cp (touch m od))) = AList.update (o_cloid od) od (ch_orders (cp_cache (em_cp m)))"
  by (auto simp: touch_def cached_order_def)

lemma place_order_of_cloid: "place_order_of od = Inr po \<Longrightarrow> ot_cloid (po_terms po) = o_cloid od"
  using place_order_of_Inr by blast

lemma place_send_accounted:
  assumes "place_send now m c = Inr (m', es)" "em_inv m" "c \<in> set (em_intents m)"
  shows "accounted m es m'"
  using assms
proof (cases rule: place_send_cases)
  case (1 od od1 po)
  have pc: "ot_cloid (po_terms po) = c" using place_order_of_cloid [OF 1(8)] 1(4) by simp
  have st: "o_strategy_id od \<noteq> UNATTRIBUTED" using em_inv_saga [OF assms(2) 1(1)] by simp
  have sound: "saga_sound m' x" for x
    using em_inv_sound [OF assms(2), of x] 1 st by (auto simp: saga_sound_def split: option.splits)
  have "em_inv m'"
    using assms(2) sound by (auto simp: em_inv_def 1(9) distinct_removeAll)
  moreover have "placed x es + may_place m' x \<le> may_place m x" for x
    using assms(3) pc 1(6) by (auto simp: may_place_def 1(9,10))
  moreover have "fills_published x i es + may_book m' x i \<le> may_book m x i" for x i
    using 1(1,6,7) by (auto simp: may_book_def 1(9,10) split: option.splits)
  ultimately show ?thesis by (simp add: accounted_def)
qed

lemma place_sent_accounted:
  assumes "place_sent ok ts m c = Inr (m', es)" "em_inv m" "c \<in> set (em_sending m)"
  shows "accounted m es m' \<and> es = []"
proof -
  from assms(1) obtain od m1 where od: "saga_of m c = Some od" and sv: "save ok ts m od = Inr m1"
    and r: "m' = m1\<lparr>em_sending := removeAll c (em_sending m1)\<rparr>" "es = []"
    by (auto simp: place_sent_def bind_res_eq_Inr split: option.splits)
  have oc: "o_cloid od = c" using em_inv_saga [OF assms(2) od] by simp
  have q: "quiet m [] m1" by (rule quiet_saga_save [OF sv assms(2) od]) simp_all
  note F = save_fields [OF sv]
  have inv1: "em_inv m1" using q by (simp add: quiet_def)
  have now: "saga_of m1 c = Some od" "row_of m1 c = Some od" by (simp_all add: F oc)
  have sound: "saga_sound m' x" for x
    using em_inv_sound [OF inv1, of x] now by (auto simp: saga_sound_def r(1) split: option.splits)
  have "em_inv m'" using inv1 sound by (auto simp: em_inv_def r(1))
  moreover have "accounted m [] m1" by (rule quiet_accounted [OF q])
  ultimately show ?thesis by (simp add: accounted_def r may_place_def may_book_def)
qed

lemma fill_accounted:
  assumes "apply_fill_report ok now ts m r = Inr (m', es)" "em_inv m"
  shows "accounted m es m' \<and> (\<forall>po. Placing po \<notin> set es) \<and> refs_marked m' es"
proof (cases "saga_of m (fr_cloid r)")
  case None
  with assms show ?thesis by (auto simp: apply_fill_report_def quiet_accounted refs_marked_def)
next
  case (Some od)
  note S = em_inv_saga [OF assms(2) Some]
  from assms(1) Some obtain ev od1 where rf0: "record_fill od (raw_of r now) = Inr (ev, od1)"
    and rest: "(case ev of None \<Rightarrow> Inr (m, []) | Some e \<Rightarrow> (case event_fill e of None \<Rightarrow> Inr (m, [])
      | Some b \<Rightarrow> bind_res (checkpoint_fill ok ts (em_cp m) od1 (env e) b (o_side od1)) (\<lambda>cp.
          Inr (m\<lparr>em_cp := cp\<rparr>, [Published e])))) = Inr (m', es)"
    by (auto simp: apply_fill_report_def bind_res_eq_Inr)
  show ?thesis
  proof (cases "es = [] \<and> m' = m")
    case True
    with assms(2) show ?thesis by (auto simp: quiet_accounted refs_marked_def)
  next
    case False
    with rest obtain e where ev: "ev = Some e" by (cases ev) auto
    with rest False obtain b where b: "event_fill e = Some b" by (cases "event_fill e") auto
    from rest ev b obtain cp where cf: "checkpoint_fill ok ts (em_cp m) od1 (env e) b (o_side od1) = Inr cp"
      and res: "m' = m\<lparr>em_cp := cp\<rparr>" "es = [Published e]"
      by (auto simp: bind_res_eq_Inr)
    note rf = rf0 [unfolded ev]
    note R = record_fill_Some [OF rf] and Fr = record_fill_frame [OF rf]
    have e: "e = fill_event od (raw_of r now)" using R by blast
    have env: "ev_strategy_id (env e) = o_strategy_id od" "ev_cloid (env e) = o_cloid od"
      by (simp_all add: e fill_event_def Let_def)
    have od1: "o_strategy_id od1 = o_strategy_id od"
      using rf by (auto simp: record_fill_eq_Inr dest: apply_event_frame)
    have syn: "cp_synced (set (em_sending m)) cp"
      by (rule checkpoint_fill_synced [OF cf em_inv_synced [OF assms(2)]]) (use S env in simp)
    note O = checkpoint_fill_orders [OF cf]
    have c1: "o_cloid od1 = fr_cloid r" using S Fr by simp
    have sound: "saga_sound m' x" for x
      using em_inv_sound [OF assms(2), of x] S c1 od1
      by (auto simp: saga_sound_def res(1) O split: option.splits)
    have "dict_ok (ch_orders (cp_cache cp))"
      using assms(2) checkpoint_fill_dict [OF cf] by (simp add: em_inv_def)
    with sound syn assms(2) have "em_inv m'" by (auto simp: em_inv_def res(1) cp_synced_def)
    moreover have "placed x es + may_place m' x \<le> may_place m x" for x
      using Some c1 by (auto simp: may_place_def res O)
    moreover have "fills_published x i es + may_book m' x i \<le> may_book m x i" for x i
      using R S Some c1 env by (auto simp: may_book_def res O e split: option.split)
    ultimately show ?thesis by (auto simp: accounted_def res(2) refs_marked_def)
  qed
qed

lemma em_inv_recovered:
  assumes "cp_recover ok now (make_checkpointer spec (cp_store (em_cp m)) t lev specs) = Inr cp" "em_inv m"
  shows "accounted m [] (make_manager cp g exit_run b)"
proof -
  have syn: "synced (cp_store (em_cp m)) (cp_portfolio (em_cp m))" using assms(2) by (simp add: em_inv_def)
  then have acc: "load_account (cp_store (em_cp m)) = Some (pj_account (cp_portfolio (em_cp m)))"
    by (simp add: synced_def)
  have "account_of_spec spec (pj_account (cp_portfolio (em_cp m)))"
    using assms(1) by (auto simp: cp_recover_def recover_def acc make_checkpointer_def refuse_disagreement_def
      make_portfolio_def account_of_spec_def bind_res_eq_Inr split: if_splits)
  from recover_synced_store [OF syn this refl, of ok now t lev specs] assms(1)
  have cp: "cp_synced {} cp" "cp_store cp = cp_store (em_cp m)"
    and rows: "\<And>c. cached_order (cp_cache cp) c = row_of m c" by auto
  have cc: "ch_orders (cp_cache cp) = dict_of (map (\<lambda>od. (o_cloid od, od)) (all_orders (cp_store (em_cp m))))"
    using assms(1) by (auto simp: cp_recover_def recover_def acc make_checkpointer_def bind_res_eq_Inr rebuild_cache_def)
  have sound: "saga_sound (make_manager cp g exit_run b) c" for c
  proof -
    have s: "saga_sound m c" using assms(2) by (simp add: em_inv_def)
    have frame: "o_cloid od0 = o_cloid od \<and> o_strategy_id od0 = o_strategy_id od" if "ahead_of od0 od" for od0 od
      using that by (auto simp: ahead_of_def dest!: apply_event_frame)
    show ?thesis
      using s frame by (auto simp: saga_sound_def make_manager_def rows cp(2) split: option.splits)
  qed
  have inv: "em_inv (make_manager cp g exit_run b)"
    using cp(1) sound by (auto simp: em_inv_def make_manager_def cp_synced_def cc)
  have kept: "may_book (make_manager cp g exit_run b) c (fill_event_id c x) \<le> may_book m c (fill_event_id c x)" for c x
  proof -
    have s: "saga_sound m c" using assms(2) by (simp add: em_inv_def)
    have "fill_event_id c x \<in> o_applied_event_ids od0"
      if "ahead_of od0 od" "fill_event_id c x \<in> o_applied_event_ids od" "o_cloid od = c" for od0 od
    proof -
      from that(1) obtain e where e: "event_fill e = None" "ev_cloid (env e) = o_cloid od0"
        "apply_event od0 e = Inr (True, od)" by (auto simp: ahead_of_def)
      have "o_cloid od0 = c" using apply_event_frame [OF e(3)] that(3) by simp
      then have "event_id e \<noteq> fill_event_id c x"
        using e(1,2) state_value_not_fill by (simp add: event_id_def fill_event_id_def)
      with apply_event_True [OF e(3)] that(2) show ?thesis by auto
    qed
    with s show ?thesis
      by (auto simp: may_book_def saga_sound_def make_manager_def rows split: option.splits)
  qed
  have "may_place (make_manager cp g exit_run b) c \<le> may_place m c" for c
  proof -
    have "saga_sound m c" using assms(2) by (simp add: em_inv_def)
    then show ?thesis by (auto simp: may_place_def make_manager_def rows saga_sound_def split: option.splits)
  qed
  with inv kept show ?thesis by (simp add: accounted_def)
qed

lemma em_step_accounted:
  assumes "em_step dg m es m'" "em_inv m"
  shows "accounted m es m'"
  using assms
proof (induction rule: em_step.induct)
  case (signal ok nm nr created ts now m sg m' es)
  show ?case
  proof (cases sg)
    case (PlaceSignal s)
    with signal place_intent_accounted [of dg ok nm nr created ts now m s m' es] show ?thesis
      by (auto simp: on_signal_def signal_ok_def)
  next
    case (CancelSignal st sy n target)
    with signal cancel_order_spec show ?thesis by (fastforce simp: on_signal_def intro: quiet_accounted)
  next
    case (CancelAllSignal st sy n)
    with signal cancel_all_spec show ?thesis by (fastforce simp: on_signal_def intro: quiet_accounted)
  qed
next
  case (send c m now m' es)
  then show ?case by (intro place_send_accounted)
next
  case (sent c m ok ts m' es)
  then show ?case using place_sent_accounted by blast
next
  case (report ok now ts m r m' es)
  then show ?case
    using fill_accounted apply_status_quiet by (fastforce simp: on_execution_report_def intro: quiet_accounted split: execution_report.splits)
next
  case (operator ok now ts m resting m' es)
  then show ?case using cancel_for_operator_spec by (blast intro: quiet_accounted)
next
  case (leftover ok ts m sy cp)
  then show ?case
    by (intro quiet_accounted quiet_ledger checkpoint_leftover_orders)
      (auto intro: checkpoint_leftover_synced em_inv_synced)
next
  case (heal ok ts m fills cash snapshot cp change)
  then show ?case
    by (intro quiet_accounted quiet_ledger checkpoint_heal_orders)
      (auto intro: checkpoint_heal_synced em_inv_synced)
next
  case (funding ok ts m a cp)
  then show ?case
    by (intro quiet_accounted quiet_ledger checkpoint_funding_orders)
      (auto intro: checkpoint_funding_synced em_inv_synced)
next
  case (barrier m)
  have same: "same_sagas m (barrier_has_cleared m)" by (simp add: same_sagas_def barrier_has_cleared_def)
  have "em_inv (barrier_has_cleared m)"
    by (rule same_sagas_inv [OF same barrier]) (use barrier in \<open>simp add: em_inv_def barrier_has_cleared_def\<close>)
  then show ?case using same_sagas_grows [OF same] by (intro quiet_accounted) (simp add: quiet_def)
next
  case (crash ok now spec m t lev specs cp g exit_run b)
  then show ?case by (intro em_inv_recovered)
qed

lemma em_run_accounted: "em_run dg m es m' \<Longrightarrow> em_inv m \<Longrightarrow> accounted m es m'"
proof (induction rule: em_run.induct)
  case (start m)
  then show ?case by (simp add: quiet_accounted)
next
  case (more m es m1 es' m2)
  then have a: "accounted m es m1" and b: "accounted m1 es' m2"
    using em_step_accounted by (auto simp: accounted_def)
  show ?case
    unfolding accounted_def
  proof (intro conjI allI)
    show "em_inv m2" using b by (simp add: accounted_def)
    fix c t
    show "placed c (es @ es') + may_place m2 c \<le> may_place m c"
      using a b by (auto simp: accounted_def dest!: spec [of _ c])
    show "fills_published c (fill_event_id c t) (es @ es') + may_book m2 c (fill_event_id c t) \<le> may_book m c (fill_event_id c t)"
      using a b unfolding accounted_def counts_append by (metis add.assoc add_left_mono order_trans)
  qed
qed

section \<open>Where the sends and the cancels come from\<close>

lemma em_step_effects:
  assumes "em_step dg m es m'" "em_inv m"
  shows "(\<forall>po. Placing po \<in> set es \<longrightarrow> (\<exists>od. row_of m (ot_cloid (po_terms po)) = Some od \<and> place_order_of od = Inr po))
    \<and> refs_marked m' es"
  using assms
proof (induction rule: em_step.induct)
  case (signal ok nm nr created ts now m sg m' es)
  show ?case
  proof (cases sg)
    case (PlaceSignal s)
    with signal place_intent_accounted [of dg ok nm nr created ts now m s m' es] show ?thesis
      by (auto simp: on_signal_def signal_ok_def)
  next
    case (CancelSignal st sy n target)
    with signal cancel_order_spec [of dg ok now ts m "signal_id_of sg" target m' es] show ?thesis
      by (auto simp: on_signal_def quiet_def calm_def)
  next
    case (CancelAllSignal st sy n)
    with signal cancel_all_spec [of ok now ts m st sy n m' es] show ?thesis
      by (auto simp: on_signal_def quiet_def calm_def refs_marked_def marked_row_def)
  qed
next
  case (send c m now m' es)
  from send(2,3,1) show ?case
  proof (cases rule: place_send_cases)
    case (1 od od1 po)
    then show ?thesis using place_order_of_cloid [OF 1(8)] by (auto simp: refs_marked_def)
  qed
next
  case (sent c m ok ts m' es)
  then have "es = []" using place_sent_accounted by blast
  then show ?case by (simp add: refs_marked_def)
next
  case (report ok now ts m r m' es)
  show ?case
  proof (cases r)
    case (Filled f)
    with report fill_accounted show ?thesis by (fastforce simp: on_execution_report_def)
  next
    case (Status q)
    with report(1) have "apply_status ok now ts m q = Inr (m', es)" by (simp add: on_execution_report_def)
    then have "calm es \<and> (\<forall>rs. Cancelling rs \<notin> set es)"
      using apply_status_quiet [OF _ report(2)]
      by (auto simp: quiet_def apply_status_def bind_res_eq_Inr split: option.splits if_splits)
    then show ?thesis by (auto simp: calm_def refs_marked_def)
  qed
next
  case (operator ok now ts m resting m' es)
  then show ?case using cancel_for_operator_spec by (fastforce simp: quiet_def calm_def)
qed (simp_all add: refs_marked_def)

lemma first_em_inv:
  assumes "declares_genesis spec" "cp_recover ok now (make_checkpointer spec empty_store t lev specs) = Inr cp0"
  shows "em_inv (make_manager cp0 g exit_run b)"
proof -
  note first = first_recover(1) [OF assms]
  have "get_order (cp_store cp0) c = None \<and> cached_order (cp_cache cp0) c = None" for c
  proof -
    have "cp_store cp0 = write_ledger empty_store (open_account spec t) [] None None now"
      using assms by (auto simp: cp_recover_def recover_def refuse_disagreement_def load_account_def empty_store_def
        make_checkpointer_def seed_genesis_def make_portfolio_def checkpoint_ledger_def transaction_def has_orders_def
        bind_res_eq_Inr split: if_splits)
    then have "get_order (cp_store cp0) c = None"
      by (simp add: write_ledger_orders) (simp add: get_order_def empty_store_def)
    with first show ?thesis by (auto simp: cp_synced_def cache_agrees_off_def)
  qed
  moreover have "dict_ok (ch_orders (cp_cache cp0))"
    using assms by (auto simp: cp_recover_def bind_res_eq_Inr rebuild_cache_def)
  ultimately show ?thesis
    using first by (simp add: em_inv_def make_manager_def saga_sound_def cp_synced_def)
qed

section \<open>A life of the demo account\<close>

definition demo_digest :: "string \<Rightarrow> string" where
  "demo_digest s = s"

definition demo_cloid :: "string" where
  "demo_cloid = derive_cloid demo_digest (signal_id_of (PlaceSignal demo_place))"

definition demo_report :: "fill_report" where
  "demo_report = \<lparr>fr_ts_event = 12, fr_ts_init = 12, fr_cloid = demo_cloid, fr_symbol = ''BTC'', fr_trade_id = ''t1'',
     fr_quantity = 3, fr_price = 100, fr_fee = 1, fr_reconciliation = False\<rparr>"

text \<open>The intent, then the send; the fill arrives while the send is under way, and once more.\<close>

definition demo_begun :: "(manager \<times> effect list) res" where
  "demo_begun = bind_res (cp_recover True 5 demo_start) (\<lambda>cp0.
     on_signal demo_digest True 6 6 6 7 8 (make_manager cp0 None False True) (PlaceSignal demo_place))"

definition demo_sent :: "(manager \<times> effect list) res" where
  "demo_sent = bind_res demo_begun (\<lambda>(m, es). place_send 9 m demo_cloid)"

definition demo_filled :: "(manager \<times> effect list) res" where
  "demo_filled = bind_res demo_sent (\<lambda>(m, es). on_execution_report True 13 14 m (Filled demo_report))"

definition demo_refilled :: "(manager \<times> effect list) res" where
  "demo_refilled = bind_res demo_filled (\<lambda>(m, es). on_execution_report True 15 16 m (Filled demo_report))"

definition demo_cancelled :: "(manager \<times> effect list) res" where
  "demo_cancelled = bind_res demo_sent (\<lambda>(m, es). cancel_for_operator True 13 14 m
     [Inl \<lparr>vo_cloid = demo_cloid, vo_symbol = ''BTC'', vo_venue_oid = None\<rparr>])"

lemma demo_begun_runs: "case demo_begun of Inr (m, es) \<Rightarrow> demo_cloid \<in> set (em_intents m) | Inl _ \<Rightarrow> False"
  by code_simp

lemma demo_sent_runs: "case demo_sent of Inr (m, es) \<Rightarrow> placed demo_cloid es = 1 | Inl _ \<Rightarrow> False"
  by code_simp

lemma demo_filled_runs:
  "case demo_filled of Inr (m, es) \<Rightarrow> fills_published demo_cloid (fill_event_id demo_cloid ''t1'') es = 1 | Inl _ \<Rightarrow> False"
  by code_simp

lemma demo_refilled_runs: "case demo_refilled of Inr (m, es) \<Rightarrow> es = [] | Inl _ \<Rightarrow> False"
  by code_simp

fun sole_ref :: "effect list \<Rightarrow> order_ref option" where
  "sole_ref [Cancelling [SagaRef r]] = Some r"
| "sole_ref es = None"

lemma sole_ref_Some: "sole_ref es = Some r \<Longrightarrow> es = [Cancelling [SagaRef r]]"
  by (cases es rule: sole_ref.cases) auto

lemma demo_cancelled_runs:
  "case demo_cancelled of Inr (m, es) \<Rightarrow> map_option or_cloid (sole_ref es) = Some demo_cloid
     \<and> get_order (cp_store (em_cp m)) demo_cloid \<noteq> None | Inl _ \<Rightarrow> False"
  by code_simp

text \<open>The demo life, as steps of the relation.\<close>

lemma demo_steps:
  obtains cp0 m1 es1 m2 es2 m3 es3 m4 m5 r od where "cp_recover True 5 demo_start = Inr cp0"
    "em_run demo_digest (make_manager cp0 None False True) es1 m1"
    "em_step demo_digest m1 es2 m2" "placed demo_cloid es2 = 1"
    "em_step demo_digest m2 es3 m3" "fills_published demo_cloid (fill_event_id demo_cloid ''t1'') es3 = 1"
    "em_step demo_digest m3 [] m4"
    "em_step demo_digest m2 [Cancelling [SagaRef r]] m5" "or_cloid r = demo_cloid"
    "get_order (cp_store (em_cp m5)) demo_cloid = Some od"
proof -
  obtain m1 es1 where b: "demo_begun = Inr (m1, es1)" "demo_cloid \<in> set (em_intents m1)"
    using demo_begun_runs by (auto split: sum.splits)
  obtain m2 es2 where s: "demo_sent = Inr (m2, es2)" "placed demo_cloid es2 = 1"
    using demo_sent_runs by (auto split: sum.splits)
  obtain m3 es3 where f: "demo_filled = Inr (m3, es3)"
    "fills_published demo_cloid (fill_event_id demo_cloid ''t1'') es3 = 1"
    using demo_filled_runs by (auto split: sum.splits)
  obtain m4 where f': "demo_refilled = Inr (m4, [])"
    using demo_refilled_runs by (auto split: sum.splits)
  obtain m5 r where c: "demo_cancelled = Inr (m5, [Cancelling [SagaRef r]])" "or_cloid r = demo_cloid"
    "get_order (cp_store (em_cp m5)) demo_cloid \<noteq> None"
    using demo_cancelled_runs by (auto split: sum.splits dest!: sole_ref_Some)
  from b(1) obtain cp0 where cp0: "cp_recover True 5 demo_start = Inr cp0" and
    sg: "on_signal demo_digest True 6 6 6 7 8 (make_manager cp0 None False True) (PlaceSignal demo_place) = Inr (m1, es1)"
    by (auto simp: demo_begun_def bind_res_eq_Inr)
  have "em_step demo_digest (make_manager cp0 None False True) es1 m1"
    by (rule em_step.signal [OF sg]) (simp add: signal_ok_def demo_place_def UNATTRIBUTED_def)
  then have run: "em_run demo_digest (make_manager cp0 None False True) es1 m1"
    using em_run.more [OF _ em_run.start] by fastforce
  have snd: "place_send 9 m1 demo_cloid = Inr (m2, es2)" using s(1) by (simp add: demo_sent_def b(1))
  have fil: "on_execution_report True 13 14 m2 (Filled demo_report) = Inr (m3, es3)"
    using f(1) by (simp add: demo_filled_def s(1))
  have again: "on_execution_report True 15 16 m3 (Filled demo_report) = Inr (m4, [])"
    using f' by (simp add: demo_refilled_def f(1))
  have can: "cancel_for_operator True 13 14 m2 [Inl \<lparr>vo_cloid = demo_cloid, vo_symbol = ''BTC'', vo_venue_oid = None\<rparr>] =
      Inr (m5, [Cancelling [SagaRef r]])"
    using c(1) by (simp add: demo_cancelled_def s(1))
  from c(3) obtain od where "get_order (cp_store (em_cp m5)) demo_cloid = Some od" by auto
  then show thesis
    using that [OF cp0 run em_step.send [OF b(2) snd] s(2) em_step.report [OF fil] f(2) em_step.report [OF again]
      em_step.operator [OF can] c(2)] by blast
qed

lemma demo_genesis: "declares_genesis demo_account_spec"
  by (simp add: declares_genesis_def demo_account_spec_def)

lemma em_run_snoc: "em_run dg m es m' \<Longrightarrow> em_step dg m' es' m'' \<Longrightarrow> em_run dg m (es @ es') m''"
proof (induction rule: em_run.induct)
  case (start m)
  then show ?case using em_run.more [OF _ em_run.start] by fastforce
next
  case (more m es m1 es1 m2)
  then show ?case using em_run.more by fastforce
qed

section \<open>The properties\<close>

text \<open>
  C1. An order is sent at most once in the whole life of an engine. Start on an empty store
  and run any interleaving of signals, reports, operator cancels, ledger verbs, returning sends
  and crashes, each followed by a recovery from the store: the exchange is asked to place a
  given client id at most once.
\<close>

theorem place_at_most_once:
  assumes "declares_genesis spec"
    and "cp_recover ok now (make_checkpointer spec empty_store t lev specs) = Inr cp0"
    and "em_run dg (make_manager cp0 g exit_run b) es m"
  shows "placed c es \<le> 1"
proof -
  from em_run_accounted [OF assms(3) first_em_inv [OF assms(1,2)]]
  have "placed c es + may_place m c \<le> may_place (make_manager cp0 g exit_run b) c" by (simp add: accounted_def)
  also have "\<dots> \<le> 1" by (simp add: may_place_def)
  finally show ?thesis by simp
qed

theorem place_at_most_once_witness:
  "\<exists>cp0 es m. cp_recover True 5 demo_start = Inr cp0 \<and> em_run demo_digest (make_manager cp0 None False True) es m
     \<and> placed demo_cloid es \<le> 1 \<and> 1 \<le> placed demo_cloid es"
proof -
  obtain cp0 m1 es1 m2 es2 where cp0: "cp_recover True 5 demo_start = Inr cp0"
    and run: "em_run demo_digest (make_manager cp0 None False True) es1 m1"
    and st: "em_step demo_digest m1 es2 m2" and one: "placed demo_cloid es2 = 1" by (rule demo_steps) blast
  note r2 = em_run_snoc [OF run st]
  from place_at_most_once [OF demo_genesis cp0 [unfolded demo_start_def] r2] one cp0 r2 show ?thesis by fastforce
qed



text \<open>
  C5. Write-ahead: whenever a step of a run hands an order to the exchange, the store already
  held, before that step, a row of the order that asks for exactly that placement.
\<close>

theorem place_is_write_ahead:
  assumes "declares_genesis spec"
    and "cp_recover ok now (make_checkpointer spec empty_store t lev specs) = Inr cp0"
    and "em_run dg (make_manager cp0 g exit_run b) es m" and "em_step dg m es' m'" and "Placing po \<in> set es'"
  shows "\<exists>od. get_order (cp_store (em_cp m)) (ot_cloid (po_terms po)) = Some od \<and> place_order_of od = Inr po"
proof -
  have "em_inv m" using em_run_accounted [OF assms(3) first_em_inv [OF assms(1,2)]] by (simp add: accounted_def)
  from em_step_effects [OF assms(4) this] assms(5) show ?thesis by blast
qed

theorem place_is_write_ahead_witness:
  "\<exists>cp0 es1 m1 es2 m2 po od. cp_recover True 5 demo_start = Inr cp0
     \<and> em_run demo_digest (make_manager cp0 None False True) es1 m1 \<and> em_step demo_digest m1 es2 m2
     \<and> Placing po \<in> set es2 \<and> get_order (cp_store (em_cp m1)) (ot_cloid (po_terms po)) = Some od"
proof -
  obtain cp0 m1 es1 m2 es2 where cp0: "cp_recover True 5 demo_start = Inr cp0"
    and run: "em_run demo_digest (make_manager cp0 None False True) es1 m1"
    and st: "em_step demo_digest m1 es2 m2" and one: "placed demo_cloid es2 = 1" by (rule demo_steps) blast
  have "\<exists>po. Placing po \<in> set es" if "placed c es = 1" for c es
    using that by (induction c es rule: placed.induct) auto
  with one obtain po where po: "Placing po \<in> set es2" by blast
  from place_is_write_ahead [OF demo_genesis cp0 [unfolded demo_start_def] run st po] cp0 run st po
  show ?thesis by blast
qed

text \<open>
  A cancel is durable before it is sent: when a step of a run asks the exchange to cancel
  an order that has a row, that row carries the cancel request or is already terminal.
\<close>

theorem cancel_is_durable:
  assumes "declares_genesis spec"
    and "cp_recover ok now (make_checkpointer spec empty_store t lev specs) = Inr cp0"
    and "em_run dg (make_manager cp0 g exit_run b) es m" and "em_step dg m es' m'"
    and "Cancelling rs \<in> set es'" and "SagaRef r \<in> set rs"
    and "get_order (cp_store (em_cp m')) (or_cloid r) = Some od"
  shows "o_cancel_requested od \<or> is_terminal od"
proof -
  have "em_inv m" using em_run_accounted [OF assms(3) first_em_inv [OF assms(1,2)]] by (simp add: accounted_def)
  from em_step_effects [OF assms(4) this] assms(5-7) show ?thesis by (auto simp: refs_marked_def marked_row_def)
qed

theorem cancel_is_durable_witness:
  "\<exists>cp0 es1 m1 r m2 od. cp_recover True 5 demo_start = Inr cp0
     \<and> em_run demo_digest (make_manager cp0 None False True) es1 m1
     \<and> em_step demo_digest m1 [Cancelling [SagaRef r]] m2
     \<and> get_order (cp_store (em_cp m2)) (or_cloid r) = Some od \<and> (o_cancel_requested od \<or> is_terminal od)"
proof -
  obtain cp0 m1 es1 m2 es2 m5 r od where cp0: "cp_recover True 5 demo_start = Inr cp0"
    and run: "em_run demo_digest (make_manager cp0 None False True) es1 m1"
    and st: "em_step demo_digest m1 es2 m2" and ca: "em_step demo_digest m2 [Cancelling [SagaRef r]] m5"
    and r: "or_cloid r = demo_cloid" "get_order (cp_store (em_cp m5)) demo_cloid = Some od" by (rule demo_steps) blast
  note r2 = em_run_snoc [OF run st]
  have row: "get_order (cp_store (em_cp m5)) (or_cloid r) = Some od" using r by simp
  have "o_cancel_requested od \<or> is_terminal od"
    by (rule cancel_is_durable [OF demo_genesis cp0 [unfolded demo_start_def] r2 ca
      list.set_intros(1) list.set_intros(1) row])
  with cp0 r2 ca row show ?thesis by blast
qed

text \<open>
  C4. Memory and store stay one: in every state of a run the account and every partition in
  memory are what the store holds, and once no send is under way so is every order.
\<close>

theorem engine_memory_is_store:
  assumes "declares_genesis spec"
    and "cp_recover ok now (make_checkpointer spec empty_store t lev specs) = Inr cp0"
    and "em_run dg (make_manager cp0 g exit_run b) es m"
  shows "cp_synced (set (em_sending m)) (em_cp m)"
proof -
  have "em_inv m" using em_run_accounted [OF assms(3) first_em_inv [OF assms(1,2)]] by (simp add: accounted_def)
  then show ?thesis by (rule em_inv_synced)
qed

theorem engine_memory_is_store_witness:
  "\<exists>cp0 es m. cp_recover True 5 demo_start = Inr cp0 \<and> em_run demo_digest (make_manager cp0 None False True) es m
     \<and> 1 \<le> placed demo_cloid es \<and> cp_synced (set (em_sending m)) (em_cp m)"
proof -
  obtain cp0 m1 es1 m2 es2 where cp0: "cp_recover True 5 demo_start = Inr cp0"
    and run: "em_run demo_digest (make_manager cp0 None False True) es1 m1"
    and st: "em_step demo_digest m1 es2 m2" and one: "placed demo_cloid es2 = 1" by (rule demo_steps) blast
  note r2 = em_run_snoc [OF run st]
  from engine_memory_is_store [OF demo_genesis cp0 [unfolded demo_start_def] r2] one cp0 r2 show ?thesis by fastforce
qed

end
