(* ===== verification/TW_Reconcile.thy ===== *)
theory TW_Reconcile
  imports TW_Saga_Runs
begin

text \<open>
  Reconciliation of orders against the venue: the absence trackers of
  \<open>src/src/tickwright/engine/absence.py\<close>, the ghost gate of \<open>engine/ghost_gate.py\<close> and the
  \<open>Reconciler\<close> of \<open>engine/reconcile.py\<close>. A venue read is the argument \<open>fetch\<close>: it answers with
  a view or a failure and leaves the engine as the tasks that ran during the await left it.
  Publishing a report is the argument \<open>pub\<close>; with the in-memory bus it is
  \<open>on_execution_report\<close>. \<open>clk c n\<close> is the clock reading taken for order \<open>c\<close> at the site \<open>n\<close>.
\<close>

section \<open>Absence\<close>

text \<open>\<open>ConsecutiveMisses\<close> and \<open>GraceWindow\<close>; a key without an entry has no run.\<close>

definition forget :: "string \<Rightarrow> (string, int) dict \<Rightarrow> (string, int) dict" where
  "forget k d = AList.delete k d"

definition miss_absent :: "int \<Rightarrow> string \<Rightarrow> (string, int) dict \<Rightarrow> bool \<times> (string, int) dict" where
  "miss_absent limit k d =
     (let misses = dget d k 0 + 1
      in if misses < limit then (False, AList.update k misses d) else (True, AList.delete k d))"

definition grace_absent :: "int \<Rightarrow> string \<Rightarrow> int \<Rightarrow> (string, int) dict \<Rightarrow> bool \<times> (string, int) dict" where
  "grace_absent w k now d =
     (let d1 = (case map_of d k of None \<Rightarrow> AList.update k now d | Some _ \<Rightarrow> d)
      in if w \<le> now - dget d1 k now then (True, AList.delete k d1) else (False, d1))"

section \<open>The ghost gate\<close>

datatype ghost_verdict = PROTECTED | WAITING | GHOST

definition gate_evaluate ::
  "int \<Rightarrow> int \<Rightarrow> string \<Rightarrow> int \<Rightarrow> int option \<Rightarrow> (string, int) dict \<Rightarrow> ghost_verdict \<times> (string, int) dict" where
  "gate_evaluate grace protection k now last_event d =
     (if (case last_event of None \<Rightarrow> False | Some t \<Rightarrow> now - t < protection) then (PROTECTED, forget k d)
      else (case grace_absent grace k now d of
              (True, d') \<Rightarrow> (GHOST, d') | (False, d') \<Rightarrow> (WAITING, d')))"

section \<open>Configuration\<close>

text \<open>\<open>duration_ns\<close>; the seconds are an exact number here.\<close>

definition duration_ns :: "rat \<Rightarrow> int res" where
  "duration_ns seconds = (let ns = seconds * 1000000000 in if 1 \<le> ns then Inr \<lfloor>ns\<rfloor> else Inl ValueError)"

record reconcile_config =
  rf_inflight_interval :: rat
  rf_inflight_max_attempts :: int
  rf_open_order_interval :: rat
  rf_account_interval :: rat
  rf_ghost_grace :: rat
  rf_recent_protection :: rat
  rf_unreadable_grace :: rat

definition check_reconcile_config :: "reconcile_config \<Rightarrow> reconcile_config res" where
  "check_reconcile_config c =
     bind_res (traverse duration_ns [rf_inflight_interval c, rf_open_order_interval c, rf_account_interval c,
       rf_ghost_grace c, rf_recent_protection c, rf_unreadable_grace c]) (\<lambda>_.
       if rf_inflight_max_attempts c \<le> 0 then Inl ValueError
       else if rf_ghost_grace c \<le> rf_inflight_interval c * of_int (rf_inflight_max_attempts c) then Inl ValueError
       else if rf_ghost_grace c \<le> rf_recent_protection c then Inl ValueError
       else Inr c)"

section \<open>The reconciler\<close>

record reconciler =
  rn_limit :: int
  rn_unreadable_span :: int
  rn_grace_span :: int
  rn_protection_span :: int
  rn_misses :: "(string, int) dict"
  rn_unreadable :: "(string, int) dict"
  rn_ghost :: "(string, int) dict"

definition make_reconciler :: "reconcile_config \<Rightarrow> reconciler res" where
  "make_reconciler c =
     bind_res (duration_ns (rf_unreadable_grace c)) (\<lambda>u.
     bind_res (duration_ns (rf_ghost_grace c)) (\<lambda>g.
     bind_res (duration_ns (rf_recent_protection c)) (\<lambda>p.
       Inr \<lparr>rn_limit = rf_inflight_max_attempts c, rn_unreadable_span = u, rn_grace_span = g,
         rn_protection_span = p, rn_misses = [], rn_unreadable = [], rn_ghost = []\<rparr>)))"

datatype pass_result = PROVED | PASS_FAILED | RATE_LIMITED

type_synonym pass_state = "reconciler \<times> manager \<times> effect list"
type_synonym publish = "execution_report \<Rightarrow> manager \<Rightarrow> (manager \<times> effect list) res"
type_synonym fetch = "order_ref \<Rightarrow> manager \<Rightarrow> ((venue_read_failure + venue_order_view) \<times> manager \<times> effect list) res"

definition post :: "publish \<Rightarrow> execution_report \<Rightarrow> pass_state \<Rightarrow> pass_state res" where
  "post pub r st = (case st of (rc, m, es) \<Rightarrow> bind_res (pub r m) (\<lambda>(m', es'). Inr (rc, m', es @ es')))"

definition verdict :: "int \<Rightarrow> order \<Rightarrow> order_state \<Rightarrow> string \<Rightarrow> execution_report" where
  "verdict now od status why = Status
     \<lparr>sr_ts_event = now, sr_ts_init = now, sr_cloid = o_cloid od, sr_symbol = o_symbol od, sr_status = status,
      sr_venue_oid = None, sr_reason = Some (''reconciliation: '' @ why), sr_reconciliation = True\<rparr>"

definition failed_verdict :: "int \<Rightarrow> order \<Rightarrow> execution_report" where
  "failed_verdict now od = verdict now od FAILED ''venue has no record of this cloid''"

definition submitted_bridge :: "int \<Rightarrow> order \<Rightarrow> execution_report" where
  "submitted_bridge now od = verdict now od SUBMITTED ''venue record proves the send landed''"

text \<open>What a ghost resolves to, and why.\<close>

definition ghost_resolution :: "order \<Rightarrow> order_state \<times> string" where
  "ghost_resolution od =
     (if o_cancel_requested od then (CANCELLED, ''ghost: vanished after a requested cancel'')
      else if o_state od = PARTIALLY_FILLED then (CANCELLED, ''ghost: vanished with fills preserved'')
      else (REJECTED, ''ghost: vanished from the venue''))"

definition resolve_ghost :: "publish \<Rightarrow> int \<Rightarrow> order \<Rightarrow> pass_state \<Rightarrow> pass_state res" where
  "resolve_ghost pub now od st = post pub (verdict now od (fst (ghost_resolution od)) (snd (ghost_resolution od))) st"

definition judge_ghost :: "publish \<Rightarrow> (string \<Rightarrow> nat \<Rightarrow> int) \<Rightarrow> order \<Rightarrow> pass_state \<Rightarrow> pass_state res" where
  "judge_ghost pub clk od st = (case st of (rc, m, es) \<Rightarrow>
     (case gate_evaluate (rn_grace_span rc) (rn_protection_span rc) (o_cloid od) (clk (o_cloid od) 0)
             (last_event_ts (cp_cache (em_cp m)) (o_cloid od)) (rn_ghost rc) of
        (v, d) \<Rightarrow>
          let st' = (rc\<lparr>rn_ghost := d\<rparr>, m, es)
          in if v = GHOST then resolve_ghost pub (clk (o_cloid od) 1) od st' else Inr st'))"

definition ghost_present :: "string \<Rightarrow> pass_state \<Rightarrow> pass_state" where
  "ghost_present c st = (case st of (rc, m, es) \<Rightarrow> (rc\<lparr>rn_ghost := forget c (rn_ghost rc)\<rparr>, m, es))"

fun heal_fills :: "publish \<Rightarrow> fill_report list \<Rightarrow> pass_state \<Rightarrow> pass_state res" where
  "heal_fills pub [] st = Inr st"
| "heal_fills pub (f # fs) st =
     bind_res (post pub (Filled (f\<lparr>fr_reconciliation := True\<rparr>)) st) (\<lambda>st'. heal_fills pub fs st')"

text \<open>The saga object a coroutine holds is the one in the cache.\<close>

definition live_order :: "pass_state \<Rightarrow> order \<Rightarrow> order" where
  "live_order st od = (case st of (rc, m, es) \<Rightarrow>
     (case saga_of m (o_cloid od) of None \<Rightarrow> od | Some x \<Rightarrow> x))"

definition adopt_facts ::
  "publish \<Rightarrow> (string \<Rightarrow> nat \<Rightarrow> int) \<Rightarrow> order \<Rightarrow> venue_order_view \<Rightarrow> pass_state \<Rightarrow> pass_state res" where
  "adopt_facts pub clk od view st =
     bind_res (if o_state od = PENDING then post pub (submitted_bridge (clk (o_cloid od) 2) od) st else Inr st) (\<lambda>st1.
     bind_res (heal_fills pub (vv_fills view) st1) (\<lambda>st2.
       case vv_status view of
         None \<Rightarrow>
           if working_state (o_state (live_order st2 od)) then judge_ghost pub clk (live_order st2 od) st2
           else Inr (ghost_present (o_cloid od) st2)
       | Some s \<Rightarrow>
           if sr_status s = LIVE \<and> vv_fills view \<noteq> [] then Inr st2
           else post pub (Status (s\<lparr>sr_reconciliation := True\<rparr>)) st2))"

definition adopt ::
  "publish \<Rightarrow> (string \<Rightarrow> nat \<Rightarrow> int) \<Rightarrow> order \<Rightarrow> venue_order_view \<Rightarrow> pass_state \<Rightarrow> pass_state res" where
  "adopt pub clk od view st =
     (case vv_status view of
        Some _ \<Rightarrow> adopt_facts pub clk od view (ghost_present (o_cloid od) st)
      | None \<Rightarrow>
          if vv_fills view = [] \<and> \<not> working_state (o_state od)
          then post pub (failed_verdict (clk (o_cloid od) 1) od) st
          else adopt_facts pub clk od view st)"

definition resolve_inflight ::
  "publish \<Rightarrow> (string \<Rightarrow> nat \<Rightarrow> int) \<Rightarrow> order \<Rightarrow> venue_order_view \<Rightarrow> pass_state \<Rightarrow> pass_state res" where
  "resolve_inflight pub clk od view st = (case st of (rc, m, es) \<Rightarrow>
     if has_record view then adopt pub clk od view (rc\<lparr>rn_misses := forget (o_cloid od) (rn_misses rc)\<rparr>, m, es)
     else (case miss_absent (rn_limit rc) (o_cloid od) (rn_misses rc) of
             (fired, d) \<Rightarrow>
               if fired then post pub (failed_verdict (clk (o_cloid od) 1) od) (rc\<lparr>rn_misses := d\<rparr>, m, es)
               else Inr (rc\<lparr>rn_misses := d\<rparr>, m, es)))"

definition charge_unreadable :: "int \<Rightarrow> order \<Rightarrow> pass_state \<Rightarrow> pass_state res" where
  "charge_unreadable now od st = (case st of (rc, m, es) \<Rightarrow>
     (case grace_absent (rn_unreadable_span rc) (o_cloid od) now (rn_unreadable rc) of
        (True, d) \<Rightarrow> Inl (VenueReadUnresolvable (o_cloid od))
      | (False, d) \<Rightarrow> Inr (rc\<lparr>rn_unreadable := d\<rparr>, m, es)))"

text \<open>\<open>_drive\<close>: the worklist is fixed when the pass starts; each order is looked at as it is then.\<close>

fun drive_loop ::
  "fetch \<Rightarrow> (string \<Rightarrow> nat \<Rightarrow> int) \<Rightarrow> order_state list option \<Rightarrow>
    (order \<Rightarrow> venue_order_view \<Rightarrow> pass_state \<Rightarrow> pass_state res) \<Rightarrow> order list \<Rightarrow> bool \<Rightarrow> pass_state \<Rightarrow>
    (pass_state \<times> pass_result) res" where
  "drive_loop fetch clk states handle [] proved st = Inr (st, if proved then PROVED else PASS_FAILED)"
| "drive_loop fetch clk states handle (od0 # ods) proved st =
     (let od = live_order st od0
      in if (case states of None \<Rightarrow> False | Some ss \<Rightarrow> o_state od \<notin> set ss)
         then drive_loop fetch clk states handle ods proved st
         else case st of (rc, m, es) \<Rightarrow>
           bind_res (fetch (order_ref_of od) m) (\<lambda>(answer, m1, es1).
             let st1 = (rc, m1, es @ es1)
             in case answer of
                  Inl SEND_FAILED \<Rightarrow> Inr (st1, PASS_FAILED)
                | Inl RATE_LIMITED_IP \<Rightarrow> Inr (st1, RATE_LIMITED)
                | Inl UNREADABLE_BODY \<Rightarrow>
                    bind_res (charge_unreadable (clk (o_cloid od) 0) od st1) (\<lambda>st2.
                      drive_loop fetch clk states handle ods False st2)
                | Inr view \<Rightarrow>
                    bind_res (handle (live_order st1 od) view
                        (rc\<lparr>rn_unreadable := forget (o_cloid od) (rn_unreadable rc)\<rparr>, m1, es @ es1)) (\<lambda>st2.
                      drive_loop fetch clk states handle ods proved st2)))"

definition drive ::
  "fetch \<Rightarrow> (string \<Rightarrow> nat \<Rightarrow> int) \<Rightarrow> order_state list option \<Rightarrow>
    (order \<Rightarrow> venue_order_view \<Rightarrow> pass_state \<Rightarrow> pass_state res) \<Rightarrow> reconciler \<Rightarrow> manager \<Rightarrow>
    (pass_state \<times> pass_result) res" where
  "drive fetch clk states handle rc m =
     drive_loop fetch clk states handle (open_orders (cp_cache (em_cp m)) None None) True (rc, m, [])"

definition reconcile_startup ::
  "fetch \<Rightarrow> publish \<Rightarrow> (string \<Rightarrow> nat \<Rightarrow> int) \<Rightarrow> reconciler \<Rightarrow> manager \<Rightarrow> (pass_state \<times> bool) res" where
  "reconcile_startup fetch pub clk rc m =
     bind_res (drive fetch clk None (adopt pub clk) rc m) (\<lambda>(st, r). Inr (st, r = PROVED))"

definition reconcile_inflight ::
  "fetch \<Rightarrow> publish \<Rightarrow> (string \<Rightarrow> nat \<Rightarrow> int) \<Rightarrow> reconciler \<Rightarrow> manager \<Rightarrow> (pass_state \<times> pass_result) res" where
  "reconcile_inflight fetch pub clk rc m =
     drive fetch clk (Some [SUBMITTED]) (resolve_inflight pub clk) rc m"

definition reconcile_open_orders ::
  "fetch \<Rightarrow> publish \<Rightarrow> (string \<Rightarrow> nat \<Rightarrow> int) \<Rightarrow> reconciler \<Rightarrow> manager \<Rightarrow> (pass_state \<times> pass_result) res" where
  "reconcile_open_orders fetch pub clk rc m =
     drive fetch clk (Some [LIVE, PARTIALLY_FILLED]) (adopt pub clk) rc m"

section \<open>Only continuous absence fires\<close>

text \<open>
  The history of one tracker: a key was seen, or was missing at a time, with the time of its
  order's last event where the gate asks for it.
\<close>

datatype sighting = Seen string | Missing string int "int option"

definition recent :: "int \<Rightarrow> int \<Rightarrow> int option \<Rightarrow> bool" where
  "recent protection now last_event \<longleftrightarrow> (case last_event of None \<Rightarrow> False | Some t \<Rightarrow> now - t < protection)"

fun gate_step :: "int \<Rightarrow> int \<Rightarrow> sighting \<Rightarrow> (string, int) dict \<Rightarrow> (string, int) dict" where
  "gate_step g p (Seen k) d = forget k d"
| "gate_step g p (Missing k now le) d = snd (gate_evaluate g p k now le d)"

definition gate_run :: "int \<Rightarrow> int \<Rightarrow> sighting list \<Rightarrow> (string, int) dict" where
  "gate_run g p h = foldl (\<lambda>d x. gate_step g p x d) [] h"

text \<open>An absence of the key that no later sighting or protected reading interrupts.\<close>

definition absent_since :: "int \<Rightarrow> string \<Rightarrow> int \<Rightarrow> sighting list \<Rightarrow> bool" where
  "absent_since p k t h \<longleftrightarrow> (\<exists>h1 le h2. h = h1 @ Missing k t le # h2 \<and> Seen k \<notin> set h2
     \<and> (\<forall>t' le'. Missing k t' le' \<in> set (Missing k t le # h2) \<longrightarrow> \<not> recent p t' le'))"

lemma forget_lookup [simp]: "map_of (forget k d) x = (if x = k then None else map_of d x)"
  by (simp add: forget_def)

lemma gate_evaluate_cases:
  "gate_evaluate g p k now le d =
    (if recent p now le then (PROTECTED, forget k d)
     else case map_of d k of
       None \<Rightarrow> if g \<le> 0 then (GHOST, forget k (AList.update k now d)) else (WAITING, AList.update k now d)
     | Some t \<Rightarrow> if g \<le> now - t then (GHOST, forget k d) else (WAITING, d))"
  by (auto simp: gate_evaluate_def recent_def grace_absent_def Let_def dget_def forget_def split: option.split)

lemma absent_since_snoc:
  "absent_since p k t h \<Longrightarrow> (case x of Seen k' \<Rightarrow> k' \<noteq> k | Missing k' t' le \<Rightarrow> k' = k \<longrightarrow> \<not> recent p t' le) \<Longrightarrow>
    absent_since p k t (h @ [x])"
  unfolding absent_since_def
proof (elim exE conjE)
  fix h1 le h2
  assume h: "h = h1 @ Missing k t le # h2" "Seen k \<notin> set h2"
    "\<forall>t' le'. Missing k t' le' \<in> set (Missing k t le # h2) \<longrightarrow> \<not> recent p t' le'"
    and x: "case x of Seen k' \<Rightarrow> k' \<noteq> k | Missing k' t' le \<Rightarrow> k' = k \<longrightarrow> \<not> recent p t' le"
  show "\<exists>h1 le h2. h @ [x] = h1 @ Missing k t le # h2 \<and> Seen k \<notin> set h2
     \<and> (\<forall>t' le'. Missing k t' le' \<in> set (Missing k t le # h2) \<longrightarrow> \<not> recent p t' le')"
    by (rule exI [of _ h1], rule exI [of _ le], rule exI [of _ "h2 @ [x]"])
      (use h x in \<open>auto split: sighting.splits\<close>)
qed

lemma gate_run_entry: "map_of (gate_run g p h) k = Some t \<Longrightarrow> absent_since p k t h"
proof (induction h arbitrary: t rule: rev_induct)
  case Nil
  then show ?case by (simp add: gate_run_def)
next
  case (snoc x h)
  define d where "d = gate_run g p h"
  have look: "map_of (gate_step g p x d) k = Some t" using snoc.prems by (simp add: gate_run_def d_def)
  have new: "absent_since p k t (h @ [Missing k t le])" if "\<not> recent p t le" for le
    unfolding absent_since_def by (rule exI [of _ h], rule exI [of _ le], rule exI [of _ "[]"]) (use that in auto)
  show ?case
  proof (cases x)
    case (Seen k')
    with look have "map_of d k = Some t" "k' \<noteq> k" by (auto split: if_splits)
    then show ?thesis using snoc.IH [folded d_def] by (intro absent_since_snoc) (auto simp: Seen d_def)
  next
    case (Missing k' now le)
    show ?thesis
    proof (cases "k' = k \<and> map_of d k = None")
      case True
      with look have "t = now" "\<not> recent p now le" by (auto simp: Missing gate_evaluate_cases split: if_splits)
      with True new show ?thesis by (simp add: Missing)
    next
      case False
      with look have "map_of d k = Some t" "k' = k \<longrightarrow> \<not> recent p now le"
        by (auto simp: Missing gate_evaluate_cases split: if_splits option.splits)
      then show ?thesis using snoc.IH by (intro absent_since_snoc) (auto simp: Missing d_def)
    qed
  qed
qed

text \<open>
  C38. No order is judged a ghost early. Whatever the gate has seen, a GHOST verdict at a time
  means the order was already missing at least the grace span earlier, and between that reading
  and this one it was never seen and never fresher than the protection window.
\<close>

theorem ghost_needs_continuous_absence:
  assumes "0 < grace" and "gate_evaluate grace protection k now last_event (gate_run grace protection h) = (GHOST, d)"
  shows "\<exists>t. absent_since protection k t h \<and> grace \<le> now - t \<and> \<not> recent protection now last_event"
  using assms gate_run_entry [of grace protection h k]
  by (auto simp: gate_evaluate_cases split: if_splits option.splits)

theorem ghost_needs_continuous_absence_witness:
  "\<exists>t. absent_since 30 ''c'' t [Seen ''c'', Missing ''c'' 0 None, Missing ''c'' 60 (Some 0)] \<and> 90 \<le> 95 - t
    \<and> \<not> recent 30 95 (Some 0)"
proof (rule ghost_needs_continuous_absence [of 90 30 "''c''" 95 "Some 0" _ "[]"])
  show "(0 :: int) < 90" by simp
  show "gate_evaluate 90 30 ''c'' 95 (Some 0) (gate_run 90 30 [Seen ''c'', Missing ''c'' 0 None, Missing ''c'' 60 (Some 0)])
      = (GHOST, [])" by code_simp
qed

text \<open>Without a positive span the first missing reading fires at once.\<close>

lemma one_reading_fires_without_span: "w \<le> 0 \<Longrightarrow> map_of d k = None \<Longrightarrow> fst (grace_absent w k now d)"
  by (simp add: grace_absent_def dget_def Let_def)

text \<open>The in-flight budget: how often a key was missed in a row.\<close>

fun miss_step :: "int \<Rightarrow> sighting \<Rightarrow> (string, int) dict \<Rightarrow> (string, int) dict" where
  "miss_step n (Seen k) d = forget k d"
| "miss_step n (Missing k now le) d = snd (miss_absent n k d)"

definition miss_run :: "int \<Rightarrow> sighting list \<Rightarrow> (string, int) dict" where
  "miss_run n h = foldl (\<lambda>d x. miss_step n x d) [] h"

fun misses_of :: "string \<Rightarrow> sighting list \<Rightarrow> int" where
  "misses_of k [] = 0"
| "misses_of k (Missing k' t le # h) = (if k' = k then 1 else 0) + misses_of k h"
| "misses_of k (Seen k' # h) = misses_of k h"

lemma misses_of_append [simp]: "misses_of k (h @ h') = misses_of k h + misses_of k h'"
  by (induction k h rule: misses_of.induct) auto

definition missed_in_a_row :: "string \<Rightarrow> int \<Rightarrow> sighting list \<Rightarrow> bool" where
  "missed_in_a_row k n h \<longleftrightarrow> (\<exists>h1 h2. h = h1 @ h2 \<and> Seen k \<notin> set h2 \<and> misses_of k h2 = n)"

lemma miss_run_entry:
  assumes "0 < n"
  shows "missed_in_a_row k (dget (miss_run n h) k 0) h \<and> dget (miss_run n h) k 0 < n"
proof (induction h rule: rev_induct)
  case Nil
  then show ?case using assms by (auto simp: miss_run_def missed_in_a_row_def)
next
  case (snoc x h)
  define d where "d = miss_run n h"
  from snoc obtain h1 h2 where h: "h = h1 @ h2" "Seen k \<notin> set h2" "misses_of k h2 = dget d k 0" and lt: "dget d k 0 < n"
    by (auto simp: missed_in_a_row_def d_def)
  have step: "miss_run n (h @ [x]) = miss_step n x d" by (simp add: miss_run_def d_def)
  have zero: "missed_in_a_row k 0 (h @ [x])"
    unfolding missed_in_a_row_def by (rule exI [of _ "h @ [x]"], rule exI [of _ "[]"]) simp
  have grow: "missed_in_a_row k (dget d k 0 + misses_of k [x]) (h @ [x])" if "x \<noteq> Seen k"
    unfolding missed_in_a_row_def
    by (rule exI [of _ h1], rule exI [of _ "h2 @ [x]"]) (use h that in simp)
  have "missed_in_a_row k (dget (miss_step n x d) k 0) (h @ [x]) \<and> dget (miss_step n x d) k 0 < n"
  proof (cases x)
    case (Seen k')
    then show ?thesis
      using zero grow lt assms by (cases "k' = k") (simp_all add: dget_def)
  next
    case (Missing k' now le)
    then show ?thesis
      using zero grow lt assms
      by (cases "k' = k") (simp_all add: miss_absent_def Let_def dget_def)
  qed
  then show ?case by (simp only: step)
qed

text \<open>
  An in-flight order is given up only after the whole retry budget: when the budget fires,
  the reading is the last of exactly that many misses of the order with no sighting in between.
\<close>

theorem inflight_budget_spent:
  assumes "0 < limit" and "miss_absent limit k (miss_run limit h) = (True, d)"
  shows "missed_in_a_row k (limit - 1) h"
proof -
  have "dget (miss_run limit h) k 0 = limit - 1"
    using miss_run_entry [OF assms(1), of k h] assms(2) by (simp add: miss_absent_def Let_def split: if_splits)
  then show ?thesis using miss_run_entry [OF assms(1), of k h] by simp
qed

theorem inflight_budget_spent_witness:
  "missed_in_a_row ''c'' (3 - 1) [Missing ''c'' 0 None, Seen ''c'', Missing ''c'' 5 None, Missing ''c'' 10 None]"
proof (rule inflight_budget_spent [of 3 "''c''" _ "[]"])
  show "(0 :: int) < 3" by simp
  show "miss_absent 3 ''c'' (miss_run 3 [Missing ''c'' 0 None, Seen ''c'', Missing ''c'' 5 None, Missing ''c'' 10 None])
      = (True, [])" by code_simp
qed


section \<open>A verdict always lands\<close>

text \<open>A dedup key of a state is recorded only by a saga that has been in that state.\<close>

definition status_key :: "string \<Rightarrow> order_state \<Rightarrow> string" where
  "status_key c s = c @ '':'' @ state_value s"

definition keys_behind :: "order \<Rightarrow> bool" where
  "keys_behind od \<longleftrightarrow> (\<forall>s. status_key (o_cloid od) s \<in> o_applied_event_ids od \<longrightarrow> legal\<^sup>*\<^sup>* s (o_state od))"

lemma status_key_simps [simp]:
  "status_key c s = status_key c t \<longleftrightarrow> s = t"
  "status_key c s \<noteq> fill_event_id c i"
  using state_value_not_fill [of s i] by (auto simp: status_key_def fill_event_id_def)

lemma apply_event_behind:
  assumes "apply_event od e = Inr (b, od')" "keys_behind od"
    and "event_fill e = None \<and> event_id e = status_key (o_cloid od) (event_state e)
      \<or> (\<exists>i. event_id e = fill_event_id (o_cloid od) i)"
  shows "keys_behind od'"
proof (cases b)
  case True
  have "apply_event od e = Inr (True, od')" using assms(1) True by simp
  note adv = apply_event_True [OF this] apply_event_frame [OF this]
  have "legal\<^sup>*\<^sup>* s (o_state od')" if "status_key (o_cloid od) s \<in> insert (event_id e) (o_applied_event_ids od)" for s
  proof (cases "status_key (o_cloid od) s \<in> o_applied_event_ids od")
    case True
    with assms(2) adv show ?thesis by (auto simp: keys_behind_def intro: rtranclp.rtrancl_into_rtrancl)
  next
    case False
    with that assms(3) adv show ?thesis by auto
  qed
  with adv show ?thesis by (simp add: keys_behind_def)
next
  case False
  with assms apply_event_False show ?thesis by auto
qed

lemma keys_behind_cong:
  "keys_behind od \<Longrightarrow> o_cloid od' = o_cloid od \<Longrightarrow> o_state od' = o_state od \<Longrightarrow>
    o_applied_event_ids od' = o_applied_event_ids od \<Longrightarrow> keys_behind od'"
  by (simp add: keys_behind_def)

lemma cancel_cloid:
  "request_cancel od sid ts = (b, od') \<Longrightarrow> o_cloid od' = o_cloid od"
  "request_cancel_all od sid ts = Inr (b, od') \<Longrightarrow> o_cloid od' = o_cloid od"
  "o_cloid (mark_operator_cancel od ts) = o_cloid od"
  by (auto simp: request_cancel_def request_cancel_all_def mark_operator_cancel_def
      bind_res_eq_Inr split: if_splits)

lemma saga_step_behind:
  assumes "saga_step od od'" "keys_behind od"
  shows "keys_behind od'"
  using assms
proof (cases rule: saga_step.cases)
  case (status e b)
  have "event_id e = status_key (o_cloid od) (event_state e)" using status by (simp add: event_id_def status_key_def)
  with status show ?thesis using apply_event_behind [OF status(3) assms(2)] by blast
next
  case (fill f r)
  then obtain b where ap: "apply_event od (fill_event od f) = Inr (b, od')" by (auto simp: record_fill_eq_Inr)
  show ?thesis by (rule apply_event_behind [OF ap assms(2)]) (rule disjI2, rule exI, rule fill_event_fields)
next
  case (cancel sid ts b)
  show ?thesis by (rule keys_behind_cong [OF assms(2)]) (simp_all add: cancel_cloid(1) [OF cancel] cancel_frame(1) [OF cancel])
next
  case (cancel_all sid ts b)
  show ?thesis
    by (rule keys_behind_cong [OF assms(2)]) (simp_all add: cancel_cloid(2) [OF cancel_all] cancel_frame(2) [OF cancel_all])
next
  case (operator ts)
  show ?thesis unfolding operator by (rule keys_behind_cong [OF assms(2)]) (simp_all add: cancel_cloid cancel_frame)
qed

lemma reached_behind: "saga_step\<^sup>*\<^sup>* od od' \<Longrightarrow> fresh_order od \<Longrightarrow> keys_behind od'"
proof (induction rule: rtranclp_induct)
  case base
  then show ?case by (simp add: fresh_order_def keys_behind_def)
qed (blast intro: saga_step_behind)

lemma legal_star_terminal: "legal\<^sup>*\<^sup>* s t \<Longrightarrow> terminal s \<Longrightarrow> t = s"
  by (induction rule: rtranclp_induct) (auto simp: legal_terminal)

lemma legal_into:
  "\<not> legal s PENDING" "legal s SUBMITTED \<Longrightarrow> s = PENDING"
  by (auto simp: legal_def legal_transitions_def)

lemma legal_star_pending: "legal\<^sup>*\<^sup>* s t \<Longrightarrow> t = PENDING \<Longrightarrow> s = PENDING"
  by (induction rule: rtranclp_induct) (auto simp: legal_into)

lemma legal_star_submitted: "legal\<^sup>*\<^sup>* s t \<Longrightarrow> t = SUBMITTED \<Longrightarrow> s = PENDING \<or> s = SUBMITTED"
  by (induction rule: rtranclp_induct) (auto dest: legal_into(2) legal_star_pending)

text \<open>A state event the transition table allows is never taken for a redelivery.\<close>

lemma event_lands:
  assumes "keys_behind od" "event_fill e = None" "ev_cloid (env e) = o_cloid od" "legal (o_state od) (event_state e)"
  shows "\<exists>od'. apply_event od e = Inr (True, od') \<and> o_state od' = event_state e"
proof -
  have "event_id e = status_key (o_cloid od) (event_state e)" using assms(2,3) by (simp add: event_id_def status_key_def)
  moreover have "\<not> legal\<^sup>*\<^sup>* (event_state e) (o_state od)"
    using assms(4) event_no_fill_state [OF assms(2)]
    by (cases "o_state od")
      (auto simp: legal_simps legal_terminal dest: legal_star_terminal legal_star_pending legal_star_submitted)
  ultimately have "event_id e \<notin> o_applied_event_ids od" using assms(1) by (auto simp: keys_behind_def)
  with assms(4) show ?thesis by (simp add: apply_event_def)
qed

text \<open>The state a reconciler means to bring an order to.\<close>

definition minted_verdict :: "int \<Rightarrow> order \<Rightarrow> execution_report \<Rightarrow> order_state \<Rightarrow> bool" where
  "minted_verdict now od r s \<longleftrightarrow>
     o_state od = PENDING \<and> r = submitted_bridge now od \<and> s = SUBMITTED
   \<or> o_state od \<in> {PENDING, SUBMITTED} \<and> r = failed_verdict now od \<and> s = FAILED
   \<or> working_state (o_state od)
     \<and> r = verdict now od (fst (ghost_resolution od)) (snd (ghost_resolution od)) \<and> s = fst (ghost_resolution od)"

lemma minted_event:
  assumes "minted_verdict now od r s"
  shows "\<exists>q e. r = Status q \<and> sr_cloid q = o_cloid od \<and> status_event od q now' = Some e
    \<and> event_fill e = None \<and> ev_cloid (env e) = o_cloid od \<and> event_state e = s \<and> legal (o_state od) s"
  using assms unfolding minted_verdict_def
proof (elim disjE conjE)
  assume "r = verdict now od (fst (ghost_resolution od)) (snd (ghost_resolution od))" "working_state (o_state od)"
    "s = fst (ghost_resolution od)"
  then show ?thesis
    by (cases "o_cancel_requested od"; cases "o_state od")
      (simp_all add: verdict_def status_event_def ghost_resolution_def saga_env_def working_state_def legal_simps)
qed (auto simp: submitted_bridge_def failed_verdict_def verdict_def status_event_def saga_env_def legal_simps)



definition demo_ghost :: "order" where
  "demo_ghost = order_for demo_digest demo_place 3 6"

definition demo_engine :: "manager" where
  "demo_engine = touch (make_manager demo_start None False True) demo_ghost"


end
