(* ===== verification/TW_Ledger_Reconcile.thy ===== *)
theory TW_Ledger_Reconcile
  imports TW_Reconcile
begin

text \<open>
  Reconciliation of the ledger against the venue's account,
  \<open>src/src/tickwright/engine/ledger_reconcile.py\<close>: what disagrees (\<open>Divergence\<close>), which
  disagreements an operator hears of (the band, the stale marks, the Tier-1 explanations),
  which are healed and how (\<open>ReconcileFindings.classify\<close>), and the cycle that reads, writes and
  records (\<open>LedgerReconciliation\<close>). The two venue reads are arguments: \<open>fetch\<close> and \<open>verify\<close>
  answer and leave the engine as the tasks that ran during the await left it. A \<open>frozenset\<close> of
  symbols is a list in the rows' order; the decimal sums over it are taken in that order.
\<close>

section \<open>Divergences\<close>

datatype divergence_tier = TIER_1 | TIER_2

datatype divergence_field =
    NET_CASH
  | SIGNED_SIZE
  | EQUITY
  | FREE_MARGIN
  | UNREALIZED_PNL
  | NOTIONAL
  | MARGIN_USED
  | MAINTENANCE_MARGIN

record divergence =
  dv_tier :: divergence_tier
  dv_field :: divergence_field
  dv_symbol :: "string option"
  dv_ledger :: decimal
  dv_venue :: decimal

record valuation_band =
  vb_atol :: decimal
  vb_rtol :: decimal
  vb_mark_max_age :: rat

definition default_band :: valuation_band where
  "default_band = \<lparr>vb_atol = 1 / 100, vb_rtol = 1 / 1000, vb_mark_max_age = 60\<rparr>"

definition check_band :: "valuation_band \<Rightarrow> valuation_band res" where
  "check_band b = bind_res (duration_ns (vb_mark_max_age b)) (\<lambda>_. Inr b)"

definition band_stale :: "valuation_band \<Rightarrow> int \<Rightarrow> bool res" where
  "band_stale b age = bind_res (duration_ns (vb_mark_max_age b)) (\<lambda>most. Inr (most < age))"

definition band_covers :: "valuation_band \<Rightarrow> divergence \<Rightarrow> decimal option \<Rightarrow> bool" where
  "band_covers b d reference =
     (let floor_of = (case reference of None \<Rightarrow> vb_atol b
            | Some r \<Rightarrow> max (vb_atol b) (dmul (vb_rtol b) (dabs r)))
      in dabs (dsub (dv_ledger d) (dv_venue d)) \<le> floor_of)"

record size_heal =
  sh_divergence :: divergence
  sh_fill :: recon_fill

record cash_heal =
  ch_divergence :: divergence
  ch_correction :: cash_correction

text \<open>\<open>_Finding\<close>: the key one pass recognises the previous pass's finding by.\<close>

type_synonym finding = "divergence_field \<times> string option \<times> decimal"

definition finding_of :: "divergence \<Rightarrow> finding" where
  "finding_of d = (dv_field d, dv_symbol d, dsub (dv_venue d) (dv_ledger d))"

section \<open>What a finding rests on\<close>

definition tier_1_grains :: "divergence list \<Rightarrow> string option list" where
  "tier_1_grains ds = map dv_symbol (filter (\<lambda>d. dv_tier d = TIER_1) ds)"

definition stale_symbols :: "ledger_reading \<Rightarrow> int \<Rightarrow> valuation_band \<Rightarrow> string list res" where
  "stale_symbols r now b =
     bind_res (traverse (\<lambda>(sy, ts).
         if reading_holds r sy then bind_res (band_stale b (now - ts)) (\<lambda>old. Inr (if old then [sy] else []))
         else Inr []) (lr_mark_observed r))
       (\<lambda>groups. Inr (concat groups))"

definition counted :: "ledger_reading \<Rightarrow> string \<Rightarrow> divergence_field \<Rightarrow> bool" where
  "counted r sy fld =
     (if fld \<noteq> MAINTENANCE_MARGIN then True
      else case map_of (lr_rows r) sy of None \<Rightarrow> False | Some row \<Rightarrow> sv_margin_mode row = Cross)"

definition terms_of :: "ledger_reading \<Rightarrow> divergence_field \<Rightarrow> string option \<Rightarrow> string list" where
  "terms_of r fld who = (case who of Some sy \<Rightarrow> [sy]
     | None \<Rightarrow> filter (\<lambda>sy. reading_holds r sy \<and> counted r sy fld) (map fst (lr_rows r)))"

fun sum_from :: "decimal \<Rightarrow> decimal option list \<Rightarrow> decimal option" where
  "sum_from acc [] = Some acc"
| "sum_from acc (None # figures) = None"
| "sum_from acc (Some x # figures) = sum_from (dadd acc x) figures"

definition sum_known :: "decimal option list \<Rightarrow> decimal option" where
  "sum_known figures = sum_from 0 figures"

text \<open>\<open>reading.rows[symbol]\<close>, and the figures of several rows.\<close>

definition reading_row :: "ledger_reading \<Rightarrow> string \<Rightarrow> symbol_valuation res" where
  "reading_row r sy = (case map_of (lr_rows r) sy of None \<Rightarrow> Inl KeyError | Some row \<Rightarrow> Inr row)"

definition sum_rows :: "ledger_reading \<Rightarrow> (symbol_valuation \<Rightarrow> decimal option) \<Rightarrow> string list \<Rightarrow> decimal option res" where
  "sum_rows r figure names =
     bind_res (traverse (reading_row r) names) (\<lambda>rows. Inr (sum_known (map figure rows)))"

definition rests_on_stale :: "divergence \<Rightarrow> string list \<Rightarrow> ledger_reading \<Rightarrow> bool" where
  "rests_on_stale d stale r \<longleftrightarrow> list_ex (\<lambda>sy. sy \<in> set stale) (terms_of r (dv_field d) (dv_symbol d))"

definition explained_by_tier_1 :: "divergence \<Rightarrow> string option list \<Rightarrow> ledger_reading \<Rightarrow> bool" where
  "explained_by_tier_1 d explained r =
     (if dv_symbol d \<in> set explained then True
      else if dv_symbol d \<noteq> None then False
      else list_ex (\<lambda>e. case e of None \<Rightarrow> False | Some sy \<Rightarrow> counted r sy (dv_field d)) explained)"

definition cross_maintenance :: "ledger_reading \<Rightarrow> decimal option res" where
  "cross_maintenance r = sum_rows r sv_maintenance_margin (terms_of r MAINTENANCE_MARGIN None)"

definition reference_of :: "divergence \<Rightarrow> ledger_reading \<Rightarrow> decimal option res" where
  "reference_of d r =
     (case dv_symbol d of
        Some sy \<Rightarrow> bind_res (reading_row r sy) (\<lambda>row.
          case sv_notional row of
            None \<Rightarrow> Inr None
          | Some n \<Rightarrow>
              if dv_field d \<noteq> MARGIN_USED then Inr (Some n)
              else if sv_margin_mode row = Isolated then Inr (Some n)
              else bind_res (ddiv n (of_int (sv_leverage row))) (\<lambda>x. Inr (Some x)))
      | None \<Rightarrow>
          if dv_field d = MAINTENANCE_MARGIN then cross_maintenance r
          else sum_rows r sv_notional (terms_of r (dv_field d) None))"

section \<open>The comparisons\<close>

text \<open>
  \<open>_net_cash\<close>: the ledger's cash less the basis of its positions, with the venue's own basis
  where the sizes differ, compared at the venue's cash unit.
\<close>

definition venue_basis :: "venue_account_state \<Rightarrow> (string, decimal) dict" where
  "venue_basis v = dict_of (map (\<lambda>p. (vp_symbol p, vp_cost_basis p)) (va_positions v))"

definition diverged_symbols :: "divergence list \<Rightarrow> string list" where
  "diverged_symbols ds = concat (map (\<lambda>d. case dv_symbol d of None \<Rightarrow> [] | Some sy \<Rightarrow> [sy]) ds)"

definition basis_at :: "venue_account_state \<Rightarrow> string \<Rightarrow> decimal res" where
  "basis_at v sy = (case map_of (venue_basis v) sy of None \<Rightarrow> Inl KeyError | Some x \<Rightarrow> Inr x)"

definition ledger_net_cash :: "venue_account_state \<Rightarrow> ledger_reading \<Rightarrow> string list \<Rightarrow> decimal res" where
  "ledger_net_cash v r diverged =
     (let held = dsub (av_cash (lr_account r))
            (dsum (map (\<lambda>(sy, row). if sy \<in> set diverged then dget (venue_basis v) sy 0 else sv_cost_basis row)
              (lr_rows r)))
      in bind_res (traverse (basis_at v) (filter (\<lambda>sy. sy \<notin> set (map fst (lr_rows r))) diverged)) (\<lambda>new.
        Inr (dsub held (dsum new))))"

definition net_cash_findings :: "venue_account_state \<Rightarrow> ledger_reading \<Rightarrow> divergence list \<Rightarrow> divergence list res" where
  "net_cash_findings v r size_findings =
     bind_res (ledger_net_cash v r (diverged_symbols size_findings)) (\<lambda>mine.
     bind_res (quantize mine (adjusted (va_cash_quantum v)) ROUND_HALF_EVEN) (\<lambda>a.
     bind_res (quantize (venue_net_cash v) (adjusted (va_cash_quantum v)) ROUND_HALF_EVEN) (\<lambda>b.
       Inr (if a = b then []
            else [\<lparr>dv_tier = TIER_1, dv_field = NET_CASH, dv_symbol = None,
                   dv_ledger = mine, dv_venue = venue_net_cash v\<rparr>]))))"

text \<open>\<open>_net_diff\<close>: every symbol of either side, sorted, whose sizes differ.\<close>

definition net_diff :: "(string, decimal) dict \<Rightarrow> (string, decimal) dict \<Rightarrow> (string \<times> decimal \<times> decimal) list" where
  "net_diff left right =
     filter (\<lambda>(sy, a, b). a \<noteq> b)
       (map (\<lambda>sy. (sy, dget left sy 0, dget right sy 0)) (str_sort (remdups (map fst left @ map fst right))))"

definition reading_net :: "ledger_reading \<Rightarrow> (string, decimal) dict" where
  "reading_net r = map (\<lambda>(sy, row). (sy, sv_net row)) (lr_rows r)"

definition size_findings_of :: "venue_account_state \<Rightarrow> ledger_reading \<Rightarrow> divergence list" where
  "size_findings_of v r =
     map (\<lambda>(sy, held, seen). \<lparr>dv_tier = TIER_1, dv_field = SIGNED_SIZE, dv_symbol = Some sy,
            dv_ledger = held, dv_venue = seen\<rparr>)
       (net_diff (reading_net r) (dict_of (map (\<lambda>p. (vp_symbol p, vp_signed_size p)) (va_positions v))))"

text \<open>\<open>_ACCOUNT_GRAIN\<close> and \<open>_PER_SYMBOL\<close>: the figures compared, each with its two readers.\<close>

definition ACCOUNT_GRAIN ::
  "(divergence_field \<times> (ledger_reading \<Rightarrow> decimal option res) \<times> (venue_account_state \<Rightarrow> decimal)) list" where
  "ACCOUNT_GRAIN =
     [(EQUITY, \<lambda>r. Inr (av_equity (lr_account r)), va_equity),
      (FREE_MARGIN, \<lambda>r. Inr (av_free_margin (lr_account r)), va_free_margin),
      (MAINTENANCE_MARGIN, cross_maintenance, va_cross_maintenance_margin)]"

definition PER_SYMBOL ::
  "(divergence_field \<times> (symbol_valuation \<Rightarrow> decimal option) \<times> (venue_position_state \<Rightarrow> decimal)) list" where
  "PER_SYMBOL =
     [(UNREALIZED_PNL, sv_unrealized_pnl, vp_unrealized_pnl),
      (NOTIONAL, sv_notional, vp_notional),
      (MARGIN_USED, sv_margin_used, vp_margin_used)]"

definition account_grain ::
  "venue_account_state \<Rightarrow> ledger_reading \<Rightarrow>
    divergence_field \<times> (ledger_reading \<Rightarrow> decimal option res) \<times> (venue_account_state \<Rightarrow> decimal) \<Rightarrow>
    divergence list res" where
  "account_grain v r compared =
     (case compared of (fld, ours, theirs) \<Rightarrow>
        bind_res (ours r) (\<lambda>mine. Inr (case mine of
            None \<Rightarrow> []
          | Some x \<Rightarrow> if x = theirs v then []
              else [\<lparr>dv_tier = TIER_2, dv_field = fld, dv_symbol = None, dv_ledger = x, dv_venue = theirs v\<rparr>])))"

definition figure_finding ::
  "ledger_reading \<Rightarrow>
    divergence_field \<times> (symbol_valuation \<Rightarrow> decimal option) \<times> (venue_position_state \<Rightarrow> decimal) \<Rightarrow>
    venue_position_state \<Rightarrow> divergence list res" where
  "figure_finding r compared p =
     (if \<not> reading_holds r (vp_symbol p) then Inr []
      else case compared of (fld, ours, theirs) \<Rightarrow>
        bind_res (reading_row r (vp_symbol p)) (\<lambda>row. Inr (case ours row of
            None \<Rightarrow> []
          | Some x \<Rightarrow> if x = theirs p then []
              else [\<lparr>dv_tier = TIER_2, dv_field = fld, dv_symbol = Some (vp_symbol p),
                     dv_ledger = x, dv_venue = theirs p\<rparr>])))"

definition per_symbol ::
  "venue_account_state \<Rightarrow> ledger_reading \<Rightarrow>
    divergence_field \<times> (symbol_valuation \<Rightarrow> decimal option) \<times> (venue_position_state \<Rightarrow> decimal) \<Rightarrow>
    divergence list res" where
  "per_symbol v r compared =
     bind_res (traverse (figure_finding r compared)
         (sort_by (\<lambda>p q. str_le (vp_symbol p) (vp_symbol q)) (va_positions v)))
       (\<lambda>groups. Inr (concat groups))"

definition unvalued :: "venue_account_state \<Rightarrow> ledger_reading \<Rightarrow> nat res" where
  "unvalued v r =
     bind_res (traverse (\<lambda>p.
         if \<not> reading_holds r (vp_symbol p) then Inr 0
         else bind_res (reading_row r (vp_symbol p)) (\<lambda>row.
           Inr (length (filter (\<lambda>(_, ours, _). ours row = None) PER_SYMBOL)))) (va_positions v)) (\<lambda>marks.
     bind_res (traverse (\<lambda>(_, ours, _). ours r) ACCOUNT_GRAIN) (\<lambda>grains.
       Inr (sum_list marks + length (filter (\<lambda>x. x = None) grains))))"


section \<open>The findings of a pass\<close>

record reconcile_findings =
  rn_divergences :: "divergence list"
  rn_alerts :: "divergence list"
  rn_suppressed :: nat
  rn_unvalued :: nat
  rn_heals :: "size_heal list"
  rn_cash :: "cash_heal option"
  rn_deferred :: nat
  rn_unconfirmed :: nat
  rn_unpriced :: nat
  rn_seen :: "finding set"

definition tier_1_count :: "reconcile_findings \<Rightarrow> nat" where
  "tier_1_count fs = length (filter (\<lambda>d. dv_tier d = TIER_1) (rn_divergences fs))"

definition tier_2_count :: "reconcile_findings \<Rightarrow> nat" where
  "tier_2_count fs = length (filter (\<lambda>d. dv_tier d = TIER_2) (rn_divergences fs))"

definition all_divergences :: "venue_account_state \<Rightarrow> ledger_reading \<Rightarrow> divergence list res" where
  "all_divergences v r =
     bind_res (net_cash_findings v r (size_findings_of v r)) (\<lambda>net.
     bind_res (traverse (account_grain v r) ACCOUNT_GRAIN) (\<lambda>grains.
     bind_res (traverse (per_symbol v r) PER_SYMBOL) (\<lambda>figures.
       Inr (net @ size_findings_of v r @ concat grains @ concat figures))))"

text \<open>The first loop of \<open>classify\<close>: the alerts, and how many a stale mark suppressed.\<close>

fun alert_loop ::
  "ledger_reading \<Rightarrow> valuation_band \<Rightarrow> string option list \<Rightarrow> string list \<Rightarrow> divergence list \<Rightarrow>
    (divergence list \<times> nat) res" where
  "alert_loop r b explained stale [] = Inr ([], 0)"
| "alert_loop r b explained stale (d # ds) =
     bind_res (if dv_tier d \<noteq> TIER_2 \<or> explained_by_tier_1 d explained r then Inr True
               else bind_res (reference_of d r) (\<lambda>reference. Inr (band_covers b d reference))) (\<lambda>quiet.
     bind_res (alert_loop r b explained stale ds) (\<lambda>(alerts, suppressed).
       Inr (if quiet then (alerts, suppressed)
            else if rests_on_stale d stale r then (alerts, suppressed + 1)
            else (d # alerts, suppressed))))"

text \<open>The second loop: what becomes of each Tier-1 finding.\<close>

record heal_plan =
  hp_heals :: "size_heal list"
  hp_cash_findings :: "divergence list"
  hp_deferred :: nat
  hp_unpriced :: nat
  hp_unconfirmed :: nat
  hp_forget :: "finding set"

definition empty_plan :: heal_plan where
  "empty_plan = \<lparr>hp_heals = [], hp_cash_findings = [], hp_deferred = 0, hp_unpriced = 0,
     hp_unconfirmed = 0, hp_forget = {}\<rparr>"

definition entry_prices :: "venue_account_state \<Rightarrow> (string, decimal option) dict" where
  "entry_prices v = dict_of (map (\<lambda>p. (vp_symbol p, vp_entry_price p)) (va_positions v))"

definition size_heal_of :: "divergence \<Rightarrow> string \<Rightarrow> decimal \<Rightarrow> int \<Rightarrow> size_heal" where
  "size_heal_of d sy price now =
     (let delta = dsub (dv_venue d) (dv_ledger d)
      in \<lparr>sh_divergence = d,
          sh_fill = \<lparr>rc_symbol = sy, rc_side = (if 0 < delta then BUY else SELL), rc_quantity = dabs delta,
            rc_price = price, rc_ts_ns = now\<rparr>\<rparr>)"

definition plan_step ::
  "string list \<Rightarrow> finding set \<Rightarrow> (string, decimal option) dict \<Rightarrow> int \<Rightarrow> heal_plan \<Rightarrow> divergence \<Rightarrow> heal_plan" where
  "plan_step filled previous prices now plan d =
     (if dv_tier d \<noteq> TIER_1 then plan
      else if dv_field d = NET_CASH then plan\<lparr>hp_cash_findings := hp_cash_findings plan @ [d]\<rparr>
      else if dv_symbol d \<in> Some ` set filled then
        plan\<lparr>hp_deferred := hp_deferred plan + 1, hp_forget := insert (finding_of d) (hp_forget plan)\<rparr>
      else if finding_of d \<notin> previous then plan\<lparr>hp_unconfirmed := hp_unconfirmed plan + 1\<rparr>
      else case dv_symbol d of
        None \<Rightarrow> plan\<lparr>hp_unpriced := hp_unpriced plan + 1\<rparr>
      | Some sy \<Rightarrow>
          (case dget prices sy None of
             None \<Rightarrow> plan\<lparr>hp_unpriced := hp_unpriced plan + 1\<rparr>
           | Some price \<Rightarrow> plan\<lparr>hp_heals := hp_heals plan @ [size_heal_of d sy price now],
               hp_forget := insert (finding_of d) (hp_forget plan)\<rparr>))"

text \<open>The cash finding waits for every size finding of the pass.\<close>

definition plan_cash ::
  "string list \<Rightarrow> finding set \<Rightarrow> nat \<Rightarrow> int \<Rightarrow> heal_plan \<Rightarrow> (heal_plan \<times> cash_heal option) res" where
  "plan_cash filled previous sizes_found now plan =
     (let cash = hp_cash_findings plan; n = length cash
      in if cash \<noteq> [] \<and> filled \<noteq> [] then
           Inr (plan\<lparr>hp_deferred := hp_deferred plan + n,
             hp_forget := hp_forget plan \<union> finding_of ` set cash\<rparr>, None)
         else if list_ex (\<lambda>d. finding_of d \<notin> previous) cash then
           Inr (plan\<lparr>hp_unconfirmed := hp_unconfirmed plan + n\<rparr>, None)
         else if cash \<noteq> [] \<and> length (hp_heals plan) < sizes_found then
           Inr (if hp_unpriced plan \<noteq> 0 then plan\<lparr>hp_unpriced := hp_unpriced plan + n\<rparr>
                else plan\<lparr>hp_deferred := hp_deferred plan + n\<rparr>, None)
         else case cash of
           [] \<Rightarrow> Inr (plan, None)
         | [d] \<Rightarrow> Inr (plan\<lparr>hp_forget := insert (finding_of d) (hp_forget plan)\<rparr>,
             Some \<lparr>ch_divergence = d, ch_correction = \<lparr>cc_net_cash = dv_venue d, cc_ts_ns = now\<rparr>\<rparr>)
         | _ \<Rightarrow> Inl ValueError)"

definition seen_of :: "divergence list \<Rightarrow> finding set \<Rightarrow> finding set" where
  "seen_of ds gone = set (filter (\<lambda>f. f \<notin> gone) (map finding_of (filter (\<lambda>d. dv_tier d = TIER_1) ds)))"

definition classify ::
  "venue_account_state \<Rightarrow> ledger_reading \<Rightarrow> valuation_band \<Rightarrow> int \<Rightarrow> int \<Rightarrow> finding set \<Rightarrow>
    reconcile_findings res" where
  "classify v r b now fills_before previous =
     bind_res (all_divergences v r) (\<lambda>ds.
     bind_res (stale_symbols r now b) (\<lambda>stale.
     bind_res (alert_loop r b (tier_1_grains ds) stale ds) (\<lambda>(alerts, suppressed).
       let filled = filled_since r fills_before;
           plan = foldl (plan_step filled previous (entry_prices v) now) empty_plan ds
       in bind_res (plan_cash filled previous (length (size_findings_of v r)) now plan) (\<lambda>(plan', cash).
          bind_res (unvalued v r) (\<lambda>dropped.
            Inr \<lparr>rn_divergences = ds, rn_alerts = alerts, rn_suppressed = suppressed,
              rn_unvalued = dropped, rn_heals = hp_heals plan', rn_cash = cash,
              rn_deferred = hp_deferred plan', rn_unconfirmed = hp_unconfirmed plan',
              rn_unpriced = hp_unpriced plan', rn_seen = seen_of ds (hp_forget plan')\<rparr>)))))"

section \<open>The cycle\<close>

datatype mode_verdict = VERIFIED | MODE_CHANGED | MODE_UNREADABLE

datatype freeze_caller = BARRIER | CADENCE

record pass_counts =
  pc_tier_1 :: nat
  pc_tier_2 :: nat
  pc_unvalued :: nat
  pc_suppressed :: nat
  pc_deferred :: nat
  pc_unconfirmed :: nat
  pc_unpriced :: nat

text \<open>The named events of a cycle, in the order they are emitted.\<close>

datatype recon_note =
    AccountFrozen freeze_caller
  | ModeUnverified mode_verdict
  | Healed divergence string
  | Diverged divergence
  | LeverageDiverged string leverage_spec bool leverage_spec
  | Reconciled pass_counts

record ledger_recon =
  rl_band :: valuation_band
  rl_previous :: "finding set"

definition make_ledger_recon :: "valuation_band option \<Rightarrow> ledger_recon" where
  "make_ledger_recon b = \<lparr>rl_band = (case b of None \<Rightarrow> default_band | Some x \<Rightarrow> x), rl_previous = {}\<rparr>"

definition materialise_account ::
  "bool \<Rightarrow> int \<Rightarrow> (checkpointer \<Rightarrow> checkpointer \<times> venue_account_state option) \<Rightarrow> checkpointer \<Rightarrow>
    (checkpointer \<times> bool \<times> recon_note list) res" where
  "materialise_account ok now fetch cp =
     (if is_opened (cp_store cp) (cp_portfolio cp)
      then Inr (cp\<lparr>cp_portfolio := (cp_portfolio cp)\<lparr>pj_opened := True\<rparr>\<rparr>, True, [])
      else case fetch cp of
        (cp1, None) \<Rightarrow> Inr (cp1, False, [AccountFrozen BARRIER])
      | (cp1, Some v) \<Rightarrow>
          bind_res (materialise ok now (cp_store cp1) (cp_portfolio cp1) v) (\<lambda>(s, pj).
            Inr (cp1\<lparr>cp_store := s, cp_portfolio := pj\<rparr>, True, [])))"

definition leverage_drift :: "portfolio \<Rightarrow> venue_account_state \<Rightarrow> recon_note list" where
  "leverage_drift pj v =
     concat (map (\<lambda>p. let configured = for_symbol (pj_leverage pj) (vp_symbol p)
       in if vp_leverage p = configured then []
          else [LeverageDiverged (vp_symbol p) configured (declares (pj_leverage pj) (vp_symbol p)) (vp_leverage p)])
       (va_positions v))"

definition mode_verified ::
  "(checkpointer \<Rightarrow> checkpointer \<times> mode_verdict) \<Rightarrow> checkpointer \<Rightarrow> checkpointer \<times> bool \<times> recon_note list" where
  "mode_verified verify cp =
     (case verify cp of (cp1, vd) \<Rightarrow>
        if vd = VERIFIED then (cp1, True, []) else (cp1, False, [ModeUnverified vd]))"

definition record_heals :: "size_heal list \<Rightarrow> cash_heal option \<Rightarrow> heal_change option \<Rightarrow> recon_note list" where
  "record_heals heals cash change =
     (let kept = (case change of None \<Rightarrow> {} | Some h \<Rightarrow> hc_applied h)
      in map (\<lambda>h. Healed (sh_divergence h) (rc_event_id (sh_fill h)))
           (filter (\<lambda>h. rc_event_id (sh_fill h) \<in> kept) heals)
         @ (case cash of None \<Rightarrow> [] | Some c \<Rightarrow> [Healed (ch_divergence c) (cc_event_id (ch_correction c))]))"

definition counts_of :: "reconcile_findings \<Rightarrow> pass_counts" where
  "counts_of fs = \<lparr>pc_tier_1 = tier_1_count fs, pc_tier_2 = tier_2_count fs, pc_unvalued = rn_unvalued fs,
     pc_suppressed = rn_suppressed fs, pc_deferred = rn_deferred fs, pc_unconfirmed = rn_unconfirmed fs,
     pc_unpriced = rn_unpriced fs\<rparr>"

text \<open>The mode gate: asked only when there is a cash correction to make.\<close>

definition gate_cash ::
  "(checkpointer \<Rightarrow> checkpointer \<times> mode_verdict) \<Rightarrow> checkpointer \<Rightarrow> cash_heal option \<Rightarrow>
    checkpointer \<times> cash_heal option \<times> recon_note list" where
  "gate_cash verify cp cash =
     (case cash of None \<Rightarrow> (cp, None, [])
      | Some c \<Rightarrow> (case mode_verified verify cp of (cp1, okay, notes) \<Rightarrow>
          (cp1, if okay then Some c else None, notes)))"

definition reconcile_account ::
  "bool \<Rightarrow> int \<Rightarrow> int \<Rightarrow> (checkpointer \<Rightarrow> checkpointer \<times> venue_account_state option) \<Rightarrow>
    (checkpointer \<Rightarrow> checkpointer \<times> mode_verdict) \<Rightarrow> ledger_recon \<Rightarrow> checkpointer \<Rightarrow>
    (ledger_recon \<times> checkpointer \<times> divergence list option \<times> recon_note list) res" where
  "reconcile_account ok now ts fetch verify lr cp =
     (case fetch cp of
        (cp1, None) \<Rightarrow> Inr (lr, cp1, None, [AccountFrozen CADENCE])
      | (cp1, Some v) \<Rightarrow>
          let cp2 = cp1\<lparr>cp_portfolio := observe_venue_liquidation (cp_portfolio cp1) v\<rparr>
          in bind_res (ledger_reading_of (cp_portfolio cp2) v) (\<lambda>r.
             bind_res (classify v r (rl_band lr) now (pj_fills_applied (cp_portfolio cp)) (rl_previous lr)) (\<lambda>fs.
               case gate_cash verify cp2 (rn_cash fs) of (cp3, cash, gate_notes) \<Rightarrow>
               bind_res (checkpoint_heal ok ts cp3 (map sh_fill (rn_heals fs)) (map_option ch_correction cash)
                   (Some v)) (\<lambda>(cp4, change).
                 Inr (lr\<lparr>rl_previous := rn_seen fs\<rparr>, cp4, Some (rn_divergences fs),
                   gate_notes @ record_heals (rn_heals fs) cash change @ map Diverged (rn_alerts fs)
                   @ leverage_drift (cp_portfolio cp4) v @ [Reconciled (counts_of fs)])))))"

end
