(* ===== verification/TW_Reconcile_Runs.thy ===== *)
theory TW_Reconcile_Runs
  imports TW_Reconcile
begin

text \<open>
  What a reconciliation pass does to the engine. A pass only reads the venue and delivers
  reports, so any relation on the engine that composes, and that every report respects, holds
  across a whole pass: the locale \<open>report_host\<close>. It is interpreted on the runs of
  \<open>TW_Saga_Runs\<close>, which makes a pass part of a life of the engine, and on the effects,
  which shows that a pass sends nothing.
\<close>

section \<open>The engine as a pass sees it\<close>

definition delivers :: "publish \<Rightarrow> bool" where
  "delivers pub \<longleftrightarrow> (\<forall>r m m' es. pub r m = Inr (m', es) \<longrightarrow>
     (\<exists>ok now ts. on_execution_report ok now ts m r = Inr (m', es)))"

definition reads_within :: "(manager \<Rightarrow> effect list \<Rightarrow> manager \<Rightarrow> bool) \<Rightarrow> fetch \<Rightarrow> bool" where
  "reads_within R fetch \<longleftrightarrow> (\<forall>r m a m' es. fetch r m = Inr (a, m', es) \<longrightarrow> R m es m')"

locale report_host =
  fixes R :: "manager \<Rightarrow> effect list \<Rightarrow> manager \<Rightarrow> bool"
  assumes still: "R m [] m"
    and compose: "R m es m' \<Longrightarrow> R m' es' m'' \<Longrightarrow> R m (es @ es') m''"
    and report: "on_execution_report ok now ts m r = Inr (m', es) \<Longrightarrow> R m es m'"
begin

definition goes :: "pass_state \<Rightarrow> pass_state \<Rightarrow> bool" where
  "goes st st' \<longleftrightarrow> (\<exists>es. snd (snd st') = snd (snd st) @ es \<and> R (fst (snd st)) es (fst (snd st')))"

lemma goes_still [simp, intro]: "goes st st"
  using still by (auto simp: goes_def)

lemma goes_same: "snd st' = snd st \<Longrightarrow> goes st st'"
  using still by (auto simp: goes_def)

lemma goes_trans: "goes st st' \<Longrightarrow> goes st' st'' \<Longrightarrow> goes st st''"
  using compose by (fastforce simp: goes_def)

lemma goes_present: "goes st (ghost_present c st)"
  by (rule goes_same) (simp add: ghost_present_def split: prod.split)

lemma goes_post: "delivers pub \<Longrightarrow> post pub r st = Inr st' \<Longrightarrow> goes st st'"
  using report by (fastforce simp: post_def delivers_def goes_def bind_res_eq_Inr split: prod.splits)

lemma goes_judge:
  assumes "delivers pub" "judge_ghost pub clk od st = Inr st'"
  shows "goes st st'"
proof -
  obtain rc m es where st: "st = (rc, m, es)" by (cases st)
  obtain v d where g: "gate_evaluate (rn_grace_span rc) (rn_protection_span rc) (o_cloid od) (clk (o_cloid od) 0)
             (last_event_ts (cp_cache (em_cp m)) (o_cloid od)) (rn_ghost rc) = (v, d)" by fastforce
  have "goes st (rc\<lparr>rn_ghost := d\<rparr>, m, es)" by (rule goes_same) (simp add: st)
  moreover have "goes (rc\<lparr>rn_ghost := d\<rparr>, m, es) st'"
    using assms goes_post [OF assms(1)]
    by (cases "v = GHOST") (auto simp: judge_ghost_def st g Let_def resolve_ghost_def)
  ultimately show ?thesis by (rule goes_trans)
qed

lemma goes_heal: "delivers pub \<Longrightarrow> heal_fills pub fs st = Inr st' \<Longrightarrow> goes st st'"
proof (induction fs arbitrary: st)
  case (Cons f fs)
  then obtain st1 where "post pub (Filled (f\<lparr>fr_reconciliation := True\<rparr>)) st = Inr st1" "heal_fills pub fs st1 = Inr st'"
    by (auto simp: bind_res_eq_Inr)
  with Cons goes_post goes_trans show ?case by blast
qed simp

lemma goes_adopt_facts:
  assumes "delivers pub" "adopt_facts pub clk od view st = Inr st'"
  shows "goes st st'"
proof -
  from assms(2) obtain st1 st2 where
    1: "(if o_state od = PENDING then post pub (submitted_bridge (clk (o_cloid od) 2) od) st else Inr st) = Inr st1"
    and 2: "heal_fills pub (vv_fills view) st1 = Inr st2"
    and 3: "(case vv_status view of
         None \<Rightarrow> if working_state (o_state (live_order st2 od)) then judge_ghost pub clk (live_order st2 od) st2
           else Inr (ghost_present (o_cloid od) st2)
       | Some s \<Rightarrow> if sr_status s = LIVE \<and> vv_fills view \<noteq> [] then Inr st2
           else post pub (Status (s\<lparr>sr_reconciliation := True\<rparr>)) st2) = Inr st'"
    by (auto simp: adopt_facts_def bind_res_eq_Inr)
  have "goes st st1" using 1 goes_post [OF assms(1)] by (auto split: if_splits)
  moreover have "goes st1 st2" using 2 goes_heal [OF assms(1)] by blast
  moreover have "goes st2 st'"
  proof (cases "vv_status view")
    case None
    show ?thesis
    proof (cases "working_state (o_state (live_order st2 od))")
      case True
      with 3 None show ?thesis by (simp add: goes_judge [OF assms(1)])
    next
      case False
      with 3 None have "st' = ghost_present (o_cloid od) st2" by simp
      then show ?thesis by (simp only: goes_present)
    qed
  next
    case (Some s)
    with 3 show ?thesis
      by (cases "sr_status s = LIVE \<and> vv_fills view \<noteq> []") (simp_all add: goes_post [OF assms(1)])
  qed
  ultimately show ?thesis using goes_trans by blast
qed

lemma goes_adopt:
  assumes "delivers pub" "adopt pub clk od view st = Inr st'"
  shows "goes st st'"
proof (cases "vv_status view")
  case None
  with assms(2) show ?thesis
    by (cases "vv_fills view = [] \<and> \<not> working_state (o_state od)")
      (simp_all add: adopt_def goes_post [OF assms(1)] goes_adopt_facts [OF assms(1)])
next
  case (Some s)
  with assms(2) have "adopt_facts pub clk od view (ghost_present (o_cloid od) st) = Inr st'" by (simp add: adopt_def)
  then show ?thesis by (rule goes_trans [OF goes_present goes_adopt_facts [OF assms(1)]])
qed

lemma goes_resolve:
  assumes "delivers pub" "resolve_inflight pub clk od view st = Inr st'"
  shows "goes st st'"
proof -
  obtain rc m es where st: "st = (rc, m, es)" by (cases st)
  have same: "goes st (rc', m, es)" for rc' by (rule goes_same) (simp add: st)
  show ?thesis
  proof (cases "has_record view")
    case True
    with assms(2) have "adopt pub clk od view (rc\<lparr>rn_misses := forget (o_cloid od) (rn_misses rc)\<rparr>, m, es) = Inr st'"
      by (simp add: resolve_inflight_def st)
    then show ?thesis by (rule goes_trans [OF same goes_adopt [OF assms(1)]])
  next
    case False
    obtain fired d where d: "miss_absent (rn_limit rc) (o_cloid od) (rn_misses rc) = (fired, d)" by fastforce
    show ?thesis
    proof (cases fired)
      case True
      with assms(2) False d have
        "post pub (failed_verdict (clk (o_cloid od) 1) od) (rc\<lparr>rn_misses := d\<rparr>, m, es) = Inr st'"
        by (simp add: resolve_inflight_def st)
      then show ?thesis by (rule goes_trans [OF same goes_post [OF assms(1)]])
    next
      case nofire: False
      with assms(2) False d have "st' = (rc\<lparr>rn_misses := d\<rparr>, m, es)" by (simp add: resolve_inflight_def st)
      then show ?thesis by (simp only: same)
    qed
  qed
qed

lemma goes_charge: "charge_unreadable now od st = Inr st' \<Longrightarrow> goes st st'"
  by (rule goes_same) (auto simp: charge_unreadable_def split: prod.splits bool.splits)

lemma goes_drive_loop:
  assumes "reads_within R fetch" "\<And>od view st st'. handle od view st = Inr st' \<Longrightarrow> goes st st'"
  shows "drive_loop fetch clk states handle ods proved st = Inr (st', r) \<Longrightarrow> goes st st'"
proof (induction ods arbitrary: proved st)
  case (Cons od0 ods)
  obtain rc m es where st: "st = (rc, m, es)" by (cases st)
  define od where "od = live_order st od0"
  note run = Cons.prems [unfolded drive_loop.simps Let_def, folded od_def]
  show ?case
  proof (cases "case states of None \<Rightarrow> False | Some ss \<Rightarrow> o_state od \<notin> set ss")
    case True
    with run have "drive_loop fetch clk states handle ods proved st = Inr (st', r)" by simp
    then show ?thesis by (rule Cons.IH)
  next
    case False
    with run obtain a m1 es1 where f: "fetch (order_ref_of od) m = Inr (a, m1, es1)"
      by (auto simp: st bind_res_eq_Inr)
    have go: "goes st (rc', m1, es @ es1)" for rc'
      using f assms(1) by (auto simp: goes_def st reads_within_def)
    show ?thesis
    proof (cases a)
      case (Inr view)
      with run False f obtain st2 where
        "handle (live_order (rc, m1, es @ es1) od) view
            (rc\<lparr>rn_unreadable := forget (o_cloid od) (rn_unreadable rc)\<rparr>, m1, es @ es1) = Inr st2"
        "drive_loop fetch clk states handle ods proved st2 = Inr (st', r)"
        by (auto simp: bind_res_eq_Inr st)
      with Cons.IH assms(2) go goes_trans show ?thesis by metis
    next
      case (Inl e)
      show ?thesis
      proof (cases e)
        case UNREADABLE_BODY
        with Inl run False f obtain st2 where
          "charge_unreadable (clk (o_cloid od) 0) od (rc, m1, es @ es1) = Inr st2"
          "drive_loop fetch clk states handle ods False st2 = Inr (st', r)"
          by (auto simp: st bind_res_eq_Inr)
        with Cons.IH goes_charge go goes_trans show ?thesis by metis
      qed (use Inl run False f go in \<open>auto simp: st bind_res_eq_Inr\<close>)
    qed
  qed
qed simp

lemma pass_goes:
  assumes "delivers pub" "reads_within R fetch" "handle = adopt pub clk \<or> handle = resolve_inflight pub clk"
    and "drive fetch clk states handle rc m = Inr ((rc', m', es), r)"
  shows "R m es m'"
proof -
  have "goes (rc, m, []) (rc', m', es)"
    using assms(4) assms(3) goes_adopt [OF assms(1)] goes_resolve [OF assms(1)]
    unfolding drive_def by (elim goes_drive_loop [OF assms(2), rotated]) auto
  then show ?thesis by (simp add: goes_def)
qed

end

section \<open>The two instances\<close>

lemma em_run_append: "em_run dg m es m' \<Longrightarrow> em_run dg m' es' m'' \<Longrightarrow> em_run dg m (es @ es') m''"
  by (induction rule: em_run.induct) (auto intro: em_run.more)

interpretation life: report_host "em_run dg" for dg
proof
  show "em_run dg m [] m" for m by (rule em_run.start)
  show "em_run dg m es m' \<Longrightarrow> em_run dg m' es' m'' \<Longrightarrow> em_run dg m (es @ es') m''" for m es m' es' m''
    by (rule em_run_append)
  show "on_execution_report ok now ts m r = Inr (m', es) \<Longrightarrow> em_run dg m es m'" for ok now ts m r m' es
    using em_run.more [OF em_step.report em_run.start] by fastforce
qed

definition announces :: "effect list \<Rightarrow> bool" where
  "announces es \<longleftrightarrow> (\<forall>x \<in> set es. \<exists>e. x = Published e)"

lemma bind_InrE:
  assumes "bind_res m f = Inr y"
  obtains a where "m = Inr a" "f a = Inr y"
  using assms by (auto simp: bind_res_eq_Inr)

lemma report_announces:
  "on_execution_report ok now ts m r = Inr (m', es) \<Longrightarrow> announces es"
proof (cases r)
  case (Filled f)
  assume "on_execution_report ok now ts m r = Inr (m', es)"
  then have "apply_fill_report ok now ts m f = Inr (m', es)" by (simp add: on_execution_report_def Filled)
  then show ?thesis
    unfolding apply_fill_report_def
    by (cases "saga_of m (fr_cloid f)")
      (auto simp: announces_def elim!: bind_pair_InrE bind_InrE split: option.split_asm)
next
  case (Status q)
  assume "on_execution_report ok now ts m r = Inr (m', es)"
  then have "apply_status ok now ts m q = Inr (m', es)" by (simp add: on_execution_report_def Status)
  then show ?thesis
    by (auto simp: apply_status_def announces_def bind_res_eq_Inr split: option.split_asm if_splits)
qed

interpretation announcing: report_host "\<lambda>m es m'. announces es"
  by unfold_locales (auto simp: announces_def dest: report_announces [unfolded announces_def])


section \<open>A pass in the dark\<close>

definition dark :: "fetch \<Rightarrow> bool" where
  "dark fetch \<longleftrightarrow> (\<forall>r m. \<exists>f. fetch r m = Inr (Inl f, m, []))"

definition unmoved :: "pass_state \<Rightarrow> pass_state \<Rightarrow> bool" where
  "unmoved st st' \<longleftrightarrow> snd st' = snd st \<and> rn_ghost (fst st') = rn_ghost (fst st) \<and> rn_misses (fst st') = rn_misses (fst st)"

lemma dark_drive_loop:
  assumes "dark fetch"
  shows "drive_loop fetch clk states handle ods proved st = Inr (st', r) \<Longrightarrow> unmoved st st'"
proof (induction ods arbitrary: proved st)
  case (Cons od0 ods)
  obtain rc m es where st: "st = (rc, m, es)" by (cases st)
  define od where "od = live_order st od0"
  note run = Cons.prems [unfolded drive_loop.simps Let_def, folded od_def]
  obtain f where f: "fetch (order_ref_of od) m = Inr (Inl f, m, [])" using assms by (auto simp: dark_def)
  show ?case
  proof (cases "case states of None \<Rightarrow> False | Some ss \<Rightarrow> o_state od \<notin> set ss")
    case True
    with run have "drive_loop fetch clk states handle ods proved st = Inr (st', r)" by simp
    then show ?thesis by (rule Cons.IH)
  next
    case skip: False
    show ?thesis
    proof (cases "f = UNREADABLE_BODY")
      case True
      with run skip f obtain st2 where c: "charge_unreadable (clk (o_cloid od) 0) od st = Inr st2"
        and d: "drive_loop fetch clk states handle ods False st2 = Inr (st', r)"
        by (auto simp: st bind_res_eq_Inr)
      from c have "unmoved st st2" by (auto simp: st charge_unreadable_def unmoved_def split: prod.splits bool.splits)
      with Cons.IH [OF d] show ?thesis by (simp add: unmoved_def)
    next
      case False
      with run skip f show ?thesis by (cases f) (auto simp: st unmoved_def)
    qed
  qed
qed (simp add: unmoved_def)

section \<open>A pass over the demo account\<close>

definition demo_pub :: "publish" where
  "demo_pub r m = on_execution_report True 20 21 m r"

definition demo_answer :: "venue_order_view" where
  "demo_answer = \<lparr>vv_status = Some \<lparr>sr_ts_event = 19, sr_ts_init = 19, sr_cloid = demo_cloid, sr_symbol = ''BTC'',
     sr_status = LIVE, sr_venue_oid = Some ''7'', sr_reason = None, sr_reconciliation = False\<rparr>, vv_fills = []\<rparr>"

definition demo_fetch :: "fetch" where
  "demo_fetch r m = Inr (Inr demo_answer, m, [])"

definition dark_fetch :: "fetch" where
  "dark_fetch r m = Inr (Inl UNREADABLE_BODY, m, [])"

definition demo_clk :: "string \<Rightarrow> nat \<Rightarrow> int" where
  "demo_clk c n = 20"

definition demo_reconciler :: "reconciler" where
  "demo_reconciler = \<lparr>rn_limit = 3, rn_unreadable_span = 90, rn_grace_span = 90, rn_protection_span = 30,
     rn_misses = [], rn_unreadable = [], rn_ghost = []\<rparr>"

lemma demo_delivers: "delivers demo_pub"
  by (auto simp: delivers_def demo_pub_def)

lemma demo_pass_runs:
  "case bind_res demo_begun (\<lambda>(m, es). drive demo_fetch demo_clk None (adopt demo_pub demo_clk) demo_reconciler m) of
     Inr ((rc, m, es), r) \<Rightarrow> r = PROVED \<and> length es = 2 \<and> map_option o_state (saga_of m demo_cloid) = Some LIVE
   | Inl _ \<Rightarrow> False"
  by code_simp

lemma dark_pass_runs:
  "case bind_res demo_begun (\<lambda>(m, es). drive dark_fetch demo_clk None (adopt demo_pub demo_clk) demo_reconciler m) of
     Inr ((rc, m, es), r) \<Rightarrow> r = PASS_FAILED \<and> map fst (rn_unreadable rc) = [demo_cloid] | Inl _ \<Rightarrow> False"
  by code_simp

lemma demo_pass:
  obtains m0 es0 rc m es where "demo_begun = Inr (m0, es0)"
    "drive demo_fetch demo_clk None (adopt demo_pub demo_clk) demo_reconciler m0 = Inr ((rc, m, es), PROVED)"
    "length es = 2"
  using demo_pass_runs by (auto simp: bind_res_def split: sum.splits)

lemma dark_pass:
  obtains m0 es0 rc m es where "demo_begun = Inr (m0, es0)"
    "drive dark_fetch demo_clk None (adopt demo_pub demo_clk) demo_reconciler m0 = Inr ((rc, m, es), PASS_FAILED)"
    "rn_unreadable rc \<noteq> []"
  using dark_pass_runs by (auto simp: bind_res_def split: sum.splits)

section \<open>The properties\<close>



text \<open>
  Reconciliation is read-only towards the venue: when nothing else sends while it awaits, a
  pass neither places nor cancels; its only effects are events announced to strategies.
\<close>

theorem reconcile_only_publishes:
  assumes "delivers pub" "reads_within (\<lambda>m es m'. announces es) fetch"
    and "handle = adopt pub clk \<or> handle = resolve_inflight pub clk"
    and "drive fetch clk states handle rc m = Inr ((rc', m', es), r)"
  shows "Placing po \<notin> set es \<and> Cancelling rs \<notin> set es"
  using announcing.pass_goes [OF assms] by (auto simp: announces_def)

theorem reconcile_only_publishes_witness:
  "\<exists>es. length es = 2 \<and> (\<forall>po rs. Placing po \<notin> set es \<and> Cancelling rs \<notin> set es)"
proof -
  obtain m0 es0 rc m es where run: "drive demo_fetch demo_clk None (adopt demo_pub demo_clk) demo_reconciler m0 =
      Inr ((rc, m, es), PROVED)" and len: "length es = 2" by (rule demo_pass) blast
  have "reads_within (\<lambda>m es m'. announces es) demo_fetch"
    by (simp add: reads_within_def demo_fetch_def announces_def)
  from reconcile_only_publishes [OF demo_delivers this _ run] len show ?thesis by blast
qed



end
