(* ===== verification/TW_Ledger_Heal.thy ===== *)
theory TW_Ledger_Heal
  imports TW_Ledger_Reconcile TW_Reconcile_Runs
begin

text \<open>
  What the ledger's reconciliation promises: the shape of every finding, which findings are
  healed, and that a heal closes the gap it was planned for.
\<close>

section \<open>The shape of the findings\<close>

text \<open>A finding's field fixes its tier and whether it names a symbol; a Tier-2 symbol has a row.\<close>

definition symbol_fields :: "divergence_field set" where
  "symbol_fields = {SIGNED_SIZE, UNREALIZED_PNL, NOTIONAL, MARGIN_USED}"

definition well_formed :: "ledger_reading \<Rightarrow> divergence \<Rightarrow> bool" where
  "well_formed r d \<longleftrightarrow> (dv_tier d = TIER_1 \<longleftrightarrow> dv_field d \<in> {NET_CASH, SIGNED_SIZE})
     \<and> (case dv_symbol d of None \<Rightarrow> dv_field d \<notin> symbol_fields
        | Some sy \<Rightarrow> dv_field d \<in> symbol_fields \<and> (dv_tier d = TIER_2 \<longrightarrow> map_of (lr_rows r) sy \<noteq> None))"

lemma traverse_Inl: "traverse f xs = Inl e \<Longrightarrow> \<exists>x \<in> set xs. f x = Inl e"
  by (induction xs) (auto simp: bind_res_eq_Inl)

lemma traverse_concat_mem:
  "traverse f xs = Inr groups \<Longrightarrow> y \<in> set (concat groups) \<Longrightarrow> \<exists>x \<in> set xs. \<exists>g. f x = Inr g \<and> y \<in> set g"
proof (induction xs arbitrary: groups)
  case (Cons x xs)
  then show ?case by (fastforce simp: bind_res_eq_Inr)
qed simp

lemma sizes_shape:
  "d \<in> set (size_findings_of v r) \<Longrightarrow> dv_tier d = TIER_1 \<and> dv_field d = SIGNED_SIZE
    \<and> (\<exists>sy. dv_symbol d = Some sy \<and> dv_ledger d = dget (reading_net r) sy 0
         \<and> dv_venue d = dget (dict_of (map (\<lambda>p. (vp_symbol p, vp_signed_size p)) (va_positions v))) sy 0
         \<and> dv_ledger d \<noteq> dv_venue d)"
  by (auto simp: size_findings_of_def net_diff_def)

lemma net_cash_shape:
  "net_cash_findings v r ds = Inr net \<Longrightarrow>
    net = [] \<or> (\<exists>d. net = [d] \<and> dv_tier d = TIER_1 \<and> dv_field d = NET_CASH \<and> dv_symbol d = None)"
  by (auto simp: net_cash_findings_def bind_res_eq_Inr split: if_splits)

lemma account_grain_shape:
  assumes "account_grain v r compared = Inr ds" "compared \<in> set ACCOUNT_GRAIN" "d \<in> set ds"
  shows "well_formed r d \<and> dv_tier d = TIER_2"
proof -
  obtain fld ours theirs where c: "compared = (fld, ours, theirs)" by (rule prod_cases3)
  have fld: "fld \<in> {EQUITY, FREE_MARGIN, MAINTENANCE_MARGIN}" using assms(2) by (auto simp: ACCOUNT_GRAIN_def c)
  from assms(1) obtain x where "d \<in> {\<lparr>dv_tier = TIER_2, dv_field = fld, dv_symbol = None,
      dv_ledger = x, dv_venue = theirs v\<rparr>}"
    using assms(3) unfolding account_grain_def c prod.case bind_res_eq_Inr
    by (elim exE conjE) (auto split: option.split_asm if_split_asm)
  with fld show ?thesis by (auto simp: well_formed_def symbol_fields_def)
qed

lemma figure_finding_shape:
  assumes "figure_finding r compared p = Inr ds" "compared \<in> set PER_SYMBOL" "d \<in> set ds"
  shows "well_formed r d \<and> dv_tier d = TIER_2"
proof -
  obtain fld ours theirs where c: "compared = (fld, ours, theirs)" by (rule prod_cases3)
  have fld: "fld \<in> {UNREALIZED_PNL, NOTIONAL, MARGIN_USED}" using assms(2) by (auto simp: PER_SYMBOL_def c)
  from assms(1,3) obtain row where row: "reading_row r (vp_symbol p) = Inr row"
    and ds: "ds = (case ours row of None \<Rightarrow> []
      | Some x \<Rightarrow> if x = theirs p then [] else [\<lparr>dv_tier = TIER_2, dv_field = fld, dv_symbol = Some (vp_symbol p),
          dv_ledger = x, dv_venue = theirs p\<rparr>])"
    unfolding figure_finding_def c prod.case
    by (cases "reading_holds r (vp_symbol p)") (simp_all add: bind_res_eq_Inr, blast)
  have "dv_symbol d = Some (vp_symbol p) \<and> dv_field d = fld \<and> dv_tier d = TIER_2"
    using assms(3) unfolding ds by (auto split: option.split_asm if_split_asm)
  with fld row show ?thesis by (auto simp: well_formed_def symbol_fields_def reading_row_def split: option.split_asm)
qed

lemma per_symbol_shape:
  assumes "per_symbol v r compared = Inr ds" "compared \<in> set PER_SYMBOL" "d \<in> set ds"
  shows "well_formed r d \<and> dv_tier d = TIER_2"
proof -
  from assms(1) obtain groups where g: "traverse (figure_finding r compared)
      (sort_by (\<lambda>p q. str_le (vp_symbol p) (vp_symbol q)) (va_positions v)) = Inr groups" and ds: "ds = concat groups"
    unfolding per_symbol_def bind_res_eq_Inr by blast
  from traverse_concat_mem [OF g assms(3) [unfolded ds]] obtain p one
    where "figure_finding r compared p = Inr one" "d \<in> set one" by blast
  then show ?thesis using figure_finding_shape assms(2) by blast
qed

lemma all_divergences_split:
  assumes "all_divergences v r = Inr ds"
  obtains net rest where "net_cash_findings v r (size_findings_of v r) = Inr net"
    "ds = net @ size_findings_of v r @ rest" "\<forall>d \<in> set rest. well_formed r d \<and> dv_tier d = TIER_2"
proof -
  from assms obtain net grains figures where n: "net_cash_findings v r (size_findings_of v r) = Inr net"
    and g: "traverse (account_grain v r) ACCOUNT_GRAIN = Inr grains"
    and p: "traverse (per_symbol v r) PER_SYMBOL = Inr figures"
    and ds: "ds = net @ size_findings_of v r @ concat grains @ concat figures"
    unfolding all_divergences_def bind_res_eq_Inr by blast
  have "\<forall>d \<in> set (concat grains @ concat figures). well_formed r d \<and> dv_tier d = TIER_2"
    using traverse_concat_mem [OF g] traverse_concat_mem [OF p] account_grain_shape per_symbol_shape
    by (metis Un_iff set_append)
  with n ds show thesis by (rule that)
qed

lemma divergences_well_formed:
  assumes "all_divergences v r = Inr ds" "d \<in> set ds"
  shows "well_formed r d"
  using assms(1)
proof (rule all_divergences_split)
  fix net rest
  assume "net_cash_findings v r (size_findings_of v r) = Inr net"
    "ds = net @ size_findings_of v r @ rest" "\<forall>d \<in> set rest. well_formed r d \<and> dv_tier d = TIER_2"
  with assms(2) net_cash_shape [of v r "size_findings_of v r" net] show ?thesis
    by (auto dest!: sizes_shape simp: well_formed_def symbol_fields_def)
qed


section \<open>Which findings a pass heals\<close>

definition healable :: "string list \<Rightarrow> finding set \<Rightarrow> (string, decimal option) dict \<Rightarrow> divergence \<Rightarrow> bool" where
  "healable filled previous prices d \<longleftrightarrow> dv_tier d = TIER_1 \<and> dv_field d \<noteq> NET_CASH
     \<and> dv_symbol d \<notin> Some ` set filled \<and> finding_of d \<in> previous
     \<and> (\<exists>sy price. dv_symbol d = Some sy \<and> dget prices sy None = Some price)"

lemma plan_step_heals:
  "map sh_divergence (hp_heals (plan_step filled previous prices now plan d)) =
    map sh_divergence (hp_heals plan) @ (if healable filled previous prices d then [d] else [])"
  "hp_cash_findings (plan_step filled previous prices now plan d) =
    hp_cash_findings plan @ (if dv_tier d = TIER_1 \<and> dv_field d = NET_CASH then [d] else [])"
  "hp_forget plan \<subseteq> hp_forget (plan_step filled previous prices now plan d)"
  "healable filled previous prices d \<Longrightarrow>
    finding_of d \<in> hp_forget (plan_step filled previous prices now plan d)"
  "h \<in> set (hp_heals (plan_step filled previous prices now plan d)) \<Longrightarrow> h \<in> set (hp_heals plan)
    \<or> (\<exists>sy price. h = size_heal_of d sy price now \<and> dv_symbol d = Some sy)"
  by (auto simp: plan_step_def healable_def size_heal_of_def Let_def split: if_splits option.splits)

lemma fold_plan:
  fixes filled previous prices now plan
  defines "planned \<equiv> foldl (plan_step filled previous prices now) plan"
  shows "map sh_divergence (hp_heals (planned ds)) =
      map sh_divergence (hp_heals plan) @ filter (healable filled previous prices) ds"
    and "hp_cash_findings (planned ds) =
      hp_cash_findings plan @ filter (\<lambda>d. dv_tier d = TIER_1 \<and> dv_field d = NET_CASH) ds"
    and "finding_of ` set (filter (healable filled previous prices) ds) \<subseteq> hp_forget (planned ds)"
    and "h \<in> set (hp_heals (planned ds)) \<Longrightarrow> h \<in> set (hp_heals plan)
      \<or> (\<exists>d sy price. h = size_heal_of d sy price now \<and> dv_symbol d = Some sy)"
  unfolding planned_def
proof (induction ds rule: rev_induct)
  case (snoc d ds)
  note one = plan_step_heals [where filled = filled and previous = previous and prices = prices and now = now
      and plan = "foldl (plan_step filled previous prices now) plan ds" and d = d]
  {
    case 1 then show ?case using snoc(1) one(1) by simp
  next
    case 2 then show ?case using snoc(2) one(2) by simp
  next
    case 3 then show ?case using snoc(3) one(3,4) by auto
  next
    case 4 then show ?case using snoc(4) one(5) by auto
  }
qed auto

lemma sh_divergence_of [simp]: "sh_divergence (size_heal_of d sy price now) = d"
  by (simp add: size_heal_of_def Let_def)

lemma plan_cash_cases:
  assumes "plan_cash filled previous sizes now plan = Inr (plan', cash)"
  shows "hp_heals plan' = hp_heals plan" "hp_forget plan \<subseteq> hp_forget plan'"
    and "cash = Some c \<Longrightarrow> hp_cash_findings plan = [ch_divergence c] \<and> filled = []
      \<and> finding_of (ch_divergence c) \<in> previous \<and> sizes \<le> length (hp_heals plan)
      \<and> cc_net_cash (ch_correction c) = dv_venue (ch_divergence c)
      \<and> finding_of (ch_divergence c) \<in> hp_forget plan'"
  using assms
  by (auto simp: plan_cash_def Let_def not_less split: if_split_asm list.split_asm)

text \<open>The plan of a pass, in the terms the later proofs use.\<close>

lemma classify_plan:
  assumes "classify v r b now before previous = Inr fs"
  obtains ds where "all_divergences v r = Inr ds" "rn_divergences fs = ds"
    "map sh_divergence (rn_heals fs) = filter (healable (filled_since r before) previous (entry_prices v)) ds"
    "\<forall>h \<in> set (rn_heals fs). \<exists>d sy price. h = size_heal_of d sy price now \<and> dv_symbol d = Some sy"
    "\<forall>c. rn_cash fs = Some c \<longrightarrow> filled_since r before = [] \<and> ch_divergence c \<in> set ds
       \<and> dv_field (ch_divergence c) = NET_CASH \<and> finding_of (ch_divergence c) \<in> previous
       \<and> length (size_findings_of v r) \<le> length (rn_heals fs)
       \<and> cc_net_cash (ch_correction c) = dv_venue (ch_divergence c)"
    "rn_seen fs \<subseteq> finding_of ` set ds - finding_of ` sh_divergence ` set (rn_heals fs)
       - {f. \<exists>c. rn_cash fs = Some c \<and> f = finding_of (ch_divergence c)}"
proof -
  let ?filled = "filled_since r before"
  let ?plan = "\<lambda>ds. foldl (plan_step ?filled previous (entry_prices v) now) empty_plan ds"
  from assms obtain ds stale alerts suppressed plan' cash dropped where ds: "all_divergences v r = Inr ds"
    and cash: "plan_cash ?filled previous (length (size_findings_of v r)) now (?plan ds) = Inr (plan', cash)"
    and fs: "fs = \<lparr>rn_divergences = ds, rn_alerts = alerts, rn_suppressed = suppressed,
              rn_unvalued = dropped, rn_heals = hp_heals plan', rn_cash = cash,
              rn_deferred = hp_deferred plan', rn_unconfirmed = hp_unconfirmed plan',
              rn_unpriced = hp_unpriced plan', rn_seen = seen_of ds (hp_forget plan')\<rparr>"
    unfolding classify_def Let_def by (elim bind_InrE bind_pair_InrE) auto
  note F = fold_plan [where filled = ?filled and previous = previous and prices = "entry_prices v" and now = now
      and plan = empty_plan and ds = ds]
  note C = plan_cash_cases [OF cash]
  have heals: "map sh_divergence (rn_heals fs) = filter (healable ?filled previous (entry_prices v)) ds"
    using F(1) C(1) by (simp add: fs empty_plan_def)
  have gone: "finding_of ` sh_divergence ` set (rn_heals fs) \<subseteq> hp_forget plan'"
    using F(3) C(2) heals by (metis list.set_map order_trans)
  show thesis
  proof (rule that [OF ds _ heals])
    show "\<forall>h \<in> set (rn_heals fs). \<exists>d sy price. h = size_heal_of d sy price now \<and> dv_symbol d = Some sy"
      using F(4) C(1) by (auto simp: fs empty_plan_def)
    show "\<forall>c. rn_cash fs = Some c \<longrightarrow> ?filled = [] \<and> ch_divergence c \<in> set ds
       \<and> dv_field (ch_divergence c) = NET_CASH \<and> finding_of (ch_divergence c) \<in> previous
       \<and> length (size_findings_of v r) \<le> length (rn_heals fs)
       \<and> cc_net_cash (ch_correction c) = dv_venue (ch_divergence c)"
    proof (intro allI impI)
      fix c assume c: "rn_cash fs = Some c"
      then have "cash = Some c" by (simp add: fs)
      then have "hp_cash_findings (?plan ds) = [ch_divergence c]" using C(3) by blast
      then have "filter (\<lambda>d. dv_tier d = TIER_1 \<and> dv_field d = NET_CASH) ds = [ch_divergence c]"
        unfolding F(2) by (simp add: empty_plan_def)
      then have "ch_divergence c \<in> set (filter (\<lambda>d. dv_tier d = TIER_1 \<and> dv_field d = NET_CASH) ds)" by simp
      then have "ch_divergence c \<in> set ds \<and> dv_field (ch_divergence c) = NET_CASH" by simp
      then show "?filled = [] \<and> ch_divergence c \<in> set ds \<and> dv_field (ch_divergence c) = NET_CASH
          \<and> finding_of (ch_divergence c) \<in> previous \<and> length (size_findings_of v r) \<le> length (rn_heals fs)
          \<and> cc_net_cash (ch_correction c) = dv_venue (ch_divergence c)"
        using C(3) [OF \<open>cash = Some c\<close>] unfolding fs reconcile_findings.simps C(1) by blast
    qed
    show "rn_seen fs \<subseteq> finding_of ` set ds - finding_of ` sh_divergence ` set (rn_heals fs)
       - {f. \<exists>c. rn_cash fs = Some c \<and> f = finding_of (ch_divergence c)}"
      using gone C(3) by (auto simp: fs seen_of_def)
  qed (simp add: fs)
qed


section \<open>A pass and its records\<close>

text \<open>The two ways through a cycle: frozen, or classified, gated and written.\<close>

lemma gate_cash_some:
  "gate_cash verify cp cash = (cp', Some c, notes) \<Longrightarrow> cash = Some c \<and> snd (verify cp) = VERIFIED \<and> cp' = fst (verify cp)"
  "gate_cash verify cp cash = (cp', kept, notes) \<Longrightarrow> Healed d ident \<notin> set notes"
  by (auto simp: gate_cash_def mode_verified_def split: option.split_asm prod.split_asm if_split_asm)

lemma reconcile_account_cases:
  assumes "reconcile_account ok now ts fetch verify lr cp = Inr (lr', cp', found, notes)"
  obtains (frozen) cp1 where "fetch cp = (cp1, None)" "lr' = lr" "cp' = cp1" "found = None"
      "notes = [AccountFrozen CADENCE]"
  | (answered) cp1 v cp2 r fs cp3 cash gate_notes change where "fetch cp = (cp1, Some v)"
      "cp2 = cp1\<lparr>cp_portfolio := observe_venue_liquidation (cp_portfolio cp1) v\<rparr>"
      "ledger_reading_of (cp_portfolio cp2) v = Inr r"
      "classify v r (rl_band lr) now (pj_fills_applied (cp_portfolio cp)) (rl_previous lr) = Inr fs"
      "gate_cash verify cp2 (rn_cash fs) = (cp3, cash, gate_notes)"
      "checkpoint_heal ok ts cp3 (map sh_fill (rn_heals fs)) (map_option ch_correction cash) (Some v) = Inr (cp', change)"
      "lr' = lr\<lparr>rl_previous := rn_seen fs\<rparr>" "found = Some (rn_divergences fs)"
      "notes = gate_notes @ record_heals (rn_heals fs) cash change @ map Diverged (rn_alerts fs)
         @ leverage_drift (cp_portfolio cp') v @ [Reconciled (counts_of fs)]"
proof -
  obtain cp1 answer where f: "fetch cp = (cp1, answer)" by (rule prod.exhaust)
  show thesis
  proof (cases answer)
    case None
    with assms f show thesis by (intro frozen) (auto simp: reconcile_account_def)
  next
    case (Some v)
    let ?cp2 = "cp1\<lparr>cp_portfolio := observe_venue_liquidation (cp_portfolio cp1) v\<rparr>"
    from assms obtain r fs where r: "ledger_reading_of (cp_portfolio ?cp2) v = Inr r"
      and fs: "classify v r (rl_band lr) now (pj_fills_applied (cp_portfolio cp)) (rl_previous lr) = Inr fs"
      and rest: "(case gate_cash verify ?cp2 (rn_cash fs) of (cp3, cash, gate_notes) \<Rightarrow>
               bind_res (checkpoint_heal ok ts cp3 (map sh_fill (rn_heals fs)) (map_option ch_correction cash)
                   (Some v)) (\<lambda>(cp4, change).
                 Inr (lr\<lparr>rl_previous := rn_seen fs\<rparr>, cp4, Some (rn_divergences fs),
                   gate_notes @ record_heals (rn_heals fs) cash change @ map Diverged (rn_alerts fs)
                   @ leverage_drift (cp_portfolio cp4) v @ [Reconciled (counts_of fs)]))) = Inr (lr', cp', found, notes)"
      unfolding reconcile_account_def f Some prod.case option.case Let_def by (elim bind_InrE) blast
    obtain cp3 cash gate_notes where g: "gate_cash verify ?cp2 (rn_cash fs) = (cp3, cash, gate_notes)" by (rule prod_cases3)
    from rest obtain cp4 change where h: "checkpoint_heal ok ts cp3 (map sh_fill (rn_heals fs))
        (map_option ch_correction cash) (Some v) = Inr (cp4, change)"
      and out: "Inr (lr\<lparr>rl_previous := rn_seen fs\<rparr>, cp4, Some (rn_divergences fs),
          gate_notes @ record_heals (rn_heals fs) cash change @ map Diverged (rn_alerts fs)
            @ leverage_drift (cp_portfolio cp4) v @ [Reconciled (counts_of fs)]) = (Inr (lr', cp', found, notes) ::
        (ledger_recon \<times> checkpointer \<times> divergence list option \<times> recon_note list) res)"
      unfolding g prod.case by (elim bind_pair_InrE)
    from out have o: "cp4 = cp'" "lr' = lr\<lparr>rl_previous := rn_seen fs\<rparr>" "found = Some (rn_divergences fs)"
      "notes = gate_notes @ record_heals (rn_heals fs) cash change @ map Diverged (rn_alerts fs)
            @ leverage_drift (cp_portfolio cp') v @ [Reconciled (counts_of fs)]" by auto
    show thesis by (rule answered [OF f [unfolded Some] refl r fs g h [unfolded o(1)] o(2-4)])
  qed
qed

lemma healed_note:
  assumes "Healed d ident \<in> set (gate_notes @ record_heals heals cash change @ map Diverged alerts
      @ leverage_drift pj v @ [Reconciled counts])" "gate_cash verify cp planned = (cp', cash, gate_notes)"
  shows "(\<exists>h \<in> set heals. d = sh_divergence h \<and> ident = rc_event_id (sh_fill h)
      \<and> (\<exists>hc. change = Some hc \<and> ident \<in> hc_applied hc)) \<or> (\<exists>c. cash = Some c \<and> planned = Some c \<and> d = ch_divergence c)"
proof -
  have "Healed d ident \<notin> set gate_notes" "Healed d ident \<notin> set (leverage_drift pj v)"
    using gate_cash_some(2) [OF assms(2)] by (auto simp: leverage_drift_def Let_def split: if_splits)
  with assms(1) have "Healed d ident \<in> set (record_heals heals cash change)" by auto
  then show ?thesis using gate_cash_some(1) assms(2)
    by (fastforce simp: record_heals_def Let_def split: option.split_asm)
qed

text \<open>What a healed finding was, and what the next pass remembers of it.\<close>

lemma pass_heals:
  assumes "reconcile_account ok now ts fetch verify lr cp = Inr (lr', cp', found, notes)"
    and "Healed d ident \<in> set notes"
  shows "finding_of d \<in> rl_previous lr \<and> finding_of d \<notin> rl_previous lr' \<and>
    (\<forall>(sy, n) \<in> set (pj_last_fills (cp_portfolio (fst (fetch cp)))).
      (case dv_symbol d of None \<Rightarrow> True | Some mine \<Rightarrow> sy = mine) \<longrightarrow> n \<le> pj_fills_applied (cp_portfolio cp))"
  using assms(1)
proof (cases rule: reconcile_account_cases)
  case frozen
  with assms(2) show "finding_of d \<in> rl_previous lr \<and> finding_of d \<notin> rl_previous lr' \<and>
    (\<forall>(sy, n) \<in> set (pj_last_fills (cp_portfolio (fst (fetch cp)))).
      (case dv_symbol d of None \<Rightarrow> True | Some mine \<Rightarrow> sy = mine) \<longrightarrow> n \<le> pj_fills_applied (cp_portfolio cp))" by simp
next
  case (answered cp1 v cp2 r fs cp3 cash gate_notes change)
  let ?before = "pj_fills_applied (cp_portfolio cp)"
  have fills: "lr_last_fills r = pj_last_fills (cp_portfolio (fst (fetch cp)))"
    using answered(1-3) by (auto simp: ledger_reading_of_def observe_venue_liquidation_def bind_res_eq_Inr)
  from answered(4) show "finding_of d \<in> rl_previous lr \<and> finding_of d \<notin> rl_previous lr' \<and>
    (\<forall>(sy, n) \<in> set (pj_last_fills (cp_portfolio (fst (fetch cp)))).
      (case dv_symbol d of None \<Rightarrow> True | Some mine \<Rightarrow> sy = mine) \<longrightarrow> n \<le> ?before)"
  proof (rule classify_plan)
    fix ds
    assume P: "all_divergences v r = Inr ds" "rn_divergences fs = ds"
      "map sh_divergence (rn_heals fs) = filter (healable (filled_since r ?before) (rl_previous lr) (entry_prices v)) ds"
      "\<forall>c. rn_cash fs = Some c \<longrightarrow> filled_since r ?before = [] \<and> ch_divergence c \<in> set ds
       \<and> dv_field (ch_divergence c) = NET_CASH \<and> finding_of (ch_divergence c) \<in> rl_previous lr
       \<and> length (size_findings_of v r) \<le> length (rn_heals fs)
       \<and> cc_net_cash (ch_correction c) = dv_venue (ch_divergence c)"
      "rn_seen fs \<subseteq> finding_of ` set ds - finding_of ` sh_divergence ` set (rn_heals fs)
       - {f. \<exists>c. rn_cash fs = Some c \<and> f = finding_of (ch_divergence c)}"
    have still: "(sy, n) \<in> set (lr_last_fills r) \<Longrightarrow> sy \<notin> set (filled_since r ?before) \<Longrightarrow> n \<le> ?before" for sy n
      by (force simp: filled_since_def)
    from healed_note [OF assms(2) [unfolded answered(9)] answered(5)] show ?thesis
    proof
      assume "\<exists>h \<in> set (rn_heals fs). d = sh_divergence h \<and> ident = rc_event_id (sh_fill h)
          \<and> (\<exists>hc. change = Some hc \<and> ident \<in> hc_applied hc)"
      then have "d \<in> set (map sh_divergence (rn_heals fs))" "finding_of d \<in> finding_of ` sh_divergence ` set (rn_heals fs)"
        by auto
      with P(3,5) show ?thesis unfolding fills [symmetric]
        by (auto simp: healable_def answered(7) intro: still)
    next
      assume "\<exists>c. cash = Some c \<and> rn_cash fs = Some c \<and> d = ch_divergence c"
      then obtain c where "rn_cash fs = Some c" "d = ch_divergence c" by blast
      with P(4,5) show ?thesis unfolding fills [symmetric] by (auto simp: answered(7) intro: still)
    qed
  qed
qed

lemma pass_remembers:
  assumes "reconcile_account ok now ts fetch verify lr cp = Inr (lr', cp', found, notes)"
  shows "case found of None \<Rightarrow> rl_previous lr' = rl_previous lr | Some ds \<Rightarrow> rl_previous lr' \<subseteq> finding_of ` set ds"
  using assms
proof (cases rule: reconcile_account_cases)
  case (answered cp1 v cp2 r fs cp3 cash gate_notes change)
  from answered(4) have "rn_seen fs \<subseteq> finding_of ` set (rn_divergences fs)" by (rule classify_plan) auto
  then show ?thesis by (simp add: answered(7,8))
qed simp


section \<open>A run of passes\<close>

text \<open>
  One deadline of the cadence: the outcome of the write, the two clock readings, the two venue
  reads, and what the other tasks did before the next deadline. What a pass leaves to be read:
  the engine when it began, the engine when the venue had answered, and what it found and
  recorded.
\<close>

record ledger_pass =
  lp_ok :: bool
  lp_now :: int
  lp_ts :: int
  lp_fetch :: "checkpointer \<Rightarrow> checkpointer \<times> venue_account_state option"
  lp_verify :: "checkpointer \<Rightarrow> checkpointer \<times> mode_verdict"
  lp_between :: "checkpointer \<Rightarrow> checkpointer"

record pass_outcome =
  po_before :: checkpointer
  po_read :: checkpointer
  po_found :: "divergence list option"
  po_notes :: "recon_note list"

fun ledger_passes :: "ledger_pass list \<Rightarrow> ledger_recon \<Rightarrow> checkpointer \<Rightarrow> pass_outcome list res" where
  "ledger_passes [] lr cp = Inr []"
| "ledger_passes (p # ps) lr cp =
     bind_res (reconcile_account (lp_ok p) (lp_now p) (lp_ts p) (lp_fetch p) (lp_verify p) lr cp)
       (\<lambda>(lr', cp', found, notes).
         bind_res (ledger_passes ps lr' (lp_between p cp')) (\<lambda>outs.
           Inr (\<lparr>po_before = cp, po_read = fst (lp_fetch p cp), po_found = found, po_notes = notes\<rparr> # outs)))"

text \<open>No fill of the finding's symbol (of any symbol, for the cash line) landed during the read.\<close>

definition unmoved :: "divergence \<Rightarrow> pass_outcome \<Rightarrow> bool" where
  "unmoved d out \<longleftrightarrow> (\<forall>(sy, n) \<in> set (pj_last_fills (cp_portfolio (po_read out))).
     (case dv_symbol d of None \<Rightarrow> True | Some mine \<Rightarrow> sy = mine) \<longrightarrow> n \<le> pj_fills_applied (cp_portfolio (po_before out)))"

definition first_seen_at :: "pass_outcome list \<Rightarrow> divergence \<Rightarrow> nat \<Rightarrow> bool" where
  "first_seen_at outs d i \<longleftrightarrow> (\<exists>ds. po_found (outs ! i) = Some ds \<and> finding_of d \<in> finding_of ` set ds)
     \<and> (\<forall>e ident. Healed e ident \<in> set (po_notes (outs ! i)) \<longrightarrow> finding_of e \<noteq> finding_of d)"

lemma ledger_passes_heals:
  assumes "ledger_passes ps lr cp = Inr outs" "j < length outs" "Healed d ident \<in> set (po_notes (outs ! j))"
  shows "unmoved d (outs ! j) \<and> (finding_of d \<in> rl_previous lr \<and> (\<forall>k < j. po_found (outs ! k) = None)
    \<or> (\<exists>i < j. first_seen_at outs d i \<and> (\<forall>k. i < k \<and> k < j \<longrightarrow> po_found (outs ! k) = None)))"
  using assms
proof (induction ps arbitrary: lr cp outs j)
  case (Cons p ps)
  from Cons.prems(1) obtain lr' cp' found recs rest where
    pass: "reconcile_account (lp_ok p) (lp_now p) (lp_ts p) (lp_fetch p) (lp_verify p) lr cp = Inr (lr', cp', found, recs)"
    and rest: "ledger_passes ps lr' (lp_between p cp') = Inr rest"
    and outs: "outs = \<lparr>po_before = cp, po_read = fst (lp_fetch p cp), po_found = found, po_notes = recs\<rparr> # rest"
    by (auto simp: bind_res_eq_Inr)
  show ?case
  proof (cases j)
    case 0
    then have "Healed d ident \<in> set recs" using Cons.prems(3) by (simp add: outs)
    from pass_heals [OF pass this] show ?thesis unfolding 0 by (simp add: outs unmoved_def)
  next
    case (Suc n)
    have n: "n < length rest" "Healed d ident \<in> set (po_notes (rest ! n))"
      using Cons.prems(2,3) by (simp_all add: outs Suc)
    note IH = Cons.IH [OF rest n]
    have same: "unmoved d (outs ! j) = unmoved d (rest ! n)" by (simp add: outs Suc)
    from IH [THEN conjunct2] show ?thesis
    proof
      assume prev: "finding_of d \<in> rl_previous lr' \<and> (\<forall>k < n. po_found (rest ! k) = None)"
      show ?thesis
      proof (cases found)
        case None
        with prev pass_remembers [OF pass] have "finding_of d \<in> rl_previous lr \<and> (\<forall>k < j. po_found (outs ! k) = None)"
          by (auto simp: outs Suc nth_Cons split: nat.split)
        with IH same show ?thesis by blast
      next
        case (Some ds)
        have "finding_of d \<in> finding_of ` set ds" using prev pass_remembers [OF pass] Some by auto
        moreover have "finding_of e \<noteq> finding_of d" if "Healed e ident' \<in> set recs" for e ident'
          using pass_heals [OF pass that] prev by auto
        ultimately have "first_seen_at outs d 0" by (auto simp: first_seen_at_def outs Some)
        moreover have "\<forall>k. 0 < k \<and> k < j \<longrightarrow> po_found (outs ! k) = None"
          using prev by (auto simp: outs Suc nth_Cons split: nat.split)
        ultimately show ?thesis using IH same Suc by blast
      qed
    next
      assume "\<exists>i < n. first_seen_at rest d i \<and> (\<forall>k. i < k \<and> k < n \<longrightarrow> po_found (rest ! k) = None)"
      then obtain i where i: "i < n" "first_seen_at rest d i" "\<forall>k. i < k \<and> k < n \<longrightarrow> po_found (rest ! k) = None" by blast
      have "first_seen_at outs d (Suc i)" using i(2) by (simp add: first_seen_at_def outs)
      moreover have "\<forall>k. Suc i < k \<and> k < j \<longrightarrow> po_found (outs ! k) = None"
        using i(3) by (auto simp: outs Suc nth_Cons split: nat.split)
      ultimately show ?thesis using IH same i(1) Suc by (metis Suc_less_eq)
    qed
  qed
qed simp

text \<open>
  C9. The ledger is never moved towards the venue on one reading. In any run of the account
  cadence, whatever the reads answer and whatever other tasks do in between, a divergence
  that a pass heals was found, with the same field, symbol and signed difference, by the last
  earlier pass that read the venue, which did not heal it; and no fill of its symbol (of any
  symbol, for the cash line) was applied while the healing pass's own read was in flight.
\<close>

theorem heal_needs_two_agreeing_reads:
  assumes "ledger_passes ps (make_ledger_recon b) cp = Inr outs" "j < length outs"
    and "Healed d ident \<in> set (po_notes (outs ! j))"
  shows "unmoved d (outs ! j) \<and> (\<exists>i < j. first_seen_at outs d i \<and> (\<forall>k. i < k \<and> k < j \<longrightarrow> po_found (outs ! k) = None))"
  using ledger_passes_heals [OF assms] by (simp add: make_ledger_recon_def)


text \<open>An empty ledger opened at 1000, and a venue that holds 2 bitcoin nobody here bought.\<close>

definition demo_account_state :: "venue_account_state" where
  "demo_account_state = \<lparr>va_equity = 1000, va_free_margin = 990, va_cross_maintenance_margin = 2, va_as_of_ts_ns = 40,
     va_cash_quantum = 1 / 1000000, va_positions = [\<lparr>vp_symbol = ''BTC'', vp_signed_size = 2, vp_entry_price = Some 100,
       vp_notional = 200, vp_unrealized_pnl = 0, vp_margin_used = 10, vp_isolated_collateral = None,
       vp_liquidation_price = None, vp_leverage = DEFAULT_LEVERAGE\<rparr>]\<rparr>"

definition demo_pass :: "int \<Rightarrow> ledger_pass" where
  "demo_pass t = \<lparr>lp_ok = True, lp_now = t, lp_ts = t, lp_fetch = (\<lambda>cp. (cp, Some demo_account_state)),
     lp_verify = (\<lambda>cp. (cp, VERIFIED)), lp_between = (\<lambda>cp. cp)\<rparr>"

definition demo_gap :: "divergence" where
  "demo_gap = \<lparr>dv_tier = TIER_1, dv_field = SIGNED_SIZE, dv_symbol = Some ''BTC'', dv_ledger = 0, dv_venue = 2\<rparr>"

definition demo_ledger :: "checkpointer" where
  "demo_ledger = (case cp_recover True 5 demo_start of Inr cp \<Rightarrow>
     cp\<lparr>cp_portfolio := observe_venue_liquidation (cp_portfolio cp) demo_account_state\<rparr>)"

definition demo_reading_at :: "ledger_reading" where
  "demo_reading_at = projr (ledger_reading_of (cp_portfolio demo_ledger) demo_account_state)"

definition demo_findings :: "int \<Rightarrow> finding set \<Rightarrow> reconcile_findings" where
  "demo_findings t previous = projr (classify demo_account_state demo_reading_at default_band t 0 previous)"

text \<open>Each stage of the two passes, evaluated on its own.\<close>

lemma ran_projr: "ran r \<Longrightarrow> r = Inr (projr r)"
  by (cases r) (simp_all add: ran_def)

lemma demo_read: "ledger_reading_of (cp_portfolio demo_ledger) demo_account_state = Inr demo_reading_at"
proof -
  have "ran (ledger_reading_of (cp_portfolio demo_ledger) demo_account_state)" by code_simp
  from ran_projr [OF this] show ?thesis by (simp only: demo_reading_at_def)
qed

lemma demo_observed:
  "observe_venue_liquidation (cp_portfolio demo_ledger) demo_account_state = cp_portfolio demo_ledger"
  by code_simp

lemma demo_same: "demo_ledger\<lparr>cp_portfolio := cp_portfolio demo_ledger\<rparr> = demo_ledger"
  by simp

lemma demo_no_fills: "pj_fills_applied (cp_portfolio demo_ledger) = 0"
  by code_simp

lemma demo_first: "classify demo_account_state demo_reading_at default_band 50 0 {} = Inr (demo_findings 50 {})"
proof -
  have "ran (classify demo_account_state demo_reading_at default_band 50 0 {})" by code_simp
  from ran_projr [OF this] show ?thesis by (simp only: demo_findings_def)
qed

lemma demo_first_held: "rn_heals (demo_findings 50 {}) = []" "rn_cash (demo_findings 50 {}) = None"
  by code_simp+

lemma demo_kept: "checkpoint_heal True 50 demo_ledger [] None (Some demo_account_state) = Inr (demo_ledger, None)"
  by code_simp

lemma demo_seen: "rn_seen (demo_findings 50 {}) = {(SIGNED_SIZE, Some ''BTC'', 2)}"
  by code_simp

lemma demo_second: "classify demo_account_state demo_reading_at default_band 60 0 {(SIGNED_SIZE, Some ''BTC'', 2)} =
    Inr (demo_findings 60 {(SIGNED_SIZE, Some ''BTC'', 2)})"
proof -
  have "ran (classify demo_account_state demo_reading_at default_band 60 0 {(SIGNED_SIZE, Some ''BTC'', 2)})" by code_simp
  from ran_projr [OF this] show ?thesis by (simp only: demo_findings_def)
qed

lemma demo_planned: "rn_heals (demo_findings 60 {(SIGNED_SIZE, Some ''BTC'', 2)}) = [size_heal_of demo_gap ''BTC'' 100 60]"
    "rn_cash (demo_findings 60 {(SIGNED_SIZE, Some ''BTC'', 2)}) = None"
  by code_simp+

lemma demo_booked: "case checkpoint_heal True 60 demo_ledger [sh_fill (size_heal_of demo_gap ''BTC'' 100 60)] None
    (Some demo_account_state) of Inl e \<Rightarrow> False
  | Inr (cp, change) \<Rightarrow> (case change of None \<Rightarrow> False | Some h \<Rightarrow> ''reconcile:BTC:60'' \<in> hc_applied h)"
  by code_simp


lemma demo_pass_one:
  "\<exists>ds recs. reconcile_account True 50 50 (\<lambda>cp. (cp, Some demo_account_state)) (\<lambda>cp. (cp, VERIFIED))
     (make_ledger_recon None) demo_ledger
   = Inr (\<lparr>rl_band = default_band, rl_previous = {(SIGNED_SIZE, Some ''BTC'', 2)}\<rparr>, demo_ledger, ds, recs)"
  by (simp add: reconcile_account_def demo_observed demo_same demo_read make_ledger_recon_def demo_no_fills demo_first
      demo_first_held demo_kept gate_cash_def demo_seen Let_def)

lemma demo_pass_two:
  "\<exists>lr cp ds recs. reconcile_account True 60 60 (\<lambda>cp. (cp, Some demo_account_state)) (\<lambda>cp. (cp, VERIFIED))
     \<lparr>rl_band = default_band, rl_previous = {(SIGNED_SIZE, Some ''BTC'', 2)}\<rparr> demo_ledger
   = Inr (lr, cp, ds, recs) \<and> Healed demo_gap ''reconcile:BTC:60'' \<in> set recs"
proof -
  obtain cp h where k: "checkpoint_heal True 60 demo_ledger [sh_fill (size_heal_of demo_gap ''BTC'' 100 60)] None
      (Some demo_account_state) = Inr (cp, Some h)" and kept: "''reconcile:BTC:60'' \<in> hc_applied h"
    using demo_booked by (auto split: sum.split_asm prod.split_asm option.split_asm)
  have ident: "rc_event_id (sh_fill (size_heal_of demo_gap ''BTC'' 100 60)) = ''reconcile:BTC:60''" by code_simp
  show ?thesis
    by (simp add: reconcile_account_def demo_observed demo_same demo_read demo_no_fills demo_second
      demo_planned k gate_cash_def record_heals_def ident kept Let_def)
qed

lemma demo_passes_heal:
  "\<exists>outs. ledger_passes [demo_pass 50, demo_pass 60] (make_ledger_recon None) demo_ledger = Inr outs
     \<and> length outs = 2 \<and> Healed demo_gap ''reconcile:BTC:60'' \<in> set (po_notes (outs ! 1))"
proof -
  obtain ds recs where one: "reconcile_account True 50 50 (\<lambda>cp. (cp, Some demo_account_state)) (\<lambda>cp. (cp, VERIFIED))
      (make_ledger_recon None) demo_ledger
    = Inr (\<lparr>rl_band = default_band, rl_previous = {(SIGNED_SIZE, Some ''BTC'', 2)}\<rparr>, demo_ledger, ds, recs)"
    using demo_pass_one by blast
  obtain lr cp ds' recs' where "reconcile_account True 60 60 (\<lambda>cp. (cp, Some demo_account_state)) (\<lambda>cp. (cp, VERIFIED))
      \<lparr>rl_band = default_band, rl_previous = {(SIGNED_SIZE, Some ''BTC'', 2)}\<rparr> demo_ledger = Inr (lr, cp, ds', recs')"
    "Healed demo_gap ''reconcile:BTC:60'' \<in> set recs'" using demo_pass_two by blast
  with one show ?thesis by (simp add: demo_pass_def)
qed

theorem heal_needs_two_agreeing_reads_witness:
  "\<exists>outs. ledger_passes [demo_pass 50, demo_pass 60] (make_ledger_recon None) demo_ledger = Inr outs
     \<and> first_seen_at outs demo_gap 0"
proof -
  obtain outs where o: "ledger_passes [demo_pass 50, demo_pass 60] (make_ledger_recon None) demo_ledger = Inr outs"
    and len: "length outs = 2" and healed: "Healed demo_gap ''reconcile:BTC:60'' \<in> set (po_notes (outs ! 1))"
    using demo_passes_heal by blast
  from heal_needs_two_agreeing_reads [OF o _ healed] len obtain i where "i < 1" "first_seen_at outs demo_gap i" by auto
  then show ?thesis using o by auto
qed

end
