(* ===== verification/TW_Ledger_Gap.thy ===== *)
theory TW_Ledger_Gap
  imports TW_Ledger_Heal
begin

text \<open>
  A heal closes the gap it was planned for: the net the reconciliation compared is the
  ledger's own, and after the write it is the venue's.
\<close>

section \<open>The net of a symbol\<close>

definition sym_sizes :: "portfolio \<Rightarrow> string \<Rightarrow> decimal list" where
  "sym_sizes pj sy = map p_signed_size (filter (\<lambda>p. p_symbol p = sy) (filed pj))"

lemma net_lookup: "map_of (account_net_size ps) sy = (if sy \<in> p_symbol ` set ps
    then Some (dsum (map p_signed_size (filter (\<lambda>p. p_symbol p = sy) ps))) else None)"
proof (induction ps rule: rev_induct)
  case (snoc p ps)
  have "sy \<notin> p_symbol ` set ps \<Longrightarrow> filter (\<lambda>p. p_symbol p = sy) ps = []" by (auto simp: filter_empty_conv)
  moreover have "account_net_size (ps @ [p]) = AList.update (p_symbol p)
      (dadd (dget (account_net_size ps) (p_symbol p) 0) (p_signed_size p)) (account_net_size ps)"
    by (simp add: account_net_size_def)
  ultimately show ?case using snoc dsum_snoc [of "[]"] by (auto simp: dget_def)
qed (simp add: account_net_size_def)

lemma net_is_sum: "dget (account_net_size ps) sy 0 = dsum (map p_signed_size (filter (\<lambda>p. p_symbol p = sy) ps))"
proof (cases "sy \<in> p_symbol ` set ps")
  case False
  then have "filter (\<lambda>p. p_symbol p = sy) ps = []" by (auto simp: filter_empty_conv)
  with False show ?thesis by (simp add: dget_def net_lookup)
qed (simp add: dget_def net_lookup)

lemma filter_concat_keyed:
  "dict_ok d \<Longrightarrow> \<forall>(k, xs) \<in> set d. \<forall>x \<in> set xs. f x = k \<Longrightarrow>
    filter (\<lambda>x. f x = k) (concat (map snd d)) = dget d k []"
proof (induction d)
  case (Cons e d)
  obtain k' xs where e: "e = (k', xs)" by (cases e)
  have ih: "filter (\<lambda>x. f x = k) (concat (map snd d)) = dget d k []"
    using Cons by (auto simp: e dict_ok_Cons)
  have "k = k' \<Longrightarrow> map_of d k = None" using Cons.prems(1) by (auto simp: e dict_ok_Cons map_of_eq_None_iff)
  moreover have "filter (\<lambda>x. f x = k) xs = (if k = k' then xs else [])"
    using Cons.prems(2) by (auto simp: e filter_id_conv filter_empty_conv)
  ultimately show ?case using ih by (auto simp: e dget_def split: option.splits)
qed (simp add: dget_def)

lemma venue_shares_partitions:
  assumes "venue_shares pj v = Inr shares"
  shows "filter (\<lambda>p. p_symbol p = sy) (map fst shares) = filter (\<lambda>p. p_symbol p = sy) (filed pj)"
proof -
  let ?share = "\<lambda>(sy, across). bind_res (share (case dget (dict_of (map (\<lambda>p. (vp_symbol p, vp_isolated_collateral p))
      (va_positions v))) sy None of None \<Rightarrow> 0 | Some b \<Rightarrow> b) across) (\<lambda>shares. Inr (zip across shares))"
  from assms obtain groups where g: "shares = concat groups"
    and t: "list_all2 (\<lambda>e ps. ?share e = Inr ps) (by_symbol (filed pj)) groups"
    unfolding venue_shares_def Let_def bind_res_eq_Inr traverse_Inr_list_all2 by auto
  have "list_all2 (\<lambda>e ps. map fst ps = snd e) (by_symbol (filed pj)) groups"
    by (rule list_all2_mono [OF t]) (auto simp: bind_res_eq_Inr intro!: map_fst_zip dest: share_length [symmetric])
  then have "map (map fst) groups = map snd (by_symbol (filed pj))"
    by (induction rule: list_all2_induct) auto
  then have "map fst shares = concat (map snd (by_symbol (filed pj)))" by (simp add: g map_concat)
  moreover have "filter (\<lambda>p. p_symbol p = sy) (concat (map snd (by_symbol (filed pj)))) = dget (by_symbol (filed pj)) sy []"
    by (rule filter_concat_keyed [OF by_symbol_ok])
      (auto simp: dict_ok_map_of_iff [OF by_symbol_ok, symmetric] by_symbol_lookup split: if_split_asm)
  moreover have "sy \<notin> p_symbol ` set (filed pj) \<Longrightarrow> filter (\<lambda>p. p_symbol p = sy) (filed pj) = []"
    by (auto simp: filter_empty_conv)
  ultimately show ?thesis by (simp add: dget_def by_symbol_lookup del: list.set_map)
qed

text \<open>The reading's net is the ledger's, whatever shares of the venue's collateral it carries.\<close>

lemma reading_net_is_account_net:
  assumes "ledger_reading_of pj v = Inr r"
  shows "dget (reading_net r) sy 0 = dsum (sym_sizes pj sy)"
proof -
  from assms obtain shares rows where s: "venue_shares pj v = Inr shares"
    and rows: "rows_of pj (map (\<lambda>(p, x). p\<lparr>p_isolated_collateral := Some x\<rparr>) shares) = Inr rows"
    and r: "lr_rows r = rows"
    unfolding ledger_reading_of_def by (elim bind_InrE) (auto)
  let ?ps = "map (\<lambda>(p, x). p\<lparr>p_isolated_collateral := Some x\<rparr>) shares"
  obtain u b c where t: "symbol_totals ?ps (mark_prices pj) = (u, b, c)" by (rule prod_cases3)
  have "list_all2 (\<lambda>(sy, net) (sy', row). sy' = sy \<and> sv_net row = net) (account_net_size ?ps) rows"
    using rows unfolding rows_of_def account_valuation_def t prod.case traverse_Inr_list_all2
    by (rule list_all2_mono) (auto simp: bind_res_eq_Inr valuation_row_def Let_def)
  then have "map (\<lambda>(sy, row). (sy, sv_net row)) rows = account_net_size ?ps"
    by (induction rule: list_all2_induct) auto
  then have "dget (reading_net r) sy 0 = dsum (map p_signed_size (filter (\<lambda>p. p_symbol p = sy) ?ps))"
    by (simp add: reading_net_def r net_is_sum)
  also have "map p_signed_size (filter (\<lambda>p. p_symbol p = sy) ?ps) =
      map p_signed_size (filter (\<lambda>p. p_symbol p = sy) (map fst shares))"
    by (induction shares) auto
  finally show ?thesis by (simp add: venue_shares_partitions [OF s] sym_sizes_def)
qed

lemma account_net_is_sum: "dget (account_net pj) sy 0 = dsum (sym_sizes pj sy)"
  by (simp add: account_net_def net_is_sum sym_sizes_def)


section \<open>Sizes on the lot grid\<close>

text \<open>
  The guard quantized every order to whole lots of \<open>10 ^ e\<close>, and the venue trades in the same
  lots; twice the partitions' lots and the venue's together have fewer than 29 digits.
\<close>

definition gap_on_grid :: "int \<Rightarrow> portfolio \<Rightarrow> string \<Rightarrow> decimal \<Rightarrow> bool" where
  "gap_on_grid e pj sy x \<longleftrightarrow> (\<forall>s \<in> set (sym_sizes pj sy). whole_lots e s) \<and> whole_lots e x
     \<and> 2 * (\<Sum>s \<leftarrow> sym_sizes pj sy. \<bar>lots_in e s\<bar>) + \<bar>lots_in e x\<bar> < 10 ^ 28"

lemma dsum_whole:
  assumes "\<forall>s \<in> set xs. whole_lots e s" "(\<Sum>s \<leftarrow> xs. \<bar>lots_in e s\<bar>) < 10 ^ 28"
  shows "dsum xs = of_int (\<Sum>s \<leftarrow> xs. lots_in e s) * pow10 e"
  using dsum_lots [of "map (\<lambda>s. ('''', s)) xs" e] assms by (simp add: net_lots_def o_def image_image)

definition size_at :: "portfolio \<Rightarrow> partition_key \<Rightarrow> decimal" where
  "size_at pj k = (case map_of (pj_positions pj) k of None \<Rightarrow> 0 | Some p \<Rightarrow> p_signed_size p)"

lemma sum_sizes:
  assumes "pj_ok pj" "finite K" "fst ` set (pj_positions pj) \<subseteq> K" "f 0 = (0::int)"
  shows "(\<Sum>s \<leftarrow> sym_sizes pj sy. f s) = (\<Sum>k \<in> {k \<in> K. snd k = sy}. f (size_at pj k))"
proof -
  let ?d = "pj_positions pj"
  have ok: "dict_ok ?d" "\<forall>(k, p) \<in> set ?d. p_symbol p = snd k"
    using assms(1) by (auto simp: pj_ok_def filed_ok_def key_of_def)
  have "filter (\<lambda>p. p_symbol p = sy) (filed pj) = map snd (filter (\<lambda>x. snd (fst x) = sy) ?d)"
    using ok(2) by (auto simp: filter_map o_def intro!: arg_cong [of _ _ "map snd"] filter_cong)
  then have "(\<Sum>s \<leftarrow> sym_sizes pj sy. f s) = (\<Sum>x \<leftarrow> filter (\<lambda>x. snd (fst x) = sy) ?d. f (p_signed_size (snd x)))"
    by (simp add: sym_sizes_def o_def)
  also have "\<dots> = (\<Sum>x \<in> set (filter (\<lambda>x. snd (fst x) = sy) ?d). f (p_signed_size (snd x)))"
    using ok(1) by (intro sum_list_distinct_conv_sum_set distinct_filter) (auto simp: dict_ok_def distinct_map)
  also have "\<dots> = (\<Sum>x \<in> {x \<in> set ?d. snd (fst x) = sy}. f (size_at pj (fst x)))"
    by (rule sum.cong) (auto simp: size_at_def dict_ok_map_of_iff [OF ok(1), THEN iffD2])
  also have "\<dots> = (\<Sum>k \<in> fst ` {x \<in> set ?d. snd (fst x) = sy}. f (size_at pj k))"
    using ok(1) by (intro sum.reindex_cong [symmetric, where l = fst] inj_onI)
      (auto simp: dict_ok_def distinct_map inj_on_def)
  also have "\<dots> = (\<Sum>k \<in> {k \<in> K. snd k = sy}. f (size_at pj k))"
  proof (rule sum.mono_neutral_left)
    show "\<forall>k \<in> {k \<in> K. snd k = sy} - fst ` {x \<in> set ?d. snd (fst x) = sy}. f (size_at pj k) = 0"
      using assms(4) by (force simp: size_at_def dest: map_of_SomeD split: option.split)
  qed (use assms(2,3) in auto)
  finally show ?thesis .
qed

lemma sym_sizes_at:
  assumes "pj_ok pj" "s \<in> set (sym_sizes pj sy)"
  shows "\<exists>ow. s = size_at pj (ow, sy)"
proof -
  from assms(2) obtain p where p: "p \<in> set (filed pj)" "p_symbol p = sy" "s = p_signed_size p"
    unfolding sym_sizes_def by auto
  have "map_of (pj_positions pj) (p_strategy_id p, sy) = Some p"
    using filed_lookup [OF assms(1) p(1)] p(2) by (simp add: key_of_def)
  then have "s = size_at pj (p_strategy_id p, sy)" by (simp add: size_at_def p(3))
  then show ?thesis ..
qed

lemma size_at_sym:
  assumes "pj_ok pj"
  shows "size_at pj (ow, sy) = 0 \<or> size_at pj (ow, sy) \<in> set (sym_sizes pj sy)"
proof (cases "map_of (pj_positions pj) (ow, sy)")
  case (Some p)
  have "p \<in> set (filed pj)" using map_of_SomeD [OF Some] by force
  moreover have "p_symbol p = sy" using pj_ok_lookup [OF assms Some] by (simp add: key_of_def)
  ultimately show ?thesis by (auto simp: size_at_def Some sym_sizes_def)
qed (simp add: size_at_def)

lemma whole_lots_zero [simp]: "whole_lots e 0"
  by (simp add: whole_lots_def)

lemma whole_lots_iff: "whole_lots e s \<longleftrightarrow> (\<exists>n. s = of_int n * pow10 e)"
  by (metis whole_lots_def whole_lots_mult)

text \<open>The arithmetic of a heal: one partition takes the whole gap, the others keep their sizes.\<close>

lemma gap_closes:
  assumes grid: "gap_on_grid e pj sy x" and ok: "pj_ok pj" "pj_ok pj'"
    and none: "size_at pj' (None, sy) = size_at pj (None, sy) + (x - dsum (sym_sizes pj sy))"
    and others: "\<forall>ow. ow \<noteq> None \<longrightarrow> size_at pj' (ow, sy) = size_at pj (ow, sy)"
  shows "dsum (sym_sizes pj' sy) = x"
proof -
  define K where "K = insert (None, sy) (fst ` set (pj_positions pj) \<union> fst ` set (pj_positions pj'))"
  let ?S = "{k \<in> K. snd k = sy}"
  have K: "finite K" "fst ` set (pj_positions pj) \<subseteq> K" "fst ` set (pj_positions pj') \<subseteq> K" by (auto simp: K_def)
  define L where "L = (\<Sum>s \<leftarrow> sym_sizes pj sy. lots_in e s)"
  define A where "A = (\<Sum>s \<leftarrow> sym_sizes pj sy. \<bar>lots_in e s\<bar>)"
  define N where "N = lots_in e x"
  have x: "x = of_int N * pow10 e" using grid by (simp add: gap_on_grid_def whole_lots_def N_def)
  have bound: "2 * A + \<bar>N\<bar> < 10 ^ 28" using grid by (simp add: gap_on_grid_def A_def N_def)
  have "0 \<le> A" unfolding A_def by (rule sum_list_nonneg) auto
  with bound have small: "A < 10 ^ 28" by linarith
  have sum: "dsum (sym_sizes pj sy) = of_int L * pow10 e"
    using grid small unfolding L_def A_def gap_on_grid_def by (intro dsum_whole) auto
  have LA: "\<bar>L\<bar> \<le> A" unfolding L_def A_def
    using abs_sum_list_le [of "lots_in e" "map (\<lambda>s. ((), s)) (sym_sizes pj sy)"] by (simp add: o_def)
  have whole: "whole_lots e (size_at pj (ow, sy))" for ow
    using grid size_at_sym [OF ok(1), of ow sy] by (auto simp: gap_on_grid_def)
  define u where "u = lots_in e (size_at pj (None, sy))"
  have u: "size_at pj (None, sy) = of_int u * pow10 e" using whole [of None] by (simp add: whole_lots_def u_def)
  have moved_to: "size_at pj' (None, sy) = of_int (u + (N - L)) * pow10 e"
    unfolding none sum x u by (simp add: algebra_simps)
  have whole': "\<forall>s \<in> set (sym_sizes pj' sy). whole_lots e s"
  proof
    fix s assume "s \<in> set (sym_sizes pj' sy)"
    then obtain ow where "s = size_at pj' (ow, sy)" using sym_sizes_at [OF ok(2)] by blast
    moreover have "whole_lots e (size_at pj' (None, sy))" unfolding moved_to by (rule whole_lots_mult)
    ultimately show "whole_lots e s" using others whole [of ow] by (cases ow) simp_all
  qed
  have split_off: "(\<Sum>k \<in> ?S. f (size_at q k)) = f (size_at q (None, sy)) + (\<Sum>k \<in> ?S - {(None, sy)}. f (size_at q k))"
    for f :: "rat \<Rightarrow> int" and q
    using K(1) by (subst sum.remove [of _ "(None, sy)"]) (auto simp: K_def)
  have rest: "(\<Sum>k \<in> ?S - {(None, sy)}. f (size_at pj' k)) = (\<Sum>k \<in> ?S - {(None, sy)}. f (size_at pj k))" for f :: "rat \<Rightarrow> int"
    using others by (intro sum.cong) (auto simp: prod_eq_iff split_paired_all)
  have lots': "lots_in e (size_at pj' (None, sy)) = u + (N - L)" unfolding moved_to by (rule lots_in_mult)
  have total': "(\<Sum>s \<leftarrow> sym_sizes pj' sy. lots_in e s) = N"
    using sum_sizes [OF ok(2) K(1,3), of "lots_in e" sy] sum_sizes [OF ok(1) K(1,2), of "lots_in e" sy]
      split_off [of "lots_in e" pj] split_off [of "lots_in e" pj'] rest [of "lots_in e"] lots'
    by (simp add: L_def u_def)
  have "(\<Sum>s \<leftarrow> sym_sizes pj' sy. \<bar>lots_in e s\<bar>) = A - \<bar>u\<bar> + \<bar>u + (N - L)\<bar>"
    using sum_sizes [OF ok(2) K(1,3), of "\<lambda>s. \<bar>lots_in e s\<bar>" sy] sum_sizes [OF ok(1) K(1,2), of "\<lambda>s. \<bar>lots_in e s\<bar>" sy]
      split_off [of "\<lambda>s. \<bar>lots_in e s\<bar>" pj] split_off [of "\<lambda>s. \<bar>lots_in e s\<bar>" pj'] rest [of "\<lambda>s. \<bar>lots_in e s\<bar>"] lots'
    by (simp add: A_def u_def)
  with bound LA have "(\<Sum>s \<leftarrow> sym_sizes pj' sy. \<bar>lots_in e s\<bar>) < 10 ^ 28" by linarith
  from dsum_whole [OF whole' this] show ?thesis by (simp add: total' x)
qed


section \<open>The folds of a heal\<close>

abbreviation heal_bookings :: "recon_fill list \<Rightarrow> (bookable \<times> side) list" where
  "heal_bookings fills \<equiv> map (\<lambda>f. (ReconciliationFill f, rc_side f)) fills"

lemma heal_bookings_owners [simp]: "owners_ok (heal_bookings fills)"
  by (auto simp: owners_ok_def)

lemma fold_heal:
  assumes "fold_fill pj (ReconciliationFill f) sd = Inr (pj', c)" "pj_ok pj"
  shows "change_key c = (None, rc_symbol f)"
    and "lc_changes c \<noteq> [] \<Longrightarrow> p_signed_size (lc_position c) =
      (let held = size_at pj (None, rc_symbol f); moved = signed_quantity sd (rc_quantity f)
       in if held = 0 then moved else dadd held moved)"
proof -
  have st: "bk_strategy (ReconciliationFill f) \<noteq> Some UNATTRIBUTED" by simp
  show key: "change_key c = (None, rc_symbol f)" using fold_fill_all [OF assms st] by simp
  assume some: "lc_changes c \<noteq> []"
  from assms(1) show "p_signed_size (lc_position c) =
      (let held = size_at pj (None, rc_symbol f); moved = signed_quantity sd (rc_quantity f)
       in if held = 0 then moved else dadd held moved)"
  proof (cases rule: fold_fill_cases)
    case (1 p fresh changes q)
    note P = partition_for_ok [OF assms(2) 1(1) st]
    have "size_at pj (None, rc_symbol f) = p_signed_size p"
      using P(2-4) 1(1) by (cases fresh) (auto simp: size_at_def partition_for_def new_position_def split: option.splits)
    moreover have "p_signed_size q = (if p_signed_size p = 0 then signed_quantity sd (rc_quantity f)
        else dadd (p_signed_size p) (signed_quantity sd (rc_quantity f)))"
      using apply_fill_booked(1,4) [OF 1(2)] some 1(3) by auto
    ultimately show ?thesis using 1(6) by (simp add: Let_def)
  qed
qed

text \<open>Fills of distinct symbols fold independently: each books onto what the ledger held.\<close>

lemma fold_heals:
  assumes "fold_fills pj (heal_bookings fills) = Inr (pj', cs)" "pj_ok pj" "distinct (map rc_symbol fills)"
  shows "map change_key cs = map (\<lambda>f. (None, rc_symbol f)) fills
    \<and> (\<forall>c \<in> set cs. change_position pj' c = lc_position c)
    \<and> (\<forall>(f, c) \<in> set (zip fills cs). lc_changes c \<noteq> [] \<longrightarrow> p_signed_size (lc_position c) =
        (let held = size_at pj (None, rc_symbol f); moved = signed_quantity (rc_side f) (rc_quantity f)
         in if held = 0 then moved else dadd held moved))"
  using assms
proof (induction fills arbitrary: pj cs)
  case (Cons f fills)
  from Cons.prems(1) obtain pj1 c cs1 where one: "fold_fill pj (ReconciliationFill f) (rc_side f) = Inr (pj1, c)"
    and rest: "fold_fills pj1 (heal_bookings fills) = Inr (pj', cs1)" and cs: "cs = c # cs1"
    by (auto simp: bind_res_eq_Inr)
  have st: "bk_strategy (ReconciliationFill f) \<noteq> Some UNATTRIBUTED" by simp
  note all = fold_fill_all [OF one Cons.prems(2) st]
  note files = fold_fill_files [OF one Cons.prems(2) st]
  note key = fold_heal(1) [OF one Cons.prems(2)]
  have ok1: "pj_ok pj1" using all by blast
  note ih = Cons.IH [OF rest ok1]
  have dis: "distinct (map rc_symbol fills)" "rc_symbol f \<notin> rc_symbol ` set fills" using Cons.prems(3) by auto
  note folds = fold_fills_to [OF rest ok1 heal_bookings_owners]
  have keys: "map change_key cs1 = map (\<lambda>f. (None, rc_symbol f)) fills" using ih dis(1) by blast
  have away: "change_key c \<notin> change_key ` set cs1"
  proof -
    have "change_key ` set cs1 = (\<lambda>f. (None, rc_symbol f)) ` set fills" using keys by (metis list.set_map)
    then show ?thesis using dis(2) key by auto
  qed
  then have kept: "map_of (pj_positions pj') (change_key c) = map_of (pj_positions pj1) (change_key c)"
    using folds unfolding folds_to_def by blast
  have mine: "change_position pj' c = lc_position c"
    unfolding change_position_def kept using files(2) [of "change_key c"] by (auto split: option.split)
  have same: "size_at pj1 (None, rc_symbol g) = size_at pj (None, rc_symbol g)" if "g \<in> set fills" for g
  proof -
    have "(None, rc_symbol g) \<noteq> change_key c" using that dis(2) key by (metis image_eqI prod.inject)
    then show ?thesis by (simp add: size_at_def files(2))
  qed
  have each: "lc_changes d \<noteq> [] \<longrightarrow> p_signed_size (lc_position d) =
      (let held = size_at pj (None, rc_symbol g); moved = signed_quantity (rc_side g) (rc_quantity g)
       in if held = 0 then moved else dadd held moved)" if "(g, d) \<in> set (zip fills cs1)" for g d
    using ih [OF dis(1), THEN conjunct2, THEN conjunct2] that unfolding same [OF set_zip_leftD [OF that], symmetric]
    by blast
  show ?case unfolding cs using ih [OF dis(1)] key mine fold_heal(2) [OF one Cons.prems(2)] each keys by auto
qed simp

lemma size_at_refiled:
  assumes "\<forall>q \<in> set gone. \<exists>p \<in> set (filed pj). \<exists>x. q = p\<lparr>p_isolated_collateral := x\<rparr>" "pj_ok pj"
  shows "size_at (foldl refile pj gone) k = size_at pj k"
proof (cases "List.find (\<lambda>p. key_of p = k) (rev gone)")
  case (Some q)
  then have "q \<in> set gone" "key_of q = k" by (auto dest: find_Some_mem)
  with assms(1) obtain p x where p: "p \<in> set (filed pj)" "q = p\<lparr>p_isolated_collateral := x\<rparr>" by blast
  have "map_of (pj_positions pj) k = Some p"
    using filed_lookup [OF assms(2) p(1)] \<open>key_of q = k\<close> by (simp add: key_of_def p(2))
  with p(2) show ?thesis by (simp add: size_at_def refile_all_lookup Some)
qed (simp add: size_at_def refile_all_lookup)

text \<open>What the heal wrote, partition by partition.\<close>

lemma apply_heal_booked:
  assumes "apply_heal pj fills cash snapshot = Inr (pj', change)"
  obtains cs pj1 gone where "fold_fills pj (heal_bookings fills) = Inr (pj1, cs)"
    "\<forall>q \<in> set gone. \<exists>p \<in> set (filed pj1). \<exists>x. q = p\<lparr>p_isolated_collateral := x\<rparr>"
    "pj_positions pj' = pj_positions (foldl refile pj1 gone)"
    "\<forall>h. change = Some h \<longrightarrow> hc_fills h = cs
       \<and> hc_applied h = set (map (\<lambda>(f, c). rc_event_id f) (filter (\<lambda>(f, c). lc_changes c \<noteq> []) (zip fills cs)))"
proof -
  from assms obtain pj1 cs pj2 gone where
    f: "fold_fills pj (heal_bookings fills) = Inr (pj1, cs)"
    and g: "(case snapshot of None \<Rightarrow> Inr (pj1, []) | Some v \<Rightarrow> ingest_collateral pj1 v) = Inr (pj2, gone)"
    and rest: "(let applied = set (map (\<lambda>(f, c). rc_event_id f) (filter (\<lambda>(f, c). lc_changes c \<noteq> []) (zip fills cs)))
       in if applied = {} \<and> cash = None \<and> gone = [] then Inr (pj2, None)
          else let pj3 = (case cash of None \<Rightarrow> pj2
                  | Some cc \<Rightarrow> pj2\<lparr>pj_account := correct_cash (pj_account pj2)
                      (dadd (cc_net_cash cc) (healed_basis pj2 cs))\<rparr>)
            in Inr (pj3, Some \<lparr>hc_fills = cs, hc_applied = applied, hc_collateral = gone\<rparr>)) = (Inr (pj', change) :: (portfolio \<times> heal_change option) res)"
    unfolding apply_heal_def by (elim bind_pair_InrE) (rule that, assumption+)
  have gone: "pj2 = foldl refile pj1 gone" "\<forall>q \<in> set gone. \<exists>p \<in> set (filed pj1). \<exists>x. q = p\<lparr>p_isolated_collateral := x\<rparr>"
    using g ingest_spec by (auto split: option.splits)
  have pos: "pj_positions pj' = pj_positions pj2"
    using rest by (auto simp: Let_def split: if_split_asm option.split_asm)
  have applied: "\<forall>h. change = Some h \<longrightarrow> hc_fills h = cs
       \<and> hc_applied h = set (map (\<lambda>(f, c). rc_event_id f) (filter (\<lambda>(f, c). lc_changes c \<noteq> []) (zip fills cs)))"
    using rest by (auto simp: Let_def split: if_split_asm)
  show thesis by (rule that [OF f gone(2) _ applied]) (simp add: pos gone(1))
qed

lemma size_at_projected:
  assumes "folds_to pj pj1 cs" "pj_ok pj" "\<forall>k. size_at pj3 k = size_at pj1 k"
    "\<forall>c \<in> set cs. change_position pj1 c = lc_position c" "distinct (map change_key cs)"
  shows "c \<in> set cs \<Longrightarrow> size_at (foldl project pj3 cs) (change_key c) = p_signed_size (lc_position c)"
    and "k \<notin> change_key ` set cs \<Longrightarrow> size_at (foldl project pj3 cs) k = size_at pj k"
proof -
  have look: "size_at (foldl project pj3 cs) k = size_at (foldl project pj1 cs) k" for k
  proof (cases "List.find (\<lambda>c. change_key c = k \<and> lc_fresh c) (rev cs)")
    case None
    then have "size_at (foldl project pj3 cs) k = size_at pj3 k" "size_at (foldl project pj1 cs) k = size_at pj1 k"
      by (simp_all add: size_at_def project_lookup)
    then show ?thesis using assms(3) by simp
  qed (simp add: size_at_def project_lookup)
  have ok1: "pj_ok pj1" using assms(1) by (simp add: folds_to_def)
  have written: "map_of (pj_positions (foldl project pj1 cs)) k = (case List.find (\<lambda>c. change_key c = k) (rev cs) of
       Some c \<Rightarrow> Some (change_position pj1 c) | None \<Rightarrow> map_of (pj_positions pj) k)" for k
    unfolding projected_written [OF assms(1,2)]
    by (simp add: rev_map find_map key_change_position [OF ok1] split: option.split)
  show "k \<notin> change_key ` set cs \<Longrightarrow> size_at (foldl project pj3 cs) k = size_at pj k"
  proof -
    assume "k \<notin> change_key ` set cs"
    then have "List.find (\<lambda>c. change_key c = k) (rev cs) = None" by (auto simp: find_None_iff)
    then show ?thesis unfolding look by (simp add: size_at_def written)
  qed
  assume c: "c \<in> set cs"
  then have "List.find (\<lambda>d. change_key d = change_key c) (rev cs) \<noteq> None" by (auto simp: find_None_iff)
  then obtain d where d: "List.find (\<lambda>d. change_key d = change_key c) (rev cs) = Some d" by auto
  then have "d \<in> set cs" "change_key d = change_key c" by (auto dest: find_Some_mem)
  then have "d = c" using assms(5) c by (auto simp: distinct_map inj_on_def)
  then show "size_at (foldl project pj3 cs) (change_key c) = p_signed_size (lc_position c)"
    unfolding look using assms(4) c by (simp add: size_at_def written d)
qed


section \<open>The heals of a pass\<close>

definition venue_size :: "venue_account_state \<Rightarrow> string \<Rightarrow> decimal" where
  "venue_size v sy = dget (dict_of (map (\<lambda>p. (vp_symbol p, vp_signed_size p)) (va_positions v))) sy 0"

lemma distinct_size_findings: "distinct (map dv_symbol (size_findings_of v r))"
proof -
  have "map dv_symbol (size_findings_of v r) = map (Some \<circ> fst)
      (net_diff (reading_net r) (dict_of (map (\<lambda>p. (vp_symbol p, vp_signed_size p)) (va_positions v))))"
    by (auto simp: size_findings_of_def)
  moreover have "distinct (map fst (net_diff left right))" for left right
    unfolding net_diff_def by (intro distinct_map_filter) (simp add: o_def distinct_sort_by [where f = id, simplified])
  ultimately show ?thesis by (simp add: distinct_map comp_inj_on_iff inj_on_def)
qed

text \<open>Only size findings are healed, each symbol once.\<close>

lemma healed_sizes:
  assumes "classify v r b now before previous = Inr fs"
  shows "distinct (map (rc_symbol \<circ> sh_fill) (rn_heals fs))"
    and "h \<in> set (rn_heals fs) \<Longrightarrow> \<exists>d sy price. h = size_heal_of d sy price now \<and> dv_symbol d = Some sy
      \<and> dv_ledger d = dget (reading_net r) sy 0 \<and> dv_venue d = venue_size v sy"
proof -
  from assms obtain ds where ds: "all_divergences v r = Inr ds"
    and heals: "map sh_divergence (rn_heals fs) = filter (healable (filled_since r before) previous (entry_prices v)) ds"
    and form: "\<forall>h \<in> set (rn_heals fs). \<exists>d sy price. h = size_heal_of d sy price now \<and> dv_symbol d = Some sy"
    by (rule classify_plan)
  from ds obtain net rest where n: "net_cash_findings v r (size_findings_of v r) = Inr net"
    and split_ds: "ds = net @ size_findings_of v r @ rest" and tier: "\<forall>d \<in> set rest. well_formed r d \<and> dv_tier d = TIER_2"
    by (rule all_divergences_split)
  have "filter (healable (filled_since r before) previous (entry_prices v)) net = []"
    using net_cash_shape [OF n] by (auto simp: healable_def)
  moreover have "filter (healable (filled_since r before) previous (entry_prices v)) rest = []"
    using tier by (auto simp: healable_def filter_empty_conv)
  ultimately have only: "map sh_divergence (rn_heals fs) =
      filter (healable (filled_since r before) previous (entry_prices v)) (size_findings_of v r)"
    using heals by (simp add: split_ds)
  have "map (Some \<circ> rc_symbol \<circ> sh_fill) (rn_heals fs) = map dv_symbol (map sh_divergence (rn_heals fs))"
    using form by (auto simp: size_heal_of_def Let_def)
  moreover have "distinct (map dv_symbol (map sh_divergence (rn_heals fs)))"
    unfolding only by (rule distinct_map_filter [OF distinct_size_findings])
  ultimately have "distinct (map (Some \<circ> rc_symbol \<circ> sh_fill) (rn_heals fs))" by (simp only:)
  then show "distinct (map (rc_symbol \<circ> sh_fill) (rn_heals fs))"
    by (auto simp: distinct_map inj_on_def)
  assume h: "h \<in> set (rn_heals fs)"
  then obtain d sy price where f: "h = size_heal_of d sy price now" "dv_symbol d = Some sy" using form by blast
  have "sh_divergence h \<in> set (map sh_divergence (rn_heals fs))" using h by simp
  then have "d \<in> set (size_findings_of v r)" unfolding only by (simp add: f(1))
  then show "\<exists>d sy price. h = size_heal_of d sy price now \<and> dv_symbol d = Some sy
      \<and> dv_ledger d = dget (reading_net r) sy 0 \<and> dv_venue d = venue_size v sy"
    using f sizes_shape [of d v r] unfolding venue_size_def by fastforce
qed

lemma signed_heal:
  "signed_quantity (rc_side (sh_fill (size_heal_of d sy price now))) (rc_quantity (sh_fill (size_heal_of d sy price now)))
    = dsub (dv_venue d) (dv_ledger d)"
proof -
  define x where "x = dsub (dv_venue d) (dv_ledger d)"
  have "dabs x = \<bar>x\<bar>" "dneg \<bar>x\<bar> = - \<bar>x\<bar>" by (simp_all add: x_def dec_exact)
  then have "signed_quantity (if 0 < x then BUY else SELL) (dabs x) = x" by (simp add: signed_quantity_def)
  then show ?thesis unfolding size_heal_of_def Let_def x_def by simp
qed

text \<open>On the grid the gap, and the partition that takes it, are exact.\<close>

lemma gap_exact:
  assumes "gap_on_grid e pj sy x" "pj_ok pj"
  shows "(let held = size_at pj (None, sy); moved = dsub x (dsum (sym_sizes pj sy))
      in if held = 0 then moved else dadd held moved) = size_at pj (None, sy) + (x - dsum (sym_sizes pj sy))"
proof -
  define L where "L = (\<Sum>s \<leftarrow> sym_sizes pj sy. lots_in e s)"
  define A where "A = (\<Sum>s \<leftarrow> sym_sizes pj sy. \<bar>lots_in e s\<bar>)"
  define N where "N = lots_in e x"
  define u where "u = lots_in e (size_at pj (None, sy))"
  have x: "x = of_int N * pow10 e" using assms(1) by (simp add: gap_on_grid_def whole_lots_def N_def)
  have bound: "2 * A + \<bar>N\<bar> < 10 ^ 28" using assms(1) by (simp add: gap_on_grid_def A_def N_def)
  have "0 \<le> A" unfolding A_def by (rule sum_list_nonneg) auto
  with bound have small: "A < 10 ^ 28" by linarith
  have sum: "dsum (sym_sizes pj sy) = of_int L * pow10 e"
    using assms(1) small unfolding L_def A_def gap_on_grid_def by (intro dsum_whole) auto
  have LA: "\<bar>L\<bar> \<le> A" unfolding L_def A_def
    using abs_sum_list_le [of "lots_in e" "map (\<lambda>s. ((), s)) (sym_sizes pj sy)"] by (simp add: o_def)
  have held: "whole_lots e (size_at pj (None, sy)) \<and> \<bar>u\<bar> \<le> A"
  proof (cases "size_at pj (None, sy) = 0")
    case False
    then have mem: "size_at pj (None, sy) \<in> set (sym_sizes pj sy)" using size_at_sym [OF assms(2)] by blast
    then have "\<bar>u\<bar> \<in> set (map (\<lambda>s. \<bar>lots_in e s\<bar>) (sym_sizes pj sy))" by (simp add: u_def)
    then have "\<bar>u\<bar> \<le> A" unfolding A_def by (intro member_le_sum_list) auto
    with mem assms(1) show ?thesis by (auto simp: gap_on_grid_def)
  qed (use \<open>0 \<le> A\<close> in \<open>simp add: u_def\<close>)
  then have u: "size_at pj (None, sy) = of_int u * pow10 e" by (simp add: whole_lots_def u_def)
  have "fits (of_int (N - L) * pow10 e)" by (rule fits_scaled) (use bound LA in linarith)
  then have moved: "dsub x (dsum (sym_sizes pj sy)) = x - dsum (sym_sizes pj sy)"
    unfolding sum x by (simp add: dec_exact left_diff_distrib)
  have "fits (of_int (u + (N - L)) * pow10 e)" by (rule fits_scaled) (use bound LA held in linarith)
  then have "fits (size_at pj (None, sy) + (x - dsum (sym_sizes pj sy)))"
    unfolding sum x u by (simp add: algebra_simps)
  then show ?thesis by (simp add: moved Let_def dec_exact)
qed


section \<open>A heal closes its gap\<close>

lemma heal_fill [simp]: "rc_symbol (sh_fill (size_heal_of d sy price now)) = sy"
  "rc_ts_ns (sh_fill (size_heal_of d sy price now)) = now"
  by (simp_all add: size_heal_of_def Let_def)

lemma ident_of_heal:
  "h = size_heal_of d sy price now \<Longrightarrow> rc_event_id (sh_fill h) = ''reconcile:'' @ rc_symbol (sh_fill h) @ '':'' @ show_int now"
  by (simp add: rc_event_id_def)

text \<open>The write, seen from one healed symbol: the unattributed partition alone moved, by the gap.\<close>

lemma heal_moves_one:
  assumes heal: "checkpoint_heal ok ts cp fills cash snapshot = Inr (cp', Some hc)"
    and synced: "cp_synced {} cp" and dis: "distinct (map rc_symbol fills)"
    and f: "f \<in> set fills" "rc_event_id f \<in> hc_applied hc" and ids: "inj_on rc_event_id (set fills)"
  shows "size_at (cp_portfolio cp') (None, rc_symbol f) =
      (let held = size_at (cp_portfolio cp) (None, rc_symbol f); moved = signed_quantity (rc_side f) (rc_quantity f)
       in if held = 0 then moved else dadd held moved)
    \<and> (\<forall>ow. ow \<noteq> None \<longrightarrow> size_at (cp_portfolio cp') (ow, sy) = size_at (cp_portfolio cp) (ow, sy))"
proof -
  from heal obtain pj pj' change where o: "require_open_ledger cp = Inr pj"
    and h: "apply_heal pj fills cash snapshot = Inr (pj', change)"
    and rest: "(case change of
         None \<Rightarrow> Inr (cp\<lparr>cp_portfolio := pj'\<rparr>, None)
       | Some h \<Rightarrow>
           bind_res (checkpoint_ledger ok (cp_store cp) (pj_account pj') (heal_rows pj' h) None None ts) (\<lambda>s.
             Inr (cp\<lparr>cp_store := s, cp_portfolio := project_heal pj' h\<rparr>, Some h))) = Inr (cp', Some hc)"
    unfolding checkpoint_heal_def by (auto simp only: bind_res_eq_Inr split_paired_Ex prod.case)
  have change: "change = Some hc" and cp': "cp_portfolio cp' = project_heal pj' hc"
    using rest by (auto simp: bind_res_eq_Inr split: option.split_asm)
  have "synced (cp_store cp) pj" using require_open_synced [OF o] synced by (simp add: cp_synced_def)
  then have ok: "pj_ok pj" by (simp add: synced_def)
  have same: "size_at pj k = size_at (cp_portfolio cp) k" for k
    using o by (auto simp: require_open_ledger_def size_at_def split: if_split_asm)
  from h show ?thesis
  proof (rule apply_heal_booked)
    fix cs pj1 gone
    assume F: "fold_fills pj (heal_bookings fills) = Inr (pj1, cs)"
      and G: "\<forall>q \<in> set gone. \<exists>p \<in> set (filed pj1). \<exists>x. q = p\<lparr>p_isolated_collateral := x\<rparr>"
      and P: "pj_positions pj' = pj_positions (foldl refile pj1 gone)"
      and H: "\<forall>h. change = Some h \<longrightarrow> hc_fills h = cs
       \<and> hc_applied h = set (map (\<lambda>(f, c). rc_event_id f) (filter (\<lambda>(f, c). lc_changes c \<noteq> []) (zip fills cs)))"
    note folds = fold_fills_to [OF F ok heal_bookings_owners]
    have ok1: "pj_ok pj1" using folds by (simp add: folds_to_def)
    have C: "map change_key cs = map (\<lambda>f. (None, rc_symbol f)) fills"
      "\<forall>c \<in> set cs. change_position pj1 c = lc_position c"
      "\<forall>(f, c) \<in> set (zip fills cs). lc_changes c \<noteq> [] \<longrightarrow> p_signed_size (lc_position c) =
        (let held = size_at pj (None, rc_symbol f); moved = signed_quantity (rc_side f) (rc_quantity f)
         in if held = 0 then moved else dadd held moved)" using fold_heals [OF F ok dis] by blast+
    have dk: "distinct (map change_key cs)" unfolding C(1) using dis by (auto simp: distinct_map inj_on_def)
    have refiled: "\<forall>k. size_at pj' k = size_at pj1 k" using size_at_refiled [OF G ok1] by (simp add: size_at_def P)
    note S = size_at_projected [OF folds ok refiled C(2) dk]
    have hc: "hc_fills hc = cs"
      "hc_applied hc = set (map (\<lambda>(f, c). rc_event_id f) (filter (\<lambda>(f, c). lc_changes c \<noteq> []) (zip fills cs)))"
      using H change by simp_all
    have proj: "cp_portfolio cp' = foldl project pj' cs" by (simp add: cp' project_heal_def hc(1))
    from f(2) obtain g c where g: "(g, c) \<in> set (zip fills cs)" "lc_changes c \<noteq> []" "rc_event_id g = rc_event_id f"
      unfolding hc(2) by auto
    then have "g = f" using ids f(1) by (auto simp: inj_on_def dest: set_zip_leftD)
    have c: "c \<in> set cs" using g(1) by (rule set_zip_rightD)
    have key: "change_key c = (None, rc_symbol f)"
    proof -
      from g(1) obtain i where i: "i < length fills" "i < length cs" "g = fills ! i" "c = cs ! i"
        by (auto simp: set_zip)
      have "map change_key cs ! i = map (\<lambda>f. (None, rc_symbol f)) fills ! i" by (simp only: C(1))
      then show ?thesis using i \<open>g = f\<close> by simp
    qed
    have booked: "p_signed_size (lc_position c) =
        (let held = size_at pj (None, rc_symbol f); moved = signed_quantity (rc_side f) (rc_quantity f)
         in if held = 0 then moved else dadd held moved)" using C(3) g(1,2) \<open>g = f\<close> by blast
    have "size_at (cp_portfolio cp') (None, rc_symbol f) =
      (let held = size_at (cp_portfolio cp) (None, rc_symbol f); moved = signed_quantity (rc_side f) (rc_quantity f)
       in if held = 0 then moved else dadd held moved)"
      using S(1) [OF c] booked unfolding proj key by (simp add: same)
    moreover have "size_at (cp_portfolio cp') (ow, sy) = size_at (cp_portfolio cp) (ow, sy)" if "ow \<noteq> None" for ow
    proof -
      have "change_key ` set cs = (\<lambda>f. (None, rc_symbol f)) ` set fills" using C(1) by (metis list.set_map)
      then have "(ow, sy) \<notin> change_key ` set cs" using that by auto
      from S(2) [OF this] show ?thesis unfolding proj by (simp add: same)
    qed
    ultimately show ?thesis by blast
  qed
qed

lemma observed_synced:
  "cp_synced T cp \<Longrightarrow> cp_synced T (cp\<lparr>cp_portfolio := observe_venue_liquidation (cp_portfolio cp) v\<rparr>)"
  by (simp add: cp_synced_def synced_def observe_venue_liquidation_def pj_ok_def)

lemma cp_synced_ok: "cp_synced T cp \<Longrightarrow> pj_ok (cp_portfolio cp)"
  by (simp add: cp_synced_def synced_def)

lemma gate_cash_same: "gate_cash verify cp cash = (cp', kept, recs) \<Longrightarrow> \<forall>c. fst (verify c) = c \<Longrightarrow> cp' = cp"
  by (auto simp: gate_cash_def mode_verified_def split: option.split_asm prod.split_asm if_split_asm)
    (metis fst_conv)+


text \<open>Two heals of one pass carry different ids: the ids name their symbols.\<close>

lemma heal_ids_differ:
  assumes "\<forall>h \<in> set heals. rc_event_id (sh_fill h) = ''reconcile:'' @ rc_symbol (sh_fill h) @ '':'' @ show_int now"
    "distinct (map (rc_symbol \<circ> sh_fill) heals)"
  shows "inj_on rc_event_id (set (map sh_fill heals))"
proof (rule inj_onI)
  fix f g assume "f \<in> set (map sh_fill heals)" "g \<in> set (map sh_fill heals)" "rc_event_id f = rc_event_id g"
  then obtain h k where h: "h \<in> set heals" "f = sh_fill h" and k: "k \<in> set heals" "g = sh_fill k"
    and same: "rc_event_id (sh_fill h) = rc_event_id (sh_fill k)" by auto
  have "rc_symbol (sh_fill h) = rc_symbol (sh_fill k)" using same assms(1) h(1) k(1) by simp
  then show "f = g" using assms(2) h k by (auto simp: distinct_map inj_on_def)
qed


lemma demo_ledger_synced: "cp_synced {} demo_ledger"
proof -
  obtain cp where cp: "cp_recover True 5 demo_start = Inr cp" using demo_opens by (auto simp: ran_iff)
  from observed_synced [OF demo_synced [OF cp]] show ?thesis by (simp add: demo_ledger_def cp)
qed

lemma demo_on_grid: "gap_on_grid 0 (cp_portfolio demo_ledger) ''BTC'' (venue_size demo_account_state ''BTC'')"
proof -
  have "sym_sizes (cp_portfolio demo_ledger) ''BTC'' = []" by code_simp
  moreover have "venue_size demo_account_state ''BTC'' = 2" by code_simp
  ultimately show ?thesis by (simp add: gap_on_grid_def whole_lots_def)
qed


end
