(* ===== verification/TW_Ledger_Shape.thy ===== *)
theory TW_Ledger_Shape
  imports TW_Ledger_Heal
begin

text \<open>
  The classification of a pass never reaches a missing key or an unpack of the wrong length:
  every lookup it makes is of a symbol it found on the side it looks in. What it can raise is
  the decimal context's own signals, for figures of more than 28 digits.
\<close>

section \<open>Lookups that cannot miss\<close>

definition arithmetic_only :: "'a res \<Rightarrow> bool" where
  "arithmetic_only x \<longleftrightarrow> (\<forall>e. x = Inl e \<longrightarrow> e = InvalidOperation \<or> e = DivisionByZero)"

lemma arithmetic_Inr [simp]: "arithmetic_only (Inr x)"
  by (simp add: arithmetic_only_def)

lemma arithmetic_bind:
  "arithmetic_only m \<Longrightarrow> (\<And>x. m = Inr x \<Longrightarrow> arithmetic_only (f x)) \<Longrightarrow> arithmetic_only (bind_res m f)"
  by (cases m) (auto simp: arithmetic_only_def)

lemma arithmetic_traverse: "(\<And>x. x \<in> set xs \<Longrightarrow> arithmetic_only (f x)) \<Longrightarrow> arithmetic_only (traverse f xs)"
  by (induction xs) (auto intro!: arithmetic_bind)

lemma arithmetic_ddiv: "arithmetic_only (ddiv x y)"
  by (auto simp: arithmetic_only_def ddiv_def)

lemma arithmetic_quantize: "arithmetic_only (quantize x e m)"
  using quantize_error by (auto simp: arithmetic_only_def)

lemma row_present: "map_of (lr_rows r) sy \<noteq> None \<Longrightarrow> arithmetic_only (reading_row r sy)"
  by (auto simp: reading_row_def)

lemma holds_row: "reading_holds r sy \<Longrightarrow> map_of (lr_rows r) sy \<noteq> None"
  by (auto simp: reading_holds_def split: option.split_asm)

lemma terms_rows: "sy \<in> set (terms_of r fld None) \<Longrightarrow> map_of (lr_rows r) sy \<noteq> None"
  using holds_row by (auto simp: terms_of_def)

lemma arithmetic_sum_rows: "arithmetic_only (sum_rows r figure (terms_of r fld None))"
  unfolding sum_rows_def by (intro arithmetic_bind arithmetic_traverse row_present terms_rows) simp_all

lemma arithmetic_grain:
  "(fld, ours, theirs) \<in> set ACCOUNT_GRAIN \<Longrightarrow> arithmetic_only (ours r)"
  using arithmetic_sum_rows by (auto simp: ACCOUNT_GRAIN_def cross_maintenance_def)

lemma arithmetic_account_grain: "compared \<in> set ACCOUNT_GRAIN \<Longrightarrow> arithmetic_only (account_grain v r compared)"
  unfolding account_grain_def by (cases compared) (auto intro!: arithmetic_bind arithmetic_grain)

lemma arithmetic_per_symbol: "arithmetic_only (per_symbol v r compared)"
  unfolding per_symbol_def figure_finding_def
  by (cases compared) (auto intro!: arithmetic_bind arithmetic_traverse row_present dest: holds_row)

lemma arithmetic_unvalued: "arithmetic_only (unvalued v r)"
  unfolding unvalued_def
  by (intro arithmetic_bind arithmetic_traverse)
    (auto intro!: arithmetic_bind arithmetic_traverse row_present arithmetic_grain dest: holds_row split: prod.split)

text \<open>A diverged symbol that has no row is one the venue posts.\<close>

lemma diverged_known:
  assumes "sy \<in> set (diverged_symbols (size_findings_of v r))" "sy \<notin> set (map fst (lr_rows r))"
  shows "arithmetic_only (basis_at v sy)"
proof -
  have keys: "map fst (reading_net r) = map fst (lr_rows r)" by (auto simp: reading_net_def)
  have "sy \<in> set (map fst (reading_net r)) \<union> fst ` set (dict_of (map (\<lambda>p. (vp_symbol p, vp_signed_size p)) (va_positions v)))"
    using assms(1) by (auto simp: diverged_symbols_def size_findings_of_def net_diff_def image_iff)
  with assms(2) have "sy \<in> vp_symbol ` set (va_positions v)" by (auto simp: keys fst_set_dict_of image_image)
  then have "sy \<in> fst ` set (venue_basis v)" by (simp add: venue_basis_def fst_set_dict_of image_image)
  then have "map_of (venue_basis v) sy \<noteq> None" by (simp add: map_of_eq_None_iff)
  then show ?thesis by (auto simp: basis_at_def)
qed

lemma arithmetic_divergences: "arithmetic_only (all_divergences v r)"
proof -
  have "arithmetic_only (net_cash_findings v r (size_findings_of v r))"
    unfolding net_cash_findings_def ledger_net_cash_def Let_def
    by (intro arithmetic_bind arithmetic_traverse arithmetic_quantize)
      (auto intro: diverged_known)
  then show ?thesis unfolding all_divergences_def
    by (intro arithmetic_bind arithmetic_traverse arithmetic_account_grain arithmetic_per_symbol) simp_all
qed

lemma arithmetic_stale: "check_band b = Inr b' \<Longrightarrow> arithmetic_only (stale_symbols r now b)"
  unfolding stale_symbols_def check_band_def band_stale_def bind_res_eq_Inr
  by (elim exE conjE, intro arithmetic_bind arithmetic_traverse) (auto split: prod.split)

lemma arithmetic_alerts:
  "\<forall>d \<in> set ds. well_formed r d \<Longrightarrow> arithmetic_only (alert_loop r b explained stale ds)"
proof (induction ds)
  case (Cons d ds)
  have "arithmetic_only (reference_of d r)" if "dv_tier d = TIER_2"
  proof (cases "dv_symbol d")
    case None
    then show ?thesis using arithmetic_sum_rows by (simp add: reference_of_def cross_maintenance_def)
  next
    case (Some sy)
    then have "map_of (lr_rows r) sy \<noteq> None" using Cons.prems that by (auto simp: well_formed_def)
    then show ?thesis unfolding reference_of_def Some
      by (auto intro!: arithmetic_bind row_present arithmetic_ddiv split: option.split)
  qed
  then have one: "arithmetic_only (if dv_tier d \<noteq> TIER_2 \<or> explained_by_tier_1 d explained r then Inr True
               else bind_res (reference_of d r) (\<lambda>reference. Inr (band_covers b d reference)))"
    by (cases "dv_tier d") (auto intro!: arithmetic_bind)
  show ?case unfolding alert_loop.simps
    using Cons one by (intro arithmetic_bind) (auto split: prod.split)
qed simp

lemma arithmetic_plan_cash:
  "length (hp_cash_findings plan) \<le> 1 \<Longrightarrow> arithmetic_only (plan_cash filled previous sizes now plan)"
  by (cases "hp_cash_findings plan") (auto simp: plan_cash_def Let_def)

lemma alerts_are_tier_2:
  "alert_loop r b explained stale ds = Inr (alerts, n) \<Longrightarrow> set alerts \<subseteq> {d \<in> set ds. dv_tier d = TIER_2}"
proof (induction ds arbitrary: alerts n)
  case (Cons d ds)
  from Cons.prems obtain quiet alerts' n' where
    "(if dv_tier d \<noteq> TIER_2 \<or> explained_by_tier_1 d explained r then Inr True
       else bind_res (reference_of d r) (\<lambda>reference. Inr (band_covers b d reference))) = (Inr quiet :: bool res)"
    and rest: "alert_loop r b explained stale ds = Inr (alerts', n')"
    and out: "(if quiet then (alerts', n') else if rests_on_stale d stale r then (alerts', n' + 1) else (d # alerts', n'))
      = (alerts, n)"
    unfolding alert_loop.simps by (elim bind_InrE bind_pair_InrE) auto
  then have "dv_tier d = TIER_2 \<or> quiet" by (auto split: if_split_asm)
  with out Cons.IH [OF rest] show ?case by (auto split: if_split_asm)
qed simp

text \<open>
  C24. Every finding has the shape of its field. With a band whose mark age is a duration,
  classifying any snapshot against any reading never raises for a missing symbol or an
  unexpected number of cash findings, only the decimal context's signals; and what it finds
  is Tier-1 exactly for the net cash and the sizes, names a symbol exactly for the per-symbol
  fields (for Tier-2, one the ledger has a row for), alerts only at Tier-2 and heals only
  Tier-1 sizes.
\<close>

theorem findings_well_formed:
  assumes "check_band b = Inr b'"
  shows "case classify v r b now before previous of
      Inl e \<Rightarrow> e = InvalidOperation \<or> e = DivisionByZero
    | Inr fs \<Rightarrow> (\<forall>d \<in> set (rn_divergences fs). well_formed r d)
        \<and> (\<forall>d \<in> set (rn_alerts fs). dv_tier d = TIER_2)
        \<and> (\<forall>h \<in> set (rn_heals fs). dv_tier (sh_divergence h) = TIER_1 \<and> dv_field (sh_divergence h) = SIGNED_SIZE)"
proof (cases "classify v r b now before previous")
  case (Inl e)
  have "arithmetic_only (classify v r b now before previous)"
    unfolding classify_def Let_def
  proof (intro arithmetic_bind arithmetic_divergences arithmetic_stale [OF assms])
    fix ds stale assume ds: "all_divergences v r = Inr ds"
    show "arithmetic_only (alert_loop r b (tier_1_grains ds) stale ds)"
      using divergences_well_formed [OF ds] by (intro arithmetic_alerts) blast
    fix x assume "alert_loop r b (tier_1_grains ds) stale ds = Inr x"
    obtain net rest where n: "net_cash_findings v r (size_findings_of v r) = Inr net"
      "ds = net @ size_findings_of v r @ rest" "\<forall>d \<in> set rest. well_formed r d \<and> dv_tier d = TIER_2"
      using ds by (rule all_divergences_split)
    have "filter (\<lambda>d. dv_tier d = TIER_1 \<and> dv_field d = NET_CASH) (size_findings_of v r) = []"
      by (auto simp: filter_empty_conv dest: sizes_shape)
    moreover have "filter (\<lambda>d. dv_tier d = TIER_1 \<and> dv_field d = NET_CASH) rest = []"
      using n(3) by (auto simp: filter_empty_conv)
    ultimately have one: "length (filter (\<lambda>d. dv_tier d = TIER_1 \<and> dv_field d = NET_CASH) ds) \<le> 1"
      using net_cash_shape [OF n(1)] by (auto simp: n(2))
    show "arithmetic_only (case x of (alerts, suppressed) \<Rightarrow>
        bind_res (plan_cash (filled_since r before) previous (length (size_findings_of v r)) now
            (foldl (plan_step (filled_since r before) previous (entry_prices v) now) empty_plan ds)) (\<lambda>(plan', cash).
          bind_res (unvalued v r) (\<lambda>dropped.
            Inr \<lparr>rn_divergences = ds, rn_alerts = alerts, rn_suppressed = suppressed,
              rn_unvalued = dropped, rn_heals = hp_heals plan', rn_cash = cash,
              rn_deferred = hp_deferred plan', rn_unconfirmed = hp_unconfirmed plan',
              rn_unpriced = hp_unpriced plan', rn_seen = seen_of ds (hp_forget plan')\<rparr>)))"
      using one by (auto intro!: arithmetic_bind arithmetic_plan_cash arithmetic_unvalued
          simp: fold_plan(2) empty_plan_def split: prod.split)
  qed
  with Inl show ?thesis by (simp add: arithmetic_only_def)
next
  case (Inr fs)
  from Inr obtain ds where ds: "all_divergences v r = Inr ds" "rn_divergences fs = ds"
    and heals: "map sh_divergence (rn_heals fs) = filter (healable (filled_since r before) previous (entry_prices v)) ds"
    by (rule classify_plan)
  have "set (rn_alerts fs) \<subseteq> {d \<in> set ds. dv_tier d = TIER_2}"
  proof -
    from Inr ds(1) obtain stale suppressed where
      "alert_loop r b (tier_1_grains ds) stale ds = Inr (rn_alerts fs, suppressed)"
      unfolding classify_def Let_def by (elim bind_pair_InrE bind_InrE) auto
    then show ?thesis by (rule alerts_are_tier_2)
  qed
  moreover have "dv_tier (sh_divergence h) = TIER_1 \<and> dv_field (sh_divergence h) = SIGNED_SIZE" if "h \<in> set (rn_heals fs)" for h
  proof -
    have "sh_divergence h \<in> set (map sh_divergence (rn_heals fs))" using that by simp
    then have "sh_divergence h \<in> set ds" "healable (filled_since r before) previous (entry_prices v) (sh_divergence h)"
      unfolding heals by simp_all
    with divergences_well_formed [OF ds(1)] show ?thesis by (auto simp: healable_def well_formed_def)
  qed
  ultimately show ?thesis using divergences_well_formed [OF ds(1)] by (auto simp: Inr ds(2))
qed

theorem findings_well_formed_witness:
  "well_formed demo_reading_at demo_gap \<and> demo_gap \<in> set (rn_divergences (demo_findings 50 {}))"
proof -
  have band: "check_band default_band = Inr default_band" by code_simp
  have "demo_gap \<in> set (rn_divergences (demo_findings 50 {}))" by code_simp
  with findings_well_formed [OF band, where v = demo_account_state and r = demo_reading_at and now = 50
      and before = 0 and previous = "{}"] show ?thesis
    by (simp add: demo_first)
qed

end
