(* ===== verification/TW_Exit.thy ===== *)
theory TW_Exit
  imports TW_Reconcile
begin

text \<open>
  The operator jobs, \<open>src/src/tickwright/engine/exit_run.py\<close>, and the emitter every signal leaves
  through, \<open>src/src/tickwright/domain/emitter.py\<close>. What the job can see of the engine is
  the record \<open>exit_state\<close>; every await is a field of \<open>exit_host\<close> that may change all of it, for
  the other loops, the handlers and the venue run there. A loop of the source that may run for
  ever takes fuel, and \<open>None\<close> is running out of it. The texts of an outcome are the data
  they list.
\<close>

section \<open>The emitter\<close>

record emitter =
  en_strategy_id :: string
  en_next_seq :: int

definition make_emitter :: "string \<Rightarrow> emitter" where
  "make_emitter sid = \<lparr>en_strategy_id = sid, en_next_seq = 1\<rparr>"

definition set_next_seq :: "int \<Rightarrow> emitter \<Rightarrow> emitter" where
  "set_next_seq n e = e\<lparr>en_next_seq := n\<rparr>"

definition take_seq :: "emitter \<Rightarrow> int \<times> emitter" where
  "take_seq e = (en_next_seq e, e\<lparr>en_next_seq := en_next_seq e + 1\<rparr>)"

text \<open>The sequence number is recorded before the bus sees the signal; \<open>ok\<close> is that write.\<close>

definition emit_record :: "bool \<Rightarrow> checkpointer \<Rightarrow> emitter \<Rightarrow> int \<Rightarrow> checkpointer res" where
  "emit_record ok cp e n = cp_raise_seq ok cp (en_strategy_id e) n"

definition emit_place ::
  "bool \<Rightarrow> emitter \<Rightarrow> checkpointer \<Rightarrow> string \<Rightarrow> side \<Rightarrow> decimal \<Rightarrow> order_type \<Rightarrow> time_in_force \<Rightarrow> decimal option \<Rightarrow>
    bool \<Rightarrow> bool \<Rightarrow> (emitter \<times> checkpointer \<times> signal) res" where
  "emit_place ok e cp symbol sd quantity kind tif price post_only reduce_only =
     (if kind = LIMIT \<and> price = None then Inl ValueError
      else if kind = MARKET \<and> price \<noteq> None then Inl ValueError
      else case take_seq e of (n, e') \<Rightarrow>
        let s = PlaceSignal \<lparr>ps_strategy_id = en_strategy_id e, ps_symbol = symbol, ps_seq = n, ps_side = sd,
              ps_quantity = quantity, ps_order_type = kind, ps_time_in_force = tif, ps_price = price,
              ps_post_only = post_only, ps_reduce_only = reduce_only\<rparr>
        in bind_res (emit_record ok cp e n) (\<lambda>cp'. Inr (e', cp', s)))"

definition emit_cancel ::
  "bool \<Rightarrow> emitter \<Rightarrow> checkpointer \<Rightarrow> string \<Rightarrow> string \<Rightarrow> (emitter \<times> checkpointer \<times> signal) res" where
  "emit_cancel ok e cp symbol target =
     (case take_seq e of (n, e') \<Rightarrow> bind_res (emit_record ok cp e n) (\<lambda>cp'.
        Inr (e', cp', CancelSignal (en_strategy_id e) symbol n target)))"

definition emit_cancel_all :: "bool \<Rightarrow> emitter \<Rightarrow> checkpointer \<Rightarrow> string \<Rightarrow> (emitter \<times> checkpointer \<times> signal) res" where
  "emit_cancel_all ok e cp symbol =
     (case take_seq e of (n, e') \<Rightarrow> bind_res (emit_record ok cp e n) (\<lambda>cp'.
        Inr (e', cp', CancelAllSignal (en_strategy_id e) symbol n)))"

section \<open>Which symbols are priced\<close>

record prices =
  tp_seen :: "(string, bool) dict"
  tp_traded :: "string set"
  tp_marked :: "string set"
  tp_waits :: bool

definition make_prices :: "string list \<Rightarrow> bool \<Rightarrow> prices" where
  "make_prices symbols waits =
     \<lparr>tp_seen = dict_of (map (\<lambda>s. (s, False)) symbols), tp_traded = {}, tp_marked = {}, tp_waits = waits\<rparr>"

definition note_symbol :: "string \<Rightarrow> prices \<Rightarrow> prices" where
  "note_symbol s p = (case map_of (tp_seen p) s of None \<Rightarrow> p
     | Some _ \<Rightarrow> if s \<in> tp_traded p \<and> s \<in> tp_marked p then p\<lparr>tp_seen := AList.update s True (tp_seen p)\<rparr> else p)"

definition note_trade :: "string \<Rightarrow> prices \<Rightarrow> prices" where
  "note_trade s p = note_symbol s (p\<lparr>tp_traded := insert s (tp_traded p)\<rparr>)"

definition note_mark :: "string \<Rightarrow> prices \<Rightarrow> prices" where
  "note_mark s p = note_symbol s (p\<lparr>tp_marked := insert s (tp_marked p)\<rparr>)"

section \<open>State and surroundings\<close>

datatype order_refusal = ADDRESS_LIMITED | IP_LIMITED | ORDER_REFUSED | ORDER_SEND_FAILED

definition rate_limit_of :: "order_refusal \<Rightarrow> string option" where
  "rate_limit_of r = (case r of ADDRESS_LIMITED \<Rightarrow> Some ''address'' | IP_LIMITED \<Rightarrow> Some ''ip'' | _ \<Rightarrow> None)"

datatype exit_note =
    DryAttempt string nat string
  | GaveUp string decimal
  | WaitedOut string string
  | OrdersRemain "string list"
  | Unguarded
  | NewStore

datatype exit_left =
    NothingLeft
  | ReadFailed venue_read_failure
  | StillThere "string list" "(string \<times> decimal) list"

datatype exit_status = DONE | STOPPED

record exit_outcome =
  eo_status :: exit_status
  eo_left :: exit_left

type_synonym open_row = "venue_open_order + external_order_ref"

record 'w exit_state =
  xs_checkpointer :: checkpointer
  xs_emitter :: emitter
  xs_guard :: "guard option"
  xs_prices :: prices
  xs_refusals :: "(string, order_refusal) dict"
  xs_notes :: "exit_note list"
  xs_world :: 'w

record 'w exit_host =
  eh_digest :: "string \<Rightarrow> string"
  eh_interval :: rat
  eh_write :: "'w exit_state \<Rightarrow> bool \<times> int"
  eh_await_price :: "string \<Rightarrow> 'w exit_state \<Rightarrow> 'w exit_state"
  eh_sleep :: "rat \<Rightarrow> 'w exit_state \<Rightarrow> 'w exit_state"
  eh_turn :: "'w exit_state \<Rightarrow> 'w exit_state"
  eh_drain :: "'w exit_state \<Rightarrow> 'w exit_state"
  eh_publish :: "signal \<Rightarrow> 'w exit_state \<Rightarrow> 'w exit_state"
  eh_account_pass :: "('w exit_state \<Rightarrow> 'w exit_state) option"
  eh_inflight :: "'w exit_state \<Rightarrow> pass_result \<times> 'w exit_state"
  eh_open_orders :: "'w exit_state \<Rightarrow> pass_result \<times> 'w exit_state"
  eh_fetch_orders :: "'w exit_state \<Rightarrow> (venue_read_failure + open_row list) \<times> 'w exit_state"
  eh_fetch_positions :: "'w exit_state \<Rightarrow> (venue_read_failure + (string, decimal) dict) \<times> 'w exit_state"
  eh_cancel :: "open_row list \<Rightarrow> 'w exit_state \<Rightarrow> 'w exit_state"
  eh_start_feed :: "string list \<Rightarrow> 'w exit_state \<Rightarrow> 'w exit_state"
  eh_feed_ended :: "'w exit_state \<Rightarrow> 'w exit_state"

definition note_exit :: "exit_note \<Rightarrow> 'w exit_state \<Rightarrow> 'w exit_state" where
  "note_exit x st = st\<lparr>xs_notes := xs_notes st @ [x]\<rparr>"

text \<open>A step of a loop: out of fuel, an exception, or a result.\<close>

definition bind_go :: "'a res option \<Rightarrow> ('a \<Rightarrow> 'b res option) \<Rightarrow> 'b res option" where
  "bind_go m f = (case m of None \<Rightarrow> None | Some (Inl e) \<Rightarrow> Some (Inl e) | Some (Inr a) \<Rightarrow> f a)"

lemma bind_go_simps [simp]:
  "bind_go None f = None" "bind_go (Some (Inl e)) f = Some (Inl e)" "bind_go (Some (Inr a)) f = f a"
  by (simp_all add: bind_go_def)

section \<open>Cancelling everything\<close>

definition admit_store :: "store \<Rightarrow> bool \<Rightarrow> bool \<times> exit_note list" where
  "admit_store s new_store =
     (if load_account s \<noteq> None then (True, []) else if new_store then (True, [NewStore]) else (False, []))"

definition describe_order :: "open_row \<Rightarrow> string" where
  "describe_order x = (case x of Inr ext \<Rightarrow> xr_venue_oid ext
     | Inl v \<Rightarrow> (case vo_venue_oid v of Some oid \<Rightarrow> if oid = '''' then vo_cloid v else oid | None \<Rightarrow> vo_cloid v))"

definition cancel_round ::
  "'w exit_host \<Rightarrow> (venue_read_failure + open_row list) \<Rightarrow> 'w exit_state \<Rightarrow>
    (venue_read_failure + open_row list) \<times> 'w exit_state" where
  "cancel_round h resting st = (case resting of
       Inl f \<Rightarrow> (Inl f, st)
     | Inr [] \<Rightarrow> (Inr [], st)
     | Inr rows \<Rightarrow> eh_fetch_orders h (eh_cancel h rows st))"

definition run_cancel_all :: "'w exit_host \<Rightarrow> 'w exit_state \<Rightarrow> exit_outcome \<times> 'w exit_state" where
  "run_cancel_all h st0 =
     (case eh_fetch_orders h st0 of (left0, st1) \<Rightarrow>
      case cancel_round h left0 st1 of (left1, st2) \<Rightarrow>
      case cancel_round h left1 st2 of (left2, st3) \<Rightarrow>
      (case left2 of
         Inl f \<Rightarrow> (\<lparr>eo_status = STOPPED, eo_left = ReadFailed f\<rparr>, st3)
       | Inr [] \<Rightarrow> (\<lparr>eo_status = DONE, eo_left = NothingLeft\<rparr>, st3)
       | Inr rows \<Rightarrow> (\<lparr>eo_status = STOPPED, eo_left = StillThere (map describe_order rows) []\<rparr>,
           note_exit (OrdersRemain (map describe_order rows)) st3)))"


section \<open>Dry attempts\<close>

abbreviation DRY_ATTEMPTS_TO_GIVE_UP :: nat where
  "DRY_ATTEMPTS_TO_GIVE_UP \<equiv> 3"

definition DRY_WAIT_SECONDS :: rat where "DRY_WAIT_SECONDS = 2"

definition RATE_LIMIT_WAIT_SECONDS :: rat where "RATE_LIMIT_WAIT_SECONDS = 10"

text \<open>The count belongs to one symbol's loop; it is an argument and a result of every step.\<close>

type_synonym 'w loop_state = "nat \<times> 'w exit_state"

definition gave_up ::
  "'w exit_host \<Rightarrow> string \<Rightarrow> string \<Rightarrow> decimal \<Rightarrow> 'w loop_state \<Rightarrow> bool \<times> 'w loop_state" where
  "gave_up h symbol reason remaining ls =
     (case ls of (dry, st) \<Rightarrow>
        let n = dry + 1; st1 = note_exit (DryAttempt symbol n reason) st
        in if n = DRY_ATTEMPTS_TO_GIVE_UP then (True, n, note_exit (GaveUp symbol remaining) st1)
           else (False, n, eh_sleep h DRY_WAIT_SECONDS st1))"

definition wait_out :: "'w exit_host \<Rightarrow> string \<Rightarrow> string \<Rightarrow> 'w loop_state \<Rightarrow> 'w loop_state" where
  "wait_out h symbol limit ls =
     (case ls of (dry, st) \<Rightarrow> (dry, eh_sleep h RATE_LIMIT_WAIT_SECONDS (note_exit (WaitedOut symbol limit) st)))"

definition read_failed ::
  "'w exit_host \<Rightarrow> string \<Rightarrow> decimal \<Rightarrow> bool \<Rightarrow> 'w loop_state \<Rightarrow> bool \<times> 'w loop_state" where
  "read_failed h symbol remaining rate_limited ls =
     (if rate_limited then (False, wait_out h symbol ''ip'' ls)
      else gave_up h symbol ''read_failed'' remaining ls)"

section \<open>Reads of the ledger and of the sagas\<close>

definition held_size :: "string \<Rightarrow> 'w exit_state \<Rightarrow> decimal" where
  "held_size symbol st = dget (account_net (cp_portfolio (xs_checkpointer st))) symbol 0"

definition decided :: "string \<Rightarrow> 'w exit_state \<Rightarrow> bool res" where
  "decided cloid st = (case cached_order (cp_cache (xs_checkpointer st)) cloid of
      None \<Rightarrow> Inl (InvariantViolation NoHandler)
    | Some od \<Rightarrow> Inr (is_terminal od))"

definition cum_filled :: "string \<Rightarrow> 'w exit_state \<Rightarrow> decimal" where
  "cum_filled cloid st = (case cached_order (cp_cache (xs_checkpointer st)) cloid of
      None \<Rightarrow> 0 | Some od \<Rightarrow> o_cum_qty od)"

definition close_filled :: "string \<Rightarrow> 'w exit_state \<Rightarrow> bool" where
  "close_filled cloid st \<longleftrightarrow> 0 < cum_filled cloid st"

section \<open>Turns: one close or pass at a time\<close>

definition note_refusal :: "string \<Rightarrow> order_refusal \<Rightarrow> 'w exit_state \<Rightarrow> 'w exit_state" where
  "note_refusal cloid r st = st\<lparr>xs_refusals := AList.update cloid r (xs_refusals st)\<rparr>"

definition account_turn :: "'w exit_host \<Rightarrow> 'w exit_state \<Rightarrow> 'w exit_state" where
  "account_turn h st = (case eh_account_pass h of None \<Rightarrow> st | Some pass \<Rightarrow> pass (eh_turn h st))"

definition run_pass :: "'w exit_host \<Rightarrow> 'w exit_state \<Rightarrow> pass_result \<times> 'w exit_state" where
  "run_pass h st =
     (case eh_inflight h (eh_turn h st) of (r, st1) \<Rightarrow>
        if r \<noteq> PROVED then (r, st1) else eh_open_orders h st1)"

text \<open>\<open>_close\<close>: one reduce-only market order for the whole size, through the emitter.\<close>

definition close_order ::
  "'w exit_host \<Rightarrow> string \<Rightarrow> decimal \<Rightarrow> 'w exit_state \<Rightarrow> (string \<times> 'w exit_state) res" where
  "close_order h symbol remaining st =
     bind_res (emit_place (fst (eh_write h st)) (xs_emitter st) (xs_checkpointer st) symbol
         (if 0 < remaining then SELL else BUY) (dabs remaining) MARKET IOC None False True) (\<lambda>(e, cp, s).
       Inr (derive_cloid (eh_digest h) (signal_id_of s),
            eh_publish h s (st\<lparr>xs_emitter := e, xs_checkpointer := cp\<rparr>)))"

definition close_turn ::
  "'w exit_host \<Rightarrow> string \<Rightarrow> decimal \<Rightarrow> 'w exit_state \<Rightarrow> (string \<times> order_refusal option \<times> 'w exit_state) res" where
  "close_turn h symbol remaining st =
     bind_res (close_order h symbol remaining (eh_turn h st)) (\<lambda>(cloid, st1).
       Inr (cloid, map_of (xs_refusals st1) cloid,
            st1\<lparr>xs_refusals := AList.delete cloid (xs_refusals st1)\<rparr>))"

section \<open>One symbol's loop\<close>

definition price_known :: "'w exit_host \<Rightarrow> string \<Rightarrow> 'w exit_state \<Rightarrow> (bool \<times> 'w exit_state) res" where
  "price_known h symbol st =
     (case map_of (tp_seen (xs_prices st)) symbol of
        None \<Rightarrow> Inl KeyError
      | Some seen \<Rightarrow>
          let st1 = (if tp_waits (xs_prices st) \<and> \<not> seen then eh_await_price h symbol st else st)
          in Inr (dget (tp_seen (xs_prices st1)) symbol False, st1))"

definition size_gap :: "'w exit_host \<Rightarrow> string \<Rightarrow> decimal \<Rightarrow> 'w exit_state \<Rightarrow> bool \<times> 'w exit_state" where
  "size_gap h symbol remaining st =
     (if held_size symbol st = remaining then (False, st)
      else let st1 = eh_drain h st in if held_size symbol st1 = remaining then (False, st1)
      else let st2 = account_turn h st1 in if held_size symbol st2 = remaining then (False, st2)
      else let st3 = account_turn h st2 in (held_size symbol st3 \<noteq> remaining, st3))"

fun await_verdict ::
  "nat \<Rightarrow> 'w exit_host \<Rightarrow> string \<Rightarrow> string \<Rightarrow> decimal \<Rightarrow> 'w loop_state \<Rightarrow> (bool \<times> 'w loop_state) res option" where
  "await_verdict 0 h symbol cloid remaining ls = None"
| "await_verdict (Suc n) h symbol cloid remaining (dry, st) =
     (case decided cloid st of
        Inl e \<Rightarrow> Some (Inl e)
      | Inr True \<Rightarrow> Some (Inr (True, dry, st))
      | Inr False \<Rightarrow>
          (case run_pass h (eh_sleep h (eh_interval h) st) of (r, st1) \<Rightarrow>
             if r = PROVED then await_verdict n h symbol cloid remaining (dry, st1)
             else (case read_failed h symbol remaining (r = RATE_LIMITED) (dry, st1) of (stop, ls1) \<Rightarrow>
               if stop then Some (Inr (False, ls1)) else await_verdict n h symbol cloid remaining ls1)))"

text \<open>\<open>_left\<close>: a flat venue ends the loop and moves what the strategies still hold.\<close>

definition settle_left ::
  "'w exit_host \<Rightarrow> string \<Rightarrow> decimal \<Rightarrow> 'w loop_state \<Rightarrow> (decimal option \<times> 'w loop_state) res" where
  "settle_left h symbol remaining ls =
     (case ls of (dry, st) \<Rightarrow>
        if remaining \<noteq> 0 then Inr (Some remaining, dry, st)
        else bind_res (checkpoint_leftover (fst (eh_write h st)) (snd (eh_write h st)) (xs_checkpointer st) symbol)
          (\<lambda>cp. Inr (None, dry, st\<lparr>xs_checkpointer := cp\<rparr>)))"

fun read_left ::
  "nat \<Rightarrow> 'w exit_host \<Rightarrow> string \<Rightarrow> decimal \<Rightarrow> 'w loop_state \<Rightarrow> (decimal option \<times> 'w loop_state) res option" where
  "read_left 0 h symbol held ls = None"
| "read_left (Suc n) h symbol held (dry, st) =
     (case eh_fetch_positions h st of
        (Inr positions, st1) \<Rightarrow> Some (settle_left h symbol (dget positions symbol 0) (dry, st1))
      | (Inl f, st1) \<Rightarrow>
          (case read_failed h symbol held (f = RATE_LIMITED_IP) (dry, st1) of (stop, ls1) \<Rightarrow>
             if stop then Some (Inr (None, ls1)) else read_left n h symbol held ls1))"

text \<open>
  A rate-limited close is waited out beside its verdict; the awaits of the verdict stand for
  what ran during the wait, and its sleep is taken after it.
\<close>

definition close_verdict ::
  "nat \<Rightarrow> 'w exit_host \<Rightarrow> string \<Rightarrow> decimal \<Rightarrow> string \<Rightarrow> order_refusal option \<Rightarrow> 'w loop_state \<Rightarrow>
    (bool \<times> 'w loop_state) res option" where
  "close_verdict n h symbol remaining cloid refusal ls =
     bind_go (await_verdict n h symbol cloid remaining ls) (\<lambda>(okay, ls1).
       Some (Inr (okay, case Option.bind refusal rate_limit_of of None \<Rightarrow> ls1 | Some limit \<Rightarrow> wait_out h symbol limit ls1)))"

text \<open>The first half of an attempt: whether the loop goes on, and why nothing was closed.\<close>

definition try_close ::
  "nat \<Rightarrow> 'w exit_host \<Rightarrow> string \<Rightarrow> decimal \<Rightarrow> 'w loop_state \<Rightarrow> (bool \<times> string option \<times> 'w loop_state) res option" where
  "try_close n h symbol remaining ls =
     (case ls of (dry, st) \<Rightarrow>
        bind_go (Some (price_known h symbol st)) (\<lambda>(priced, st1).
          if \<not> priced then Some (Inr (True, Some ''no_price'', dry, st1))
          else case size_gap h symbol remaining st1 of (gap, st2) \<Rightarrow>
            if gap then Some (Inr (True, Some ''size_gap'', dry, st2))
            else bind_go (Some (close_turn h symbol remaining st2)) (\<lambda>(cloid, refusal, st3).
              bind_go (close_verdict n h symbol remaining cloid refusal (dry, st3)) (\<lambda>(okay, dry1, st4).
                Some (Inr (if \<not> okay then (False, None, dry1, st4)
                  else if close_filled cloid st4 then (True, None, 0, st4)
                  else if Option.bind refusal rate_limit_of = None
                    then (True, Some (if refusal = None then ''no_fill'' else ''refused''), dry1, st4)
                  else (True, None, dry1, st4)))))))"

text \<open>What the read after an attempt decides: a dry attempt counts only when size is left.\<close>

definition conclude ::
  "'w exit_host \<Rightarrow> string \<Rightarrow> string option \<Rightarrow> decimal option \<Rightarrow> 'w loop_state \<Rightarrow> decimal option \<times> 'w loop_state" where
  "conclude h symbol reason left ls =
     (case (left, reason) of
        (Some x, Some why) \<Rightarrow> (case gave_up h symbol why x ls of (stop, ls') \<Rightarrow> (if stop then None else Some x, ls'))
      | _ \<Rightarrow> (left, ls))"

definition attempt ::
  "nat \<Rightarrow> 'w exit_host \<Rightarrow> string \<Rightarrow> decimal \<Rightarrow> 'w loop_state \<Rightarrow> (decimal option \<times> 'w loop_state) res option" where
  "attempt n h symbol remaining ls =
     bind_go (try_close n h symbol remaining ls) (\<lambda>(goes_on, reason, ls1).
       if \<not> goes_on then Some (Inr (None, ls1))
       else bind_go (read_left n h symbol remaining ls1) (\<lambda>(left, ls2).
         Some (Inr (conclude h symbol reason left ls2))))"

fun await_verdicts ::
  "nat \<Rightarrow> 'w exit_host \<Rightarrow> string \<Rightarrow> decimal \<Rightarrow> string list \<Rightarrow> 'w loop_state \<Rightarrow> (bool \<times> 'w loop_state) res option" where
  "await_verdicts n h symbol remaining [] ls = Some (Inr (True, ls))"
| "await_verdicts n h symbol remaining (c # cs) ls =
     bind_go (await_verdict n h symbol c remaining ls) (\<lambda>(okay, ls1).
       if okay then await_verdicts n h symbol remaining cs ls1 else Some (Inr (False, ls1)))"

definition resume_orders ::
  "nat \<Rightarrow> 'w exit_host \<Rightarrow> string \<Rightarrow> decimal \<Rightarrow> 'w loop_state \<Rightarrow> (decimal option \<times> 'w loop_state) res option" where
  "resume_orders n h symbol remaining ls =
     (case ls of (dry, st0) \<Rightarrow>
        let st = eh_drain h st0;
            left_open = open_orders (cp_cache (xs_checkpointer st)) None (Some symbol);
            before = map (\<lambda>od. (o_cloid od, o_cum_qty od)) left_open
        in if left_open = [] then Some (settle_left h symbol remaining (dry, st))
           else bind_go (await_verdicts n h symbol remaining (map fst before) (dry, st)) (\<lambda>(okay, dry1, st1).
             if \<not> okay then Some (Inr (None, dry1, st1))
             else read_left n h symbol remaining
               (if list_ex (\<lambda>(c, q). q < cum_filled c st1) before then 0 else dry1, st1)))"

text \<open>The loop proper: \<open>m\<close> bounds the attempts, \<open>n\<close> the waits inside one.\<close>

fun attempts ::
  "nat \<Rightarrow> nat \<Rightarrow> 'w exit_host \<Rightarrow> string \<Rightarrow> decimal option \<Rightarrow> 'w loop_state \<Rightarrow> 'w loop_state res option" where
  "attempts m n h symbol None ls = Some (Inr ls)"
| "attempts 0 n h symbol (Some x) ls = None"
| "attempts (Suc m) n h symbol (Some x) ls =
     bind_go (attempt n h symbol x ls) (\<lambda>(left, ls1). attempts m n h symbol left ls1)"

definition flatten_symbol ::
  "nat \<Rightarrow> nat \<Rightarrow> 'w exit_host \<Rightarrow> string \<Rightarrow> decimal \<Rightarrow> 'w exit_state \<Rightarrow> (bool \<times> 'w exit_state) res option" where
  "flatten_symbol m n h symbol held st =
     bind_go (resume_orders n h symbol held (0, st)) (\<lambda>(left, ls1).
     bind_go (attempts m n h symbol left ls1) (\<lambda>(dry, st').
       Some (Inr (dry = DRY_ATTEMPTS_TO_GIVE_UP, st'))))"

section \<open>The flatten job\<close>

definition held_in_books :: "'w exit_state \<Rightarrow> string list" where
  "held_in_books st = (let pj = cp_portfolio (xs_checkpointer st) in
     filter (\<lambda>sy. partition_sizes pj sy \<noteq> []) (map fst (account_net pj)))"

definition final_read :: "'w exit_host \<Rightarrow> 'w exit_state \<Rightarrow> exit_outcome \<times> 'w exit_state" where
  "final_read h st =
     (case eh_fetch_orders h st of
        (Inl f, st1) \<Rightarrow> (\<lparr>eo_status = STOPPED, eo_left = ReadFailed f\<rparr>, st1)
      | (Inr orders, st1) \<Rightarrow>
          (case eh_fetch_positions h st1 of
             (Inl f, st2) \<Rightarrow> (\<lparr>eo_status = STOPPED, eo_left = ReadFailed f\<rparr>, st2)
           | (Inr positions, st2) \<Rightarrow>
               if orders \<noteq> [] \<or> positions \<noteq> [] then
                 (\<lparr>eo_status = STOPPED, eo_left = StillThere (map describe_order orders) positions\<rparr>, st2)
               else (\<lparr>eo_status = DONE, eo_left = NothingLeft\<rparr>, st2)))"

text \<open>The kill switch, persisted before it is set; a \<open>noop\<close> guard has none.\<close>

definition trip_for_flatten :: "'w exit_host \<Rightarrow> 'w exit_state \<Rightarrow> 'w exit_state res" where
  "trip_for_flatten h st =
     (case xs_guard st of
        None \<Rightarrow> Inr (note_exit Unguarded st)
      | Some g \<Rightarrow> bind_res (set_kill_switch g True (Some ''flatten: operator exit'') (snd (eh_write h st)) (fst (eh_write h st)))
          (\<lambda>(g', _). Inr (if g_tripped g' then st\<lparr>xs_guard := Some g'\<rparr> else note_exit Unguarded (st\<lparr>xs_guard := Some g'\<rparr>))))"

text \<open>
  The symbols' loops run beside each other; one loop sees the others only through its awaits. The
  group is their results in the order of the symbols, each loop starting where the one before
  it left the engine and its awaits standing for the others.
\<close>

fun flatten_group ::
  "nat \<Rightarrow> nat \<Rightarrow> 'w exit_host \<Rightarrow> (string, decimal) dict \<Rightarrow> string list \<Rightarrow> 'w exit_state \<Rightarrow>
    (bool list \<times> 'w exit_state) res option" where
  "flatten_group m n h positions [] st = Some (Inr ([], st))"
| "flatten_group m n h positions (s # ss) st =
     bind_go (flatten_symbol m n h s (dget positions s 0) st) (\<lambda>(stopped, st1).
     bind_go (flatten_group m n h positions ss st1) (\<lambda>(rest, st2). Some (Inr (stopped # rest, st2))))"

definition run_flatten ::
  "nat \<Rightarrow> nat \<Rightarrow> bool \<Rightarrow> 'w exit_host \<Rightarrow> 'w exit_state \<Rightarrow> (exit_outcome \<times> 'w exit_state) res option" where
  "run_flatten m n feed_ends h st0 =
     bind_go (Some (trip_for_flatten h st0)) (\<lambda>st1.
       case run_cancel_all h st1 of (cancelled, st2) \<Rightarrow>
       if eo_status cancelled = STOPPED then Some (Inr (cancelled, st2))
       else case eh_fetch_positions h st2 of
         (Inl f, st3) \<Rightarrow> Some (Inr (\<lparr>eo_status = STOPPED, eo_left = ReadFailed f\<rparr>, st3))
       | (Inr positions, st3) \<Rightarrow>
           let symbols = str_sort (remdups (map fst positions @ held_in_books st3));
               st4 = eh_start_feed h symbols (st3\<lparr>xs_prices := make_prices symbols (\<not> feed_ends)\<rparr>);
               st5 = (if feed_ends then eh_feed_ended h st4 else st4)
           in bind_go (if symbols = [] then Some (Inr ([], st3)) else flatten_group m n h positions symbols st5) (\<lambda>(stopped, st6).
             case final_read h st6 of (outcome, st7) \<Rightarrow>
             Some (Inr (if True \<in> set stopped then \<lparr>eo_status = STOPPED, eo_left = eo_left outcome\<rparr> else outcome, st7))))"

end
