(* ===== verification/TW_Exit_Runs.thy ===== *)
theory TW_Exit_Runs
  imports TW_Exit
begin

text \<open>
  The flatten job's loops end. \<open>exit_step\<close> is every way a job's state changes, an await or the
  loop's own bookkeeping; a run of the job is a path of such steps, so what every step keeps the
  run keeps.
\<close>

section \<open>Steps\<close>

inductive exit_step :: "'w exit_host \<Rightarrow> 'w exit_state \<Rightarrow> 'w exit_state \<Rightarrow> bool" for h where
  priced: "exit_step h st (eh_await_price h s st)"
| slept: "exit_step h st (eh_sleep h t st)"
| turned: "exit_step h st (eh_turn h st)"
| drained: "exit_step h st (eh_drain h st)"
| published: "exit_step h st (eh_publish h s st)"
| account: "eh_account_pass h = Some f \<Longrightarrow> exit_step h st (f st)"
| inflight: "exit_step h st (snd (eh_inflight h st))"
| open_pass: "exit_step h st (snd (eh_open_orders h st))"
| read_positions: "exit_step h st (snd (eh_fetch_positions h st))"
| noted: "exit_step h st (note_exit x st)"
| popped: "exit_step h st (st\<lparr>xs_refusals := AList.delete c (xs_refusals st)\<rparr>)"
| emitted: "emit_place ok (xs_emitter st) (xs_checkpointer st) sy sd q k t p po ro = Inr (e, cp, s) \<Longrightarrow>
    exit_step h st (st\<lparr>xs_emitter := e, xs_checkpointer := cp\<rparr>)"
| settled: "checkpoint_leftover ok ts (xs_checkpointer st) sy = Inr cp \<Longrightarrow>
    exit_step h st (st\<lparr>xs_checkpointer := cp\<rparr>)"

abbreviation exit_path :: "'w exit_host \<Rightarrow> 'w exit_state \<Rightarrow> 'w exit_state \<Rightarrow> bool" where
  "exit_path h \<equiv> (exit_step h)\<^sup>*\<^sup>*"

lemma bind_go_InrE:
  assumes "bind_go m f = Some (Inr y)"
  obtains a where "m = Some (Inr a)" "f a = Some (Inr y)"
  using assms by (auto simp: bind_go_def split: option.split_asm sum.split_asm)

lemma bind_go_None: "bind_go m f = None \<longleftrightarrow> m = None \<or> (\<exists>a. m = Some (Inr a) \<and> f a = None)"
  by (auto simp: bind_go_def split: option.split sum.split)

lemma path_via: "exit_step h a b \<Longrightarrow> exit_path h b c \<Longrightarrow> exit_path h a c"
  by (rule converse_rtranclp_into_rtranclp)

lemma path_then: "exit_path h a b \<Longrightarrow> exit_step h b c \<Longrightarrow> exit_path h a c"
  by (rule rtranclp.rtrancl_into_rtrancl)

lemma gave_up_path:
  assumes "gave_up h sy why x (dry, st) = (stop, dry', st')"
  shows "exit_path h st st' \<and> dry' = dry + 1 \<and> (stop \<longleftrightarrow> dry' = DRY_ATTEMPTS_TO_GIVE_UP)"
proof -
  have "exit_step h st (note_exit (DryAttempt sy (dry + 1) why) st)" by (rule exit_step.noted)
  then show ?thesis using assms
    by (auto simp: gave_up_def Let_def split: if_split_asm
        intro: path_then exit_step.slept exit_step.noted)
qed

lemma wait_out_path: "wait_out h sy limit (dry, st) = (dry', st') \<Longrightarrow> exit_path h st st' \<and> dry' = dry"
  by (auto simp: wait_out_def intro: path_via [OF exit_step.noted] exit_step.slept)

lemma read_failed_path:
  assumes "read_failed h sy x limited (dry, st) = (stop, dry', st')"
  shows "exit_path h st st' \<and> dry' = (if limited then dry else dry + 1)
    \<and> (stop \<longleftrightarrow> \<not> limited \<and> dry' = DRY_ATTEMPTS_TO_GIVE_UP)"
  using assms wait_out_path [of h sy "''ip''" dry st] gave_up_path [of h sy "''read_failed''" x dry st]
  by (auto simp: read_failed_def split: if_split_asm)

lemma account_turn_path: "exit_path h st (account_turn h st)"
  by (auto simp: account_turn_def split: option.split
      intro: path_via [OF exit_step.turned] exit_step.account)

lemma run_pass_path:
  assumes "run_pass h st = (r, st')"
  shows "exit_path h st st'"
proof -
  obtain r1 st1 where one: "eh_inflight h (eh_turn h st) = (r1, st1)" by (rule prod.exhaust)
  have "exit_path h st st1"
    using exit_step.inflight [of h "eh_turn h st"] one
    by (auto intro: path_via [OF exit_step.turned])
  moreover have "exit_step h st1 (snd (eh_open_orders h st1))" by (rule exit_step.open_pass)
  ultimately show ?thesis using assms one
    by (auto simp: run_pass_def split: if_split_asm prod.split_asm intro: path_then)
qed

lemma price_known_path: "price_known h sy st = Inr (b, st') \<Longrightarrow> exit_path h st st'"
  by (auto simp: price_known_def Let_def split: option.split_asm if_split_asm intro: exit_step.priced)

lemma size_gap_path: "size_gap h sy x st = (b, st') \<Longrightarrow> exit_path h st st'"
proof -
  assume a: "size_gap h sy x st = (b, st')"
  have one: "exit_path h st (eh_drain h st)" using exit_step.drained by blast
  note two = rtranclp_trans [OF one account_turn_path]
  note three = rtranclp_trans [OF two account_turn_path]
  show ?thesis using a one two three by (auto simp: size_gap_def Let_def split: if_split_asm)
qed

lemma settle_left_path: "settle_left h sy x (dry, st) = Inr (left, dry', st') \<Longrightarrow> exit_path h st st' \<and> dry' = dry"
  by (auto simp: settle_left_def bind_res_eq_Inr split: if_split_asm intro: exit_step.settled)

lemma close_turn_path:
  assumes "close_turn h sy x st = Inr (c, refusal, st')"
  shows "exit_path h st st'"
proof -
  from assms obtain e cp s where e: "emit_place (fst (eh_write h (eh_turn h st))) (xs_emitter (eh_turn h st))
      (xs_checkpointer (eh_turn h st)) sy (if 0 < x then SELL else BUY) (dabs x) MARKET IOC None False True = Inr (e, cp, s)"
    and st': "st' = (eh_publish h s ((eh_turn h st)\<lparr>xs_emitter := e, xs_checkpointer := cp\<rparr>))\<lparr>xs_refusals :=
      AList.delete c (xs_refusals (eh_publish h s ((eh_turn h st)\<lparr>xs_emitter := e, xs_checkpointer := cp\<rparr>)))\<rparr>"
    by (auto simp: close_turn_def close_order_def bind_res_eq_Inr)
  have "exit_path h st ((eh_turn h st)\<lparr>xs_emitter := e, xs_checkpointer := cp\<rparr>)"
    by (rule path_via [OF exit_step.turned]) (rule r_into_rtranclp, rule exit_step.emitted [OF e])
  from path_then [OF this exit_step.published [of h _ s]] show ?thesis
    unfolding st' by (rule path_then) (rule exit_step.popped)
qed


section \<open>A venue that runs down\<close>

text \<open>
  What the loop relies on of everything outside it. \<open>sl_ok\<close> holds of the states the job runs
  through, and three counts never rise in a step: how many lots of the symbol the account still
  holds, how many rate-limited answers the venue still gives, and how many passes an undecided
  order still takes. A close that filled took lots off: \<open>sl_placed\<close> is at most what was held when
  the order went out.
\<close>

record 'w slope =
  sl_ok :: "'w exit_state \<Rightarrow> bool"
  sl_lots :: "'w exit_state \<Rightarrow> nat"
  sl_limits :: "'w exit_state \<Rightarrow> nat"
  sl_placed :: "'w exit_state \<Rightarrow> string \<Rightarrow> nat"
  sl_waits :: "'w exit_state \<Rightarrow> string \<Rightarrow> nat"
  sl_most :: nat

definition below :: "'w slope \<Rightarrow> 'w exit_state \<Rightarrow> 'w exit_state \<Rightarrow> bool" where
  "below s st st' \<longleftrightarrow> sl_ok s st' \<and> sl_lots s st' \<le> sl_lots s st \<and> sl_limits s st' \<le> sl_limits s st
     \<and> (\<forall>c. sl_placed s st' c \<le> sl_placed s st c) \<and> (\<forall>c. sl_waits s st' c \<le> sl_waits s st c)"

definition limited_in :: "'w exit_state \<Rightarrow> string \<Rightarrow> bool" where
  "limited_in st c \<longleftrightarrow> Option.bind (map_of (xs_refusals st) c) rate_limit_of \<noteq> None"

definition runs_down :: "'w exit_host \<Rightarrow> 'w slope \<Rightarrow> bool" where
  "runs_down h s \<longleftrightarrow>
     (\<forall>st st'. sl_ok s st \<longrightarrow> exit_step h st st' \<longrightarrow> below s st st')
     \<and> (\<forall>st c. sl_ok s st \<longrightarrow> close_filled c st \<longrightarrow> sl_lots s st < sl_placed s st c)
     \<and> (\<forall>st x. sl_ok s st \<longrightarrow> (let c = derive_cloid (eh_digest h) (signal_id_of x); st' = eh_publish h x st in
          sl_placed s st' c \<le> sl_lots s st \<and> (limited_in st' c \<longrightarrow> sl_limits s st' < sl_limits s st)))
     \<and> (\<forall>st st'. sl_ok s st \<longrightarrow> run_pass h st = (RATE_LIMITED, st') \<longrightarrow> sl_limits s st' < sl_limits s st)
     \<and> (\<forall>st st'. sl_ok s st \<longrightarrow> eh_fetch_positions h st = (Inl RATE_LIMITED_IP, st') \<longrightarrow> sl_limits s st' < sl_limits s st)
     \<and> (\<forall>st st' c. sl_ok s st \<longrightarrow> run_pass h st = (PROVED, st') \<longrightarrow> decided c st' = Inr False \<longrightarrow>
          sl_waits s st' c < sl_waits s st c)
     \<and> (\<forall>st c. sl_ok s st \<longrightarrow> sl_waits s st c \<le> sl_most s)"

lemma runs_downD:
  assumes "runs_down h s" "sl_ok s st"
  shows "exit_step h st st' \<Longrightarrow> below s st st'"
    and "close_filled c st \<Longrightarrow> sl_lots s st < sl_placed s st c"
    and "sl_placed s (eh_publish h x st) (derive_cloid (eh_digest h) (signal_id_of x)) \<le> sl_lots s st"
    and "limited_in (eh_publish h x st) (derive_cloid (eh_digest h) (signal_id_of x)) \<Longrightarrow>
      sl_limits s (eh_publish h x st) < sl_limits s st"
    and "run_pass h st = (RATE_LIMITED, st') \<Longrightarrow> sl_limits s st' < sl_limits s st"
    and "eh_fetch_positions h st = (Inl RATE_LIMITED_IP, st') \<Longrightarrow> sl_limits s st' < sl_limits s st"
    and "run_pass h st = (PROVED, st') \<Longrightarrow> decided c st' = Inr False \<Longrightarrow> sl_waits s st' c < sl_waits s st c"
    and "sl_waits s st c \<le> sl_most s"
  using assms unfolding runs_down_def Let_def by blast+

lemma below_refl: "sl_ok s st \<Longrightarrow> below s st st"
  by (simp add: below_def)

lemma below_trans: "below s a b \<Longrightarrow> below s b c \<Longrightarrow> below s a c"
  by (auto simp: below_def intro: order_trans)

lemma below_ok: "below s a b \<Longrightarrow> sl_ok s b"
  by (simp add: below_def)

lemma path_below:
  assumes "runs_down h s" "exit_path h st st'" "sl_ok s st"
  shows "below s st st'"
  using assms(2)
proof (induction rule: rtranclp_induct)
  case base
  then show ?case by (rule below_refl [OF assms(3)])
next
  case (step b c)
  show ?case by (rule below_trans [OF step.IH runs_downD(1) [OF assms(1) below_ok [OF step.IH] step.hyps(2)]])
qed

section \<open>The waits end\<close>

lemma await_verdict_path:
  "await_verdict n h sy c x (dry, st) = Some (Inr (okay, dry', st')) \<Longrightarrow> dry < DRY_ATTEMPTS_TO_GIVE_UP \<Longrightarrow>
    exit_path h st st' \<and> dry \<le> dry' \<and> (okay \<longrightarrow> dry' < DRY_ATTEMPTS_TO_GIVE_UP) \<and> (\<not> okay \<longrightarrow> dry' = DRY_ATTEMPTS_TO_GIVE_UP)"
proof (induction n arbitrary: dry st)
  case (Suc n)
  show ?case
  proof (cases "decided c st")
    case (Inr t)
    show ?thesis
    proof (cases t)
      case True
      with Suc.prems Inr show ?thesis by simp
    next
      case False
      obtain r st1 where pass: "run_pass h (eh_sleep h (eh_interval h) st) = (r, st1)" by (rule prod.exhaust)
      have one: "exit_path h st st1" by (rule path_via [OF exit_step.slept run_pass_path [OF pass]])
      show ?thesis
      proof (cases "r = PROVED")
        case True
        with Suc.prems Inr False pass have "await_verdict n h sy c x (dry, st1) = Some (Inr (okay, dry', st'))" by simp
        from Suc.IH [OF this Suc.prems(2)] one show ?thesis by (meson rtranclp_trans)
      next
        case failed: False
        obtain stop d1 st2 where rf: "read_failed h sy x (r = RATE_LIMITED) (dry, st1) = (stop, d1, st2)" by (rule prod_cases3)
        note F = read_failed_path [OF rf]
        have two: "exit_path h st st2" using one F by (meson rtranclp_trans)
        show ?thesis
        proof (cases stop)
          case True
          with Suc.prems Inr False pass failed rf have "dry' = d1" "st' = st2" "\<not> okay" by auto
          with F two True show ?thesis by auto
        next
          case go: False
          with Suc.prems Inr False pass failed rf have "await_verdict n h sy c x (d1, st2) = Some (Inr (okay, dry', st'))" by simp
          moreover have "d1 < DRY_ATTEMPTS_TO_GIVE_UP" "dry \<le> d1" using F go Suc.prems(2) by (auto split: if_split_asm)
          ultimately show ?thesis using Suc.IH two by (meson order_trans rtranclp_trans)
        qed
      qed
    qed
  qed (use Suc.prems in simp)
qed simp

lemma await_verdict_ends:
  assumes "runs_down h s"
  shows "sl_ok s st \<Longrightarrow> dry < DRY_ATTEMPTS_TO_GIVE_UP \<Longrightarrow>
    sl_waits s st c + (DRY_ATTEMPTS_TO_GIVE_UP - dry) + sl_limits s st < n \<Longrightarrow> await_verdict n h sy c x (dry, st) \<noteq> None"
proof (induction n arbitrary: dry st)
  case (Suc n)
  show ?case
  proof (cases "decided c st")
    case (Inr t)
    show ?thesis
    proof (cases t)
      case False
      let ?st = "eh_sleep h (eh_interval h) st"
      obtain r st1 where pass: "run_pass h ?st = (r, st1)" by (rule prod.exhaust)
      have slept: "below s st ?st" by (rule runs_downD(1) [OF assms Suc.prems(1) exit_step.slept])
      have one: "below s ?st st1" by (rule path_below [OF assms run_pass_path [OF pass] below_ok [OF slept]])
      note ok1 = below_ok [OF one]
      have waits_limits: "sl_waits s ?st c \<le> sl_waits s st c" "sl_limits s st1 \<le> sl_limits s ?st"
        "sl_limits s ?st \<le> sl_limits s st" using slept one by (simp_all add: below_def)
      show ?thesis
      proof (cases "r = PROVED")
        case True
        have "await_verdict n h sy c x (dry, st1) \<noteq> None"
        proof (cases "decided c st1 = Inr False")
          case True
          have "sl_waits s st1 c < sl_waits s ?st c"
            by (rule runs_downD(7) [OF assms below_ok [OF slept] pass [unfolded \<open>r = PROVED\<close>] True])
          then have "sl_waits s st1 c + (DRY_ATTEMPTS_TO_GIVE_UP - dry) + sl_limits s st1 < n"
            using Suc.prems(3) waits_limits by linarith
          then show ?thesis by (rule Suc.IH [OF ok1 Suc.prems(2)])
        next
          case other: False
          obtain k where k: "n = Suc k" using Suc.prems(2,3) by (cases n) auto
          show ?thesis using other by (cases "decided c st1"; cases "projr (decided c st1)") (auto simp: k)
        qed
        with Inr False pass True show ?thesis by simp
      next
        case failed: False
        obtain stop d1 st2 where rf: "read_failed h sy x (r = RATE_LIMITED) (dry, st1) = (stop, d1, st2)" by (rule prod_cases3)
        note F = read_failed_path [OF rf]
        have two: "below s st1 st2" using path_below [OF assms _ ok1] F by blast
        have limited: "r = RATE_LIMITED \<Longrightarrow> sl_limits s st1 < sl_limits s ?st"
          using runs_downD(5) [OF assms below_ok [OF slept]] pass by simp
        show ?thesis
        proof (cases stop)
          case go: False
          have less: "sl_waits s st2 c \<le> sl_waits s st c" "sl_limits s st2 \<le> sl_limits s st1" "sl_limits s st1 \<le> sl_limits s ?st"
            "sl_limits s ?st \<le> sl_limits s st"
            using below_trans [OF below_trans [OF slept one] two] two waits_limits by (simp_all add: below_def)
          have d: "d1 < DRY_ATTEMPTS_TO_GIVE_UP" using F go Suc.prems(2) by (auto split: if_split_asm)
          have "sl_waits s st2 c + (DRY_ATTEMPTS_TO_GIVE_UP - d1) + sl_limits s st2 < n"
          proof (cases "r = RATE_LIMITED")
            case True
            with F less limited Suc.prems(3) show ?thesis by simp
          next
            case False
            with F less d Suc.prems(3) show ?thesis by simp
          qed
          then have "await_verdict n h sy c x (d1, st2) \<noteq> None" by (rule Suc.IH [OF below_ok [OF two] d])
          with Inr False pass failed rf go show ?thesis by simp
        qed (use Inr False pass failed rf in simp)
      qed
    qed (use Inr in simp)
  qed simp
qed simp


lemma read_left_path:
  "read_left n h sy x (dry, st) = Some (Inr (left, dry', st')) \<Longrightarrow> dry < DRY_ATTEMPTS_TO_GIVE_UP \<Longrightarrow>
    exit_path h st st' \<and> dry \<le> dry' \<and> (left \<noteq> None \<longrightarrow> dry' < DRY_ATTEMPTS_TO_GIVE_UP)"
proof (induction n arbitrary: dry st)
  case (Suc n)
  obtain answer st1 where read: "eh_fetch_positions h st = (answer, st1)" by (rule prod.exhaust)
  have one: "exit_path h st st1" using exit_step.read_positions [of h st] read by auto
  show ?case
  proof (cases answer)
    case (Inr positions)
    with Suc.prems(1) read have "settle_left h sy (dget positions sy 0) (dry, st1) = Inr (left, dry', st')" by simp
    from settle_left_path [OF this] one Suc.prems(2) show ?thesis by (meson order_refl rtranclp_trans)
  next
    case (Inl f)
    obtain stop d1 st2 where rf: "read_failed h sy x (f = RATE_LIMITED_IP) (dry, st1) = (stop, d1, st2)" by (rule prod_cases3)
    note F = read_failed_path [OF rf]
    have two: "exit_path h st st2" using one F by (meson rtranclp_trans)
    show ?thesis
    proof (cases stop)
      case True
      with Suc.prems(1) read Inl rf have "left = None" "dry' = d1" "st' = st2" by auto
      with F two True show ?thesis by auto
    next
      case go: False
      with Suc.prems(1) read Inl rf have "read_left n h sy x (d1, st2) = Some (Inr (left, dry', st'))" by simp
      moreover have "d1 < DRY_ATTEMPTS_TO_GIVE_UP" "dry \<le> d1" using F go Suc.prems(2) by (auto split: if_split_asm)
      ultimately show ?thesis using Suc.IH two by (meson order_trans rtranclp_trans)
    qed
  qed
qed simp

lemma read_left_ends:
  assumes "runs_down h s"
  shows "sl_ok s st \<Longrightarrow> dry < DRY_ATTEMPTS_TO_GIVE_UP \<Longrightarrow> (DRY_ATTEMPTS_TO_GIVE_UP - dry) + sl_limits s st < n \<Longrightarrow>
    read_left n h sy x (dry, st) \<noteq> None"
proof (induction n arbitrary: dry st)
  case (Suc n)
  obtain answer st1 where read: "eh_fetch_positions h st = (answer, st1)" by (rule prod.exhaust)
  have one: "below s st st1" using runs_downD(1) [OF assms Suc.prems(1) exit_step.read_positions] read by simp
  show ?case
  proof (cases answer)
    case (Inl f)
    obtain stop d1 st2 where rf: "read_failed h sy x (f = RATE_LIMITED_IP) (dry, st1) = (stop, d1, st2)" by (rule prod_cases3)
    note F = read_failed_path [OF rf]
    have two: "below s st1 st2" using path_below [OF assms _ below_ok [OF one]] F by blast
    have limited: "f = RATE_LIMITED_IP \<Longrightarrow> sl_limits s st1 < sl_limits s st"
      using runs_downD(6) [OF assms Suc.prems(1)] read Inl by simp
    show ?thesis
    proof (cases stop)
      case go: False
      have less: "sl_limits s st2 \<le> sl_limits s st1" "sl_limits s st1 \<le> sl_limits s st"
        using one two by (simp_all add: below_def)
      have d: "d1 < DRY_ATTEMPTS_TO_GIVE_UP" using F go Suc.prems(2) by (auto split: if_split_asm)
      have "(DRY_ATTEMPTS_TO_GIVE_UP - d1) + sl_limits s st2 < n"
      proof (cases "f = RATE_LIMITED_IP")
        case True
        with F less limited Suc.prems(3) show ?thesis by simp
      next
        case False
        with F less d Suc.prems(3) show ?thesis by simp
      qed
      then have "read_left n h sy x (d1, st2) \<noteq> None" by (rule Suc.IH [OF below_ok [OF two] d])
      with read Inl rf go show ?thesis by simp
    qed (use read Inl rf in simp)
  qed (use read in simp)
qed simp

section \<open>An attempt makes progress\<close>

text \<open>Three dry attempts are worth one lot: a fill takes a lot off and starts the row again.\<close>

definition fall :: "'w slope \<Rightarrow> nat \<Rightarrow> 'w exit_state \<Rightarrow> nat" where
  "fall s dry st = 3 * sl_lots s st + (DRY_ATTEMPTS_TO_GIVE_UP - dry) + sl_limits s st"

definition enough :: "'w slope \<Rightarrow> 'w exit_state \<Rightarrow> nat" where
  "enough s st = sl_most s + DRY_ATTEMPTS_TO_GIVE_UP + sl_limits s st + 1"

lemma verdict_enough:
  assumes "runs_down h s" "sl_ok s st" "dry < DRY_ATTEMPTS_TO_GIVE_UP" "enough s st \<le> n"
  shows "await_verdict n h sy c x (dry, st) \<noteq> None"
  using await_verdict_ends [OF assms(1-3), of c n] runs_downD(8) [OF assms(1,2), of c] assms(4)
  by (simp add: enough_def)

lemma read_left_enough:
  assumes "runs_down h s" "sl_ok s st" "dry < DRY_ATTEMPTS_TO_GIVE_UP" "enough s st \<le> n"
  shows "read_left n h sy x (dry, st) \<noteq> None"
  using read_left_ends [OF assms(1-3), of n] assms(4) by (simp add: enough_def)

lemma enough_below: "below s st st' \<Longrightarrow> enough s st \<le> n \<Longrightarrow> enough s st' \<le> n"
  by (simp add: enough_def below_def)

text \<open>What a close leaves: its order goes out at the lots then held, and a refusal for a limit costs one.\<close>

lemma close_turn_below:
  assumes "runs_down h s" "sl_ok s st" "close_turn h sy x st = Inr (c, refusal, st')"
  shows "sl_placed s st' c \<le> sl_lots s st"
    and "Option.bind refusal rate_limit_of \<noteq> None \<Longrightarrow> sl_limits s st' < sl_limits s st"
proof -
  let ?st = "eh_turn h st"
  from assms(3) obtain e cp p where e: "emit_place (fst (eh_write h ?st)) (xs_emitter ?st)
      (xs_checkpointer ?st) sy (if 0 < x then SELL else BUY) (dabs x) MARKET IOC None False True = Inr (e, cp, p)"
    and c: "c = derive_cloid (eh_digest h) (signal_id_of p)"
    and st': "refusal = map_of (xs_refusals (eh_publish h p (?st\<lparr>xs_emitter := e, xs_checkpointer := cp\<rparr>))) c"
      "st' = (eh_publish h p (?st\<lparr>xs_emitter := e, xs_checkpointer := cp\<rparr>))\<lparr>xs_refusals :=
      AList.delete c (xs_refusals (eh_publish h p (?st\<lparr>xs_emitter := e, xs_checkpointer := cp\<rparr>)))\<rparr>"
    by (auto simp: close_turn_def close_order_def bind_res_eq_Inr)
  define st1 where "st1 = ?st\<lparr>xs_emitter := e, xs_checkpointer := cp\<rparr>"
  define st2 where "st2 = eh_publish h p st1"
  have s2: "st' = st2\<lparr>xs_refusals := AList.delete c (xs_refusals st2)\<rparr>" "refusal = map_of (xs_refusals st2) c"
    using st' by (simp_all add: st2_def st1_def)
  have a: "below s st ?st" by (rule runs_downD(1) [OF assms(1,2) exit_step.turned])
  have "exit_step h ?st st1" unfolding st1_def by (rule exit_step.emitted [OF e])
  from runs_downD(1) [OF assms(1) below_ok [OF a] this] have b: "below s st st1" using a below_trans by blast
  have ok2: "sl_ok s st2" unfolding st2_def by (rule below_ok [OF runs_downD(1) [OF assms(1) below_ok [OF b] exit_step.published]])
  have d: "below s st2 st'" unfolding s2(1) by (rule runs_downD(1) [OF assms(1) ok2 exit_step.popped])
  have "sl_placed s st2 c \<le> sl_lots s st1" using runs_downD(3) [OF assms(1) below_ok [OF b]] by (simp add: st2_def c)
  with b d show "sl_placed s st' c \<le> sl_lots s st" unfolding below_def by (meson order_trans)
  assume "Option.bind refusal rate_limit_of \<noteq> None"
  then have "limited_in st2 c" by (simp add: limited_in_def s2(2))
  then have "sl_limits s st2 < sl_limits s st1" using runs_downD(4) [OF assms(1) below_ok [OF b]] by (simp add: st2_def c)
  with b d show "sl_limits s st' < sl_limits s st" by (simp add: below_def)
qed

lemma close_verdict_spec:
  assumes "close_verdict n h sy x c refusal (dry, st) = Some (Inr (okay, dry', st'))" "dry < DRY_ATTEMPTS_TO_GIVE_UP"
  shows "exit_path h st st' \<and> dry \<le> dry' \<and> (okay \<longrightarrow> dry' < DRY_ATTEMPTS_TO_GIVE_UP)"
proof -
  from assms(1) obtain okay1 ls1 where v: "await_verdict n h sy c x (dry, st) = Some (Inr (okay1, ls1))"
    and r: "Inr (okay1, case Option.bind refusal rate_limit_of of None \<Rightarrow> ls1 | Some limit \<Rightarrow> wait_out h sy limit ls1)
      = (Inr (okay, dry', st') :: (bool \<times> nat \<times> 'a exit_state) res)"
    unfolding close_verdict_def by (elim bind_go_InrE) auto
  obtain d1 st1 where ls1: "ls1 = (d1, st1)" by (rule prod.exhaust)
  note P = await_verdict_path [OF v [unfolded ls1] assms(2)]
  show ?thesis
  proof (cases "Option.bind refusal rate_limit_of")
    case None
    with r ls1 P show ?thesis by simp
  next
    case (Some limit)
    with r ls1 have "wait_out h sy limit (d1, st1) = (dry', st')" "okay1 = okay" by auto
    with wait_out_path [OF this(1)] P show ?thesis by (meson rtranclp_trans)
  qed
qed

lemma try_close_progress:
  assumes "runs_down h s" "sl_ok s st" "dry < DRY_ATTEMPTS_TO_GIVE_UP"
    and "try_close n h sy x (dry, st) = Some (Inr (goes_on, reason, dry', st'))"
  shows "exit_path h st st' \<and> (goes_on \<longrightarrow> dry' < DRY_ATTEMPTS_TO_GIVE_UP
    \<and> (reason \<noteq> None \<and> dry \<le> dry' \<or> dry' = 0 \<and> sl_lots s st' < sl_lots s st
       \<or> dry \<le> dry' \<and> sl_limits s st' < sl_limits s st))"
proof -
  from assms(4) obtain priced st1 where p: "price_known h sy st = Inr (priced, st1)"
    and rest: "(if \<not> priced then Some (Inr (True, Some ''no_price'', dry, st1))
          else case size_gap h sy x st1 of (gap, st2) \<Rightarrow>
            if gap then Some (Inr (True, Some ''size_gap'', dry, st2))
            else bind_go (Some (close_turn h sy x st2)) (\<lambda>(cloid, refusal, st3).
              bind_go (close_verdict n h sy x cloid refusal (dry, st3)) (\<lambda>(okay, dry1, st4).
                Some (Inr (if \<not> okay then (False, None, dry1, st4)
                  else if close_filled cloid st4 then (True, None, 0, st4)
                  else if Option.bind refusal rate_limit_of = None
                    then (True, Some (if refusal = None then ''no_fill'' else ''refused''), dry1, st4)
                  else (True, None, dry1, st4)))))) = Some (Inr (goes_on, reason, dry', st'))"
    unfolding try_close_def prod.case by (elim bind_go_InrE) (auto split: prod.split_asm)
  note P1 = price_known_path [OF p]
  show ?thesis
  proof (cases priced)
    case False
    with rest P1 assms(3) show ?thesis by auto
  next
    case True
    obtain gap st2 where g: "size_gap h sy x st1 = (gap, st2)" by (rule prod.exhaust)
    have P2: "exit_path h st st2" using P1 size_gap_path [OF g] by (rule rtranclp_trans)
    show ?thesis
    proof (cases gap)
      case True
      with rest P2 assms(3) g \<open>priced\<close> show ?thesis by auto
    next
      case False
      obtain c refusal st3 where cl: "close_turn h sy x st2 = Inr (c, refusal, st3)"
        using rest g \<open>priced\<close> False by (cases "close_turn h sy x st2") auto
      from rest g \<open>priced\<close> False cl obtain okay dry1 st4 where
        v: "close_verdict n h sy x c refusal (dry, st3) = Some (Inr (okay, dry1, st4))"
        and out: "(if \<not> okay then (False, None, dry1, st4)
                  else if close_filled c st4 then (True, None, 0, st4)
                  else if Option.bind refusal rate_limit_of = None
                    then (True, Some (if refusal = None then ''no_fill'' else ''refused''), dry1, st4)
                  else (True, None, dry1, st4)) = (goes_on, reason, dry', st')"
        by (auto elim!: bind_go_InrE)
      note V = close_verdict_spec [OF v assms(3)]
      have P3: "exit_path h st st3" using P2 close_turn_path [OF cl] by (rule rtranclp_trans)
      have P4: "exit_path h st st4" using P3 V by (meson rtranclp_trans)
      have B2: "below s st st2" by (rule path_below [OF assms(1) P2 assms(2)])
      have B3: "below s st st3" by (rule path_below [OF assms(1) P3 assms(2)])
      have B34: "below s st3 st4" using path_below [OF assms(1) _ below_ok [OF B3]] V by blast
      note C = close_turn_below [OF assms(1) below_ok [OF B2] cl]
      have filled: "sl_lots s st4 < sl_lots s st" if "close_filled c st4"
      proof -
        have "sl_lots s st4 < sl_placed s st4 c" by (rule runs_downD(2) [OF assms(1) below_ok [OF B34] that])
        also have "\<dots> \<le> sl_placed s st3 c" using B34 by (simp add: below_def)
        also have "\<dots> \<le> sl_lots s st2" by (rule C(1))
        also have "\<dots> \<le> sl_lots s st" using B2 by (simp add: below_def)
        finally show ?thesis .
      qed
      have limited: "sl_limits s st4 < sl_limits s st" if "Option.bind refusal rate_limit_of \<noteq> None"
        using C(2) [OF that] B2 B34 by (simp add: below_def)
      show ?thesis using out P4 V filled limited by (auto split: if_split_asm)
    qed
  qed
qed


lemma try_close_enough:
  assumes "runs_down h s" "sl_ok s st" "dry < DRY_ATTEMPTS_TO_GIVE_UP" "enough s st \<le> n"
  shows "try_close n h sy x (dry, st) \<noteq> None"
proof (cases "price_known h sy st")
  case (Inr p)
  obtain priced st1 where p: "p = (priced, st1)" by (rule prod.exhaust)
  obtain gap st2 where g: "size_gap h sy x st1 = (gap, st2)" by (rule prod.exhaust)
  have P2: "exit_path h st st2"
    using price_known_path [OF Inr [unfolded p]] size_gap_path [OF g] by (rule rtranclp_trans)
  show ?thesis
  proof (cases "close_turn h sy x st2")
    case (Inl e)
    with Inr p g show ?thesis by (simp add: try_close_def)
  next
    case (Inr q)
    obtain c refusal st3 where q: "q = (c, refusal, st3)" by (rule prod_cases3)
    have B3: "below s st st3"
      using path_below [OF assms(1) rtranclp_trans [OF P2 close_turn_path [OF Inr [unfolded q]]] assms(2)] .
    have "await_verdict n h sy c x (dry, st3) \<noteq> None"
      by (rule verdict_enough [OF assms(1) below_ok [OF B3] assms(3) enough_below [OF B3 assms(4)]])
    then have "try_close n h sy x (dry, st) = None \<Longrightarrow> False" using \<open>price_known h sy st = Inr p\<close> p g Inr q
      by (auto simp: try_close_def bind_go_None close_verdict_def split: if_split_asm)
    then show ?thesis by blast
  qed
qed (simp add: try_close_def)

text \<open>One attempt returns, and when the loop goes on it has come down.\<close>

lemma attempt_enough:
  assumes "runs_down h s" "sl_ok s st" "dry < DRY_ATTEMPTS_TO_GIVE_UP" "enough s st \<le> n"
  shows "attempt n h sy x (dry, st) \<noteq> None"
proof
  assume a: "attempt n h sy x (dry, st) = None"
  then obtain goes_on reason dry1 st1 where t: "try_close n h sy x (dry, st) = Some (Inr (goes_on, reason, dry1, st1))"
    and r: "(if \<not> goes_on then Some (Inr (None, dry1, st1))
       else bind_go (read_left n h sy x (dry1, st1)) (\<lambda>(left, ls2). Some (Inr (conclude h sy reason left ls2)))) = None"
    using try_close_enough [OF assms] unfolding attempt_def bind_go_None by auto
  have go: goes_on using r by (auto split: if_split_asm)
  note T = try_close_progress [OF assms(1-3) t]
  have B: "below s st st1" using path_below [OF assms(1) _ assms(2)] T by blast
  have "read_left n h sy x (dry1, st1) \<noteq> None"
    using read_left_enough [OF assms(1) below_ok [OF B] _ enough_below [OF B assms(4)]] T go by blast
  then show False using r go by (auto simp: bind_go_None)
qed

lemma attempt_progress:
  assumes "runs_down h s" "sl_ok s st" "dry < DRY_ATTEMPTS_TO_GIVE_UP"
    and "attempt n h sy x (dry, st) = Some (Inr (left, dry', st'))"
  shows "exit_path h st st' \<and> (left \<noteq> None \<longrightarrow> dry' < DRY_ATTEMPTS_TO_GIVE_UP \<and> fall s dry' st' < fall s dry st)"
proof -
  from assms(4) obtain goes_on reason dry1 st1 where t: "try_close n h sy x (dry, st) = Some (Inr (goes_on, reason, dry1, st1))"
    and r: "(if \<not> goes_on then Some (Inr (None, dry1, st1))
       else bind_go (read_left n h sy x (dry1, st1)) (\<lambda>(left, ls2). Some (Inr (conclude h sy reason left ls2)))) = Some (Inr (left, dry', st'))"
    unfolding attempt_def by (elim bind_go_InrE) (auto split: prod.split_asm)
  note T = try_close_progress [OF assms(1-3) t]
  show ?thesis
  proof (cases goes_on)
    case False
    with r T show ?thesis by auto
  next
    case True
    then obtain left1 dry2 st2 where read: "read_left n h sy x (dry1, st1) = Some (Inr (left1, dry2, st2))"
      and out: "conclude h sy reason left1 (dry2, st2) = (left, dry', st')"
      using r by (auto elim!: bind_go_InrE)
    have d1: "dry1 < DRY_ATTEMPTS_TO_GIVE_UP" using T True by blast
    note L = read_left_path [OF read d1]
    have P2: "exit_path h st st2" using T L by (meson rtranclp_trans)
    have B1: "below s st st1" using path_below [OF assms(1) _ assms(2)] T by blast
    have B12: "below s st1 st2" using path_below [OF assms(1) _ below_ok [OF B1]] L by blast
    have le: "sl_lots s st2 \<le> sl_lots s st1" "sl_limits s st2 \<le> sl_limits s st1" "sl_lots s st1 \<le> sl_lots s st"
      "sl_limits s st1 \<le> sl_limits s st" using B1 B12 by (simp_all add: below_def)
    show ?thesis
    proof (cases left1)
      case None
      with out P2 show ?thesis by (simp add: conclude_def)
    next
      case (Some y)
      have d2: "dry2 < DRY_ATTEMPTS_TO_GIVE_UP" "dry1 \<le> dry2" using L Some by auto
      show ?thesis
      proof (cases reason)
        case None
        with out Some have eq: "left = Some y" "dry' = dry2" "st' = st2" by (simp_all add: conclude_def)
        have "dry1 = 0 \<and> sl_lots s st1 < sl_lots s st \<or> dry \<le> dry1 \<and> sl_limits s st1 < sl_limits s st"
          using T True None by blast
        then have "fall s dry2 st2 < fall s dry st" using le d2 assms(3) by (auto simp: fall_def)
        with eq d2 P2 show ?thesis by simp
      next
        case why: (Some why)
        obtain stop dry3 st3 where gu: "gave_up h sy why y (dry2, st2) = (stop, dry3, st3)" by (rule prod_cases3)
        note G = gave_up_path [OF gu]
        from out Some why gu have eq: "left = (if stop then None else Some y)" "dry' = dry3" "st' = st3" by (simp_all add: conclude_def)
        have P3: "exit_path h st st3" using P2 G by (meson rtranclp_trans)
        have B23: "below s st2 st3" using path_below [OF assms(1) _ below_ok [OF B12]] G by blast
        have "fall s dry3 st3 < fall s dry st" if "\<not> stop"
        proof -
          have le3: "sl_lots s st3 \<le> sl_lots s st2" "sl_limits s st3 \<le> sl_limits s st2" using B23 by (simp_all add: below_def)
          have "dry \<le> dry1 \<or> sl_lots s st1 < sl_lots s st" using T True by blast
          then show ?thesis using le le3 d2 assms(3) G that by (auto simp: fall_def)
        qed
        moreover have "\<not> stop \<longrightarrow> dry3 < DRY_ATTEMPTS_TO_GIVE_UP" using G d2 by auto
        ultimately show ?thesis using eq P3 by auto
      qed
    qed
  qed
qed

section \<open>The loop ends\<close>

lemma attempts_end:
  assumes "runs_down h s"
  shows "sl_ok s st \<Longrightarrow> (left \<noteq> None \<longrightarrow> dry < DRY_ATTEMPTS_TO_GIVE_UP \<and> fall s dry st < m) \<Longrightarrow> enough s st \<le> n \<Longrightarrow>
    attempts m n h sy left (dry, st) \<noteq> None"
proof (induction m arbitrary: left dry st)
  case 0
  then show ?case by (cases left) auto
next
  case (Suc m)
  show ?case
  proof (cases left)
    case (Some x)
    with Suc.prems(2) have d: "dry < DRY_ATTEMPTS_TO_GIVE_UP" "fall s dry st < Suc m" by auto
    show ?thesis
    proof (cases "attempt n h sy x (dry, st)")
      case None
      moreover have "attempt n h sy x (dry, st) \<noteq> None" by (rule attempt_enough [OF assms Suc.prems(1) d(1) Suc.prems(3)])
      ultimately show ?thesis by simp
    next
      case out: (Some y)
      show ?thesis
      proof (cases y)
        case (Inr z)
        obtain left1 dry1 st1 where z: "z = (left1, dry1, st1)" by (rule prod_cases3)
        note A = attempt_progress [OF assms Suc.prems(1) d(1) out [unfolded Inr z]]
        have B: "below s st st1" using path_below [OF assms _ Suc.prems(1)] A by blast
        have "attempts m n h sy left1 (dry1, st1) \<noteq> None"
          by (rule Suc.IH [OF below_ok [OF B] _ enough_below [OF B Suc.prems(3)]]) (use A d(2) in auto)
        with Some out Inr z show ?thesis by simp
      qed (use Some out in simp)
    qed
  qed simp
qed

lemma await_verdicts_path:
  "await_verdicts n h sy x cs (dry, st) = Some (Inr (okay, dry', st')) \<Longrightarrow> dry < DRY_ATTEMPTS_TO_GIVE_UP \<Longrightarrow>
    exit_path h st st' \<and> (okay \<longrightarrow> dry' < DRY_ATTEMPTS_TO_GIVE_UP)"
proof (induction cs arbitrary: dry st)
  case (Cons c cs)
  from Cons.prems(1) obtain okay1 dry1 st1 where v: "await_verdict n h sy c x (dry, st) = Some (Inr (okay1, dry1, st1))"
    and rest: "(if okay1 then await_verdicts n h sy x cs (dry1, st1) else Some (Inr (False, dry1, st1))) = Some (Inr (okay, dry', st'))"
    by (auto elim!: bind_go_InrE)
  note V = await_verdict_path [OF v Cons.prems(2)]
  show ?case
  proof (cases okay1)
    case True
    with rest Cons.IH [of dry1 st1] V show ?thesis by (auto intro: rtranclp_trans)
  qed (use rest V in auto)
qed simp

lemma await_verdicts_enough:
  assumes "runs_down h s"
  shows "sl_ok s st \<Longrightarrow> dry < DRY_ATTEMPTS_TO_GIVE_UP \<Longrightarrow> enough s st \<le> n \<Longrightarrow>
    await_verdicts n h sy x cs (dry, st) \<noteq> None"
proof (induction cs arbitrary: dry st)
  case (Cons c cs)
  have one: "await_verdict n h sy c x (dry, st) \<noteq> None" by (rule verdict_enough [OF assms Cons.prems])
  have "await_verdicts n h sy x cs (dry1, st1) \<noteq> None"
    if "await_verdict n h sy c x (dry, st) = Some (Inr (True, dry1, st1))" for dry1 st1
  proof -
    note V = await_verdict_path [OF that Cons.prems(2)]
    have B: "below s st st1" using path_below [OF assms _ Cons.prems(1)] V by blast
    show ?thesis using Cons.IH [OF below_ok [OF B] _ enough_below [OF B Cons.prems(3)]] V by blast
  qed
  with one show ?case by (auto simp: bind_go_None split: if_split_asm)
qed simp

lemma resume_enough:
  assumes "runs_down h s" "sl_ok s st" "enough s st \<le> n"
  shows "resume_orders n h sy x (0, st) \<noteq> None"
    and "resume_orders n h sy x (0, st) = Some (Inr (left, dry', st')) \<Longrightarrow>
      below s st st' \<and> (left \<noteq> None \<longrightarrow> dry' < DRY_ATTEMPTS_TO_GIVE_UP)"
proof -
  let ?st = "eh_drain h st"
  have B0: "below s st ?st" by (rule runs_downD(1) [OF assms(1,2) exit_step.drained])
  note ok0 = below_ok [OF B0] and n0 = enough_below [OF B0 assms(3)]
  define before where "before = map (\<lambda>od. (o_cloid od, o_cum_qty od)) (open_orders (cp_cache (xs_checkpointer ?st)) None (Some sy))"
  let ?none = "open_orders (cp_cache (xs_checkpointer ?st)) None (Some sy) = []"
  let ?row = "\<lambda>dry1 st1. if list_ex (\<lambda>(c, q). q < cum_filled c st1) before then 0 else dry1"
  have res: "resume_orders n h sy x (0, st) = (if ?none then Some (settle_left h sy x (0, ?st))
     else bind_go (await_verdicts n h sy x (map fst before) (0, ?st)) (\<lambda>(okay, dry1, st1).
       if \<not> okay then Some (Inr (None, dry1, st1)) else read_left n h sy x (?row dry1 st1, st1)))"
    unfolding resume_orders_def before_def Let_def prod.case by (rule refl)
  have part: "below s st st1 \<and> ?row dry1 st1 < DRY_ATTEMPTS_TO_GIVE_UP"
    if "await_verdicts n h sy x (map fst before) (0, ?st) = Some (Inr (True, dry1, st1))" for dry1 st1
  proof -
    note V = await_verdicts_path [OF that]
    have "below s ?st st1" using path_below [OF assms(1) _ ok0] V by simp
    with V show ?thesis using below_trans [OF B0] by auto
  qed
  show "resume_orders n h sy x (0, st) \<noteq> None"
  proof (cases ?none)
    case False
    have "read_left n h sy x (?row dry1 st1, st1) \<noteq> None"
      if "await_verdicts n h sy x (map fst before) (0, ?st) = Some (Inr (True, dry1, st1))" for dry1 st1
      using read_left_enough [OF assms(1) below_ok _ enough_below [OF _ assms(3)]] part [OF that] by blast
    moreover have "await_verdicts n h sy x (map fst before) (0, ?st) \<noteq> None"
      by (rule await_verdicts_enough [OF assms(1) ok0 _ n0]) simp
    ultimately show ?thesis unfolding res using False by (auto simp: bind_go_None split: if_split_asm)
  qed (simp add: res)
  assume out: "resume_orders n h sy x (0, st) = Some (Inr (left, dry', st'))"
  show "below s st st' \<and> (left \<noteq> None \<longrightarrow> dry' < DRY_ATTEMPTS_TO_GIVE_UP)"
  proof (cases ?none)
    case True
    with out have set: "settle_left h sy x (0, ?st) = Inr (left, dry', st')" by (simp add: res)
    note S = settle_left_path [OF set]
    have "below s ?st st'" using path_below [OF assms(1) _ ok0] S by blast
    then show ?thesis using S below_trans [OF B0] by auto
  next
    case False
    then obtain okay dry1 st1 where v: "await_verdicts n h sy x (map fst before) (0, ?st) = Some (Inr (okay, dry1, st1))"
      and rest: "(if \<not> okay then Some (Inr (None, dry1, st1)) else read_left n h sy x (?row dry1 st1, st1)) = Some (Inr (left, dry', st'))"
      using out unfolding res by (auto elim!: bind_go_InrE)
    show ?thesis
    proof (cases okay)
      case True
      have "await_verdicts n h sy x (map fst before) (0, ?st) = Some (Inr (True, dry1, st1))" using v True by simp
      note P = part [OF this]
      have r: "read_left n h sy x (?row dry1 st1, st1) = Some (Inr (left, dry', st'))" using rest True by simp
      note R = read_left_path [OF r P [THEN conjunct2]]
      have "below s st1 st'" using path_below [OF assms(1) _ below_ok] P R by blast
      then show ?thesis using P R below_trans by blast
    next
      case False
      have "exit_path h ?st st1" using await_verdicts_path [OF v] by simp
      then have "below s ?st st1" using path_below [OF assms(1) _ ok0] by blast
      then show ?thesis using rest False below_trans [OF B0] by auto
    qed
  qed
qed

text \<open>
  C34. Flattening ends. On a venue that runs down (nobody adds to the symbol, a fill takes a lot
  off, it refuses for a rate limit a bounded number of times and decides every order within a
  bounded number of passes) a symbol's loop returns: it needs at most three attempts for every lot
  held, three more, and one for every rate limit, with bounded waits inside each.
\<close>

theorem flattening_ends:
  assumes "runs_down h s" and "sl_ok s st"
    and "3 * sl_lots s st + 3 + sl_limits s st < m" and "sl_most s + 4 + sl_limits s st \<le> n"
  shows "\<exists>r. flatten_symbol m n h sy held st = Some r"
proof -
  have n: "enough s st \<le> n" using assms(4) by (simp add: enough_def)
  note R = resume_enough [OF assms(1,2) n]
  have "attempts m n h sy left (dry, st1) \<noteq> None"
    if "resume_orders n h sy held (0, st) = Some (Inr (left, dry, st1))" for left dry st1
  proof (rule attempts_end [OF assms(1)])
    have B: "below s st st1" using R(2) [OF that] by blast
    show "sl_ok s st1" by (rule below_ok [OF B])
    show "enough s st1 \<le> n" by (rule enough_below [OF B n])
    have "fall s dry st1 < m" using B assms(3) by (auto simp: fall_def below_def)
    then show "left \<noteq> None \<longrightarrow> dry < DRY_ATTEMPTS_TO_GIVE_UP \<and> fall s dry st1 < m" using R(2) [OF that] by blast
  qed
  then have "flatten_symbol m n h sy held st \<noteq> None"
    using R(1) unfolding flatten_symbol_def by (auto simp: bind_go_None)
  then show ?thesis by simp
qed


section \<open>A venue that fills\<close>

text \<open>
  The world is what the venue holds, in lots, and what it held when each close went out. Every
  close fills one lot while there is one.
\<close>

type_synonym thin_venue = "nat \<times> (string, nat) dict"

definition thin_fill :: "string \<Rightarrow> thin_venue exit_state \<Rightarrow> thin_venue exit_state" where
  "thin_fill c st = (case xs_world st of (lots, pl) \<Rightarrow>
     let od = demo_order\<lparr>o_cloid := c, o_state := (if lots = 0 then CANCELLED else FILLED),
           o_cum_qty := (if lots = 0 then 0 else 1)\<rparr>;
         cp = xs_checkpointer st; ch = cp_cache cp
     in st\<lparr>xs_checkpointer := cp\<lparr>cp_cache := ch\<lparr>ch_orders := AList.update c od (ch_orders ch)\<rparr>\<rparr>,
           xs_world := (lots - 1, AList.update c lots pl)\<rparr>)"

definition thin_host :: "thin_venue exit_host" where
  "thin_host = \<lparr>eh_digest = (\<lambda>s. s), eh_interval = 1, eh_write = (\<lambda>st. (True, 9)),
     eh_await_price = (\<lambda>s st. st\<lparr>xs_prices := note_mark s (note_trade s (xs_prices st))\<rparr>),
     eh_sleep = (\<lambda>t st. st), eh_turn = (\<lambda>st. st), eh_drain = (\<lambda>st. st),
     eh_publish = (\<lambda>s. thin_fill (derive_cloid (\<lambda>x. x) (signal_id_of s))),
     eh_account_pass = None, eh_inflight = (\<lambda>st. (PROVED, st)), eh_open_orders = (\<lambda>st. (PROVED, st)),
     eh_fetch_orders = (\<lambda>st. (Inr [], st)),
     eh_fetch_positions = (\<lambda>st. (Inr (if fst (xs_world st) = 0 then [] else [(''BTC'', of_nat (fst (xs_world st)))]), st)),
     eh_cancel = (\<lambda>rows st. st), eh_start_feed = (\<lambda>ss st. st), eh_feed_ended = (\<lambda>st. st)\<rparr>"

definition thin_ok :: "thin_venue exit_state \<Rightarrow> bool" where
  "thin_ok st \<longleftrightarrow> xs_refusals st = [] \<and> fst (xs_world st) \<le> 2
     \<and> (\<forall>c od. cached_order (cp_cache (xs_checkpointer st)) c = Some od \<longrightarrow> is_terminal od
          \<and> (0 < o_cum_qty od \<longrightarrow> (\<exists>n. map_of (snd (xs_world st)) c = Some n \<and> fst (xs_world st) < n)))
     \<and> (\<forall>c n. map_of (snd (xs_world st)) c = Some n \<longrightarrow> fst (xs_world st) \<le> n)"

definition thin_slope :: "thin_venue slope" where
  "thin_slope = \<lparr>sl_ok = thin_ok, sl_lots = (\<lambda>st. fst (xs_world st)), sl_limits = (\<lambda>st. 0),
     sl_placed = (\<lambda>st c. case map_of (snd (xs_world st)) c of None \<Rightarrow> 2 | Some n \<Rightarrow> n),
     sl_waits = (\<lambda>st c. 0), sl_most = 0\<rparr>"

lemma thin_ok_cong:
  "xs_refusals st' = xs_refusals st \<Longrightarrow> xs_world st' = xs_world st \<Longrightarrow>
    cp_cache (xs_checkpointer st') = cp_cache (xs_checkpointer st) \<Longrightarrow> thin_ok st \<Longrightarrow> below thin_slope st st'"
  by (simp add: below_def thin_slope_def thin_ok_def)

lemma thin_fill_below:
  assumes "thin_ok st"
  shows "below thin_slope st (thin_fill c st)"
proof -
  obtain lots pl where w: "xs_world st = (lots, pl)" by (rule prod.exhaust)
  have le: "\<forall>n. map_of pl c = Some n \<longrightarrow> lots \<le> n" and two: "lots \<le> 2" using assms by (auto simp: thin_ok_def w)
  have "thin_ok (thin_fill c st)"
    using assms by (auto simp: thin_ok_def thin_fill_def w Let_def cached_order_def is_terminal_def
        split: if_split_asm; fastforce)
  then show ?thesis using le two by (auto simp: below_def thin_slope_def thin_fill_def w Let_def split: option.split)
qed

lemma emit_place_cache:
  "emit_place ok e cp sy sd q k t p po ro = Inr (e', cp', s) \<Longrightarrow> ch_orders (cp_cache cp') = ch_orders (cp_cache cp)"
  by (auto simp: emit_place_def emit_record_def cp_raise_seq_def cache_raise_seq_def take_seq_def Let_def bind_res_eq_Inr
      split: if_split_asm)

lemma thin_runs_down: "runs_down thin_host thin_slope"
  unfolding runs_down_def
proof (intro conjI allI impI)
  fix st st' :: "thin_venue exit_state"
  assume ok: "sl_ok thin_slope st" and step: "exit_step thin_host st st'"
  have t: "thin_ok st" using ok by (simp add: thin_slope_def)
  from step show "below thin_slope st st'"
  proof cases
    case (published s)
    then show ?thesis using thin_fill_below [OF t] by (simp add: thin_host_def)
  next
    case (emitted wok sy sd q k tf p po ro e cp s)
    then show ?thesis using t emit_place_cache [OF emitted(2)]
      by (auto simp: below_def thin_slope_def thin_ok_def cached_order_def)
  next
    case (settled wok ts sy cp)
    then have "cp_cache cp = cp_cache (xs_checkpointer st)"
      by (auto simp: checkpoint_leftover_def write_changes_def bind_res_eq_Inr split: if_split_asm)
    then show ?thesis using t settled(1) by (intro thin_ok_cong) simp_all
  next
    case (popped c)
    then show ?thesis using t by (auto simp: below_def thin_slope_def thin_ok_def)
  qed (use t in \<open>auto simp: thin_host_def note_exit_def intro!: thin_ok_cong\<close>)
qed (auto simp: thin_slope_def thin_host_def thin_fill_def thin_ok_def Let_def limited_in_def run_pass_def close_filled_def
    cum_filled_def decided_def split: option.split_asm prod.split, metis option.simps(5))

definition thin_start :: "thin_venue exit_state" where
  "thin_start = \<lparr>xs_checkpointer = demo_start, xs_emitter = make_emitter ''__operator__'', xs_guard = None,
     xs_prices = make_prices [''BTC''] True, xs_refusals = [], xs_notes = [], xs_world = (1, [])\<rparr>"

theorem flattening_ends_witness: "\<exists>r. flatten_symbol 7 4 thin_host ''BTC'' 1 thin_start = Some r"
proof (rule flattening_ends [OF thin_runs_down])
  show "sl_ok thin_slope thin_start"
    by (simp add: thin_slope_def thin_ok_def thin_start_def demo_start_def make_checkpointer_def empty_cache_def cached_order_def)
qed (simp_all add: thin_slope_def thin_start_def)

end
