(* ===== verification/TW_Wire.thy ===== *)
theory TW_Wire
  imports TW_Accounts
begin

text \<open>
  How the live venue's answers are read: \<open>src/src/tickwright/venues/hyperliquid/reading.py\<close>
  and \<open>domain/figures.py\<close>. A response body is a decoded JSON value. A float carries the exact
  number it denotes, if it is finite, and the text Python prints for it. The lemmas show that a
  figure the engine writes on the wire is read back as the figure it was.
\<close>

section \<open>Results with any error\<close>

definition bind_sum :: "'e + 'a \<Rightarrow> ('a \<Rightarrow> 'e + 'b) \<Rightarrow> 'e + 'b" where
  "bind_sum r f = (case r of Inl e \<Rightarrow> Inl e | Inr a \<Rightarrow> f a)"

lemma bind_sum_simps [simp]: "bind_sum (Inl e) f = Inl e" "bind_sum (Inr a) f = f a"
  by (simp_all add: bind_sum_def)

lemma bind_sum_eq_Inr: "bind_sum r f = Inr b \<longleftrightarrow> (\<exists>a. r = Inr a \<and> f a = Inr b)"
  by (cases r) auto

lemma bind_sum_eq_Inl: "bind_sum r f = Inl e \<longleftrightarrow> r = Inl e \<or> (\<exists>a. r = Inr a \<and> f a = Inl e)"
  by (cases r) auto

lemma bind_sum_InrE:
  assumes "bind_sum r f = Inr b"
  obtains a where "r = Inr a" "f a = Inr b"
  using assms by (auto simp: bind_sum_eq_Inr)

fun traverse_sum :: "('a \<Rightarrow> 'e + 'b) \<Rightarrow> 'a list \<Rightarrow> 'e + 'b list" where
  "traverse_sum f [] = Inr []"
| "traverse_sum f (x # xs) =
     bind_sum (f x) (\<lambda>y. bind_sum (traverse_sum f xs) (\<lambda>ys. Inr (y # ys)))"

lemma traverse_sum_Inr_list_all2:
  "traverse_sum f xs = Inr ys \<longleftrightarrow> list_all2 (\<lambda>x y. f x = Inr y) xs ys"
proof (induction xs arbitrary: ys)
  case (Cons x xs)
  then show ?case by (cases ys) (auto simp: bind_sum_eq_Inr)
qed auto

lemma traverse_sum_length: "traverse_sum f xs = Inr ys \<Longrightarrow> length ys = length xs"
  by (auto simp: traverse_sum_Inr_list_all2 dest: list_all2_lengthD)

section \<open>JSON values\<close>

datatype json =
    JNull
  | JBool bool
  | JInt int
  | JFloat "rat option" string
  | JStr string
  | JList "json list"
  | JObj "(string \<times> json) list"

text \<open>
  What reading a body may raise. \<open>UNREADABLE\<close> is the family \<open>ArithmeticError\<close>,
  \<open>KeyError\<close>, \<open>TypeError\<close> and \<open>ValueError\<close>; \<open>NOT_IN_USDC\<close> and \<open>BAD_DELIVERY\<close> are
  the two causes of \<open>VenueFactUnsupported\<close>, which is deliberately outside it.
\<close>

datatype body_fault = UNREADABLE | NOT_IN_USDC | BAD_DELIVERY

type_synonym 'a body = "body_fault + 'a"

definition key :: "json \<Rightarrow> string \<Rightarrow> json body" where
  "key j k = (case j of
     JObj d \<Rightarrow> (case map_of d k of Some v \<Rightarrow> Inr v | None \<Rightarrow> Inl UNREADABLE)
   | _ \<Rightarrow> Inl UNREADABLE)"

text \<open>\<open>k in j\<close>, which is a substring test on a string and an element test on a list.\<close>

fun is_sublist :: "'a list \<Rightarrow> 'a list \<Rightarrow> bool" where
  "is_sublist xs [] \<longleftrightarrow> xs = []"
| "is_sublist xs (y # ys) \<longleftrightarrow> take (length xs) (y # ys) = xs \<or> is_sublist xs ys"

definition has :: "json \<Rightarrow> string \<Rightarrow> bool body" where
  "has j k = (case j of
     JObj d \<Rightarrow> Inr (map_of d k \<noteq> None)
   | JList xs \<Rightarrow> Inr (JStr k \<in> set xs)
   | JStr s \<Rightarrow> Inr (is_sublist k s)
   | _ \<Rightarrow> Inl UNREADABLE)"

text \<open>What a mapping pattern finds: the value of a key when the subject is a mapping.\<close>

definition sub :: "json \<Rightarrow> string \<Rightarrow> json option" where
  "sub j k = (case j of JObj d \<Rightarrow> map_of d k | _ \<Rightarrow> None)"

definition as_str :: "json \<Rightarrow> string option" where
  "as_str j = (case j of JStr s \<Rightarrow> Some s | _ \<Rightarrow> None)"

definition as_list :: "json \<Rightarrow> json list option" where
  "as_list j = (case j of JList xs \<Rightarrow> Some xs | _ \<Rightarrow> None)"

text \<open>The class pattern \<open>int(n)\<close> and \<open>isinstance(j, int)\<close>, which a bool satisfies.\<close>

definition as_int :: "json \<Rightarrow> int option" where
  "as_int j = (case j of JInt i \<Rightarrow> Some i | JBool b \<Rightarrow> Some (if b then 1 else 0) | _ \<Rightarrow> None)"

definition is_mapping :: "json \<Rightarrow> bool" where
  "is_mapping j \<longleftrightarrow> (case j of JObj d \<Rightarrow> True | _ \<Rightarrow> False)"

text \<open>\<open>int(j)\<close>, and \<open>j == n\<close> for an integer \<open>n\<close>.\<close>

definition py_int :: "json \<Rightarrow> int body" where
  "py_int j = (case j of
     JInt i \<Rightarrow> Inr i
   | JBool b \<Rightarrow> Inr (if b then 1 else 0)
   | JFloat (Some q) r \<Rightarrow> Inr (round_down q)
   | JStr s \<Rightarrow> (case read_int s of Some i \<Rightarrow> Inr i | None \<Rightarrow> Inl UNREADABLE)
   | _ \<Rightarrow> Inl UNREADABLE)"

definition eq_int :: "json \<Rightarrow> int \<Rightarrow> bool" where
  "eq_int j n = (case j of
     JInt i \<Rightarrow> i = n
   | JBool b \<Rightarrow> (if b then 1 else 0) = n
   | JFloat (Some q) r \<Rightarrow> q = of_int n
   | _ \<Rightarrow> False)"

text \<open>\<open>str(j)\<close>: a string is itself, everything else its \<open>repr\<close>.\<close>

definition hex_digit :: "nat \<Rightarrow> char" where
  "hex_digit n = (if n < 10 then char_of (48 + n) else char_of (87 + n))"

definition repr_char :: "char \<Rightarrow> char \<Rightarrow> string" where
  "repr_char q c = (let n = of_char c :: nat in
     if c = q \<or> n = 92 then [CHR 0x5C, c]
     else if n = 10 then [CHR 0x5C, CHR ''n'']
     else if n = 13 then [CHR 0x5C, CHR ''r'']
     else if n = 9 then [CHR 0x5C, CHR ''t'']
     else if n < 32 \<or> 127 \<le> n \<and> n \<le> 160 \<or> n = 173 then [CHR 0x5C, CHR ''x'', hex_digit (n div 16), hex_digit (n mod 16)]
     else [c])"

definition repr_str :: "string \<Rightarrow> string" where
  "repr_str s = (let q = (if CHR 0x27 \<in> set s \<and> CHR 0x22 \<notin> set s then CHR 0x22 else CHR 0x27)
     in q # concat (map (repr_char q) s) @ [q])"

fun join :: "string \<Rightarrow> string list \<Rightarrow> string" where
  "join sep [] = ''''"
| "join sep [x] = x"
| "join sep (x # y # ys) = x @ sep @ join sep (y # ys)"

fun py_repr :: "json \<Rightarrow> string" where
  "py_repr JNull = ''None''"
| "py_repr (JBool b) = (if b then ''True'' else ''False'')"
| "py_repr (JInt i) = show_int i"
| "py_repr (JFloat q r) = r"
| "py_repr (JStr s) = repr_str s"
| "py_repr (JList xs) = ''['' @ join '', '' (map py_repr xs) @ '']''"
| "py_repr (JObj d) = ''{'' @ join '', '' (map (\<lambda>(k, v). repr_str k @ '': '' @ py_repr v) d) @ ''}''"

definition py_str :: "json \<Rightarrow> string" where
  "py_str j = (case j of JStr s \<Rightarrow> s | _ \<Rightarrow> py_repr j)"

section \<open>Decimals as text\<close>

text \<open>
  \<open>Decimal(s)\<close> of a string: white space around it and every underscore are dropped, letters
  match in either case. An exponent beyond the limits of the context is not modelled.
\<close>

datatype text_decimal = Finite decimal | NonFinite

definition digits_value :: "nat list \<Rightarrow> int" where
  "digits_value ds = foldl (\<lambda>a d. 10 * a + int d) 0 ds"

fun take_digits :: "string \<Rightarrow> nat list \<times> string" where
  "take_digits [] = ([], [])"
| "take_digits (c # cs) = (case digit_of c of
     Some d \<Rightarrow> (case take_digits cs of (ds, r) \<Rightarrow> (d # ds, r))
   | None \<Rightarrow> ([], c # cs))"

definition take_sign :: "string \<Rightarrow> bool \<times> string" where
  "take_sign s = (case s of
     [] \<Rightarrow> (False, [])
   | c # cs \<Rightarrow> if c = CHR ''-'' then (True, cs) else if c = CHR ''+'' then (False, cs) else (False, s))"

definition lower_char :: "char \<Rightarrow> char" where
  "lower_char c = (let n = of_char c :: nat in if 65 \<le> n \<and> n \<le> 90 then char_of (n + 32) else c)"

definition read_exponent :: "string \<Rightarrow> int option" where
  "read_exponent s = (case s of
     [] \<Rightarrow> Some 0
   | c # cs \<Rightarrow> if lower_char c \<noteq> CHR ''e'' then None
       else (case take_sign cs of (neg, u) \<Rightarrow> (case take_digits u of (ds, r) \<Rightarrow>
              if ds = [] \<or> r \<noteq> [] then None
              else Some (if neg then - digits_value ds else digits_value ds))))"

definition after_point :: "string \<Rightarrow> nat list \<times> string" where
  "after_point s = (case s of c # cs \<Rightarrow> if c = CHR ''.'' then take_digits cs else ([], s) | [] \<Rightarrow> ([], []))"

definition is_nonfinite :: "string \<Rightarrow> bool" where
  "is_nonfinite s \<longleftrightarrow> (let t = map lower_char s; nan = (if take 1 t = ''s'' then drop 1 t else t)
     in t \<in> {''inf'', ''infinity''} \<or> take 3 nan = ''nan'' \<and> snd (take_digits (drop 3 nan)) = [])"

definition read_finite :: "string \<Rightarrow> decimal option" where
  "read_finite s = (case take_digits s of (ip, r) \<Rightarrow> (case after_point r of (fp, r') \<Rightarrow>
     if ip @ fp = [] then None
     else map_option (\<lambda>e. of_int (digits_value (ip @ fp)) * pow10 (e - int (length fp))) (read_exponent r')))"

definition read_decimal :: "string \<Rightarrow> text_decimal option" where
  "read_decimal s = (case take_sign (filter (\<lambda>c. c \<noteq> CHR ''_'') (strip s)) of (neg, u) \<Rightarrow>
     if is_nonfinite u then Some NonFinite
     else map_option (\<lambda>x. Finite (if neg then - x else x)) (read_finite u))"

definition exact_figure :: "text_decimal \<Rightarrow> decimal body" where
  "exact_figure d = (case d of Finite x \<Rightarrow> Inr x | NonFinite \<Rightarrow> Inl UNREADABLE)"

definition figure :: "json \<Rightarrow> decimal body" where
  "figure j = (case j of
     JStr s \<Rightarrow> (case read_decimal s of Some d \<Rightarrow> exact_figure d | None \<Rightarrow> Inl UNREADABLE)
   | _ \<Rightarrow> Inl UNREADABLE)"

text \<open>
  \<open>f"{value.normalize():f}"\<close>: the figure as the context rounds it, in plain notation and without
  trailing zeros. No figure of 28 digits has more decimals than \<open>plain_places\<close>.
\<close>

fun pad_digits :: "nat \<Rightarrow> int \<Rightarrow> nat list" where
  "pad_digits 0 n = []"
| "pad_digits (Suc k) n = pad_digits k (n div 10) @ [nat (n mod 10)]"

definition plain_places :: "decimal \<Rightarrow> nat" where
  "plain_places x = nat (prec - 1 - adjusted x)"

definition plain_text :: "decimal \<Rightarrow> string" where
  "plain_text x =
     (let k = plain_places x;
          n = \<lfloor>\<bar>x\<bar> * 10 ^ k\<rfloor>;
          fp = rev (dropWhile (\<lambda>d. d = 0) (rev (pad_digits k (n mod 10 ^ k))))
      in (if x < 0 then ''-'' else '''') @ show_int (n div 10 ^ k)
         @ (if fp = [] then '''' else CHR ''.'' # map digit_char fp))"

definition wire_decimal :: "decimal \<Rightarrow> string" where
  "wire_decimal x = plain_text (rnd x)"

section \<open>A read and its verdict\<close>

text \<open>
  A request is answered with a body or fails: \<open>IpRateLimited\<close> (an \<open>OSError\<close> of its own), another
  \<open>OSError\<close>, or an exception that is neither, which leaves every read.
\<close>

datatype send_fault = IP_LIMIT | OS_ERROR | OTHER_RAISE

datatype wire_raise = UnsupportedFact body_fault | SendRaised | Raised exc

type_synonym 's request = "json \<Rightarrow> 's \<Rightarrow> (send_fault + json) \<times> 's"

definition read_body :: "(json \<Rightarrow> 'a body) \<Rightarrow> json \<Rightarrow> wire_raise + (venue_read_failure + 'a)" where
  "read_body reader response = (case reader response of
     Inr x \<Rightarrow> Inr (Inr x)
   | Inl UNREADABLE \<Rightarrow> Inr (Inl UNREADABLE_BODY)
   | Inl e \<Rightarrow> Inl (UnsupportedFact e))"

definition venue_read ::
  "'s request \<Rightarrow> json \<Rightarrow> ('s \<Rightarrow> json \<Rightarrow> 'a body) \<Rightarrow> 's \<Rightarrow> (wire_raise + (venue_read_failure + 'a)) \<times> 's" where
  "venue_read send query reader st = (case send query st of
     (Inl IP_LIMIT, st') \<Rightarrow> (Inr (Inl RATE_LIMITED_IP), st')
   | (Inl OS_ERROR, st') \<Rightarrow> (Inr (Inl SEND_FAILED), st')
   | (Inl OTHER_RAISE, st') \<Rightarrow> (Inl SendRaised, st')
   | (Inr response, st') \<Rightarrow> (read_body (reader st') response, st'))"

definition refuse_non_usdc :: "'a body" where
  "refuse_non_usdc = Inl NOT_IN_USDC"


section \<open>A figure written is the figure read\<close>

lemma digits_value_simps [simp]: "digits_value [] = 0" "digits_value (xs @ [d]) = 10 * digits_value xs + int d"
  by (simp_all add: digits_value_def)

lemma digits_value_append: "digits_value (xs @ ys) = digits_value xs * 10 ^ length ys + digits_value ys"
  by (induction ys rule: rev_induct) (simp_all flip: append_assoc add: algebra_simps)

lemma digits_value_zeros: "\<forall>d \<in> set zs. d = 0 \<Longrightarrow> digits_value zs = 0"
  by (induction zs rule: rev_induct) auto

lemma take_digits_map:
  "\<forall>d \<in> set ds. d < 10 \<Longrightarrow> r = [] \<or> digit_of (hd r) = None \<Longrightarrow> take_digits (map digit_char ds @ r) = (ds, r)"
proof (induction ds)
  case Nil
  then show ?case by (cases r) auto
qed simp

lemma show_nat_digits:
  "\<exists>ds. show_nat n = map digit_char ds \<and> (\<forall>d \<in> set ds. d < 10) \<and> digits_value ds = int n \<and> ds \<noteq> []"
proof (induction n rule: show_nat.induct)
  case (1 n)
  show ?case
  proof (cases "n < 10")
    case True
    then show ?thesis by (intro exI [of _ "[n]"]) (simp add: show_nat.simps [of n] digits_value_def)
  next
    case False
    with 1 obtain ds where "show_nat (n div 10) = map digit_char ds" "\<forall>d \<in> set ds. d < 10"
      "digits_value ds = int (n div 10)" by blast
    moreover have "10 * int (n div 10) + int (n mod 10) = int n" by presburger
    ultimately show ?thesis using False
      by (intro exI [of _ "ds @ [n mod 10]"]) (auto simp: show_nat.simps [of n])
  qed
qed

lemma pad_digits_less: "\<forall>d \<in> set (pad_digits k n). d < 10"
  by (induction k n rule: pad_digits.induct) auto

lemma pad_digits_length [simp]: "length (pad_digits k n) = k"
  by (induction k n rule: pad_digits.induct) auto

lemma pad_digits_value: "0 \<le> n \<Longrightarrow> n < 10 ^ k \<Longrightarrow> digits_value (pad_digits k n) = n"
proof (induction k n rule: pad_digits.induct)
  case (2 k n)
  then have "n div 10 < 10 ^ k" by simp
  moreover have "0 \<le> n div 10" using 2(2) by simp
  ultimately show ?case using 2(1) by simp
qed simp

definition drop_zeros :: "nat list \<Rightarrow> nat list" where
  "drop_zeros ds = rev (dropWhile (\<lambda>d. d = 0) (rev ds))"

lemma drop_zeros_split: "\<exists>zs. ds = drop_zeros ds @ zs \<and> (\<forall>d \<in> set zs. d = 0)"
proof -
  have "rev ds = takeWhile (\<lambda>d. d = 0) (rev ds) @ dropWhile (\<lambda>d. d = 0) (rev ds)"
    by (rule takeWhile_dropWhile_id [symmetric])
  then have "rev (rev ds) = rev (dropWhile (\<lambda>d. d = 0) (rev ds)) @ rev (takeWhile (\<lambda>d. d = 0) (rev ds))"
    by (metis rev_append)
  then have "ds = drop_zeros ds @ rev (takeWhile (\<lambda>d. d = 0) (rev ds))" by (simp add: drop_zeros_def)
  moreover have "\<forall>d \<in> set (rev (takeWhile (\<lambda>d. d = 0) (rev ds))). d = 0" by (auto dest: set_takeWhileD)
  ultimately show ?thesis by blast
qed

text \<open>The value of a plain text: whole digits, then the decimals without their trailing zeros.\<close>

lemma read_plain_digits:
  assumes "\<forall>d \<in> set ip. d < 10" and "ip \<noteq> []" and "\<forall>d \<in> set ds. d < 10"
    and fp: "fp = drop_zeros ds"
  shows "read_finite (map digit_char ip @ (if fp = [] then '''' else CHR ''.'' # map digit_char fp))
    = Some (of_int (digits_value ip * 10 ^ length ds + digits_value ds) / 10 ^ length ds)"
proof -
  obtain zs where zs: "ds = fp @ zs" "\<forall>d \<in> set zs. d = 0" using drop_zeros_split [of ds] fp by auto
  have small: "\<forall>d \<in> set fp. d < 10" using assms(3) zs by auto
  have tail: "after_point (if fp = [] then '''' else CHR ''.'' # map digit_char fp) = (fp, [])"
    using take_digits_map [OF small, of "[]"] by (simp add: after_point_def)
  have whole: "take_digits (map digit_char ip @ (if fp = [] then '''' else CHR ''.'' # map digit_char fp))
      = (ip, if fp = [] then '''' else CHR ''.'' # map digit_char fp)"
    by (rule take_digits_map [OF assms(1)]) (auto simp: digit_of_def)
  have v: "digits_value ip * 10 ^ length ds + digits_value ds = digits_value (ip @ fp) * 10 ^ length zs"
    using digits_value_zeros [OF zs(2)] zs(1) by (simp add: digits_value_append power_add algebra_simps)
  have "of_int (digits_value (ip @ fp)) * pow10 (- int (length fp))
      = (of_int (digits_value (ip @ fp) * 10 ^ length zs) / 10 ^ length ds :: rat)"
    using zs(1) by (simp add: pow10_def power_add field_simps)
  then show ?thesis
    unfolding read_finite_def whole prod.case tail v using assms(2) by (simp add: read_exponent_def)
qed


text \<open>A figure the context represents has at most \<open>plain_places\<close> decimals.\<close>

lemma fits_scaled_int:
  assumes "fits x"
  shows "\<exists>m :: int. x * 10 ^ plain_places x = of_int m"
proof (cases "x = 0")
  case False
  define e where "e = adjusted x - (prec - 1)"
  have "rnd x = of_int (round_half_even (x / pow10 e)) * pow10 e"
    using False by (simp add: rnd_def e_def Let_def)
  then have m: "x = of_int (round_half_even (x / pow10 e)) * pow10 e" using assms unfolding fits_def by simp
  define m where "m = round_half_even (x / pow10 e)"
  note m = m [folded m_def]
  show ?thesis
  proof (cases "0 \<le> e")
    case True
    then have "plain_places x = 0" by (simp add: plain_places_def e_def)
    moreover have "of_int m * pow10 e = of_int (m * 10 ^ nat e)" using True by (simp add: pow10_def)
    ultimately show ?thesis using m by (metis mult.right_neutral power_0)
  next
    case False
    then have k: "plain_places x = nat (- e)" by (simp add: plain_places_def e_def)
    have "pow10 e * 10 ^ nat (- e) = 1" using False by (simp add: pow10_def)
    then have "of_int m * pow10 e * 10 ^ nat (- e) = of_int m" by (simp add: mult.assoc)
    then show ?thesis using m k by metis
  qed
qed simp

lemma plain_chars:
  assumes "c \<in> set (map digit_char ip @ (if fp = [] then '''' else CHR ''.'' # map digit_char fp))"
    and "\<forall>d \<in> set ip. d < 10" "\<forall>d \<in> set fp. d < 10"
  shows "\<not> is_space c \<and> c \<noteq> CHR ''_''"
proof -
  have "\<not> is_space (digit_char d) \<and> digit_char d \<noteq> CHR ''_''" if "d < 10" for d
    using that digit_char_code [of d] digit_char_not_space [of d] by auto
  moreover have "\<not> is_space (CHR ''.'')" by (simp add: is_space_def)
  ultimately show ?thesis using assms by (auto split: if_splits)
qed

lemma plain_finite:
  assumes "d < 10"
  shows "\<not> is_nonfinite (digit_char d # cs)" and "take_sign (digit_char d # cs) = (False, digit_char d # cs)"
proof -
  have n: "(of_char (digit_char d) :: nat) = 48 + d" by (rule digit_char_code [OF assms])
  then have l: "lower_char (digit_char d) = digit_char d" using assms by (simp add: lower_char_def)
  have ne: "digit_char d \<noteq> CHR ''i''" "digit_char d \<noteq> CHR ''n''" "digit_char d \<noteq> CHR ''s''"
    "digit_char d \<noteq> CHR ''-''" "digit_char d \<noteq> CHR ''+''"
    using n assms by auto
  then show "\<not> is_nonfinite (digit_char d # cs)" by (simp add: is_nonfinite_def l Let_def)
  show "take_sign (digit_char d # cs) = (False, digit_char d # cs)" using ne by (simp add: take_sign_def)
qed

lemma read_plain_text:
  assumes "fits x"
  shows "read_decimal (plain_text x) = Some (Finite x)"
proof -
  define k where "k = plain_places x"
  obtain m :: int where m: "x * 10 ^ k = of_int m" using fits_scaled_int [OF assms] k_def by blast
  have abs: "\<bar>x\<bar> * 10 ^ k = of_int \<bar>m\<bar>" using m by (metis abs_mult abs_numeral of_int_abs power_abs)
  define n where "n = \<bar>m\<bar>"
  have x: "\<bar>x\<bar> = of_int n / 10 ^ k" using abs by (simp add: n_def field_simps)
  have n0: "0 \<le> n div 10 ^ k" by (simp add: n_def pos_imp_zdiv_nonneg_iff)
  obtain ip where "show_nat (nat (n div 10 ^ k)) = map digit_char ip" "\<forall>d \<in> set ip. d < 10"
    "digits_value ip = int (nat (n div 10 ^ k))" "ip \<noteq> []" using show_nat_digits by blast
  then have ip: "show_int (n div 10 ^ k) = map digit_char ip" "\<forall>d \<in> set ip. d < 10"
    "digits_value ip = n div 10 ^ k" "ip \<noteq> []" using n0 by (simp_all add: show_int_def)
  define ds where "ds = pad_digits k (n mod 10 ^ k)"
  define fp where "fp = drop_zeros ds"
  define t where "t = map digit_char ip @ (if fp = [] then '''' else CHR ''.'' # map digit_char fp)"
  have ds: "\<forall>d \<in> set ds. d < 10" "length ds = k" "digits_value ds = n mod 10 ^ k"
    unfolding ds_def using pad_digits_less pad_digits_value by simp_all
  have small: "\<forall>d \<in> set fp. d < 10" using drop_zeros_split [of ds] ds(1) unfolding fp_def by (metis Un_iff set_append)
  have "digits_value ip * 10 ^ length ds + digits_value ds = n"
    unfolding ds(2,3) ip(3) by (rule div_mult_mod_eq)
  then have fin: "read_finite t = Some \<bar>x\<bar>"
    unfolding t_def using read_plain_digits [OF ip(2,4) ds(1) fp_def] ds(2) x by simp
  have text_eq: "plain_text x = (if x < 0 then ''-'' else '''') @ t"
    unfolding plain_text_def Let_def k_def [symmetric] abs floor_of_int n_def [symmetric] t_def ip(1) [symmetric]
      fp_def drop_zeros_def ds_def by simp
  have cs: "\<And>c. c \<in> set (plain_text x) \<Longrightarrow> \<not> is_space c \<and> c \<noteq> CHR ''_''"
    using plain_chars [OF _ ip(2) small] unfolding text_eq t_def [symmetric] by (auto simp: is_space_def split: if_splits)
  have strip: "filter (\<lambda>c. c \<noteq> CHR ''_'') (strip (plain_text x)) = plain_text x"
    using cs by (simp add: strip_no_space filter_id_conv)
  obtain d ip' where hd: "ip = d # ip'" "d < 10" using ip(2,4) by (cases ip) auto
  have "\<not> is_nonfinite t" "take_sign t = (False, t)"
    unfolding t_def hd(1) using plain_finite [OF hd(2)] by simp_all
  then show ?thesis
    unfolding read_decimal_def strip using fin unfolding text_eq
    by (cases "x < 0") (simp_all add: take_sign_def)
qed

text \<open>
  C40. What the engine writes on the wire reads back as the figure it is: plain notation loses
  nothing, at any size and any number of decimals.
\<close>

theorem wire_decimal_reads_back:
  "figure (JStr (wire_decimal x)) = Inr (rnd x)"
  by (simp add: figure_def wire_decimal_def read_plain_text exact_figure_def)


lemma wire_decimal_fits: "fits x \<Longrightarrow> figure (JStr (wire_decimal x)) = Inr x"
  by (simp add: figure_def wire_decimal_def read_plain_text exact_figure_def fits_def)

end
