(* ===== verification/TW_Pacing.thy ===== *)
theory TW_Pacing
  imports TW_Wire
begin

text \<open>
  How bounded retries and periodic loops are paced: \<open>src/src/tickwright/domain/pacing.py\<close>,
  the start-up barrier of \<open>engine/barrier.py\<close>, the boot guards' retry loop of
  \<open>venues/hyperliquid/preflight.py\<close>, the deadlines of \<open>engine/cadence.py\<close> and the virtual
  clock of \<open>adapters/clock/manual.py\<close>. A clock is a record of two functions on the state \<open>'s\<close>
  its reader sees; a sleep is an await, so it may change all of it. The loops of the source
  end only if the clock moves, so they take fuel; the lemmas give the number of rounds that is
  enough.
\<close>

section \<open>Clocks and pacing\<close>

record 's clock =
  ck_now :: "'s \<Rightarrow> int"
  ck_sleep :: "rat \<Rightarrow> 's \<Rightarrow> 's"

record backoff =
  bo_initial :: rat
  bo_maximum :: rat
  bo_current :: rat

definition make_backoff :: "rat \<Rightarrow> rat \<Rightarrow> backoff" where
  "make_backoff initial maximum = \<lparr>bo_initial = initial, bo_maximum = maximum, bo_current = initial\<rparr>"

definition reset_backoff :: "backoff \<Rightarrow> backoff" where
  "reset_backoff b = b\<lparr>bo_current := bo_initial b\<rparr>"

definition sleep_on :: "'s clock \<Rightarrow> backoff \<Rightarrow> 's \<Rightarrow> backoff \<times> 's" where
  "sleep_on ck b st = (b\<lparr>bo_current := min (bo_current b * 2) (bo_maximum b)\<rparr>, ck_sleep ck (bo_current b) st)"

record deadline =
  dl_at_ns :: int
  dl_budget_seconds :: rat

definition NS_PER_SECOND :: int where
  "NS_PER_SECOND = 1000000000"

definition open_deadline :: "'s clock \<Rightarrow> rat \<Rightarrow> 's \<Rightarrow> deadline" where
  "open_deadline ck budget st =
     \<lparr>dl_at_ns = ck_now ck st + round_down (budget * of_int NS_PER_SECOND), dl_budget_seconds = budget\<rparr>"

definition spent :: "'s clock \<Rightarrow> deadline \<Rightarrow> 's \<Rightarrow> bool" where
  "spent ck d st \<longleftrightarrow> dl_at_ns d \<le> ck_now ck st"

section \<open>The boot guards' retry loop\<close>

text \<open>
  A call fails in a way worth repeating (the venue was unreachable, or its body could not be
  read), or raises something that leaves the loop.
\<close>

datatype 'x call_fault = Transient | Leaves 'x

definition RETRY_INITIAL_BACKOFF_SECONDS :: rat where "RETRY_INITIAL_BACKOFF_SECONDS = 1"
definition RETRY_MAX_BACKOFF_SECONDS :: rat where "RETRY_MAX_BACKOFF_SECONDS = 30"

fun retry_until ::
  "nat \<Rightarrow> 's clock \<Rightarrow> deadline \<Rightarrow> 'x \<Rightarrow> ('s \<Rightarrow> ('x call_fault + 'a) \<times> 's) \<Rightarrow> backoff \<Rightarrow> 's \<Rightarrow> (('x + 'a) \<times> 's) option" where
  "retry_until 0 ck d exhausted call b st = None"
| "retry_until (Suc n) ck d exhausted call b st = (case call st of
     (Inr a, st1) \<Rightarrow> Some (Inr a, st1)
   | (Inl (Leaves x), st1) \<Rightarrow> Some (Inl x, st1)
   | (Inl Transient, st1) \<Rightarrow>
       if spent ck d st1 then Some (Inl exhausted, st1)
       else (case sleep_on ck b st1 of (b', st2) \<Rightarrow> retry_until n ck d exhausted call b' st2))"

definition until_deadline ::
  "nat \<Rightarrow> 's clock \<Rightarrow> deadline \<Rightarrow> 'x \<Rightarrow> ('s \<Rightarrow> ('x call_fault + 'a) \<times> 's) \<Rightarrow> 's \<Rightarrow> (('x + 'a) \<times> 's) option" where
  "until_deadline n ck d exhausted call st =
     retry_until n ck d exhausted call (make_backoff RETRY_INITIAL_BACKOFF_SECONDS RETRY_MAX_BACKOFF_SECONDS) st"

section \<open>The start-up barrier\<close>

type_synonym 's barrier_step = "'s \<Rightarrow> (exc + bool) \<times> 's"

datatype barrier_end = BarrierCleared | StartupReconciliationTimeout | StepRaised exc

fun barrier_attempt :: "'s barrier_step list \<Rightarrow> 's \<Rightarrow> (exc + bool) \<times> 's" where
  "barrier_attempt [] st = (Inr True, st)"
| "barrier_attempt (step # steps) st = (case step st of
     (Inl e, st1) \<Rightarrow> (Inl e, st1)
   | (Inr False, st1) \<Rightarrow> (Inr False, st1)
   | (Inr True, st1) \<Rightarrow> barrier_attempt steps st1)"

definition INITIAL_BACKOFF_SECONDS :: rat where "INITIAL_BACKOFF_SECONDS = 1"
definition MAX_BACKOFF_SECONDS :: rat where "MAX_BACKOFF_SECONDS = 30"

fun barrier_loop ::
  "nat \<Rightarrow> 's clock \<Rightarrow> deadline \<Rightarrow> 's barrier_step list \<Rightarrow> backoff \<Rightarrow> 's \<Rightarrow> (barrier_end \<times> 's) option" where
  "barrier_loop 0 ck d steps b st = None"
| "barrier_loop (Suc n) ck d steps b st = (case barrier_attempt steps st of
     (Inl e, st1) \<Rightarrow> Some (StepRaised e, st1)
   | (Inr True, st1) \<Rightarrow> Some (BarrierCleared, st1)
   | (Inr False, st1) \<Rightarrow>
       if spent ck d st1 then Some (StartupReconciliationTimeout, st1)
       else (case sleep_on ck b st1 of (b', st2) \<Rightarrow> barrier_loop n ck d steps b' st2))"

definition run_barrier ::
  "nat \<Rightarrow> 's clock \<Rightarrow> 's barrier_step list \<Rightarrow> rat \<Rightarrow> 's \<Rightarrow> (barrier_end \<times> 's) option" where
  "run_barrier n ck steps timeout st =
     barrier_loop n ck (open_deadline ck timeout st) steps (make_backoff INITIAL_BACKOFF_SECONDS MAX_BACKOFF_SECONDS) st"

section \<open>Periodic loops\<close>

text \<open>One round: the deadline slept to, and on the aligned grid the slot the cycle is given.\<close>

definition cadence_deadline :: "int \<Rightarrow> int \<Rightarrow> int" where
  "cadence_deadline interval now = now + interval"

definition aligned_deadline :: "int \<Rightarrow> int \<Rightarrow> int" where
  "aligned_deadline interval now = (now div interval + 1) * interval"

definition aligned_slot :: "int \<Rightarrow> int \<Rightarrow> int" where
  "aligned_slot interval now = now div interval * interval"

section \<open>The virtual clock\<close>

text \<open>A parked waiter is its target and a name for its future; \<open>mc_woken\<close> lists the futures resolved.\<close>

record manual_clock =
  mc_now_ns :: int
  mc_waiters :: "(int \<times> nat) list"
  mc_woken :: "nat list"

definition manual_sleep :: "rat \<Rightarrow> manual_clock \<Rightarrow> manual_clock" where
  "manual_sleep seconds mc = mc\<lparr>mc_now_ns := mc_now_ns mc + round_down (seconds * of_int NS_PER_SECOND)\<rparr>"

text \<open>\<open>sleep_until\<close> returns at once, or parks the caller under its future.\<close>

definition sleep_until :: "int \<Rightarrow> nat \<Rightarrow> manual_clock \<Rightarrow> bool \<times> manual_clock" where
  "sleep_until target w mc =
     (if target \<le> mc_now_ns mc then (True, mc) else (False, mc\<lparr>mc_waiters := mc_waiters mc @ [(target, w)]\<rparr>))"

definition release_matured :: "nat set \<Rightarrow> manual_clock \<Rightarrow> manual_clock" where
  "release_matured cancelled mc =
     (let live = filter (\<lambda>(t, w). w \<notin> cancelled) (mc_waiters mc)
      in mc\<lparr>mc_waiters := filter (\<lambda>(t, w). mc_now_ns mc < t) live,
            mc_woken := mc_woken mc @ map snd (filter (\<lambda>(t, w). t \<le> mc_now_ns mc) live)\<rparr>)"

definition advance_to :: "int \<Rightarrow> nat set \<Rightarrow> manual_clock \<Rightarrow> manual_clock res" where
  "advance_to ts cancelled mc =
     (if ts < mc_now_ns mc then Inl ValueError else Inr (release_matured cancelled (mc\<lparr>mc_now_ns := ts\<rparr>)))"

section \<open>Retries end\<close>

text \<open>
  A clock moves when a sleep of some seconds takes it at least that far, whatever else happens
  in the meantime, and a call does not move it back.
\<close>

definition moves :: "'s clock \<Rightarrow> bool" where
  "moves ck \<longleftrightarrow> (\<forall>t st. ck_now ck st + round_down (t * of_int NS_PER_SECOND) \<le> ck_now ck (ck_sleep ck t st))"

definition forward :: "'s clock \<Rightarrow> ('s \<Rightarrow> 'r \<times> 's) \<Rightarrow> bool" where
  "forward ck call \<longleftrightarrow> (\<forall>st. ck_now ck st \<le> ck_now ck (snd (call st)))"

definition left_ns :: "'s clock \<Rightarrow> deadline \<Rightarrow> 's \<Rightarrow> int" where
  "left_ns ck d st = max 0 (dl_at_ns d - ck_now ck st)"

lemma round_down_ge: "of_int n \<le> x \<Longrightarrow> 0 \<le> n \<Longrightarrow> n \<le> round_down x"
  by (simp add: round_down_def le_floor_iff)

lemma sleep_second:
  assumes "moves ck" and "1 \<le> bo_current b"
  shows "ck_now ck st + NS_PER_SECOND \<le> ck_now ck (snd (sleep_on ck b st))"
proof -
  have "NS_PER_SECOND \<le> round_down (bo_current b * of_int NS_PER_SECOND)"
    using assms(2) by (intro round_down_ge) (simp_all add: NS_PER_SECOND_def)
  then show ?thesis using assms(1) unfolding moves_def sleep_on_def by (simp, smt (verit))
qed

text \<open>Seconds left, rounded up: each failed round that sleeps takes one off.\<close>

definition rounds_left :: "'s clock \<Rightarrow> deadline \<Rightarrow> 's \<Rightarrow> nat" where
  "rounds_left ck d st = nat ((left_ns ck d st + NS_PER_SECOND - 1) div NS_PER_SECOND)"

lemma rounds_left_less:
  assumes "\<not> spent ck d st" and "ck_now ck st + NS_PER_SECOND \<le> ck_now ck st'"
  shows "rounds_left ck d st' < rounds_left ck d st"
proof -
  have a: "left_ns ck d st = dl_at_ns d - ck_now ck st" "0 < left_ns ck d st"
    using assms(1) by (simp_all add: spent_def left_ns_def)
  have b: "0 \<le> left_ns ck d st'" "left_ns ck d st' \<le> max 0 (left_ns ck d st - NS_PER_SECOND)"
    using assms(2) a by (simp_all add: left_ns_def)
  define k where "k = left_ns ck d st"
  define k' where "k' = left_ns ck d st'"
  have k: "0 < k" "0 \<le> k'" "k' \<le> max 0 (k - 1000000000)"
    using a b unfolding k_def k'_def NS_PER_SECOND_def by simp_all
  have "(k' + 999999999) div 1000000000 < (k + 999999999) div 1000000000"
  proof (cases "k \<le> 1000000000")
    case True
    then have "k' = 0" using k by simp
    moreover have "1 \<le> (k + 999999999) div 1000000000" using k(1) by linarith
    ultimately show ?thesis by simp
  next
    case False
    then have "(k' + 999999999) div 1000000000 \<le> (k - 1000000000 + 999999999) div 1000000000"
      using k by (intro zdiv_mono1) auto
    also have "\<dots> < (k + 999999999) div 1000000000" by linarith
    finally show ?thesis .
  qed
  moreover have "0 \<le> (k' + 999999999) div 1000000000" using k(2) by (simp add: pos_imp_zdiv_nonneg_iff)
  ultimately have "0 < (k + 999999999) div 1000000000 \<and> (k' + 999999999) div 1000000000 < (k + 999999999) div 1000000000"
    by linarith
  then have "nat ((k' + 999999999) div 1000000000) < nat ((k + 999999999) div 1000000000)"
    by simp
  then show ?thesis unfolding rounds_left_def k_def k'_def NS_PER_SECOND_def by (simp add: add.commute)
qed

lemma rounds_left_mono: "ck_now ck st \<le> ck_now ck st' \<Longrightarrow> rounds_left ck d st' \<le> rounds_left ck d st"
  unfolding rounds_left_def left_ns_def NS_PER_SECOND_def by (intro nat_mono zdiv_mono1) auto

lemma backoff_stays:
  "1 \<le> bo_current b \<Longrightarrow> 1 \<le> bo_maximum b \<Longrightarrow>
    1 \<le> bo_current (fst (sleep_on ck b st)) \<and> 1 \<le> bo_maximum (fst (sleep_on ck b st))"
  by (simp add: sleep_on_def)

lemma retry_ends:
  assumes "moves ck" "forward ck call" "1 \<le> bo_current b" "1 \<le> bo_maximum b" "rounds_left ck d st < n"
  shows "retry_until n ck d exhausted call b st \<noteq> None"
  using assms(3-5)
proof (induction n arbitrary: b st)
  case (Suc n)
  obtain r st1 where c: "call st = (r, st1)" by (cases "call st")
  have f: "ck_now ck st \<le> ck_now ck st1" using assms(2) c unfolding forward_def by (metis snd_conv)
  show ?case
  proof (cases "r = Inl Transient \<and> \<not> spent ck d st1")
    case True
    obtain b' st2 where s: "sleep_on ck b st1 = (b', st2)" by (cases "sleep_on ck b st1")
    have "rounds_left ck d st2 < rounds_left ck d st1"
      using rounds_left_less [of ck d st1 st2] sleep_second [OF assms(1) Suc.prems(1), of st1] True s by simp
    then have "rounds_left ck d st2 < n"
      using rounds_left_mono [OF f, of d] Suc.prems(3) by linarith
    then show ?thesis using True c s Suc.IH backoff_stays [OF Suc.prems(1,2), of ck st1] by simp
  next
    case False
    then show ?thesis using c by (auto split: sum.split call_fault.split)
  qed
qed simp

lemma barrier_ends:
  assumes "moves ck" "forward ck (barrier_attempt steps)" "1 \<le> bo_current b" "1 \<le> bo_maximum b"
    "rounds_left ck d st < n"
  shows "barrier_loop n ck d steps b st \<noteq> None"
  using assms(3-5)
proof (induction n arbitrary: b st)
  case (Suc n)
  obtain r st1 where c: "barrier_attempt steps st = (r, st1)" by (cases "barrier_attempt steps st")
  have f: "ck_now ck st \<le> ck_now ck st1" using assms(2) c unfolding forward_def by (metis snd_conv)
  show ?case
  proof (cases "r = Inr False \<and> \<not> spent ck d st1")
    case True
    obtain b' st2 where s: "sleep_on ck b st1 = (b', st2)" by (cases "sleep_on ck b st1")
    have "rounds_left ck d st2 < rounds_left ck d st1"
      using rounds_left_less [of ck d st1 st2] sleep_second [OF assms(1) Suc.prems(1), of st1] True s by simp
    then have "rounds_left ck d st2 < n"
      using rounds_left_mono [OF f, of d] Suc.prems(3) by linarith
    then show ?thesis using True c s Suc.IH backoff_stays [OF Suc.prems(1,2), of ck st1] by simp
  next
    case False
    then show ?thesis using c by (auto split: sum.split bool.split)
  qed
qed simp


text \<open>What a retried call and the sleeps keep, the loop keeps; an answer came from one call.\<close>

lemma retry_inv:
  assumes "\<And>st. I st \<Longrightarrow> I (snd (call st))" and "\<And>t st. I st \<Longrightarrow> I (ck_sleep ck t st)"
    and "I st" and "retry_until n ck d exhausted call b st = Some (r, st')"
  shows "I st' \<and> (\<forall>a. r = Inr a \<longrightarrow> (\<exists>st0. I st0 \<and> call st0 = (Inr a, st')))"
  using assms(3,4)
proof (induction n arbitrary: b st)
  case (Suc n)
  obtain q st1 where c: "call st = (q, st1)" by (cases "call st")
  have i1: "I st1" using assms(1) [OF Suc.prems(1)] c by simp
  show ?case
  proof (cases "q = Inl Transient \<and> \<not> spent ck d st1")
    case True
    have "I (snd (sleep_on ck b st1))" using assms(2) [OF i1] by (simp add: sleep_on_def)
    then show ?thesis using True c Suc.IH Suc.prems(2) by (auto split: prod.splits)
  next
    case False
    then show ?thesis using c i1 Suc.prems by (auto split: sum.splits call_fault.splits if_splits)
  qed
qed simp

lemmas deadline_inv = retry_inv [where b = "make_backoff RETRY_INITIAL_BACKOFF_SECONDS RETRY_MAX_BACKOFF_SECONDS",
  folded until_deadline_def]

text \<open>The barrier clears only on a pass in which every step, in order, answered yes.\<close>

lemma attempt_clears:
  "barrier_attempt steps st = (Inr True, st') \<Longrightarrow>
    \<exists>sts. length sts = length steps \<and> last (st # sts) = st'
      \<and> (\<forall>i < length steps. (steps ! i) ((st # sts) ! i) = (Inr True, sts ! i))"
proof (induction steps arbitrary: st)
  case (Cons step steps)
  obtain st1 where s: "step st = (Inr True, st1)" "barrier_attempt steps st1 = (Inr True, st')"
    using Cons.prems by (auto split: prod.splits sum.splits bool.splits)
  obtain sts where "length sts = length steps" "last (st1 # sts) = st'"
    "\<forall>i < length steps. (steps ! i) ((st1 # sts) ! i) = (Inr True, sts ! i)"
    using Cons.IH [OF s(2)] by blast
  then show ?case
    by (intro exI [of _ "st1 # sts"]) (auto simp: s(1) nth_Cons split: nat.split)
qed simp

lemma barrier_cleared:
  "barrier_loop n ck d steps b st = Some (BarrierCleared, st') \<Longrightarrow>
    \<exists>st0. barrier_attempt steps st0 = (Inr True, st')"
proof (induction n arbitrary: b st)
  case (Suc n)
  then show ?case by (auto split: prod.splits sum.splits bool.splits if_splits)
qed simp


section \<open>Properties\<close>

lemma rounds_open:
  assumes "timeout \<le> of_nat k"
  shows "rounds_left ck (open_deadline ck timeout st) st \<le> k"
proof -
  have "round_down (timeout * of_int NS_PER_SECOND) \<le> int k * NS_PER_SECOND"
  proof (cases "0 \<le> timeout")
    case True
    have "timeout * of_int NS_PER_SECOND \<le> of_int (int k * NS_PER_SECOND)"
      using assms by (simp add: NS_PER_SECOND_def)
    then have "\<lfloor>timeout * of_int NS_PER_SECOND\<rfloor> \<le> int k * NS_PER_SECOND" by (metis floor_mono floor_of_int)
    then show ?thesis using True by (simp add: round_down_def NS_PER_SECOND_def)
  next
    case False
    then have "round_down (timeout * of_int NS_PER_SECOND) \<le> 0"
      by (simp add: round_down_def NS_PER_SECOND_def)
    also have "\<dots> \<le> int k * NS_PER_SECOND" by (simp add: NS_PER_SECOND_def)
    finally show ?thesis .
  qed
  then have "left_ns ck (open_deadline ck timeout st) st \<le> int k * 1000000000"
    by (simp add: left_ns_def open_deadline_def NS_PER_SECOND_def)
  then have "(left_ns ck (open_deadline ck timeout st) st + 999999999) div 1000000000
      \<le> (int k * 1000000000 + 999999999) div 1000000000" by (intro zdiv_mono1) simp_all
  then show ?thesis by (simp add: rounds_left_def NS_PER_SECOND_def add.commute)
qed

text \<open>A boot guard's loop ends within its budget, whatever the venue answers.\<close>

lemma guard_ends:
  assumes "moves ck" "forward ck call" "timeout \<le> of_nat k" "k < n"
  shows "until_deadline n ck (open_deadline ck timeout st) exhausted call st \<noteq> None"
  unfolding until_deadline_def
  by (rule retry_ends [OF assms(1,2)])
    (use rounds_open [OF assms(3), of ck st] assms(4) in
      \<open>simp_all add: make_backoff_def RETRY_INITIAL_BACKOFF_SECONDS_def RETRY_MAX_BACKOFF_SECONDS_def\<close>)

lemma run_barrier_ends:
  assumes "moves ck" "forward ck (barrier_attempt steps)" "timeout \<le> of_nat k" "k < n"
  shows "run_barrier n ck steps timeout st \<noteq> None"
  unfolding run_barrier_def
  by (rule barrier_ends [OF assms(1,2)])
    (use rounds_open [OF assms(3), of ck st] assms(4) in
      \<open>simp_all add: make_backoff_def INITIAL_BACKOFF_SECONDS_def MAX_BACKOFF_SECONDS_def\<close>)

text \<open>
  The start-up barrier always ends, cleared, faulted or raised: on a clock that a sleep
  moves, it makes at most one attempt for each second of its budget and one more.
\<close>

theorem barrier_ends_in_budget:
  assumes "moves ck" and "forward ck (barrier_attempt steps)"
    and "timeout \<le> of_nat k" and "k < n"
  shows "\<exists>e st'. run_barrier n ck steps timeout st = Some (e, st')"
  using run_barrier_ends [OF assms] by auto

definition ticking :: "int clock" where
  "ticking = \<lparr>ck_now = (\<lambda>t. t), ck_sleep = (\<lambda>d t. t + max 0 (round_down (d * of_int NS_PER_SECOND)))\<rparr>"

theorem barrier_ends_in_budget_witness:
  "\<exists>e st'. run_barrier 4 ticking [\<lambda>t. (Inr True, t), \<lambda>t. (Inr False, t)] 3 0 = Some (e, st')"
proof (rule barrier_ends_in_budget [where k = 3])
  show "moves ticking" by (simp add: moves_def ticking_def)
  show "forward ticking (barrier_attempt [\<lambda>t. (Inr True, t), \<lambda>t. (Inr False, t)])"
    by (simp add: forward_def ticking_def)
qed simp_all

text \<open>The virtual clock never runs back, and wakes exactly the waiters whose time has come.\<close>

theorem virtual_time_wakes_on_time:
  assumes "advance_to ts cancelled mc = Inr mc'"
  shows "mc_now_ns mc \<le> mc_now_ns mc' \<and> mc_now_ns mc' = ts
     \<and> (\<forall>t w. (t, w) \<in> set (mc_waiters mc') \<longleftrightarrow> (t, w) \<in> set (mc_waiters mc) \<and> w \<notin> cancelled \<and> ts < t)
     \<and> (\<exists>woken. mc_woken mc' = mc_woken mc @ woken
          \<and> (\<forall>w. w \<in> set woken \<longleftrightarrow> w \<notin> cancelled \<and> (\<exists>t. t \<le> ts \<and> (t, w) \<in> set (mc_waiters mc))))"
proof -
  have mc': "mc' = release_matured cancelled (mc\<lparr>mc_now_ns := ts\<rparr>)" and le: "mc_now_ns mc \<le> ts"
    using assms by (auto simp: advance_to_def split: if_splits)
  have "\<exists>woken. mc_woken mc' = mc_woken mc @ woken
      \<and> (\<forall>w. w \<in> set woken \<longleftrightarrow> w \<notin> cancelled \<and> (\<exists>t. t \<le> ts \<and> (t, w) \<in> set (mc_waiters mc)))"
    unfolding mc' release_matured_def Let_def by (rule exI, rule conjI, simp) force
  then show ?thesis using le by (auto simp: mc' release_matured_def Let_def)
qed

text \<open>An aligned slot is the latest one reached, and the next deadline is the first after it.\<close>

lemma aligned_slots:
  assumes "0 < interval"
  shows "aligned_slot interval now \<le> now" "now < aligned_deadline interval now"
    "aligned_deadline interval now = aligned_slot interval now + interval" "interval dvd aligned_slot interval now"
proof -
  have d: "now div interval * interval + now mod interval = now" by (rule div_mult_mod_eq)
  have m: "0 \<le> now mod interval" "now mod interval < interval" using assms by simp_all
  show "aligned_slot interval now \<le> now" using d m unfolding aligned_slot_def by linarith
  show "aligned_deadline interval now = aligned_slot interval now + interval"
    by (simp add: aligned_deadline_def aligned_slot_def distrib_right)
  then show "now < aligned_deadline interval now" using d m unfolding aligned_slot_def by linarith
qed (simp add: aligned_slot_def)

end
