(* ===== verification/TW_Hyper_Account.thy ===== *)
theory TW_Hyper_Account
  imports TW_Pacing TW_Ledger_Reconcile
begin

text \<open>
  The Hyperliquid account as the engine reads and aligns it: the perp universe
  (\<open>src/src/tickwright/venues/hyperliquid/universe.py\<close>), the account body
  (\<open>account.py\<close>) and the boot guards (\<open>preflight.py\<close>). A request is a function on the state
  its caller sees, since it is awaited. A refusal's text is left out.
\<close>

section \<open>The perp universe\<close>

record universe =
  un_specs :: "(string, instrument_spec) dict"
  un_asset_indices :: "(string, int) dict"

definition PERP_MAX_DECIMALS :: int where "PERP_MAX_DECIMALS = 6"
definition PERP_MAX_SIG_FIGS :: int where "PERP_MAX_SIG_FIGS = 5"
definition MIN_NOTIONAL :: decimal where "MIN_NOTIONAL = 10"

definition flat_maintenance_rate :: "int \<Rightarrow> decimal" where
  "flat_maintenance_rate max_leverage = rnd (1 / of_int (2 * max_leverage))"

definition get_or :: "json \<Rightarrow> string \<Rightarrow> json \<Rightarrow> json" where
  "get_or j k v = (case sub j k of Some x \<Rightarrow> x | None \<Rightarrow> v)"

definition perp_entry :: "json \<Rightarrow> (string \<times> instrument_spec) body" where
  "perp_entry e =
     bind_sum (key e ''name'') (\<lambda>nm. let name = py_str nm in
     bind_sum (py_int (get_or e ''maxLeverage'' (JInt 1))) (\<lambda>lev.
     if lev < 1 then Inl UNREADABLE
     else bind_sum (key e ''szDecimals'') (\<lambda>szd. bind_sum (py_int szd) (\<lambda>sz.
       Inr (name, \<lparr>is_symbol = name, is_sz_decimals = sz, is_max_decimals = PERP_MAX_DECIMALS,
         is_min_notional = MIN_NOTIONAL, is_max_sig_figs = Some PERP_MAX_SIG_FIGS, is_maker_fee = 0,
         is_taker_fee = 0, is_funding_rate = 0, is_max_leverage = lev,
         is_margin_maint = flat_maintenance_rate lev\<rparr>)))))"

fun perp_loop :: "int \<Rightarrow> json list \<Rightarrow> universe \<Rightarrow> universe body" where
  "perp_loop index [] u = Inr u"
| "perp_loop index (e # es) u =
     bind_sum (perp_entry e) (\<lambda>(name, spec). perp_loop (index + 1) es
       (u\<lparr>un_specs := AList.update name spec (un_specs u),
          un_asset_indices := AList.update name index (un_asset_indices u)\<rparr>))"

definition parse_meta :: "json \<Rightarrow> universe body" where
  "parse_meta response = (case Option.bind (sub response ''universe'') as_list of
     Some entries \<Rightarrow> perp_loop 0 entries \<lparr>un_specs = [], un_asset_indices = []\<rparr>
   | None \<Rightarrow> Inl UNREADABLE)"

section \<open>The account body\<close>

definition NS_PER_MS :: int where "NS_PER_MS = 1000000"
definition USDC_QUANTUM :: decimal where "USDC_QUANTUM = 1 / 1000000"

definition hyper_account_spec :: "bool \<Rightarrow> string \<Rightarrow> account_spec" where
  "hyper_account_spec testnet address =
     \<lparr>as_account_id = ''hyperliquid-'' @ (if testnet then ''testnet'' else ''mainnet'') @ ''-'' @ address,
      as_netting = NET, as_genesis = None\<rparr>"

text \<open>What a \<open>for\<close> loop walks: the items of a list, the keys of a mapping, the characters of a string.\<close>

definition iterate :: "json \<Rightarrow> json list body" where
  "iterate j = (case j of
     JList xs \<Rightarrow> Inr xs
   | JObj d \<Rightarrow> Inr (map (\<lambda>(k, v). JStr k) d)
   | JStr s \<Rightarrow> Inr (map (\<lambda>c. JStr [c]) s)
   | _ \<Rightarrow> Inl UNREADABLE)"

definition reported_margin_mode :: "json \<Rightarrow> margin_mode body" where
  "reported_margin_mode setting = bind_sum (key setting ''type'') (\<lambda>m.
     if m = JStr ''cross'' then Inr Cross else if m = JStr ''isolated'' then Inr Isolated else Inl UNREADABLE)"

definition reported_leverage :: "json \<Rightarrow> leverage_spec body" where
  "reported_leverage setting = bind_sum (key setting ''value'') (\<lambda>v. case v of
     JInt lev \<Rightarrow> bind_sum (reported_margin_mode setting) (\<lambda>m. Inr \<lparr>lv_mode = m, lv_leverage = lev\<rparr>)
   | _ \<Rightarrow> Inl UNREADABLE)"

fun held_loop :: "json list \<Rightarrow> (string, leverage_spec) dict \<Rightarrow> (string, leverage_spec) dict body" where
  "held_loop [] held = Inr held"
| "held_loop (row # rows) held =
     bind_sum (key row ''position'') (\<lambda>position.
     bind_sum (key position ''leverage'') (\<lambda>setting.
     bind_sum (key position ''coin'') (\<lambda>coin. case coin of
         JStr c \<Rightarrow> bind_sum (reported_leverage setting) (\<lambda>l. held_loop rows (AList.update c l held))
       | _ \<Rightarrow> Inl UNREADABLE)))"

definition held_leverage :: "json \<Rightarrow> (string, leverage_spec) dict body" where
  "held_leverage response = (if \<not> is_mapping response then Inl UNREADABLE
     else bind_sum (key response ''assetPositions'') (\<lambda>rows. bind_sum (iterate rows) (\<lambda>rs. held_loop rs [])))"

fun isolated_collateral :: "margin_mode \<Rightarrow> decimal \<Rightarrow> decimal \<Rightarrow> decimal option" where
  "isolated_collateral Cross used pnl = None"
| "isolated_collateral Isolated used pnl = Some (dsub used pnl)"

definition figure_at :: "json \<Rightarrow> string \<Rightarrow> decimal body" where
  "figure_at j k = bind_sum (key j k) figure"

definition position_of_body :: "json \<Rightarrow> venue_position_state body" where
  "position_of_body reported =
     bind_sum (figure_at reported ''marginUsed'') (\<lambda>used.
     bind_sum (figure_at reported ''unrealizedPnl'') (\<lambda>pnl.
     bind_sum (figure_at reported ''szi'') (\<lambda>size.
     bind_sum (figure_at reported ''positionValue'') (\<lambda>notional.
     bind_sum (key reported ''liquidationPx'') (\<lambda>liq.
     bind_sum (key reported ''leverage'') (\<lambda>setting.
     bind_sum (reported_leverage setting) (\<lambda>leverage.
     bind_sum (key reported ''coin'') (\<lambda>coin.
     if size = 0 then Inl UNREADABLE
     else bind_sum (if liq = JNull then Inr None else map_sum id Some (figure liq)) (\<lambda>liquidation.
       Inr \<lparr>vp_symbol = py_str coin, vp_signed_size = size,
            vp_entry_price = Some (rnd (dsub (copy_sign notional size) pnl / size)),
            vp_notional = notional, vp_unrealized_pnl = pnl, vp_margin_used = used,
            vp_isolated_collateral = isolated_collateral (lv_mode leverage) used pnl,
            vp_liquidation_price = liquidation, vp_leverage = leverage\<rparr>)))))))))"

definition account_of_body :: "json \<Rightarrow> venue_account_state body" where
  "account_of_body response =
     (case (Option.bind (Option.bind (sub response ''marginSummary'') (\<lambda>m. sub m ''accountValue'')) as_str,
            Option.bind (Option.bind (sub response ''crossMarginSummary'') (\<lambda>m. sub m ''accountValue'')) as_str,
            Option.bind (Option.bind (sub response ''crossMarginSummary'') (\<lambda>m. sub m ''totalMarginUsed'')) as_str,
            Option.bind (sub response ''crossMaintenanceMarginUsed'') as_str,
            Option.bind (sub response ''assetPositions'') as_list,
            sub response ''time'') of
       (Some equity, Some cross_equity, Some used, Some maintenance, Some entries, Some (JInt as_of)) \<Rightarrow>
         bind_sum (figure (JStr equity)) (\<lambda>eq.
         bind_sum (figure (JStr cross_equity)) (\<lambda>ce.
         bind_sum (figure (JStr used)) (\<lambda>us.
         bind_sum (figure (JStr maintenance)) (\<lambda>mt.
         bind_sum (traverse_sum (\<lambda>e. bind_sum (key e ''position'') position_of_body) entries) (\<lambda>ps.
           Inr \<lparr>va_equity = eq, va_free_margin = dsub ce us, va_cross_maintenance_margin = mt,
                va_as_of_ts_ns = as_of * NS_PER_MS, va_cash_quantum = USDC_QUANTUM, va_positions = ps\<rparr>)))))
     | _ \<Rightarrow> Inl UNREADABLE)"

section \<open>The account-mode gate\<close>

definition SUPPORTED_ACCOUNT_MODES :: "string list" where
  "SUPPORTED_ACCOUNT_MODES = [''default'', ''disabled'']"

datatype boot_refusal =
    ModeUnreadable
  | ModeUnsupported string
  | LeverageMismatch "string list"
  | LeveragePushFailed
  | SubscriptionUnreachable
  | BootRaised wire_raise

definition mode_query :: "string \<Rightarrow> json" where
  "mode_query address = JObj [(''type'', JStr ''userAbstraction''), (''user'', JStr address)]"

definition as_mode :: "json \<Rightarrow> string body" where
  "as_mode response = (case response of JStr s \<Rightarrow> Inr s | _ \<Rightarrow> Inl UNREADABLE)"

text \<open>One attempt of a guard: a request and the reading of its answer, both inside the retry.\<close>

definition boot_call ::
  "'s request \<Rightarrow> json \<Rightarrow> (json \<Rightarrow> boot_refusal call_fault + 'a) \<Rightarrow> 's \<Rightarrow> (boot_refusal call_fault + 'a) \<times> 's" where
  "boot_call send query reader st = (case send query st of
     (Inl OTHER_RAISE, st') \<Rightarrow> (Inl (Leaves (BootRaised SendRaised)), st')
   | (Inl _, st') \<Rightarrow> (Inl Transient, st')
   | (Inr response, st') \<Rightarrow> (reader response, st'))"

definition or_transient :: "'a body \<Rightarrow> boot_refusal call_fault + 'a" where
  "or_transient r = (case r of
     Inr a \<Rightarrow> Inr a | Inl UNREADABLE \<Rightarrow> Inl Transient | Inl e \<Rightarrow> Inl (Leaves (BootRaised (UnsupportedFact e))))"

definition verify_account_mode ::
  "nat \<Rightarrow> 's clock \<Rightarrow> deadline \<Rightarrow> 's request \<Rightarrow> string \<Rightarrow> 's \<Rightarrow> ((boot_refusal + unit) \<times> 's) option" where
  "verify_account_mode n ck d info address st =
     map_option (\<lambda>(r, st'). (bind_sum r (\<lambda>mode.
         if mode \<in> set SUPPORTED_ACCOUNT_MODES then Inr () else Inl (ModeUnsupported mode)), st'))
       (until_deadline n ck d ModeUnreadable
         (boot_call info (mode_query address) (\<lambda>r. or_transient (as_mode r))) st)"

definition reverify_account_mode :: "'s request \<Rightarrow> string \<Rightarrow> 's \<Rightarrow> (wire_raise + mode_verdict) \<times> 's" where
  "reverify_account_mode info address st =
     (case venue_read info (mode_query address) (\<lambda>_. as_mode) st of (r, st') \<Rightarrow>
       (bind_sum r (\<lambda>m. Inr (case m of
          Inl failure \<Rightarrow> MODE_UNREADABLE
        | Inr mode \<Rightarrow> if mode \<in> set SUPPORTED_ACCOUNT_MODES then VERIFIED else MODE_CHANGED)), st'))"

section \<open>The leverage push\<close>

definition state_query :: "string \<Rightarrow> json" where
  "state_query address = JObj [(''type'', JStr ''clearinghouseState''), (''user'', JStr address)]"

definition disagreeing :: "leverage_book \<Rightarrow> (string, leverage_spec) dict \<Rightarrow> string list" where
  "disagreeing lb held = filter (\<lambda>s. case map_of held s of Some l \<Rightarrow> l \<noteq> for_symbol lb s | None \<Rightarrow> False)
     (str_sort (map fst lb))"

definition refuse_disagreements :: "leverage_book \<Rightarrow> (string, leverage_spec) dict \<Rightarrow> boot_refusal + unit" where
  "refuse_disagreements lb held =
     (if disagreeing lb held = [] then Inr () else Inl (LeverageMismatch (disagreeing lb held)))"

definition leverage_action :: "int \<Rightarrow> leverage_spec \<Rightarrow> json" where
  "leverage_action asset spec = JObj [(''type'', JStr ''updateLeverage''), (''asset'', JInt asset),
     (''isCross'', JBool (lv_mode spec = Cross)), (''leverage'', JInt (lv_leverage spec))]"

text \<open>\<open>_write_leverage\<close>: the venue refuses in the body of a successful answer.\<close>

definition write_verdict :: "json \<Rightarrow> boot_refusal call_fault + unit" where
  "write_verdict response =
     (if \<not> is_mapping response then Inl Transient
      else bind_sum (or_transient (key response ''status'')) (\<lambda>status.
        if status = JStr ''ok'' then Inr () else Inl (Leaves LeveragePushFailed)))"

fun push_loop ::
  "nat \<Rightarrow> 's clock \<Rightarrow> deadline \<Rightarrow> 's request \<Rightarrow> leverage_book \<Rightarrow> (string, int) dict \<Rightarrow>
    (string, leverage_spec) dict \<Rightarrow> string list \<Rightarrow> 's \<Rightarrow> ((boot_refusal + unit) \<times> 's) option" where
  "push_loop n ck d send lb indices held [] st = Some (Inr (), st)"
| "push_loop n ck d send lb indices held (s # ss) st =
     (if map_of held s \<noteq> None then push_loop n ck d send lb indices held ss st
      else (case map_of indices s of
        None \<Rightarrow> Some (Inl (BootRaised (Raised KeyError)), st)
      | Some asset \<Rightarrow>
          Option.bind (until_deadline n ck d LeveragePushFailed
              (boot_call send (leverage_action asset (for_symbol lb s)) write_verdict) st)
            (\<lambda>(r, st1). case r of
               Inl e \<Rightarrow> Some (Inl e, st1)
             | Inr _ \<Rightarrow> push_loop n ck d send lb indices held ss st1)))"

definition push_leverage ::
  "nat \<Rightarrow> 's clock \<Rightarrow> deadline \<Rightarrow> 's request \<Rightarrow> 's request \<Rightarrow> string \<Rightarrow> leverage_book \<Rightarrow> (string, int) dict \<Rightarrow>
    's \<Rightarrow> ((boot_refusal + unit) \<times> 's) option" where
  "push_leverage n ck d info send address lb indices st =
     (if lb = [] then Some (Inr (), st)
      else Option.bind (until_deadline n ck d LeveragePushFailed
               (boot_call info (state_query address) (\<lambda>r. or_transient (held_leverage r))) st)
        (\<lambda>(r, st1). case r of
           Inl e \<Rightarrow> Some (Inl e, st1)
         | Inr held \<Rightarrow> (case refuse_disagreements lb held of
             Inl e \<Rightarrow> Some (Inl e, st1)
           | Inr _ \<Rightarrow> push_loop n ck d send lb indices held (str_sort (map fst lb)) st1)))"


section \<open>The push writes flat symbols only\<close>

text \<open>The world of these lemmas keeps the list of the signed actions sent.\<close>

definition records_sends :: "(json list \<times> 'w) request \<Rightarrow> bool" where
  "records_sends send \<longleftrightarrow> (\<forall>q st. fst (snd (send q st)) = fst st @ [q])"

definition sends_nothing :: "(json list \<times> 'w) clock \<Rightarrow> (json list \<times> 'w) request \<Rightarrow> bool" where
  "sends_nothing ck info \<longleftrightarrow> (\<forall>q st. fst (snd (info q st)) = fst st) \<and> (\<forall>t st. fst (ck_sleep ck t st) = fst st)"

lemma sends_nothingD:
  assumes "sends_nothing ck info"
  shows "fst (snd (info q st)) = fst st" "fst (ck_sleep ck t st) = fst st"
  using assms unfolding sends_nothing_def by blast+

definition flat_write ::
  "leverage_book \<Rightarrow> (string, int) dict \<Rightarrow> (string, leverage_spec) dict \<Rightarrow> json \<Rightarrow> bool" where
  "flat_write lb indices held a \<longleftrightarrow> (\<exists>s asset. s \<in> fst ` set lb \<and> map_of held s = None
     \<and> map_of indices s = Some asset \<and> a = leverage_action asset (for_symbol lb s))"

lemma boot_call_state: "snd (boot_call send q reader st) = snd (send q st)"
  by (auto simp: boot_call_def split: prod.split sum.split send_fault.split)

lemma boot_call_Inr: "boot_call send q reader st = (Inr a, st') \<Longrightarrow>
    \<exists>response. send q st = (Inr response, st') \<and> reader response = Inr a"
  by (auto simp: boot_call_def split: prod.splits sum.splits send_fault.splits)

lemma or_transient_Inr [simp]: "or_transient r = Inr a \<longleftrightarrow> r = Inr a"
  by (auto simp: or_transient_def split: sum.splits body_fault.splits)

lemma push_loop_writes:
  assumes "records_sends send" "sends_nothing ck info"
    and "push_loop n ck d send lb indices held ss st = Some (r, st')" "set ss \<subseteq> fst ` set lb"
  shows "\<exists>writes. fst st' = fst st @ writes \<and> (\<forall>a \<in> set writes. flat_write lb indices held a)"
  using assms(3,4)
proof (induction ss arbitrary: st)
  case (Cons s ss)
  show ?case
  proof (cases "map_of held s = None \<and> map_of indices s \<noteq> None")
    case True
    then obtain asset where asset: "map_of indices s = Some asset" by blast
    define act where "act = leverage_action asset (for_symbol lb s)"
    obtain q st1 where u: "until_deadline n ck d LeveragePushFailed (boot_call send act write_verdict) st = Some (q, st1)"
      using Cons.prems True asset unfolding act_def by (auto simp: bind_eq_Some_conv)
    have I: "\<exists>k. fst st1 = fst st @ replicate k act"
    proof (rule deadline_inv [THEN conjunct1, OF _ _ _ u, of "\<lambda>x. \<exists>k. fst x = fst st @ replicate k act"])
      show "\<exists>k. fst (snd (boot_call send act write_verdict x)) = fst st @ replicate k act"
        if "\<exists>k. fst x = fst st @ replicate k act" for x
        using that assms(1) unfolding boot_call_state records_sends_def
        by (metis append_assoc replicate_Suc replicate_append_same)
      show "\<exists>k. fst (ck_sleep ck t x) = fst st @ replicate k act"
        if "\<exists>k. fst x = fst st @ replicate k act" for t x
        using that by (simp only: sends_nothingD [OF assms(2)])
      show "\<exists>k. fst st = fst st @ replicate k act" by (rule exI [of _ 0]) simp
    qed
    then obtain k where k: "fst st1 = fst st @ replicate k act" ..
    have act: "flat_write lb indices held act"
      using True asset Cons.prems(2) unfolding flat_write_def act_def by auto
    show ?thesis
    proof (cases q)
      case (Inl e)
      then have "st' = st1" using Cons.prems(1) True asset u by (simp add: act_def)
      then show ?thesis using k act by auto
    next
      case (Inr x)
      then have "push_loop n ck d send lb indices held ss st1 = Some (r, st')"
        using Cons.prems(1) True asset u by (simp add: act_def)
      from Cons.IH [OF this] Cons.prems(2)
      obtain writes where "fst st' = fst st1 @ writes" "\<forall>a \<in> set writes. flat_write lb indices held a"
        by (metis insert_subset list.simps(15))
      then show ?thesis using k act by (intro exI [of _ "replicate k act @ writes"]) auto
    qed
  next
    case False
    then show ?thesis using Cons by (auto split: if_splits)
  qed
qed simp

text \<open>
  The boot's leverage push writes only the configured leverage of traded symbols the venue
  holds no position in, and writes nothing at all unless every held position of the book agrees
  with it, in the one account body it read.
\<close>

theorem push_writes_flat_symbols_only:
  assumes "records_sends send" and "sends_nothing ck info"
    and "push_leverage n ck d info send address lb indices st = Some (r, st')"
  shows "\<exists>writes. fst st' = fst st @ writes \<and> (writes = [] \<or>
     (\<exists>held response st0 st1. info (state_query address) st0 = (Inr response, st1) \<and> held_leverage response = Inr held
        \<and> disagreeing lb held = [] \<and> (\<forall>a \<in> set writes. flat_write lb indices held a)))"
proof (cases "lb = []")
  case True
  then show ?thesis using assms(3) by (simp add: push_leverage_def)
next
  case False
  let ?call = "boot_call info (state_query address) (\<lambda>r. or_transient (held_leverage r))"
  obtain q st1 where u: "until_deadline n ck d LeveragePushFailed ?call st = Some (q, st1)"
    using assms(3) False by (auto simp: push_leverage_def bind_eq_Some_conv)
  have R: "fst st1 = fst st \<and> (\<forall>a. q = Inr a \<longrightarrow> (\<exists>st0. fst st0 = fst st \<and> ?call st0 = (Inr a, st1)))"
    by (rule deadline_inv [OF _ _ _ u]) (simp_all only: boot_call_state sends_nothingD [OF assms(2)])
  show ?thesis
  proof (cases q)
    case (Inl e)
    then show ?thesis using assms(3) False u R by (simp add: push_leverage_def)
  next
    case (Inr held)
    then obtain st0 response where body: "info (state_query address) st0 = (Inr response, st1)"
      "held_leverage response = Inr held"
      using R by (auto dest: boot_call_Inr)
    show ?thesis
    proof (cases "disagreeing lb held = []")
      case True
      then have "push_loop n ck d send lb indices held (str_sort (map fst lb)) st1 = Some (r, st')"
        using assms(3) False u Inr by (simp add: push_leverage_def refuse_disagreements_def)
      from push_loop_writes [OF assms(1,2) this]
      obtain writes where "fst st' = fst st1 @ writes" "\<forall>a \<in> set writes. flat_write lb indices held a"
        by (metis image_set order_refl set_sort_by)
      then show ?thesis using body True R by (intro exI [of _ writes]) metis
    next
      case dis: False
      then show ?thesis
        using assms(3) False u Inr R by (simp add: push_leverage_def refuse_disagreements_def)
    qed
  qed
qed


definition demo_boot_clock :: "(json list \<times> unit) clock" where
  "demo_boot_clock = \<lparr>ck_now = (\<lambda>st. 0), ck_sleep = (\<lambda>t st. st)\<rparr>"

definition demo_info :: "(json list \<times> unit) request" where
  "demo_info q st = (Inr (JObj [(''assetPositions'', JList [])]), st)"

definition demo_send :: "(json list \<times> unit) request" where
  "demo_send q st = (Inr (JObj [(''status'', JStr ''ok'')]), fst st @ [q], ())"

definition demo_lb :: leverage_book where
  "demo_lb = [(''BTC'', \<lparr>lv_mode = Cross, lv_leverage = 20\<rparr>)]"

lemma demo_push:
  "push_leverage 1 demo_boot_clock \<lparr>dl_at_ns = 5, dl_budget_seconds = 1\<rparr> demo_info demo_send ''0x'' demo_lb
     [(''BTC'', 0)] ([], ()) = Some (Inr (), [leverage_action 0 \<lparr>lv_mode = Cross, lv_leverage = 20\<rparr>], ())"
  by code_simp

theorem push_writes_flat_symbols_only_witness:
  "\<exists>writes. [leverage_action 0 \<lparr>lv_mode = Cross, lv_leverage = 20\<rparr>] = [] @ writes \<and> (writes = [] \<or>
     (\<exists>held response st0 st1. demo_info (state_query ''0x'') st0 = (Inr response, st1) \<and> held_leverage response = Inr held
        \<and> disagreeing demo_lb held = [] \<and> (\<forall>a \<in> set writes. flat_write demo_lb [(''BTC'', 0)] held a)))"
  using push_writes_flat_symbols_only [OF _ _ demo_push]
  by (simp add: records_sends_def sends_nothing_def demo_send_def demo_info_def demo_boot_clock_def)

text \<open>The boot clears the push only with every traded symbol aligned.\<close>

definition aligned_at ::
  "'s request \<Rightarrow> (string, int) dict \<Rightarrow> leverage_spec \<Rightarrow> (string, leverage_spec) dict \<Rightarrow> string \<Rightarrow> bool" where
  "aligned_at send indices spec held s \<longleftrightarrow> map_of held s = Some spec
     \<or> (\<exists>asset st0 answer st1. map_of indices s = Some asset \<and> send (leverage_action asset spec) st0 = (Inr answer, st1)
          \<and> write_verdict answer = Inr ())"

lemma push_loop_aligned:
  assumes "push_loop n ck d send lb indices held ss st = Some (Inr (), st')" "disagreeing lb held = []"
    and "s \<in> set ss" "set ss \<subseteq> fst ` set lb"
  shows "aligned_at send indices (for_symbol lb s) held s"
  using assms(1,3,4)
proof (induction ss arbitrary: st)
  case (Cons t ss)
  have agree: "l = for_symbol lb x" if "map_of held x = Some l" "x \<in> fst ` set lb" for x l
  proof (rule ccontr)
    assume "l \<noteq> for_symbol lb x"
    then have "x \<in> set (disagreeing lb held)" using that unfolding disagreeing_def by auto
    then show False using assms(2) by simp
  qed
  show ?case
  proof (cases "map_of held t")
    case (Some l)
    then show ?thesis using Cons agree [of t l] by (auto simp: aligned_at_def)
  next
    case None
    obtain asset q st1 where asset: "map_of indices t = Some asset"
      and uq: "until_deadline n ck d LeveragePushFailed
        (boot_call send (leverage_action asset (for_symbol lb t)) write_verdict) st = Some (q, st1)"
      and rq: "(case q of Inl e \<Rightarrow> Some (Inl e, st1) | Inr _ \<Rightarrow> push_loop n ck d send lb indices held ss st1)
        = Some (Inr (), st')"
      using Cons.prems(1) None by (auto simp: bind_eq_Some_conv split: option.splits)
    have "q = Inr ()" using rq by (cases q) auto
    then have u: "until_deadline n ck d LeveragePushFailed
        (boot_call send (leverage_action asset (for_symbol lb t)) write_verdict) st = Some (Inr (), st1)"
      and rest: "push_loop n ck d send lb indices held ss st1 = Some (Inr (), st')"
      using uq rq by simp_all
    obtain st0 where "boot_call send (leverage_action asset (for_symbol lb t)) write_verdict st0 = (Inr (), st1)"
      using deadline_inv [of "\<lambda>_. True", OF _ _ _ u] by auto
    from boot_call_Inr [OF this] asset have "aligned_at send indices (for_symbol lb t) held t"
      unfolding aligned_at_def by blast
    then show ?thesis using Cons.IH [OF rest] Cons.prems(2,3) by auto
  qed
qed simp

text \<open>
  C27. The boot clears the leverage push only when every traded symbol is aligned: the venue
  holds the configured setting for it, or answered the write of that setting with ok.
\<close>

theorem push_clears_only_aligned:
  assumes "push_leverage n ck d info send address lb indices st = Some (Inr (), st')" and "s \<in> fst ` set lb"
  shows "\<exists>held response st0 st1. info (state_query address) st0 = (Inr response, st1) \<and> held_leverage response = Inr held
     \<and> aligned_at send indices (for_symbol lb s) held s"
proof -
  let ?call = "boot_call info (state_query address) (\<lambda>r. or_transient (held_leverage r))"
  have ne: "lb \<noteq> []" using assms(2) by auto
  obtain q st1 where uq: "until_deadline n ck d LeveragePushFailed ?call st = Some (q, st1)"
    using assms(1) ne by (auto simp: push_leverage_def bind_eq_Some_conv)
  then obtain held where q: "q = Inr held" using assms(1) ne by (cases q) (auto simp: push_leverage_def)
  then have u: "until_deadline n ck d LeveragePushFailed ?call st = Some (Inr held, st1)" using uq by simp
  have dis: "disagreeing lb held = []"
    using assms(1) ne u by (cases "disagreeing lb held = []") (simp_all add: push_leverage_def refuse_disagreements_def)
  then have rest: "push_loop n ck d send lb indices held (str_sort (map fst lb)) st1 = Some (Inr (), st')"
    using assms(1) ne u by (simp add: push_leverage_def refuse_disagreements_def)
  obtain st0 where c: "?call st0 = (Inr held, st1)"
    using deadline_inv [where I = "\<lambda>_. True", OF _ _ _ u] by auto
  from boot_call_Inr [OF c] obtain response
    where "info (state_query address) st0 = (Inr response, st1)" "held_leverage response = Inr held"
    by auto
  moreover have "aligned_at send indices (for_symbol lb s) held s"
    by (rule push_loop_aligned [OF rest dis]) (use assms(2) in simp_all)
  ultimately show ?thesis by blast
qed

theorem push_clears_only_aligned_witness:
  "\<exists>held response st0 st1. demo_info (state_query ''0x'') st0 = (Inr response, st1) \<and> held_leverage response = Inr held
     \<and> aligned_at demo_send [(''BTC'', 0)] (for_symbol demo_lb ''BTC'') held ''BTC''"
  using push_clears_only_aligned [OF demo_push, of "''BTC''"] by (simp add: demo_lb_def)

end
