(* ===== verification/TW_Hyper.thy ===== *)
theory TW_Hyper
  imports TW_Hyper_Account TW_Exit
begin

text \<open>
  The live exchange, \<open>src/src/tickwright/venues/hyperliquid/exchange.py\<close>, with the settings of
  \<open>config.py\<close>. What the adapter remembers is the record \<open>hyper\<close>; what it was built with and
  what it calls is \<open>hyper_host\<close>, over a world \<open>'w\<close> it does not look into. Posting a request,
  publishing a report and sleeping are awaits, so they may change the adapter's own memory too.
  The signature of an action is a parameter: it comes from the venue's SDK. The result of an
  operation is a value or the exception that leaves it, with the state reached.
\<close>

section \<open>Settings\<close>

record hyper_config =
  hc_testnet :: bool
  hc_symbols :: "string list"
  hc_signing_key :: "string option"
  hc_account_address :: "string option"
  hc_slippage_bound :: decimal
  hc_reconnect_initial :: rat
  hc_reconnect_max :: rat

definition RECONNECT_BACKOFF_CEILING_SECONDS :: rat where "RECONNECT_BACKOFF_CEILING_SECONDS = 300"

definition valid_hyper_config :: "hyper_config \<Rightarrow> bool" where
  "valid_hyper_config c \<longleftrightarrow> 0 \<le> hc_slippage_bound c
     \<and> duration_ns (hc_reconnect_initial c) \<noteq> Inl ValueError \<and> duration_ns (hc_reconnect_max c) \<noteq> Inl ValueError
     \<and> hc_reconnect_max c \<le> RECONNECT_BACKOFF_CEILING_SECONDS \<and> hc_reconnect_initial c \<le> hc_reconnect_max c"

definition ws_url :: "hyper_config \<Rightarrow> string" where
  "ws_url c = (if hc_testnet c then ''wss://api.hyperliquid-testnet.xyz/ws'' else ''wss://api.hyperliquid.xyz/ws'')"

definition api_url :: "hyper_config \<Rightarrow> string" where
  "api_url c = (if hc_testnet c then ''https://api.hyperliquid-testnet.xyz'' else ''https://api.hyperliquid.xyz'')"

section \<open>State and surroundings\<close>

record order_refused_report =
  rr_ts_event :: int
  rr_ts_init :: int
  rr_cloid :: string
  rr_symbol :: string
  rr_refusal :: order_refusal

datatype venue_report = Reported execution_report | Refused order_refused_report

record hyper =
  hx_latest_price :: "(string, decimal) dict"
  hx_latest_mark :: "(string, decimal) dict"
  hx_last_nonce :: int
  hx_shrunk_fills :: "(string, decimal \<times> int) dict"

definition make_hyper :: hyper where
  "make_hyper = \<lparr>hx_latest_price = [], hx_latest_mark = [], hx_last_nonce = 0, hx_shrunk_fills = []\<rparr>"

record 'w hyper_host =
  hh_config :: hyper_config
  hh_universe :: universe
  hh_leverage :: leverage_book
  hh_address :: string
  hh_shrink_wait_ns :: int
  hh_startup_timeout :: rat
  hh_sign :: "json \<Rightarrow> int \<Rightarrow> bool \<Rightarrow> json"
  hh_now :: "'w \<Rightarrow> int"
  hh_post :: "string \<Rightarrow> (hyper \<times> 'w) request"
  hh_publish :: "venue_report \<Rightarrow> hyper \<times> 'w \<Rightarrow> (exc + unit) \<times> (hyper \<times> 'w)"
  hh_sleep :: "rat \<Rightarrow> hyper \<times> 'w \<Rightarrow> hyper \<times> 'w"

type_synonym ('w, 'a) act = "hyper \<times> 'w \<Rightarrow> (wire_raise + 'a) \<times> (hyper \<times> 'w)"

definition then_do :: "(wire_raise + 'a) \<times> 's \<Rightarrow> ('a \<Rightarrow> 's \<Rightarrow> (wire_raise + 'b) \<times> 's) \<Rightarrow> (wire_raise + 'b) \<times> 's" where
  "then_do r f = (case r of (Inl e, st) \<Rightarrow> (Inl e, st) | (Inr a, st) \<Rightarrow> f a st)"

lemma then_do_simps [simp]: "then_do (Inl e, st) f = (Inl e, st)" "then_do (Inr a, st) f = f a st"
  by (simp_all add: then_do_def)

lemma then_do_Inr:
  "then_do r f = (Inr b, st') \<longleftrightarrow> (\<exists>a st. r = (Inr a, st) \<and> f a st = (Inr b, st'))"
  by (cases r; cases "fst r") auto

definition hyper_clock :: "'w hyper_host \<Rightarrow> (hyper \<times> 'w) clock" where
  "hyper_clock h = \<lparr>ck_now = (\<lambda>st. hh_now h (snd st)), ck_sleep = hh_sleep h\<rparr>"

section \<open>Prices\<close>

definition on_trade :: "string \<Rightarrow> decimal \<Rightarrow> hyper \<times> 'w \<Rightarrow> hyper \<times> 'w" where
  "on_trade symbol price st =
     ((fst st)\<lparr>hx_latest_price := AList.update symbol price (hx_latest_price (fst st))\<rparr>, snd st)"

definition on_mark :: "mark_tick \<Rightarrow> hyper \<times> 'w \<Rightarrow> hyper \<times> 'w" where
  "on_mark mark st =
     ((fst st)\<lparr>hx_latest_mark := AList.update (mt_symbol mark) (mt_price mark) (hx_latest_mark (fst st))\<rparr>, snd st)"

datatype wire_fault = MissingPrice string | WireRaised exc

definition wire_tif :: "place_order \<Rightarrow> string" where
  "wire_tif po = (case po of
     MarketOrder t \<Rightarrow> ''Ioc''
   | LimitOrder t p \<Rightarrow> if ot_post_only t then ''Alo'' else (case ot_time_in_force t of GTC \<Rightarrow> ''Gtc'' | IOC \<Rightarrow> ''Ioc''))"

definition of_exc :: "'a res \<Rightarrow> wire_fault + 'a" where
  "of_exc r = map_sum WireRaised id r"

lemma of_exc_Inr [simp]: "of_exc r = Inr x \<longleftrightarrow> r = Inr x"
  by (cases r) (auto simp: of_exc_def)

definition slippage_factor :: "'w hyper_host \<Rightarrow> side \<Rightarrow> decimal" where
  "slippage_factor h sd = (let s = hc_slippage_bound (hh_config h) in if sd = BUY then dadd 1 s else dsub 1 s)"

definition limit_price :: "'w hyper_host \<Rightarrow> hyper \<Rightarrow> place_order \<Rightarrow> wire_fault + decimal" where
  "limit_price h hx po = (case po of
     LimitOrder t p \<Rightarrow> Inr p
   | MarketOrder t \<Rightarrow>
       (case map_of (hx_latest_price hx) (ot_symbol t) of
          None \<Rightarrow> Inl (MissingPrice (''no market tick cached for '' @ repr_str (ot_symbol t)))
        | Some latest \<Rightarrow>
       (case map_of (hx_latest_mark hx) (ot_symbol t) of
          None \<Rightarrow> Inl (MissingPrice (''no mark cached for '' @ repr_str (ot_symbol t)))
        | Some mark \<Rightarrow>
            let bound = slippage_factor h (ot_side t);
                price = (if ot_side t = BUY then min (dmul latest bound) (dmul mark bound)
                         else max (dmul latest bound) (dmul mark bound))
            in (case map_of (un_specs (hh_universe h)) (ot_symbol t) of
                  None \<Rightarrow> Inl (WireRaised KeyError)
                | Some spec \<Rightarrow> of_exc (quantize_price price (ot_side t) spec)))))"

definition order_wire :: "'w hyper_host \<Rightarrow> hyper \<Rightarrow> place_order \<Rightarrow> wire_fault + json" where
  "order_wire h hx po = (let t = po_terms po in
     case map_of (un_asset_indices (hh_universe h)) (ot_symbol t) of
       None \<Rightarrow> Inl (WireRaised KeyError)
     | Some asset \<Rightarrow> bind_sum (limit_price h hx po) (\<lambda>p.
         Inr (JObj [(''a'', JInt asset), (''b'', JBool (ot_side t = BUY)), (''p'', JStr (wire_decimal p)),
           (''s'', JStr (wire_decimal (ot_quantity t))), (''r'', JBool (ot_reduce_only t)),
           (''t'', JObj [(''limit'', JObj [(''tif'', JStr (wire_tif po))])]), (''c'', JStr (ot_cloid t))])))"

section \<open>Requests and reports\<close>

definition post_info :: "'w hyper_host \<Rightarrow> (hyper \<times> 'w) request" where
  "post_info h query st = hh_post h (api_url (hh_config h) @ ''/info'') query st"

definition send_action :: "'w hyper_host \<Rightarrow> (hyper \<times> 'w) request" where
  "send_action h action st =
     (let hx = fst st;
          nonce = max (hh_now h (snd st) div NS_PER_MS) (hx_last_nonce hx + 1);
          signature = hh_sign h action nonce (\<not> hc_testnet (hh_config h))
      in hh_post h (api_url (hh_config h) @ ''/exchange'')
           (JObj [(''action'', action), (''nonce'', JInt nonce), (''signature'', signature)])
           (hx\<lparr>hx_last_nonce := nonce\<rparr>, snd st))"

definition publish :: "'w hyper_host \<Rightarrow> venue_report \<Rightarrow> ('w, unit) act" where
  "publish h r st = (case hh_publish h r st of (res, st') \<Rightarrow> (map_sum Raised id res, st'))"

definition hyper_status ::
  "'w hyper_host \<Rightarrow> string \<Rightarrow> string \<Rightarrow> order_state \<Rightarrow> string option \<Rightarrow> string option \<Rightarrow> hyper \<times> 'w \<Rightarrow> order_status_report" where
  "hyper_status h cloid symbol status oid reason st =
     \<lparr>sr_ts_event = hh_now h (snd st), sr_ts_init = hh_now h (snd st), sr_cloid = cloid, sr_symbol = symbol,
      sr_status = status, sr_venue_oid = oid, sr_reason = reason, sr_reconciliation = False\<rparr>"

definition report_status ::
  "'w hyper_host \<Rightarrow> order_terms \<Rightarrow> order_state \<Rightarrow> string option \<Rightarrow> string option \<Rightarrow> ('w, unit) act" where
  "report_status h t status oid reason st =
     publish h (Reported (Status (hyper_status h (ot_cloid t) (ot_symbol t) status oid reason st))) st"

definition report_refused :: "'w hyper_host \<Rightarrow> order_terms \<Rightarrow> order_refusal \<Rightarrow> ('w, unit) act" where
  "report_refused h t refusal st =
     publish h (Refused \<lparr>rr_ts_event = hh_now h (snd st), rr_ts_init = hh_now h (snd st),
       rr_cloid = ot_cloid t, rr_symbol = ot_symbol t, rr_refusal = refusal\<rparr>) st"

definition report_ack :: "'w hyper_host \<Rightarrow> order_terms \<Rightarrow> int \<Rightarrow> ('w, unit) act" where
  "report_ack h t oid st = report_status h t LIVE (Some (show_int oid)) None st"

section \<open>Reading an action's answer\<close>

definition action_outcome :: "json \<Rightarrow> (string + json list) body" where
  "action_outcome response =
     (case (sub response ''status'', sub response ''response'') of
        (Some (JStr s), Some r) \<Rightarrow>
          (case (s = ''ok'', Option.bind (Option.bind (sub r ''data'') (\<lambda>d. sub d ''statuses'')) as_list) of
             (True, Some statuses) \<Rightarrow> Inr (Inr statuses)
           | _ \<Rightarrow> if s = ''err'' then Inr (Inl (py_str r)) else Inl UNREADABLE)
      | _ \<Rightarrow> Inl UNREADABLE)"

datatype adjudication =
    AdjError string
  | AdjResting int
  | AdjRejected string
  | AdjFilled int decimal

definition placement_status :: "json \<Rightarrow> adjudication body" where
  "placement_status status =
     bind_sum (has status ''resting'') (\<lambda>resting.
     if resting then bind_sum (key status ''resting'') (\<lambda>r. bind_sum (key r ''oid'') (\<lambda>o1.
         bind_sum (py_int o1) (\<lambda>oid. Inr (AdjResting oid))))
     else bind_sum (has status ''error'') (\<lambda>err.
     if err then bind_sum (key status ''error'') (\<lambda>reason. Inr (AdjRejected (py_str reason)))
     else bind_sum (has status ''filled'') (\<lambda>filled.
     if filled then bind_sum (key status ''filled'') (\<lambda>f. bind_sum (key f ''oid'') (\<lambda>o1. bind_sum (py_int o1) (\<lambda>oid.
         bind_sum (figure_at f ''totalSz'') (\<lambda>sz. Inr (AdjFilled oid sz)))))
     else Inl UNREADABLE)))"

definition placement_adjudication :: "json \<Rightarrow> adjudication body" where
  "placement_adjudication response = bind_sum (action_outcome response) (\<lambda>outcome. case outcome of
     Inl message \<Rightarrow> Inr (AdjError message)
   | Inr [status] \<Rightarrow> placement_status status
   | Inr _ \<Rightarrow> Inl UNREADABLE)"

datatype cancel_verdict = CANCEL_DONE | ALREADY_GONE

definition cancel_verdict_of :: "json \<Rightarrow> cancel_verdict body" where
  "cancel_verdict_of status =
     (if status = JStr ''success'' then Inr CANCEL_DONE
      else if is_mapping status \<and> sub status ''error'' \<noteq> None then Inr ALREADY_GONE
      else Inl UNREADABLE)"

definition cancel_adjudications :: "nat \<Rightarrow> json \<Rightarrow> (string + cancel_verdict list) body" where
  "cancel_adjudications count response = bind_sum (action_outcome response) (\<lambda>outcome. case outcome of
     Inl message \<Rightarrow> Inr (Inl message)
   | Inr statuses \<Rightarrow> if length statuses \<noteq> count then Inl UNREADABLE
       else bind_sum (traverse_sum cancel_verdict_of statuses) (\<lambda>vs. Inr (Inr vs)))"

section \<open>Order records and fills\<close>

record order_record =
  rc_coin :: string
  rc_oid :: int
  rc_timestamp :: int
  rc_state :: order_state
  rc_reduce_only :: bool

definition ends_with :: "string \<Rightarrow> string \<Rightarrow> bool" where
  "ends_with suffix s \<longleftrightarrow> length suffix \<le> length s \<and> drop (length s - length suffix) s = suffix"

definition order_state_of :: "string \<Rightarrow> order_state body" where
  "order_state_of status =
     (if status = ''open'' then Inr LIVE
      else if status = ''filled'' then Inr FILLED
      else if ends_with ''anceled'' status \<or> ends_with ''ancel'' status then Inr CANCELLED
      else if ends_with ''ejected'' status then Inr REJECTED
      else Inl UNREADABLE)"

text \<open>
  \<open>_decode_order_status\<close>: \<open>None\<close> is the venue's positive answer that it has no record. A JSON
  boolean where an integer is matched counts as that integer, and is printed as it.
\<close>

definition decode_order_status :: "json \<Rightarrow> order_record option body" where
  "decode_order_status response =
     (if sub response ''status'' = Some (JStr ''unknownOid'') then Inr None
      else if sub response ''status'' \<noteq> Some (JStr ''order'') then Inl UNREADABLE
      else (case Option.bind (sub response ''order'') (\<lambda>x. sub x ''order'') of
        None \<Rightarrow> Inl UNREADABLE
      | Some rec \<Rightarrow>
         (case (Option.bind (sub rec ''coin'') as_str, Option.bind (sub rec ''oid'') as_int,
                Option.bind (sub rec ''timestamp'') as_int,
                Option.bind (Option.bind (sub response ''order'') (\<lambda>x. sub x ''status'')) as_str) of
            (Some coin, Some oid, Some ts, Some status) \<Rightarrow>
              bind_sum (order_state_of status) (\<lambda>s.
                Inr (Some \<lparr>rc_coin = coin, rc_oid = oid, rc_timestamp = ts, rc_state = s,
                  rc_reduce_only = (sub rec ''reduceOnly'' = Some (JBool True))\<rparr>))
          | _ \<Rightarrow> Inl UNREADABLE)))"

definition ACK_SKEW_ALLOWANCE_MS :: int where "ACK_SKEW_ALLOWANCE_MS = 60000"

definition placed_before :: "order_record \<Rightarrow> int option \<Rightarrow> bool" where
  "placed_before rec created = (case created of
     None \<Rightarrow> False | Some c \<Rightarrow> rc_timestamp rec < c div NS_PER_MS - ACK_SKEW_ALLOWANCE_MS)"

definition shrunk :: "bool \<Rightarrow> decimal \<Rightarrow> decimal \<Rightarrow> bool" where
  "shrunk reduce_only asked filled \<longleftrightarrow> reduce_only \<and> filled < asked"

definition fill_total :: "fill_report list \<Rightarrow> decimal" where
  "fill_total fills = dsum (map fr_quantity fills)"

definition fee_settled_in_usdc :: "json \<Rightarrow> decimal body" where
  "fee_settled_in_usdc entry = bind_sum (key entry ''feeToken'') (\<lambda>token.
     if token \<noteq> JStr ''USDC'' then refuse_non_usdc else figure_at entry ''fee'')"

definition fill_row :: "int \<Rightarrow> string \<Rightarrow> string \<Rightarrow> int \<Rightarrow> json \<Rightarrow> fill_report list body" where
  "fill_row now cloid symbol oid entry =
     bind_sum (key entry ''oid'') (\<lambda>o1. if \<not> eq_int o1 oid then Inr []
     else bind_sum (key entry ''time'') (\<lambda>t. bind_sum (py_int t) (\<lambda>time.
       bind_sum (key entry ''tid'') (\<lambda>tid.
       bind_sum (figure_at entry ''sz'') (\<lambda>sz.
       bind_sum (figure_at entry ''px'') (\<lambda>px.
       bind_sum (fee_settled_in_usdc entry) (\<lambda>fee.
         Inr [\<lparr>fr_ts_event = time * NS_PER_MS, fr_ts_init = now, fr_cloid = cloid, fr_symbol = symbol,
               fr_trade_id = py_str tid, fr_quantity = sz, fr_price = px, fr_fee = fee,
               fr_reconciliation = False\<rparr>])))))))"

definition fill_rows :: "int \<Rightarrow> string \<Rightarrow> string \<Rightarrow> int \<Rightarrow> json \<Rightarrow> fill_report list body" where
  "fill_rows now cloid symbol oid response = (case response of
     JList rows \<Rightarrow> bind_sum (traverse_sum (fill_row now cloid symbol oid) rows) (\<lambda>fss. Inr (concat fss))
   | _ \<Rightarrow> Inl UNREADABLE)"

definition fills_query :: "string \<Rightarrow> int option \<Rightarrow> json" where
  "fills_query address since = (case since of
     None \<Rightarrow> JObj [(''type'', JStr ''userFills''), (''user'', JStr address)]
   | Some ms \<Rightarrow> JObj [(''type'', JStr ''userFillsByTime''), (''user'', JStr address), (''startTime'', JInt ms)])"

definition fetch_fills ::
  "'w hyper_host \<Rightarrow> string \<Rightarrow> string \<Rightarrow> int \<Rightarrow> int option \<Rightarrow> ('w, venue_read_failure + fill_report list) act" where
  "fetch_fills h cloid symbol oid since st =
     venue_read (post_info h) (fills_query (hh_address h) since)
       (\<lambda>st'. fill_rows (hh_now h (snd st')) cloid symbol oid) st"

definition order_status :: "'w hyper_host \<Rightarrow> order_ref \<Rightarrow> ('w, venue_read_failure + order_record option) act" where
  "order_status h r st =
     (case (case or_venue_oid r of None \<Rightarrow> Inr (JStr (or_cloid r))
            | Some s \<Rightarrow> (case read_int s of Some n \<Rightarrow> Inr (JInt n) | None \<Rightarrow> Inl (Raised ValueError))) of
        Inl e \<Rightarrow> (Inl e, st)
      | Inr k \<Rightarrow> venue_read (post_info h)
          (JObj [(''type'', JStr ''orderStatus''), (''user'', JStr (hh_address h)), (''oid'', k)])
          (\<lambda>_. decode_order_status) st)"

section \<open>Placing\<close>

definition SHORT_FILLS_RETRY_SECONDS :: "rat list" where
  "SHORT_FILLS_RETRY_SECONDS = [1 / 2, 1, 2]"

fun publish_new ::
  "'w hyper_host \<Rightarrow> fill_report list \<Rightarrow> (string, fill_report) dict \<Rightarrow> ('w, (string, fill_report) dict) act" where
  "publish_new h [] seen st = (Inr seen, st)"
| "publish_new h (f # fs) seen st =
     (if map_of seen (fr_trade_id f) \<noteq> None then publish_new h fs seen st
      else then_do (publish h (Reported (Filled f)) st)
        (\<lambda>_. publish_new h fs (AList.update (fr_trade_id f) f seen)))"

fun placement_fills ::
  "'w hyper_host \<Rightarrow> order_terms \<Rightarrow> int \<Rightarrow> decimal \<Rightarrow> rat list \<Rightarrow> (string, fill_report) dict \<Rightarrow> ('w, decimal option) act" where
  "placement_fills h t oid whole delays seen st =
     then_do (fetch_fills h (ot_cloid t) (ot_symbol t) oid None st) (\<lambda>r st1. case r of
       Inl failure \<Rightarrow> (Inr None, st1)
     | Inr fills \<Rightarrow> then_do (publish_new h fills seen st1) (\<lambda>seen' st2.
         let filled = fill_total (map snd seen') in
         case delays of
           [] \<Rightarrow> (Inr (Some filled), st2)
         | d # ds \<Rightarrow> if whole \<le> filled then (Inr (Some filled), st2)
                     else placement_fills h t oid whole ds seen' (hh_sleep h d st2)))"

declare placement_fills.simps [simp del]

definition forget_shrunk :: "string \<Rightarrow> hyper \<times> 'w \<Rightarrow> hyper \<times> 'w" where
  "forget_shrunk cloid st = ((fst st)\<lparr>hx_shrunk_fills := AList.delete cloid (hx_shrunk_fills (fst st))\<rparr>, snd st)"

definition end_cut_part ::
  "'w hyper_host \<Rightarrow> string \<Rightarrow> string \<Rightarrow> string option \<Rightarrow> hyper \<times> 'w \<Rightarrow> order_status_report \<times> (hyper \<times> 'w)" where
  "end_cut_part h cloid symbol oid st =
     (hyper_status h cloid symbol CANCELLED oid (Some ''reduce-only shrink'') (forget_shrunk cloid st),
      forget_shrunk cloid st)"

definition ADDRESS_LIMIT_PREFIX :: string where
  "ADDRESS_LIMIT_PREFIX = ''Too many cumulative requests''"

definition apply_placement :: "'w hyper_host \<Rightarrow> order_terms \<Rightarrow> adjudication \<Rightarrow> ('w, unit) act" where
  "apply_placement h t adj st = (case adj of
     AdjError message \<Rightarrow> report_refused h t
       (if take (length ADDRESS_LIMIT_PREFIX) message = ADDRESS_LIMIT_PREFIX then ADDRESS_LIMITED else ORDER_REFUSED) st
   | AdjResting oid \<Rightarrow> report_ack h t oid st
   | AdjRejected reason \<Rightarrow> report_status h t REJECTED None (Some reason) st
   | AdjFilled oid whole \<Rightarrow>
       then_do (report_ack h t oid st) (\<lambda>_ st1.
       then_do (placement_fills h t oid whole SHORT_FILLS_RETRY_SECONDS [] st1) (\<lambda>r st2. case r of
         None \<Rightarrow> (Inr (), st2)
       | Some filled \<Rightarrow>
           if filled = whole \<and> shrunk (ot_reduce_only t) (ot_quantity t) filled
           then (case end_cut_part h (ot_cloid t) (ot_symbol t) None st2 of
                   (r, st3) \<Rightarrow> publish h (Reported (Status r)) st3)
           else (Inr (), st2))))"

definition place_action :: "json \<Rightarrow> json" where
  "place_action wire = JObj [(''type'', JStr ''order''), (''orders'', JList [wire]), (''grouping'', JStr ''na'')]"

definition hyper_place :: "'w hyper_host \<Rightarrow> place_order \<Rightarrow> ('w, unit) act" where
  "hyper_place h po st = (let t = po_terms po in case order_wire h (fst st) po of
     Inl (MissingPrice reason) \<Rightarrow> report_status h t FAILED None (Some reason) st
   | Inl (WireRaised e) \<Rightarrow> (Inl (Raised e), st)
   | Inr wire \<Rightarrow>
       then_do (venue_read (send_action h) (place_action wire) (\<lambda>_. placement_adjudication) st) (\<lambda>r st1. case r of
         Inl SEND_FAILED \<Rightarrow> report_refused h t ORDER_SEND_FAILED st1
       | Inl RATE_LIMITED_IP \<Rightarrow> report_refused h t IP_LIMITED st1
       | Inl UNREADABLE_BODY \<Rightarrow> (Inr (), st1)
       | Inr adj \<Rightarrow> apply_placement h t adj st1))"

section \<open>Cancelling\<close>

definition CANCEL_BATCH_LIMIT :: nat where "CANCEL_BATCH_LIMIT = 200"

fun cancel_ref_symbol :: "cancel_ref \<Rightarrow> string" where
  "cancel_ref_symbol (SagaRef r) = or_symbol r"
| "cancel_ref_symbol (ExternalRef x) = xr_symbol x"

definition by_oid :: "int \<Rightarrow> string \<Rightarrow> exc + string \<times> json" where
  "by_oid asset oid = (case read_int oid of
     Some n \<Rightarrow> Inr (''cancel'', JObj [(''a'', JInt asset), (''o'', JInt n)]) | None \<Rightarrow> Inl ValueError)"

definition cancel_entry :: "cancel_ref \<Rightarrow> int \<Rightarrow> exc + string \<times> json" where
  "cancel_entry r asset = (case r of
     ExternalRef x \<Rightarrow> by_oid asset (xr_venue_oid x)
   | SagaRef s \<Rightarrow> (case or_venue_oid s of
       Some oid \<Rightarrow> by_oid asset oid
     | None \<Rightarrow> Inr (''cancelByCloid'', JObj [(''asset'', JInt asset), (''cloid'', JStr (or_cloid s))])))"

type_synonym cancel_group = "(cancel_ref \<times> json) list"

fun group_refs :: "'w hyper_host \<Rightarrow> cancel_ref list \<Rightarrow> (string, cancel_group) dict \<Rightarrow> exc + (string, cancel_group) dict" where
  "group_refs h [] groups = Inr groups"
| "group_refs h (r # rs) groups =
     (case map_of (un_asset_indices (hh_universe h)) (cancel_ref_symbol r) of
        None \<Rightarrow> Inl KeyError
      | Some asset \<Rightarrow> bind_sum (cancel_entry r asset) (\<lambda>(action, entry).
          group_refs h rs (AList.update action (dget groups action [] @ [(r, entry)]) groups)))"

function chunks :: "nat \<Rightarrow> 'a list \<Rightarrow> 'a list list" where
  "chunks n [] = []"
| "chunks n (x # xs) = take n (x # xs) # (if n = 0 then [] else chunks n (drop n (x # xs)))"
  by pat_completeness auto
termination by (relation "measure (\<lambda>(n, xs). length xs)") auto

declare chunks.simps(2) [simp del]

definition apply_cancellation :: "'w hyper_host \<Rightarrow> cancel_ref \<Rightarrow> string + cancel_verdict \<Rightarrow> ('w, unit) act" where
  "apply_cancellation h r v st = (case (v, r) of
     (Inr CANCEL_DONE, SagaRef s) \<Rightarrow>
       publish h (Reported (Status (hyper_status h (or_cloid s) (or_symbol s) CANCELLED None None st))) st
   | _ \<Rightarrow> (Inr (), st))"

fun apply_cancellations :: "'w hyper_host \<Rightarrow> (cancel_ref \<times> (string + cancel_verdict)) list \<Rightarrow> ('w, unit) act" where
  "apply_cancellations h [] st = (Inr (), st)"
| "apply_cancellations h ((r, v) # rest) st =
     then_do (apply_cancellation h r v st) (\<lambda>_. apply_cancellations h rest)"

definition cancel_action :: "string \<Rightarrow> cancel_group \<Rightarrow> json" where
  "cancel_action action batch = JObj [(''type'', JStr action), (''cancels'', JList (map snd batch))]"

definition cancel_batch :: "'w hyper_host \<Rightarrow> string \<Rightarrow> cancel_group \<Rightarrow> ('w, unit) act" where
  "cancel_batch h action batch st =
     then_do (venue_read (send_action h) (cancel_action action batch) (\<lambda>_. cancel_adjudications (length batch)) st)
       (\<lambda>r st1. case r of
          Inl failure \<Rightarrow> (Inr (), st1)
        | Inr (Inl message) \<Rightarrow> apply_cancellations h (map (\<lambda>(c, _). (c, Inl message)) batch) st1
        | Inr (Inr verdicts) \<Rightarrow> apply_cancellations h (zip (map fst batch) (map Inr verdicts)) st1)"

fun cancel_batches :: "'w hyper_host \<Rightarrow> (string \<times> cancel_group) list \<Rightarrow> ('w, unit) act" where
  "cancel_batches h [] st = (Inr (), st)"
| "cancel_batches h ((action, batch) # rest) st =
     then_do (cancel_batch h action batch st) (\<lambda>_. cancel_batches h rest)"

definition batches_of :: "(string, cancel_group) dict \<Rightarrow> (string \<times> cancel_group) list" where
  "batches_of groups = concat (map (\<lambda>(action, g). map (Pair action) (chunks CANCEL_BATCH_LIMIT g)) groups)"

definition hyper_cancel :: "'w hyper_host \<Rightarrow> cancel_ref list \<Rightarrow> ('w, unit) act" where
  "hyper_cancel h refs st = (case group_refs h refs [] of
     Inl e \<Rightarrow> (Inl (Raised e), st) | Inr groups \<Rightarrow> cancel_batches h (batches_of groups) st)"

section \<open>Reading an order\<close>

definition fills_settled ::
  "'w hyper_host \<Rightarrow> string \<Rightarrow> decimal \<Rightarrow> (decimal \<times> int) option \<Rightarrow> hyper \<times> 'w \<Rightarrow> bool \<times> (hyper \<times> 'w)" where
  "fills_settled h cloid whole seen st =
     (let now = hh_now h (snd st);
          keep = (\<lambda>v. ((fst st)\<lparr>hx_shrunk_fills := AList.update cloid v (hx_shrunk_fills (fst st))\<rparr>, snd st))
      in case seen of
           Some (amount, since) \<Rightarrow>
             if amount = whole then (if hh_shrink_wait_ns h \<le> now - since then (True, st) else (False, keep (amount, since)))
             else (False, keep (whole, now))
         | None \<Rightarrow> (False, keep (whole, now)))"

definition hyper_view :: "order_status_report option \<Rightarrow> fill_report list \<Rightarrow> venue_order_view" where
  "hyper_view status fills = \<lparr>vv_status = status, vv_fills = fills\<rparr>"

definition unrecorded :: "'w hyper_host \<Rightarrow> order_ref \<Rightarrow> ('w, venue_read_failure + venue_order_view) act" where
  "unrecorded h r st = (case or_venue_oid r of
     None \<Rightarrow> (Inr (Inr (hyper_view None [])), st)
   | Some s \<Rightarrow> (case read_int s of
       None \<Rightarrow> (Inl (Raised ValueError), st)
     | Some oid \<Rightarrow> then_do (fetch_fills h (or_cloid r) (or_symbol r) oid
           (map_option (\<lambda>a. a div NS_PER_MS - ACK_SKEW_ALLOWANCE_MS) (or_acked_ts_ns r)) st)
         (\<lambda>x st1. (Inr (map_sum id (hyper_view None) x), st1))))"

definition recorded_view ::
  "'w hyper_host \<Rightarrow> order_ref \<Rightarrow> order_record \<Rightarrow> (decimal \<times> int) option \<Rightarrow> fill_report list \<Rightarrow> hyper \<times> 'w
    \<Rightarrow> venue_order_view \<times> (hyper \<times> 'w)" where
  "recorded_view h r rec seen fills st =
     (let filled = fill_total fills;
          plain = (\<lambda>st'. (hyper_view (Some (hyper_status h (or_cloid r) (rc_coin rec) (rc_state rec)
                     (Some (show_int (rc_oid rec))) None st')) fills, st'))
      in if rc_state rec = FILLED \<and> (case or_quantity r of Some q \<Rightarrow> shrunk (rc_reduce_only rec) q filled | None \<Rightarrow> False)
         then (case fills_settled h (or_cloid r) filled seen st of
             (True, st1) \<Rightarrow> (case end_cut_part h (or_cloid r) (rc_coin rec) (Some (show_int (rc_oid rec))) st1 of
                (q, st2) \<Rightarrow> (hyper_view (Some q) fills, st2))
           | (False, st1) \<Rightarrow> plain st1)
         else plain st)"

definition recorded_order ::
  "'w hyper_host \<Rightarrow> order_ref \<Rightarrow> order_record \<Rightarrow> (decimal \<times> int) option \<Rightarrow> ('w, venue_read_failure + venue_order_view) act" where
  "recorded_order h r rec seen st =
     (if or_venue_oid r = None \<and> placed_before rec (or_created_ts_ns r) then (Inr (Inr (hyper_view None [])), st)
      else then_do (fetch_fills h (or_cloid r) (rc_coin rec) (rc_oid rec) (Some (rc_timestamp rec)) st)
        (\<lambda>f st1. case f of
           Inl failure \<Rightarrow> (Inr (Inl failure), st1)
         | Inr fills \<Rightarrow> (case recorded_view h r rec seen fills st1 of (v, st2) \<Rightarrow> (Inr (Inr v), st2))))"

definition after_status ::
  "'w hyper_host \<Rightarrow> order_ref \<Rightarrow> order_record option \<Rightarrow> ('w, venue_read_failure + venue_order_view) act" where
  "after_status h r found st =
     (let seen = map_of (hx_shrunk_fills (fst st)) (or_cloid r); st1 = forget_shrunk (or_cloid r) st
      in case found of None \<Rightarrow> unrecorded h r st1 | Some rec \<Rightarrow> recorded_order h r rec seen st1)"

lemma after_status_simps [simp]:
  "after_status h r None st = unrecorded h r (forget_shrunk (or_cloid r) st)"
  "after_status h r (Some rec) st = recorded_order h r rec (map_of (hx_shrunk_fills (fst st)) (or_cloid r))
     (forget_shrunk (or_cloid r) st)"
  by (simp_all add: after_status_def Let_def)

definition hyper_fetch_order :: "'w hyper_host \<Rightarrow> order_ref \<Rightarrow> ('w, venue_read_failure + venue_order_view) act" where
  "hyper_fetch_order h r st = then_do (order_status h r st) (\<lambda>x st1. case x of
     Inl failure \<Rightarrow> (Inr (Inl failure), st1) | Inr found \<Rightarrow> after_status h r found st1)"

section \<open>Reading the account\<close>

definition open_row :: "(string, int) dict \<Rightarrow> json \<Rightarrow> ((string \<times> string) + open_row) body" where
  "open_row perps entry =
     bind_sum (key entry ''coin'') (\<lambda>coin. let symbol = py_str coin in
     bind_sum (key entry ''oid'') (\<lambda>o1. bind_sum (py_int o1) (\<lambda>n. let oid = show_int n in
     if take 1 symbol = ''@'' \<or> CHR 0x2F \<in> set symbol then Inr (Inl (symbol, oid))
     else if map_of perps symbol = None then Inl UNREADABLE
     else bind_sum (key entry ''cloid'') (\<lambda>c.
       Inr (Inr (if c = JNull then Inr \<lparr>xr_symbol = symbol, xr_venue_oid = oid\<rparr>
                 else Inl \<lparr>vo_cloid = py_str c, vo_symbol = symbol, vo_venue_oid = Some oid\<rparr>))))))"

definition open_orders_of :: "(string, int) dict \<Rightarrow> json \<Rightarrow> (open_row list \<times> (string \<times> string) list) body" where
  "open_orders_of perps response = (case response of
     JList rows \<Rightarrow> bind_sum (traverse_sum (open_row perps) rows) (\<lambda>xs.
       Inr (concat (map (case_sum (\<lambda>_. []) (\<lambda>o1. [o1])) xs), concat (map (case_sum (\<lambda>s. [s]) (\<lambda>_. [])) xs)))
   | _ \<Rightarrow> Inl UNREADABLE)"

definition hyper_open_orders :: "'w hyper_host \<Rightarrow> ('w, venue_read_failure + open_row list) act" where
  "hyper_open_orders h st =
     then_do (venue_read (post_info h) (JObj [(''type'', JStr ''frontendOpenOrders''), (''user'', JStr (hh_address h))])
         (\<lambda>_. open_orders_of (un_asset_indices (hh_universe h))) st)
       (\<lambda>r st1. (Inr (map_sum id fst r), st1))"

definition account_read :: "'w hyper_host \<Rightarrow> ('w, venue_read_failure + venue_account_state) act" where
  "account_read h st = venue_read (post_info h) (state_query (hh_address h)) (\<lambda>_. account_of_body) st"

definition hyper_positions :: "'w hyper_host \<Rightarrow> ('w, venue_read_failure + (string, decimal) dict) act" where
  "hyper_positions h st = then_do (account_read h st)
     (\<lambda>r st1. (Inr (map_sum id (\<lambda>v. dict_of (map (\<lambda>p. (vp_symbol p, vp_signed_size p)) (va_positions v))) r), st1))"

definition hyper_account_state :: "'w hyper_host \<Rightarrow> ('w, venue_account_state option) act" where
  "hyper_account_state h st = then_do (account_read h st)
     (\<lambda>r st1. (Inr (case r of Inl failure \<Rightarrow> None | Inr v \<Rightarrow> Some v), st1))"

definition hyper_verify_mode :: "'w hyper_host \<Rightarrow> ('w, mode_verdict) act" where
  "hyper_verify_mode h st = reverify_account_mode (post_info h) (hh_address h) st"

section \<open>Boot\<close>

text \<open>
  \<open>start\<close>: three guards on one deadline. Opening the funding socket is the argument
  \<open>connect\<close>, one attempt of it.
\<close>

definition then_boot ::
  "((boot_refusal + unit) \<times> 's) option \<Rightarrow> ('s \<Rightarrow> ((boot_refusal + unit) \<times> 's) option) \<Rightarrow> ((boot_refusal + unit) \<times> 's) option" where
  "then_boot r f = Option.bind r (\<lambda>(x, st). case x of Inl e \<Rightarrow> Some (Inl e, st) | Inr _ \<Rightarrow> f st)"

definition hyper_start ::
  "nat \<Rightarrow> 'w hyper_host \<Rightarrow> (hyper \<times> 'w \<Rightarrow> (boot_refusal call_fault + unit) \<times> (hyper \<times> 'w)) \<Rightarrow>
    hyper \<times> 'w \<Rightarrow> ((boot_refusal + unit) \<times> (hyper \<times> 'w)) option" where
  "hyper_start n h connect st =
     (let ck = hyper_clock h; d = open_deadline ck (hh_startup_timeout h) st in
      then_boot (verify_account_mode n ck d (post_info h) (hh_address h) st) (\<lambda>st1.
        case validate_against (hh_leverage h) (un_specs (hh_universe h)) of
          Inl e \<Rightarrow> Some (Inl (BootRaised (Raised e)), st1)
        | Inr _ \<Rightarrow>
            then_boot (push_leverage n ck d (post_info h) (send_action h) (hh_address h) (hh_leverage h)
                (un_asset_indices (hh_universe h)) st1) (\<lambda>st2.
              until_deadline n ck d SubscriptionUnreachable connect st2)))"

end
