(* ===== verification/TW_Hyper_Runs.thy ===== *)
theory TW_Hyper_Runs
  imports TW_Hyper
begin

text \<open>
  The live exchange over any sequence of its calls. The locale \<open>venue_calls\<close> carries a relation
  between states through every operation from what the few primitive steps do (a request, a
  report, a sleep, a write of the cut-part memory); it is interpreted on the paths of primitive
  steps, so what every primitive step keeps, every operation keeps. The properties say what the
  adapter sends and what it reports.
\<close>

section \<open>Primitive steps\<close>

definition keep_shrunk :: "string \<Rightarrow> decimal \<times> int \<Rightarrow> hyper \<times> 'w \<Rightarrow> hyper \<times> 'w" where
  "keep_shrunk c v st = ((fst st)\<lparr>hx_shrunk_fills := AList.update c v (hx_shrunk_fills (fst st))\<rparr>, snd st)"

inductive venue_prim :: "'w hyper_host \<Rightarrow> hyper \<times> 'w \<Rightarrow> hyper \<times> 'w \<Rightarrow> bool" for h where
  prim_info: "venue_prim h st (snd (post_info h q st))"
| prim_action: "venue_prim h st (snd (send_action h a st))"
| prim_publish: "venue_prim h st (snd (hh_publish h r st))"
| prim_sleep: "venue_prim h st (hh_sleep h d st)"
| prim_keep: "venue_prim h st (keep_shrunk c v st)"
| prim_forget: "venue_prim h st (forget_shrunk c st)"
| prim_trade: "venue_prim h st (on_trade s p st)"
| prim_mark: "venue_prim h st (on_mark m st)"

abbreviation venue_path :: "'w hyper_host \<Rightarrow> hyper \<times> 'w \<Rightarrow> hyper \<times> 'w \<Rightarrow> bool" where
  "venue_path h \<equiv> (venue_prim h)\<^sup>*\<^sup>*"

locale venue_calls =
  fixes R :: "hyper \<times> 'w \<Rightarrow> hyper \<times> 'w \<Rightarrow> bool" and h :: "'w hyper_host"
  assumes R_refl: "R st st"
    and R_trans: "R st1 st2 \<Longrightarrow> R st2 st3 \<Longrightarrow> R st1 st3"
    and R_info: "R st (snd (post_info h q st))"
    and R_action: "R st (snd (send_action h q st))"
    and R_publish: "R st (snd (hh_publish h r st))"
    and R_sleep: "R st (hh_sleep h d st)"
    and R_keep: "R st (keep_shrunk c v st)"
    and R_forget: "R st (forget_shrunk c st)"
begin

lemma R_then:
  assumes "R a (snd r)" and "\<And>x st. r = (Inr x, st) \<Longrightarrow> R st (snd (f x st))"
  shows "R a (snd (then_do r f))"
proof -
  obtain x st where r: "r = (x, st)" by (rule prod.exhaust)
  then show ?thesis using assms by (cases x) (auto intro: R_trans)
qed

lemma R_read:
  assumes "\<And>q st. R st (snd (send q st))"
  shows "R st (snd (venue_read send q reader st))"
  using assms [of st q] by (auto simp: venue_read_def split: prod.split sum.split send_fault.split)

lemma R_pub: "R st (snd (publish h r st))"
  using R_publish [of st r] by (simp add: publish_def split_beta)

lemma R_reports:
  "R st (snd (report_status h t s oid reason st))" "R st (snd (report_refused h t rf st))"
  "R st (snd (report_ack h t n st))"
  by (simp_all add: report_status_def report_refused_def report_ack_def R_pub)

lemma R_fills: "R st (snd (fetch_fills h c sy oid since st))"
  unfolding fetch_fills_def by (rule R_read) (rule R_info)

lemma R_publish_new: "R st (snd (publish_new h fs seen st))"
proof (induction fs arbitrary: seen st)
  case (Cons f fs)
  then show ?case by (auto intro!: R_then R_pub)
qed (simp add: R_refl)

lemma R_placement_fills: "R st (snd (placement_fills h t oid whole ds seen st))"
proof (induction ds arbitrary: seen st)
  case Nil
  show ?case
    by (subst placement_fills.simps, rule R_then [OF R_fills])
      (auto split: sum.split simp: Let_def intro!: R_then R_publish_new R_refl)
next
  case (Cons d ds)
  have "R st2 (snd (placement_fills h t oid whole ds seen' (hh_sleep h d st2)))" for seen' st2
    by (rule R_trans [OF R_sleep Cons.IH])
  then show ?case
    by (subst placement_fills.simps, intro R_then [OF R_fills])
      (auto split: sum.split simp: Let_def intro!: R_then R_publish_new R_refl)
qed

lemma R_end_cut: "R st (snd (end_cut_part h c sy oid st))"
  by (simp add: end_cut_part_def R_forget)

lemma R_apply_placement: "R st (snd (apply_placement h t adj st))"
proof (cases adj)
  case (AdjFilled oid whole)
  have "R st3 (snd (case end_cut_part h c sy None st3 of (r, st4) \<Rightarrow> publish h (Reported (Status r)) st4))" for c sy st3
    using R_trans [OF R_end_cut R_pub] by (simp add: split_beta)
  then show ?thesis unfolding apply_placement_def AdjFilled adjudication.case
    by (intro R_then R_reports R_placement_fills) (auto intro: R_refl split: option.split)
qed (simp_all add: apply_placement_def R_reports)

lemma R_place: "R st (snd (hyper_place h po st))"
proof (cases "order_wire h (fst st) po")
  case (Inr wire)
  have "R st1 (snd (case r of Inl SEND_FAILED \<Rightarrow> report_refused h (po_terms po) ORDER_SEND_FAILED st1
       | Inl RATE_LIMITED_IP \<Rightarrow> report_refused h (po_terms po) IP_LIMITED st1
       | Inl UNREADABLE_BODY \<Rightarrow> (Inr (), st1) | Inr adj \<Rightarrow> apply_placement h (po_terms po) adj st1))" for r st1
    by (auto simp: R_reports R_refl R_apply_placement split: sum.split venue_read_failure.split)
  with Inr show ?thesis unfolding hyper_place_def Let_def
    by (simp, intro R_then R_read R_action)
next
  case (Inl e)
  then show ?thesis by (cases e) (simp_all add: hyper_place_def R_reports R_refl)
qed

lemma R_cancellation: "R st (snd (apply_cancellation h r v st))"
  by (auto simp: apply_cancellation_def R_pub R_refl split: sum.split cancel_verdict.split cancel_ref.split)

lemma R_cancellations: "R st (snd (apply_cancellations h rvs st))"
proof (induction rvs arbitrary: st)
  case (Cons rv rvs)
  then show ?case by (cases rv) (auto intro!: R_then R_cancellation)
qed (simp add: R_refl)

lemma R_cancel_batch: "R st (snd (cancel_batch h action batch st))"
  unfolding cancel_batch_def
  by (intro R_then R_read R_action) (auto simp: R_refl R_cancellations split: sum.split)

lemma R_cancel: "R st (snd (hyper_cancel h refs st))"
proof -
  have "R st (snd (cancel_batches h bs st))" for bs
  proof (induction bs arbitrary: st)
    case (Cons b bs)
    then show ?case by (cases b) (auto intro!: R_then R_cancel_batch)
  qed (simp add: R_refl)
  then show ?thesis by (simp add: hyper_cancel_def R_refl split: sum.split)
qed

lemma R_fills_settled: "R st (snd (fills_settled h c amount seen st))"
  using R_keep [of st c, unfolded keep_shrunk_def]
  by (auto simp: fills_settled_def Let_def R_refl split: option.split prod.split)

lemma R_recorded_view: "R st (snd (recorded_view h r rec seen fills st))"
proof -
  obtain b st1 where s: "fills_settled h (or_cloid r) (fill_total fills) seen st = (b, st1)"
    by (cases "fills_settled h (or_cloid r) (fill_total fills) seen st")
  have "R st st1" using R_fills_settled [of st "or_cloid r" "fill_total fills" seen] s by simp
  then show ?thesis
    using R_trans [OF _ R_end_cut] by (auto simp: recorded_view_def Let_def s R_refl split_beta split: bool.split)
qed

lemma R_order_status: "R st (snd (order_status h r st))"
  by (auto simp: order_status_def R_refl intro!: R_read R_info split: option.split)

lemma R_unrecorded: "R st (snd (unrecorded h r st))"
  by (auto simp: unrecorded_def R_refl intro!: R_then R_fills split: option.split)

lemma R_recorded_order: "R st (snd (recorded_order h r rec seen st))"
proof -
  have "R st1 (snd (case f of Inl failure \<Rightarrow> (Inr (Inl failure), st1)
      | Inr fills \<Rightarrow> (case recorded_view h r rec seen fills st1 of (v, st2) \<Rightarrow> (Inr (Inr v), st2))))" for f st1
    using R_recorded_view [of st1 r rec seen] by (simp add: split_beta R_refl split: sum.split)
  note view = this
  show ?thesis
  proof (cases "or_venue_oid r = None \<and> placed_before rec (or_created_ts_ns r)")
    case False
    show ?thesis unfolding recorded_order_def if_not_P [OF False] by (rule R_then [OF R_fills view])
  qed (simp add: recorded_order_def R_refl)
qed

lemma R_after_status: "R st (snd (after_status h r found st))"
  unfolding after_status_def Let_def
  by (auto split: option.split intro: R_trans [OF R_forget R_unrecorded] R_trans [OF R_forget R_recorded_order])

lemma R_fetch_order: "R st (snd (hyper_fetch_order h r st))"
  unfolding hyper_fetch_order_def
  by (rule R_then [OF R_order_status]) (auto simp: R_refl R_after_status split: sum.split)

lemma R_account: "R st (snd (account_read h st))"
  unfolding account_read_def by (rule R_read) (rule R_info)

lemma R_account_reads:
  "R st (snd (hyper_open_orders h st))" "R st (snd (hyper_positions h st))"
  "R st (snd (hyper_account_state h st))" "R st (snd (hyper_verify_mode h st))"
proof -
  show "R st (snd (hyper_open_orders h st))" unfolding hyper_open_orders_def
    by (rule R_then [OF R_read]) (simp_all add: R_info R_refl)
  show "R st (snd (hyper_positions h st))" unfolding hyper_positions_def
    by (rule R_then [OF R_account]) (simp add: R_refl)
  show "R st (snd (hyper_account_state h st))" unfolding hyper_account_state_def
    by (rule R_then [OF R_account]) (simp add: R_refl)
  have "R st (snd (venue_read (post_info h) q reader st))" for q and reader :: "hyper \<times> 'w \<Rightarrow> json \<Rightarrow> string body"
    by (rule R_read) (rule R_info)
  then show "R st (snd (hyper_verify_mode h st))"
    by (simp add: hyper_verify_mode_def reverify_account_mode_def split_beta)
qed

lemma R_until:
  assumes "\<And>st. R st (snd (call st))" "until_deadline n (hyper_clock h) d x call st = Some (r, st')"
  shows "R st st'"
proof (rule deadline_inv [THEN conjunct1, OF _ _ _ assms(2), of "R st"])
  show "R st (snd (call st1))" if "R st st1" for st1 using R_trans [OF that assms(1)] .
  show "R st (ck_sleep (hyper_clock h) t st1)" if "R st st1" for t st1
    using R_trans [OF that R_sleep] by (simp add: hyper_clock_def)
qed (rule R_refl)

lemma R_push_loop:
  "push_loop n (hyper_clock h) d (send_action h) lb indices held ss st = Some (r, st') \<Longrightarrow> R st st'"
proof (induction ss arbitrary: st)
  case (Cons s ss)
  show ?case
  proof (cases "map_of held s = None \<and> map_of indices s \<noteq> None")
    case True
    then obtain asset q st1 where u: "until_deadline n (hyper_clock h) d LeveragePushFailed
        (boot_call (send_action h) (leverage_action asset (for_symbol lb s)) write_verdict) st = Some (q, st1)"
      and rest: "(case q of Inl e \<Rightarrow> Some (Inl e, st1)
        | Inr _ \<Rightarrow> push_loop n (hyper_clock h) d (send_action h) lb indices held ss st1) = Some (r, st')"
      using Cons.prems by (auto simp: bind_eq_Some_conv)
    have "R st st1" by (rule R_until [OF _ u]) (simp add: boot_call_state R_action)
    moreover have "R st1 st'" using rest Cons.IH by (auto simp: R_refl split: sum.splits)
    ultimately show ?thesis by (rule R_trans)
  next
    case False
    then show ?thesis using Cons by (auto simp: R_refl split: if_splits)
  qed
qed (simp add: R_refl)

lemma R_push:
  assumes "push_leverage n (hyper_clock h) d (post_info h) (send_action h) address lb indices st = Some (r, st')"
  shows "R st st'"
proof (cases "lb = []")
  case False
  then obtain q st1 where u: "until_deadline n (hyper_clock h) d LeveragePushFailed
      (boot_call (post_info h) (state_query address) (\<lambda>r. or_transient (held_leverage r))) st = Some (q, st1)"
    and rest: "(case q of Inl e \<Rightarrow> Some (Inl e, st1) | Inr held \<Rightarrow> (case refuse_disagreements lb held of
        Inl e \<Rightarrow> Some (Inl e, st1)
      | Inr _ \<Rightarrow> push_loop n (hyper_clock h) d (send_action h) lb indices held (str_sort (map fst lb)) st1)) = Some (r, st')"
    using assms by (auto simp: push_leverage_def bind_eq_Some_conv)
  have "R st st1" by (rule R_until [OF _ u]) (simp add: boot_call_state R_info)
  moreover have "R st1 st'" using rest R_push_loop by (auto simp: R_refl split: sum.splits)
  ultimately show ?thesis by (rule R_trans)
qed (use assms in \<open>simp add: push_leverage_def R_refl\<close>)

lemma then_boot_Some: "then_boot r f = Some (x, st') \<Longrightarrow>
    \<exists>y st. r = Some (y, st) \<and> (y = x \<and> st = st' \<or> f st = Some (x, st'))"
proof -
  assume a: "then_boot r f = Some (x, st')"
  then obtain y st where r: "r = Some (y, st)" by (auto simp: then_boot_def bind_eq_Some_conv)
  with a show ?thesis by (cases y) (auto simp: then_boot_def)
qed

lemma R_start:
  assumes "\<And>st. R st (snd (connect st))" "hyper_start n h connect st = Some (r, st')"
  shows "R st st'"
proof -
  define d where "d = open_deadline (hyper_clock h) (hh_startup_timeout h) st"
  have mode: "R st1 st2" if "verify_account_mode n (hyper_clock h) d (post_info h) (hh_address h) st1 = Some (y, st2)" for st1 st2 y
    using that unfolding verify_account_mode_def
    by (auto dest!: R_until [rotated] simp: boot_call_state R_info)
  have conn: "R st1 st2" if "until_deadline n (hyper_clock h) d SubscriptionUnreachable connect st1 = Some (y, st2)" for st1 st2 y
    by (rule R_until [OF assms(1) that])
  obtain y st1 where 1: "verify_account_mode n (hyper_clock h) d (post_info h) (hh_address h) st = Some (y, st1)"
    and rest: "y = r \<and> st1 = st' \<or> (case validate_against (hh_leverage h) (un_specs (hh_universe h)) of
        Inl e \<Rightarrow> Some (Inl (BootRaised (Raised e)), st1)
      | Inr _ \<Rightarrow> then_boot (push_leverage n (hyper_clock h) d (post_info h) (send_action h) (hh_address h) (hh_leverage h)
          (un_asset_indices (hh_universe h)) st1) (\<lambda>st2.
            until_deadline n (hyper_clock h) d SubscriptionUnreachable connect st2)) = Some (r, st')"
    using then_boot_Some [OF assms(2) [unfolded hyper_start_def Let_def, folded d_def]] by metis
  have "R st1 st'" if "then_boot (push_leverage n (hyper_clock h) d (post_info h) (send_action h) (hh_address h)
      (hh_leverage h) (un_asset_indices (hh_universe h)) st1)
      (\<lambda>st2. until_deadline n (hyper_clock h) d SubscriptionUnreachable connect st2) = Some (r, st')"
    using then_boot_Some [OF that] R_push conn R_trans R_refl by metis
  then have "R st1 st'" using rest R_refl [of st']
    by (cases "validate_against (hh_leverage h) (un_specs (hh_universe h))") (elim disjE; simp)+
  then show ?thesis by (rule R_trans [OF mode [OF 1]])
qed

lemmas R_calls = R_place R_cancel R_fetch_order R_account_reads

end

interpretation path: venue_calls "venue_path h" h for h
  by unfold_locales (auto intro: rtranclp_trans venue_prim.intros)


section \<open>Calls\<close>

inductive venue_call :: "'w hyper_host \<Rightarrow> hyper \<times> 'w \<Rightarrow> hyper \<times> 'w \<Rightarrow> bool" for h where
  call_place: "venue_call h st (snd (hyper_place h po st))"
| call_cancel: "venue_call h st (snd (hyper_cancel h refs st))"
| call_fetch_order: "venue_call h st (snd (hyper_fetch_order h r st))"
| call_open_orders: "venue_call h st (snd (hyper_open_orders h st))"
| call_positions: "venue_call h st (snd (hyper_positions h st))"
| call_account: "venue_call h st (snd (hyper_account_state h st))"
| call_mode: "venue_call h st (snd (hyper_verify_mode h st))"
| call_trade: "venue_call h st (on_trade s p st)"
| call_mark: "venue_call h st (on_mark m st)"
| call_start: "hyper_start n h connect st = Some (r, st') \<Longrightarrow> (\<And>st. snd (connect st) = st) \<Longrightarrow> venue_call h st st'"

lemma call_is_path: "venue_call h st st' \<Longrightarrow> venue_path h st st'"
proof (induction rule: venue_call.induct)
  case (call_start n connect st r st')
  show ?case by (rule path.R_start [OF _ call_start(1)]) (simp only: call_start(2) rtranclp.rtrancl_refl)
qed (rule path.R_calls path.R_account_reads r_into_rtranclp prim_trade prim_mark)+

lemma calls_are_path: "(venue_call h)\<^sup>*\<^sup>* st st' \<Longrightarrow> venue_path h st st'"
  by (induction rule: rtranclp_induct) (auto dest: call_is_path)

section \<open>Nonces\<close>

text \<open>
  The world of this section keeps the nonces posted to the exchange. A host logs when it appends
  the nonce of an action and everything that runs while it is awaited logs in the same way.
\<close>

definition nonce_of :: "json \<Rightarrow> int list" where
  "nonce_of q = (case sub q ''nonce'' of Some (JInt n) \<Rightarrow> [n] | _ \<Rightarrow> [])"

definition nonces_rise :: "hyper \<times> int list \<times> 'v \<Rightarrow> hyper \<times> int list \<times> 'v \<Rightarrow> bool" where
  "nonces_rise st st' \<longleftrightarrow> (\<exists>ns. fst (snd st') = fst (snd st) @ ns
     \<and> sorted_wrt (<) (hx_last_nonce (fst st) # ns)
     \<and> (\<forall>n \<in> set (hx_last_nonce (fst st) # ns). n \<le> hx_last_nonce (fst st')))"

definition logging_host :: "(int list \<times> 'v) hyper_host \<Rightarrow> bool" where
  "logging_host h \<longleftrightarrow>
     (\<forall>url q hx lg v. nonces_rise
        (hx, lg @ (if url = api_url (hh_config h) @ ''/exchange'' then nonce_of q else []), v)
        (snd (hh_post h url q (hx, lg, v))))
     \<and> (\<forall>r st. nonces_rise st (snd (hh_publish h r st))) \<and> (\<forall>d st. nonces_rise st (hh_sleep h d st))"

lemma nonces_rise_refl: "nonces_rise st st"
  unfolding nonces_rise_def by (rule exI [of _ "[]"]) simp

lemma nonces_rise_trans:
  assumes "nonces_rise a b" "nonces_rise b c"
  shows "nonces_rise a c"
proof -
  obtain ns where ns: "fst (snd b) = fst (snd a) @ ns" "sorted_wrt (<) (hx_last_nonce (fst a) # ns)"
    "\<forall>n \<in> set (hx_last_nonce (fst a) # ns). n \<le> hx_last_nonce (fst b)" using assms(1) unfolding nonces_rise_def by blast
  obtain ms where ms: "fst (snd c) = fst (snd b) @ ms" "sorted_wrt (<) (hx_last_nonce (fst b) # ms)"
    "\<forall>n \<in> set (hx_last_nonce (fst b) # ms). n \<le> hx_last_nonce (fst c)" using assms(2) unfolding nonces_rise_def by blast
  have less: "x < y" if "x \<in> set (hx_last_nonce (fst a) # ns)" "y \<in> set ms" for x y
  proof -
    have "x \<le> hx_last_nonce (fst b)" using ns(3) that(1) by blast
    also have "\<dots> < y" using ms(2) that(2) by simp
    finally show ?thesis .
  qed
  have le: "x \<le> hx_last_nonce (fst c)" if "x \<in> set (hx_last_nonce (fst a) # ns @ ms)" for x
  proof (cases "x \<in> set (hx_last_nonce (fst a) # ns)")
    case True
    have "hx_last_nonce (fst b) \<le> hx_last_nonce (fst c)" using ms(3) by simp
    then show ?thesis using ns(3) True order_trans by blast
  qed (use ms(3) that in auto)
  have "sorted_wrt (<) ((hx_last_nonce (fst a) # ns) @ ms)"
    using ns(2) ms(2) less unfolding sorted_wrt_append by simp
  then show ?thesis unfolding nonces_rise_def
    using ns(1) ms(1) le by (intro exI [of _ "ns @ ms"]) simp
qed

lemma nonces_rise_frame:
  "fst (snd st') = fst (snd st) \<Longrightarrow> hx_last_nonce (fst st') = hx_last_nonce (fst st) \<Longrightarrow> nonces_rise st st'"
  unfolding nonces_rise_def by (rule exI [of _ "[]"]) simp

lemma logging_hostD:
  assumes "logging_host h"
  shows "nonces_rise (hx, lg @ (if url = api_url (hh_config h) @ ''/exchange'' then nonce_of q else []), v)
      (snd (hh_post h url q (hx, lg, v)))"
    and "nonces_rise st (snd (hh_publish h r st))" and "nonces_rise st (hh_sleep h d st)"
  using assms unfolding logging_host_def by blast+

lemma send_rises:
  assumes "logging_host h"
  shows "nonces_rise st (snd (send_action h act st))"
proof -
  obtain hx lg v where st: "st = (hx, lg, v)" by (rule prod_cases3)
  define n where "n = max (hh_now h (lg, v) div NS_PER_MS) (hx_last_nonce hx + 1)"
  define q where "q = JObj [(''action'', act), (''nonce'', JInt n), (''signature'', hh_sign h act n (\<not> hc_testnet (hh_config h)))]"
  have "nonce_of q = [n]" by (simp add: nonce_of_def q_def sub_def)
  moreover have "send_action h act st
      = hh_post h (api_url (hh_config h) @ ''/exchange'') q (hx\<lparr>hx_last_nonce := n\<rparr>, lg, v)"
    by (simp add: send_action_def st n_def q_def Let_def)
  ultimately have "nonces_rise (hx\<lparr>hx_last_nonce := n\<rparr>, lg @ [n], v) (snd (send_action h act st))"
    using logging_hostD(1) [OF assms, of "hx\<lparr>hx_last_nonce := n\<rparr>" lg "api_url (hh_config h) @ ''/exchange''" q v]
    by (simp only: if_True simp_thms)
  moreover have "nonces_rise st (hx\<lparr>hx_last_nonce := n\<rparr>, lg @ [n], v)"
    unfolding nonces_rise_def st by (rule exI [of _ "[n]"]) (auto simp: n_def less_max_iff_disj le_max_iff_disj)
  ultimately show ?thesis using nonces_rise_trans by blast
qed

lemma prim_rises:
  assumes "logging_host h" "venue_prim h st st'"
  shows "nonces_rise st st'"
  using assms(2)
proof cases
  case (prim_info q)
  obtain hx lg v where st: "st = (hx, lg, v)" by (rule prod_cases3)
  have "nonces_rise (hx, lg, v) (snd (hh_post h (api_url (hh_config h) @ ''/info'') q (hx, lg, v)))"
    using logging_hostD(1) [OF assms(1), of hx lg "api_url (hh_config h) @ ''/info''" q v] by simp
  then show ?thesis by (simp only: prim_info post_info_def st)
next
  case (prim_action act)
  then show ?thesis using send_rises [OF assms(1)] by simp
next
  case (prim_publish r)
  show ?thesis unfolding prim_publish by (rule logging_hostD(2) [OF assms(1)])
next
  case (prim_sleep d)
  show ?thesis unfolding prim_sleep by (rule logging_hostD(3) [OF assms(1)])
qed (rule nonces_rise_frame; simp add: keep_shrunk_def forget_shrunk_def on_trade_def on_mark_def)+

text \<open>
  C20. Over any sequence of the live exchange's calls, boot included, and whatever runs while they
  await, the nonces of the signed actions strictly increase.
\<close>

theorem nonces_strictly_increase:
  assumes "logging_host h" and "(venue_call h)\<^sup>*\<^sup>* (make_hyper, [], v) st"
  shows "sorted_wrt (<) (fst (snd st))"
proof -
  have "nonces_rise (make_hyper, [], v) st"
    using calls_are_path [OF assms(2)]
  proof (induction rule: rtranclp_induct)
    case (step b c)
    then show ?case using prim_rises [OF assms(1)] nonces_rise_trans by blast
  qed (rule nonces_rise_refl)
  then show ?thesis by (auto simp: nonces_rise_def)
qed


definition demo_venue :: "(int list \<times> unit) hyper_host" where
  "demo_venue = \<lparr>hh_config = \<lparr>hc_testnet = True, hc_symbols = [], hc_signing_key = None, hc_account_address = None,
       hc_slippage_bound = 5 / 100, hc_reconnect_initial = 1, hc_reconnect_max = 60\<rparr>,
     hh_universe = \<lparr>un_specs = [(''BTC'', demo_spec)], un_asset_indices = [(''BTC'', 0)]\<rparr>, hh_leverage = [],
     hh_address = ''0x'', hh_shrink_wait_ns = 1, hh_startup_timeout = 1, hh_sign = (\<lambda>a n m. JNull),
     hh_now = (\<lambda>w. 3000000),
     hh_post = (\<lambda>url q (hx, lg, v). (Inr (JObj [(''status'', JStr ''ok''), (''response'', JObj [(''data'',
         JObj [(''statuses'', JList [JObj [(''resting'', JObj [(''oid'', JInt 7)])]])])])]),
       hx, lg @ (if url = ''https://api.hyperliquid-testnet.xyz/exchange'' then nonce_of q else []), v)),
     hh_publish = (\<lambda>r st. (Inr (), st)), hh_sleep = (\<lambda>d st. st)\<rparr>"

definition demo_limit :: place_order where
  "demo_limit = LimitOrder \<lparr>ot_cloid = ''c1'', ot_symbol = ''BTC'', ot_side = BUY, ot_quantity = 2,
     ot_time_in_force = GTC, ot_post_only = False, ot_reduce_only = False\<rparr> 100"

lemma demo_venue_logs: "logging_host demo_venue"
  by (auto simp: logging_host_def demo_venue_def api_url_def intro!: nonces_rise_frame nonces_rise_refl)

definition demo_two_orders :: "hyper \<times> int list \<times> unit" where
  "demo_two_orders = snd (hyper_place demo_venue demo_limit (snd (hyper_place demo_venue demo_limit (make_hyper, [], ()))))"

theorem nonces_strictly_increase_witness:
  "fst (snd demo_two_orders) = [3, 4] \<and> sorted_wrt (<) (fst (snd demo_two_orders))"
proof -
  have "(venue_call demo_venue)\<^sup>*\<^sup>* (make_hyper, [], ()) demo_two_orders"
    unfolding demo_two_orders_def
    by (rule rtranclp.rtrancl_into_rtrancl [OF r_into_rtranclp]) (rule call_place)+
  moreover have "fst (snd demo_two_orders) = [3, 4]" by code_simp
  ultimately show ?thesis using nonces_strictly_increase [OF demo_venue_logs] by blast
qed

end
