(* ===== verification/TW_Hyper_Reports.thy ===== *)
theory TW_Hyper_Reports
  imports TW_Hyper_Runs "HOL-Library.Multiset"
begin

text \<open>
  What the live exchange sends and reports: the price a market order carries, the reports a
  placement publishes, what a read of an order may answer, when the cut part of a shrunk order
  ends, and how cancels are addressed.
\<close>

section \<open>The price of a market order\<close>

definition no_worse :: "side \<Rightarrow> decimal \<Rightarrow> decimal \<Rightarrow> bool" where
  "no_worse sd p x \<longleftrightarrow> (if sd = BUY then p \<le> x else x \<le> p)"

lemma slippage_factor_pos:
  "0 \<le> hc_slippage_bound (hh_config h) \<Longrightarrow> hc_slippage_bound (hh_config h) < 1 \<Longrightarrow> 0 < slippage_factor h sd"
  by (simp add: slippage_factor_def Let_def)

text \<open>
  C31. A market order is sent as a limit that is no worse than the slippage bound around the last
  trade, and no worse than the bound around the mark: rounding to the venue's grid never takes
  it past either.
\<close>

theorem market_price_within_bounds:
  assumes "order_wire h hx (MarketOrder t) = Inr wire"
    and "map_of (hx_latest_price hx) (ot_symbol t) = Some latest" and "0 < latest"
    and "map_of (hx_latest_mark hx) (ot_symbol t) = Some mark" and "0 < mark"
    and "0 \<le> hc_slippage_bound (hh_config h)" and "hc_slippage_bound (hh_config h) < 1"
    and "\<forall>spec sig. map_of (un_specs (hh_universe h)) (ot_symbol t) = Some spec \<longrightarrow> is_max_sig_figs spec = Some sig \<longrightarrow> 1 \<le> sig"
  shows "\<exists>p. figure_at wire ''p'' = Inr p \<and> no_worse (ot_side t) p (dmul latest (slippage_factor h (ot_side t)))
    \<and> no_worse (ot_side t) p (dmul mark (slippage_factor h (ot_side t)))"
proof -
  let ?f = "slippage_factor h (ot_side t)"
  let ?x = "if ot_side t = BUY then min (dmul latest ?f) (dmul mark ?f) else max (dmul latest ?f) (dmul mark ?f)"
  have f: "0 < ?f" by (rule slippage_factor_pos [OF assms(6,7)])
  have x: "0 < ?x" using f assms(3,5) by (auto simp: min_def max_def)
  obtain p where lp: "limit_price h hx (MarketOrder t) = Inr p" and w: "sub wire ''p'' = Some (JStr (wire_decimal p))"
    using assms(1) by (auto simp: order_wire_def Let_def sub_def bind_sum_eq_Inr split: option.splits)
  obtain spec where spec: "map_of (un_specs (hh_universe h)) (ot_symbol t) = Some spec"
    and q: "quantize_price ?x (ot_side t) spec = Inr p"
    using lp assms(2,4) by (auto simp: limit_price_def Let_def split: option.splits)
  have pas: "(ot_side t = BUY \<longrightarrow> p \<le> ?x) \<and> (ot_side t = SELL \<longrightarrow> ?x \<le> p)"
    using quantized_price_passive [OF x _ q] assms(8) spec by blast
  have "fits p" using q by (auto simp: quantize_price_def intro: quantize_fits)
  then have "figure_at wire ''p'' = Inr p"
    using w wire_decimal_fits [of p] by (auto simp: figure_at_def key_def sub_def split: json.splits)
  moreover have "no_worse (ot_side t) p (dmul latest ?f) \<and> no_worse (ot_side t) p (dmul mark ?f)"
    using pas by (cases "ot_side t") (auto simp: no_worse_def)
  ultimately show ?thesis by blast
qed

section \<open>What a placement reports\<close>

text \<open>The world of this section keeps the reports published, whatever else it holds.\<close>

abbreviation reports_of :: "hyper \<times> venue_report list \<times> 'v \<Rightarrow> venue_report list" where
  "reports_of st \<equiv> fst (snd st)"

definition reporting_host :: "(venue_report list \<times> 'v) hyper_host \<Rightarrow> bool" where
  "reporting_host h \<longleftrightarrow> (\<forall>url q st. reports_of (snd (hh_post h url q st)) = reports_of st)
     \<and> (\<forall>r st. reports_of (snd (hh_publish h r st)) = reports_of st @ [r]) \<and> (\<forall>d st. reports_of (hh_sleep h d st) = reports_of st)"

lemma reporting_hostD:
  assumes "reporting_host h"
  shows "reports_of (snd (hh_post h url q st)) = reports_of st"
    and "reports_of (snd (hh_publish h r st)) = reports_of st @ [r]"
    and "reports_of (hh_sleep h d st) = reports_of st"
  using assms unfolding reporting_host_def by blast+

definition fills_in :: "venue_report list \<Rightarrow> fill_report list" where
  "fills_in rs = concat (map (\<lambda>r. case r of Reported (Filled f) \<Rightarrow> [f] | _ \<Rightarrow> []) rs)"

definition report_cloid :: "venue_report \<Rightarrow> string" where
  "report_cloid r = (case r of Reported (Filled f) \<Rightarrow> fr_cloid f | Reported (Status q) \<Rightarrow> sr_cloid q | Refused x \<Rightarrow> rr_cloid x)"

definition placement_reports :: "order_terms \<Rightarrow> venue_report list \<Rightarrow> bool" where
  "placement_reports t rs \<longleftrightarrow> (\<forall>r \<in> set rs. report_cloid r = ot_cloid t) \<and> distinct (map fr_trade_id (fills_in rs))
     \<and> (\<forall>q. Reported (Status q) \<in> set rs \<and> sr_status q = CANCELLED \<longrightarrow>
          last rs = Reported (Status q) \<and> ot_reduce_only t \<and> fill_total (fills_in rs) < ot_quantity t)"

abbreviation filled_reports :: "fill_report list \<Rightarrow> venue_report list" where
  "filled_reports fs \<equiv> map (\<lambda>f. Reported (Filled f)) fs"

abbreviation by_trade :: "fill_report list \<Rightarrow> (string, fill_report) dict" where
  "by_trade fs \<equiv> map (\<lambda>f. (fr_trade_id f, f)) fs"

lemma fills_in_simps [simp]:
  "fills_in [] = []" "fills_in (filled_reports fs) = fs" "fills_in (rs @ rs') = fills_in rs @ fills_in rs'"
  "fills_in (Reported (Status q) # rs) = fills_in rs" "fills_in (Refused x # rs) = fills_in rs"
  by (simp_all add: fills_in_def comp_def)

lemma map_snd_by_trade [simp]: "map snd (by_trade fs) = fs"
  by (simp add: comp_def)

lemma post_info_reports: "reporting_host h \<Longrightarrow> reports_of (snd (post_info h q st)) = reports_of st"
  by (simp only: post_info_def reporting_hostD)

lemma send_action_reports:
  assumes "reporting_host h"
  shows "reports_of (snd (send_action h q st)) = reports_of st"
  unfolding send_action_def Let_def by (simp add: reporting_hostD [OF assms])

lemma read_reports:
  assumes "\<And>st. reports_of (snd (send q st)) = reports_of st" "venue_read send q reader st = (r, st')"
  shows "reports_of st' = reports_of st"
proof -
  obtain a st1 where s: "send q st = (a, st1)" by (rule prod.exhaust)
  then have "st' = st1" using assms(2) by (auto simp: venue_read_def split: sum.splits send_fault.splits)
  then show ?thesis using assms(1) [of st] s by simp
qed

lemma publish_reports:
  assumes "reporting_host h" "publish h r st = (res, st')"
  shows "reports_of st' = reports_of st @ [r]"
  using reporting_hostD(2) [OF assms(1), of r st] assms(2) by (auto simp: publish_def split_beta)


lemma fill_row_cloid: "fill_row now c sy oid e = Inr fs \<Longrightarrow> f \<in> set fs \<Longrightarrow> fr_cloid f = c"
  by (auto simp: fill_row_def bind_sum_eq_Inr split: if_splits)

lemma fill_rows_cloid:
  assumes "fill_rows now c sy oid response = Inr fs" "f \<in> set fs"
  shows "fr_cloid f = c"
proof -
  obtain rows fss where r: "list_all2 (\<lambda>x y. fill_row now c sy oid x = Inr y) rows fss" "fs = concat fss"
    using assms(1) by (auto simp: fill_rows_def bind_sum_eq_Inr traverse_sum_Inr_list_all2 split: json.splits)
  then obtain gs where "gs \<in> set fss" "f \<in> set gs" using assms(2) by auto
  then show ?thesis using r(1) fill_row_cloid by (auto simp: list_all2_conv_all_nth in_set_conv_nth [of gs])
qed

lemma venue_read_value:
  assumes "venue_read send q reader st = (Inr (Inr x), st')"
  shows "\<exists>response. send q st = (Inr response, st') \<and> reader st' response = Inr x"
proof -
  obtain a st1 where s: "send q st = (a, st1)" by (rule prod.exhaust)
  then show ?thesis using assms
    by (auto simp: venue_read_def read_body_def split: sum.splits send_fault.splits body_fault.splits)
qed

lemma fetch_fills_cloid:
  assumes "fetch_fills h c sy oid since st = (Inr (Inr fs), st')" "f \<in> set fs"
  shows "fr_cloid f = c"
  using venue_read_value [OF assms(1) [unfolded fetch_fills_def]] fill_rows_cloid [OF _ assms(2)] by blast

lemma fetch_fills_reports:
  "reporting_host h \<Longrightarrow> fetch_fills h c sy oid since st = (r, st') \<Longrightarrow> reports_of st' = reports_of st"
  unfolding fetch_fills_def by (rule read_reports) (rule post_info_reports)

definition fresh_fills :: "string \<Rightarrow> fill_report list \<Rightarrow> fill_report list \<Rightarrow> bool" where
  "fresh_fills c old new \<longleftrightarrow> distinct (map fr_trade_id (old @ new)) \<and> (\<forall>f \<in> set new. fr_cloid f = c)"

lemma fresh_fills_append: "fresh_fills c old new \<Longrightarrow> fresh_fills c (old @ new) new' \<Longrightarrow> fresh_fills c old (new @ new')"
  by (auto simp: fresh_fills_def)

lemma publish_new_reports:
  assumes "reporting_host h" "publish_new h gs (by_trade old) st = (res, st')"
    and "distinct (map fr_trade_id old)" "\<forall>g \<in> set gs. fr_cloid g = c"
  shows "\<exists>new. reports_of st' = reports_of st @ filled_reports new \<and> fresh_fills c old new
    \<and> (\<forall>seen. res = Inr seen \<longrightarrow> seen = by_trade (old @ new))"
  using assms(2-4)
proof (induction gs arbitrary: old st)
  case Nil
  then have "res = Inr (by_trade old)" "st' = st" by simp_all
  then show ?case using Nil.prems(2) by (intro exI [of _ "[]"]) (simp add: fresh_fills_def)
next
  case (Cons g gs)
  have dom: "map_of (by_trade old) (fr_trade_id g) \<noteq> None \<longleftrightarrow> fr_trade_id g \<in> fr_trade_id ` set old"
    by (auto simp: map_of_eq_None_iff image_image)
  show ?case
  proof (cases "fr_trade_id g \<in> fr_trade_id ` set old")
    case True
    then show ?thesis using Cons dom by simp
  next
    case False
    obtain x st1 where p: "publish h (Reported (Filled g)) st = (x, st1)" by (rule prod.exhaust)
    have st1: "reports_of st1 = reports_of st @ filled_reports [g]"
      using publish_reports [OF assms(1) p] by simp
    have g: "fresh_fills c old [g]" using Cons.prems(2,3) False by (simp add: fresh_fills_def)
    show ?thesis
    proof (cases x)
      case (Inl e)
      then have "st' = st1" "res = Inl e" using Cons.prems(1) False dom p by simp_all
      then show ?thesis using st1 g by (intro exI [of _ "[g]"]) simp
    next
      case (Inr u)
      have "AList.update (fr_trade_id g) g (by_trade old) = by_trade (old @ [g])"
        using False by (simp add: update_absent image_image)
      then have pn: "publish_new h gs (by_trade (old @ [g])) st1 = (res, st')"
        using Cons.prems(1) False dom p Inr by simp
      have dd: "distinct (map fr_trade_id (old @ [g]))" using Cons.prems(2) False by simp
      have cc: "\<forall>g \<in> set gs. fr_cloid g = c" using Cons.prems(3) by simp
      obtain new where n: "reports_of st' = reports_of st1 @ filled_reports new"
        "fresh_fills c (old @ [g]) new" "\<forall>seen. res = Inr seen \<longrightarrow> seen = by_trade ((old @ [g]) @ new)"
        using Cons.IH [OF pn dd cc] by blast
      show ?thesis
        using n st1 fresh_fills_append [OF g n(2)] by (intro exI [of _ "[g] @ new"]) simp
    qed
  qed
qed

lemma placement_fills_reports:
  assumes "reporting_host h" "placement_fills h t oid whole ds (by_trade old) st = (res, st')"
    and "distinct (map fr_trade_id old)"
  shows "\<exists>new. reports_of st' = reports_of st @ filled_reports new \<and> fresh_fills (ot_cloid t) old new
    \<and> (\<forall>x. res = Inr (Some x) \<longrightarrow> x = fill_total (old @ new))"
  using assms(2,3)
proof (induction ds arbitrary: old st)
  case step: (Nil)
  obtain r st1 where f: "fetch_fills h (ot_cloid t) (ot_symbol t) oid None st = (r, st1)" by (rule prod.exhaust)
  have st1: "reports_of st1 = reports_of st" by (rule fetch_fills_reports [OF assms(1) f])
  show ?case
  proof (cases "\<exists>fills. r = Inr (Inr fills)")
    case True
    then obtain fills where r: "r = Inr (Inr fills)" ..
    obtain p st2 where p: "publish_new h fills (by_trade old) st1 = (p, st2)" by (rule prod.exhaust)
    have c: "\<forall>g \<in> set fills. fr_cloid g = ot_cloid t" using fetch_fills_cloid f r by blast
    obtain new where n: "reports_of st2 = reports_of st1 @ filled_reports new" "fresh_fills (ot_cloid t) old new"
      "\<forall>seen. p = Inr seen \<longrightarrow> seen = by_trade (old @ new)"
      using publish_new_reports [OF assms(1) p step.prems(2) c] by blast
    have "res = map_sum id (\<lambda>seen. Some (fill_total (map snd seen))) p \<and> st' = st2"
      using step.prems(1) f r p by (subst (asm) placement_fills.simps) (cases p; simp add: Let_def)
    then show ?thesis using n st1 by (intro exI [of _ new]) (cases p; simp add: comp_def)
  next
    case False
    then have "st' = st1 \<and> (\<forall>x. res \<noteq> Inr (Some x))"
      using step.prems(1) f by (subst (asm) placement_fills.simps) (auto split: sum.splits simp: then_do_def)
    then show ?thesis using st1 step.prems(2) by (intro exI [of _ "[]"]) (simp add: fresh_fills_def)
  qed
next
  case (Cons d ds)
  obtain r st1 where f: "fetch_fills h (ot_cloid t) (ot_symbol t) oid None st = (r, st1)" by (rule prod.exhaust)
  have st1: "reports_of st1 = reports_of st" by (rule fetch_fills_reports [OF assms(1) f])
  show ?case
  proof (cases "\<exists>fills. r = Inr (Inr fills)")
    case True
    then obtain fills where r: "r = Inr (Inr fills)" ..
    obtain p st2 where p: "publish_new h fills (by_trade old) st1 = (p, st2)" by (rule prod.exhaust)
    have c: "\<forall>g \<in> set fills. fr_cloid g = ot_cloid t" using fetch_fills_cloid f r by blast
    obtain new where n: "reports_of st2 = reports_of st1 @ filled_reports new" "fresh_fills (ot_cloid t) old new"
      "\<forall>seen. p = Inr seen \<longrightarrow> seen = by_trade (old @ new)"
      using publish_new_reports [OF assms(1) p Cons.prems(2) c] by blast
    have d: "distinct (map fr_trade_id (old @ new))" using n(2) by (simp add: fresh_fills_def)
    show ?thesis
    proof (cases p)
      case (Inl e)
      then have "res = Inl e \<and> st' = st2" using Cons.prems(1) f r p by (subst (asm) placement_fills.simps) simp
      then show ?thesis using n st1 by (intro exI [of _ new]) simp
    next
      case (Inr seen)
      then have seen: "seen = by_trade (old @ new)" using n(3) by simp
      have vals: "map snd seen = old @ new" unfolding seen by (rule map_snd_by_trade)
      have "(if whole \<le> fill_total (map snd seen) then (Inr (Some (fill_total (map snd seen))), st2)
          else placement_fills h t oid whole ds seen (hh_sleep h d st2)) = (res, st')"
        using Cons.prems(1) f r p Inr by (subst (asm) placement_fills.simps) (simp add: Let_def)
      note step = this [unfolded vals]
      show ?thesis
      proof (cases "whole \<le> fill_total (old @ new)")
        case True
        then show ?thesis using step n st1 by (intro exI [of _ new]) auto
      next
        case False
        then have "placement_fills h t oid whole ds (by_trade (old @ new)) (hh_sleep h d st2) = (res, st')"
          using step seen by simp
        from Cons.IH [OF this d] obtain new' where m: "reports_of st' = reports_of (hh_sleep h d st2) @ filled_reports new'"
          "fresh_fills (ot_cloid t) (old @ new) new'" "\<forall>x. res = Inr (Some x) \<longrightarrow> x = fill_total ((old @ new) @ new')"
          by blast
        show ?thesis using n(1) st1 m fresh_fills_append [OF n(2) m(2)] reporting_hostD(3) [OF assms(1), of d st2]
          by (intro exI [of _ "new @ new'"]) simp
      qed
    qed
  next
    case False
    then have "st' = st1 \<and> (\<forall>x. res \<noteq> Inr (Some x))"
      using Cons.prems(1) f by (subst (asm) placement_fills.simps) (auto split: sum.splits simp: then_do_def)
    then show ?thesis using st1 Cons.prems(2) by (intro exI [of _ "[]"]) (simp add: fresh_fills_def)
  qed
qed


lemma report_status_reports:
  assumes "reporting_host h" "report_status h t s oid reason st = (res, st')"
  shows "\<exists>q. reports_of st' = reports_of st @ [Reported (Status q)] \<and> sr_cloid q = ot_cloid t \<and> sr_status q = s"
  using publish_reports [OF assms(1) assms(2) [unfolded report_status_def]] by (simp add: hyper_status_def)

lemma placement_one:
  assumes "reports_of st' = reports_of st @ [Reported (Status q)]" "sr_cloid q = ot_cloid t" "sr_status q \<noteq> CANCELLED"
  shows "\<exists>rs. reports_of st' = reports_of st @ rs \<and> placement_reports t rs"
  using assms by (intro exI [of _ "[Reported (Status q)]"]) (auto simp: placement_reports_def report_cloid_def)

lemma report_refused_reports:
  assumes "reporting_host h" "report_refused h t rf st = (res, st')"
  shows "\<exists>rs. reports_of st' = reports_of st @ rs \<and> placement_reports t rs"
proof -
  obtain x where "reports_of st' = reports_of st @ [Refused x]" "rr_cloid x = ot_cloid t"
    using publish_reports [OF assms(1) assms(2) [unfolded report_refused_def]] by simp
  then show ?thesis
    by (intro exI [of _ "[Refused x]"]) (auto simp: placement_reports_def report_cloid_def)
qed

lemma report_status_shape:
  assumes "reporting_host h" "report_status h t s oid reason st = (res, st')" "s \<noteq> CANCELLED"
  shows "\<exists>rs. reports_of st' = reports_of st @ rs \<and> placement_reports t rs"
  using report_status_reports [OF assms(1,2)] placement_one assms(3) by metis

lemma placement_list:
  assumes "sr_cloid q = ot_cloid t" "sr_status q \<noteq> CANCELLED" "fresh_fills (ot_cloid t) [] new"
  shows "placement_reports t (Reported (Status q) # filled_reports new)"
  using assms by (auto simp: placement_reports_def report_cloid_def fresh_fills_def)

lemma placement_list_cut:
  assumes "sr_cloid q = ot_cloid t" "sr_status q \<noteq> CANCELLED" "fresh_fills (ot_cloid t) [] new"
    and "sr_cloid c = ot_cloid t" "ot_reduce_only t" "fill_total new < ot_quantity t"
  shows "placement_reports t (Reported (Status q) # filled_reports new @ [Reported (Status c)])"
  using assms by (auto simp: placement_reports_def report_cloid_def fresh_fills_def)

lemma filled_placement_reports:
  assumes h: "reporting_host h" and a: "apply_placement h t (AdjFilled oid whole) st = (res, st')"
  shows "\<exists>rs. reports_of st' = reports_of st @ rs \<and> placement_reports t rs"
proof -
  obtain x st1 where ack: "report_ack h t oid st = (x, st1)" by (rule prod.exhaust)
  obtain q where q: "reports_of st1 = reports_of st @ [Reported (Status q)]" "sr_cloid q = ot_cloid t" "sr_status q = LIVE"
    using report_status_reports [OF h ack [unfolded report_ack_def]] by blast
  show ?thesis
  proof (cases x)
    case (Inl e)
    then have "st' = st1" using a ack by (simp add: apply_placement_def)
    then show ?thesis using placement_one [OF q(1,2)] q(3) by simp
  next
    case (Inr u)
    obtain f st2 where f: "placement_fills h t oid whole SHORT_FILLS_RETRY_SECONDS [] st1 = (f, st2)" by (rule prod.exhaust)
    obtain new where n: "reports_of st2 = reports_of st1 @ filled_reports new" "fresh_fills (ot_cloid t) [] new"
      "\<forall>x. f = Inr (Some x) \<longrightarrow> x = fill_total new"
      using placement_fills_reports [OF h, of t oid whole SHORT_FILLS_RETRY_SECONDS "[]" st1 f st2] f
      unfolding list.map append_Nil by (metis distinct.simps(1))
    have plain: "\<exists>rs. reports_of st2 = reports_of st @ rs \<and> placement_reports t rs"
    proof (intro exI conjI)
      show "reports_of st2 = reports_of st @ (Reported (Status q) # filled_reports new)" using n(1) q(1) by simp
      show "placement_reports t (Reported (Status q) # filled_reports new)"
        by (rule placement_list [OF q(2) _ n(2)]) (simp add: q(3))
    qed
    show ?thesis
    proof (cases "\<exists>filled. f = Inr (Some filled) \<and> filled = whole \<and> shrunk (ot_reduce_only t) (ot_quantity t) filled")
      case False
      then have "st' = st2" using a ack Inr f
        by (cases f) (auto simp: apply_placement_def split: option.splits if_splits)
      then show ?thesis using plain by simp
    next
      case True
      then have cut: "f = Inr (Some (fill_total new))" "ot_reduce_only t" "fill_total new < ot_quantity t"
        "whole = fill_total new" using n(3) by (auto simp: shrunk_def)
      obtain c st3 where e: "end_cut_part h (ot_cloid t) (ot_symbol t) None st2 = (c, st3)" by (rule prod.exhaust)
      then have c: "sr_cloid c = ot_cloid t" "reports_of st3 = reports_of st2"
        by (auto simp: end_cut_part_def hyper_status_def forget_shrunk_def)
      have "publish h (Reported (Status c)) st3 = (res, st')"
        using a ack Inr f cut e by (simp add: apply_placement_def shrunk_def)
      from publish_reports [OF h this]
      have "reports_of st' = reports_of st @ (Reported (Status q) # filled_reports new @ [Reported (Status c)])"
        using c(2) n(1) q(1) by simp
      moreover have "placement_reports t (Reported (Status q) # filled_reports new @ [Reported (Status c)])"
        by (rule placement_list_cut [OF q(2) _ n(2) c(1) cut(2,3)]) (simp add: q(3))
      ultimately show ?thesis by blast
    qed
  qed
qed

lemma apply_placement_reports:
  assumes h: "reporting_host h" and a: "apply_placement h t adj st = (res, st')"
  shows "\<exists>rs. reports_of st' = reports_of st @ rs \<and> placement_reports t rs"
proof (cases adj)
  case (AdjFilled oid whole)
  then show ?thesis using filled_placement_reports [OF h] a by blast
next
  case (AdjError m)
  then show ?thesis using report_refused_reports [OF h] a by (simp add: apply_placement_def)
next
  case (AdjResting oid)
  then show ?thesis using report_status_shape [OF h, where s = LIVE] a by (simp add: apply_placement_def report_ack_def)
next
  case (AdjRejected r)
  then show ?thesis using report_status_shape [OF h, where s = REJECTED] a by (simp add: apply_placement_def)
qed

text \<open>
  C18. A placement publishes reports of its own order only, each trade once, and ends the cut part
  of a shrunk order CANCELLED only as its last report, for a reduce-only order whose published
  fills add up to less than it asked for.
\<close>

theorem placement_reports_are_sound:
  assumes "reporting_host h" and "hyper_place h po st = (res, st')"
  shows "\<exists>rs. reports_of st' = reports_of st @ rs \<and> placement_reports (po_terms po) rs"
proof (cases "order_wire h (fst st) po")
  case (Inl e)
  have none: "\<exists>rs. reports_of st = reports_of st @ rs \<and> placement_reports (po_terms po) rs"
    by (intro exI [of _ "[]"]) (simp add: placement_reports_def)
  show ?thesis
    using Inl none report_status_shape [OF assms(1), where s = FAILED] assms(2)
    by (cases e) (simp_all add: hyper_place_def)
next
  case (Inr wire)
  obtain r st1 where r: "venue_read (send_action h) (place_action wire) (\<lambda>_. placement_adjudication) st = (r, st1)"
    by (rule prod.exhaust)
  have st1: "reports_of st1 = reports_of st" by (rule read_reports [OF _ r]) (rule send_action_reports [OF assms(1)])
  have none: "\<exists>rs. reports_of st1 = reports_of st1 @ rs \<and> placement_reports (po_terms po) rs"
    by (intro exI [of _ "[]"]) (simp add: placement_reports_def)
  have "\<exists>rs. reports_of st' = reports_of st1 @ rs \<and> placement_reports (po_terms po) rs"
  proof (cases r)
    case (Inl e)
    then show ?thesis using none assms(2) Inr r by (simp add: hyper_place_def)
  next
    case v: (Inr v)
    show ?thesis
    proof (cases v)
      case (Inl failure)
      then show ?thesis
        using none assms(2) Inr r v report_refused_reports [OF assms(1)] by (cases failure) (simp_all add: hyper_place_def)
    next
      case adj: (Inr adj)
      then have "apply_placement h (po_terms po) adj st1 = (res, st')" using assms(2) Inr r v by (simp add: hyper_place_def)
      then show ?thesis by (rule apply_placement_reports [OF assms(1)])
    qed
  qed
  then show ?thesis by (simp only: st1)
qed


section \<open>Reads of an order\<close>

text \<open>A view comes from the record this very read decoded.\<close>

lemma fetch_order_view:
  assumes "hyper_fetch_order h r st = (Inr (Inr v), st')"
  obtains q response found st1 where "post_info h q st = (Inr response, st1)"
    "decode_order_status response = Inr found" "after_status h r found st1 = (Inr (Inr v), st')"
proof -
  obtain x st1 where os: "order_status h r st = (Inr x, st1)"
    and rest: "(case x of Inl failure \<Rightarrow> (Inr (Inl failure), st1) | Inr found \<Rightarrow> after_status h r found st1) = (Inr (Inr v), st')"
    using assms unfolding hyper_fetch_order_def then_do_Inr by blast
  obtain found where x: "x = Inr found" using rest by (cases x) auto
  obtain q where "venue_read (post_info h) q (\<lambda>_. decode_order_status) st = (Inr (Inr found), st1)"
    using os x unfolding order_status_def by (auto split: sum.splits)
  from venue_read_value [OF this] show ?thesis using rest x by (auto intro: that)
qed

lemma unrecorded_view:
  assumes "unrecorded h r st = (Inr (Inr v), st')"
  shows "vv_status v = None"
proof -
  have "v = hyper_view None [] \<or> (\<exists>x :: venue_read_failure + fill_report list. map_sum id (hyper_view None) x = Inr v)"
    using assms unfolding unrecorded_def by (auto simp: then_do_Inr split: option.splits)
  then show ?thesis
  proof
    assume "\<exists>x :: venue_read_failure + fill_report list. map_sum id (hyper_view None) x = Inr v"
    then obtain x :: "venue_read_failure + fill_report list" where "map_sum id (hyper_view None) x = Inr v" ..
    then show ?thesis by (cases x) (auto simp: hyper_view_def)
  qed (simp add: hyper_view_def)
qed

lemma recorded_order_view:
  assumes "recorded_order h r rec seen st = (Inr (Inr v), st')"
  shows "(or_venue_oid r = None \<and> placed_before rec (or_created_ts_ns r) \<and> v = hyper_view None [])
    \<or> (\<exists>fills st1. recorded_view h r rec seen fills st1 = (v, st'))"
proof (cases "or_venue_oid r = None \<and> placed_before rec (or_created_ts_ns r)")
  case True
  then show ?thesis using assms by (simp add: recorded_order_def)
next
  case False
  obtain f st1 where f: "(case f of Inl failure \<Rightarrow> (Inr (Inl failure), st1)
      | Inr fills \<Rightarrow> (case recorded_view h r rec seen fills st1 of (v, st2) \<Rightarrow> (Inr (Inr v), st2)))
        = (Inr (Inr v) :: wire_raise + (venue_read_failure + venue_order_view), st')"
    using assms unfolding recorded_order_def if_not_P [OF False] then_do_Inr by blast
  show ?thesis
  proof (cases f)
    case (Inr fills)
    obtain w st2 where "recorded_view h r rec seen fills st1 = (w, st2)" by (rule prod.exhaust)
    then show ?thesis using f Inr by (intro disjI2 exI [of _ fills] exI [of _ st1]) simp
  qed (use f in simp)
qed

lemma recorded_view_has_status: "recorded_view h r rec seen fills st = (v, st') \<Longrightarrow> vv_status v \<noteq> None"
  by (auto simp: recorded_view_def Let_def hyper_view_def split: if_splits prod.splits bool.splits)

text \<open>
  C19. A read of an order answers that there is no record only on the venue's own word: it
  answered this very read that it knows no such order, or with a record placed before the saga
  was created. An outage or an unreadable body never looks like it.
\<close>

theorem no_record_is_venue_truth:
  assumes "hyper_fetch_order h r st = (Inr (Inr v), st')" and "\<not> has_record v"
  shows "\<exists>query response st1. post_info h query st = (Inr response, st1) \<and>
     (decode_order_status response = Inr None
      \<or> (\<exists>rec. decode_order_status response = Inr (Some rec) \<and> or_venue_oid r = None \<and> placed_before rec (or_created_ts_ns r)))"
proof -
  obtain q response found st1 where body: "post_info h q st = (Inr response, st1)" "decode_order_status response = Inr found"
    and rest: "after_status h r found st1 = (Inr (Inr v), st')" using fetch_order_view [OF assms(1)] .
  show ?thesis
  proof (cases found)
    case None
    then show ?thesis using body by blast
  next
    case (Some rec)
    have "vv_status v = None" using assms(2) by (simp add: has_record_def)
    from recorded_order_view [OF rest [unfolded Some after_status_simps]]
    have "or_venue_oid r = None \<and> placed_before rec (or_created_ts_ns r)"
    proof
      assume "\<exists>fills st2. recorded_view h r rec (map_of (hx_shrunk_fills (fst st1)) (or_cloid r)) fills st2 = (v, st')"
      then show ?thesis using recorded_view_has_status \<open>vv_status v = None\<close> by blast
    qed blast
    then show ?thesis using body Some by blast
  qed
qed

definition ends_cut_part :: "venue_order_view \<Rightarrow> bool" where
  "ends_cut_part v \<longleftrightarrow> (\<exists>q. vv_status v = Some q \<and> sr_reason q = Some ''reduce-only shrink'')"

lemma recorded_view_cut:
  assumes "recorded_view h r rec seen fills st = (v, st')" "ends_cut_part v"
  shows "rc_state rec = FILLED \<and> (\<exists>asked. or_quantity r = Some asked \<and> shrunk (rc_reduce_only rec) asked (fill_total (vv_fills v)))
    \<and> (\<exists>since. seen = Some (fill_total (vv_fills v), since) \<and> hh_shrink_wait_ns h \<le> hh_now h (snd st') - since)"
  using assms
  by (auto simp: recorded_view_def Let_def hyper_view_def ends_cut_part_def hyper_status_def fills_settled_def
      end_cut_part_def forget_shrunk_def split: if_splits prod.splits bool.splits option.splits)



section \<open>Cancels\<close>

abbreviation group_members :: "(string, cancel_group) dict \<Rightarrow> cancel_ref multiset" where
  "group_members g \<equiv> mset (concat (map (\<lambda>(a, xs). map fst xs) g))"

lemma group_members_update:
  "group_members (AList.update a (dget g a [] @ [(r, e)]) g) = add_mset r (group_members g)"
  by (induction g) (auto simp: dget_def)

lemma group_refs_members:
  "group_refs h rs g = Inr g' \<Longrightarrow> group_members g' = group_members g + mset rs"
proof (induction rs arbitrary: g)
  case (Cons r rs)
  then obtain asset action entry where "group_refs h rs (AList.update action (dget g action [] @ [(r, entry)]) g) = Inr g'"
    by (auto simp: bind_sum_eq_Inr split: option.splits)
  then show ?case using Cons.IH group_members_update [of action g r entry] by simp
qed simp

definition group_addressed :: "'w hyper_host \<Rightarrow> string \<times> cancel_group \<Rightarrow> bool" where
  "group_addressed h b \<longleftrightarrow> (\<forall>x \<in> set (snd b). \<exists>asset.
     map_of (un_asset_indices (hh_universe h)) (cancel_ref_symbol (fst x)) = Some asset
     \<and> cancel_entry (fst x) asset = Inr (fst b, snd x))"

lemma update_subset: "set (AList.update a (snd (a', v)) g) \<subseteq> insert (a, v) (set g)"
  by (induction g) auto

lemma group_refs_addressed:
  "group_refs h rs g = Inr g' \<Longrightarrow> \<forall>b \<in> set g. group_addressed h b \<Longrightarrow> \<forall>b \<in> set g'. group_addressed h b"
proof (induction rs arbitrary: g)
  case (Cons r rs)
  then obtain asset action entry where
    a: "map_of (un_asset_indices (hh_universe h)) (cancel_ref_symbol r) = Some asset" "cancel_entry r asset = Inr (action, entry)"
    and step: "group_refs h rs (AList.update action (dget g action [] @ [(r, entry)]) g) = Inr g'"
    by (auto simp: bind_sum_eq_Inr split: option.splits)
  let ?b = "(action, dget g action [] @ [(r, entry)])"
  have "group_addressed h (action, dget g action [])"
  proof (cases "map_of g action")
    case (Some xs)
    then show ?thesis using Cons.prems(2) by (auto simp: dget_def dest: map_of_SomeD)
  qed (simp add: dget_def group_addressed_def)
  then have "group_addressed h ?b" using a by (auto simp: group_addressed_def)
  moreover have "set (AList.update action (snd ?b) g) \<subseteq> insert ?b (set g)" using update_subset [of action action] by simp
  ultimately have "\<forall>b \<in> set (AList.update action (snd ?b) g). group_addressed h b" using Cons.prems(2) by blast
  then show ?case using Cons.IH [OF step] by simp
qed simp

lemma chunks_concat: "0 < n \<Longrightarrow> concat (chunks n xs) = xs"
  by (induction n xs rule: chunks.induct) (simp_all add: chunks.simps(2))

lemma chunks_small: "c \<in> set (chunks n xs) \<Longrightarrow> length c \<le> n \<and> set c \<subseteq> set xs"
proof (induction n xs rule: chunks.induct)
  case (2 n x xs)
  show ?case
  proof (cases "c = take n (x # xs)")
    case False
    then have "n \<noteq> 0" "c \<in> set (chunks n (drop n (x # xs)))" using "2.prems" by (auto simp: chunks.simps(2) split: if_splits)
    then show ?thesis using "2.IH" set_drop_subset [of n "x # xs"] by blast
  qed (use set_take_subset [of n "x # xs"] in simp)
qed simp

lemma batches_members: "group_members (batches_of g) = group_members g"
proof (induction g)
  case (Cons b g)
  obtain a xs where b: "b = (a, xs)" by (rule prod.exhaust)
  have "concat (map (map fst) cs) = map fst (concat cs)" for cs :: "cancel_group list"
    by (simp add: map_concat)
  then have "group_members (map (Pair a) (chunks CANCEL_BATCH_LIMIT xs)) = mset (map fst xs)"
    by (simp add: comp_def chunks_concat CANCEL_BATCH_LIMIT_def)
  then show ?case using Cons.IH by (simp add: batches_of_def b)
qed (simp add: batches_of_def)


section \<open>A venue that shrank an order\<close>

definition shrunk_answer :: "json \<Rightarrow> json" where
  "shrunk_answer q = (case sub q ''type'' of
     Some (JStr t) \<Rightarrow>
       if t = ''orderStatus'' then JObj [(''status'', JStr ''order''), (''order'', JObj [(''status'', JStr ''filled''),
         (''order'', JObj [(''coin'', JStr ''BTC''), (''oid'', JInt 7), (''timestamp'', JInt 2), (''reduceOnly'', JBool True)])])]
       else JList [JObj [(''oid'', JInt 7), (''time'', JInt 2), (''tid'', JInt 5), (''sz'', JStr ''1''), (''px'', JStr ''100''),
         (''fee'', JStr ''0''), (''feeToken'', JStr ''USDC'')]]
   | _ \<Rightarrow> JObj [(''status'', JStr ''ok''), (''response'', JObj [(''data'', JObj [(''statuses'',
       JList [JObj [(''filled'', JObj [(''oid'', JInt 7), (''totalSz'', JStr ''1'')])]])])])])"

definition reply_venue :: "(json \<Rightarrow> json) \<Rightarrow> (venue_report list \<times> unit) hyper_host" where
  "reply_venue answer = \<lparr>hh_config = \<lparr>hc_testnet = True, hc_symbols = [], hc_signing_key = None, hc_account_address = None,
       hc_slippage_bound = 5 / 100, hc_reconnect_initial = 1, hc_reconnect_max = 60\<rparr>,
     hh_universe = \<lparr>un_specs = [(''BTC'', demo_spec)], un_asset_indices = [(''BTC'', 0)]\<rparr>, hh_leverage = [],
     hh_address = ''0x'', hh_shrink_wait_ns = 1, hh_startup_timeout = 1, hh_sign = (\<lambda>a n m. JNull),
     hh_now = (\<lambda>w. 5), hh_post = (\<lambda>url q st. (Inr (answer q), st)),
     hh_publish = (\<lambda>r (hx, rs, v). (Inr (), hx, rs @ [r], v)), hh_sleep = (\<lambda>d st. st)\<rparr>"

definition demo_terms :: order_terms where
  "demo_terms = \<lparr>ot_cloid = ''c1'', ot_symbol = ''BTC'', ot_side = BUY, ot_quantity = 2, ot_time_in_force = IOC,
     ot_post_only = False, ot_reduce_only = True\<rparr>"

definition demo_ref :: order_ref where
  "demo_ref = \<lparr>or_cloid = ''c1'', or_symbol = ''BTC'', or_venue_oid = None, or_acked_ts_ns = None, or_created_ts_ns = None, or_quantity = Some 2\<rparr>"

definition demo_prices :: hyper where
  "demo_prices = make_hyper\<lparr>hx_latest_price := [(''BTC'', 100)], hx_latest_mark := [(''BTC'', 80)]\<rparr>"

definition demo_shrunk :: hyper where
  "demo_shrunk = make_hyper\<lparr>hx_shrunk_fills := [(''c1'', (1, 4))]\<rparr>"

lemma reply_venue_reports: "reporting_host (reply_venue answer)"
  by (simp add: reporting_host_def reply_venue_def split_beta)

theorem market_price_within_bounds_witness:
  "\<exists>wire p. order_wire (reply_venue shrunk_answer) demo_prices (MarketOrder demo_terms) = Inr wire \<and> figure_at wire ''p'' = Inr p
     \<and> no_worse BUY p (dmul 100 (slippage_factor (reply_venue shrunk_answer) BUY)) \<and> no_worse BUY p (dmul 80 (slippage_factor (reply_venue shrunk_answer) BUY))"
proof -
  obtain wire where w: "order_wire (reply_venue shrunk_answer) demo_prices (MarketOrder demo_terms) = Inr wire"
  proof -
    have "(case order_wire (reply_venue shrunk_answer) demo_prices (MarketOrder demo_terms) of Inr _ \<Rightarrow> True | Inl _ \<Rightarrow> False)" by code_simp
    then show thesis using that by (auto split: sum.splits)
  qed
  have "map_of (hx_latest_price demo_prices) (ot_symbol demo_terms) = Some 100"
    "map_of (hx_latest_mark demo_prices) (ot_symbol demo_terms) = Some 80" "ot_side demo_terms = BUY"
    by (simp_all add: demo_prices_def demo_terms_def)
  then show ?thesis using market_price_within_bounds [OF w, of 100 80] w
    by (simp add: reply_venue_def demo_spec_def)
qed

theorem placement_reports_are_sound_witness:
  "\<exists>rs. fst (snd (snd (hyper_place (reply_venue shrunk_answer) (LimitOrder demo_terms 100) (make_hyper, [], ())))) = rs
     \<and> length rs = 3 \<and> placement_reports demo_terms rs"
proof -
  obtain res st' where r: "hyper_place (reply_venue shrunk_answer) (LimitOrder demo_terms 100) (make_hyper, [], ()) = (res, st')"
    by (rule prod.exhaust)
  have "length (fst (snd (snd (hyper_place (reply_venue shrunk_answer) (LimitOrder demo_terms 100) (make_hyper, [], ()))))) = 3"
    by code_simp
  then show ?thesis using placement_reports_are_sound [OF reply_venue_reports r] r by simp
qed

theorem no_record_is_venue_truth_witness:
  "\<exists>query response st1. post_info (reply_venue (\<lambda>q. JObj [(''status'', JStr ''unknownOid'')])) query (make_hyper, [], ()) = (Inr response, st1)
     \<and> decode_order_status response = Inr None"
proof -
  let ?h = "reply_venue (\<lambda>q. JObj [(''status'', JStr ''unknownOid'')])"
  have "hyper_fetch_order ?h demo_ref (make_hyper, [], ()) = (Inr (Inr (hyper_view None [])), (make_hyper, [], ()))" by code_simp
  from no_record_is_venue_truth [OF this] show ?thesis
    by (auto simp: has_record_def hyper_view_def demo_ref_def post_info_def reply_venue_def placed_before_def)
qed



end
