(* ===== verification/TW_Feed.thy ===== *)
theory TW_Feed
  imports TW_Hyper
begin

text \<open>
  How market data and funding payments enter the process: \<open>src/src/tickwright/venues/hyperliquid/\<close>
  \<open>ingress.py\<close>, \<open>feed.py\<close>, \<open>funding.py\<close> and \<open>session.py\<close>, and the replay feed of
  \<open>adapters/feed/replay.py\<close>. A frame is the value \<open>json.loads\<close> makes of it, \<open>None\<close>
  where it is not JSON. Every await may change the whole state, so a host function maps the state
  of the component and the world beside it. Loops that only a stop or an end of input can end
  take the number of rounds and answer whether they are still running.
\<close>

section \<open>Ticks\<close>

datatype aggressor_side = AggressorBuy | AggressorSell

record trade_tick =
  tt_symbol :: string
  tt_price :: decimal
  tt_size :: decimal
  tt_aggressor :: aggressor_side
  tt_trade_id :: string
  tt_seq :: int
  tt_venue_trade_id :: bool
  tt_ts_event :: int
  tt_ts_init :: int

definition tick_event_id :: "trade_tick \<Rightarrow> string" where
  "tick_event_id t =
     (if tt_venue_trade_id t then tt_symbol t @ '':'' @ tt_trade_id t
      else tt_symbol t @ '':'' @ show_int (tt_ts_event t) @ '':'' @ show_int (tt_seq t))"

definition mark_event_id :: "mark_tick \<Rightarrow> string" where
  "mark_event_id m = (case mt_seq m of
     None \<Rightarrow> mt_symbol m @ '':'' @ show_int (mt_ts_event m)
   | Some n \<Rightarrow> mt_symbol m @ '':'' @ show_int (mt_ts_event m) @ '':'' @ show_int n)"

datatype market_data = Trade trade_tick | Mark mark_tick

text \<open>The pair of an event's class and its symbol.\<close>

datatype stream_key = TradeStream string | MarkStream string

definition data_key :: "market_data \<Rightarrow> stream_key" where
  "data_key e = (case e of Trade t \<Rightarrow> TradeStream (tt_symbol t) | Mark m \<Rightarrow> MarkStream (mt_symbol m))"

section \<open>The conflating ingress\<close>

record ingress =
  ig_pending :: "(stream_key, market_data) dict"
  ig_closed :: bool

definition make_ingress :: ingress where
  "make_ingress = \<lparr>ig_pending = [], ig_closed = False\<rparr>"

definition offer :: "market_data \<Rightarrow> ingress \<Rightarrow> ingress" where
  "offer e ig = ig\<lparr>ig_pending := AList.delete (data_key e) (ig_pending ig) @ [(data_key e, e)]\<rparr>"

definition close_ingress :: "ingress \<Rightarrow> ingress" where
  "close_ingress ig = ig\<lparr>ig_closed := True\<rparr>"

text \<open>
  Both awaits of \<open>drain\<close>: the publish of one event, and the wait for the next offer or the close.
\<close>

record 'w ingress_host =
  gh_publish :: "market_data \<Rightarrow> ingress \<times> 'w \<Rightarrow> (exc + unit) \<times> (ingress \<times> 'w)"
  gh_wait :: "ingress \<times> 'w \<Rightarrow> ingress \<times> 'w"

partial_function (option) drain ::
  "'w ingress_host \<Rightarrow> ingress \<times> 'w \<Rightarrow> ((exc + unit) \<times> (ingress \<times> 'w)) option" where
  "drain h st = (case ig_pending (fst st) of
     [] \<Rightarrow> if ig_closed (fst st) then Some (Inr (), st) else drain h (gh_wait h st)
   | x # rest \<Rightarrow> (case gh_publish h (snd x) ((fst st)\<lparr>ig_pending := rest\<rparr>, snd st) of
       (Inl e, st1) \<Rightarrow> Some (Inl e, st1)
     | (Inr _, st1) \<Rightarrow> drain h st1))"

section \<open>Parsing the feed\<close>

record feed =
  fd_symbols :: "string list"
  fd_seq_by_symbol :: "(string, int) dict"

definition make_feed :: "hyper_config \<Rightarrow> feed" where
  "make_feed c = \<lparr>fd_symbols = hc_symbols c, fd_seq_by_symbol = []\<rparr>"

definition add_symbols :: "string list \<Rightarrow> feed \<Rightarrow> feed" where
  "add_symbols symbols fd = fold (\<lambda>s f. if s \<in> set (fd_symbols f) then f
     else f\<lparr>fd_symbols := fd_symbols f @ [s]\<rparr>) symbols fd"

definition feed_subscriptions :: "feed \<Rightarrow> json list" where
  "feed_subscriptions fd = concat (map (\<lambda>s. map (\<lambda>channel. JObj [(''method'', JStr ''subscribe''),
     (''subscription'', JObj [(''type'', JStr channel), (''coin'', JStr s)])]) [''trades'', ''activeAssetCtx'']) (fd_symbols fd))"

definition next_seq :: "(string, int) dict \<Rightarrow> string \<Rightarrow> int \<times> (string, int) dict" where
  "next_seq seqs symbol = (dget seqs symbol 0, AList.update symbol (dget seqs symbol 0 + 1) seqs)"

definition tick_of_row :: "int \<Rightarrow> string \<Rightarrow> int \<Rightarrow> json \<Rightarrow> trade_tick body" where
  "tick_of_row now symbol n row =
     bind_sum (figure_at row ''px'') (\<lambda>px.
     bind_sum (figure_at row ''sz'') (\<lambda>sz.
     bind_sum (key row ''side'') (\<lambda>sd.
     bind_sum (key row ''tid'') (\<lambda>tid.
     bind_sum (key row ''time'') (\<lambda>t.
       case read_int (py_str t) of
         None \<Rightarrow> Inl UNREADABLE
       | Some time \<Rightarrow> Inr \<lparr>tt_symbol = symbol, tt_price = px, tt_size = sz,
           tt_aggressor = (if sd = JStr ''B'' then AggressorBuy else AggressorSell), tt_trade_id = py_str tid, tt_seq = n,
           tt_venue_trade_id = True, tt_ts_event = time * NS_PER_MS, tt_ts_init = now\<rparr>)))))"

definition to_tick :: "int \<Rightarrow> json \<Rightarrow> feed \<Rightarrow> trade_tick body \<times> feed" where
  "to_tick now row fd = (case key row ''coin'' of
     Inl e \<Rightarrow> (Inl e, fd)
   | Inr coin \<Rightarrow> (case next_seq (fd_seq_by_symbol fd) (py_str coin) of
       (n, seqs) \<Rightarrow> (tick_of_row now (py_str coin) n row, fd\<lparr>fd_seq_by_symbol := seqs\<rparr>)))"

fun to_ticks :: "int \<Rightarrow> json list \<Rightarrow> feed \<Rightarrow> market_data list \<times> feed" where
  "to_ticks now [] fd = ([], fd)"
| "to_ticks now (row # rows) fd = (case to_tick now row fd of (r, fd1) \<Rightarrow>
     (case to_ticks now rows fd1 of (ts, fd2) \<Rightarrow>
        ((case r of Inl e \<Rightarrow> ts | Inr t \<Rightarrow> Trade t # ts), fd2)))"

definition parse_mark :: "int \<Rightarrow> json \<Rightarrow> market_data list" where
  "parse_mark now data =
     (case bind_sum (key data ''coin'') (\<lambda>coin. bind_sum (key data ''ctx'') (\<lambda>ctx.
             bind_sum (figure_at ctx ''markPx'') (\<lambda>price. Inr (py_str coin, price)))) of
        Inl e \<Rightarrow> []
      | Inr (symbol, price) \<Rightarrow>
          [Mark \<lparr>mt_ts_event = now, mt_ts_init = now, mt_symbol = symbol, mt_price = price, mt_seq = None\<rparr>])"

definition field :: "json \<Rightarrow> string \<Rightarrow> json" where
  "field message k = (case sub message k of Some v \<Rightarrow> v | None \<Rightarrow> JNull)"

definition parse_frame :: "int \<Rightarrow> json option \<Rightarrow> feed \<Rightarrow> market_data list \<times> feed" where
  "parse_frame now frame fd = (case frame of
     None \<Rightarrow> ([], fd)
   | Some message \<Rightarrow>
       if \<not> is_mapping message then ([], fd)
       else if field message ''channel'' = JStr ''activeAssetCtx'' then (parse_mark now (field message ''data''), fd)
       else if field message ''channel'' \<noteq> JStr ''trades'' then ([], fd)
       else (case field message ''data'' of JList rows \<Rightarrow> to_ticks now rows fd | _ \<Rightarrow> ([], fd)))"

section \<open>Funding payments\<close>

definition payment_settled_in_usdc :: "json \<Rightarrow> decimal body" where
  "payment_settled_in_usdc rec = bind_sum (has rec ''usdc'') (\<lambda>there.
     if \<not> there then refuse_non_usdc else figure_at rec ''usdc'')"

text \<open>A coin that is not a string is outside the model: the engine's symbols are strings.\<close>

definition accrual_of :: "string \<Rightarrow> json \<Rightarrow> funding_accrual body" where
  "accrual_of account_id rec =
     bind_sum (key rec ''time'') (\<lambda>t. bind_sum (py_int t) (\<lambda>ms.
     bind_sum (key rec ''coin'') (\<lambda>coin.
     bind_sum (payment_settled_in_usdc rec) (\<lambda>amount.
       Inr \<lparr>fa_ts_event = ms * NS_PER_MS, fa_account_id = account_id, fa_symbol = py_str coin,
            fa_boundary_ts_ns = ms * NS_PER_MS, fa_amount = amount\<rparr>))))"

definition record_time :: "json \<Rightarrow> int body" where
  "record_time rec = bind_sum (key rec ''time'') py_int"

definition accruals :: "string \<Rightarrow> json list \<Rightarrow> funding_accrual list body" where
  "accruals account_id fundings =
     (case bind_sum (traverse_sum record_time fundings) (\<lambda>times.
             traverse_sum (accrual_of account_id) (map snd (sort_key fst (zip times fundings)))) of
        Inl UNREADABLE \<Rightarrow> Inl BAD_DELIVERY
      | r \<Rightarrow> r)"

definition parse_delivery :: "string \<Rightarrow> json option \<Rightarrow> funding_accrual list body" where
  "parse_delivery account_id frame = (case frame of
     None \<Rightarrow> Inl BAD_DELIVERY
   | Some message \<Rightarrow>
       if \<not> is_mapping message then Inl BAD_DELIVERY
       else if field message ''channel'' \<noteq> JStr ''userFundings'' then Inr []
       else (case sub (field message ''data'') ''fundings'' of
               Some (JList fundings) \<Rightarrow> accruals account_id fundings
             | _ \<Rightarrow> Inl BAD_DELIVERY))"

definition funding_subscription :: "string \<Rightarrow> json" where
  "funding_subscription address = JObj [(''method'', JStr ''subscribe''),
     (''subscription'', JObj [(''type'', JStr ''userFundings''), (''user'', JStr address)])]"

section \<open>The websocket session\<close>

record session =
  ws_connection :: "nat option"
  ws_opened :: "nat option"
  ws_stopping :: bool

definition make_session :: session where
  "make_session = \<lparr>ws_connection = None, ws_opened = None, ws_stopping = False\<rparr>"

datatype ws_fault = OsError | OtherRaise | NotStarted

record 'w session_host =
  wh_config :: hyper_config
  wh_connect :: "string \<Rightarrow> session \<times> 'w \<Rightarrow> (ws_fault + nat) \<times> (session \<times> 'w)"
  wh_subscribe :: "nat \<Rightarrow> session \<times> 'w \<Rightarrow> (ws_fault + unit) \<times> (session \<times> 'w)"
  wh_consume :: "nat \<Rightarrow> session \<times> 'w \<Rightarrow> (ws_fault + unit) \<times> (session \<times> 'w)"
  wh_close :: "nat \<Rightarrow> session \<times> 'w \<Rightarrow> session \<times> 'w"
  wh_clock :: "(session \<times> 'w) clock"

abbreviation with_session :: "(session \<Rightarrow> session) \<Rightarrow> session \<times> 'w \<Rightarrow> session \<times> 'w" where
  "with_session f st \<equiv> (f (fst st), snd st)"

definition session_start :: "'w session_host \<Rightarrow> session \<times> 'w \<Rightarrow> (ws_fault + unit) \<times> (session \<times> 'w)" where
  "session_start h st = (case wh_connect h (ws_url (wh_config h)) st of
     (Inl e, st1) \<Rightarrow> (Inl e, st1)
   | (Inr c, st1) \<Rightarrow>
       (case wh_subscribe h c (with_session (ws_connection_update (\<lambda>_. Some c)) st1) of
          (Inl e, st2) \<Rightarrow> (Inl e, wh_close h c (with_session (ws_connection_update (\<lambda>_. None)) st2))
        | (Inr _, st2) \<Rightarrow> (Inr (), with_session (ws_opened_update (\<lambda>_. Some c)) st2)))"

datatype ws_end = WsStopped | WsRaised ws_fault

text \<open>The socket a turn of the loop consumes: the boot's, or one of its own.\<close>

definition take_socket :: "'w session_host \<Rightarrow> session \<times> 'w \<Rightarrow> (ws_fault + nat option) \<times> (session \<times> 'w)" where
  "take_socket h st = (case ws_opened (fst st) of
     Some c \<Rightarrow> (Inr (Some c), with_session (ws_opened_update (\<lambda>_. None)) st)
   | None \<Rightarrow> (case wh_connect h (ws_url (wh_config h)) st of
       (Inl OsError, st1) \<Rightarrow> (Inr None, st1)
     | (Inl e, st1) \<Rightarrow> (Inl e, st1)
     | (Inr c, st1) \<Rightarrow>
         (case wh_subscribe h c (with_session (ws_connection_update (\<lambda>_. Some c)) st1) of
            (Inl e, st2) \<Rightarrow> (Inl e, st2)
          | (Inr _, st2) \<Rightarrow> (Inr (Some c), st2))))"

fun session_loop ::
  "nat \<Rightarrow> 'w session_host \<Rightarrow> backoff \<Rightarrow> session \<times> 'w \<Rightarrow> ws_end option \<times> (session \<times> 'w)" where
  "session_loop 0 h b st = (None, st)"
| "session_loop (Suc n) h b st =
     (if ws_stopping (fst st) then (Some WsStopped, st)
      else (case take_socket h st of
        (Inl e, st1) \<Rightarrow> (Some (WsRaised e), st1)
      | (Inr None, st1) \<Rightarrow> (case sleep_on (wh_clock h) b st1 of (b', st2) \<Rightarrow> session_loop n h b' st2)
      | (Inr (Some c), st1) \<Rightarrow>
          (case wh_consume h c st1 of
             (Inl e, st2) \<Rightarrow> (Some (WsRaised e), st2)
           | (Inr _, st2) \<Rightarrow>
               if ws_stopping (fst st2) then (Some WsStopped, st2)
               else (case sleep_on (wh_clock h) (reset_backoff b) st2 of (b', st3) \<Rightarrow> session_loop n h b' st3))))"

definition session_run :: "nat \<Rightarrow> 'w session_host \<Rightarrow> session \<times> 'w \<Rightarrow> ws_end option \<times> (session \<times> 'w)" where
  "session_run n h st =
     (if ws_opened (fst st) = None \<and> \<not> ws_stopping (fst st) then (Some (WsRaised NotStarted), st)
      else session_loop n h (make_backoff (hc_reconnect_initial (wh_config h)) (hc_reconnect_max (wh_config h))) st)"

definition session_stop :: "'w session_host \<Rightarrow> session \<times> 'w \<Rightarrow> session \<times> 'w" where
  "session_stop h st = (let st1 = with_session (ws_stopping_update (\<lambda>_. True)) st
     in case ws_connection (fst st1) of Some c \<Rightarrow> wh_close h c st1 | None \<Rightarrow> st1)"

text \<open>
  The boot's dial of the payments channel is retried while the venue is unreachable, on the boot's
  own deadline; a running ingest publishes every payment of every frame in turn.
\<close>

datatype ingest_fault = BadDelivery body_fault | PublishRaised exc | Unreachable | SocketRaised ws_fault

definition funding_start ::
  "nat \<Rightarrow> 'w session_host \<Rightarrow> deadline \<Rightarrow> session \<times> 'w \<Rightarrow> ((ingest_fault + unit) \<times> (session \<times> 'w)) option" where
  "funding_start n h d st = until_deadline n (wh_clock h) d Unreachable
     (\<lambda>st'. case session_start h st' of
        (Inl OsError, st1) \<Rightarrow> (Inl Transient, st1)
      | (Inl e, st1) \<Rightarrow> (Inl (Leaves (SocketRaised e)), st1)
      | (Inr _, st1) \<Rightarrow> (Inr (), st1)) st"

fun publish_all :: "(funding_accrual \<Rightarrow> 'w \<Rightarrow> (exc + unit) \<times> 'w) \<Rightarrow> funding_accrual list \<Rightarrow> 'w \<Rightarrow> (ingest_fault + unit) \<times> 'w" where
  "publish_all pub [] w = (Inr (), w)"
| "publish_all pub (a # as) w = (case pub a w of
     (Inl e, w1) \<Rightarrow> (Inl (PublishRaised e), w1) | (Inr _, w1) \<Rightarrow> publish_all pub as w1)"

fun read_funding ::
  "(funding_accrual \<Rightarrow> 'w \<Rightarrow> (exc + unit) \<times> 'w) \<Rightarrow> string \<Rightarrow> json option list \<Rightarrow> 'w \<Rightarrow> (ingest_fault + unit) \<times> 'w" where
  "read_funding pub account_id [] w = (Inr (), w)"
| "read_funding pub account_id (frame # frames) w = (case parse_delivery account_id frame of
     Inl e \<Rightarrow> (Inl (BadDelivery e), w)
   | Inr accs \<Rightarrow> (case publish_all pub accs w of
       (Inl e, w1) \<Rightarrow> (Inl e, w1) | (Inr _, w1) \<Rightarrow> read_funding pub account_id frames w1))"

section \<open>The replay feed\<close>

text \<open>
  A row is the JSON value of a line of the file. The clock only moves forward
  (\<open>ReplayClock.advance_to\<close>), and what it answers for a time behind it is an error. A row whose
  symbol is not a string is outside the model and counts as unreadable.
\<close>

record 'w replay_host =
  rh_advance :: "int \<Rightarrow> 'w \<Rightarrow> 'w body"
  rh_now :: "'w \<Rightarrow> int"
  rh_yield :: "'w \<Rightarrow> 'w"
  rh_publish :: "market_data \<Rightarrow> 'w \<Rightarrow> 'w body"

definition replay_mark :: "trade_tick \<Rightarrow> mark_tick" where
  "replay_mark t = \<lparr>mt_ts_event = tt_ts_event t, mt_ts_init = tt_ts_init t, mt_symbol = tt_symbol t,
     mt_price = tt_price t, mt_seq = Some (tt_seq t)\<rparr>"

definition decimal_of_text :: "json \<Rightarrow> decimal body" where
  "decimal_of_text j = (case read_decimal (py_str j) of Some d \<Rightarrow> exact_figure d | None \<Rightarrow> Inl UNREADABLE)"

definition aggressor_of :: "json \<Rightarrow> aggressor_side body" where
  "aggressor_of j = (if j = JStr ''buy'' then Inr AggressorBuy else if j = JStr ''sell'' then Inr AggressorSell
     else Inl UNREADABLE)"

definition replay_tick ::
  "'w replay_host \<Rightarrow> json \<Rightarrow> (string, int) dict \<times> 'w \<Rightarrow> (trade_tick \<times> (string, int) dict \<times> 'w) body" where
  "replay_tick h row st =
     bind_sum (key row ''symbol'') (\<lambda>s. case s of
       JStr symbol \<Rightarrow>
     bind_sum (bind_sum (key row ''ts_event'') py_int) (\<lambda>ts.
     bind_sum (rh_advance h ts (snd st)) (\<lambda>w.
     case next_seq (fst st) symbol of (n, seqs) \<Rightarrow>
     bind_sum (bind_sum (key row ''price'') decimal_of_text) (\<lambda>px.
     bind_sum (bind_sum (key row ''size'') decimal_of_text) (\<lambda>sz.
     bind_sum (bind_sum (key row ''aggressor_side'') aggressor_of) (\<lambda>ag.
     bind_sum (key row ''trade_id'') (\<lambda>tid.
       Inr (\<lparr>tt_symbol = symbol, tt_price = px, tt_size = sz, tt_aggressor = ag, tt_trade_id = py_str tid,
             tt_seq = n, tt_venue_trade_id = False, tt_ts_event = ts, tt_ts_init = rh_now h w\<rparr>, seqs, w)))))))
     | _ \<Rightarrow> Inl UNREADABLE)"

fun replay_run :: "'w replay_host \<Rightarrow> json list \<Rightarrow> (string, int) dict \<times> 'w \<Rightarrow> ((string, int) dict \<times> 'w) body" where
  "replay_run h [] st = Inr st"
| "replay_run h (row # rows) st =
     bind_sum (replay_tick h row st) (\<lambda>(tick, seqs, w).
     bind_sum (rh_publish h (Mark (replay_mark tick)) (rh_yield h w)) (\<lambda>w1.
     bind_sum (rh_publish h (Trade tick) w1) (\<lambda>w2. replay_run h rows (seqs, w2))))"

end
