(* ===== verification/TW_Feed_Runs.thy ===== *)
theory TW_Feed_Runs
  imports TW_Feed "HOL-Library.Sublist" "HOL-Library.Multiset"
begin

text \<open>
  What enters the process enters in order and whole: the conflating ingress delivers the latest
  event of every stream, a funding delivery is booked whole or refused, a lost socket is redialled
  at a bounded pace, and the source numbers of a feed's ticks rise.
\<close>

section \<open>The conflating ingress\<close>

text \<open>The world keeps the events offered and the events published.\<close>

type_synonym 'v ingress_world = "ingress \<times> market_data list \<times> market_data list \<times> 'v"

inductive reader_moves :: "'v ingress_world \<Rightarrow> 'v ingress_world \<Rightarrow> bool" where
  reader_offers: "reader_moves (ig, os, ps, v) (offer e ig, os @ [e], ps, v')"
| reader_closes: "reader_moves (ig, os, ps, v) (close_ingress ig, os, ps, v')"
| reader_idles: "reader_moves (ig, os, ps, v) (ig, os, ps, v')"

definition reading_host :: "(market_data list \<times> market_data list \<times> 'v) ingress_host \<Rightarrow> bool" where
  "reading_host h \<longleftrightarrow>
     (\<forall>e ig os ps v. reader_moves\<^sup>*\<^sup>* (ig, os, ps @ [e], v) (snd (gh_publish h e (ig, os, ps, v))))
     \<and> (\<forall>st. reader_moves\<^sup>*\<^sup>* st (gh_wait h st))"

text \<open>The reader has finitely many moves left, and only a move of it ends the wait of an open ingress.\<close>

definition reader_ends :: "'w ingress_host \<Rightarrow> (ingress \<times> 'w \<Rightarrow> nat) \<Rightarrow> bool" where
  "reader_ends h left \<longleftrightarrow>
     (\<forall>e ig rest w. ig_pending ig = rest \<longrightarrow>
        left (snd (gh_publish h e (ig, w))) < left (ig, w)
        \<or> left (snd (gh_publish h e (ig, w))) = left (ig, w) \<and> fst (snd (gh_publish h e (ig, w))) = ig)
     \<and> (\<forall>st. \<not> ig_closed (fst st) \<longrightarrow> left (gh_wait h st) < left st)
     \<and> (\<forall>ig p w. left (ig\<lparr>ig_pending := p\<rparr>, w) = left (ig, w))"

definition of_key :: "stream_key \<Rightarrow> market_data list \<Rightarrow> market_data list" where
  "of_key k es = filter (\<lambda>e. data_key e = k) es"

definition waiting_at :: "ingress \<Rightarrow> stream_key \<Rightarrow> market_data list" where
  "waiting_at ig k = (case map_of (ig_pending ig) k of Some e \<Rightarrow> [e] | None \<Rightarrow> [])"

definition delivers_key :: "stream_key \<Rightarrow> market_data list \<Rightarrow> market_data list \<Rightarrow> bool" where
  "delivers_key k out os \<longleftrightarrow> subseq out (of_key k os) \<and> (of_key k os \<noteq> [] \<longrightarrow> out \<noteq> [] \<and> last out = last (of_key k os))"

definition ingress_ok :: "'v ingress_world \<Rightarrow> bool" where
  "ingress_ok st \<longleftrightarrow> (case st of (ig, os, ps, v) \<Rightarrow>
     dict_ok (ig_pending ig) \<and> (\<forall>(k, e) \<in> set (ig_pending ig). k = data_key e)
     \<and> (\<forall>k. delivers_key k (of_key k ps @ waiting_at ig k) os))"

lemma of_key_simps [simp]:
  "of_key k [] = []" "of_key k (es @ es') = of_key k es @ of_key k es'" "of_key k [e] = (if data_key e = k then [e] else [])"
  by (simp_all add: of_key_def)

lemma ingress_okD:
  assumes "ingress_ok (ig, os, ps, v)"
  shows "dict_ok (ig_pending ig)" "\<forall>(k, x) \<in> set (ig_pending ig). k = data_key x"
    "delivers_key k (of_key k ps @ waiting_at ig k) os"
  using assms by (simp_all add: ingress_ok_def)

lemma ingress_okI:
  assumes "dict_ok (ig_pending ig)" "\<forall>(k, x) \<in> set (ig_pending ig). k = data_key x"
    "\<And>k. delivers_key k (of_key k ps @ waiting_at ig k) os"
  shows "ingress_ok (ig, os, ps, v)"
  using assms by (simp add: ingress_ok_def)

lemma delivers_keyD:
  assumes "delivers_key k (out @ w) os"
  shows "subseq out (of_key k os)"
proof -
  have "subseq out (out @ w)" by (metis append_Nil2 list_emb_Nil subseq_order.refl list_emb_append_mono)
  then show ?thesis using assms subseq_order.trans unfolding delivers_key_def by blast
qed

lemma offer_ok:
  assumes "ingress_ok (ig, os, ps, v)"
  shows "ingress_ok (offer e ig, os @ [e], ps, v')"
proof -
  have keys: "dict_ok (ig_pending ig)" "\<forall>(k, x) \<in> set (ig_pending ig). k = data_key x"
    and out: "\<And>k. delivers_key k (of_key k ps @ waiting_at ig k) os" using ingress_okD [OF assms] by blast+
  have "dict_ok (ig_pending (offer e ig))" 
    using keys(1) by (auto simp: offer_def dict_ok_def delete_keys distinct_removeAll)
  moreover have "\<forall>(k, x) \<in> set (ig_pending (offer e ig)). k = data_key x"
    using keys(2) by (auto simp: offer_def AList.delete_eq)
  moreover have "delivers_key k (of_key k ps @ waiting_at (offer e ig) k) (os @ [e])" for k
  proof (cases "data_key e = k")
    case True
    have "waiting_at (offer e ig) k = [e]"
      using True by (simp add: waiting_at_def offer_def map_add_def delete_conv')
    moreover have "subseq (of_key k ps) (of_key k os)"
      by (rule delivers_keyD [OF out])
    ultimately show ?thesis using True by (simp add: delivers_key_def)
  next
    case False
    then have "waiting_at (offer e ig) k = waiting_at ig k"
      by (auto simp: waiting_at_def offer_def map_add_def delete_conv' split: option.splits)
    then show ?thesis using False out [of k] by (simp add: delivers_key_def)
  qed
  ultimately show ?thesis by (rule ingress_okI)
qed

lemma moves_ok: "reader_moves\<^sup>*\<^sup>* st st' \<Longrightarrow> ingress_ok st \<Longrightarrow> ingress_ok st'"
proof (induction rule: rtranclp_induct)
  case (step b c)
  from step.hyps(2) show ?case
  proof cases
    case (reader_offers ig os ps v e v')
    then show ?thesis using step.IH [OF step.prems] offer_ok by simp
  qed (use step.IH [OF step.prems] in \<open>simp_all add: ingress_ok_def close_ingress_def waiting_at_def\<close>)
qed

lemma take_ok:
  assumes "ingress_ok (ig, os, ps, v)" "ig_pending ig = (k, e) # rest"
  shows "ingress_ok (ig\<lparr>ig_pending := rest\<rparr>, os, ps @ [e], v)"
proof -
  have keys: "dict_ok ((k, e) # rest)" "\<forall>(k, x) \<in> set (ig_pending ig). k = data_key x"
    and out: "\<And>k. delivers_key k (of_key k ps @ waiting_at ig k) os" using ingress_okD [OF assms(1)] assms(2) by auto
  have k: "data_key e = k" using keys(2) assms(2) by simp
  have fresh: "map_of rest k = None" using keys(1) by (auto simp: dict_ok_def map_of_eq_None_iff)
  have "of_key k' (ps @ [e]) @ waiting_at (ig\<lparr>ig_pending := rest\<rparr>) k' = of_key k' ps @ waiting_at ig k'" for k'
    using k fresh assms(2) by (auto simp: waiting_at_def)
  then have "\<forall>k'. delivers_key k' (of_key k' (ps @ [e]) @ waiting_at (ig\<lparr>ig_pending := rest\<rparr>) k') os" using out by metis
  then show ?thesis using keys assms(2) by (simp add: ingress_ok_def dict_ok_def)
qed

lemma drain_delivers:
  assumes "reading_host h" "reader_ends h left" "ingress_ok st"
  shows "\<exists>res st'. drain h st = Some (res, st') \<and> ingress_ok st' \<and> (res = Inr () \<longrightarrow> ig_pending (fst st') = [])"
  using assms(3)
proof (induction "(left st, length (ig_pending (fst st)))" arbitrary: st rule: wf_induct_rule [OF wf_lex_prod [OF wf_less wf_less]])
  case (1 st)
  obtain ig os ps v where st: "st = (ig, os, ps, v)" by (rule prod_cases4)
  show ?case
  proof (cases "ig_pending ig")
    case Nil
    show ?thesis
    proof (cases "ig_closed ig")
      case False
      have "left (gh_wait h st) < left st" using assms(2) False by (simp add: reader_ends_def st)
      moreover have "ingress_ok (gh_wait h st)" using assms(1) moves_ok 1(2) unfolding reading_host_def by blast
      moreover have "drain h st = drain h (gh_wait h st)" using Nil False by (subst drain.simps) (simp add: st)
      ultimately show ?thesis using 1(1) [of "gh_wait h st"] by simp
    next
      case True
      then have "drain h st = Some (Inr (), st)" using Nil by (subst drain.simps) (simp add: st)
      then show ?thesis using Nil 1(2) by (simp add: st)
    qed
  next
    case (Cons x rest)
    obtain k e where x: "x = (k, e)" by (rule prod.exhaust)
    let ?ig = "ig\<lparr>ig_pending := rest\<rparr>"
    obtain r st1 where p: "gh_publish h e (?ig, os, ps, v) = (r, st1)" by (rule prod.exhaust)
    have "ingress_ok (?ig, os, ps @ [e], v)" using take_ok 1(2) Cons by (simp add: st x)
    moreover have "reader_moves\<^sup>*\<^sup>* (?ig, os, ps @ [e], v) st1"
      using assms(1) p unfolding reading_host_def by (metis snd_conv)
    ultimately have ok: "ingress_ok st1" using moves_ok by blast
    have "left (?ig, os, ps, v) = left st" using assms(2) by (simp add: reader_ends_def st)
    moreover have "left st1 < left (?ig, os, ps, v) \<or> left st1 = left (?ig, os, ps, v) \<and> fst st1 = ?ig"
      using assms(2) p unfolding reader_ends_def by (metis snd_conv)
    ultimately have less: "left st1 < left st \<or> left st1 = left st \<and> length (ig_pending (fst st1)) < length (ig_pending (fst st))"
      using Cons by (auto simp: st)
    have d: "drain h st = (case r of Inl z \<Rightarrow> Some (Inl z, st1) | Inr _ \<Rightarrow> drain h st1)"
      using Cons p by (subst drain.simps) (simp add: st x split: sum.splits)
    show ?thesis
    proof (cases r)
      case (Inr u)
      then show ?thesis using 1(1) [of st1] less ok d by simp
    qed (use ok d in auto)
  qed
qed

text \<open>
  C17. The ingress of the live feed never delivers old news last: over any interleaving of the
  reader with the drain, what it publishes of a stream's symbol is offered data in the order
  offered, and once the socket is closed and the drain has returned, which it does, the last
  event published of every stream's symbol is the last one offered.
\<close>

theorem drain_delivers_latest:
  assumes "reading_host h" and "reader_ends h left"
  shows "\<exists>res ig os ps v'. drain h (make_ingress, [], [], v) = Some (res, ig, os, ps, v')
     \<and> (\<forall>k. subseq (of_key k ps) (of_key k os))
     \<and> (res = Inr () \<longrightarrow> (\<forall>k. of_key k os \<noteq> [] \<longrightarrow> of_key k ps \<noteq> [] \<and> last (of_key k ps) = last (of_key k os)))"
proof -
  have "ingress_ok (make_ingress, [], [], v)"
    by (simp add: ingress_ok_def make_ingress_def delivers_key_def waiting_at_def)
  from drain_delivers [OF assms this] obtain res ig os ps v' where d: "drain h (make_ingress, [], [], v) = Some (res, ig, os, ps, v')"
    and ok: "ingress_ok (ig, os, ps, v')" and fin: "res = Inr () \<longrightarrow> ig_pending ig = []" by auto
  have "subseq (of_key k ps) (of_key k os)" for k
    by (rule delivers_keyD [OF ingress_okD(3) [OF ok]])
  moreover have "of_key k ps \<noteq> [] \<and> last (of_key k ps) = last (of_key k os)" if "res = Inr ()" "of_key k os \<noteq> []" for k
    using ingress_okD(3) [OF ok, of k] fin that by (simp add: delivers_key_def waiting_at_def)
  ultimately show ?thesis using d by blast
qed


section \<open>Funding deliveries\<close>

lemma list_all2_pairs: "list_all2 P (map fst xs) (map snd xs) \<longleftrightarrow> (\<forall>x \<in> set xs. P (fst x) (snd x))"
  by (induction xs) auto

lemma sorted_times:
  assumes "traverse_sum record_time rows = Inr ts"
  shows "\<forall>x \<in> set (sort_key fst (zip ts rows)). record_time (snd x) = Inr (fst x)"
proof -
  have "list_all2 (\<lambda>row t. record_time row = Inr t) rows ts" using assms by (simp add: traverse_sum_Inr_list_all2)
  then have "\<forall>x \<in> set (zip ts rows). record_time (snd x) = Inr (fst x)"
    by (induction rule: list_all2_induct) auto
  then show ?thesis by simp
qed

lemma accrual_of_time: "accrual_of account_id row = Inr a \<Longrightarrow> record_time row = Inr t \<Longrightarrow> fa_boundary_ts_ns a = t * NS_PER_MS"
  by (auto simp: accrual_of_def record_time_def bind_sum_eq_Inr)

lemma boundaries_of_times:
  assumes "list_all2 (\<lambda>row a. accrual_of account_id row = Inr a) (map snd xs) accs"
    and "\<forall>x \<in> set xs. record_time (snd x) = Inr (fst x)"
  shows "map fa_boundary_ts_ns accs = map (\<lambda>t. t * NS_PER_MS) (map fst xs)"
  using assms by (induction xs arbitrary: accs) (auto simp: list_all2_Cons1 accrual_of_time)

text \<open>
  A funding delivery is booked whole or refused: whatever frame of the payments channel is
  read without an error, every payment listed in it is one accrual, in the order of the
  payments' times.
\<close>

theorem funding_delivery_is_whole:
  assumes "parse_delivery account_id (Some message) = Inr accs" and "field message ''channel'' = JStr ''userFundings''"
  shows "\<exists>rows ordered. sub (field message ''data'') ''fundings'' = Some (JList rows) \<and> mset ordered = mset rows
     \<and> list_all2 (\<lambda>row a. accrual_of account_id row = Inr a) ordered accs \<and> sorted (map fa_boundary_ts_ns accs)"
proof -
  obtain rows where rows: "sub (field message ''data'') ''fundings'' = Some (JList rows)" and a: "accruals account_id rows = Inr accs"
    using assms by (auto simp: parse_delivery_def split: if_splits option.splits json.splits)
  obtain ts where ts: "traverse_sum record_time rows = Inr ts"
    and ac: "traverse_sum (accrual_of account_id) (map snd (sort_key fst (zip ts rows))) = Inr accs"
    using a by (auto simp: accruals_def bind_sum_eq_Inr split: sum.splits body_fault.splits)
  let ?s = "sort_key fst (zip ts rows)"
  have len: "length ts = length rows" by (rule traverse_sum_length [OF ts])
  have "mset (map snd ?s) = mset rows" using len by (metis map_snd_zip mset_map mset_sort)
  moreover have all: "list_all2 (\<lambda>row a. accrual_of account_id row = Inr a) (map snd ?s) accs"
    using ac by (simp add: traverse_sum_Inr_list_all2)
  moreover have "sorted (map fa_boundary_ts_ns accs)"
  proof -
    have "map fa_boundary_ts_ns accs = map (\<lambda>t. t * NS_PER_MS) (map fst ?s)"
      by (rule boundaries_of_times [OF all sorted_times [OF ts]])
    moreover have "sorted (map fst ?s)" by (rule sorted_sort_key)
    ultimately show ?thesis by (auto simp: sorted_iff_nth_mono NS_PER_MS_def)
  qed
  ultimately show ?thesis using rows by blast
qed

section \<open>The websocket session\<close>

text \<open>The world keeps the dials and the sleeps of the session.\<close>

datatype dial = Dialled | Slept rat

type_synonym 'v session_world = "session \<times> dial list \<times> 'v"

abbreviation dials :: "'v session_world \<Rightarrow> dial list" where
  "dials st \<equiv> fst (snd st)"

definition dialling_host :: "(dial list \<times> 'v) session_host \<Rightarrow> bool" where
  "dialling_host h \<longleftrightarrow> (\<forall>url st. dials (snd (wh_connect h url st)) = dials st @ [Dialled])
     \<and> (\<forall>c st. dials (snd (wh_subscribe h c st)) = dials st) \<and> (\<forall>c st. dials (snd (wh_consume h c st)) = dials st)
     \<and> (\<forall>d st. dials (ck_sleep (wh_clock h) d st) = dials st @ [Slept d])"

definition paced :: "rat \<Rightarrow> rat \<Rightarrow> dial list \<Rightarrow> bool" where
  "paced lo hi ds \<longleftrightarrow> successively (\<lambda>x y. x = Dialled \<longrightarrow> y \<noteq> Dialled) ds \<and> (\<forall>d. Slept d \<in> set ds \<longrightarrow> lo \<le> d \<and> d \<le> hi)"

lemma dialling_hostD:
  assumes "dialling_host h"
  shows "dials (snd (wh_connect h url st)) = dials st @ [Dialled]" "dials (snd (wh_subscribe h c st)) = dials st"
    "dials (snd (wh_consume h c st)) = dials st" "dials (ck_sleep (wh_clock h) d st) = dials st @ [Slept d]"
  using assms unfolding dialling_host_def by blast+

lemma take_socket_dials:
  assumes "dialling_host h" "take_socket h st = (r, st1)"
  shows "dials st1 = dials st \<or> dials st1 = dials st @ [Dialled] \<and> ws_opened (fst st) = None"
proof (cases "ws_opened (fst st)")
  case None
  obtain q st2 where q: "wh_connect h (ws_url (wh_config h)) st = (q, st2)" by (rule prod.exhaust)
  have d: "dials st2 = dials st @ [Dialled]" using dialling_hostD(1) [OF assms(1)] q by (metis snd_conv)
  have "dials st1 = dials st2"
  proof (cases q)
    case (Inl x)
    then show ?thesis using assms(2) None q by (cases x) (simp_all add: take_socket_def)
  next
    case (Inr c)
    let ?st = "with_session (ws_connection_update (\<lambda>_. Some c)) st2"
    obtain p st3 where p: "wh_subscribe h c ?st = (p, st3)" by (rule prod.exhaust)
    have "dials st3 = dials st2" using dialling_hostD(2) [OF assms(1), of c ?st] p by simp
    then show ?thesis using assms(2) None q Inr p by (cases p) (simp_all add: take_socket_def)
  qed
  then show ?thesis using d None by simp
qed (use assms(2) in \<open>auto simp: take_socket_def\<close>)

lemma session_start_dials:
  assumes "dialling_host h" "session_start h st = (Inr (), st1)"
  shows "dials st1 = dials st @ [Dialled] \<and> ws_opened (fst st1) \<noteq> None"
proof -
  obtain q st2 where q: "wh_connect h (ws_url (wh_config h)) st = (q, st2)" by (rule prod.exhaust)
  then obtain c where c: "q = Inr c" using assms(2) by (cases q) (simp_all add: session_start_def)
  let ?st = "with_session (ws_connection_update (\<lambda>_. Some c)) st2"
  obtain p st3 where p: "wh_subscribe h c ?st = (p, st3)" by (rule prod.exhaust)
  have "dials st3 = dials st @ [Dialled]"
    using dialling_hostD(1,2) [OF assms(1)] p q by (metis snd_conv)
  then show ?thesis using assms(2) q c p by (cases p) (auto simp: session_start_def)
qed

lemma paced_dial: "paced lo hi ds \<Longrightarrow> ds = [] \<or> last ds \<noteq> Dialled \<Longrightarrow> paced lo hi (ds @ [Dialled])"
  by (auto simp: paced_def successively_append_iff)

lemma paced_sleep: "paced lo hi ds \<Longrightarrow> lo \<le> d \<Longrightarrow> d \<le> hi \<Longrightarrow> paced lo hi (ds @ [Slept d])"
  by (auto simp: paced_def successively_append_iff)

lemma session_loop_paced:
  assumes "dialling_host h" "0 \<le> lo" "lo \<le> hi"
  shows "session_loop n h b st = (e, st') \<Longrightarrow> paced lo hi (dials st)
    \<Longrightarrow> ws_opened (fst st) \<noteq> None \<or> dials st = [] \<or> last (dials st) \<noteq> Dialled
    \<Longrightarrow> lo \<le> bo_initial b \<and> bo_initial b \<le> hi \<and> lo \<le> bo_current b \<and> bo_current b \<le> hi \<and> bo_maximum b = hi
    \<Longrightarrow> paced lo hi (dials st')"
proof (induction n arbitrary: b st)
  case (Suc n)
  obtain r st1 where t: "take_socket h st = (r, st1)" by (rule prod.exhaust)
  have p1: "paced lo hi (dials st1)"
    using take_socket_dials [OF assms(1) t] Suc.prems(2,3) paced_dial by metis
  have next_round: "paced lo hi (dials st')"
    if "session_loop n h (fst (sleep_on (wh_clock h) b' st2)) (snd (sleep_on (wh_clock h) b' st2)) = (e, st')" "paced lo hi (dials st2)"
      "lo \<le> bo_initial b' \<and> bo_initial b' \<le> hi \<and> lo \<le> bo_current b' \<and> bo_current b' \<le> hi \<and> bo_maximum b' = hi" for b' st2
  proof (rule Suc.IH [OF that(1)])
    have d: "dials (snd (sleep_on (wh_clock h) b' st2)) = dials st2 @ [Slept (bo_current b')]"
      by (simp add: sleep_on_def dialling_hostD(4) [OF assms(1)])
    then show "paced lo hi (dials (snd (sleep_on (wh_clock h) b' st2)))" using paced_sleep that(2,3) by simp
    show "ws_opened (fst (snd (sleep_on (wh_clock h) b' st2))) \<noteq> None \<or> dials (snd (sleep_on (wh_clock h) b' st2)) = []
      \<or> last (dials (snd (sleep_on (wh_clock h) b' st2))) \<noteq> Dialled" using d by simp
  qed (use that(3) assms(2,3) in \<open>auto simp: sleep_on_def min_def\<close>)
  show ?case
  proof (cases "ws_stopping (fst st)")
    case False
    show ?thesis
    proof (cases r)
      case (Inr c)
      show ?thesis
      proof (cases c)
        case None
        then show ?thesis using next_round [of b st1] Suc.prems(1,4) False t Inr p1 by (simp add: split_beta)
      next
        case (Some c')
        obtain q st2 where q: "wh_consume h c' st1 = (q, st2)" by (rule prod.exhaust)
        have p2: "paced lo hi (dials st2)" using p1 dialling_hostD(3) [OF assms(1), of c' st1] q by simp
        show ?thesis
          using next_round [of "reset_backoff b" st2] Suc.prems(1,4) False t Inr Some q p2
          by (cases q) (auto simp: split_beta reset_backoff_def split: if_splits)
      qed
    qed (use Suc.prems(1) False t p1 in simp)
  qed (use Suc.prems in simp)
qed simp

lemma positive_duration: "duration_ns d \<noteq> Inl ValueError \<Longrightarrow> 0 < d"
  by (auto simp: duration_ns_def Let_def zero_less_mult_iff dest!: less_le_trans [OF zero_less_one] split: if_splits)

text \<open>
  C29. An outage never turns into a storm of reconnects: from the boot's first dial on, however
  many turns the session has made and whatever runs while it awaits, it sleeps between any two
  dials, never less than the configured first backoff and never more than the configured cap.
\<close>

theorem reconnects_are_paced:
  assumes "dialling_host h" and "valid_hyper_config (wh_config h)"
    and "session_start h (make_session, [], v) = (Inr (), st)" and "session_run n h st = (e, st')"
  shows "paced (hc_reconnect_initial (wh_config h)) (hc_reconnect_max (wh_config h)) (dials st')"
proof -
  let ?lo = "hc_reconnect_initial (wh_config h)" and ?hi = "hc_reconnect_max (wh_config h)"
  have b: "0 < ?lo" "?lo \<le> ?hi" using assms(2) positive_duration by (auto simp: valid_hyper_config_def)
  have "dials st = [Dialled] \<and> ws_opened (fst st) \<noteq> None" using session_start_dials [OF assms(1,3)] by simp
  then have "paced ?lo ?hi (dials st)" "ws_opened (fst st) \<noteq> None" by (auto simp: paced_def)
  then show ?thesis
    using session_loop_paced [OF assms(1) _ b(2)] b assms(4)
    by (auto simp: session_run_def make_backoff_def split: if_splits)
qed


section \<open>Source numbers\<close>

fun parse_frames :: "(int \<times> json option) list \<Rightarrow> feed \<Rightarrow> market_data list \<times> feed" where
  "parse_frames [] fd = ([], fd)"
| "parse_frames ((now, frame) # rest) fd = (case parse_frame now frame fd of (es, fd1) \<Rightarrow>
     (case parse_frames rest fd1 of (es', fd2) \<Rightarrow> (es @ es', fd2)))"

definition seqs_of :: "string \<Rightarrow> market_data list \<Rightarrow> int list" where
  "seqs_of s es = concat (map (\<lambda>e. case e of Trade t \<Rightarrow> if tt_symbol t = s then [tt_seq t] else [] | Mark m \<Rightarrow> []) es)"

definition numbered :: "feed \<Rightarrow> market_data list \<Rightarrow> feed \<Rightarrow> bool" where
  "numbered fd es fd' \<longleftrightarrow> (\<forall>s. dget (fd_seq_by_symbol fd) s 0 \<le> dget (fd_seq_by_symbol fd') s 0
     \<and> sorted_wrt (<) (seqs_of s es)
     \<and> (\<forall>n \<in> set (seqs_of s es). dget (fd_seq_by_symbol fd) s 0 \<le> n \<and> n < dget (fd_seq_by_symbol fd') s 0))"

lemma seqs_of_simps [simp]:
  "seqs_of s [] = []" "seqs_of s (es @ es') = seqs_of s es @ seqs_of s es'"
  "seqs_of s (Trade t # es) = (if tt_symbol t = s then tt_seq t # seqs_of s es else seqs_of s es)"
  "seqs_of s (Mark m # es) = seqs_of s es"
  by (simp_all add: seqs_of_def)

lemma numbered_append:
  assumes "numbered fd es fd1" "numbered fd1 es' fd2"
  shows "numbered fd (es @ es') fd2"
  unfolding numbered_def
proof
  fix s
  let ?n = "\<lambda>f. dget (fd_seq_by_symbol f) s 0"
  have 1: "?n fd \<le> ?n fd1" "sorted_wrt (<) (seqs_of s es)" "\<forall>n \<in> set (seqs_of s es). ?n fd \<le> n \<and> n < ?n fd1"
    using assms(1) unfolding numbered_def by blast+
  have 2: "?n fd1 \<le> ?n fd2" "sorted_wrt (<) (seqs_of s es')" "\<forall>n \<in> set (seqs_of s es'). ?n fd1 \<le> n \<and> n < ?n fd2"
    using assms(2) unfolding numbered_def by blast+
  show "?n fd \<le> ?n fd2 \<and> sorted_wrt (<) (seqs_of s (es @ es'))
     \<and> (\<forall>n \<in> set (seqs_of s (es @ es')). ?n fd \<le> n \<and> n < ?n fd2)"
    using 1 2 by (auto simp: sorted_wrt_append) (meson less_le_trans order_trans)+
qed

lemma numbered_none: "numbered fd [] fd" "numbered fd [Mark m] fd"
  by (simp_all add: numbered_def)

lemma to_tick_numbered:
  assumes "to_tick now row fd = (r, fd1)"
  shows "numbered fd (case r of Inl e \<Rightarrow> [] | Inr t \<Rightarrow> [Trade t]) fd1"
proof (cases "key row ''coin''")
  case (Inr coin)
  have "tt_symbol t = py_str coin \<and> tt_seq t = n" if "tick_of_row now (py_str coin) n row = Inr t" for n t
    using that by (auto simp: tick_of_row_def bind_sum_eq_Inr split: option.splits)
  then show ?thesis using assms Inr
    by (auto simp: to_tick_def next_seq_def numbered_def dget_def split: sum.splits)
qed (use assms numbered_none in \<open>auto simp: to_tick_def\<close>)

lemma to_ticks_numbered: "to_ticks now rows fd = (es, fd') \<Longrightarrow> numbered fd es fd'"
proof (induction rows arbitrary: fd es fd')
  case (Cons row rows)
  obtain r fd1 where r: "to_tick now row fd = (r, fd1)" by (rule prod.exhaust)
  obtain es' fd2 where rest: "to_ticks now rows fd1 = (es', fd2)" by (rule prod.exhaust)
  have "es = (case r of Inl e \<Rightarrow> [] | Inr t \<Rightarrow> [Trade t]) @ es' \<and> fd' = fd2"
    using Cons.prems r rest by (auto split: sum.splits)
  then show ?case using numbered_append [OF to_tick_numbered [OF r] Cons.IH [OF rest]] by simp
qed (simp add: numbered_none)

lemma parse_frame_numbered: "parse_frame now frame fd = (es, fd') \<Longrightarrow> numbered fd es fd'"
  by (auto simp: parse_frame_def parse_mark_def numbered_none to_ticks_numbered
      split: option.splits if_splits json.splits sum.splits)

text \<open>
  The source numbers a live feed gives the ticks of a symbol strictly rise, over any frames and
  across reconnects; a row that could not be read leaves at most a gap.
\<close>

theorem feed_seqs_rise: "sorted_wrt (<) (seqs_of s (fst (parse_frames frames fd)))"
proof -
  have "numbered fd (fst (parse_frames frames fd)) (snd (parse_frames frames fd))"
  proof (induction frames arbitrary: fd)
    case (Cons f frames)
    obtain now frame where f: "f = (now, frame)" by (rule prod.exhaust)
    obtain es fd1 where p: "parse_frame now frame fd = (es, fd1)" by (rule prod.exhaust)
    show ?case using numbered_append [OF parse_frame_numbered [OF p] Cons.IH [of fd1]] p
      by (simp add: f split_beta)
  qed (simp add: numbered_none)
  then show ?thesis by (simp add: numbered_def)
qed

text \<open>
  A socket lost between a reconnect and its subscription ends the session with the send's error
  instead of another turn.
\<close>

theorem resubscribe_failure_ends_run:
  assumes "\<not> ws_stopping (fst st)" and "ws_opened (fst st) = None" and "wh_connect h (ws_url (wh_config h)) st = (Inr c, st1)"
    and "wh_subscribe h c (with_session (ws_connection_update (\<lambda>_. Some c)) st1) = (Inl e, st2)"
  shows "session_loop (Suc n) h b st = (Some (WsRaised e), st2)"
  using assms by (simp add: take_socket_def)

section \<open>A reader of three ticks\<close>

text \<open>The ticks still to be read; while one is published the next two come in.\<close>

definition demo_tick :: "int \<Rightarrow> market_data" where
  "demo_tick n = Mark \<lparr>mt_ts_event = n, mt_ts_init = n, mt_symbol = ''BTC'', mt_price = 100, mt_seq = Some n\<rparr>"

definition demo_reader :: "(market_data list \<times> market_data list \<times> market_data list) ingress_host" where
  "demo_reader = \<lparr>
     gh_publish = (\<lambda>e (ig, os, ps, v). (Inr (), case v of
         x # y # rest \<Rightarrow> (offer y (offer x ig), os @ [x] @ [y], ps @ [e], rest) | _ \<Rightarrow> (ig, os, ps @ [e], v))),
     gh_wait = (\<lambda>(ig, os, ps, v). case v of x # rest \<Rightarrow> (offer x ig, os @ [x], ps, rest) | [] \<Rightarrow> (close_ingress ig, os, ps, v))\<rparr>"

definition demo_left :: "ingress \<times> market_data list \<times> market_data list \<times> market_data list \<Rightarrow> nat" where
  "demo_left st = (case st of (ig, os, ps, v) \<Rightarrow> length v + (if ig_closed ig then 0 else 1))"

lemma demo_reader_reads: "reading_host demo_reader"
proof -
  have "reader_moves\<^sup>*\<^sup>* (ig, os, ps, v) (offer y (offer x ig), os @ [x] @ [y], ps, v')" for ig os ps v v' x y
    by (rule rtranclp.rtrancl_into_rtrancl [OF r_into_rtranclp]) (use reader_offers [of "offer x ig" "os @ [x]" ps v y v'] in \<open>auto intro: reader_offers\<close>)
  then show ?thesis
    by (auto simp: reading_host_def demo_reader_def intro: reader_moves.intros split: list.splits)
qed

lemma demo_reader_ends: "reader_ends demo_reader demo_left"
  by (auto simp: reader_ends_def demo_reader_def demo_left_def offer_def close_ingress_def split: list.splits)

theorem drain_delivers_latest_witness:
  "\<exists>res ig os ps v'. drain demo_reader (make_ingress, [], [], [demo_tick 1, demo_tick 2, demo_tick 3]) = Some (res, ig, os, ps, v')
     \<and> (\<forall>k. subseq (of_key k ps) (of_key k os)) \<and> map data_key [demo_tick 1, demo_tick 2] = [MarkStream ''BTC'', MarkStream ''BTC'']"
  using drain_delivers_latest [OF demo_reader_reads demo_reader_ends, of "[demo_tick 1, demo_tick 2, demo_tick 3]"]
  by (auto simp: demo_tick_def data_key_def)

definition demo_delivery :: json where
  "demo_delivery = JObj [(''channel'', JStr ''userFundings''), (''data'', JObj [(''fundings'', JList
     [JObj [(''time'', JInt 9), (''coin'', JStr ''BTC''), (''usdc'', JStr ''-2'')],
      JObj [(''time'', JInt 8), (''coin'', JStr ''BTC''), (''usdc'', JStr ''3'')]])])]"

theorem funding_delivery_is_whole_witness:
  "\<exists>accs. parse_delivery ''acc'' (Some demo_delivery) = Inr accs \<and> map fa_amount accs = [3, -2] \<and> sorted (map fa_boundary_ts_ns accs)"
proof -
  have p: "(case parse_delivery ''acc'' (Some demo_delivery) of Inr accs \<Rightarrow> map fa_amount accs = [3, -2] | Inl _ \<Rightarrow> False)" by code_simp
  then obtain accs where a: "parse_delivery ''acc'' (Some demo_delivery) = Inr accs" by (auto split: sum.splits)
  moreover have "field demo_delivery ''channel'' = JStr ''userFundings''" by code_simp
  ultimately show ?thesis using funding_delivery_is_whole [OF a] p by auto
qed

definition demo_dialler :: "(dial list \<times> unit) session_host" where
  "demo_dialler = \<lparr>wh_config = \<lparr>hc_testnet = True, hc_symbols = [], hc_signing_key = None, hc_account_address = None,
       hc_slippage_bound = 5 / 100, hc_reconnect_initial = 1, hc_reconnect_max = 2\<rparr>,
     wh_connect = (\<lambda>url (s, ds, v). (if length ds \<in> {2, 4} then Inl OsError else Inr 0, s, ds @ [Dialled], v)),
     wh_subscribe = (\<lambda>c st. (Inr (), st)), wh_consume = (\<lambda>c st. (Inr (), st)), wh_close = (\<lambda>c st. st),
     wh_clock = \<lparr>ck_now = (\<lambda>st. 0), ck_sleep = (\<lambda>d (s, ds, v). (s, ds @ [Slept d], v))\<rparr>\<rparr>"

theorem reconnects_are_paced_witness:
  "\<exists>st st'. session_start demo_dialler (make_session, [], ()) = (Inr (), st) \<and> session_run 4 demo_dialler st = (None, st')
     \<and> fst (snd st') = [Dialled, Slept 1, Dialled, Slept 2, Dialled, Slept 2, Dialled, Slept 1] \<and> paced 1 2 (fst (snd st'))"
proof -
  obtain st where s: "session_start demo_dialler (make_session, [], ()) = (Inr (), st)"
    by (simp add: session_start_def demo_dialler_def make_session_def)
  have "fst (session_run 4 demo_dialler (snd (session_start demo_dialler (make_session, [], ())))) = None
     \<and> fst (snd (snd (session_run 4 demo_dialler (snd (session_start demo_dialler (make_session, [], ()))))))
       = [Dialled, Slept 1, Dialled, Slept 2, Dialled, Slept 2, Dialled, Slept 1]" by code_simp
  then obtain st' where r: "session_run 4 demo_dialler st = (None, st')"
    and d: "fst (snd st') = [Dialled, Slept 1, Dialled, Slept 2, Dialled, Slept 2, Dialled, Slept 1]"
    using s by (cases "session_run 4 demo_dialler st") auto
  have logs: "dialling_host demo_dialler" by (auto simp: dialling_host_def demo_dialler_def)
  have valid: "valid_hyper_config (wh_config demo_dialler)"
    by (simp add: valid_hyper_config_def demo_dialler_def duration_ns_def RECONNECT_BACKOFF_CEILING_SECONDS_def)
  have "paced (hc_reconnect_initial (wh_config demo_dialler)) (hc_reconnect_max (wh_config demo_dialler)) (dials st')"
    by (rule reconnects_are_paced [OF logs valid s r])
  then have "paced 1 2 (dials st')" by (simp add: demo_dialler_def)
  then show ?thesis using s r d by blast
qed

end
