(* ===== verification/TW_Bus.thy ===== *)
theory TW_Bus
  imports TW_Positions "HOL-Library.Sublist"
begin

text \<open>
  The buses of \<open>src/src/tickwright/adapters/bus\<close>: the subscriptions and their dispatch, the
  in-memory bus, the drain ledger and the Kafka bus. Events are of any type \<open>'e\<close>; a
  subscription is a class \<open>'t\<close> of events and the name of a handler. A handler is awaited, so it may
  change the bus and the world beside it. The broker behind the Kafka bus is a parameter.
\<close>

section \<open>Subscriptions\<close>

type_synonym ('e, 't, 's) handling = "('t \<Rightarrow> 'e \<Rightarrow> bool) \<times> (nat \<Rightarrow> 'e \<Rightarrow> 's \<Rightarrow> (exc + unit) \<times> 's)"

definition subscribe :: "'t \<Rightarrow> nat \<Rightarrow> ('t \<times> nat) list \<Rightarrow> ('t \<times> nat) list" where
  "subscribe t i entries = entries @ [(t, i)]"

fun dispatch :: "('e, 't, 's) handling \<Rightarrow> ('t \<times> nat) list \<Rightarrow> 'e \<Rightarrow> 's \<Rightarrow> (exc + unit) \<times> 's" where
  "dispatch hg [] e st = (Inr (), st)"
| "dispatch hg ((t, i) # rest) e st =
     (if fst hg t e then (case snd hg i e st of
        (Inl x, st1) \<Rightarrow> (Inl x, st1) | (Inr _, st1) \<Rightarrow> dispatch hg rest e st1)
      else dispatch hg rest e st)"

definition matching :: "('e, 't, 's) handling \<Rightarrow> ('t \<times> nat) list \<Rightarrow> 'e \<Rightarrow> (nat \<times> 'e) list" where
  "matching hg entries e = map (\<lambda>(t, i). (i, e)) (filter (\<lambda>(t, i). fst hg t e) entries)"

section \<open>The in-memory bus\<close>

record ('e, 't) bus =
  bs_entries :: "('t \<times> nat) list"
  bs_queue :: "'e list"
  bs_draining :: bool

definition make_bus :: "('e, 't) bus" where
  "make_bus = \<lparr>bs_entries = [], bs_queue = [], bs_draining = False\<rparr>"

type_synonym ('e, 't, 'w) bus_state = "('e, 't) bus \<times> 'w"

abbreviation on_bus :: "(('e, 't) bus \<Rightarrow> ('e, 't) bus) \<Rightarrow> ('e, 't, 'w) bus_state \<Rightarrow> ('e, 't, 'w) bus_state" where
  "on_bus f st \<equiv> (f (fst st), snd st)"

partial_function (option) drain_queue ::
  "('e, 't, ('e, 't, 'w) bus_state) handling \<Rightarrow> ('e, 't, 'w) bus_state \<Rightarrow> ((exc + unit) \<times> ('e, 't, 'w) bus_state) option" where
  "drain_queue hg st = (case bs_queue (fst st) of
     [] \<Rightarrow> Some (Inr (), on_bus (bs_draining_update (\<lambda>_. False)) st)
   | e # rest \<Rightarrow> (case dispatch hg (bs_entries (fst st)) e (on_bus (bs_queue_update (\<lambda>_. rest)) st) of
       (Inl x, st1) \<Rightarrow> Some (Inl x, on_bus (\<lambda>b. b\<lparr>bs_queue := [], bs_draining := False\<rparr>) st1)
     | (Inr _, st1) \<Rightarrow> drain_queue hg st1))"

definition bus_publish ::
  "('e, 't, ('e, 't, 'w) bus_state) handling \<Rightarrow> 'e \<Rightarrow> ('e, 't, 'w) bus_state \<Rightarrow> ((exc + unit) \<times> ('e, 't, 'w) bus_state) option" where
  "bus_publish hg e st = (let st1 = on_bus (bs_queue_update (\<lambda>q. q @ [e])) st in
     if bs_draining (fst st) then Some (Inr (), st1)
     else drain_queue hg (on_bus (bs_draining_update (\<lambda>_. True)) st1))"

section \<open>The drain ledger\<close>

record drain_ledger =
  dl_produced :: "(int, int) dict"
  dl_committed :: "(int, int) dict"

definition make_drain_ledger :: drain_ledger where
  "make_drain_ledger = \<lparr>dl_produced = [], dl_committed = []\<rparr>"

definition record_produced :: "int \<Rightarrow> int \<Rightarrow> drain_ledger \<Rightarrow> drain_ledger" where
  "record_produced part offset dl =
     dl\<lparr>dl_produced := AList.update part (max (dget (dl_produced dl) part (- 1)) offset) (dl_produced dl)\<rparr>"

definition record_committed :: "int \<Rightarrow> int \<Rightarrow> drain_ledger \<Rightarrow> drain_ledger" where
  "record_committed part offset dl = dl\<lparr>dl_committed := AList.update part (offset + 1) (dl_committed dl)\<rparr>"

definition in_flight :: "drain_ledger \<Rightarrow> bool" where
  "in_flight dl \<longleftrightarrow> (\<exists>(part, high_water) \<in> set (dl_produced dl). dget (dl_committed dl) part 0 \<le> high_water)"

section \<open>The Kafka bus\<close>

text \<open>
  A record the consumer reads is its coordinates and what decoding it gives. The bus is one
  whose producer and consumer were started.
\<close>

record 'e consumed =
  cr_partition :: int
  cr_offset :: int
  cr_event :: "exc + 'e"

record ('e, 't) kafka =
  kb_entries :: "('t \<times> nat) list"
  kb_held :: "'e list"
  kb_fault :: "exc option"
  kb_ledger :: drain_ledger

record ('e, 't, 'w) broker =
  kh_handling :: "('e, 't, ('e, 't) kafka \<times> 'w) handling"
  kh_send :: "'e \<Rightarrow> ('e, 't) kafka \<times> 'w \<Rightarrow> (exc + int \<times> int) \<times> (('e, 't) kafka \<times> 'w)"
  kh_commit :: "('e, 't) kafka \<times> 'w \<Rightarrow> (exc + unit) \<times> (('e, 't) kafka \<times> 'w)"

abbreviation on_kafka :: "(('e, 't) kafka \<Rightarrow> ('e, 't) kafka) \<Rightarrow> ('e, 't) kafka \<times> 'w \<Rightarrow> ('e, 't) kafka \<times> 'w" where
  "on_kafka f st \<equiv> (f (fst st), snd st)"

definition kafka_send :: "('e, 't, 'w) broker \<Rightarrow> 'e \<Rightarrow> ('e, 't) kafka \<times> 'w \<Rightarrow> (exc + unit) \<times> (('e, 't) kafka \<times> 'w)" where
  "kafka_send h e st = (case kh_send h e st of
     (Inl x, st1) \<Rightarrow> (Inl x, st1)
   | (Inr (part, offset), st1) \<Rightarrow> (Inr (), on_kafka (kb_ledger_update (record_produced part offset)) st1))"

fun flush_held :: "('e, 't, 'w) broker \<Rightarrow> 'e list \<Rightarrow> ('e, 't) kafka \<times> 'w \<Rightarrow> (exc + unit) \<times> (('e, 't) kafka \<times> 'w)" where
  "flush_held h [] st = (Inr (), on_kafka (kb_held_update (\<lambda>_. [])) st)"
| "flush_held h (e # es) st = (case kafka_send h e st of
     (Inl x, st1) \<Rightarrow> (Inl x, st1) | (Inr _, st1) \<Rightarrow> flush_held h es st1)"

text \<open>\<open>publish\<close> of the poll task itself holds the event; that of any other task sends it and then drains.\<close>

definition hold :: "'e \<Rightarrow> ('e, 't) kafka \<times> 'w \<Rightarrow> ('e, 't) kafka \<times> 'w" where
  "hold e st = on_kafka (kb_held_update (\<lambda>es. es @ [e])) st"

definition reraise_dispatch_fault :: "('e, 't) kafka \<times> 'w \<Rightarrow> (exc + unit) \<times> (('e, 't) kafka \<times> 'w)" where
  "reraise_dispatch_fault st = (case kb_fault (fst st) of
     None \<Rightarrow> (Inr (), st) | Some x \<Rightarrow> (Inl x, on_kafka (kb_fault_update (\<lambda>_. None)) st))"

text \<open>What a close of the bus forgets: its poll task's trigger was not committed, so it is read again.\<close>

definition drop_held :: "('e, 't) kafka \<times> 'w \<Rightarrow> ('e, 't) kafka \<times> 'w" where
  "drop_held st = on_kafka (kb_held_update (\<lambda>_. [])) st"

text \<open>One turn of \<open>drain\<close>: \<open>None\<close> while a record is still in flight.\<close>

definition drain_turn :: "('e, 't) kafka \<times> 'w \<Rightarrow> (exc + unit) option \<times> (('e, 't) kafka \<times> 'w)" where
  "drain_turn st = (if in_flight (kb_ledger (fst st)) then (None, st)
     else (case reraise_dispatch_fault st of (r, st1) \<Rightarrow> (Some r, st1)))"

definition settle_record :: "'e consumed \<Rightarrow> ('e, 't) kafka \<times> 'w \<Rightarrow> ('e, 't) kafka \<times> 'w" where
  "settle_record r st = on_kafka (kb_ledger_update (record_committed (cr_partition r) (cr_offset r))) st"

definition handle_record :: "('e, 't, 'w) broker \<Rightarrow> 'e consumed \<Rightarrow> ('e, 't) kafka \<times> 'w \<Rightarrow> (exc + unit) \<times> (('e, 't) kafka \<times> 'w)" where
  "handle_record h r st = (case cr_event r of
     Inl x \<Rightarrow> (Inl x, st)
   | Inr e \<Rightarrow> (case dispatch (kh_handling h) (kb_entries (fst st)) e st of
       (Inl x, st1) \<Rightarrow> (Inl x, st1)
     | (Inr _, st1) \<Rightarrow> flush_held h (kb_held (fst st1)) st1))"

text \<open>One turn of \<open>_poll\<close>. A failed commit ends the poll task.\<close>

definition poll_record :: "('e, 't, 'w) broker \<Rightarrow> 'e consumed \<Rightarrow> ('e, 't) kafka \<times> 'w \<Rightarrow> (exc + unit) \<times> (('e, 't) kafka \<times> 'w)" where
  "poll_record h r st =
     (if kb_fault (fst st) \<noteq> None then (Inr (), settle_record r st)
      else (case handle_record h r st of
        (Inl x, st1) \<Rightarrow> (Inr (), settle_record r (on_kafka (\<lambda>k. k\<lparr>kb_fault := Some x, kb_held := []\<rparr>) st1))
      | (Inr _, st1) \<Rightarrow> (case kh_commit h st1 of
          (Inl x, st2) \<Rightarrow> (Inl x, st2) | (Inr _, st2) \<Rightarrow> (Inr (), settle_record r st2))))"

fun poll_run :: "('e, 't, 'w) broker \<Rightarrow> 'e consumed list \<Rightarrow> ('e, 't) kafka \<times> 'w \<Rightarrow> (exc + unit) \<times> (('e, 't) kafka \<times> 'w)" where
  "poll_run h [] st = (Inr (), st)"
| "poll_run h (r # rs) st = (case poll_record h r st of
     (Inl x, st1) \<Rightarrow> (Inl x, st1) | (Inr _, st1) \<Rightarrow> poll_run h rs st1)"

definition make_kafka :: "('t \<times> nat) list \<Rightarrow> ('e, 't) kafka" where
  "make_kafka entries = \<lparr>kb_entries = entries, kb_held = [], kb_fault = None, kb_ledger = make_drain_ledger\<rparr>"

section \<open>First in, first out\<close>

text \<open>
  The world keeps the events published during the call and what each handler was given, in order.
  A handler publishes while the bus drains, so its events join the queue; it publishes at most
  what is left of some bound.
\<close>

type_synonym ('e, 't, 'v) fifo_state = "('e, 't) bus \<times> 'e list \<times> (nat \<times> 'e) list \<times> 'v"

definition fifo_host ::
  "('e, 't, ('e, 't, 'e list \<times> (nat \<times> 'e) list \<times> 'v) bus_state) handling \<Rightarrow> ('v \<Rightarrow> nat) \<Rightarrow> bool" where
  "fifo_host hg left \<longleftrightarrow> (\<forall>i e b ps hs v. \<exists>es v'.
     snd (snd hg i e (b, ps, hs, v)) = (b\<lparr>bs_queue := bs_queue b @ es\<rparr>, ps @ es, hs @ [(i, e)], v')
     \<and> left v' + length es \<le> left v)"

lemma dispatch_fifo:
  assumes "fifo_host hg left"
  shows "dispatch hg entries e (b, ps, hs, v) = (r, st') \<Longrightarrow> \<exists>es v' hs'.
     st' = (b\<lparr>bs_queue := bs_queue b @ es\<rparr>, ps @ es, hs @ hs', v') \<and> left v' + length es \<le> left v
     \<and> prefix hs' (matching hg entries e) \<and> (r = Inr () \<longrightarrow> hs' = matching hg entries e)"
proof (induction entries arbitrary: b ps hs v)
  case Nil
  then show ?case by (intro exI [of _ "[]"] exI [of _ v]) (auto simp: matching_def)
next
  case (Cons x rest)
  obtain t i where x: "x = (t, i)" by (rule prod.exhaust)
  show ?case
  proof (cases "fst hg t e")
    case False
    then show ?thesis using Cons.IH [of b ps hs v] Cons.prems by (simp add: x matching_def)
  next
    case True
    obtain q st1 where q: "snd hg i e (b, ps, hs, v) = (q, st1)" by (rule prod.exhaust)
    obtain es v1 where s: "st1 = (b\<lparr>bs_queue := bs_queue b @ es\<rparr>, ps @ es, hs @ [(i, e)], v1)" "left v1 + length es \<le> left v"
      using assms q unfolding fifo_host_def by (metis snd_conv)
    show ?thesis
    proof (cases q)
      case (Inl z)
      then have "r = Inl z \<and> st' = st1" using Cons.prems True q by (simp add: x)
      then show ?thesis using s True by (intro exI [of _ es] exI [of _ v1] exI [of _ "[(i, e)]"]) (simp add: x matching_def)
    next
      case (Inr u)
      then have "dispatch hg rest e st1 = (r, st')" using Cons.prems True q by (simp add: x)
      from Cons.IH [OF this [unfolded s(1)]] obtain es' v' hs' where
        "st' = (b\<lparr>bs_queue := bs_queue b @ es @ es'\<rparr>, ps @ es @ es', hs @ [(i, e)] @ hs', v')" "left v' + length es' \<le> left v1"
        "prefix hs' (matching hg rest e)" "r = Inr () \<longrightarrow> hs' = matching hg rest e" by auto
      then show ?thesis using s(2) True
        by (intro exI [of _ "es @ es'"] exI [of _ v'] exI [of _ "(i, e) # hs'"]) (auto simp: x matching_def)
    qed
  qed
qed

abbreviation handled_for :: "('e, 't, 's) handling \<Rightarrow> ('t \<times> nat) list \<Rightarrow> 'e list \<Rightarrow> (nat \<times> 'e) list" where
  "handled_for hg entries es \<equiv> concat (map (matching hg entries) es)"

lemma drain_queue_fifo:
  assumes "fifo_host hg left"
  shows "ps = dones @ bs_queue b \<Longrightarrow> hs = hs0 @ handled_for hg (bs_entries b) dones \<Longrightarrow>
    \<exists>r b' ps' hs' v'. drain_queue hg (b, ps, hs, v) = Some (r, b', ps', hs', v') \<and> prefix ps ps'
      \<and> bs_queue b' = [] \<and> \<not> bs_draining b' \<and> bs_entries b' = bs_entries b
      \<and> (\<exists>ds. hs' = hs0 @ ds \<and> prefix ds (handled_for hg (bs_entries b) ps') \<and> (r = Inr () \<longrightarrow> ds = handled_for hg (bs_entries b) ps'))"
proof (induction "left v + length (bs_queue b)" arbitrary: b ps hs v dones rule: less_induct)
  case less
  show ?case
  proof (cases "bs_queue b")
    case Nil
    then have "drain_queue hg (b, ps, hs, v) = Some (Inr (), b\<lparr>bs_draining := False\<rparr>, ps, hs, v)" by (subst drain_queue.simps) simp
    then show ?thesis using less.prems Nil by simp
  next
    case (Cons e rest)
    obtain q st1 where q: "dispatch hg (bs_entries b) e (b\<lparr>bs_queue := rest\<rparr>, ps, hs, v) = (q, st1)" by (rule prod.exhaust)
    from dispatch_fifo [OF assms q] obtain es v1 ds where
      s: "st1 = (b\<lparr>bs_queue := rest @ es\<rparr>, ps @ es, hs @ ds, v1)" "left v1 + length es \<le> left v"
      and ds: "prefix ds (matching hg (bs_entries b) e)" "q = Inr () \<longrightarrow> ds = matching hg (bs_entries b) e" by auto
    show ?thesis
    proof (cases q)
      case (Inl z)
      have "drain_queue hg (b, ps, hs, v) = Some (Inl z, b\<lparr>bs_queue := [], bs_draining := False\<rparr>, ps @ es, hs @ ds, v1)"
        using Cons q Inl s by (subst drain_queue.simps) simp
      moreover have "prefix (handled_for hg (bs_entries b) dones @ ds) (handled_for hg (bs_entries b) (ps @ es))"
        using ds(1) less.prems(1) Cons by (auto simp: prefix_def)
      ultimately show ?thesis using less.prems by simp
    next
      case (Inr u)
      have d: "drain_queue hg (b, ps, hs, v) = drain_queue hg (b\<lparr>bs_queue := rest @ es\<rparr>, ps @ es, hs @ ds, v1)"
        using Cons q Inr s by (subst drain_queue.simps) simp
      let ?b = "b\<lparr>bs_queue := rest @ es\<rparr>"
      have "left v1 + length (bs_queue ?b) < left v + length (bs_queue b)" using s(2) Cons by simp
      moreover have "ps @ es = (dones @ [e]) @ bs_queue ?b" using less.prems(1) Cons by simp
      moreover have "hs @ ds = hs0 @ handled_for hg (bs_entries ?b) (dones @ [e])" using less.prems(2) ds(2) Inr by simp
      ultimately show ?thesis using less.hyps [of v1 ?b "ps @ es" "dones @ [e]" "hs @ ds"] d
        by (simp only: d) (auto simp: prefix_def)
    qed
  qed
qed

text \<open>
  C28. The in-memory bus is first in, first out: when a publish returns, which it does once the
  handlers stop publishing, every event published during it was given to every matching
  subscriber, in the order of publication and then of subscription, each once and none twice;
  when a handler raises, the deliveries are the beginning of that order, and the bus is empty and
  open to the next publish either way.
\<close>

theorem bus_is_fifo:
  assumes "fifo_host hg left" and "bs_queue b = []" and "\<not> bs_draining b"
  shows "\<exists>r b' ps hs v'. bus_publish hg e (b, [e], [], v) = Some (r, b', ps, hs, v') \<and> bs_queue b' = [] \<and> \<not> bs_draining b'
     \<and> prefix hs (concat (map (matching hg (bs_entries b)) ps)) \<and> (r = Inr () \<longrightarrow> hs = concat (map (matching hg (bs_entries b)) ps))"
proof -
  let ?b = "b\<lparr>bs_queue := [e], bs_draining := True\<rparr>"
  have "bus_publish hg e (b, [e], [], v) = drain_queue hg (?b, [e], [], v)"
    using assms(2,3) by (cases b) (simp add: bus_publish_def Let_def)
  then show ?thesis using drain_queue_fifo [OF assms(1), of "[e]" "[]" ?b "[]" "[]" v] by auto
qed

text \<open>A bus on which the first of two subscribers publishes twice.\<close>

definition demo_handling :: "(int, int, (int, int) bus \<times> int list \<times> (nat \<times> int) list \<times> nat) handling" where
  "demo_handling = (\<lambda>t e. t \<le> e, \<lambda>i e (b, ps, hs, v). (Inr (), case (i, v) of
     (0, Suc n) \<Rightarrow> (b\<lparr>bs_queue := bs_queue b @ [e + 1]\<rparr>, ps @ [e + 1], hs @ [(i, e)], n)
   | _ \<Rightarrow> (b\<lparr>bs_queue := bs_queue b @ []\<rparr>, ps @ [], hs @ [(i, e)], v)))"

definition demo_bus :: "(int, int) bus" where
  "demo_bus = make_bus\<lparr>bs_entries := [(0, 0), (1, 1)]\<rparr>"

lemma demo_handling_fifo: "fifo_host demo_handling id"
  by (fastforce simp: fifo_host_def demo_handling_def split: nat.splits)

theorem bus_is_fifo_witness:
  "\<exists>r b' ps hs v'. bus_publish demo_handling 0 (demo_bus, [0], [], 2) = Some (r, b', ps, hs, v') \<and> bs_queue b' = []
     \<and> prefix hs (concat (map (matching demo_handling [(0, 0), (1, 1)]) ps))"
  using bus_is_fifo [OF demo_handling_fifo, of demo_bus 0 2] by (fastforce simp: demo_bus_def make_bus_def)

section \<open>At least once\<close>

text \<open>The world keeps what the poll task does: handlers run, events held, sent and commits.\<close>

datatype 'e poll_log = RanHandler nat 'e | Kept 'e | Put 'e | Marked

definition kept_in :: "'e poll_log list \<Rightarrow> 'e list" where
  "kept_in xs = concat (map (\<lambda>x. case x of Kept e \<Rightarrow> [e] | _ \<Rightarrow> []) xs)"

definition polling_broker :: "('e, 't, 'e poll_log list \<times> 'v) broker \<Rightarrow> bool" where
  "polling_broker h \<longleftrightarrow>
     (\<forall>i e k lg v. \<exists>xs v' dl. snd (snd (kh_handling h) i e (k, lg, v))
         = (k\<lparr>kb_held := kb_held k @ kept_in xs, kb_ledger := dl\<rparr>, lg @ RanHandler i e # xs, v') \<and> Marked \<notin> set xs)
     \<and> (\<forall>e k lg v. \<exists>v'. snd (kh_send h e (k, lg, v)) = (k, lg @ [Put e], v'))
     \<and> (\<forall>k lg v. \<exists>v'. snd (kh_commit h (k, lg, v)) = (k, lg @ [Marked], v'))"

definition ran_in :: "'e poll_log list \<Rightarrow> (nat \<times> 'e) list" where
  "ran_in xs = concat (map (\<lambda>x. case x of RanHandler i e \<Rightarrow> [(i, e)] | _ \<Rightarrow> []) xs)"

lemma log_simps [simp]:
  "kept_in [] = []" "kept_in (xs @ ys) = kept_in xs @ kept_in ys" "kept_in (RanHandler i e # xs) = kept_in xs"
  "ran_in [] = []" "ran_in (xs @ ys) = ran_in xs @ ran_in ys" "ran_in (RanHandler i e # xs) = (i, e) # ran_in xs"
  by (simp_all add: kept_in_def ran_in_def)

lemma put_simps [simp]: "kept_in (map Put es) = []" "ran_in (map Put es) = []"
  by (induction es) (simp_all add: kept_in_def ran_in_def)

text \<open>A handler that the log shows nests no other: it appends its own entry first, then what it holds or sends.\<close>

definition runs_alone :: "('e, 't, 'e poll_log list \<times> 'v) broker \<Rightarrow> bool" where
  "runs_alone h \<longleftrightarrow> polling_broker h \<and>
     (\<forall>i e k lg v xs. fst (snd (snd (snd (kh_handling h) i e (k, lg, v)))) = lg @ RanHandler i e # xs \<longrightarrow> ran_in xs = [])"

lemma poll_handler:
  assumes "runs_alone h" "snd (kh_handling h) i e (k, lg, v) = (q, st1)"
  obtains xs v1 dl where "st1 = (k\<lparr>kb_held := kb_held k @ kept_in xs, kb_ledger := dl\<rparr>, lg @ RanHandler i e # xs, v1)"
    "Marked \<notin> set xs" "ran_in xs = []"
proof -
  have p: "polling_broker h" using assms(1) by (simp add: runs_alone_def)
  obtain xs v1 dl where st1: "st1 = (k\<lparr>kb_held := kb_held k @ kept_in xs, kb_ledger := dl\<rparr>, lg @ RanHandler i e # xs, v1)" "Marked \<notin> set xs"
    using p assms(2) unfolding polling_broker_def by (metis snd_conv)
  have "ran_in xs = []" using assms st1(1) unfolding runs_alone_def by (metis fst_conv snd_conv)
  then show thesis using that st1 by blast
qed

lemma poll_dispatch:
  assumes "runs_alone h"
  shows "dispatch (kh_handling h) entries e (k, lg, v) = (q, st1) \<Longrightarrow> \<exists>xs v1 dl.
    st1 = (k\<lparr>kb_held := kb_held k @ kept_in xs, kb_ledger := dl\<rparr>, lg @ xs, v1) \<and> Marked \<notin> set xs
    \<and> (q = Inr () \<longrightarrow> ran_in xs = matching (kh_handling h) entries e)"
proof (induction entries arbitrary: k lg v)
  case Nil
  then show ?case by (intro exI [of _ "[]"] exI [of _ v] exI [of _ "kb_ledger k"]) (simp add: matching_def)
next
  case (Cons x rest)
  obtain t i where x: "x = (t, i)" by (rule prod.exhaust)
  show ?case
  proof (cases "fst (kh_handling h) t e")
    case False
    then show ?thesis using Cons.IH [of k lg v] Cons.prems by (simp add: x matching_def)
  next
    case True
    obtain p st2 where p: "snd (kh_handling h) i e (k, lg, v) = (p, st2)" by (rule prod.exhaust)
    from poll_handler [OF assms p] obtain xs v1 dl where
      s: "st2 = (k\<lparr>kb_held := kb_held k @ kept_in xs, kb_ledger := dl\<rparr>, lg @ RanHandler i e # xs, v1)" "Marked \<notin> set xs" "ran_in xs = []" .
    show ?thesis
    proof (cases p)
      case (Inl z)
      then have "q = Inl z \<and> st1 = st2" using Cons.prems True p by (simp add: x)
      then show ?thesis using s by (intro exI [of _ "RanHandler i e # xs"] exI [of _ v1] exI [of _ dl]) simp
    next
      case (Inr u)
      then have "dispatch (kh_handling h) rest e st2 = (q, st1)" using Cons.prems True p by (simp add: x)
      from Cons.IH [OF this [unfolded s(1)]] obtain ys v2 dl2 where
        "st1 = (k\<lparr>kb_held := kb_held k @ kept_in xs @ kept_in ys, kb_ledger := dl2\<rparr>, lg @ RanHandler i e # xs @ ys, v2)"
        "Marked \<notin> set ys" "q = Inr () \<longrightarrow> ran_in ys = matching (kh_handling h) rest e" by auto
      then show ?thesis using s(2,3) True
        by (intro exI [of _ "RanHandler i e # xs @ ys"] exI [of _ v2] exI [of _ dl2]) (auto simp: x matching_def)
    qed
  qed
qed

lemma poll_send:
  assumes "polling_broker h" "kafka_send h e (k, lg, v) = (q, st1)"
  shows "\<exists>v1 dl. st1 = (k\<lparr>kb_ledger := dl\<rparr>, lg @ [Put e], v1)"
proof -
  obtain p st2 where p: "kh_send h e (k, lg, v) = (p, st2)" by (rule prod.exhaust)
  obtain v1 where st2: "st2 = (k, lg @ [Put e], v1)" using assms(1) p unfolding polling_broker_def by (metis snd_conv)
  then show ?thesis
  proof (cases p)
    case (Inl z)
    then show ?thesis using assms(2) p st2 by (intro exI [of _ v1] exI [of _ "kb_ledger k"]) (simp add: kafka_send_def)
  next
    case (Inr c)
    then show ?thesis using assms(2) p st2
      by (intro exI [of _ v1] exI [of _ "record_produced (fst c) (snd c) (kb_ledger k)"]) (cases k; auto simp: kafka_send_def split_beta)
  qed
qed

lemma poll_flush:
  assumes "polling_broker h"
  shows "flush_held h es (k, lg, v) = (q, st1) \<Longrightarrow> \<exists>ps v1 dl held. st1 = (k\<lparr>kb_held := held, kb_ledger := dl\<rparr>, lg @ map Put ps, v1)
     \<and> (q = Inr () \<longrightarrow> ps = es \<and> held = [])"
proof (induction es arbitrary: k lg v)
  case Nil
  then show ?case by (intro exI [of _ "[]"] exI [of _ v] exI [of _ "kb_ledger k"] exI [of _ "[]"]) auto
next
  case (Cons e es)
  obtain p st2 where p: "kafka_send h e (k, lg, v) = (p, st2)" by (rule prod.exhaust)
  from poll_send [OF assms p] obtain v1 dl where s: "st2 = (k\<lparr>kb_ledger := dl\<rparr>, lg @ [Put e], v1)" by blast
  show ?case
  proof (cases p)
    case (Inl z)
    then show ?thesis using Cons.prems p s
      by (intro exI [of _ "[e]"] exI [of _ v1] exI [of _ dl] exI [of _ "kb_held k"]) auto
  next
    case (Inr u)
    then have "flush_held h es st2 = (q, st1)" using Cons.prems p by simp
    from Cons.IH [OF this [unfolded s]] obtain ps v2 dl2 held where
      "st1 = (k\<lparr>kb_held := held, kb_ledger := dl2\<rparr>, lg @ Put e # map Put ps, v2)" "q = Inr () \<longrightarrow> ps = es \<and> held = []" by auto
    then show ?thesis by (intro exI [of _ "e # ps"] exI [of _ v2] exI [of _ dl2] exI [of _ held]) auto
  qed
qed

definition settled_whole :: "('e, 't, 's) handling \<Rightarrow> ('t \<times> nat) list \<Rightarrow> 'e consumed \<Rightarrow> 'e poll_log list \<Rightarrow> bool" where
  "settled_whole hg entries r xs \<longleftrightarrow> (\<exists>e ys. cr_event r = Inr e \<and> xs = ys @ map Put (kept_in ys) @ [Marked]
     \<and> Marked \<notin> set ys \<and> ran_in ys = matching hg entries e)"

lemma handle_record_log:
  assumes "runs_alone h" "handle_record h r (k, lg, v) = (q, st1)" "kb_held k = []"
  shows "\<exists>xs k1 v1. st1 = (k1, lg @ xs, v1) \<and> Marked \<notin> set xs \<and> kb_entries k1 = kb_entries k \<and> kb_fault k1 = kb_fault k
    \<and> (q = Inr () \<longrightarrow> kb_held k1 = [] \<and> (\<exists>e ys. cr_event r = Inr e \<and> xs = ys @ map Put (kept_in ys) \<and> ran_in ys = matching (kh_handling h) (kb_entries k) e))"
proof (cases "cr_event r")
  case (Inl x)
  then show ?thesis using assms(2) by (intro exI [of _ "[]"]) (auto simp: handle_record_def)
next
  case (Inr e)
  obtain p st2 where p: "dispatch (kh_handling h) (kb_entries k) e (k, lg, v) = (p, st2)" by (rule prod.exhaust)
  from poll_dispatch [OF assms(1) p] obtain ys v1 dl where
    s: "st2 = (k\<lparr>kb_held := kept_in ys, kb_ledger := dl\<rparr>, lg @ ys, v1)" "Marked \<notin> set ys"
      "p = Inr () \<longrightarrow> ran_in ys = matching (kh_handling h) (kb_entries k) e" using assms(3) by auto
  show ?thesis
  proof (cases p)
    case (Inl z)
    then show ?thesis using assms(2) Inr p s by (intro exI [of _ ys]) (auto simp: handle_record_def)
  next
    case ok: (Inr u)
    then have "flush_held h (kept_in ys) st2 = (q, st1)" using assms(2) Inr p s(1) by (simp add: handle_record_def)
    from poll_flush [OF _ this [unfolded s(1)]] assms(1) obtain ps v2 dl2 held where
      "st1 = (k\<lparr>kb_held := held, kb_ledger := dl2\<rparr>, lg @ ys @ map Put ps, v2)" "q = Inr () \<longrightarrow> ps = kept_in ys \<and> held = []"
      by (auto simp: runs_alone_def)
    then show ?thesis using s(2,3) ok Inr
      by (intro exI [of _ "ys @ map Put ps"] exI [of _ "fst st1"] exI [of _ v2]) auto
  qed
qed

lemma poll_record_log:
  assumes "runs_alone h" "poll_record h r (k, lg, v) = (q, st1)" "kb_held k = []"
  shows "\<exists>xs k1 v1. st1 = (k1, lg @ xs, v1) \<and> kb_entries k1 = kb_entries k
    \<and> (q = Inr () \<longrightarrow> kb_held k1 = [])
    \<and> (xs \<noteq> [] \<longrightarrow> kb_fault k = None) \<and> (Marked \<in> set xs \<longrightarrow> settled_whole (kh_handling h) (kb_entries k) r xs)
    \<and> (q = Inr () \<and> Marked \<notin> set xs \<longrightarrow> kb_fault k1 \<noteq> None)"
proof (cases "kb_fault k")
  case (Some x)
  then show ?thesis using assms(2,3) by (intro exI [of _ "[]"]) (auto simp: poll_record_def settle_record_def)
next
  case None
  obtain p st2 where p: "handle_record h r (k, lg, v) = (p, st2)" by (rule prod.exhaust)
  from handle_record_log [OF assms(1) p assms(3)] obtain xs k1 v1 where
    s: "st2 = (k1, lg @ xs, v1)" "Marked \<notin> set xs" "kb_entries k1 = kb_entries k" and
    ok: "p = Inr () \<longrightarrow> kb_held k1 = [] \<and> (\<exists>e ys. cr_event r = Inr e \<and> xs = ys @ map Put (kept_in ys) \<and> ran_in ys = matching (kh_handling h) (kb_entries k) e)"
    by blast
  show ?thesis
  proof (cases p)
    case (Inl z)
    then show ?thesis using assms(2) None p s by (intro exI [of _ xs]) (auto simp: poll_record_def settle_record_def)
  next
    case (Inr u)
    obtain c st3 where c: "kh_commit h st2 = (c, st3)" by (rule prod.exhaust)
    obtain v3 where st3: "st3 = (k1, lg @ xs @ [Marked], v3)"
      using assms(1) c s(1) unfolding runs_alone_def polling_broker_def by (metis append.assoc snd_conv)
    have "settled_whole (kh_handling h) (kb_entries k) r (xs @ [Marked])" using ok Inr s(2) by (auto simp: settled_whole_def)
    then show ?thesis using assms(2) None p c Inr st3 s ok
      by (intro exI [of _ "xs @ [Marked]"]) (cases c; auto simp: poll_record_def settle_record_def)
  qed
qed

text \<open>
  C23. On the Kafka bus a commit is asked for only after the record before it was handled whole:
  every matching subscriber ran on it and everything they published while it was dispatched was
  sent; from the first record that could not be handled so, nothing runs, is sent or is committed
  any more until that fault is raised to the publisher.
\<close>

theorem commits_follow_handling:
  assumes "runs_alone h" and "poll_run h rs (make_kafka entries, lg, v) = (res, k, lg', v')"
  shows "\<exists>turns. lg' = lg @ concat turns \<and> length turns \<le> length rs
     \<and> (\<forall>i < length turns. Marked \<in> set (turns ! i) \<longrightarrow> settled_whole (kh_handling h) entries (rs ! i) (turns ! i))
     \<and> (\<forall>i j. i < j \<and> j < length turns \<and> Marked \<notin> set (turns ! i) \<longrightarrow> turns ! j = [])"
proof -
  have "poll_run h rs (k0, lg, v) = (res, k, lg', v') \<Longrightarrow> kb_held k0 = [] \<Longrightarrow> kb_entries k0 = entries \<Longrightarrow>
     \<exists>turns. lg' = lg @ concat turns \<and> length turns \<le> length rs
       \<and> (\<forall>i < length turns. Marked \<in> set (turns ! i) \<longrightarrow> settled_whole (kh_handling h) entries (rs ! i) (turns ! i))
       \<and> (\<forall>i j. i < j \<and> j < length turns \<and> Marked \<notin> set (turns ! i) \<longrightarrow> turns ! j = [])
       \<and> (kb_fault k0 \<noteq> None \<longrightarrow> (\<forall>i < length turns. turns ! i = []))" for k0
  proof (induction rs arbitrary: k0 lg v)
    case Nil
    then show ?case by (intro exI [of _ "[]"]) simp
  next
    case (Cons r rs)
    obtain q st1 where q: "poll_record h r (k0, lg, v) = (q, st1)" by (rule prod.exhaust)
    from poll_record_log [OF assms(1) q Cons.prems(2)] obtain xs k1 v1 where
      s: "st1 = (k1, lg @ xs, v1)" "kb_entries k1 = entries" "q = Inr () \<longrightarrow> kb_held k1 = []" and
      xs: "xs \<noteq> [] \<longrightarrow> kb_fault k0 = None" "Marked \<in> set xs \<longrightarrow> settled_whole (kh_handling h) entries r xs"
        "q = Inr () \<and> Marked \<notin> set xs \<longrightarrow> kb_fault k1 \<noteq> None"
      using Cons.prems(3) by blast
    show ?case
    proof (cases q)
      case (Inl z)
      then show ?thesis using Cons.prems(1) q s xs by (intro exI [of _ "[xs]"]) auto
    next
      case (Inr u)
      then have "poll_run h rs (k1, lg @ xs, v1) = (res, k, lg', v')" using Cons.prems(1) q s(1) by simp
      from Cons.IH [OF this] s(2,3) Inr obtain turns where t: "lg' = lg @ xs @ concat turns" "length turns \<le> length rs"
        "\<forall>i < length turns. Marked \<in> set (turns ! i) \<longrightarrow> settled_whole (kh_handling h) entries (rs ! i) (turns ! i)"
        "\<forall>i j. i < j \<and> j < length turns \<and> Marked \<notin> set (turns ! i) \<longrightarrow> turns ! j = []"
        "kb_fault k1 \<noteq> None \<longrightarrow> (\<forall>i < length turns. turns ! i = [])" by auto
      have stay: "kb_fault k1 = kb_fault k0" if "kb_fault k0 \<noteq> None"
        using that q s(1) by (auto simp: poll_record_def settle_record_def)
      show ?thesis
        using t xs stay Inr
        by (intro exI [of _ "xs # turns"]) (auto simp: nth_Cons split: nat.splits)
    qed
  qed
  from this [OF assms(2)] show ?thesis by (auto simp: make_kafka_def)
qed

text \<open>A handler that raises on the event 0 and publishes an event on any other.\<close>

definition demo_broker :: "(int, unit, int poll_log list \<times> unit) broker" where
  "demo_broker = \<lparr>kh_handling = (\<lambda>t e. True, \<lambda>i e (k, lg, v).
       if e = 0 then (Inl ValueError, k\<lparr>kb_held := kb_held k @ kept_in [], kb_ledger := kb_ledger k\<rparr>, lg @ RanHandler i e # [], ())
       else (Inr (), k\<lparr>kb_held := kb_held k @ kept_in [Kept (e + 1)], kb_ledger := kb_ledger k\<rparr>, lg @ RanHandler i e # [Kept (e + 1)], ())),
     kh_send = (\<lambda>e (k, lg, v). (Inr (0, 7), k, lg @ [Put e], ())),
     kh_commit = (\<lambda>(k, lg, v). (Inr (), k, lg @ [Marked], ()))\<rparr>"

definition demo_record :: "int \<Rightarrow> int \<Rightarrow> int consumed" where
  "demo_record offset e = \<lparr>cr_partition = 0, cr_offset = offset, cr_event = Inr e\<rparr>"

lemma demo_broker_polls: "runs_alone demo_broker"
proof -
  have "polling_broker demo_broker"
    unfolding polling_broker_def
  proof (intro conjI allI)
    fix i :: nat and e :: int and k :: "(int, unit) kafka" and lg :: "int poll_log list" and v :: unit
    show "\<exists>xs v' dl. snd (snd (kh_handling demo_broker) i e (k, lg, v))
         = (k\<lparr>kb_held := kb_held k @ kept_in xs, kb_ledger := dl\<rparr>, lg @ RanHandler i e # xs, v') \<and> Marked \<notin> set xs"
      by (intro exI [of _ "if e = 0 then [] else [Kept (e + 1)]"] exI [of _ "()"] exI [of _ "kb_ledger k"])
        (simp add: demo_broker_def)
  qed (simp_all add: demo_broker_def)
  then show ?thesis by (auto simp: runs_alone_def demo_broker_def ran_in_def split: if_splits)
qed

theorem commits_follow_handling_witness:
  "\<exists>res k lg v turns. poll_run demo_broker [demo_record 0 1, demo_record 1 0, demo_record 2 1] (make_kafka [((), 0)], [], ()) = (res, k, lg, v)
     \<and> lg = [RanHandler 0 1, Kept 2, Put 2, Marked, RanHandler 0 0] \<and> lg = concat turns
     \<and> (\<forall>i j. i < j \<and> j < length turns \<and> Marked \<notin> set (turns ! i) \<longrightarrow> turns ! j = [])"
proof -
  obtain res k lg v where r: "poll_run demo_broker [demo_record 0 1, demo_record 1 0, demo_record 2 1] (make_kafka [((), 0)], [], ()) = (res, k, lg, v)"
    by (rule prod_cases4)
  have "fst (snd (snd (poll_run demo_broker [demo_record 0 1, demo_record 1 0, demo_record 2 1] (make_kafka [((), 0)], [], ()))))
      = [RanHandler 0 1, Kept 2, Put 2, Marked, RanHandler 0 0]" by code_simp
  then show ?thesis using commits_follow_handling [OF demo_broker_polls r] r by auto
qed

text \<open>
  A record whose handler raised is left uncommitted, and once its fault was raised to the
  publisher the next record asks for a commit again. That commit names no offset, so it covers
  every record read before it, the failed one too.
\<close>

theorem next_commit_passes_the_dropped_record:
  "\<exists>st1 st2 st3. poll_record demo_broker (demo_record 0 0) (make_kafka [((), 0)], [], ()) = (Inr (), st1)
     \<and> fst (snd st1) = [RanHandler 0 0] \<and> drain_turn st1 = (Some (Inl ValueError), st2)
     \<and> poll_record demo_broker (demo_record 1 1) st2 = (Inr (), st3) \<and> fst (snd st3) = [RanHandler 0 0, RanHandler 0 1, Kept 2, Put 2, Marked]"
  by (simp add: poll_record_def demo_broker_def demo_record_def make_kafka_def handle_record_def settle_record_def drain_turn_def
      record_committed_def in_flight_def reraise_dispatch_fault_def kafka_send_def make_drain_ledger_def kept_in_def)

section \<open>The drain ends when everything produced was dispatched\<close>

lemma in_flight_iff:
  assumes "dict_ok (dl_produced dl)"
  shows "\<not> in_flight dl \<longleftrightarrow> (\<forall>part high. map_of (dl_produced dl) part = Some high \<longrightarrow> high < dget (dl_committed dl) part 0)"
  using assms by (force simp: in_flight_def dict_ok_map_of_iff not_le)

end
