(* ===== verification/TW_Host.thy ===== *)
theory TW_Host
  imports TW_Feed TW_Cache TW_Portfolio
begin

text \<open>
  Strategy hosting: \<open>src/src/tickwright/engine/strategy_host.py\<close>, the symbol ownership of
  \<open>domain/ownership.py\<close>, the wake rule of \<open>domain/wake.py\<close> and the scoped read facade of
  \<open>engine/scoped_portfolio.py\<close>. A strategy is user code, a record of functions on the state of
  the host, the store and the world. Its snapshot bytes are a string. A store write goes through
  if \<open>sg_write\<close> says so. The record an event has for the host is its routing fields and its
  position in time.
\<close>

section \<open>Ownership and registration rules\<close>

type_synonym ownership = "(string, string) dict"

text \<open>The dash of the sentence is written as two hyphens.\<close>

definition ownership_refusal :: "ownership \<Rightarrow> string \<Rightarrow> string list \<Rightarrow> string option" where
  "ownership_refusal owners claimant symbols =
     (let taken = map (\<lambda>s. (s, dget owners s '''')) (sort_by str_le (filter (\<lambda>s. map_of owners s \<noteq> None) (remdups symbols)))
      in if taken = [] then None
         else Some (claimant @ '' declares symbols another strategy already owns: '' @
           join '', '' (map (\<lambda>(s, owner). s @ '' (owned by '' @ owner @ '')'') taken) @
           '' -- same-symbol isolation needs a separate account''))"

definition claim :: "ownership \<Rightarrow> string \<Rightarrow> string list \<Rightarrow> ownership" where
  "claim owners claimant symbols = fold (\<lambda>s d. AList.update s claimant d) symbols owners"

datatype wake_setting = NeverWakes | NotASecondCount | Seconds rat

text \<open>The figure the sentence quotes is left out, and \<open>NotASecondCount\<close> is every value it refuses by type or by not being finite.\<close>

definition wake_interval_refusal :: "wake_setting \<Rightarrow> string option" where
  "wake_interval_refusal interval = (case interval of
     NeverWakes \<Rightarrow> None
   | NotASecondCount \<Rightarrow> Some ''wake_interval_seconds must be a finite number of seconds or None''
   | Seconds s \<Rightarrow> if s < 1 then Some ''wake_interval_seconds must be at least 1 second'' else None)"

section \<open>State\<close>

datatype host_phase = REGISTERING | RESTORING | RUNNING

text \<open>
  \<open>ho_ticks\<close> and \<open>ho_slots\<close> are the variables the subscribed callbacks of each strategy close over.
\<close>

record host =
  ho_ids :: "string list"
  ho_symbols :: "(string, string list) dict"
  ho_wake_intervals :: "(string, rat option) dict"
  ho_persisted :: "(string, string) dict"
  ho_ownership :: ownership
  ho_phase :: host_phase
  ho_subscribed :: "string list"
  ho_ticks :: "(string, (string, int \<times> int) dict) dict"
  ho_slots :: "(string, int) dict"

definition make_host :: host where
  "make_host = \<lparr>ho_ids = [], ho_symbols = [], ho_wake_intervals = [], ho_persisted = [], ho_ownership = [],
     ho_phase = REGISTERING, ho_subscribed = [], ho_ticks = [], ho_slots = []\<rparr>"

text \<open>What a callback may raise: \<open>InvariantViolation\<close>, or anything else.\<close>

datatype callback_fault = Violated exc | Misbehaved string

datatype host_raise = HostRaised exc | SnapshotFailed string

record own_event =
  oe_strategy_id :: string
  oe_event_id :: string

record wake_event =
  we_strategy_id :: string
  we_ts_event :: int

type_synonym 'w hosting = "host \<times> store \<times> 'w"

record 'w hosted =
  sg_now :: "'w \<Rightarrow> int"
  sg_staleness :: "int option"
  sg_write :: "'w \<Rightarrow> bool"
  sg_high_water :: "'w \<Rightarrow> (string, int) dict res"
  sg_interval :: "string \<Rightarrow> wake_setting"
  sg_snapshot :: "string \<Rightarrow> 'w \<Rightarrow> callback_fault + string"
  sg_restore :: "string \<Rightarrow> string \<Rightarrow> 'w \<Rightarrow> (callback_fault + unit) \<times> 'w"
  sg_set_next_seq :: "string \<Rightarrow> int \<Rightarrow> 'w \<Rightarrow> 'w"
  sg_on_tick :: "string \<Rightarrow> trade_tick \<Rightarrow> 'w hosting \<Rightarrow> (callback_fault + unit) \<times> 'w hosting"
  sg_on_order_event :: "string \<Rightarrow> own_event \<Rightarrow> 'w hosting \<Rightarrow> (callback_fault + unit) \<times> 'w hosting"
  sg_on_wake :: "string \<Rightarrow> wake_event \<Rightarrow> 'w hosting \<Rightarrow> (callback_fault + unit) \<times> 'w hosting"

abbreviation on_host :: "(host \<Rightarrow> host) \<Rightarrow> 'w hosting \<Rightarrow> 'w hosting" where
  "on_host f st \<equiv> (f (fst st), snd st)"

abbreviation world_of :: "'w hosting \<Rightarrow> 'w" where
  "world_of st \<equiv> snd (snd st)"

section \<open>Registering\<close>

definition open_orders_readable :: "host \<Rightarrow> bool" where
  "open_orders_readable ho \<longleftrightarrow> ho_phase ho \<noteq> REGISTERING"

datatype register_refusal = ReservedId | DuplicateId | SymbolsTaken string | BadWakeInterval string

definition register :: "'w hosted \<Rightarrow> string \<Rightarrow> string list \<Rightarrow> host \<Rightarrow> register_refusal + host" where
  "register h sid symbols ho =
     (if reserved_id_refusal sid \<noteq> None then Inl ReservedId
      else if sid \<in> set (ho_ids ho) then Inl DuplicateId
      else (case ownership_refusal (ho_ownership ho) sid symbols of Some why \<Rightarrow> Inl (SymbolsTaken why)
      | None \<Rightarrow> (case wake_interval_refusal (sg_interval h sid) of Some why \<Rightarrow> Inl (BadWakeInterval why)
      | None \<Rightarrow> Inr (ho\<lparr>ho_ids := ho_ids ho @ [sid],
          ho_symbols := AList.update sid symbols (ho_symbols ho),
          ho_wake_intervals := AList.update sid (case sg_interval h sid of Seconds s \<Rightarrow> Some s | _ \<Rightarrow> None) (ho_wake_intervals ho),
          ho_ownership := claim (ho_ownership ho) sid symbols\<rparr>))))"

definition wake_schedules :: "host \<Rightarrow> (rat \<times> string) list" where
  "wake_schedules ho = concat (map (\<lambda>(sid, i). case i of Some s \<Rightarrow> [(s, sid)] | None \<Rightarrow> []) (ho_wake_intervals ho))"

definition wake_of :: "string \<Rightarrow> int \<Rightarrow> wake_event" where
  "wake_of sid slot = \<lparr>we_strategy_id = sid, we_ts_event = slot\<rparr>"

section \<open>Snapshots\<close>

text \<open>A raise of \<open>snapshot\<close> is an \<open>InvariantViolation\<close>, its own or the host's.\<close>

definition snapshot_of :: "'w hosted \<Rightarrow> string \<Rightarrow> 'w \<Rightarrow> host_raise + string" where
  "snapshot_of h sid w = (case sg_snapshot h sid w of
     Inr bytes \<Rightarrow> Inr bytes
   | Inl (Violated e) \<Rightarrow> Inl (HostRaised e)
   | Inl (Misbehaved why) \<Rightarrow> Inl (SnapshotFailed why))"

definition persist :: "'w hosted \<Rightarrow> string \<Rightarrow> 'w hosting \<Rightarrow> (host_raise + unit) \<times> 'w hosting" where
  "persist h sid st = (case snapshot_of h sid (world_of st) of
     Inl e \<Rightarrow> (Inl e, st)
   | Inr bytes \<Rightarrow>
       if map_of (ho_persisted (fst st)) sid = Some bytes then (Inr (), st)
       else (case save_strategy_snapshot (sg_write h (world_of st)) (fst (snd st)) sid bytes (sg_now h (world_of st)) of
         Inl e \<Rightarrow> (Inl (HostRaised e), st)
       | Inr s \<Rightarrow> (Inr (), (fst st)\<lparr>ho_persisted := AList.update sid bytes (ho_persisted (fst st))\<rparr>, s, world_of st)))"

definition restore_strategy :: "'w hosted \<Rightarrow> string \<Rightarrow> 'w hosting \<Rightarrow> (host_raise + unit) \<times> 'w hosting" where
  "restore_strategy h sid st = (case load_strategy_snapshot (fst (snd st)) sid of
     None \<Rightarrow> (Inr (), st)
   | Some bytes \<Rightarrow> (case sg_restore h sid bytes (world_of st) of (r, w) \<Rightarrow>
       (case r of Inl (Violated e) \<Rightarrow> Inl (HostRaised e) | _ \<Rightarrow> Inr (),
        (fst st)\<lparr>ho_persisted := AList.update sid bytes (ho_persisted (fst st))\<rparr>, fst (snd st), w)))"

section \<open>Starting and stopping\<close>

definition subscribe_strategy :: "string \<Rightarrow> host \<Rightarrow> host" where
  "subscribe_strategy sid ho = ho\<lparr>ho_subscribed := ho_subscribed ho @ [sid],
     ho_ticks := AList.update sid [] (ho_ticks ho), ho_slots := AList.delete sid (ho_slots ho)\<rparr>"

definition start_one :: "'w hosted \<Rightarrow> (string, int) dict \<Rightarrow> string \<Rightarrow> 'w hosting \<Rightarrow> (host_raise + unit) \<times> 'w hosting" where
  "start_one h hw sid st = (case restore_strategy h sid st of
     (Inl e, st1) \<Rightarrow> (Inl e, st1)
   | (Inr _, st1) \<Rightarrow> (case snapshot_of h sid (world_of st1) of
       Inl e \<Rightarrow> (Inl e, st1)
     | Inr _ \<Rightarrow> (Inr (), subscribe_strategy sid (fst st1), fst (snd st1), sg_set_next_seq h sid (dget hw sid 0 + 1) (world_of st1))))"

fun start_all :: "'w hosted \<Rightarrow> (string, int) dict \<Rightarrow> string list \<Rightarrow> 'w hosting \<Rightarrow> (host_raise + unit) \<times> 'w hosting" where
  "start_all h hw [] st = (Inr (), on_host (ho_phase_update (\<lambda>_. RUNNING)) st)"
| "start_all h hw (sid # sids) st = (case start_one h hw sid st of
     (Inl e, st1) \<Rightarrow> (Inl e, st1) | (Inr _, st1) \<Rightarrow> start_all h hw sids st1)"

definition host_start :: "'w hosted \<Rightarrow> 'w hosting \<Rightarrow> (host_raise + unit) \<times> 'w hosting" where
  "host_start h st = (let st1 = on_host (ho_phase_update (\<lambda>_. RESTORING)) st in
     case sg_high_water h (world_of st) of
       Inl e \<Rightarrow> (Inl (HostRaised e), st1) | Inr hw \<Rightarrow> start_all h hw (ho_ids (fst st)) st1)"

fun persist_all :: "'w hosted \<Rightarrow> string list \<Rightarrow> 'w hosting \<Rightarrow> (host_raise + unit) \<times> 'w hosting" where
  "persist_all h [] st = (Inr (), st)"
| "persist_all h (sid # sids) st = (case persist h sid st of
     (Inl e, st1) \<Rightarrow> (Inl e, st1) | (Inr _, st1) \<Rightarrow> persist_all h sids st1)"

definition host_stop :: "'w hosted \<Rightarrow> 'w hosting \<Rightarrow> (host_raise + unit) \<times> 'w hosting" where
  "host_stop h st = (if ho_phase (fst st) \<noteq> RUNNING then (Inr (), st) else persist_all h (ho_ids (fst st)) st)"

section \<open>The callbacks\<close>

definition contained :: "(callback_fault + unit) \<times> 'w hosting \<Rightarrow> (host_raise + unit) \<times> 'w hosting" where
  "contained r = (case r of (Inl (Violated e), st) \<Rightarrow> (Inl (HostRaised e), st) | (_, st) \<Rightarrow> (Inr (), st))"

definition then_persist :: "'w hosted \<Rightarrow> string \<Rightarrow> (host_raise + unit) \<times> 'w hosting \<Rightarrow> (host_raise + unit) \<times> 'w hosting" where
  "then_persist h sid r = (case r of (Inl e, st) \<Rightarrow> (Inl e, st) | (Inr _, st) \<Rightarrow> persist h sid st)"

definition behind :: "int \<times> int \<Rightarrow> int \<times> int \<Rightarrow> bool" where
  "behind a b \<longleftrightarrow> fst a < fst b \<or> fst a = fst b \<and> snd a \<le> snd b"

definition tick_mark :: "trade_tick \<Rightarrow> int \<times> int" where
  "tick_mark t = (tt_ts_event t, tt_seq t)"

definition stale_tick :: "'w hosted \<Rightarrow> trade_tick \<Rightarrow> 'w \<Rightarrow> bool" where
  "stale_tick h t w \<longleftrightarrow> (case sg_staleness h of None \<Rightarrow> False | Some most \<Rightarrow> most < sg_now h w - tt_ts_event t)"

definition host_on_tick :: "'w hosted \<Rightarrow> string \<Rightarrow> trade_tick \<Rightarrow> 'w hosting \<Rightarrow> (host_raise + unit) \<times> 'w hosting" where
  "host_on_tick h sid t st =
     (let marks = dget (ho_ticks (fst st)) sid [] in
      if tt_symbol t \<notin> set (dget (ho_symbols (fst st)) sid []) then (Inr (), st)
      else if (case map_of marks (tt_symbol t) of Some m \<Rightarrow> behind (tick_mark t) m | None \<Rightarrow> False) then (Inr (), st)
      else if stale_tick h t (world_of st) then (Inr (), st)
      else then_persist h sid (contained (sg_on_tick h sid t
        (on_host (ho_ticks_update (AList.update sid (AList.update (tt_symbol t) (tick_mark t) marks))) st))))"

definition host_on_order_event :: "'w hosted \<Rightarrow> string \<Rightarrow> own_event \<Rightarrow> 'w hosting \<Rightarrow> (host_raise + unit) \<times> 'w hosting" where
  "host_on_order_event h sid e st =
     (if oe_strategy_id e \<noteq> sid then (Inr (), st)
      else then_persist h sid (contained (sg_on_order_event h sid e st)))"

text \<open>A registered interval was found to be at least a second, so its age limit is a number.\<close>

definition wake_max_age :: "host \<Rightarrow> string \<Rightarrow> int option" where
  "wake_max_age ho sid = (case dget (ho_wake_intervals ho) sid None of
     None \<Rightarrow> None | Some s \<Rightarrow> (case duration_ns s of Inr ns \<Rightarrow> Some ns | Inl _ \<Rightarrow> None))"

definition host_on_wake :: "'w hosted \<Rightarrow> string \<Rightarrow> wake_event \<Rightarrow> 'w hosting \<Rightarrow> (host_raise + unit) \<times> 'w hosting" where
  "host_on_wake h sid e st = (case wake_max_age (fst st) sid of
     None \<Rightarrow> (Inr (), st)
   | Some max_age \<Rightarrow>
       let age = sg_now h (world_of st) - we_ts_event e in
       if we_strategy_id e \<noteq> sid then (Inr (), st)
       else if (case map_of (ho_slots (fst st)) sid of Some l \<Rightarrow> we_ts_event e \<le> l | None \<Rightarrow> False) then (Inr (), st)
       else if age < 0 \<or> max_age < age then (Inr (), st)
       else then_persist h sid (contained (sg_on_wake h sid e
         (on_host (ho_slots_update (AList.update sid (we_ts_event e))) st))))"

section \<open>The scoped portfolio\<close>

record open_order_view =
  ov_signal_id :: string
  ov_symbol :: string
  ov_side :: side
  ov_order_type :: order_type
  ov_time_in_force :: "time_in_force option"
  ov_quantity :: decimal
  ov_filled_quantity :: decimal
  ov_price :: "decimal option"
  ov_post_only :: bool
  ov_reduce_only :: bool
  ov_state :: order_state
  ov_cancel_requested :: bool

definition open_order_view_of :: "order \<Rightarrow> open_order_view" where
  "open_order_view_of od = \<lparr>ov_signal_id = o_signal_id od, ov_symbol = o_symbol od, ov_side = o_side od,
     ov_order_type = o_type od, ov_time_in_force = o_time_in_force od, ov_quantity = o_quantity od,
     ov_filled_quantity = o_cum_qty od, ov_price = o_price od, ov_post_only = o_post_only od,
     ov_reduce_only = o_reduce_only od, ov_state = o_state od, ov_cancel_requested = o_cancel_requested od\<rparr>"

definition scoped_position :: "portfolio \<Rightarrow> string \<Rightarrow> string \<Rightarrow> position_view option res" where
  "scoped_position pj sid symbol = position_of pj symbol (Some sid)"

definition scoped_open_positions :: "portfolio \<Rightarrow> string \<Rightarrow> position_view list res" where
  "scoped_open_positions pj sid = open_positions pj (Some sid)"

definition scoped_account :: "portfolio \<Rightarrow> account_view res" where
  "scoped_account pj = account_of pj"

text \<open>\<open>None\<close> is \<open>OpenOrdersReadBeforeStart\<close>.\<close>

definition scoped_open_orders :: "host \<Rightarrow> cache \<Rightarrow> string \<Rightarrow> string option \<Rightarrow> open_order_view list option" where
  "scoped_open_orders ho c sid symbol =
     (if \<not> open_orders_readable ho then None else Some (map open_order_view_of (open_orders c (Some sid) symbol)))"

end
