(* ===== verification/TW_Host_Runs.thy ===== *)
theory TW_Host_Runs
  imports TW_Host
begin

text \<open>
  What a hosted strategy is given and what is kept of it, over any interleaving of callbacks: the
  ticks of a symbol reach its one owner in order and fresh, the wakes of a strategy follow its
  slots, and what the host takes for saved is what the store holds.
\<close>

section \<open>Registration\<close>

fun register_all :: "'w hosted \<Rightarrow> (string \<times> string list) list \<Rightarrow> host \<Rightarrow> register_refusal + host" where
  "register_all h [] ho = Inr ho"
| "register_all h ((sid, symbols) # rest) ho = bind_sum (register h sid symbols ho) (register_all h rest)"

definition owners_disjoint :: "host \<Rightarrow> bool" where
  "owners_disjoint ho \<longleftrightarrow> (\<forall>sid s. s \<in> set (dget (ho_symbols ho) sid []) \<longrightarrow> map_of (ho_ownership ho) s = Some sid)"

lemma claim_lookup: "map_of (claim owners sid symbols) s = (if s \<in> set symbols then Some sid else map_of owners s)"
  unfolding claim_def by (induction symbols arbitrary: owners) auto

lemma set_sort_by_iff: "x \<in> set (sort_by le xs) \<longleftrightarrow> x \<in> set xs"
  by (simp add: set_sort_by)

lemma ownership_free:
  assumes "ownership_refusal owners sid symbols = None" "s \<in> set symbols"
  shows "map_of owners s = None"
proof (rule ccontr)
  assume "map_of owners s \<noteq> None"
  then have "s \<in> set (sort_by str_le (filter (\<lambda>s. map_of owners s \<noteq> None) (remdups symbols)))"
    using assms(2) by (simp add: set_sort_by)
  moreover have "sort_by str_le (filter (\<lambda>s. map_of owners s \<noteq> None) (remdups symbols)) = []"
    using assms(1) unfolding ownership_refusal_def Let_def by (simp split: if_splits)
  ultimately show False by (metis empty_iff list.set(1))
qed

lemma register_disjoint:
  assumes "register h sid symbols ho = Inr ho'" "owners_disjoint ho"
  shows "owners_disjoint ho'"
proof -
  have free: "ownership_refusal (ho_ownership ho) sid symbols = None"
    and ho': "ho_symbols ho' = AList.update sid symbols (ho_symbols ho)" "ho_ownership ho' = claim (ho_ownership ho) sid symbols"
    using assms(1) by (auto simp: register_def split: if_splits option.splits)
  show ?thesis
    unfolding owners_disjoint_def
  proof (intro allI impI)
    fix sid' s
    assume s: "s \<in> set (dget (ho_symbols ho') sid' [])"
    show "map_of (ho_ownership ho') s = Some sid'"
    proof (cases "sid' = sid")
      case False
      then have "map_of (ho_ownership ho) s = Some sid'" using s assms(2) by (simp add: ho' owners_disjoint_def)
      then show ?thesis using ownership_free [OF free, of s] by (auto simp: ho' claim_lookup)
    qed (use s in \<open>simp add: ho' claim_lookup\<close>)
  qed
qed

lemma register_all_disjoint: "register_all h regs ho = Inr ho' \<Longrightarrow> owners_disjoint ho \<Longrightarrow> owners_disjoint ho'"
proof (induction regs arbitrary: ho)
  case (Cons r regs)
  obtain sid symbols where r: "r = (sid, symbols)" by (rule prod.exhaust)
  then obtain ho1 where "register h sid symbols ho = Inr ho1" "register_all h regs ho1 = Inr ho'"
    using Cons.prems(1) by (auto simp: bind_sum_eq_Inr)
  then show ?case using Cons.IH register_disjoint [OF _ Cons.prems(2)] by blast
qed simp

section \<open>Runs\<close>

text \<open>The world keeps what each strategy was given, and when.\<close>

datatype handed = Ticked string trade_tick int | Ordered string own_event | Woke string int int

type_synonym 'v host_run_state = "(handed list \<times> 'v) hosting"

abbreviation handed_of :: "'v host_run_state \<Rightarrow> handed list" where
  "handed_of st \<equiv> fst (world_of st)"

text \<open>
  The moves an await can see: a gate that lets an event through to a strategy, a save, and any
  change of the world and of the store's other tables.
\<close>

inductive host_move :: "(handed list \<times> 'v) hosted \<Rightarrow> 'v host_run_state \<Rightarrow> 'v host_run_state \<Rightarrow> bool" for h where
  move_tick: "tt_symbol t \<in> set (dget (ho_symbols ho) sid []) \<Longrightarrow>
    (case map_of (dget (ho_ticks ho) sid []) (tt_symbol t) of Some m \<Rightarrow> \<not> behind (tick_mark t) m | None \<Rightarrow> True) \<Longrightarrow>
    \<not> stale_tick h t (lg, v) \<Longrightarrow>
    host_move h (ho, s, lg, v)
      (ho\<lparr>ho_ticks := AList.update sid (AList.update (tt_symbol t) (tick_mark t) (dget (ho_ticks ho) sid [])) (ho_ticks ho)\<rparr>,
       s, lg @ [Ticked sid t (sg_now h (lg, v))], v')"
| move_order: "oe_strategy_id e = sid \<Longrightarrow> host_move h (ho, s, lg, v) (ho, s, lg @ [Ordered sid e], v')"
| move_wake: "wake_max_age ho sid = Some max_age \<Longrightarrow> we_strategy_id (e :: wake_event) = sid \<Longrightarrow>
    (case map_of (ho_slots ho) sid of Some l \<Rightarrow> l < we_ts_event e | None \<Rightarrow> True) \<Longrightarrow>
    0 \<le> sg_now h (lg, v) - we_ts_event e \<Longrightarrow> sg_now h (lg, v) - we_ts_event e \<le> max_age \<Longrightarrow>
    host_move h (ho, s, lg, v)
      (ho\<lparr>ho_slots := AList.update sid (we_ts_event e) (ho_slots ho)\<rparr>, s, lg @ [Woke sid (we_ts_event e) (sg_now h (lg, v))], v')"
| move_persist: "host_move h st (snd (persist h sid st))"
| move_world: "st_snapshots s' = st_snapshots s \<Longrightarrow> host_move h (ho, s, lg, v) (ho, s', lg, v')"

text \<open>A handler first takes its event; what runs until it returns is moves of the host and the world.\<close>

definition hosted_ok :: "(handed list \<times> 'v) hosted \<Rightarrow> bool" where
  "hosted_ok h \<longleftrightarrow>
     (\<forall>sid t ho s lg v. \<exists>v'. (host_move h)\<^sup>*\<^sup>* (ho, s, lg @ [Ticked sid t (sg_now h (lg, v))], v') (snd (sg_on_tick h sid t (ho, s, lg, v))))
     \<and> (\<forall>sid e ho s lg v. \<exists>v'. (host_move h)\<^sup>*\<^sup>* (ho, s, lg @ [Ordered sid e], v') (snd (sg_on_order_event h sid e (ho, s, lg, v))))
     \<and> (\<forall>sid e ho s lg v. \<exists>v'. (host_move h)\<^sup>*\<^sup>* (ho, s, lg @ [Woke sid (we_ts_event e) (sg_now h (lg, v))], v')
          (snd (sg_on_wake h sid e (ho, s, lg, v))))
     \<and> (\<forall>sid bytes lg v. fst (snd (sg_restore h sid bytes (lg, v))) = lg)
     \<and> (\<forall>sid n lg v. fst (sg_set_next_seq h sid n (lg, v)) = lg)"

lemma hosted_okD:
  assumes "hosted_ok h"
  shows "\<exists>v'. (host_move h)\<^sup>*\<^sup>* (ho, s, lg @ [Ticked sid t (sg_now h (lg, v))], v') (snd (sg_on_tick h sid t (ho, s, lg, v)))"
    and "\<exists>v'. (host_move h)\<^sup>*\<^sup>* (ho, s, lg @ [Ordered sid e], v') (snd (sg_on_order_event h sid e (ho, s, lg, v)))"
    and "\<exists>v'. (host_move h)\<^sup>*\<^sup>* (ho, s, lg @ [Woke sid (we_ts_event w) (sg_now h (lg, v))], v') (snd (sg_on_wake h sid w (ho, s, lg, v)))"
    and "fst (snd (sg_restore h sid bytes (lg, v))) = lg" and "fst (sg_set_next_seq h sid n (lg, v)) = lg"
  using assms unfolding hosted_ok_def by (elim conjE; simp only:)+

inductive host_call :: "(handed list \<times> 'v) hosted \<Rightarrow> 'v host_run_state \<Rightarrow> 'v host_run_state \<Rightarrow> bool" for h where
  call_tick: "host_call h st (snd (host_on_tick h sid t st))"
| call_order: "host_call h st (snd (host_on_order_event h sid e st))"
| call_wake: "host_call h st (snd (host_on_wake h sid e st))"
| call_stop: "host_call h st (snd (host_stop h st))"
| call_other: "host_move h st st' \<Longrightarrow> host_call h st st'"

lemma contained_state [simp]: "snd (contained r) = snd r"
  by (auto simp: contained_def split: prod.splits sum.splits callback_fault.splits)

lemma then_persist_moves: "(host_move h)\<^sup>*\<^sup>* (snd r) (snd (then_persist h sid r))"
proof -
  obtain q st where Pair: "r = (q, st)" by (rule prod.exhaust)
  have "host_move h st (snd (persist h sid st))" by (rule move_persist)
  then show ?thesis using Pair by (cases q) (auto simp: then_persist_def)
qed

lemma persist_all_moves: "(host_move h)\<^sup>*\<^sup>* st (snd (persist_all h sids st))"
proof (induction sids arbitrary: st)
  case (Cons sid sids)
  obtain r st1 where r: "persist h sid st = (r, st1)" by (rule prod.exhaust)
  have "host_move h st st1" using move_persist [of h st sid] r by simp
  then show ?case using Cons.IH [of st1] r
    by (cases r) (auto intro: converse_rtranclp_into_rtranclp)
qed simp

definition awaited :: "(handed list \<times> 'v) hosted \<Rightarrow> string \<Rightarrow> 'v host_run_state \<Rightarrow> (host_raise + unit) \<times> 'v host_run_state \<Rightarrow> bool" where
  "awaited h sid st out \<longleftrightarrow> out = (Inr (), st)
     \<or> (\<exists>r. out = then_persist h sid (contained r) \<and> (host_move h)\<^sup>*\<^sup>* st (snd r))"

lemma awaitedI:
  assumes "out = then_persist h sid (contained r)" "host_move h st st1" "(host_move h)\<^sup>*\<^sup>* st1 (snd r)"
  shows "awaited h sid st out"
  unfolding awaited_def using assms(1) converse_rtranclp_into_rtranclp [of "host_move h", OF assms(2,3)] by blast

lemma awaited_moves: "awaited h sid st out \<Longrightarrow> (host_move h)\<^sup>*\<^sup>* st (snd out)"
  unfolding awaited_def using then_persist_moves [of h _ sid] rtranclp_trans
  by (metis contained_state rtranclp.rtrancl_refl snd_conv)

lemma tick_awaited:
  assumes "hosted_ok h"
  shows "awaited h sid st (host_on_tick h sid t st)"
proof -
  obtain ho s lg v where st: "st = (ho, s, lg, v)" by (rule prod_cases4)
  let ?ho = "ho_ticks_update (AList.update sid (AList.update (tt_symbol t) (tick_mark t) (dget (ho_ticks ho) sid []))) ho"
  obtain v' where run: "(host_move h)\<^sup>*\<^sup>* (?ho, s, lg @ [Ticked sid t (sg_now h (lg, v))], v') (snd (sg_on_tick h sid t (?ho, s, lg, v)))"
    using hosted_okD(1) [OF assms] by blast
  show ?thesis
  proof (cases "tt_symbol t \<in> set (dget (ho_symbols ho) sid [])
      \<and> (case map_of (dget (ho_ticks ho) sid []) (tt_symbol t) of Some m \<Rightarrow> \<not> behind (tick_mark t) m | None \<Rightarrow> True)
      \<and> \<not> stale_tick h t (lg, v)")
    case True
    have "host_move h st (?ho, s, lg @ [Ticked sid t (sg_now h (lg, v))], v')"
      using move_tick [of t ho sid h lg v s v'] True by (cases ho) (simp add: st)
    moreover have "host_on_tick h sid t st = then_persist h sid (contained (sg_on_tick h sid t (?ho, s, lg, v)))"
      using True by (auto simp: host_on_tick_def st Let_def split: option.splits)
    ultimately show ?thesis using awaitedI [OF _ _ run] by blast
  next
    case False
    then have "host_on_tick h sid t st = (Inr (), st)"
      by (auto simp: host_on_tick_def st Let_def split: option.splits)
    then show ?thesis by (simp add: awaited_def)
  qed
qed

lemma order_awaited:
  assumes "hosted_ok h"
  shows "awaited h sid st (host_on_order_event h sid e st)"
proof -
  obtain ho s lg v where st: "st = (ho, s, lg, v)" by (rule prod_cases4)
  obtain v' where run: "(host_move h)\<^sup>*\<^sup>* (ho, s, lg @ [Ordered sid e], v') (snd (sg_on_order_event h sid e (ho, s, lg, v)))"
    using hosted_okD(2) [OF assms] by blast
  show ?thesis
  proof (cases "oe_strategy_id e = sid")
    case True
    then show ?thesis using awaitedI [OF _ move_order [OF True] run] by (simp add: host_on_order_event_def st)
  qed (simp add: host_on_order_event_def awaited_def)
qed

lemma wake_awaited:
  assumes "hosted_ok h"
  shows "awaited h sid st (host_on_wake h sid e st)"
proof -
  obtain ho s lg v where st: "st = (ho, s, lg, v)" by (rule prod_cases4)
  let ?ho = "ho_slots_update (AList.update sid (we_ts_event e)) ho"
  obtain v' where run: "(host_move h)\<^sup>*\<^sup>* (?ho, s, lg @ [Woke sid (we_ts_event e) (sg_now h (lg, v))], v') (snd (sg_on_wake h sid e (?ho, s, lg, v)))"
    using hosted_okD(3) [OF assms] by blast
  show ?thesis
  proof (cases "\<exists>max_age. wake_max_age ho sid = Some max_age \<and> we_strategy_id e = sid
      \<and> (case map_of (ho_slots ho) sid of Some l \<Rightarrow> l < we_ts_event e | None \<Rightarrow> True)
      \<and> 0 \<le> sg_now h (lg, v) - we_ts_event e \<and> sg_now h (lg, v) - we_ts_event e \<le> max_age")
    case True
    then obtain max_age where g: "wake_max_age ho sid = Some max_age" "we_strategy_id e = sid"
      "case map_of (ho_slots ho) sid of Some l \<Rightarrow> l < we_ts_event e | None \<Rightarrow> True"
      "0 \<le> sg_now h (lg, v) - we_ts_event e" "sg_now h (lg, v) - we_ts_event e \<le> max_age" by blast
    have "host_move h st (?ho, s, lg @ [Woke sid (we_ts_event e) (sg_now h (lg, v))], v')"
      using move_wake [OF g, of s v'] by (cases ho) (simp add: st)
    moreover have "host_on_wake h sid e st = then_persist h sid (contained (sg_on_wake h sid e (?ho, s, lg, v)))"
      using g by (auto simp: host_on_wake_def st Let_def split: option.splits)
    ultimately show ?thesis using awaitedI [OF _ _ run] by blast
  next
    case False
    then have "host_on_wake h sid e st = (Inr (), st)"
      by (auto simp: host_on_wake_def st Let_def not_less split: option.splits)
    then show ?thesis by (simp add: awaited_def)
  qed
qed

lemma call_moves:
  assumes "hosted_ok h" "host_call h st st'"
  shows "(host_move h)\<^sup>*\<^sup>* st st'"
  using assms(2)
proof cases
  case call_stop
  then show ?thesis using persist_all_moves [of h st "ho_ids (fst st)"] by (simp add: host_stop_def)
qed (use awaited_moves tick_awaited [OF assms(1)] order_awaited [OF assms(1)] wake_awaited [OF assms(1)] in blast)+

lemma calls_move: "hosted_ok h \<Longrightarrow> (host_call h)\<^sup>*\<^sup>* st st' \<Longrightarrow> (host_move h)\<^sup>*\<^sup>* st st'"
  by (erule rtranclp_induct) (auto dest: call_moves intro: rtranclp_trans)

section \<open>Ticks\<close>

definition ticks_to :: "string \<Rightarrow> string \<Rightarrow> handed list \<Rightarrow> trade_tick list" where
  "ticks_to sid s lg = concat (map (\<lambda>x. case x of Ticked i t n \<Rightarrow> if i = sid \<and> tt_symbol t = s then [t] else [] | _ \<Rightarrow> []) lg)"

definition tick_before :: "trade_tick \<Rightarrow> trade_tick \<Rightarrow> bool" where
  "tick_before t t' \<longleftrightarrow> \<not> behind (tick_mark t') (tick_mark t)"

definition handed_ok :: "(handed list \<times> 'v) hosted \<Rightarrow> host \<Rightarrow> handed list \<Rightarrow> bool" where
  "handed_ok h ho lg \<longleftrightarrow>
     (\<forall>sid s. sorted_wrt tick_before (ticks_to sid s lg)
        \<and> (\<forall>t \<in> set (ticks_to sid s lg). \<exists>m. map_of (dget (ho_ticks ho) sid []) s = Some m \<and> behind (tick_mark t) m))
     \<and> (\<forall>sid t n. Ticked sid t n \<in> set lg \<longrightarrow> tt_symbol t \<in> set (dget (ho_symbols ho) sid [])
          \<and> (\<forall>most. sg_staleness h = Some most \<longrightarrow> n - tt_ts_event t \<le> most))"

lemma behind_trans: "behind a b \<Longrightarrow> behind b c \<Longrightarrow> behind a c"
  by (auto simp: behind_def)

lemma behind_refl: "behind a a"
  by (simp add: behind_def)

lemma behind_linear: "\<not> behind a b \<Longrightarrow> behind b a"
  by (auto simp: behind_def)

lemma ticks_to_snoc:
  "ticks_to sid s (lg @ [x]) = ticks_to sid s lg @ (case x of Ticked i t n \<Rightarrow> if i = sid \<and> tt_symbol t = s then [t] else [] | _ \<Rightarrow> [])"
  by (simp add: ticks_to_def)

lemma persist_frame:
  "ho_ticks (fst (snd (persist h sid st))) = ho_ticks (fst st)" "ho_symbols (fst (snd (persist h sid st))) = ho_symbols (fst st)"
  "world_of (snd (persist h sid st)) = world_of st" "ho_ownership (fst (snd (persist h sid st))) = ho_ownership (fst st)"
  by (auto simp: persist_def split: sum.splits)

lemma tick_handed:
  assumes "handed_ok h ho lg" "tt_symbol t \<in> set (dget (ho_symbols ho) sid [])"
    and "case map_of (dget (ho_ticks ho) sid []) (tt_symbol t) of Some m \<Rightarrow> \<not> behind (tick_mark t) m | None \<Rightarrow> True"
    and "\<not> stale_tick h t (lg, v)"
  shows "handed_ok h (ho\<lparr>ho_ticks := AList.update sid (AList.update (tt_symbol t) (tick_mark t) (dget (ho_ticks ho) sid [])) (ho_ticks ho)\<rparr>)
    (lg @ [Ticked sid t (sg_now h (lg, v))])"
proof -
  let ?ho = "ho\<lparr>ho_ticks := AList.update sid (AList.update (tt_symbol t) (tick_mark t) (dget (ho_ticks ho) sid [])) (ho_ticks ho)\<rparr>"
  let ?lg = "lg @ [Ticked sid t (sg_now h (lg, v))]"
  have old: "sorted_wrt tick_before (ticks_to i s lg)"
    "\<And>x. x \<in> set (ticks_to i s lg) \<Longrightarrow> \<exists>m. map_of (dget (ho_ticks ho) i []) s = Some m \<and> behind (tick_mark x) m" for i s
    using assms(1) unfolding handed_ok_def by blast+
  have "sorted_wrt tick_before (ticks_to i s ?lg)
        \<and> (\<forall>x \<in> set (ticks_to i s ?lg). \<exists>m. map_of (dget (ho_ticks ?ho) i []) s = Some m \<and> behind (tick_mark x) m)" for i s
  proof (cases "i = sid \<and> tt_symbol t = s")
    case True
    have less: "\<not> behind (tick_mark t) (tick_mark x)" if x: "x \<in> set (ticks_to i s lg)" for x
    proof
      assume b: "behind (tick_mark t) (tick_mark x)"
      obtain m where "map_of (dget (ho_ticks ho) i []) s = Some m" "behind (tick_mark x) m" using old(2) [OF x] by blast
      then show False using assms(3) True behind_trans [OF b] by auto
    qed
    then have "sorted_wrt tick_before (ticks_to i s ?lg)"
      using old(1) [of i s] True by (auto simp: ticks_to_snoc sorted_wrt_append tick_before_def)
    moreover have "map_of (dget (ho_ticks ?ho) i []) s = Some (tick_mark t)" using True by (simp add: dget_def)
    ultimately show ?thesis using True less by (auto simp: ticks_to_snoc behind_refl dest: behind_linear)
  next
    case False
    have "map_of (dget (ho_ticks ?ho) i []) s = map_of (dget (ho_ticks ho) i []) s"
      using False by (auto simp: dget_def)
    moreover have "ticks_to i s ?lg = ticks_to i s lg" using False by (auto simp: ticks_to_snoc)
    ultimately show ?thesis using old by simp
  qed
  moreover have "tt_symbol x \<in> set (dget (ho_symbols ?ho) i []) \<and> (\<forall>most. sg_staleness h = Some most \<longrightarrow> n - tt_ts_event x \<le> most)"
    if "Ticked i x n \<in> set ?lg" for i x n
    using that assms(1,2,4) by (auto simp: handed_ok_def stale_tick_def not_less)
  ultimately show ?thesis unfolding handed_ok_def by blast
qed

lemma handed_ok_frame:
  assumes "handed_ok h ho lg" "ho_ticks ho' = ho_ticks ho" "ho_symbols ho' = ho_symbols ho"
    and "\<And>sid s. ticks_to sid s lg' = ticks_to sid s lg" "\<And>sid t n. Ticked sid t n \<in> set lg' \<Longrightarrow> Ticked sid t n \<in> set lg"
  shows "handed_ok h ho' lg'"
  using assms unfolding handed_ok_def by (metis (no_types, lifting))

lemma move_handed:
  assumes "host_move h st st'" "handed_ok h (fst st) (handed_of st)"
  shows "handed_ok h (fst st') (handed_of st') \<and> ho_symbols (fst st') = ho_symbols (fst st)"
  using assms
proof cases
  case (move_tick t ho sid lg v s v')
  then show ?thesis using tick_handed [of h ho lg t sid v] assms(2) by simp
qed (auto simp: persist_frame ticks_to_snoc elim!: handed_ok_frame)

lemma moves_handed:
  assumes "(host_move h)\<^sup>*\<^sup>* st st'" "handed_ok h (fst st) (handed_of st)"
  shows "handed_ok h (fst st') (handed_of st') \<and> ho_symbols (fst st') = ho_symbols (fst st)"
  using assms(1)
proof (induction rule: rtranclp_induct)
  case (step b c)
  then show ?case using move_handed [OF step.hyps(2)] by simp
qed (simp add: assms(2))

lemma restore_frame:
  assumes "hosted_ok h"
  shows "handed_of (snd (restore_strategy h sid st)) = handed_of st" "ho_symbols (fst (snd (restore_strategy h sid st))) = ho_symbols (fst st)"
proof -
  obtain ho s lg v where st: "st = (ho, s, lg, v)" by (rule prod_cases4)
  show "handed_of (snd (restore_strategy h sid st)) = handed_of st" "ho_symbols (fst (snd (restore_strategy h sid st))) = ho_symbols (fst st)"
    using hosted_okD(4) [OF assms] by (auto simp: restore_strategy_def st split: option.splits prod.splits) (metis fst_conv snd_conv)
qed

lemma start_one_frame:
  assumes "hosted_ok h"
  shows "handed_of (snd (start_one h hw sid st)) = handed_of st" "ho_symbols (fst (snd (start_one h hw sid st))) = ho_symbols (fst st)"
proof -
  obtain r ho s lg v where r: "restore_strategy h sid st = (r, ho, s, lg, v)" by (metis prod_cases5)
  have "lg = handed_of st" "ho_symbols ho = ho_symbols (fst st)" using restore_frame [OF assms, of sid st] r by simp_all
  then show "handed_of (snd (start_one h hw sid st)) = handed_of st" "ho_symbols (fst (snd (start_one h hw sid st))) = ho_symbols (fst st)"
    using hosted_okD(5) [OF assms] by (auto simp: start_one_def r subscribe_strategy_def split: sum.splits)
qed

lemma start_all_frame:
  assumes "hosted_ok h"
  shows "handed_of (snd (start_all h hw sids st)) = handed_of st \<and> ho_symbols (fst (snd (start_all h hw sids st))) = ho_symbols (fst st)"
proof (induction sids arbitrary: st)
  case (Cons sid sids)
  obtain r st1 where r: "start_one h hw sid st = (r, st1)" by (rule prod.exhaust)
  show ?case using Cons.IH [of st1] start_one_frame [OF assms, of hw sid st] r by (cases r) auto
qed simp

lemma host_start_frame:
  assumes "hosted_ok h" "host_start h st = (r, st')"
  shows "handed_of st' = handed_of st \<and> ho_symbols (fst st') = ho_symbols (fst st)"
proof (cases "sg_high_water h (world_of st)")
  case (Inr hw)
  let ?st = "on_host (ho_phase_update (\<lambda>_. RESTORING)) st"
  have "st' = snd (start_all h hw (ho_ids (fst st)) ?st)" using assms(2) Inr by (simp add: host_start_def Let_def)
  then show ?thesis using start_all_frame [OF assms(1), of hw "ho_ids (fst st)" ?st] by simp
qed (use assms(2) in \<open>auto simp: host_start_def Let_def\<close>)

text \<open>
  C14. Over any interleaving of the callbacks the host wires, whatever the handlers await, each
  strategy is given the ticks of a symbol in strictly rising order of their time and source
  number, only of symbols it declared, which no other strategy declared, and none older at that
  moment than the staleness limit.
\<close>

theorem ticks_reach_their_owner_in_order:
  assumes "hosted_ok h" and "register_all h regs make_host = Inr ho" and "host_start h (ho, s, [], v) = (Inr (), st)"
    and "(host_call h)\<^sup>*\<^sup>* st st'"
  shows "sorted_wrt tick_before (ticks_to sid symbol (handed_of st'))
     \<and> (\<forall>t n. Ticked sid t n \<in> set (handed_of st') \<longrightarrow>
          tt_symbol t \<in> set (dget (ho_symbols ho) sid [])
          \<and> (\<forall>sid'. tt_symbol t \<in> set (dget (ho_symbols ho) sid' []) \<longrightarrow> sid' = sid)
          \<and> (\<forall>most. sg_staleness h = Some most \<longrightarrow> n - tt_ts_event t \<le> most))"
proof -
  have start: "handed_of st = []" "ho_symbols (fst st) = ho_symbols ho" using host_start_frame [OF assms(1,3)] by auto
  then have "handed_ok h (fst st) (handed_of st)" by (simp add: handed_ok_def ticks_to_def)
  then have ok: "handed_ok h (fst st') (handed_of st') \<and> ho_symbols (fst st') = ho_symbols (fst st)"
    by (rule moves_handed [OF calls_move [OF assms(1,4)]])
  have "owners_disjoint ho"
    using register_all_disjoint [OF assms(2)] by (simp add: owners_disjoint_def make_host_def)
  then show ?thesis using ok start(2) unfolding handed_ok_def owners_disjoint_def by (metis option.inject)
qed

section \<open>Snapshots\<close>

definition saved_ok :: "'w hosting \<Rightarrow> bool" where
  "saved_ok st \<longleftrightarrow> (\<forall>sid bytes. map_of (ho_persisted (fst st)) sid = Some bytes \<longrightarrow> load_strategy_snapshot (fst (snd st)) sid = Some bytes)"

lemma persist_saved: "saved_ok st \<Longrightarrow> saved_ok (snd (persist h sid st))"
  by (auto simp: persist_def saved_ok_def save_strategy_snapshot_def transaction_def load_strategy_snapshot_def split: sum.splits if_splits)

lemma persist_writes:
  assumes "persist h sid st = (Inr (), st')" "saved_ok st"
  shows "\<exists>bytes. sg_snapshot h sid (world_of st') = Inr bytes \<and> load_strategy_snapshot (fst (snd st')) sid = Some bytes"
proof -
  obtain bytes where b: "sg_snapshot h sid (world_of st) = Inr bytes"
    using assms(1) by (auto simp: persist_def snapshot_of_def split: sum.splits callback_fault.splits)
  then show ?thesis using assms
    by (auto simp: persist_def snapshot_of_def saved_ok_def save_strategy_snapshot_def transaction_def load_strategy_snapshot_def
        split: sum.splits if_splits)
qed

lemma moves_saved: "(host_move h)\<^sup>*\<^sup>* st st' \<Longrightarrow> saved_ok st \<Longrightarrow> saved_ok st'"
proof (induction rule: rtranclp_induct)
  case (step b c)
  from step.hyps(2) show ?case
  proof cases
    case (move_persist sid)
    then show ?thesis using persist_saved step.IH [OF step.prems] by simp
  qed (use step.IH [OF step.prems] in \<open>auto simp: saved_ok_def load_strategy_snapshot_def\<close>)
qed

lemma restore_saved: "saved_ok st \<Longrightarrow> saved_ok (snd (restore_strategy h sid st))"
  by (auto simp: restore_strategy_def saved_ok_def split: option.splits prod.splits)

lemma start_all_saved: "saved_ok st \<Longrightarrow> saved_ok (snd (start_all h hw sids st))"
proof (induction sids arbitrary: st)
  case (Cons sid sids)
  obtain r st1 where r: "start_one h hw sid st = (r, st1)" by (rule prod.exhaust)
  obtain q st2 where q: "restore_strategy h sid st = (q, st2)" by (rule prod.exhaust)
  have "saved_ok st2" using restore_saved [OF Cons.prems, of h sid] q by simp
  then have "saved_ok st1" using r q
    by (auto simp: start_one_def saved_ok_def subscribe_strategy_def split: sum.splits)
  then show ?case using Cons.IH [of st1] r by (cases r) auto
qed (simp add: saved_ok_def)

text \<open>
  C16. Whenever a callback that handed an event to a strategy has returned, the store holds the
  snapshot of the very state it left, after any run of callbacks since the start and whatever ran
  while they awaited: a restart restores that state.
\<close>

theorem callbacks_save_the_state:
  assumes "hosted_ok h" and "ho_persisted ho = []" and "host_start h (ho, s, [], v) = (Inr (), st0)" and "(host_call h)\<^sup>*\<^sup>* st0 st"
    and "(Inr (), st') \<in> {host_on_tick h sid t st, host_on_order_event h sid e st, host_on_wake h sid w st}" and "handed_of st' \<noteq> handed_of st"
  shows "\<exists>bytes. sg_snapshot h sid (world_of st') = Inr bytes \<and> load_strategy_snapshot (fst (snd st')) sid = Some bytes"
proof -
  have "saved_ok st0"
  proof (cases "sg_high_water h (world_of (ho, s, [], v))")
    case (Inr hw)
    have "saved_ok (on_host (ho_phase_update (\<lambda>_. RESTORING)) (ho, s, [], v))" using assms(2) by (simp add: saved_ok_def)
    from start_all_saved [OF this, of h hw "ho_ids ho"] show ?thesis using assms(3) Inr by (simp add: host_start_def)
  qed (use assms(3) in \<open>simp add: host_start_def\<close>)
  then have "saved_ok st" using moves_saved [OF calls_move [OF assms(1,4)]] by blast
  moreover have "awaited h sid st (Inr (), st')"
    using assms(5) tick_awaited [OF assms(1)] order_awaited [OF assms(1)] wake_awaited [OF assms(1)] by (metis insertE singletonD)
  then obtain r where r: "(Inr (), st') = then_persist h sid (contained r)" "(host_move h)\<^sup>*\<^sup>* st (snd r)"
    using assms(6) by (auto simp: awaited_def)
  ultimately have "saved_ok (snd r)" using moves_saved by blast
  moreover have "persist h sid (snd r) = (Inr (), st')"
  proof -
    obtain q st1 where c: "contained r = (q, st1)" by (rule prod.exhaust)
    then have "st1 = snd r" using contained_state [of r] by simp
    then show ?thesis using r(1) c by (cases q) (auto simp: then_persist_def)
  qed
  ultimately show ?thesis using persist_writes by blast
qed

section \<open>A strategy that counts\<close>

definition demo_hosted :: "(handed list \<times> nat) hosted" where
  "demo_hosted = \<lparr>sg_now = (\<lambda>w. 10), sg_staleness = Some 5, sg_write = (\<lambda>w. True), sg_high_water = (\<lambda>w. Inr []),
     sg_interval = (\<lambda>sid. NeverWakes), sg_snapshot = (\<lambda>sid w. Inr (replicate (snd w) CHR ''x'')),
     sg_restore = (\<lambda>sid bytes w. (Inr (), fst w, length bytes)), sg_set_next_seq = (\<lambda>sid n w. w),
     sg_on_tick = (\<lambda>sid t (ho, s, lg, v). (Inr (), ho, s, lg @ [Ticked sid t 10], Suc v)),
     sg_on_order_event = (\<lambda>sid e (ho, s, lg, v). (Inl (Misbehaved ''boom''), ho, s, lg @ [Ordered sid e], Suc v)),
     sg_on_wake = (\<lambda>sid e (ho, s, lg, v). (Inr (), ho, s, lg @ [Woke sid (we_ts_event e) 10], v))\<rparr>"

definition btc_trade :: "int \<Rightarrow> int \<Rightarrow> trade_tick" where
  "btc_trade ts n = \<lparr>tt_symbol = ''BTC'', tt_price = 100, tt_size = 1, tt_aggressor = AggressorBuy, tt_trade_id = ''t'',
     tt_seq = n, tt_venue_trade_id = True, tt_ts_event = ts, tt_ts_init = ts\<rparr>"

definition demo_registered :: host where
  "demo_registered = make_host\<lparr>ho_ids := [''a'', ''b''], ho_symbols := [(''a'', [''BTC'']), (''b'', [''ETH''])],
     ho_wake_intervals := [(''a'', None), (''b'', None)], ho_ownership := [(''BTC'', ''a''), (''ETH'', ''b'')]\<rparr>"

definition demo_started :: "nat host_run_state" where
  "demo_started = snd (host_start demo_hosted (demo_registered, empty_store, [], 0))"

definition demo_ticked :: "nat host_run_state" where
  "demo_ticked = snd (host_on_tick demo_hosted ''a'' (btc_trade 8 3) (snd (host_on_tick demo_hosted ''a'' (btc_trade 8 4)
     (snd (host_on_tick demo_hosted ''a'' (btc_trade 2 1) demo_started)))))"

lemma demo_hosted_ok: "hosted_ok demo_hosted"
  unfolding hosted_ok_def demo_hosted_def by auto

lemma demo_starts: "host_start demo_hosted (demo_registered, empty_store, [], 0) = (Inr (), demo_started)"
proof -
  have "fst (host_start demo_hosted (demo_registered, empty_store, [], 0)) = Inr ()" by code_simp
  then show ?thesis unfolding demo_started_def by (metis prod.collapse)
qed

lemma demo_ticked_calls: "(host_call demo_hosted)\<^sup>*\<^sup>* demo_started demo_ticked"
  unfolding demo_ticked_def by (rule rtranclp.rtrancl_into_rtrancl [OF rtranclp.rtrancl_into_rtrancl [OF r_into_rtranclp]]) (rule call_tick)+

lemma demo_handed: "handed_of demo_ticked = [Ticked ''a'' (btc_trade 8 4) 10]"
  by (simp add: demo_ticked_def demo_started_def demo_hosted_def demo_registered_def btc_trade_def host_start_def start_one_def
      restore_strategy_def snapshot_of_def subscribe_strategy_def host_on_tick_def then_persist_def contained_def persist_def
      stale_tick_def tick_mark_def behind_def dget_def make_host_def empty_store_def load_strategy_snapshot_def
      save_strategy_snapshot_def transaction_def Let_def)

lemma demo_registers: "register_all demo_hosted [(''a'', [''BTC'']), (''b'', [''ETH''])] make_host = Inr demo_registered"
  by code_simp

theorem ticks_reach_their_owner_in_order_witness:
  "sorted_wrt tick_before (ticks_to ''a'' ''BTC'' (handed_of demo_ticked))
     \<and> Ticked ''a'' (btc_trade 8 4) 10 \<in> set (handed_of demo_ticked) \<and> 10 - tt_ts_event (btc_trade 8 4) \<le> 5"
proof -
  have "sg_staleness demo_hosted = Some 5" by (simp add: demo_hosted_def)
  moreover have "Ticked ''a'' (btc_trade 8 4) 10 \<in> set (handed_of demo_ticked)" by (simp only: demo_handed list.set insert_iff simp_thms)
  ultimately show ?thesis
    using ticks_reach_their_owner_in_order [OF demo_hosted_ok demo_registers demo_starts demo_ticked_calls, of "''a''" "''BTC''"] by metis
qed

theorem callbacks_save_the_state_witness:
  "\<exists>st'. host_on_order_event demo_hosted ''a'' \<lparr>oe_strategy_id = ''a'', oe_event_id = ''e''\<rparr> demo_ticked = (Inr (), st')
     \<and> load_strategy_snapshot (fst (snd st')) ''a'' = Some ''xx''"
proof -
  let ?e = "\<lparr>oe_strategy_id = ''a'', oe_event_id = ''e''\<rparr>"
  obtain st' where st': "host_on_order_event demo_hosted ''a'' ?e demo_ticked = (Inr (), st')"
  proof -
    have "fst (host_on_order_event demo_hosted ''a'' ?e demo_ticked) = Inr ()" by code_simp
    then show thesis using that by (metis prod.collapse)
  qed
  have new: "handed_of (snd (host_on_order_event demo_hosted ''a'' ?e demo_ticked)) \<noteq> handed_of demo_ticked" by code_simp
  have "sg_snapshot demo_hosted ''a'' (world_of (snd (host_on_order_event demo_hosted ''a'' ?e demo_ticked))) = Inr ''xx''" by code_simp
  moreover have "ho_persisted demo_registered = []" by code_simp
  ultimately show ?thesis
    using callbacks_save_the_state [OF demo_hosted_ok _ demo_starts demo_ticked_calls, of st' "''a''" undefined ?e undefined] st' new by auto
qed

end
