(* ===== verification/TW_Runner.thy ===== *)
theory TW_Runner
  imports TW_Pacing TW_Reconcile
begin

text \<open>
  The process lifecycle, \<open>src/src/tickwright/engine/runner.py\<close>: the store lock, the admission of
  an exit job, the ordered boot, the supervised run, the two teardowns and the exit code. The
  components it calls are the functions of a host record, each an await on the state of the run
  and the world. The run keeps the calls it has made, in order. The task group is one function:
  what its tasks do until a stop is requested or one of them raises.
\<close>

section \<open>State\<close>

datatype component_state = READY | RUNNING_STATE | STOPPED | FAULTED

datatype run_fault =
    BootRefusal string
  | StoreLockHeld string
  | StoreNeverUsed
  | StartupTimeout
  | Raised_by exc
  | StopTimeout
  | Grouped "run_fault list"

fun first_leaf :: "run_fault \<Rightarrow> run_fault" where
  "first_leaf (Grouped (x # xs)) = first_leaf x"
| "first_leaf e = e"

datatype teardown_step =
    FeedStop | ReconcileStop | ExitJobStop | ExchangeStop | BusDrain | HostStop | BusClose | StoreClose

datatype boot_step = Recover | SubscribeSignals | SubscribeReports | SubscribeFunding | SubscribeMarks
  | BusStart | ExchangeStart | HostStart

datatype run_call = StoreLock | Admit | Booted boot_step | BarrierRun | TasksRun | TornDown teardown_step

record engine_run =
  er_state :: component_state
  er_fault :: "run_fault option"
  er_account_open :: bool
  er_barrier_cleared :: bool
  er_stopped :: bool
  er_calls :: "run_call list"

definition make_run :: engine_run where
  "make_run = \<lparr>er_state = READY, er_fault = None, er_account_open = False, er_barrier_cleared = False,
     er_stopped = False, er_calls = []\<rparr>"

type_synonym 'w running = "engine_run \<times> 'w"
type_synonym ('w, 'a) run_act = "'w running \<Rightarrow> (run_fault + 'a) \<times> 'w running"

record 'w run_host =
  rn_exit_job :: bool
  rn_startup_timeout :: rat
  rn_clock :: "'w running clock"
  rn_lock :: "'w \<Rightarrow> (run_fault + string option) \<times> 'w"
  rn_admit :: "'w \<Rightarrow> (run_fault + run_fault option) \<times> 'w"
  rn_boot :: "boot_step \<Rightarrow> 'w \<Rightarrow> (run_fault + unit) \<times> 'w"
  rn_materialise :: "'w \<Rightarrow> (exc + bool) \<times> 'w"
  rn_reconcile_startup :: "'w \<Rightarrow> (exc + bool) \<times> 'w"
  rn_tasks :: "'w \<Rightarrow> (run_fault list + unit) \<times> 'w"
  rn_step :: "teardown_step \<Rightarrow> 'w \<Rightarrow> (run_fault + unit) \<times> 'w"
  rn_job_done :: "'w \<Rightarrow> bool"

definition called :: "run_call \<Rightarrow> 'w running \<Rightarrow> 'w running" where
  "called c st = ((fst st)\<lparr>er_calls := er_calls (fst st) @ [c]\<rparr>, snd st)"

definition on_world :: "run_call \<Rightarrow> ('w \<Rightarrow> 'a \<times> 'w) \<Rightarrow> 'w running \<Rightarrow> 'a \<times> 'w running" where
  "on_world c f st = (case f (snd st) of (r, w) \<Rightarrow> (r, fst (called c st), w))"

section \<open>Boot\<close>

fun boot_steps :: "'w run_host \<Rightarrow> boot_step list \<Rightarrow> ('w, unit) run_act" where
  "boot_steps h [] st = (Inr (), st)"
| "boot_steps h (s # ss) st = (case on_world (Booted s) (rn_boot h s) st of
     (Inl e, st1) \<Rightarrow> (Inl e, st1) | (Inr _, st1) \<Rightarrow> boot_steps h ss st1)"

text \<open>The barrier's first step opens the gate that reports and funding wait behind.\<close>

definition materialise_step :: "'w run_host \<Rightarrow> 'w running barrier_step" where
  "materialise_step h st = (case rn_materialise h (snd st) of
     (Inr True, w) \<Rightarrow> (Inr True, (fst st)\<lparr>er_account_open := True\<rparr>, w)
   | (r, w) \<Rightarrow> (r, fst st, w))"

definition reconcile_step :: "'w run_host \<Rightarrow> 'w running barrier_step" where
  "reconcile_step h st = (case rn_reconcile_startup h (snd st) of (r, w) \<Rightarrow> (r, fst st, w))"

definition early_boot :: "boot_step list" where
  "early_boot = [Recover, SubscribeSignals, SubscribeReports, SubscribeFunding, SubscribeMarks, BusStart, ExchangeStart]"

definition after_barrier :: "'w run_host \<Rightarrow> ('w, unit) run_act" where
  "after_barrier h st =
     (let st1 = ((fst st)\<lparr>er_barrier_cleared := True\<rparr>, snd st) in
      case boot_steps h (if rn_exit_job h then [] else [HostStart]) st1 of
        (Inl e, st2) \<Rightarrow> (Inl e, st2)
      | (Inr _, st2) \<Rightarrow> (Inr (), (fst st2)\<lparr>er_state := RUNNING_STATE\<rparr>, snd st2))"

definition start_sequence :: "nat \<Rightarrow> 'w run_host \<Rightarrow> 'w running \<Rightarrow> ((run_fault + unit) \<times> 'w running) option" where
  "start_sequence n h st = (case boot_steps h early_boot st of
     (Inl e, st1) \<Rightarrow> Some (Inl e, st1)
   | (Inr _, st1) \<Rightarrow>
       (case run_barrier n (rn_clock h) [materialise_step h, reconcile_step h] (rn_startup_timeout h) (called BarrierRun st1) of
          None \<Rightarrow> None
        | Some (BarrierCleared, st2) \<Rightarrow> Some (after_barrier h st2)
        | Some (StartupReconciliationTimeout, st2) \<Rightarrow> Some (Inl StartupTimeout, st2)
        | Some (StepRaised e, st2) \<Rightarrow> Some (Inl (Raised_by e), st2)))"

text \<open>Whether an execution report or a funding accrual may be handled yet; until then its handler waits.\<close>

definition may_book :: "engine_run \<Rightarrow> bool" where
  "may_book r \<longleftrightarrow> er_account_open r"

section \<open>Teardown\<close>

definition teardown_steps :: "bool \<Rightarrow> teardown_step list" where
  "teardown_steps exit_job = [FeedStop, ReconcileStop, ExitJobStop, ExchangeStop, BusDrain]
     @ (if exit_job then [] else [HostStop]) @ [BusClose, StoreClose]"

text \<open>
  The graceful teardown ends at the first step that raises, and the fault joins the task group's.
  A teardown out of time raises in the step it had reached.
\<close>

fun graceful_teardown :: "'w run_host \<Rightarrow> teardown_step list \<Rightarrow> ('w, unit) run_act" where
  "graceful_teardown h [] st = (Inr (), st)"
| "graceful_teardown h (s # ss) st = (case on_world (TornDown s) (rn_step h s) st of
     (Inl e, st1) \<Rightarrow> (Inl (Grouped [e]), st1) | (Inr _, st1) \<Rightarrow> graceful_teardown h ss st1)"

fun best_effort_teardown :: "'w run_host \<Rightarrow> teardown_step list \<Rightarrow> 'w running \<Rightarrow> 'w running" where
  "best_effort_teardown h [] st = st"
| "best_effort_teardown h (s # ss) st = best_effort_teardown h ss (snd (on_world (TornDown s) (rn_step h s) st))"

section \<open>The run\<close>

definition close_before_boot :: "'w run_host \<Rightarrow> 'w running \<Rightarrow> 'w running" where
  "close_before_boot h st = (let st1 = snd (on_world (TornDown StoreClose) (rn_step h StoreClose) st)
     in ((fst st1)\<lparr>er_stopped := True\<rparr>, snd st1))"

definition fault_before_boot :: "'w run_host \<Rightarrow> run_fault \<Rightarrow> 'w running \<Rightarrow> nat \<times> 'w running" where
  "fault_before_boot h e st = (if rn_exit_job h then 2 else 1,
     close_before_boot h ((fst st)\<lparr>er_state := FAULTED, er_fault := Some e\<rparr>, snd st))"

definition refuse_exit_run :: "'w run_host \<Rightarrow> run_fault \<Rightarrow> 'w running \<Rightarrow> nat \<times> 'w running" where
  "refuse_exit_run h e st = (2, close_before_boot h ((fst st)\<lparr>er_state := FAULTED, er_fault := Some e\<rparr>, snd st))"

definition is_boot_refusal :: "run_fault \<Rightarrow> bool" where
  "is_boot_refusal e \<longleftrightarrow> (case e of BootRefusal _ \<Rightarrow> True | Raised_by StoreAccountMismatch \<Rightarrow> True | _ \<Rightarrow> False)"

definition faulted_run :: "'w run_host \<Rightarrow> run_fault \<Rightarrow> 'w running \<Rightarrow> nat \<times> 'w running" where
  "faulted_run h e st =
     (let st1 = best_effort_teardown h (teardown_steps (rn_exit_job h)) ((fst st)\<lparr>er_state := FAULTED, er_fault := Some e\<rparr>, snd st)
      in (if is_boot_refusal (first_leaf e) then 2 else 1, (fst st1)\<lparr>er_stopped := True\<rparr>, snd st1))"

definition stopped_run :: "'w run_host \<Rightarrow> 'w running \<Rightarrow> nat \<times> 'w running" where
  "stopped_run h st = (if \<not> rn_exit_job h \<or> rn_job_done h (snd st) then 0 else 1,
     (fst st)\<lparr>er_state := STOPPED, er_stopped := True\<rparr>, snd st)"

definition supervised_run :: "'w run_host \<Rightarrow> 'w running \<Rightarrow> nat \<times> 'w running" where
  "supervised_run h st = (case on_world TasksRun (rn_tasks h) st of
     (Inl es, st1) \<Rightarrow> faulted_run h (Grouped es) st1
   | (Inr _, st1) \<Rightarrow> (case graceful_teardown h (teardown_steps (rn_exit_job h)) st1 of
       (Inl e, st2) \<Rightarrow> faulted_run h e st2 | (Inr _, st2) \<Rightarrow> stopped_run h st2))"

definition booted_run :: "nat \<Rightarrow> 'w run_host \<Rightarrow> 'w running \<Rightarrow> (nat \<times> 'w running) option" where
  "booted_run n h st = (case start_sequence n h st of
     None \<Rightarrow> None
   | Some (Inl e, st1) \<Rightarrow> Some (faulted_run h e st1)
   | Some (Inr _, st1) \<Rightarrow> Some (supervised_run h st1))"

definition admitted_run :: "nat \<Rightarrow> 'w run_host \<Rightarrow> 'w running \<Rightarrow> (nat \<times> 'w running) option" where
  "admitted_run n h st = (if \<not> rn_exit_job h then booted_run n h st
     else (case on_world Admit (rn_admit h) st of
       (Inl e, st1) \<Rightarrow> Some (fault_before_boot h e st1)
     | (Inr (Some refusal), st1) \<Rightarrow> Some (refuse_exit_run h refusal st1)
     | (Inr None, st1) \<Rightarrow> booted_run n h st1))"

definition run_engine :: "nat \<Rightarrow> 'w run_host \<Rightarrow> 'w running \<Rightarrow> (nat \<times> 'w running) option" where
  "run_engine n h st = (case on_world StoreLock (rn_lock h) st of
     (Inl e, st1) \<Rightarrow> Some (fault_before_boot h e st1)
   | (Inr (Some holder), st1) \<Rightarrow>
       Some (if rn_exit_job h then refuse_exit_run h (StoreLockHeld holder) st1 else fault_before_boot h (StoreLockHeld holder) st1)
   | (Inr None, st1) \<Rightarrow> admitted_run n h st1)"

section \<open>Signals\<close>

datatype verb_signal = SIGINT | SIGTERM | SIGUSR1 | SIGUSR2
datatype signal_effect = RequestStop | TripKillSwitch string | ResetKillSwitch

fun on_verb :: "verb_signal \<Rightarrow> signal_effect" where
  "on_verb SIGINT = RequestStop"
| "on_verb SIGTERM = RequestStop"
| "on_verb SIGUSR1 = TripKillSwitch ''SIGUSR1: operator kill switch''"
| "on_verb SIGUSR2 = ResetKillSwitch"

section \<open>Cadences\<close>

datatype cadence = InflightCadence rat | OpenOrderCadence rat | AccountCadence rat | WakeCadence rat string

definition scheduled_cadences :: "reconcile_config \<Rightarrow> bool \<Rightarrow> (rat \<times> string) list \<Rightarrow> cadence list" where
  "scheduled_cadences c genesis wakes =
     [InflightCadence (rf_inflight_interval c), OpenOrderCadence (rf_open_order_interval c)]
     @ (if genesis then [] else [AccountCadence (rf_account_interval c)])
     @ map (\<lambda>(interval, sid). WakeCadence interval sid) wakes"

section \<open>What the calls of a run are\<close>

lemma on_world_calls: "on_world c f st = (r, st1) \<Longrightarrow> er_calls (fst st1) = er_calls (fst st) @ [c]"
  by (auto simp: on_world_def called_def split: prod.splits)

lemma on_world_frame:
  "on_world c f st = (r, st1) \<Longrightarrow> er_barrier_cleared (fst st1) = er_barrier_cleared (fst st) \<and> er_state (fst st1) = er_state (fst st)"
  by (auto simp: on_world_def called_def split: prod.splits)

lemma best_effort_calls:
  "er_calls (fst (best_effort_teardown h ss st)) = er_calls (fst st) @ map TornDown ss"
proof (induction ss arbitrary: st)
  case (Cons s ss)
  then show ?case using on_world_calls [of "TornDown s" "rn_step h s" st] by (metis (no_types, lifting) append.assoc append_Cons
      append_Nil best_effort_teardown.simps(2) list.map(2) prod.collapse)
qed simp

lemma graceful_calls:
  "graceful_teardown h ss st = (r, st1) \<Longrightarrow> \<exists>ds. er_calls (fst st1) = er_calls (fst st) @ map TornDown ds
     \<and> (r = Inr () \<longrightarrow> ds = ss)"
proof (induction ss arbitrary: st)
  case (Cons s ss)
  obtain q st2 where q: "on_world (TornDown s) (rn_step h s) st = (q, st2)" by (rule prod.exhaust)
  show ?case
  proof (cases q)
    case (Inl e)
    then show ?thesis using Cons.prems q on_world_calls [OF q] by (intro exI [of _ "[s]"]) auto
  next
    case (Inr u)
    then have "graceful_teardown h ss st2 = (r, st1)" using Cons.prems q by simp
    from Cons.IH [OF this] obtain ds where "er_calls (fst st1) = er_calls (fst st2) @ map TornDown ds" "r = Inr () \<longrightarrow> ds = ss" by blast
    then show ?thesis using on_world_calls [OF q] by (intro exI [of _ "s # ds"]) auto
  qed
qed (auto intro: exI [of _ "[]"])

lemma boot_calls:
  "boot_steps h ss st = (r, st1) \<Longrightarrow> \<exists>ds. er_calls (fst st1) = er_calls (fst st) @ map Booted ds
     \<and> set ds \<subseteq> set ss \<and> (r = Inr () \<longrightarrow> ds = ss) \<and> er_barrier_cleared (fst st1) = er_barrier_cleared (fst st)"
proof (induction ss arbitrary: st)
  case (Cons s ss)
  obtain q st2 where q: "on_world (Booted s) (rn_boot h s) st = (q, st2)" by (rule prod.exhaust)
  show ?case
  proof (cases q)
    case (Inl e)
    then show ?thesis using Cons.prems q on_world_calls [OF q] on_world_frame [OF q] by (intro exI [of _ "[s]"]) auto
  next
    case (Inr u)
    then have "boot_steps h ss st2 = (r, st1)" using Cons.prems q by simp
    from Cons.IH [OF this] obtain ds where "er_calls (fst st1) = er_calls (fst st2) @ map Booted ds"
      "set ds \<subseteq> set ss" "r = Inr () \<longrightarrow> ds = ss" "er_barrier_cleared (fst st1) = er_barrier_cleared (fst st2)" by blast
    then show ?thesis using on_world_calls [OF q] on_world_frame [OF q] by (intro exI [of _ "s # ds"]) auto
  qed
qed (auto intro: exI [of _ "[]"])

text \<open>What the barrier's rounds and sleeps change of the run is the account gate alone.\<close>

definition keeps_run :: "engine_run \<Rightarrow> 'w running \<Rightarrow> bool" where
  "keeps_run r st \<longleftrightarrow> er_calls (fst st) = er_calls r \<and> er_barrier_cleared (fst st) = er_barrier_cleared r"

definition quiet_clock :: "'w running clock \<Rightarrow> bool" where
  "quiet_clock ck \<longleftrightarrow> (\<forall>d st. fst (ck_sleep ck d st) = fst st)"

lemma quiet_clockD: "quiet_clock ck \<Longrightarrow> fst (ck_sleep ck d st) = fst st"
  unfolding quiet_clock_def by blast

lemma barrier_step_keeps: "keeps_run r st \<Longrightarrow> step \<in> {materialise_step h, reconcile_step h} \<Longrightarrow> keeps_run r (snd (step st))"
  by (auto simp: keeps_run_def materialise_step_def reconcile_step_def split: prod.splits sum.splits bool.splits)

lemma barrier_attempt_keeps:
  "set steps \<subseteq> {materialise_step h, reconcile_step h} \<Longrightarrow> keeps_run r st \<Longrightarrow> keeps_run r (snd (barrier_attempt steps st))"
proof (induction steps arbitrary: st)
  case (Cons step steps)
  obtain q st1 where q: "step st = (q, st1)" by (rule prod.exhaust)
  have "keeps_run r st1" using barrier_step_keeps [OF Cons.prems(2), of step h] Cons.prems(1) q by simp
  then show ?case using Cons.IH [of st1] Cons.prems(1) q by (auto split: sum.splits bool.splits)
qed simp

lemma barrier_keeps:
  assumes "quiet_clock ck" "set steps \<subseteq> {materialise_step h, reconcile_step h}"
  shows "barrier_loop n ck d steps b st = Some (e, st') \<Longrightarrow> keeps_run r st \<Longrightarrow> keeps_run r st'"
proof (induction n arbitrary: b st)
  case (Suc n)
  obtain q st1 where q: "barrier_attempt steps st = (q, st1)" by (rule prod.exhaust)
  have k: "keeps_run r st1" using barrier_attempt_keeps [OF assms(2) Suc.prems(2)] q by simp
  obtain b' st2 where s: "sleep_on ck b st1 = (b', st2)" by (rule prod.exhaust)
  have "st2 = ck_sleep ck (bo_current b) st1" using s by (simp add: sleep_on_def)
  then have "fst st2 = fst st1" by (simp only: quiet_clockD [OF assms(1)])
  then have "keeps_run r st2" using k by (simp add: keeps_run_def)
  then show ?case using Suc.IH [of b' st2] Suc.prems(1) q s k by (auto split: sum.splits bool.splits if_splits)
qed simp

lemma start_calls:
  assumes "quiet_clock (rn_clock h)" "start_sequence n h st = Some (r, st1)"
  shows "\<exists>ds. er_calls (fst st1) = er_calls (fst st) @ ds \<and>
     (Booted HostStart \<in> set ds \<longrightarrow> \<not> rn_exit_job h \<and> er_barrier_cleared (fst st1)
        \<and> ds = map Booted early_boot @ [BarrierRun, Booted HostStart])"
proof -
  obtain q st2 where q: "boot_steps h early_boot st = (q, st2)" by (rule prod.exhaust)
  from boot_calls [OF q] obtain ds where
    ds: "er_calls (fst st2) = er_calls (fst st) @ map Booted ds" "set ds \<subseteq> set early_boot" "q = Inr () \<longrightarrow> ds = early_boot" by blast
  show ?thesis
  proof (cases q)
    case (Inl e)
    then show ?thesis using assms(2) q ds by (intro exI [of _ "map Booted ds"]) (auto simp: start_sequence_def early_boot_def)
  next
    case (Inr u)
    let ?st = "called BarrierRun st2"
    obtain e st3 where b: "run_barrier n (rn_clock h) [materialise_step h, reconcile_step h] (rn_startup_timeout h) ?st = Some (e, st3)"
      using assms(2) q Inr by (auto simp: start_sequence_def split: option.splits)
    have "keeps_run (fst ?st) st3"
      by (rule barrier_keeps [OF assms(1) _ b [unfolded run_barrier_def], where h = h]) (simp_all add: keeps_run_def)
    then have c3: "er_calls (fst st3) = er_calls (fst st) @ map Booted early_boot @ [BarrierRun]"
      using ds Inr by (simp add: keeps_run_def called_def)
    show ?thesis
    proof (cases e)
      case BarrierCleared
      then have a: "after_barrier h st3 = (r, st1)" using assms(2) q Inr b by (simp add: start_sequence_def)
      let ?st3 = "((fst st3)\<lparr>er_barrier_cleared := True\<rparr>, snd st3)"
      obtain p st4 where p: "boot_steps h (if rn_exit_job h then [] else [HostStart]) ?st3 = (p, st4)" by (rule prod.exhaust)
      from boot_calls [OF p] obtain ds' where ds': "er_calls (fst st4) = er_calls (fst st3) @ map Booted ds'"
        "set ds' \<subseteq> set (if rn_exit_job h then [] else [HostStart])" "er_barrier_cleared (fst st4)"
        "p = Inr () \<longrightarrow> ds' = (if rn_exit_job h then [] else [HostStart])" by auto
      have st1: "er_calls (fst st1) = er_calls (fst st4)" "er_barrier_cleared (fst st1) = er_barrier_cleared (fst st4)"
        using a p by (auto simp: after_barrier_def Let_def split: sum.splits)
      have short: "length ds' \<le> 1" using p ds' on_world_calls
        by (cases "rn_exit_job h") (auto split: prod.splits sum.splits dest!: on_world_calls)
      show ?thesis
        using c3 ds' st1 short
        by (intro exI [of _ "map Booted early_boot @ [BarrierRun] @ map Booted ds'"])
          (cases ds'; auto simp: early_boot_def split: if_splits)
    qed (use assms(2) q Inr b c3 in \<open>auto simp: start_sequence_def early_boot_def\<close>)
  qed
qed

lemma close_before_boot_calls [simp]:
  "er_calls (fst (close_before_boot h st)) = er_calls (fst st) @ [TornDown StoreClose]"
  "er_state (fst (close_before_boot h st)) = er_state (fst st)" "er_stopped (fst (close_before_boot h st))"
  "er_fault (fst (close_before_boot h st)) = er_fault (fst st)"
  by (auto simp: close_before_boot_def Let_def on_world_def called_def split_beta)

lemma best_effort_frame [simp]:
  "er_state (fst (best_effort_teardown h ss st)) = er_state (fst st)" "er_fault (fst (best_effort_teardown h ss st)) = er_fault (fst st)"
  by (induction ss arbitrary: st) (auto simp: on_world_def called_def split_beta)

definition run_ended :: "'w run_host \<Rightarrow> nat \<times> 'w running \<Rightarrow> bool" where
  "run_ended h out \<longleftrightarrow> (case out of (code, st) \<Rightarrow> code \<le> 2 \<and> er_stopped (fst st)
     \<and> (code = 0 \<longleftrightarrow> er_state (fst st) = STOPPED \<and> (rn_exit_job h \<longrightarrow> rn_job_done h (snd st)))
     \<and> (er_state (fst st) = STOPPED \<or> er_state (fst st) = FAULTED \<and> er_fault (fst st) \<noteq> None))"

lemma ended [simp]:
  "run_ended h (fault_before_boot h e st)" "run_ended h (refuse_exit_run h e st)" "run_ended h (faulted_run h e st)"
  "run_ended h (stopped_run h st)"
  by (auto simp: run_ended_def fault_before_boot_def refuse_exit_run_def faulted_run_def stopped_run_def Let_def)

lemma supervised_ended [simp]: "run_ended h (supervised_run h st)"
  unfolding supervised_run_def by (simp split: prod.split sum.split)

lemma booted_ended: "booted_run n h st = Some out \<Longrightarrow> run_ended h out"
  unfolding booted_run_def by (auto split: option.splits prod.splits sum.splits)

lemma admitted_ended: "admitted_run n h st = Some out \<Longrightarrow> run_ended h out"
  unfolding admitted_run_def by (auto dest: booted_ended split: if_splits option.splits prod.splits sum.splits)

lemma run_engine_ended: "run_engine n h st = Some out \<Longrightarrow> run_ended h out"
  unfolding run_engine_def by (auto dest: admitted_ended split: if_splits option.splits prod.splits sum.splits)

text \<open>
  The exit code says how the run ended: 0 exactly for a run that was stopped and, where an
  operator job ran in place of the strategies, whose job reported done; otherwise the run faulted
  with its fault kept, or the job had not reported, and the code is 1 or 2.
\<close>

theorem exit_code_contract:
  assumes "run_engine n h st = Some (code, st')"
  shows "code \<le> 2 \<and> er_stopped (fst st')
     \<and> (code = 0 \<longleftrightarrow> er_state (fst st') = STOPPED \<and> (rn_exit_job h \<longrightarrow> rn_job_done h (snd st')))
     \<and> (er_state (fst st') = STOPPED \<or> er_state (fst st') = FAULTED \<and> er_fault (fst st') \<noteq> None)"
  using run_engine_ended [OF assms] by (simp add: run_ended_def)

section \<open>Order of the calls\<close>

text \<open>A run whose store was not locked or whose job was not admitted touches nothing but the store's own connection.\<close>

definition calls_in_order :: "bool \<Rightarrow> run_call list \<Rightarrow> bool" where
  "calls_in_order exit_job cs \<longleftrightarrow>
     cs \<in> {[StoreLock, TornDown StoreClose], [StoreLock, Admit, TornDown StoreClose]}
     \<or> (\<exists>ds es. cs = (if exit_job then [StoreLock, Admit] else [StoreLock]) @ ds @ es @ map TornDown (teardown_steps exit_job)
          \<and> (Booted HostStart \<in> set ds \<longrightarrow> \<not> exit_job \<and> ds = map Booted early_boot @ [BarrierRun, Booted HostStart])
          \<and> set es \<subseteq> insert TasksRun (range TornDown))"

lemma faulted_calls: "er_calls (fst (snd (faulted_run h e st))) = er_calls (fst st) @ map TornDown (teardown_steps (rn_exit_job h))"
  by (simp add: faulted_run_def Let_def best_effort_calls)

lemma supervised_calls:
  "\<exists>es. er_calls (fst (snd (supervised_run h st))) = er_calls (fst st) @ es @ map TornDown (teardown_steps (rn_exit_job h))
     \<and> set es \<subseteq> insert TasksRun (range TornDown)"
proof -
  obtain q st1 where q: "on_world TasksRun (rn_tasks h) st = (q, st1)" by (rule prod.exhaust)
  have c1: "er_calls (fst st1) = er_calls (fst st) @ [TasksRun]" by (rule on_world_calls [OF q])
  show ?thesis
  proof (cases q)
    case (Inl xs)
    then show ?thesis using q c1 by (intro exI [of _ "[TasksRun]"]) (simp add: supervised_run_def faulted_calls)
  next
    case (Inr u)
    obtain r st2 where r: "graceful_teardown h (teardown_steps (rn_exit_job h)) st1 = (r, st2)" by (rule prod.exhaust)
    from graceful_calls [OF r] obtain ds where ds: "er_calls (fst st2) = er_calls (fst st1) @ map TornDown ds"
      "r = Inr () \<longrightarrow> ds = teardown_steps (rn_exit_job h)" by blast
    show ?thesis
    proof (cases r)
      case (Inl e)
      then show ?thesis using q Inr r c1 ds
        by (intro exI [of _ "TasksRun # map TornDown ds"]) (auto simp: supervised_run_def faulted_calls)
    next
      case ok: (Inr u')
      then show ?thesis using q Inr r c1 ds
        by (intro exI [of _ "[TasksRun]"]) (auto simp: supervised_run_def stopped_run_def)
    qed
  qed
qed

lemma booted_calls:
  assumes "quiet_clock (rn_clock h)" "booted_run n h st = Some (code, st')"
  shows "\<exists>ds es. er_calls (fst st') = er_calls (fst st) @ ds @ es @ map TornDown (teardown_steps (rn_exit_job h))
     \<and> (Booted HostStart \<in> set ds \<longrightarrow> \<not> rn_exit_job h \<and> ds = map Booted early_boot @ [BarrierRun, Booted HostStart])
     \<and> set es \<subseteq> insert TasksRun (range TornDown)"
proof -
  obtain r st1 where s: "start_sequence n h st = Some (r, st1)" using assms(2) by (auto simp: booted_run_def split: option.splits)
  from start_calls [OF assms(1) s] obtain ds where ds: "er_calls (fst st1) = er_calls (fst st) @ ds"
    "Booted HostStart \<in> set ds \<longrightarrow> \<not> rn_exit_job h \<and> ds = map Booted early_boot @ [BarrierRun, Booted HostStart]" by blast
  show ?thesis
  proof (cases r)
    case (Inl e)
    then have "st' = snd (faulted_run h e st1)" using assms(2) s by (simp add: booted_run_def)
    then show ?thesis using ds by (intro exI [of _ ds] exI [of _ "[]"]) (simp add: faulted_calls)
  next
    case (Inr u)
    then have "st' = snd (supervised_run h st1)" using assms(2) s by (simp add: booted_run_def)
    then show ?thesis using ds supervised_calls [of h st1] by (metis append.assoc)
  qed
qed



section \<open>A run on a venue that answers\<close>

definition demo_run_host :: "bool \<Rightarrow> int run_host" where
  "demo_run_host exit_job = \<lparr>rn_exit_job = exit_job, rn_startup_timeout = 3,
     rn_clock = \<lparr>ck_now = snd, ck_sleep = (\<lambda>d st. (fst st, snd st + max 0 (round_down (d * of_int NS_PER_SECOND))))\<rparr>,
     rn_lock = (\<lambda>w. (Inr None, w)), rn_admit = (\<lambda>w. (Inr None, w)), rn_boot = (\<lambda>s w. (Inr (), w)),
     rn_materialise = (\<lambda>w. (Inr True, w)), rn_reconcile_startup = (\<lambda>w. (Inr (1 \<le> w), w)),
     rn_tasks = (\<lambda>w. (Inr (), w)), rn_step = (\<lambda>s w. (if s = BusDrain then Inl StopTimeout else Inr (), w)),
     rn_job_done = (\<lambda>w. True)\<rparr>"

lemma demo_run_faults: "\<exists>w. run_engine 4 (demo_run_host False) (make_run, 1) = Some (1, w) \<and> er_state (fst w) = FAULTED"
  by (simp add: run_engine_def admitted_run_def booted_run_def start_sequence_def boot_steps.simps early_boot_def on_world_def called_def
      demo_run_host_def run_barrier_def materialise_step_def reconcile_step_def after_barrier_def supervised_run_def
      teardown_steps_def faulted_run_def is_boot_refusal_def open_deadline_def eval_nat_numeral Let_def make_run_def)

lemma demo_run_quiet: "quiet_clock (rn_clock (demo_run_host exit_job))"
  by (simp add: quiet_clock_def demo_run_host_def)

theorem exit_code_contract_witness:
  "\<exists>w. run_engine 4 (demo_run_host False) (make_run, 1) = Some (1, w) \<and> er_stopped (fst w) \<and> er_fault (fst w) \<noteq> None"
  using demo_run_faults exit_code_contract [of 4 "demo_run_host False" "(make_run, 1)"] by fastforce



end
