(* ===== verification/TW_Json.thy ===== *)
theory TW_Json
  imports TW_Wire
begin

text \<open>
  JSON as text: \<open>json.dumps\<close> and \<open>json.loads\<close> as the store and the strategies use them, with
  the default separators and \<open>ensure_ascii\<close>. A fraction, an exponent and a code point beyond 255
  are read as an error, for no text written here has one. The reader takes fuel; twice the length
  of the text is enough, more changes nothing.
\<close>

section \<open>Writing\<close>

definition escaped :: "char \<Rightarrow> string" where
  "escaped c = (let n = of_char c :: nat in
     if n = 34 \<or> n = 92 then [CHR 0x5C, c]
     else if n = 10 then [CHR 0x5C, CHR ''n'']
     else if n = 13 then [CHR 0x5C, CHR ''r'']
     else if n = 9 then [CHR 0x5C, CHR ''t'']
     else if n = 12 then [CHR 0x5C, CHR ''f'']
     else if n = 8 then [CHR 0x5C, CHR ''b'']
     else if n < 32 \<or> 126 < n then [CHR 0x5C, CHR ''u'', CHR ''0'', CHR ''0'', hex_digit (n div 16), hex_digit (n mod 16)]
     else [c])"

definition json_quote :: "string \<Rightarrow> string" where
  "json_quote s = CHR 0x22 # concat (map escaped s) @ [CHR 0x22]"

fun dumps :: "json \<Rightarrow> string" where
  "dumps JNull = ''null''"
| "dumps (JBool b) = (if b then ''true'' else ''false'')"
| "dumps (JInt i) = show_int i"
| "dumps (JFloat q r) = r"
| "dumps (JStr s) = json_quote s"
| "dumps (JList xs) = CHR ''['' # join '', '' (map dumps xs) @ '']''"
| "dumps (JObj d) = CHR ''{'' # join '', '' (map (\<lambda>(k, v). json_quote k @ '': '' @ dumps v) d) @ ''}''"

section \<open>Reading\<close>

definition skip_ws :: "string \<Rightarrow> string" where
  "skip_ws = dropWhile (\<lambda>c. (of_char c :: nat) \<in> {32, 9, 10, 13})"

definition hex_value :: "char \<Rightarrow> nat option" where
  "hex_value c = (let n = of_char c :: nat in
     if 48 \<le> n \<and> n \<le> 57 then Some (n - 48)
     else if 97 \<le> n \<and> n \<le> 102 then Some (n - 87)
     else if 65 \<le> n \<and> n \<le> 70 then Some (n - 55) else None)"

definition plain_escape :: "char \<Rightarrow> char option" where
  "plain_escape c = (if c \<in> {CHR 0x22, CHR 0x5C, CHR ''/''} then Some c
     else if c = CHR ''b'' then Some (char_of (8 :: nat)) else if c = CHR ''f'' then Some (char_of (12 :: nat))
     else if c = CHR ''n'' then Some (char_of (10 :: nat)) else if c = CHR ''r'' then Some (char_of (13 :: nat))
     else if c = CHR ''t'' then Some (char_of (9 :: nat)) else None)"

definition code_point :: "string \<Rightarrow> char option" where
  "code_point s = (case those (map hex_value s) of
     None \<Rightarrow> None
   | Some ds \<Rightarrow> let n = foldl (\<lambda>a d. 16 * a + d) 0 ds in if length s = 4 \<and> n < 256 then Some (char_of n) else None)"

text \<open>What follows the opening quote of a string, up to its closing one.\<close>

fun take_string :: "string \<Rightarrow> (string \<times> string) option" where
  "take_string [] = None"
| "take_string (c # cs) =
     (if c = CHR 0x22 then Some ([], cs)
      else if c = CHR 0x5C then (case cs of
          [] \<Rightarrow> None
        | e # r \<Rightarrow>
            if e = CHR ''u'' then (case code_point (take 4 r) of
                Some x \<Rightarrow> map_option (map_prod (Cons x) id) (take_string (drop 4 r)) | None \<Rightarrow> None)
            else (case plain_escape e of
                Some x \<Rightarrow> map_option (map_prod (Cons x) id) (take_string r) | None \<Rightarrow> None))
      else if (of_char c :: nat) < 32 then None
      else map_option (map_prod (Cons c) id) (take_string cs))"

definition take_number :: "string \<Rightarrow> (int \<times> string) option" where
  "take_number s = (let neg = take 1 s = ''-''; u = (if neg then drop 1 s else s) in
     case take_digits u of (ds, r) \<Rightarrow>
       if ds = [] then None
       else (let (v, rest) = (if hd ds = 0 then (0, drop 1 u) else (digits_value ds, r)) in
         if rest \<noteq> [] \<and> hd rest \<in> {CHR ''.'', CHR ''e'', CHR ''E''} then None
         else Some (if neg then - v else v, rest)))"

fun parse_json :: "nat \<Rightarrow> string \<Rightarrow> (json \<times> string) option"
  and parse_items :: "nat \<Rightarrow> string \<Rightarrow> (json list \<times> string) option"
  and parse_members :: "nat \<Rightarrow> string \<Rightarrow> ((string \<times> json) list \<times> string) option" where
  "parse_json 0 s = None"
| "parse_json (Suc n) s = (case s of
     [] \<Rightarrow> None
   | c # cs \<Rightarrow>
       if c = CHR 0x22 then map_option (map_prod JStr id) (take_string cs)
       else if c = CHR ''['' then
         (if take 1 (skip_ws cs) = '']'' then Some (JList [], drop 1 (skip_ws cs))
          else map_option (map_prod JList id) (parse_items n (skip_ws cs)))
       else if c = CHR ''{'' then
         (if take 1 (skip_ws cs) = ''}'' then Some (JObj [], drop 1 (skip_ws cs))
          else map_option (map_prod (\<lambda>d. JObj (dict_of d)) id) (parse_members n (skip_ws cs)))
       else if take 4 s = ''null'' then Some (JNull, drop 4 s)
       else if take 4 s = ''true'' then Some (JBool True, drop 4 s)
       else if take 5 s = ''false'' then Some (JBool False, drop 5 s)
       else map_option (map_prod JInt id) (take_number s))"
| "parse_items 0 s = None"
| "parse_items (Suc n) s = (case parse_json n s of
     None \<Rightarrow> None
   | Some (x, r) \<Rightarrow> (case skip_ws r of
       [] \<Rightarrow> None
     | c # u \<Rightarrow>
         if c = CHR '','' then map_option (map_prod (Cons x) id) (parse_items n (skip_ws u))
         else if c = CHR '']'' then Some ([x], u) else None))"
| "parse_members 0 s = None"
| "parse_members (Suc n) s =
     (if take 1 s \<noteq> [CHR 0x22] then None
      else (case take_string (drop 1 s) of
        None \<Rightarrow> None
      | Some (k, r) \<Rightarrow>
          if take 1 (skip_ws r) \<noteq> '':'' then None
          else (case parse_json n (skip_ws (drop 1 (skip_ws r))) of
            None \<Rightarrow> None
          | Some (v, r') \<Rightarrow> (case skip_ws r' of
              [] \<Rightarrow> None
            | c # u \<Rightarrow>
                if c = CHR '','' then map_option (map_prod (Cons (k, v)) id) (parse_members n (skip_ws u))
                else if c = CHR ''}'' then Some ([(k, v)], u) else None))))"

definition loads :: "string \<Rightarrow> json option" where
  "loads s = (case parse_json (2 * length s + 2) (skip_ws s) of
     Some (j, r) \<Rightarrow> if skip_ws r = [] then Some j else None
   | None \<Rightarrow> None)"

section \<open>Strings read back\<close>

lemma hex_value_digit: "k < 16 \<Longrightarrow> hex_value (hex_digit k) = Some k"
  by (auto simp: hex_value_def hex_digit_def Let_def)

lemma code_point_escaped: "n < 256 \<Longrightarrow> code_point [CHR ''0'', CHR ''0'', hex_digit (n div 16), hex_digit (n mod 16)] = Some (char_of n)"
proof -
  assume n: "n < 256"
  have z: "hex_value (CHR ''0'') = Some 0" by (simp add: hex_value_def)
  have "16 * (n div 16) + n mod 16 = n" by simp
  then show ?thesis using n by (simp add: code_point_def z hex_value_digit)
qed

lemma char_eq_code: "c = d \<longleftrightarrow> (of_char c :: nat) = of_char d"
  by (simp add: of_char_eq_iff)

lemma take_string_escaped: "take_string (escaped c @ u) = map_option (map_prod (Cons c) id) (take_string u)"
proof -
  let ?n = "of_char c :: nat"
  have c: "char_of ?n = c" by simp
  consider (mark) "?n = 34 \<or> ?n = 92" | (ctl) "?n \<in> {10, 13, 9, 12, 8}"
    | (hex) "?n \<notin> {34, 92, 10, 13, 9, 12, 8}" "?n < 32 \<or> 126 < ?n"
    | (plain) "?n \<notin> {34, 92}" "\<not> ?n < 32" "\<not> 126 < ?n" by auto
  then show ?thesis
  proof cases
    case mark
    then have "c \<in> {CHR 0x22, CHR 0x5C}" by (auto simp: char_eq_code)
    then show ?thesis by (auto simp: escaped_def plain_escape_def Let_def)
  next
    case ctl
    have "c = char_of (10 :: nat) \<or> c = char_of (13 :: nat) \<or> c = char_of (9 :: nat) \<or> c = char_of (12 :: nat) \<or> c = char_of (8 :: nat)"
      using ctl c by (metis insertE singletonD)
    then show ?thesis by (elim disjE) (simp_all add: escaped_def plain_escape_def)
  next
    case hex
    then have "escaped c = [CHR 0x5C, CHR ''u'', CHR ''0'', CHR ''0'', hex_digit (?n div 16), hex_digit (?n mod 16)]"
      by (simp add: escaped_def Let_def)
    then show ?thesis using code_point_escaped [of ?n] by simp
  next
    case plain
    then have "escaped c = [c]" "c \<noteq> CHR 0x22" "c \<noteq> CHR 0x5C" by (auto simp: escaped_def Let_def char_eq_code)
    then show ?thesis using plain by simp
  qed
qed

lemma take_string_quote: "take_string (concat (map escaped s) @ CHR 0x22 # u) = Some (s, u)"
  by (induction s) (simp_all add: take_string_escaped)

section \<open>Numbers read back\<close>

text \<open>A number ends where its digits do: at the end of the text or at a mark of the JSON around it.\<close>

definition number_ends :: "string \<Rightarrow> bool" where
  "number_ends r \<longleftrightarrow> r = [] \<or> hd r \<in> {CHR '','', CHR '']'', CHR ''}''}"

lemma number_ends_digit: "number_ends r \<Longrightarrow> r = [] \<or> digit_of (hd r) = None"
  by (auto simp: number_ends_def digit_of_def)

lemma show_nat_head:
  "\<exists>d ds. show_nat n = map digit_char (d # ds) \<and> (\<forall>x \<in> set (d # ds). x < 10) \<and> digits_value (d # ds) = int n \<and> (d = 0 \<longrightarrow> n = 0 \<and> ds = [])"
proof (induction n rule: show_nat.induct)
  case (1 n)
  show ?case
  proof (cases "n < 10")
    case True
    then show ?thesis by (intro exI [of _ n] exI [of _ "[]"]) (simp add: show_nat.simps [of n] digits_value_def)
  next
    case False
    with 1 obtain d ds where d: "show_nat (n div 10) = map digit_char (d # ds)" "\<forall>x \<in> set (d # ds). x < 10"
      "digits_value (d # ds) = int (n div 10)" "d = 0 \<longrightarrow> n div 10 = 0 \<and> ds = []" by blast
    have "10 * int (n div 10) + int (n mod 10) = int n" by presburger
    moreover have "d \<noteq> 0" using d(4) False by auto
    moreover have "digits_value (d # ds @ [n mod 10]) = 10 * digits_value (d # ds) + int (n mod 10)"
      using digits_value_simps(2) [of "d # ds"] by simp
    ultimately show ?thesis using d False
      by (intro exI [of _ d] exI [of _ "ds @ [n mod 10]"]) (auto simp: show_nat.simps [of n])
  qed
qed

lemma take_number_show:
  assumes "number_ends r"
  shows "take_number (show_int i @ r) = Some (i, r)"
proof -
  obtain d ds where d: "show_nat (nat \<bar>i\<bar>) = map digit_char (d # ds)" "\<forall>x \<in> set (d # ds). x < 10"
    "digits_value (d # ds) = int (nat \<bar>i\<bar>)" "d = 0 \<longrightarrow> nat \<bar>i\<bar> = 0 \<and> ds = []" using show_nat_head by blast
  have t: "take_digits (map digit_char (d # ds) @ r) = (d # ds, r)"
    by (rule take_digits_map [OF d(2) number_ends_digit [OF assms]])
  have n: "digit_char d \<noteq> CHR ''-''" using digit_char_not_mark(1) d(2) by simp
  have e: "\<not> (r \<noteq> [] \<and> hd r \<in> {CHR ''.'', CHR ''e'', CHR ''E''})" using assms by (auto simp: number_ends_def)
  show ?thesis
  proof (cases "i < 0")
    case True
    then have "show_int i @ r = CHR ''-'' # map digit_char (d # ds) @ r" "d \<noteq> 0" "digits_value (d # ds) = - i"
      using d by (auto simp: show_int_def)
    then show ?thesis using t e by (simp add: take_number_def)
  next
    case False
    then have i: "show_int i @ r = map digit_char (d # ds) @ r" "digits_value (d # ds) = i"
      using d by (auto simp: show_int_def)
    moreover have "i = 0 \<and> ds = []" if "d = 0" using that d(4) False by auto
    ultimately show ?thesis using t e n by (auto simp: take_number_def Let_def)
  qed
qed

section \<open>What is written is read\<close>

fun floatless :: "json \<Rightarrow> bool" where
  "floatless (JFloat q r) = False"
| "floatless (JList xs) = (\<forall>x \<in> set xs. floatless x)"
| "floatless (JObj d) = (dict_ok d \<and> (\<forall>x \<in> set d. floatless (snd x)))"
| "floatless j = True"

lemma join_Cons: "join sep (x # xs) = (if xs = [] then x else x @ sep @ join sep xs)"
  by (cases xs) auto

lemma dumps_first:
  assumes "floatless j"
  shows "\<exists>c cs. dumps j = c # cs \<and> (of_char c :: nat) \<notin> {32, 9, 10, 13} \<and> c \<notin> {CHR '']'', CHR ''}''}"
proof -
  have "(of_char c :: nat) \<notin> {32, 9, 10, 13} \<and> c \<notin> {CHR '']'', CHR ''}''}" if "c \<in> set (show_int i)" for c i
    using that by (auto simp: show_int_def char_eq_code split: if_splits dest!: show_nat_chars simp: digit_char_code)
  moreover have "show_int i \<noteq> []" for i by (simp add: show_int_def)
  ultimately show ?thesis using assms
    by (cases j) (auto simp: json_quote_def neq_Nil_conv split: if_splits, metis list.set_intros(1))
qed

lemma skip_ws_dumps: "floatless j \<Longrightarrow> skip_ws (dumps j @ r) = dumps j @ r"
  using dumps_first [of j] by (auto simp: skip_ws_def)

lemma show_int_first:
  "\<exists>c cs. show_int i = c # cs \<and> c \<notin> {CHR 0x22, CHR ''['', CHR ''{'', CHR ''n'', CHR ''t'', CHR ''f''}"
proof -
  have "c \<notin> {CHR 0x22, CHR ''['', CHR ''{'', CHR ''n'', CHR ''t'', CHR ''f''}" if "c \<in> set (show_int i)" for c
    using that by (auto simp: show_int_def char_eq_code split: if_splits dest!: show_nat_chars simp: digit_char_code)
  moreover have "show_int i \<noteq> []" by (simp add: show_int_def)
  ultimately show ?thesis by (metis list.exhaust list.set_intros(1))
qed

lemma skip_ws_marks [simp]:
  "skip_ws (CHR '' '' # u) = skip_ws u" "skip_ws (CHR '','' # u) = CHR '','' # u" "skip_ws (CHR '']'' # u) = CHR '']'' # u"
  "skip_ws (CHR ''}'' # u) = CHR ''}'' # u" "skip_ws (CHR '':'' # u) = CHR '':'' # u" "skip_ws [] = []"
  "skip_ws (CHR 0x22 # u) = CHR 0x22 # u"
  by (simp_all add: skip_ws_def)

lemma number_ends_marks [simp]:
  "number_ends (CHR '','' # u)" "number_ends (CHR '']'' # u)" "number_ends (CHR ''}'' # u)" "number_ends []"
  by (simp_all add: number_ends_def)

abbreviation member_text :: "string \<times> json \<Rightarrow> string" where
  "member_text \<equiv> \<lambda>(k, v). json_quote k @ '': '' @ dumps v"

definition reads_back :: "nat \<Rightarrow> bool" where
  "reads_back n \<longleftrightarrow>
     (\<forall>j r. floatless j \<longrightarrow> length (dumps j) < n \<longrightarrow> number_ends r \<longrightarrow> parse_json n (dumps j @ r) = Some (j, r))
     \<and> (\<forall>xs r. xs \<noteq> [] \<longrightarrow> (\<forall>x \<in> set xs. floatless x) \<longrightarrow> length (join '', '' (map dumps xs)) + 1 < n
          \<longrightarrow> parse_items n (join '', '' (map dumps xs) @ CHR '']'' # r) = Some (xs, r))
     \<and> (\<forall>d r. d \<noteq> [] \<longrightarrow> (\<forall>x \<in> set d. floatless (snd x)) \<longrightarrow> length (join '', '' (map member_text d)) + 1 < n
          \<longrightarrow> parse_members n (join '', '' (map member_text d) @ CHR ''}'' # r) = Some (d, r))"

lemma reads_backD:
  assumes "reads_back n"
  shows "floatless j \<Longrightarrow> length (dumps j) < n \<Longrightarrow> number_ends r \<Longrightarrow> parse_json n (dumps j @ r) = Some (j, r)"
    and "xs \<noteq> [] \<Longrightarrow> \<forall>x \<in> set xs. floatless x \<Longrightarrow> length (join '', '' (map dumps xs)) + 1 < n
      \<Longrightarrow> parse_items n (join '', '' (map dumps xs) @ CHR '']'' # r) = Some (xs, r)"
    and "d \<noteq> [] \<Longrightarrow> \<forall>x \<in> set d. floatless (snd x) \<Longrightarrow> length (join '', '' (map member_text d)) + 1 < n
      \<Longrightarrow> parse_members n (join '', '' (map member_text d) @ CHR ''}'' # r) = Some (d, r)"
  using assms unfolding reads_back_def by blast+

lemma join_items_first:
  assumes "xs \<noteq> []" "\<forall>x \<in> set xs. floatless x"
  shows "\<exists>c cs. join '', '' (map dumps xs) = c # cs \<and> (of_char c :: nat) \<notin> {32, 9, 10, 13} \<and> c \<notin> {CHR '']'', CHR ''}''}"
  using assms dumps_first [of "hd xs"] by (cases xs) (auto simp: join_Cons)

lemma join_members_first: "d \<noteq> [] \<Longrightarrow> \<exists>cs. join '', '' (map member_text d) = CHR 0x22 # cs"
  by (cases d) (auto simp: join_Cons json_quote_def)

lemma list_reads_back:
  assumes "reads_back n" "floatless (JList xs)" "length (dumps (JList xs)) < Suc n"
  shows "parse_json (Suc n) (dumps (JList xs) @ r) = Some (JList xs, r)"
proof (cases "xs = []")
  case False
  then obtain c cs where c: "join '', '' (map dumps xs) = c # cs" "(of_char c :: nat) \<notin> {32, 9, 10, 13}" "c \<noteq> CHR '']''"
    using join_items_first [OF False] assms(2) by auto
  then have "skip_ws (join '', '' (map dumps xs) @ CHR '']'' # r) = join '', '' (map dumps xs) @ CHR '']'' # r"
    by (simp add: skip_ws_def)
  moreover have "parse_items n (join '', '' (map dumps xs) @ CHR '']'' # r) = Some (xs, r)"
    using reads_backD(2) [OF assms(1) False] assms(2,3) by simp
  ultimately show ?thesis using c by simp
qed simp

lemma object_reads_back:
  assumes "reads_back n" "floatless (JObj d)" "length (dumps (JObj d)) < Suc n"
  shows "parse_json (Suc n) (dumps (JObj d) @ r) = Some (JObj d, r)"
proof (cases "d = []")
  case False
  then obtain cs where c: "join '', '' (map member_text d) = CHR 0x22 # cs" using join_members_first by blast
  have "parse_members n (join '', '' (map member_text d) @ CHR ''}'' # r) = Some (d, r)"
    by (rule reads_backD(3) [OF assms(1) False]) (use assms(2,3) in simp_all)
  moreover have "dict_of d = d" using assms(2) by (simp add: dict_of_distinct dict_ok_def)
  ultimately show ?thesis using c by simp
qed simp

lemma items_read_back:
  assumes "reads_back n" "\<forall>x \<in> set (x # xs). floatless x" "length (join '', '' (map dumps (x # xs))) + 1 < Suc n"
  shows "parse_items (Suc n) (join '', '' (map dumps (x # xs)) @ CHR '']'' # r) = Some (x # xs, r)"
proof (cases xs)
  case Nil
  then show ?thesis using reads_backD(1) [OF assms(1), of x "CHR '']'' # r"] assms(2,3) by simp
next
  case (Cons y ys)
  let ?t = "join '', '' (map dumps xs)"
  have s: "join '', '' (map dumps (x # xs)) = dumps x @ CHR '','' # CHR '' '' # ?t" using Cons by simp
  have v: "parse_json n (dumps x @ CHR '','' # CHR '' '' # ?t @ CHR '']'' # r) = Some (x, CHR '','' # CHR '' '' # ?t @ CHR '']'' # r)"
    using reads_backD(1) [OF assms(1), of x "CHR '','' # CHR '' '' # ?t @ CHR '']'' # r"] assms(2,3) s by simp
  have t: "parse_items n (?t @ CHR '']'' # r) = Some (xs, r)"
    using reads_backD(2) [OF assms(1), of xs r] assms(2,3) s Cons by simp
  obtain c cs where "?t = c # cs" "(of_char c :: nat) \<notin> {32, 9, 10, 13}" using join_items_first [of xs] assms(2) Cons by auto
  then have w: "skip_ws (?t @ CHR '']'' # r) = ?t @ CHR '']'' # r" by (simp add: skip_ws_def)
  show ?thesis using s v t w by simp
qed

lemma members_read_back:
  assumes "reads_back n" "\<forall>x \<in> set ((k, v) # d). floatless (snd x)" "length (join '', '' (map member_text ((k, v) # d))) + 1 < Suc n"
  shows "parse_members (Suc n) (join '', '' (map member_text ((k, v) # d)) @ CHR ''}'' # r) = Some ((k, v) # d, r)"
proof -
  let ?t = "join '', '' (map member_text d)"
  define u where "u = (if d = [] then CHR ''}'' # r else CHR '','' # CHR '' '' # ?t @ CHR ''}'' # r)"
  have s: "join '', '' (map member_text ((k, v) # d)) @ CHR ''}'' # r = CHR 0x22 # concat (map escaped k) @ CHR 0x22 # CHR '':'' # CHR '' '' # dumps v @ u"
    by (simp add: join_Cons json_quote_def u_def)
  have len: "length (dumps v) < n" "d \<noteq> [] \<Longrightarrow> length ?t + 1 < n" using assms(3) by (auto simp: join_Cons split: if_splits)
  have v: "parse_json n (dumps v @ u) = Some (v, u)" by (rule reads_backD(1) [OF assms(1)]) (use assms(2) len in \<open>simp_all add: u_def\<close>)
  have w: "skip_ws (dumps v @ u) = dumps v @ u" by (rule skip_ws_dumps) (use assms(2) in simp)
  have t: "d \<noteq> [] \<Longrightarrow> parse_members n (?t @ CHR ''}'' # r) = Some (d, r)"
    by (rule reads_backD(3) [OF assms(1)]) (use assms(2) len in simp_all)
  have j: "d \<noteq> [] \<Longrightarrow> skip_ws (?t @ CHR ''}'' # r) = ?t @ CHR ''}'' # r" using join_members_first [of d] by auto
  show ?thesis unfolding s using take_string_quote [of k "CHR '':'' # CHR '' '' # dumps v @ u"] v w t j
    by (cases "d = []") (simp_all add: u_def)
qed

lemma reads_back_all: "reads_back n"
proof (induction n)
  case 0
  then show ?case by (simp add: reads_back_def)
next
  case (Suc n)
  have "parse_json (Suc n) (dumps j @ r) = Some (j, r)" if "floatless j" "length (dumps j) < Suc n" "number_ends r" for j r
  proof (cases j)
    case (JInt i)
    obtain c cs where "show_int i = c # cs" "c \<notin> {CHR 0x22, CHR ''['', CHR ''{'', CHR ''n'', CHR ''t'', CHR ''f''}"
      using show_int_first by blast
    then show ?thesis using JInt take_number_show [OF that(3), of i] by simp
  next
    case (JStr s)
    then show ?thesis using take_string_quote [of s r] by (simp add: json_quote_def)
  next
    case (JList xs)
    then show ?thesis using list_reads_back [OF Suc.IH] that by simp
  next
    case (JObj d)
    then show ?thesis using object_reads_back [OF Suc.IH] that by simp
  qed (use that in \<open>simp_all split: if_splits\<close>)
  moreover have "parse_items (Suc n) (join '', '' (map dumps xs) @ CHR '']'' # r) = Some (xs, r)"
    if "xs \<noteq> []" "\<forall>x \<in> set xs. floatless x" "length (join '', '' (map dumps xs)) + 1 < Suc n" for xs r
    using items_read_back [OF Suc.IH] that by (metis list.exhaust)
  moreover have "parse_members (Suc n) (join '', '' (map member_text d) @ CHR ''}'' # r) = Some (d, r)"
    if "d \<noteq> []" "\<forall>x \<in> set d. floatless (snd x)" "length (join '', '' (map member_text d)) + 1 < Suc n" for d r
    using members_read_back [OF Suc.IH] that by (metis list.exhaust prod.exhaust)
  ultimately show ?case unfolding reads_back_def by blast
qed

text \<open>What \<open>dumps\<close> writes \<open>loads\<close> reads.\<close>

lemma loads_dumps:
  assumes "floatless j"
  shows "loads (dumps j) = Some j"
proof -
  have "parse_json (2 * length (dumps j) + 2) (dumps j @ []) = Some (j, [])"
    by (rule reads_backD(1) [OF reads_back_all assms]) simp_all
  then show ?thesis using skip_ws_dumps [OF assms, of "[]"] by (simp add: loads_def)
qed

section \<open>The fuel is enough\<close>

lemma skip_ws_length: "length (skip_ws s) \<le> length s"
  by (simp add: skip_ws_def length_dropWhile_le)

lemma take_string_later:
  assumes "take_string s = Some (x, r)"
  shows "\<exists>c cs. s = c # cs \<and> (r = cs \<or> (\<exists>u y. length u \<le> length cs \<and> take_string u = Some (y, r)))"
proof (cases s)
  case (Cons c cs)
  consider "c = CHR 0x22" | (esc) "c = CHR 0x5C" | "c \<noteq> CHR 0x22" "c \<noteq> CHR 0x5C" by blast
  then show ?thesis
  proof cases
    case esc
    then obtain e t where "cs = e # t" using assms Cons by (cases cs) auto
    moreover have "\<exists>u y. length u \<le> length t \<and> take_string u = Some (y, r)"
    proof (cases "e = CHR ''u''")
      case True
      then obtain y where "take_string (drop 4 t) = Some (y, r)"
        using assms Cons esc \<open>cs = e # t\<close> by (auto split: option.splits)
      then show ?thesis by (intro exI [of _ "drop 4 t"] exI [of _ y]) simp
    next
      case False
      then obtain y where "take_string t = Some (y, r)"
        using assms Cons esc \<open>cs = e # t\<close> by (auto split: option.splits)
      then show ?thesis by blast
    qed
    ultimately show ?thesis using Cons by fastforce
  qed (use assms Cons in \<open>auto split: if_splits\<close>)
qed (use assms in simp)

lemma take_string_length: "take_string s = Some (x, r) \<Longrightarrow> length r < length s"
proof (induction s arbitrary: x rule: length_induct)
  case (1 s)
  from take_string_later [OF 1(2)] obtain c cs where c: "s = c # cs"
    "r = cs \<or> (\<exists>u y. length u \<le> length cs \<and> take_string u = Some (y, r))" by blast
  from c(2) show ?case
  proof
    assume "\<exists>u y. length u \<le> length cs \<and> take_string u = Some (y, r)"
    then obtain u y where "length u \<le> length cs" "take_string u = Some (y, r)" by blast
    moreover from this c(1) have "length r < length u" using 1(1) by auto
    ultimately show ?thesis using c(1) by simp
  qed (use c(1) in simp)
qed

lemma take_digits_length: "take_digits s = (ds, r) \<Longrightarrow> length s = length ds + length r"
  by (induction s arbitrary: ds r) (auto split: option.splits prod.splits)

lemma take_number_length:
  assumes "take_number s = Some (v, r)"
  shows "length r < length s"
proof -
  define u where "u = (if take 1 s = ''-'' then drop 1 s else s)"
  obtain ds t where t: "take_digits u = (ds, t)" by (rule prod.exhaust)
  have ds: "ds \<noteq> []" "r = (if hd ds = 0 then drop 1 u else t)"
    using assms t by (auto simp: take_number_def u_def Let_def split: if_splits)
  have "length u = length ds + length t" by (rule take_digits_length [OF t])
  moreover have "length u \<le> length s" by (simp add: u_def)
  ultimately show ?thesis using ds by (cases ds) auto
qed

definition reads_less :: "nat \<Rightarrow> bool" where
  "reads_less n \<longleftrightarrow> (\<forall>s x r. parse_json n s = Some (x, r) \<longrightarrow> length r < length s)
     \<and> (\<forall>s x r. parse_items n s = Some (x, r) \<longrightarrow> length r < length s)
     \<and> (\<forall>s x r. parse_members n s = Some (x, r) \<longrightarrow> length r < length s)"

lemma reads_lessD:
  assumes "reads_less n"
  shows "parse_json n s = Some (x, r) \<Longrightarrow> length r < length s"
    and "parse_items n s = Some (xs, r) \<Longrightarrow> length r < length s"
    and "parse_members n s = Some (d, r) \<Longrightarrow> length r < length s"
  using assms unfolding reads_less_def by blast+

lemma json_less:
  assumes "reads_less n" "parse_json (Suc n) s = Some (x, r)"
  shows "length r < length s"
proof (cases s)
  case (Cons c cs)
  show ?thesis
    using assms(2) Cons take_string_length [of cs] take_number_length [of s] skip_ws_length [of cs]
      reads_lessD(2) [OF assms(1), of "skip_ws cs"] reads_lessD(3) [OF assms(1), of "skip_ws cs"]
    by (fastforce simp: map_prod_def split: if_splits prod.splits dest: le_imp_less_Suc)
qed (use assms(2) in simp)

lemma items_less:
  assumes "reads_less n" "parse_items (Suc n) s = Some (x, r)"
  shows "length r < length s"
proof -
  obtain y t where y: "parse_json n s = Some (y, t)" using assms(2) by (auto split: option.splits)
  obtain c u where c: "skip_ws t = c # u" using assms(2) y by (auto split: list.splits)
  have l: "length t < length s" "Suc (length u) \<le> length t" "length (skip_ws u) \<le> length u"
    using reads_lessD(1) [OF assms(1) y] skip_ws_length [of t] skip_ws_length [of u] c by simp_all
  show ?thesis using assms(2) y c l reads_lessD(2) [OF assms(1), of "skip_ws u"]
    by (fastforce simp: map_prod_def split: if_splits prod.splits)
qed

lemma members_less:
  assumes "reads_less n" "parse_members (Suc n) s = Some (x, r)"
  shows "length r < length s"
proof -
  obtain k t where k: "take_string (drop 1 s) = Some (k, t)" using assms(2) by (auto split: if_splits option.splits)
  obtain v t' where v: "parse_json n (skip_ws (drop 1 (skip_ws t))) = Some (v, t')"
    using assms(2) k by (auto split: if_splits option.splits)
  obtain c u where c: "skip_ws t' = c # u" using assms(2) k v by (auto split: if_splits list.splits)
  have "length t < length (drop 1 s)" by (rule take_string_length [OF k])
  moreover have "length t' < length (skip_ws (drop 1 (skip_ws t)))" by (rule reads_lessD(1) [OF assms(1) v])
  ultimately have l: "length t' < length s" "Suc (length u) \<le> length t'" "length (skip_ws u) \<le> length u"
    using skip_ws_length [of t] skip_ws_length [of "drop 1 (skip_ws t)"] skip_ws_length [of t'] skip_ws_length [of u] c by simp_all
  show ?thesis using assms(2) k v c l reads_lessD(3) [OF assms(1), of "skip_ws u"]
    by (fastforce simp: map_prod_def split: if_splits prod.splits)
qed

lemma reads_less_all: "reads_less n"
proof (induction n)
  case (Suc n)
  show ?case unfolding reads_less_def using json_less [OF Suc.IH] items_less [OF Suc.IH] members_less [OF Suc.IH] by blast
qed (simp add: reads_less_def)

definition fuel_enough :: "nat \<Rightarrow> bool" where
  "fuel_enough n \<longleftrightarrow> (\<forall>s m. 2 * length s + 1 \<le> n \<longrightarrow> n \<le> m \<longrightarrow> parse_json m s = parse_json n s)
     \<and> (\<forall>s m. 2 * length s + 2 \<le> n \<longrightarrow> n \<le> m \<longrightarrow> parse_items m s = parse_items n s)
     \<and> (\<forall>s m. 2 * length s + 2 \<le> n \<longrightarrow> n \<le> m \<longrightarrow> parse_members m s = parse_members n s)"

lemma fuel_enoughD:
  assumes "fuel_enough n" "n \<le> m"
  shows "2 * length s + 1 \<le> n \<Longrightarrow> parse_json m s = parse_json n s"
    and "2 * length s + 2 \<le> n \<Longrightarrow> parse_items m s = parse_items n s"
    and "2 * length s + 2 \<le> n \<Longrightarrow> parse_members m s = parse_members n s"
  using assms unfolding fuel_enough_def by blast+

lemma json_fuel:
  assumes "fuel_enough n" "n \<le> m" "2 * length s + 1 \<le> Suc n"
  shows "parse_json (Suc m) s = parse_json (Suc n) s"
proof (cases s)
  case (Cons c cs)
  have "2 * length (skip_ws cs) + 2 \<le> n" using assms(3) Cons skip_ws_length [of cs] by simp
  then have "parse_items m (skip_ws cs) = parse_items n (skip_ws cs)" "parse_members m (skip_ws cs) = parse_members n (skip_ws cs)"
    by (rule fuel_enoughD(2,3) [OF assms(1,2)])+
  then show ?thesis using Cons by simp
qed simp

lemma items_fuel:
  assumes "fuel_enough n" "n \<le> m" "2 * length s + 2 \<le> Suc n"
  shows "parse_items (Suc m) s = parse_items (Suc n) s"
proof -
  have j: "parse_json m s = parse_json n s" by (rule fuel_enoughD(1) [OF assms(1,2)]) (use assms(3) in simp)
  have i: "parse_items m (skip_ws u) = parse_items n (skip_ws u)" if "parse_json n s = Some (x, r)" "skip_ws r = c # u" for x r c u
  proof (rule fuel_enoughD(2) [OF assms(1,2)])
    have "length r < length s" by (rule reads_lessD(1) [OF reads_less_all that(1)])
    then show "2 * length (skip_ws u) + 2 \<le> n" using skip_ws_length [of r] skip_ws_length [of u] that(2) assms(3) by simp
  qed
  show ?thesis using j i by (auto split: option.split list.split)
qed

lemma members_fuel:
  assumes "fuel_enough n" "n \<le> m" "2 * length s + 2 \<le> Suc n"
  shows "parse_members (Suc m) s = parse_members (Suc n) s"
proof -
  have len: "length (skip_ws (drop 1 (skip_ws t))) < length s" if "take_string (drop 1 s) = Some (k, t)" for k t
    using take_string_length [OF that] skip_ws_length [of t] skip_ws_length [of "drop 1 (skip_ws t)"] by simp
  have j: "parse_json m (skip_ws (drop 1 (skip_ws t))) = parse_json n (skip_ws (drop 1 (skip_ws t)))"
    if "take_string (drop 1 s) = Some (k, t)" for k t
    by (rule fuel_enoughD(1) [OF assms(1,2)]) (use len [OF that] assms(3) in simp)
  have i: "parse_members m (skip_ws u) = parse_members n (skip_ws u)"
    if "take_string (drop 1 s) = Some (k, t)" "parse_json n (skip_ws (drop 1 (skip_ws t))) = Some (x, r)" "skip_ws r = c # u" for k t x r c u
  proof (rule fuel_enoughD(3) [OF assms(1,2)])
    have "length r < length s" using reads_lessD(1) [OF reads_less_all that(2)] len [OF that(1)] by simp
    then show "2 * length (skip_ws u) + 2 \<le> n" using skip_ws_length [of r] skip_ws_length [of u] that(3) assms(3) by simp
  qed
  show ?thesis using j i by (auto split: option.split list.split)
qed

lemma fuel_enough_all: "fuel_enough n"
proof (induction n)
  case (Suc n)
  have up: "\<exists>k. m = Suc k \<and> n \<le> k" if "Suc n \<le> m" for m using that by (cases m) auto
  show ?case unfolding fuel_enough_def
    using json_fuel [OF Suc.IH] items_fuel [OF Suc.IH] members_fuel [OF Suc.IH] by (blast dest!: up)
qed (simp add: fuel_enough_def)

text \<open>Twice the length of a text is fuel enough to read it: more answers the same.\<close>

lemma loads_fuel:
  assumes "2 * length s + 2 \<le> n"
  shows "loads s = (case parse_json n (skip_ws s) of
     Some (j, r) \<Rightarrow> if skip_ws r = [] then Some j else None | None \<Rightarrow> None)"
proof -
  have "parse_json n (skip_ws s) = parse_json (2 * length s + 2) (skip_ws s)"
    using fuel_enoughD(1) [OF fuel_enough_all assms, of "skip_ws s"] skip_ws_length [of s] by simp
  then show ?thesis by (simp add: loads_def)
qed

end
