(* ===== verification/TW_Records.thy ===== *)
theory TW_Records
  imports TW_Json TW_Store "HOL-Library.List_Lexorder" "HOL-Library.Char_ord" "HOL-Library.Monad_Syntax"
begin

text \<open>
  The order table as columns of text: the row of \<open>src/src/tickwright/adapters/store/_records.py\<close>,
  what reads it back, and the upgrade of a table written before a column existed (\<open>_sql.py\<close>). A
  cell is what the driver was given; the driver is a function from the cell written to the cell
  read. A \<open>Decimal\<close> prints as one of the texts of its figure, which depends on the exponent the
  model leaves out: \<open>spell\<close> picks it. A raise is \<open>None\<close>.
\<close>

section \<open>Cells\<close>

datatype cell = CNull | CText string | CInt int | CBool bool

fun side_value :: "side \<Rightarrow> string" where
  "side_value BUY = ''buy''"
| "side_value SELL = ''sell''"

fun type_value :: "order_type \<Rightarrow> string" where
  "type_value MARKET = ''market''"
| "type_value LIMIT = ''limit''"

fun tif_value :: "time_in_force \<Rightarrow> string" where
  "tif_value GTC = ''gtc''"
| "tif_value IOC = ''ioc''"

definition all_states :: "order_state list" where
  "all_states = [PENDING, SUBMITTED, LIVE, PARTIALLY_FILLED, FILLED, CANCELLED, DENIED, REJECTED, FAILED]"

text \<open>The constructor of an enumeration: the member with this value.\<close>

definition enum_of :: "('a \<Rightarrow> string) \<Rightarrow> 'a list \<Rightarrow> cell \<Rightarrow> 'a option" where
  "enum_of value xs c = (case c of CText s \<Rightarrow> List.find (\<lambda>x. value x = s) xs | _ \<Rightarrow> None)"

definition text_cell :: "string option \<Rightarrow> cell" where
  "text_cell x = (case x of None \<Rightarrow> CNull | Some s \<Rightarrow> CText s)"

definition int_cell :: "int option \<Rightarrow> cell" where
  "int_cell x = (case x of None \<Rightarrow> CNull | Some i \<Rightarrow> CInt i)"

definition cell_text :: "cell \<Rightarrow> string option" where
  "cell_text c = (case c of CText s \<Rightarrow> Some s | _ \<Rightarrow> None)"

definition null_or :: "(cell \<Rightarrow> 'a option) \<Rightarrow> cell \<Rightarrow> 'a option option" where
  "null_or f c = (if c = CNull then Some None else map_option Some (f c))"

definition cell_int :: "cell \<Rightarrow> int option" where
  "cell_int c = (case c of CInt i \<Rightarrow> Some i | _ \<Rightarrow> None)"

text \<open>\<open>bool\<close> and \<open>Decimal\<close> of a cell.\<close>

definition truthy :: "cell \<Rightarrow> bool" where
  "truthy c = (case c of CNull \<Rightarrow> False | CText s \<Rightarrow> s \<noteq> '''' | CInt i \<Rightarrow> i \<noteq> 0 | CBool b \<Rightarrow> b)"

definition text_figure :: "string \<Rightarrow> decimal option" where
  "text_figure s = (case read_decimal s of Some (Finite x) \<Rightarrow> Some x | _ \<Rightarrow> None)"

definition cell_figure :: "cell \<Rightarrow> decimal option" where
  "cell_figure c = (case c of CText s \<Rightarrow> text_figure s | CInt i \<Rightarrow> Some (of_int i)
     | CBool b \<Rightarrow> Some (if b then 1 else 0) | CNull \<Rightarrow> None)"

section \<open>The order row\<close>

definition RECORD_COLUMNS :: "string list" where
  "RECORD_COLUMNS = [''cloid'', ''strategy_id'', ''signal_id'', ''symbol'', ''side'', ''quantity'', ''order_type'',
     ''state'', ''cum_qty'', ''venue_oid'', ''acked_ts_ns'', ''created_ts_ns'', ''reason'', ''cancel_requested'',
     ''cancel_requested_ts'', ''cancel_signal_id'', ''split_basis'', ''price'', ''time_in_force'', ''post_only'',
     ''reduce_only'', ''applied_event_ids'', ''history'']"

definition RECORD_UPDATE_COLUMNS :: "string list" where
  "RECORD_UPDATE_COLUMNS = filter (\<lambda>c. c \<notin> {''cloid''}) RECORD_COLUMNS"

definition READ_COLUMNS :: "string list" where
  "READ_COLUMNS = butlast RECORD_COLUMNS"

definition encode_split_basis :: "(decimal \<Rightarrow> string) \<Rightarrow> (string \<times> decimal) list option \<Rightarrow> cell" where
  "encode_split_basis spell basis = (case basis of
     None \<Rightarrow> CNull
   | Some xs \<Rightarrow> CText (dumps (JList (map (\<lambda>(owner, sz). JList [JStr owner, JStr (spell sz)]) xs))))"

fun basis_pair :: "json \<Rightarrow> (string \<times> decimal) option" where
  "basis_pair (JList [JStr owner, JStr sz]) = map_option (Pair owner) (text_figure sz)"
| "basis_pair _ = None"

definition decode_split_basis :: "cell \<Rightarrow> (string \<times> decimal) list option option" where
  "decode_split_basis c = null_or (\<lambda>c. case cell_text c of
     None \<Rightarrow> None
   | Some s \<Rightarrow> (case loads s of Some (JList xs) \<Rightarrow> those (map basis_pair xs) | _ \<Rightarrow> None)) c"

definition transition_json :: "transition \<Rightarrow> json" where
  "transition_json t = JList [JStr (state_value (fst t)), JInt (snd t)]"

definition record_values :: "(decimal \<Rightarrow> string) \<Rightarrow> order \<Rightarrow> json list \<Rightarrow> cell list" where
  "record_values spell od hist =
    [CText (o_cloid od), CText (o_strategy_id od), CText (o_signal_id od), CText (o_symbol od),
     CText (side_value (o_side od)), CText (spell (o_quantity od)), CText (type_value (o_type od)),
     CText (state_value (o_state od)), CText (spell (o_cum_qty od)), text_cell (o_venue_oid od),
     int_cell (o_acked_ts_ns od), int_cell (o_created_ts_ns od), text_cell (o_reason od),
     CBool (o_cancel_requested od), int_cell (o_cancel_requested_ts od), text_cell (o_cancel_signal_id od),
     encode_split_basis spell (o_split_basis od), text_cell (map_option spell (o_price od)),
     text_cell (map_option tif_value (o_time_in_force od)), CBool (o_post_only od), CBool (o_reduce_only od),
     CText (dumps (JList (map JStr (sorted_list_of_set (o_applied_event_ids od))))), CText (dumps (JList hist))]"

text \<open>\<open>next_history\<close> on the stored text; an absent or empty one starts the list.\<close>

definition text_next_history :: "string option \<Rightarrow> order_state \<Rightarrow> int \<Rightarrow> json list option" where
  "text_next_history existing st ts = map_option (\<lambda>xs. xs @ [transition_json (st, ts)])
     (case existing of
        Some s \<Rightarrow> if s = '''' then Some [] else (case loads s of Some (JList xs) \<Rightarrow> Some xs | _ \<Rightarrow> None)
      | None \<Rightarrow> Some [])"

fun json_string :: "json \<Rightarrow> string option" where
  "json_string (JStr s) = Some s"
| "json_string _ = None"

definition restore_ids :: "cell \<Rightarrow> string set option" where
  "restore_ids c = do {
     s \<leftarrow> cell_text c;
     j \<leftarrow> loads s;
     ids \<leftarrow> (case j of JList xs \<Rightarrow> those (map json_string xs) | _ \<Rightarrow> None);
     Some (set ids) }"

definition restore_columns :: "(string \<Rightarrow> cell) \<Rightarrow> order option" where
  "restore_columns column = do {
     cloid \<leftarrow> cell_text (column ''cloid'');
     strategy_id \<leftarrow> cell_text (column ''strategy_id'');
     signal_id \<leftarrow> cell_text (column ''signal_id'');
     symbol \<leftarrow> cell_text (column ''symbol'');
     sd \<leftarrow> enum_of side_value [BUY, SELL] (column ''side'');
     quantity \<leftarrow> cell_figure (column ''quantity'');
     kind \<leftarrow> enum_of type_value [MARKET, LIMIT] (column ''order_type'');
     st \<leftarrow> enum_of state_value all_states (column ''state'');
     cum_qty \<leftarrow> cell_figure (column ''cum_qty'');
     venue_oid \<leftarrow> null_or cell_text (column ''venue_oid'');
     acked \<leftarrow> null_or cell_int (column ''acked_ts_ns'');
     created \<leftarrow> null_or cell_int (column ''created_ts_ns'');
     reason \<leftarrow> null_or cell_text (column ''reason'');
     cancel_ts \<leftarrow> null_or cell_int (column ''cancel_requested_ts'');
     cancel_signal_id \<leftarrow> null_or cell_text (column ''cancel_signal_id'');
     ids \<leftarrow> restore_ids (column ''applied_event_ids'');
     basis \<leftarrow> decode_split_basis (column ''split_basis'');
     price \<leftarrow> null_or cell_figure (column ''price'');
     tif \<leftarrow> null_or (enum_of tif_value [GTC, IOC]) (column ''time_in_force'');
     Some \<lparr>o_cloid = cloid, o_strategy_id = strategy_id, o_signal_id = signal_id, o_symbol = symbol, o_side = sd,
       o_quantity = quantity, o_type = kind, o_state = st, o_cum_qty = cum_qty, o_venue_oid = venue_oid,
       o_acked_ts_ns = acked, o_created_ts_ns = created, o_reason = reason,
       o_cancel_requested = truthy (column ''cancel_requested''), o_cancel_requested_ts = cancel_ts,
       o_cancel_signal_id = cancel_signal_id, o_split_basis = basis, o_price = price, o_time_in_force = tif,
       o_post_only = truthy (column ''post_only''), o_reduce_only = truthy (column ''reduce_only''),
       o_applied_event_ids = ids\<rparr> }"

definition restore_order_row :: "cell list \<Rightarrow> order option" where
  "restore_order_row row = (if length row \<noteq> length READ_COLUMNS then None
     else restore_columns (\<lambda>n. the (map_of (zip READ_COLUMNS row) n)))"

section \<open>The transition history\<close>

fun transition_of :: "json \<Rightarrow> transition option" where
  "transition_of (JList [JStr s, JInt ts]) = map_option (\<lambda>st. (st, ts)) (enum_of state_value all_states (CText s))"
| "transition_of _ = None"

definition restore_history :: "string option \<Rightarrow> transition list option" where
  "restore_history text = (case text of
     None \<Rightarrow> Some []
   | Some s \<Rightarrow> if s = '''' then Some []
       else (case loads s of Some (JList xs) \<Rightarrow> those (map transition_of xs) | _ \<Rightarrow> None))"

definition acked_ts_from_history :: "string option \<Rightarrow> int option option" where
  "acked_ts_from_history text =
     map_option (\<lambda>h. map_option snd (List.find (\<lambda>t. fst t = LIVE) h)) (restore_history text)"

definition created_ts_from_history :: "string option \<Rightarrow> int option option" where
  "created_ts_from_history text =
     map_option (\<lambda>h. case h of [] \<Rightarrow> None | t # _ \<Rightarrow> Some (snd t)) (restore_history text)"

definition no_split_basis :: "string option \<Rightarrow> int option option" where
  "no_split_basis text = Some None"

definition no_order_terms :: "string option \<Rightarrow> int option option" where
  "no_order_terms text = Some None"

definition ADDED_ORDER_COLUMNS :: "(string \<times> (string option \<Rightarrow> int option option)) list" where
  "ADDED_ORDER_COLUMNS = [(''acked_ts_ns'', acked_ts_from_history), (''created_ts_ns'', created_ts_from_history),
     (''split_basis'', no_split_basis), (''price'', no_order_terms), (''time_in_force'', no_order_terms),
     (''post_only'', no_order_terms), (''reduce_only'', no_order_terms)]"

section \<open>The table\<close>

type_synonym sql_row = "(string \<times> cell) list"

record order_table =
  tb_columns :: "string list"
  tb_rows :: "(string, sql_row) dict"

definition fresh_table :: order_table where
  "fresh_table = \<lparr>tb_columns = RECORD_COLUMNS, tb_rows = []\<rparr>"

definition cell_at :: "sql_row \<Rightarrow> string \<Rightarrow> cell" where
  "cell_at row c = (case map_of row c of None \<Rightarrow> CNull | Some x \<Rightarrow> x)"

text \<open>The row an upsert leaves: the new one, or the stored one with the update columns of the new.\<close>

definition upsert_row :: "string list \<Rightarrow> sql_row \<Rightarrow> sql_row option \<Rightarrow> sql_row" where
  "upsert_row updates new stored = (case stored of
     None \<Rightarrow> new
   | Some old \<Rightarrow> foldl (\<lambda>r c. AList.update c (cell_at new c) r) old updates)"

definition write_order_row ::
  "(cell \<Rightarrow> cell) \<Rightarrow> (decimal \<Rightarrow> string) \<Rightarrow> order_table \<Rightarrow> order \<Rightarrow> int \<Rightarrow> order_table option" where
  "write_order_row drv spell tb od ts = (let stored = map_of (tb_rows tb) (o_cloid od) in do {
     hist \<leftarrow> text_next_history (Option.bind stored (\<lambda>row. cell_text (drv (cell_at row ''history'')))) (o_state od) ts;
     Some (tb\<lparr>tb_rows := AList.update (o_cloid od)
       (upsert_row RECORD_UPDATE_COLUMNS (zip RECORD_COLUMNS (record_values spell od hist)) stored) (tb_rows tb)\<rparr>) })"

definition read_order_row :: "(cell \<Rightarrow> cell) \<Rightarrow> order_table \<Rightarrow> string \<Rightarrow> order option option" where
  "read_order_row drv tb cloid = (case map_of (tb_rows tb) cloid of
     None \<Rightarrow> Some None
   | Some row \<Rightarrow> map_option Some (restore_order_row (map (\<lambda>c. drv (cell_at row c)) READ_COLUMNS)))"

definition read_history :: "(cell \<Rightarrow> cell) \<Rightarrow> order_table \<Rightarrow> string \<Rightarrow> transition list option" where
  "read_history drv tb cloid =
     restore_history (Option.bind (map_of (tb_rows tb) cloid) (\<lambda>row. cell_text (drv (cell_at row ''history''))))"

section \<open>The upgrade\<close>

text \<open>The default of an added column in the backends' declarations.\<close>

definition added_cell :: "string \<Rightarrow> cell" where
  "added_cell c = (if c \<in> {''post_only'', ''reduce_only''} then CBool False else CNull)"

definition add_column :: "order_table \<Rightarrow> string \<Rightarrow> order_table" where
  "add_column tb c = tb\<lparr>tb_columns := tb_columns tb @ [c], tb_rows := map (\<lambda>(k, row). (k, row @ [(c, added_cell c)])) (tb_rows tb)\<rparr>"

definition backfill_row :: "(cell \<Rightarrow> cell) \<Rightarrow> string \<Rightarrow> string \<times> sql_row \<Rightarrow> (string \<times> sql_row) option" where
  "backfill_row drv c kr = (case map_of ADDED_ORDER_COLUMNS c of
     None \<Rightarrow> None
   | Some from_history \<Rightarrow> map_option (\<lambda>v. case v of
         None \<Rightarrow> kr | Some x \<Rightarrow> (fst kr, AList.update c (CInt x) (snd kr)))
       (from_history (cell_text (drv (cell_at (snd kr) ''history'')))))"

definition backfill_column :: "(cell \<Rightarrow> cell) \<Rightarrow> order_table \<Rightarrow> string \<Rightarrow> order_table option" where
  "backfill_column drv tb c = map_option (\<lambda>rows. tb\<lparr>tb_rows := rows\<rparr>) (those (map (backfill_row drv c) (tb_rows tb)))"

fun backfill :: "(cell \<Rightarrow> cell) \<Rightarrow> order_table \<Rightarrow> string list \<Rightarrow> order_table option" where
  "backfill drv tb [] = Some tb"
| "backfill drv tb (c # cs) = (case backfill_column drv tb c of None \<Rightarrow> None | Some tb' \<Rightarrow> backfill drv tb' cs)"

definition missing_columns :: "order_table \<Rightarrow> string list" where
  "missing_columns tb = filter (\<lambda>c. c \<notin> set (tb_columns tb)) (map fst ADDED_ORDER_COLUMNS)"

definition upgrade :: "(cell \<Rightarrow> cell) \<Rightarrow> order_table \<Rightarrow> order_table option" where
  "upgrade drv tb = (let missing = missing_columns tb; tb1 = foldl add_column tb missing in
     if missing = [] then Some tb1 else backfill drv tb1 missing)"

section \<open>A row read back\<close>

text \<open>A driver keeps every cell, but may answer a truth value as a number.\<close>

definition keeps_cells :: "(cell \<Rightarrow> cell) \<Rightarrow> bool" where
  "keeps_cells drv \<longleftrightarrow> drv CNull = CNull \<and> (\<forall>s. drv (CText s) = CText s) \<and> (\<forall>i. drv (CInt i) = CInt i)
     \<and> (\<forall>b. drv (CBool b) \<in> {CBool b, CInt (of_bool b)})"

lemma keeps_cellsD [simp]:
  assumes "keeps_cells drv"
  shows "drv CNull = CNull" "drv (CText s) = CText s" "drv (CInt i) = CInt i" "truthy (drv (CBool b)) = b"
    "drv (text_cell x) = text_cell x" "drv (int_cell y) = int_cell y"
    "drv (encode_split_basis spell basis) = encode_split_basis spell basis"
proof -
  have "drv (CBool b) = CBool b \<or> drv (CBool b) = CInt (of_bool b)" using assms by (auto simp: keeps_cells_def)
  then show "truthy (drv (CBool b)) = b" by (auto simp: truthy_def)
qed (use assms in \<open>auto simp: keeps_cells_def text_cell_def int_cell_def encode_split_basis_def split: option.split\<close>)

definition order_figures :: "order \<Rightarrow> decimal set" where
  "order_figures od = {o_quantity od, o_cum_qty od} \<union> set_option (o_price od)
     \<union> (case o_split_basis od of None \<Rightarrow> {} | Some xs \<Rightarrow> snd ` set xs)"

definition spells :: "(decimal \<Rightarrow> string) \<Rightarrow> order \<Rightarrow> bool" where
  "spells spell od \<longleftrightarrow> (\<forall>x \<in> order_figures od. read_decimal (spell x) = Some (Finite x)) \<and> finite (o_applied_event_ids od)"

lemma those_map_inverse: "(\<And>x. x \<in> set xs \<Longrightarrow> f (g x) = Some x) \<Longrightarrow> those (map f (map g xs)) = Some xs"
  by (induction xs) auto

lemma enums_back [simp]:
  "enum_of state_value all_states (CText (state_value st)) = Some st"
  "enum_of side_value [BUY, SELL] (CText (side_value sd)) = Some sd"
  "enum_of type_value [MARKET, LIMIT] (CText (type_value k)) = Some k"
  "enum_of tif_value [GTC, IOC] (CText (tif_value t)) = Some t"
  by (cases st; simp add: enum_of_def all_states_def) (cases sd; cases k; cases t; simp add: enum_of_def)+

lemma cells_back [simp]:
  "null_or cell_text (text_cell x) = Some x" "null_or cell_int (int_cell i) = Some i" "cell_text (CText s) = Some s"
  "null_or (enum_of tif_value [GTC, IOC]) (text_cell (map_option tif_value t)) = Some t"
  by (simp_all add: null_or_def text_cell_def int_cell_def cell_text_def cell_int_def split: option.split)

lemma spelled_back: "spells spell od \<Longrightarrow> x \<in> order_figures od \<Longrightarrow> text_figure (spell x) = Some x"
  by (simp add: spells_def text_figure_def)

lemma basis_back:
  assumes "\<forall>x \<in> (case basis of None \<Rightarrow> {} | Some xs \<Rightarrow> snd ` set xs). text_figure (spell x) = Some x"
  shows "decode_split_basis (encode_split_basis spell basis) = Some basis"
proof (cases basis)
  case (Some xs)
  have "those (map basis_pair (map (\<lambda>(owner, sz). JList [JStr owner, JStr (spell sz)]) xs)) = Some xs"
    by (rule those_map_inverse) (use assms Some in auto)
  moreover have "floatless (JList (map (\<lambda>(owner, sz). JList [JStr owner, JStr (spell sz)]) xs))" by auto
  ultimately show ?thesis
    using Some loads_dumps [of "JList (map (\<lambda>(owner, sz). JList [JStr owner, JStr (spell sz)]) xs)"]
    by (simp add: decode_split_basis_def encode_split_basis_def null_or_def del: dumps.simps)
qed (simp add: decode_split_basis_def encode_split_basis_def null_or_def)

lemma ids_back:
  assumes "finite A"
  shows "restore_ids (CText (dumps (JList (map JStr (sorted_list_of_set A))))) = Some A"
proof -
  have "those (map json_string (map JStr (sorted_list_of_set A))) = Some (sorted_list_of_set A)"
    by (rule those_map_inverse) simp
  then show ?thesis using loads_dumps [of "JList (map JStr (sorted_list_of_set A))"] assms
    by (simp add: restore_ids_def del: dumps.simps)
qed

abbreviation record_row :: "(decimal \<Rightarrow> string) \<Rightarrow> order \<Rightarrow> json list \<Rightarrow> sql_row" where
  "record_row spell od hist \<equiv> zip RECORD_COLUMNS (record_values spell od hist)"

lemma record_cells:
  "cell_at (record_row spell od hist) ''cloid'' = CText (o_cloid od)"
  "cell_at (record_row spell od hist) ''strategy_id'' = CText (o_strategy_id od)"
  "cell_at (record_row spell od hist) ''signal_id'' = CText (o_signal_id od)"
  "cell_at (record_row spell od hist) ''symbol'' = CText (o_symbol od)"
  "cell_at (record_row spell od hist) ''side'' = CText (side_value (o_side od))"
  "cell_at (record_row spell od hist) ''quantity'' = CText (spell (o_quantity od))"
  "cell_at (record_row spell od hist) ''order_type'' = CText (type_value (o_type od))"
  "cell_at (record_row spell od hist) ''state'' = CText (state_value (o_state od))"
  "cell_at (record_row spell od hist) ''cum_qty'' = CText (spell (o_cum_qty od))"
  "cell_at (record_row spell od hist) ''venue_oid'' = text_cell (o_venue_oid od)"
  "cell_at (record_row spell od hist) ''acked_ts_ns'' = int_cell (o_acked_ts_ns od)"
  "cell_at (record_row spell od hist) ''created_ts_ns'' = int_cell (o_created_ts_ns od)"
  by (simp_all add: cell_at_def RECORD_COLUMNS_def record_values_def)

lemma record_cells':
  "cell_at (record_row spell od hist) ''reason'' = text_cell (o_reason od)"
  "cell_at (record_row spell od hist) ''cancel_requested'' = CBool (o_cancel_requested od)"
  "cell_at (record_row spell od hist) ''cancel_requested_ts'' = int_cell (o_cancel_requested_ts od)"
  "cell_at (record_row spell od hist) ''cancel_signal_id'' = text_cell (o_cancel_signal_id od)"
  "cell_at (record_row spell od hist) ''split_basis'' = encode_split_basis spell (o_split_basis od)"
  "cell_at (record_row spell od hist) ''price'' = text_cell (map_option spell (o_price od))"
  "cell_at (record_row spell od hist) ''time_in_force'' = text_cell (map_option tif_value (o_time_in_force od))"
  "cell_at (record_row spell od hist) ''post_only'' = CBool (o_post_only od)"
  "cell_at (record_row spell od hist) ''reduce_only'' = CBool (o_reduce_only od)"
  "cell_at (record_row spell od hist) ''applied_event_ids'' =
     CText (dumps (JList (map JStr (sorted_list_of_set (o_applied_event_ids od)))))"
  "cell_at (record_row spell od hist) ''history'' = CText (dumps (JList hist))"
  by (simp_all add: cell_at_def RECORD_COLUMNS_def record_values_def)

text \<open>A table row that reads its columns from the record is the order; the driver may stand between.\<close>

lemma record_columns_back:
  assumes "keeps_cells drv" "spells spell od"
    and "\<And>c. c \<in> set READ_COLUMNS \<Longrightarrow> c \<notin> {''post_only'', ''reduce_only''} \<Longrightarrow> column c = drv (cell_at (record_row spell od hist) c)"
    and "truthy (column ''post_only'') = o_post_only od" "truthy (column ''reduce_only'') = o_reduce_only od"
  shows "restore_columns column = Some od"
proof -
  have f: "text_figure (spell (o_quantity od)) = Some (o_quantity od)" "text_figure (spell (o_cum_qty od)) = Some (o_cum_qty od)"
    by (rule spelled_back [OF assms(2)], simp add: order_figures_def)+
  have p: "null_or cell_figure (text_cell (map_option spell (o_price od))) = Some (o_price od)"
    using spelled_back [OF assms(2)] by (cases "o_price od") (auto simp: null_or_def text_cell_def cell_figure_def order_figures_def)
  have b: "decode_split_basis (encode_split_basis spell (o_split_basis od)) = Some (o_split_basis od)"
    by (rule basis_back) (use spelled_back [OF assms(2)] in \<open>auto simp: order_figures_def\<close>)
  have i: "restore_ids (CText (dumps (JList (map JStr (sorted_list_of_set (o_applied_event_ids od)))))) = Some (o_applied_event_ids od)"
    by (rule ids_back) (use assms(2) in \<open>simp add: spells_def\<close>)
  define cell where "cell = cell_at (record_row spell od hist)"
  have c: "column c = drv (cell c)" if "c \<in> set (butlast RECORD_COLUMNS)" "c \<notin> {''post_only'', ''reduce_only''}" for c
    using assms(3) that by (simp add: READ_COLUMNS_def cell_def)
  note cs = c [unfolded RECORD_COLUMNS_def, simplified]
  note rs = record_cells [where spell = spell and od = od and hist = hist, folded cell_def]
    record_cells' [where spell = spell and od = od and hist = hist, folded cell_def]
  show ?thesis
    using f assms(1,4,5) by (simp add: restore_columns_def cs rs p b i cell_figure_def del: dumps.simps)
qed

lemma restore_row_columns:
  assumes "length row = length READ_COLUMNS"
  shows "restore_order_row row = restore_columns (\<lambda>c. the (map_of (zip READ_COLUMNS row) c))"
  using assms by (simp add: restore_order_row_def)

lemma read_columns_distinct: "distinct READ_COLUMNS" "distinct RECORD_COLUMNS" "set READ_COLUMNS \<subseteq> set RECORD_COLUMNS"
  by (simp_all add: READ_COLUMNS_def RECORD_COLUMNS_def)

lemma map_of_zip_map: "c \<in> set cs \<Longrightarrow> map_of (zip cs (map f cs)) c = Some (f c)"
  by (induction cs) auto

lemma restore_cells:
  assumes "keeps_cells drv" "spells spell od"
    and "\<And>c. c \<in> set READ_COLUMNS \<Longrightarrow> c \<notin> {''post_only'', ''reduce_only''} \<Longrightarrow> cell_at row c = cell_at (record_row spell od hist) c"
    and "truthy (drv (cell_at row ''post_only'')) = o_post_only od" "truthy (drv (cell_at row ''reduce_only'')) = o_reduce_only od"
  shows "restore_order_row (map (\<lambda>c. drv (cell_at row c)) READ_COLUMNS) = Some od"
proof -
  have m: "the (map_of (zip READ_COLUMNS (map (\<lambda>c. drv (cell_at row c)) READ_COLUMNS)) c) = drv (cell_at row c)"
    if "c \<in> set READ_COLUMNS" for c using map_of_zip_map [OF that, of "\<lambda>c. drv (cell_at row c)"] by simp
  have "''post_only'' \<in> set READ_COLUMNS" "''reduce_only'' \<in> set READ_COLUMNS" by (simp_all add: READ_COLUMNS_def RECORD_COLUMNS_def)
  then show ?thesis
    unfolding restore_row_columns [of "map (\<lambda>c. drv (cell_at row c)) READ_COLUMNS", simplified]
    by (intro record_columns_back [OF assms(1,2), of _ hist]) (simp_all add: m assms(3-5))
qed

lemma record_values_cells: "record_values spell od hist = map (cell_at (record_row spell od hist)) RECORD_COLUMNS"
  by (rule sym, rule nth_equalityI)
    (auto simp: cell_at_def map_of_zip_nth RECORD_COLUMNS_def record_values_def)

text \<open>
  C25. An order written to its row is the order read back from it: every column, the event ids and
  the split basis in their JSON text, whatever text the driver's truth values and the figures take.
\<close>

theorem order_row_reads_back:
  assumes "keeps_cells drv" and "\<forall>x \<in> order_figures od. read_decimal (spell x) = Some (Finite x)"
    and "finite (o_applied_event_ids od)"
  shows "restore_order_row (map drv (butlast (record_values spell od hist))) = Some od"
proof -
  have "spells spell od" using assms(2,3) by (simp add: spells_def)
  then have "restore_order_row (map (\<lambda>c. drv (cell_at (record_row spell od hist) c)) READ_COLUMNS) = Some od"
    by (rule restore_cells [OF assms(1)]) (simp_all add: record_cells' assms(1))
  moreover have "map drv (butlast (record_values spell od hist)) = map (\<lambda>c. drv (cell_at (record_row spell od hist) c)) READ_COLUMNS"
    by (subst record_values_cells) (simp add: READ_COLUMNS_def map_butlast comp_def)
  ultimately show ?thesis by simp
qed

section \<open>The history read back\<close>

abbreviation history_json :: "transition list \<Rightarrow> json list" where
  "history_json \<equiv> map transition_json"

lemma history_back: "restore_history (Some (dumps (JList (history_json h)))) = Some h"
proof -
  have "transition_of (transition_json t) = Some t" for t by (simp add: transition_json_def)
  then have "those (map transition_of (history_json h)) = Some h" by (intro those_map_inverse)
  moreover have "floatless (JList (history_json h))" by (auto simp: transition_json_def)
  moreover have "dumps (JList (history_json h)) \<noteq> ''''" by simp
  ultimately show ?thesis using loads_dumps [of "JList (history_json h)"] by (simp add: restore_history_def del: dumps.simps)
qed

lemma next_history_back:
  "text_next_history (Some (dumps (JList (history_json h)))) st ts = Some (history_json (next_history (Some h) st ts))"
proof -
  have "floatless (JList (history_json h))" by (auto simp: transition_json_def)
  moreover have "dumps (JList (history_json h)) \<noteq> ''''" by simp
  ultimately show ?thesis using loads_dumps [of "JList (history_json h)"]
    by (simp add: text_next_history_def next_history_def del: dumps.simps)
qed

section \<open>The table implements the store\<close>

definition row_holds :: "(decimal \<Rightarrow> string) \<Rightarrow> sql_row \<Rightarrow> order \<Rightarrow> transition list \<Rightarrow> bool" where
  "row_holds spell row od h \<longleftrightarrow> (\<forall>c \<in> set RECORD_COLUMNS. cell_at row c = cell_at (record_row spell od (history_json h)) c)"

definition table_agrees :: "(decimal \<Rightarrow> string) \<Rightarrow> order_table \<Rightarrow> store \<Rightarrow> bool" where
  "table_agrees spell tb s \<longleftrightarrow> (\<forall>cloid. case map_of (st_orders s) cloid of
     None \<Rightarrow> map_of (tb_rows tb) cloid = None
   | Some (od, h) \<Rightarrow> o_cloid od = cloid \<and> spells spell od \<and> (\<exists>row. map_of (tb_rows tb) cloid = Some row \<and> row_holds spell row od h))"

lemma table_agreesD:
  assumes "table_agrees spell tb s"
  shows "map_of (st_orders s) cloid = None \<Longrightarrow> map_of (tb_rows tb) cloid = None"
    and "map_of (st_orders s) cloid = Some (od, h) \<Longrightarrow> o_cloid od = cloid \<and> spells spell od
      \<and> (\<exists>row. map_of (tb_rows tb) cloid = Some row \<and> row_holds spell row od h)"
  using assms unfolding table_agrees_def by (force split: option.splits)+

lemma record_columns_in: "''cloid'' \<in> set RECORD_COLUMNS" "''history'' \<in> set RECORD_COLUMNS"
  "''post_only'' \<in> set RECORD_COLUMNS" "''reduce_only'' \<in> set RECORD_COLUMNS"
  by (simp_all add: RECORD_COLUMNS_def)

lemma row_holdsD: "row_holds spell row od h \<Longrightarrow> c \<in> set RECORD_COLUMNS \<Longrightarrow>
    cell_at row c = cell_at (record_row spell od (history_json h)) c"
  unfolding row_holds_def by blast

lemma row_holds_history: "row_holds spell row od h \<Longrightarrow> cell_at row ''history'' = CText (dumps (JList (history_json h)))"
  using row_holdsD [OF _ record_columns_in(2)] record_cells'(11) by metis

lemma upsert_cells:
  "cell_at (foldl (\<lambda>r c. AList.update c (cell_at new c) r) old updates) c = (if c \<in> set updates then cell_at new c else cell_at old c)"
  by (induction updates rule: rev_induct) (auto simp: cell_at_def)

lemma upsert_holds:
  assumes "stored = None \<or> (\<exists>row. stored = Some row \<and> cell_at row ''cloid'' = CText (o_cloid od))"
  shows "row_holds spell (upsert_row RECORD_UPDATE_COLUMNS (record_row spell od (history_json h)) stored) od h"
  using assms by (auto simp: row_holds_def upsert_row_def upsert_cells RECORD_UPDATE_COLUMNS_def record_cells)

lemma write_agrees:
  assumes "keeps_cells drv" "table_agrees spell tb s" "spells spell od"
  shows "\<exists>tb'. write_order_row drv spell tb od ts = Some tb' \<and> table_agrees spell tb' (write_order s od ts)"
proof -
  let ?h = "next_history (map_option snd (map_of (st_orders s) (o_cloid od))) (o_state od) ts"
  let ?stored = "map_of (tb_rows tb) (o_cloid od)"
  have "text_next_history (Option.bind ?stored (\<lambda>row. cell_text (drv (cell_at row ''history'')))) (o_state od) ts = Some (history_json ?h)
      \<and> (?stored = None \<or> (\<exists>row. ?stored = Some row \<and> cell_at row ''cloid'' = CText (o_cloid od)))"
  proof (cases "map_of (st_orders s) (o_cloid od)")
    case None
    then show ?thesis using table_agreesD(1) [OF assms(2)] by (simp add: text_next_history_def next_history_def)
  next
    case (Some e)
    obtain od' h where e: "e = (od', h)" by (rule prod.exhaust)
    then obtain row where row: "?stored = Some row" "row_holds spell row od' h" "o_cloid od' = o_cloid od"
      using table_agreesD(2) [OF assms(2), of "o_cloid od" od' h] Some by auto
    have "cell_at row ''cloid'' = CText (o_cloid od)"
      using row_holdsD [OF row(2) record_columns_in(1)] row(3) by (simp add: record_cells)
    then show ?thesis using row_holds_history [OF row(2)] row(1) Some e next_history_back [of h] assms(1) by (simp del: dumps.simps)
  qed
  then have nh: "text_next_history (Option.bind ?stored (\<lambda>row. cell_text (drv (cell_at row ''history'')))) (o_state od) ts = Some (history_json ?h)"
    and old: "?stored = None \<or> (\<exists>row. ?stored = Some row \<and> cell_at row ''cloid'' = CText (o_cloid od))" by blast+
  define row where "row = upsert_row RECORD_UPDATE_COLUMNS (record_row spell od (history_json ?h)) ?stored"
  define tb' where "tb' = tb\<lparr>tb_rows := AList.update (o_cloid od) row (tb_rows tb)\<rparr>"
  have "write_order_row drv spell tb od ts = Some tb'" by (simp add: write_order_row_def nh tb'_def row_def)
  moreover have "table_agrees spell tb' (write_order s od ts)"
    unfolding table_agrees_def
  proof
    fix cloid
    show "case map_of (st_orders (write_order s od ts)) cloid of None \<Rightarrow> map_of (tb_rows tb') cloid = None
      | Some (od, h) \<Rightarrow> o_cloid od = cloid \<and> spells spell od \<and> (\<exists>row. map_of (tb_rows tb') cloid = Some row \<and> row_holds spell row od h)"
    proof (cases "o_cloid od = cloid")
      case True
      then show ?thesis using upsert_holds [OF old, of spell ?h] assms(3) by (simp add: tb'_def write_order_def row_def)
    next
      case False
      then have "map_of (tb_rows tb') cloid = map_of (tb_rows tb) cloid" by (simp add: tb'_def)
      then show ?thesis using table_agreesD [OF assms(2), of cloid] False by (auto simp: write_order_def split: option.split)
    qed
  qed
  ultimately show ?thesis by blast
qed

fun write_rows :: "(cell \<Rightarrow> cell) \<Rightarrow> (decimal \<Rightarrow> string) \<Rightarrow> order_table \<Rightarrow> (order \<times> int) list \<Rightarrow> order_table option" where
  "write_rows drv spell tb [] = Some tb"
| "write_rows drv spell tb ((od, ts) # ws) = Option.bind (write_order_row drv spell tb od ts) (\<lambda>tb'. write_rows drv spell tb' ws)"

definition stored_orders :: "store \<Rightarrow> (order \<times> int) list \<Rightarrow> store" where
  "stored_orders s ws = foldl (\<lambda>s (od, ts). write_order s od ts) s ws"

lemma writes_agree:
  "keeps_cells drv \<Longrightarrow> table_agrees spell tb s \<Longrightarrow> \<forall>(od, ts) \<in> set ws. spells spell od \<Longrightarrow>
    \<exists>tb'. write_rows drv spell tb ws = Some tb' \<and> table_agrees spell tb' (stored_orders s ws)"
proof (induction ws arbitrary: tb s)
  case (Cons w ws)
  obtain od ts where w: "w = (od, ts)" by (rule prod.exhaust)
  have sp: "spells spell od" "\<forall>(od, ts) \<in> set ws. spells spell od" using Cons.prems(3) w by auto
  from write_agrees [OF Cons.prems(1,2) sp(1), of ts] obtain tb1 where tb1: "write_order_row drv spell tb od ts = Some tb1"
    "table_agrees spell tb1 (write_order s od ts)" by blast
  from Cons.IH [OF Cons.prems(1) tb1(2) sp(2)] show ?case using w tb1(1) by (simp add: stored_orders_def)
qed (simp add: stored_orders_def)

lemma agrees_reads:
  assumes "keeps_cells drv" "table_agrees spell tb s"
  shows "read_order_row drv tb cloid = Some (get_order s cloid) \<and> read_history drv tb cloid = Some (history s cloid)"
proof (cases "map_of (st_orders s) cloid")
  case None
  then show ?thesis using table_agreesD(1) [OF assms(2) None]
    by (simp add: read_order_row_def read_history_def get_order_def history_def restore_history_def)
next
  case (Some e)
  obtain od h where e: "e = (od, h)" by (rule prod.exhaust)
  then obtain row where row: "map_of (tb_rows tb) cloid = Some row" "row_holds spell row od h" "spells spell od"
    using table_agreesD(2) [OF assms(2), of cloid od h] Some by auto
  have "restore_order_row (map (\<lambda>c. drv (cell_at row c)) READ_COLUMNS) = Some od"
  proof (rule restore_cells [OF assms(1) row(3), of _ "history_json h"])
    show "cell_at row c = cell_at (record_row spell od (history_json h)) c" if "c \<in> set READ_COLUMNS" for c
      using row_holdsD [OF row(2)] that read_columns_distinct(3) by blast
  qed (simp_all add: row_holdsD [OF row(2)] record_columns_in record_cells' assms(1))
  then show ?thesis using row(1) Some e row_holds_history [OF row(2)] assms(1) history_back [of h]
    by (simp add: read_order_row_def read_history_def get_order_def history_def del: dumps.simps)
qed

text \<open>
  C10. The order table implements the orders of the store: after any run of writes, each of which
  succeeds, every order and its whole transition history read back as they were written.
\<close>

theorem order_table_refines_store:
  assumes "keeps_cells drv" and "\<forall>(od, ts) \<in> set ws. spells spell od"
  shows "\<exists>tb. write_rows drv spell fresh_table ws = Some tb \<and> (\<forall>cloid.
    read_order_row drv tb cloid = Some (get_order (stored_orders empty_store ws) cloid)
    \<and> read_history drv tb cloid = Some (history (stored_orders empty_store ws) cloid))"
proof -
  have "table_agrees spell fresh_table empty_store" by (simp add: table_agrees_def fresh_table_def empty_store_def)
  from writes_agree [OF assms(1) this assms(2)] show ?thesis using agrees_reads [OF assms(1)] by blast
qed

section \<open>A table written before a column existed\<close>

definition first_live :: "transition list \<Rightarrow> int option" where
  "first_live h = map_option snd (List.find (\<lambda>t. fst t = LIVE) h)"

definition first_time :: "transition list \<Rightarrow> int option" where
  "first_time h = (case h of [] \<Rightarrow> None | t # _ \<Rightarrow> Some (snd t))"

text \<open>The order an upgraded row is: the times its history tells, and no terms.\<close>

definition upgraded_order :: "string set \<Rightarrow> transition list \<Rightarrow> order \<Rightarrow> order" where
  "upgraded_order M h od = od\<lparr>
     o_acked_ts_ns := (if ''acked_ts_ns'' \<in> M then first_live h else o_acked_ts_ns od),
     o_created_ts_ns := (if ''created_ts_ns'' \<in> M then first_time h else o_created_ts_ns od),
     o_split_basis := (if ''split_basis'' \<in> M then None else o_split_basis od),
     o_price := (if ''price'' \<in> M then None else o_price od),
     o_time_in_force := (if ''time_in_force'' \<in> M then None else o_time_in_force od),
     o_post_only := (''post_only'' \<notin> M \<and> o_post_only od), o_reduce_only := (''reduce_only'' \<notin> M \<and> o_reduce_only od)\<rparr>"

text \<open>A table that lacks the columns \<open>M\<close>: each row is what the record had without them.\<close>

definition old_row :: "(decimal \<Rightarrow> string) \<Rightarrow> string set \<Rightarrow> sql_row \<Rightarrow> order \<Rightarrow> transition list \<Rightarrow> bool" where
  "old_row spell M row od h \<longleftrightarrow> spells spell od \<and> fst ` set row \<inter> M = {}
     \<and> (\<forall>c \<in> set RECORD_COLUMNS - M. cell_at row c = cell_at (record_row spell od (history_json h)) c)"

definition old_table :: "(decimal \<Rightarrow> string) \<Rightarrow> string set \<Rightarrow> order_table \<Rightarrow> bool" where
  "old_table spell M tb \<longleftrightarrow> M \<subseteq> fst ` set ADDED_ORDER_COLUMNS \<and> set (tb_columns tb) = set RECORD_COLUMNS - M
     \<and> (\<forall>kr \<in> set (tb_rows tb). \<exists>od h. old_row spell M (snd kr) od h)"

definition told :: "string \<Rightarrow> transition list \<Rightarrow> int option" where
  "told c h = (if c = ''acked_ts_ns'' then first_live h else if c = ''created_ts_ns'' then first_time h else None)"

definition fill_cell :: "(cell \<Rightarrow> cell) \<Rightarrow> string \<Rightarrow> sql_row \<Rightarrow> sql_row" where
  "fill_cell drv c row = (case told c (the (restore_history (cell_text (drv (cell_at row ''history''))))) of
     None \<Rightarrow> row | Some x \<Rightarrow> AList.update c (CInt x) row)"

lemma added_columns: "fst ` set ADDED_ORDER_COLUMNS
    = {''acked_ts_ns'', ''created_ts_ns'', ''split_basis'', ''price'', ''time_in_force'', ''post_only'', ''reduce_only''}"
  by (simp add: ADDED_ORDER_COLUMNS_def)

lemma added_told:
  assumes "c \<in> fst ` set ADDED_ORDER_COLUMNS" "restore_history text = Some h"
  shows "\<exists>f. map_of ADDED_ORDER_COLUMNS c = Some f \<and> f text = Some (told c h)"
  using assms unfolding added_columns
  by (auto simp: ADDED_ORDER_COLUMNS_def told_def acked_ts_from_history_def created_ts_from_history_def no_split_basis_def
      no_order_terms_def first_live_def first_time_def)

lemma fill_cell_at:
  assumes "restore_history (cell_text (drv (cell_at row ''history''))) = Some h" "c \<noteq> ''history''"
  shows "cell_at (fill_cell drv c row) k = (case told c h of Some x \<Rightarrow> if k = c then CInt x else cell_at row k | None \<Rightarrow> cell_at row k)"
    and "cell_at (fill_cell drv c row) ''history'' = cell_at row ''history''"
  using assms by (auto simp: fill_cell_def cell_at_def split: option.split)

lemma backfill_row_fill:
  assumes "c \<in> fst ` set ADDED_ORDER_COLUMNS" "restore_history (cell_text (drv (cell_at (snd kr) ''history''))) \<noteq> None"
  shows "backfill_row drv c kr = Some (fst kr, fill_cell drv c (snd kr))"
proof -
  obtain h where h: "restore_history (cell_text (drv (cell_at (snd kr) ''history''))) = Some h" using assms(2) by blast
  from added_told [OF assms(1) h] obtain f where f: "map_of ADDED_ORDER_COLUMNS c = Some f"
    "f (cell_text (drv (cell_at (snd kr) ''history''))) = Some (told c h)" by blast
  show ?thesis using f h by (cases kr) (simp add: backfill_row_def fill_cell_def split: option.split)
qed

abbreviation on_rows :: "(sql_row \<Rightarrow> sql_row) \<Rightarrow> order_table \<Rightarrow> order_table" where
  "on_rows f tb \<equiv> tb\<lparr>tb_rows := map (\<lambda>kr. (fst kr, f (snd kr))) (tb_rows tb)\<rparr>"

definition told_rows :: "(cell \<Rightarrow> cell) \<Rightarrow> order_table \<Rightarrow> bool" where
  "told_rows drv tb \<longleftrightarrow> (\<forall>kr \<in> set (tb_rows tb). restore_history (cell_text (drv (cell_at (snd kr) ''history''))) \<noteq> None)"

lemma backfill_column_fill:
  assumes "c \<in> fst ` set ADDED_ORDER_COLUMNS" "told_rows drv tb"
  shows "backfill_column drv tb c = Some (on_rows (fill_cell drv c) tb)" and "told_rows drv (on_rows (fill_cell drv c) tb)"
proof -
  have "those (map (backfill_row drv c) rows) = Some (map (\<lambda>kr. (fst kr, fill_cell drv c (snd kr))) rows)"
    if "\<forall>kr \<in> set rows. restore_history (cell_text (drv (cell_at (snd kr) ''history''))) \<noteq> None" for rows
    using that by (induction rows) (simp_all add: backfill_row_fill [OF assms(1)])
  then show "backfill_column drv tb c = Some (on_rows (fill_cell drv c) tb)"
    using assms(2) by (simp add: backfill_column_def told_rows_def)
  have "c \<noteq> ''history''" using assms(1) unfolding added_columns by auto
  then show "told_rows drv (on_rows (fill_cell drv c) tb)"
    using assms(2) fill_cell_at(2) by (auto simp: told_rows_def)
qed

lemma backfill_fill:
  "set cs \<subseteq> fst ` set ADDED_ORDER_COLUMNS \<Longrightarrow> told_rows drv tb \<Longrightarrow>
    backfill drv tb cs = Some (on_rows (\<lambda>row. foldl (\<lambda>r c. fill_cell drv c r) row cs) tb)"
proof (induction cs arbitrary: tb)
  case (Cons c cs)
  then have c: "c \<in> fst ` set ADDED_ORDER_COLUMNS" "set cs \<subseteq> fst ` set ADDED_ORDER_COLUMNS" by auto
  show ?case using backfill_column_fill [OF c(1) Cons.prems(2)] Cons.IH [OF c(2)] by (simp add: comp_def)
qed simp

lemma fills_at:
  assumes "restore_history (cell_text (drv (cell_at row ''history''))) = Some h" "''history'' \<notin> set cs"
  shows "cell_at (foldl (\<lambda>r c. fill_cell drv c r) row cs) k
      = (case told k h of Some x \<Rightarrow> if k \<in> set cs then CInt x else cell_at row k | None \<Rightarrow> cell_at row k)
    \<and> cell_at (foldl (\<lambda>r c. fill_cell drv c r) row cs) ''history'' = cell_at row ''history''"
  using assms(2)
proof (induction cs rule: rev_induct)
  case (snoc c cs)
  let ?r = "foldl (\<lambda>r c. fill_cell drv c r) row cs"
  have ih: "cell_at ?r k = (case told k h of Some x \<Rightarrow> if k \<in> set cs then CInt x else cell_at row k | None \<Rightarrow> cell_at row k)"
    "cell_at ?r ''history'' = cell_at row ''history''" using snoc by auto
  have "restore_history (cell_text (drv (cell_at ?r ''history''))) = Some h" "c \<noteq> ''history''"
    using ih(2) assms(1) snoc.prems by auto
  from fill_cell_at(1) [where row = ?r and drv = drv, OF this] fill_cell_at(2) [where row = ?r and drv = drv, OF this] show ?case using ih by (auto split: option.split)
qed (simp split: option.split)

lemma added_columns_rows:
  "tb_rows (foldl add_column tb cs) = map (\<lambda>kr. (fst kr, snd kr @ map (\<lambda>c. (c, added_cell c)) cs)) (tb_rows tb)"
  "tb_columns (foldl add_column tb cs) = tb_columns tb @ cs"
  by (induction cs arbitrary: tb) (simp_all add: add_column_def comp_def split_beta)

lemma added_cells:
  assumes "fst ` set row \<inter> set cs = {}"
  shows "cell_at (row @ map (\<lambda>c. (c, added_cell c)) cs) k = (if k \<in> set cs then added_cell k else cell_at row k)"
proof -
  have "map_of (map (\<lambda>c. (c, added_cell c)) cs) k = (if k \<in> set cs then Some (added_cell k) else None)" by (induction cs) auto
  moreover have "map_of row k = None" if "k \<in> set cs" using that assms by (auto simp: map_of_eq_None_iff)
  ultimately show ?thesis by (auto simp: cell_at_def map_add_def split: option.split)
qed

lemma record_columns_set: "set RECORD_COLUMNS = {''cloid'', ''strategy_id'', ''signal_id'', ''symbol'', ''side'', ''quantity'',
    ''order_type'', ''state'', ''cum_qty'', ''venue_oid'', ''reason'', ''cancel_requested'', ''cancel_requested_ts'',
    ''cancel_signal_id'', ''applied_event_ids'', ''history''} \<union> fst ` set ADDED_ORDER_COLUMNS"
  by (auto simp: RECORD_COLUMNS_def ADDED_ORDER_COLUMNS_def)

lemma upgraded_cells:
  assumes "c \<in> set RECORD_COLUMNS" "c \<notin> {''post_only'', ''reduce_only''}" "M \<subseteq> fst ` set ADDED_ORDER_COLUMNS"
  shows "cell_at (record_row spell (upgraded_order M h od) hist) c
    = (if c \<in> M then int_cell (told c h) else cell_at (record_row spell od hist) c)"
proof -
  have plain: "c \<notin> M" if "c \<notin> fst ` set ADDED_ORDER_COLUMNS" using that assms(3) by auto
  have "c \<in> {''cloid'', ''strategy_id'', ''signal_id'', ''symbol'', ''side'', ''quantity'',
    ''order_type'', ''state'', ''cum_qty'', ''venue_oid'', ''reason'', ''cancel_requested'', ''cancel_requested_ts'',
    ''cancel_signal_id'', ''applied_event_ids'', ''history''}
    \<or> c \<in> {''acked_ts_ns'', ''created_ts_ns'', ''split_basis'', ''price'', ''time_in_force''}"
    using assms(1,2) unfolding record_columns_set added_columns by auto
  then show ?thesis
  proof
    assume c: "c \<in> {''acked_ts_ns'', ''created_ts_ns'', ''split_basis'', ''price'', ''time_in_force''}"
    show ?thesis
      by (cases "c \<in> M"; use c in \<open>elim insertE emptyE\<close>;
        simp add: record_cells record_cells' upgraded_order_def told_def int_cell_def text_cell_def encode_split_basis_def)
  next
    assume c: "c \<in> {''cloid'', ''strategy_id'', ''signal_id'', ''symbol'', ''side'', ''quantity'',
      ''order_type'', ''state'', ''cum_qty'', ''venue_oid'', ''reason'', ''cancel_requested'', ''cancel_requested_ts'',
      ''cancel_signal_id'', ''applied_event_ids'', ''history''}"
    then have "c \<notin> M" using plain unfolding added_columns by auto
    then show ?thesis
      by (use c in \<open>elim insertE emptyE\<close>; simp add: record_cells record_cells' upgraded_order_def)
  qed
qed

lemma upgraded_spells: "spells spell od \<Longrightarrow> spells spell (upgraded_order M h od)"
  by (auto simp: spells_def order_figures_def upgraded_order_def split: if_splits option.splits)

lemma upgraded_reads:
  assumes "keeps_cells drv" "old_row spell M row od h" "M \<subseteq> fst ` set ADDED_ORDER_COLUMNS"
    and "\<And>k. cell_at row' k = (if k \<notin> M then cell_at row k else case told k h of Some x \<Rightarrow> CInt x | None \<Rightarrow> added_cell k)"
  shows "restore_order_row (map (\<lambda>c. drv (cell_at row' c)) READ_COLUMNS) = Some (upgraded_order M h od)"
proof -
  have same: "cell_at row k = cell_at (record_row spell od (history_json h)) k" if "k \<in> set RECORD_COLUMNS" "k \<notin> M" for k
    using that assms(2) by (simp add: old_row_def)
  have flag: "truthy (drv (cell_at row' k)) = (k \<notin> M \<and> b)"
    if "k \<in> {''post_only'', ''reduce_only''}" "cell_at (record_row spell od (history_json h)) k = CBool b" for k b
  proof -
    have "told k h = None" "k \<in> set RECORD_COLUMNS" using that(1) by (auto simp: told_def record_columns_in)
    then show ?thesis using that same [of k] assms(1) by (cases "k \<in> M") (auto simp: assms(4) added_cell_def)
  qed
  show ?thesis
  proof (rule restore_cells [OF assms(1), of spell _ _ "history_json h"])
    show "spells spell (upgraded_order M h od)" using assms(2) upgraded_spells by (simp add: old_row_def)
    show "cell_at row' c = cell_at (record_row spell (upgraded_order M h od) (history_json h)) c"
      if "c \<in> set READ_COLUMNS" "c \<notin> {''post_only'', ''reduce_only''}" for c
    proof -
      have c: "c \<in> set RECORD_COLUMNS" using that(1) read_columns_distinct(3) by blast
      show ?thesis unfolding upgraded_cells [OF c that(2) assms(3)]
        using that(2) same [OF c] by (auto simp: assms(4) int_cell_def added_cell_def split: option.split)
    qed
  qed (simp_all add: flag record_cells' upgraded_order_def)
qed

lemma map_of_on_rows: "map_of (map (\<lambda>kr. (fst kr, f (snd kr))) xs) k = map_option f (map_of xs k)"
  by (induction xs) auto

text \<open>
  C11. Opening a table written before some of the added columns existed brings it up to date: it
  succeeds, nothing is missing afterwards, and every stored order reads back as it was, with the
  acknowledgement and creation times its history tells and no terms in the columns it lacked.
\<close>

theorem upgrade_keeps_orders:
  assumes "keeps_cells drv" and "old_table spell M tb"
  shows "\<exists>tb'. upgrade drv tb = Some tb' \<and> missing_columns tb' = []
    \<and> (\<forall>cloid row od h. map_of (tb_rows tb) cloid = Some row \<longrightarrow> old_row spell M row od h
        \<longrightarrow> read_order_row drv tb' cloid = Some (Some (upgraded_order M h od)) \<and> read_history drv tb' cloid = Some h)"
proof -
  let ?ms = "missing_columns tb" and ?fill = "\<lambda>row. foldl (\<lambda>r c. fill_cell drv c r) row (missing_columns tb)"
  define tb1 where "tb1 = foldl add_column tb ?ms"
  have M: "M \<subseteq> fst ` set ADDED_ORDER_COLUMNS" "set (tb_columns tb) = set RECORD_COLUMNS - M"
    "\<forall>kr \<in> set (tb_rows tb). \<exists>od h. old_row spell M (snd kr) od h" using assms(2) by (auto simp: old_table_def)
  have "fst ` set ADDED_ORDER_COLUMNS \<subseteq> set RECORD_COLUMNS" unfolding record_columns_set by blast
  then have ms: "set ?ms = M" using M(1,2) by (auto simp: missing_columns_def)
  have hist: "''history'' \<notin> M" using M(1) unfolding added_columns by auto
  have told: "restore_history (cell_text (drv (cell_at row ''history''))) = Some h" if "old_row spell M row od h" for row od h
    using that hist history_back [of h] assms(1) by (simp add: old_row_def record_columns_in record_cells' del: dumps.simps)
  have rows1: "tb_rows tb1 = map (\<lambda>kr. (fst kr, snd kr @ map (\<lambda>c. (c, added_cell c)) ?ms)) (tb_rows tb)"
    and cols1: "tb_columns tb1 = tb_columns tb @ ?ms" unfolding tb1_def by (rule added_columns_rows)+
  have add: "cell_at (row @ map (\<lambda>c. (c, added_cell c)) ?ms) k = (if k \<in> M then added_cell k else cell_at row k)"
    if "old_row spell M row od h" for row od h k
    using added_cells [of row ?ms k] that ms by (simp add: old_row_def)
  have tr: "told_rows drv tb1" using M(3) told add hist by (fastforce simp: told_rows_def rows1)
  define tb' where "tb' = on_rows ?fill tb1"
  have up: "upgrade drv tb = Some tb'"
  proof (cases "?ms = []")
    case True
    then show ?thesis by (simp add: upgrade_def tb'_def tb1_def)
  next
    case False
    then show ?thesis using backfill_fill [of ?ms drv tb1] ms M(1) tr by (simp add: upgrade_def tb'_def tb1_def Let_def)
  qed
  have "missing_columns tb' = []" using ms M by (auto simp: missing_columns_def tb'_def cols1 filter_empty_conv)
  moreover have "read_order_row drv tb' cloid = Some (Some (upgraded_order M h od)) \<and> read_history drv tb' cloid = Some h"
    if "map_of (tb_rows tb) cloid = Some row" "old_row spell M row od h" for cloid row od h
  proof -
    let ?row = "?fill (row @ map (\<lambda>c. (c, added_cell c)) ?ms)"
    have "map_of (tb_rows tb1) cloid = Some (row @ map (\<lambda>c. (c, added_cell c)) ?ms)"
      unfolding rows1 map_of_on_rows [of "\<lambda>row. row @ map (\<lambda>c. (c, added_cell c)) ?ms"] using that(1) by simp
    then have r: "map_of (tb_rows tb') cloid = Some ?row" by (simp add: tb'_def map_of_on_rows [of ?fill])
    have h: "restore_history (cell_text (drv (cell_at (row @ map (\<lambda>c. (c, added_cell c)) ?ms) ''history''))) = Some h"
      by (simp add: add [OF that(2)] hist told [OF that(2)])
    have cells: "cell_at ?row k = (if k \<notin> M then cell_at row k else case told k h of Some x \<Rightarrow> CInt x | None \<Rightarrow> added_cell k)"
      "cell_at ?row ''history'' = cell_at row ''history''" for k
      using fills_at [where drv = drv and k = k, OF h, of ?ms] ms hist by (simp_all add: add [OF that(2)] split: option.split)
    have "restore_order_row (map (\<lambda>c. drv (cell_at ?row c)) READ_COLUMNS) = Some (upgraded_order M h od)"
      by (rule upgraded_reads [OF assms(1) that(2) M(1) cells(1)])
    then show ?thesis using told [OF that(2)] by (simp add: read_order_row_def read_history_def r cells(2))
  qed
  ultimately show ?thesis using up by blast
qed

section \<open>A driver that answers truth values as numbers\<close>

definition number_driver :: "cell \<Rightarrow> cell" where
  "number_driver c = (case c of CBool b \<Rightarrow> CInt (of_bool b) | _ \<Rightarrow> c)"

lemma number_driver_keeps: "keeps_cells number_driver"
  by (simp add: keeps_cells_def number_driver_def)

definition filed_order :: order where
  "filed_order = \<lparr>o_cloid = ''0x1'', o_strategy_id = ''s'', o_signal_id = ''s:BTC:1'', o_symbol = ''BTC'', o_side = BUY,
     o_quantity = 1, o_type = LIMIT, o_state = LIVE, o_cum_qty = 0, o_venue_oid = Some ''7'', o_acked_ts_ns = Some 5,
     o_created_ts_ns = Some 3, o_reason = None, o_cancel_requested = True, o_cancel_requested_ts = Some 9,
     o_cancel_signal_id = None, o_split_basis = None, o_price = Some 1, o_time_in_force = Some GTC, o_post_only = True,
     o_reduce_only = False, o_applied_event_ids = {''0x1:live''}\<rparr>"

lemma plain_spells: "spells plain_text filed_order"
proof -
  have "fits 0" "fits 1" using fits_of_int [of 1] by simp_all
  then show ?thesis using read_plain_text [of 0] read_plain_text [of 1]
    by (auto simp: spells_def order_figures_def filed_order_def)
qed

theorem order_row_reads_back_witness:
  "restore_order_row (map number_driver (butlast (record_values plain_text filed_order []))) = Some filed_order"
  by (rule order_row_reads_back [OF number_driver_keeps])
    (use plain_spells in \<open>simp_all add: spells_def\<close>)

theorem order_table_refines_store_witness:
  "\<exists>tb. write_rows number_driver plain_text fresh_table [(filed_order, 5)] = Some tb
     \<and> read_order_row number_driver tb ''0x1'' = Some (Some filed_order) \<and> read_history number_driver tb ''0x1'' = Some [(LIVE, 5)]"
proof -
  let ?s = "stored_orders empty_store [(filed_order, 5)]"
  have "get_order ?s ''0x1'' = Some filed_order" "history ?s ''0x1'' = [(LIVE, 5)]"
    by (simp_all add: stored_orders_def write_order_def empty_store_def get_order_def history_def next_history_def filed_order_def)
  then show ?thesis using order_table_refines_store [OF number_driver_keeps, of "[(filed_order, 5)]" plain_text] plain_spells by auto
qed

definition priceless_table :: order_table where
  "priceless_table = \<lparr>tb_columns = filter (\<lambda>c. c \<noteq> ''price'') RECORD_COLUMNS,
     tb_rows = [(''0x1'', filter (\<lambda>kc. fst kc \<noteq> ''price'') (record_row plain_text filed_order (history_json [(LIVE, 5)])))]\<rparr>"

lemma map_of_without: "map_of (filter (\<lambda>kc. fst kc \<noteq> p) xs) c = (if c = p then None else map_of xs c)"
  by (induction xs) auto

lemma priceless_row:
  "old_row plain_text {''price''} (filter (\<lambda>kc. fst kc \<noteq> ''price'') (record_row plain_text filed_order (history_json [(LIVE, 5)])))
     filed_order [(LIVE, 5)]"
  using plain_spells by (auto simp: old_row_def cell_at_def map_of_without)

theorem upgrade_keeps_orders_witness:
  "\<exists>tb'. upgrade number_driver priceless_table = Some tb'
     \<and> read_order_row number_driver tb' ''0x1'' = Some (Some (filed_order\<lparr>o_price := None\<rparr>))"
proof -
  have old: "old_table plain_text {''price''} priceless_table"
    using priceless_row by (auto simp: old_table_def priceless_table_def added_columns simp del: list.map)
  have "upgraded_order {''price''} [(LIVE, 5)] filed_order = filed_order\<lparr>o_price := None\<rparr>"
    by (simp add: upgraded_order_def filed_order_def)
  then show ?thesis using upgrade_keeps_orders [OF number_driver_keeps old] priceless_row
    by (fastforce simp: priceless_table_def)
qed

end
