(* ===== verification/TW_Strategies.thy ===== *)
theory TW_Strategies
  imports TW_Exit TW_Host TW_Json
begin

text \<open>
  The two sample strategies, \<open>src/src/tickwright/strategies/single_shot.py\<close> and
  \<open>single_shot_limit.py\<close>: one order on the first tick, and for the limit order one cancel once
  its time is up. What they send leaves through the emitter of \<open>TW_Exit\<close>; \<open>ok\<close> is the outcome of
  its store write. Their snapshots are the JSON of \<open>TW_Json\<close>. A raise is a callback fault.
\<close>

section \<open>What a strategy sends through\<close>

record strategy_world =
  sw_emitter :: emitter
  sw_checkpointer :: checkpointer
  sw_sent :: "signal list"

type_synonym 'm acting = "'m \<times> strategy_world"

definition fault_of :: "exc \<Rightarrow> callback_fault" where
  "fault_of e = (case e of InvariantViolation f \<Rightarrow> Violated e | _ \<Rightarrow> Misbehaved ''emitter'')"

definition sent_through :: "(emitter \<times> checkpointer \<times> signal) res \<Rightarrow> strategy_world \<Rightarrow> callback_fault + (signal \<times> strategy_world)" where
  "sent_through r w = (case r of
     Inl e \<Rightarrow> Inl (fault_of e)
   | Inr (e', cp', s) \<Rightarrow> Inr (s, w\<lparr>sw_emitter := e', sw_checkpointer := cp', sw_sent := sw_sent w @ [s]\<rparr>))"

text \<open>\<open>bool\<close> and \<open>get\<close> of a decoded value; a value that is no mapping raises.\<close>

definition json_truthy :: "json \<Rightarrow> bool" where
  "json_truthy j = (case j of JNull \<Rightarrow> False | JBool b \<Rightarrow> b | JInt i \<Rightarrow> i \<noteq> 0 | JFloat q r \<Rightarrow> q \<noteq> Some 0
     | JStr s \<Rightarrow> s \<noteq> '''' | JList xs \<Rightarrow> xs \<noteq> [] | JObj d \<Rightarrow> d \<noteq> [])"

definition snapshot_fields :: "int \<Rightarrow> string \<Rightarrow> callback_fault + (string, json) dict" where
  "snapshot_fields version data = (case loads data of
     Some (JObj d) \<Rightarrow> (case map_of d ''version'' of
         Some v \<Rightarrow> if eq_int v version then Inr d else Inl (Misbehaved ''unknown snapshot version'')
       | None \<Rightarrow> Inl (Misbehaved ''unknown snapshot version''))
   | _ \<Rightarrow> Inl (Misbehaved ''snapshot''))"

definition snapshot_value :: "(string, json) dict \<Rightarrow> string \<Rightarrow> callback_fault + json" where
  "snapshot_value d k = (case map_of d k of Some v \<Rightarrow> Inr v | None \<Rightarrow> Inl (Misbehaved ''KeyError''))"

section \<open>One market order\<close>

record single_shot =
  ss_side :: side
  ss_quantity :: decimal
  ss_fired :: bool
  ss_fills :: "order_event list"
  ss_positions :: "position_view option list"

definition make_single_shot :: "side \<Rightarrow> decimal \<Rightarrow> single_shot" where
  "make_single_shot sd quantity = \<lparr>ss_side = sd, ss_quantity = quantity, ss_fired = False, ss_fills = [], ss_positions = []\<rparr>"

definition market_on_tick :: "bool \<Rightarrow> string \<Rightarrow> single_shot acting \<Rightarrow> callback_fault + single_shot acting" where
  "market_on_tick ok symbol st = (case st of (m, w) \<Rightarrow>
     if ss_fired m then Inr (m, w)
     else (case sent_through (emit_place ok (sw_emitter w) (sw_checkpointer w) symbol (ss_side m) (ss_quantity m) MARKET IOC None False False) w of
         Inl e \<Rightarrow> Inl e
       | Inr (s, w') \<Rightarrow> Inr (m\<lparr>ss_fired := True\<rparr>, w')))"

definition market_on_order_event ::
  "(string \<Rightarrow> position_view option res) \<Rightarrow> order_event \<Rightarrow> single_shot acting \<Rightarrow> callback_fault + single_shot acting" where
  "market_on_order_event position e st = (case st of (m, w) \<Rightarrow> (case e of
     OrderFilled en f \<Rightarrow> (case position (ev_symbol en) of
         Inl x \<Rightarrow> Inl (fault_of x)
       | Inr p \<Rightarrow> Inr (m\<lparr>ss_fills := ss_fills m @ [e], ss_positions := ss_positions m @ [p]\<rparr>, w))
   | _ \<Rightarrow> Inr (m, w)))"

definition market_snapshot :: "single_shot \<Rightarrow> string" where
  "market_snapshot m = dumps (JObj [(''version'', JInt 1), (''fired'', JBool (ss_fired m))])"

definition market_restore :: "string \<Rightarrow> single_shot \<Rightarrow> callback_fault + single_shot" where
  "market_restore data m = bind_sum (snapshot_fields 1 data) (\<lambda>d. bind_sum (snapshot_value d ''fired'') (\<lambda>v.
     Inr (m\<lparr>ss_fired := json_truthy v\<rparr>)))"

section \<open>One limit order, cancelled when its time is up\<close>

record single_limit =
  sl_side :: side
  sl_quantity :: decimal
  sl_price :: decimal
  sl_time_in_force :: time_in_force
  sl_post_only :: bool
  sl_cancel_after :: "int option"
  sl_placed :: "string option"
  sl_symbol :: "string option"
  sl_deadline_ns :: "int option"
  sl_cancelled :: bool
  sl_fills :: "order_event list"
  sl_cancellations :: "order_event list"

definition make_single_limit ::
  "side \<Rightarrow> decimal \<Rightarrow> decimal \<Rightarrow> time_in_force \<Rightarrow> bool \<Rightarrow> int option \<Rightarrow> single_limit" where
  "make_single_limit sd quantity price tif post_only cancel_after = \<lparr>sl_side = sd, sl_quantity = quantity,
     sl_price = price, sl_time_in_force = tif, sl_post_only = post_only, sl_cancel_after = cancel_after, sl_placed = None,
     sl_symbol = None, sl_deadline_ns = None, sl_cancelled = False, sl_fills = [], sl_cancellations = []\<rparr>"

definition limit_place :: "bool \<Rightarrow> string \<Rightarrow> int \<Rightarrow> single_limit acting \<Rightarrow> callback_fault + single_limit acting" where
  "limit_place ok symbol ts st = (case st of (m, w) \<Rightarrow>
     let m1 = m\<lparr>sl_symbol := Some symbol,
                sl_deadline_ns := (case sl_cancel_after m of None \<Rightarrow> sl_deadline_ns m | Some n \<Rightarrow> Some (ts + n * 1000000000))\<rparr> in
     case sent_through (emit_place ok (sw_emitter w) (sw_checkpointer w) symbol (sl_side m) (sl_quantity m) LIMIT
         (sl_time_in_force m) (Some (sl_price m)) (sl_post_only m) False) w of
       Inl e \<Rightarrow> Inl e
     | Inr (s, w') \<Rightarrow> Inr (m1\<lparr>sl_placed := Some (signal_id_of s)\<rparr>, w'))"

definition limit_on_tick :: "bool \<Rightarrow> string \<Rightarrow> int \<Rightarrow> single_limit acting \<Rightarrow> callback_fault + single_limit acting" where
  "limit_on_tick ok symbol ts st = (if sl_placed (fst st) = None then limit_place ok symbol ts st else Inr st)"

definition limit_on_wake :: "bool \<Rightarrow> int \<Rightarrow> single_limit acting \<Rightarrow> callback_fault + single_limit acting" where
  "limit_on_wake ok ts st = (case st of (m, w) \<Rightarrow> (case sl_deadline_ns m of
     None \<Rightarrow> Inr (m, w)
   | Some deadline \<Rightarrow>
       if sl_cancelled m \<or> ts < deadline then Inr (m, w)
       else (case (sl_placed m, sl_symbol m) of
           (Some target, Some symbol) \<Rightarrow>
             (case sent_through (emit_cancel ok (sw_emitter w) (sw_checkpointer w) symbol target) w of
                Inl e \<Rightarrow> Inl e
              | Inr (s, w') \<Rightarrow> Inr (m\<lparr>sl_cancelled := True\<rparr>, w'))
         | _ \<Rightarrow> Inl (Violated (InvariantViolation CancelBeforePlace)))))"

definition limit_on_order_event :: "order_event \<Rightarrow> single_limit acting \<Rightarrow> callback_fault + single_limit acting" where
  "limit_on_order_event e st = (case st of (m, w) \<Rightarrow> (case e of
     OrderFilled en f \<Rightarrow> Inr (m\<lparr>sl_fills := sl_fills m @ [e]\<rparr>, w)
   | OrderCancelled en \<Rightarrow> Inr (m\<lparr>sl_cancellations := sl_cancellations m @ [e]\<rparr>, w)
   | _ \<Rightarrow> Inr (m, w)))"

definition json_of_text :: "string option \<Rightarrow> json" where
  "json_of_text x = (case x of None \<Rightarrow> JNull | Some s \<Rightarrow> JStr s)"

definition json_of_int :: "int option \<Rightarrow> json" where
  "json_of_int x = (case x of None \<Rightarrow> JNull | Some i \<Rightarrow> JInt i)"

definition limit_snapshot :: "single_limit \<Rightarrow> string" where
  "limit_snapshot m = dumps (JObj [(''version'', JInt 2), (''placed_signal_id'', json_of_text (sl_placed m)),
     (''symbol'', json_of_text (sl_symbol m)), (''deadline_ns'', json_of_int (sl_deadline_ns m)),
     (''cancelled'', JBool (sl_cancelled m))])"

text \<open>A restored field is taken as it is; a value no snapshot holds there is outside the model.\<close>

definition text_value :: "json \<Rightarrow> callback_fault + string option" where
  "text_value j = (case j of JNull \<Rightarrow> Inr None | JStr s \<Rightarrow> Inr (Some s) | _ \<Rightarrow> Inl (Misbehaved ''snapshot''))"

definition int_value :: "json \<Rightarrow> callback_fault + int option" where
  "int_value j = (case j of JNull \<Rightarrow> Inr None | JInt i \<Rightarrow> Inr (Some i) | _ \<Rightarrow> Inl (Misbehaved ''snapshot''))"

definition limit_restore :: "string \<Rightarrow> single_limit \<Rightarrow> callback_fault + single_limit" where
  "limit_restore data m = bind_sum (snapshot_fields 2 data) (\<lambda>d.
     bind_sum (bind_sum (snapshot_value d ''placed_signal_id'') text_value) (\<lambda>placed.
     bind_sum (bind_sum (snapshot_value d ''symbol'') text_value) (\<lambda>symbol.
     bind_sum (bind_sum (snapshot_value d ''deadline_ns'') int_value) (\<lambda>deadline.
     bind_sum (snapshot_value d ''cancelled'') (\<lambda>cancelled.
       Inr (m\<lparr>sl_placed := placed, sl_symbol := symbol, sl_deadline_ns := deadline, sl_cancelled := json_truthy cancelled\<rparr>))))))"

section \<open>A snapshot restores the state\<close>

text \<open>What a strategy decides on survives; the facts it only collects do not.\<close>

lemma market_restores: "market_restore (market_snapshot m) m' = Inr (m'\<lparr>ss_fired := ss_fired m\<rparr>)"
proof -
  have "loads (market_snapshot m) = Some (JObj [(''version'', JInt 1), (''fired'', JBool (ss_fired m))])"
    unfolding market_snapshot_def by (rule loads_dumps) (simp add: dict_ok_def)
  then show ?thesis by (simp add: market_restore_def snapshot_fields_def snapshot_value_def eq_int_def json_truthy_def)
qed

lemma field_values [simp]: "text_value (json_of_text x) = Inr x" "int_value (json_of_int y) = Inr y"
  "floatless (json_of_text x)" "floatless (json_of_int y)"
  by (simp_all add: text_value_def json_of_text_def int_value_def json_of_int_def split: option.split)

lemma limit_restores:
  "limit_restore (limit_snapshot m) m' = Inr (m'\<lparr>sl_placed := sl_placed m, sl_symbol := sl_symbol m,
     sl_deadline_ns := sl_deadline_ns m, sl_cancelled := sl_cancelled m\<rparr>)"
proof -
  have "loads (limit_snapshot m) = Some (JObj [(''version'', JInt 2), (''placed_signal_id'', json_of_text (sl_placed m)),
     (''symbol'', json_of_text (sl_symbol m)), (''deadline_ns'', json_of_int (sl_deadline_ns m)), (''cancelled'', JBool (sl_cancelled m))])"
    unfolding limit_snapshot_def by (rule loads_dumps) (simp add: dict_ok_def)
  then show ?thesis by (simp add: limit_restore_def snapshot_fields_def snapshot_value_def eq_int_def json_truthy_def)
qed

section \<open>Runs\<close>

text \<open>
  The callbacks in any order, and restarts between them: the new process builds the strategy from
  the same settings, sets the emitter's next number to any, and restores the last snapshot.
\<close>

inductive limit_step :: "single_limit acting \<Rightarrow> single_limit acting \<Rightarrow> bool" where
  step_tick: "limit_on_tick ok symbol ts st = Inr st' \<Longrightarrow> limit_step st st'"
| step_wake: "limit_on_wake ok ts st = Inr st' \<Longrightarrow> limit_step st st'"
| step_event: "limit_on_order_event e st = Inr st' \<Longrightarrow> limit_step st st'"
| step_restart: "limit_restore (limit_snapshot m)
      (make_single_limit (sl_side m) (sl_quantity m) (sl_price m) (sl_time_in_force m) (sl_post_only m) (sl_cancel_after m)) = Inr m'
    \<Longrightarrow> limit_step (m, w) (m', w\<lparr>sw_emitter := set_next_seq n (sw_emitter w), sw_checkpointer := cp\<rparr>)"

inductive market_step :: "single_shot acting \<Rightarrow> single_shot acting \<Rightarrow> bool" where
  shot_tick: "market_on_tick ok symbol st = Inr st' \<Longrightarrow> market_step st st'"
| shot_event: "market_on_order_event position e st = Inr st' \<Longrightarrow> market_step st st'"
| shot_restart: "market_restore (market_snapshot m) (make_single_shot (ss_side m) (ss_quantity m)) = Inr m'
    \<Longrightarrow> market_step (m, w) (m', w\<lparr>sw_emitter := set_next_seq n (sw_emitter w), sw_checkpointer := cp\<rparr>)"

lemma sent_through_place:
  assumes "sent_through (emit_place ok e cp symbol sd q kind tif price po ro) w = Inr (s, w')"
  shows "\<exists>p. s = PlaceSignal p \<and> ps_symbol p = symbol \<and> ps_side p = sd \<and> ps_quantity p = q \<and> ps_order_type p = kind
    \<and> ps_price p = price \<and> ps_time_in_force p = tif \<and> ps_post_only p = po \<and> ps_reduce_only p = ro
    \<and> sw_sent w' = sw_sent w @ [s]"
  using assms by (auto simp: sent_through_def emit_place_def Let_def bind_res_eq_Inr split: sum.splits if_splits prod.splits)

lemma sent_through_cancel:
  assumes "sent_through (emit_cancel ok e cp symbol target) w = Inr (s, w')"
  shows "\<exists>sid n. s = CancelSignal sid symbol n target \<and> sw_sent w' = sw_sent w @ [s]"
  using assms by (auto simp: sent_through_def emit_cancel_def bind_res_eq_Inr split: sum.splits prod.splits)

lemma cancel_fault: "sent_through (emit_cancel ok e cp symbol target) w \<noteq> Inl (Violated (InvariantViolation CancelBeforePlace))"
proof -
  have "cp_raise_seq ok cp sid n = Inl x \<Longrightarrow> x = InvariantViolation StoreWriteFailed" for sid n x
    by (auto simp: cp_raise_seq_def cache_raise_seq_def store_raise_seq_def transaction_def bind_res_eq_Inl split: if_splits prod.splits)
  then show ?thesis
    by (auto simp: sent_through_def emit_cancel_def emit_record_def fault_of_def bind_res_def split: sum.splits prod.splits exc.splits)
qed

definition market_ok :: "side \<Rightarrow> decimal \<Rightarrow> single_shot acting \<Rightarrow> bool" where
  "market_ok sd quantity st \<longleftrightarrow> ss_side (fst st) = sd \<and> ss_quantity (fst st) = quantity \<and>
     (if ss_fired (fst st) then \<exists>p. sw_sent (snd st) = [PlaceSignal p] \<and> ps_side p = sd \<and> ps_quantity p = quantity \<and> ps_order_type p = MARKET
      else sw_sent (snd st) = [])"

lemma market_step_ok: "market_step st st' \<Longrightarrow> market_ok sd quantity st \<Longrightarrow> market_ok sd quantity st'"
proof (induction rule: market_step.induct)
  case (shot_tick ok symbol st st')
  then show ?case
    by (auto simp: market_on_tick_def market_ok_def split: prod.splits if_splits sum.splits dest!: sent_through_place)
next
  case (shot_event position e st st')
  then show ?case
    by (auto simp: market_on_order_event_def market_ok_def split: prod.splits order_event.splits sum.splits)
qed (auto simp: market_restores market_ok_def make_single_shot_def)

text \<open>The market strategy sends one order, over any run of its callbacks and restarts.\<close>

theorem market_strategy_sends_once:
  assumes "market_step\<^sup>*\<^sup>* (make_single_shot sd quantity, w) (m', w')" and "sw_sent w = []"
  shows "sw_sent w' = [] \<or> (\<exists>p. sw_sent w' = [PlaceSignal p] \<and> ps_side p = sd \<and> ps_quantity p = quantity \<and> ps_order_type p = MARKET)"
proof -
  have "market_ok sd quantity (m', w')" using assms(1)
  proof (induction rule: rtranclp_induct)
    case base
    then show ?case using assms(2) by (simp add: market_ok_def make_single_shot_def)
  qed (rule market_step_ok)
  then show ?thesis by (auto simp: market_ok_def split: if_splits)
qed

text \<open>What the limit strategy has sent, and what it remembers of it.\<close>

definition limit_terms :: "single_limit \<Rightarrow> place_signal \<Rightarrow> bool" where
  "limit_terms m p \<longleftrightarrow> ps_side p = sl_side m \<and> ps_quantity p = sl_quantity m \<and> ps_order_type p = LIMIT
     \<and> ps_price p = Some (sl_price m) \<and> ps_time_in_force p = sl_time_in_force m \<and> ps_post_only p = sl_post_only m \<and> \<not> ps_reduce_only p"

definition limit_sent :: "single_limit \<Rightarrow> signal list \<Rightarrow> bool" where
  "limit_sent m sent \<longleftrightarrow> (\<exists>p. limit_terms m p \<and> sl_placed m = Some (signal_id_of (PlaceSignal p)) \<and> sl_symbol m = Some (ps_symbol p)
     \<and> (if sl_cancelled m then sl_cancel_after m \<noteq> None
            \<and> (\<exists>sid n. sent = [PlaceSignal p, CancelSignal sid (ps_symbol p) n (signal_id_of (PlaceSignal p))])
        else sent = [PlaceSignal p]))"

definition limit_ok :: "single_limit \<Rightarrow> single_limit acting \<Rightarrow> bool" where
  "limit_ok m0 st \<longleftrightarrow> (case st of (m, w) \<Rightarrow>
     sl_side m = sl_side m0 \<and> sl_quantity m = sl_quantity m0 \<and> sl_price m = sl_price m0
     \<and> sl_time_in_force m = sl_time_in_force m0 \<and> sl_post_only m = sl_post_only m0 \<and> sl_cancel_after m = sl_cancel_after m0
     \<and> (sl_deadline_ns m \<noteq> None \<longrightarrow> sl_cancel_after m0 \<noteq> None \<and> sl_placed m \<noteq> None)
     \<and> (if sl_placed m = None then sw_sent w = [] \<and> \<not> sl_cancelled m else limit_sent m (sw_sent w)))"

lemma limit_place_ok:
  assumes "limit_on_tick ok symbol ts (m, w) = Inr (m', w')" "limit_ok m0 (m, w)"
  shows "limit_ok m0 (m', w')"
proof (cases "sl_placed m")
  case None
  then obtain s where s: "sent_through (emit_place ok (sw_emitter w) (sw_checkpointer w) symbol (sl_side m) (sl_quantity m) LIMIT
      (sl_time_in_force m) (Some (sl_price m)) (sl_post_only m) False) w = Inr (s, w')"
    and m': "m' = m\<lparr>sl_symbol := Some symbol,
      sl_deadline_ns := (case sl_cancel_after m of None \<Rightarrow> sl_deadline_ns m | Some n \<Rightarrow> Some (ts + n * 1000000000)),
      sl_placed := Some (signal_id_of s)\<rparr>"
    using assms(1) by (auto simp: limit_on_tick_def limit_place_def Let_def split: sum.splits)
  from sent_through_place [OF s] obtain p where "s = PlaceSignal p" "ps_symbol p = symbol" "ps_side p = sl_side m"
    "ps_quantity p = sl_quantity m" "ps_order_type p = LIMIT" "ps_price p = Some (sl_price m)"
    "ps_time_in_force p = sl_time_in_force m" "ps_post_only p = sl_post_only m" "\<not> ps_reduce_only p" "sw_sent w' = sw_sent w @ [s]" by blast
  then show ?thesis using None m' assms(2)
    by (auto simp: limit_ok_def limit_sent_def limit_terms_def split: option.splits)
qed (use assms in \<open>simp add: limit_on_tick_def\<close>)

lemma limit_wake_sends:
  assumes "limit_on_wake ok ts (m, w) = Inr (m', w')"
  shows "m' = m \<and> w' = w \<or> (\<exists>d target symbol sid n. sl_deadline_ns m = Some d \<and> d \<le> ts \<and> \<not> sl_cancelled m
    \<and> sl_placed m = Some target \<and> sl_symbol m = Some symbol \<and> m' = m\<lparr>sl_cancelled := True\<rparr>
    \<and> sw_sent w' = sw_sent w @ [CancelSignal sid symbol n target])"
  using assms by (fastforce simp: limit_on_wake_def split: option.splits if_splits sum.splits dest!: sent_through_cancel)

lemma limit_wake_ok:
  assumes "limit_on_wake ok ts (m, w) = Inr (m', w')" "limit_ok m0 (m, w)"
  shows "limit_ok m0 (m', w')"
  using limit_wake_sends [OF assms(1)]
proof (elim disjE exE conjE)
  fix d target symbol sid n
  assume w: "sl_deadline_ns m = Some d" "\<not> sl_cancelled m" "sl_placed m = Some target" "sl_symbol m = Some symbol"
    "m' = m\<lparr>sl_cancelled := True\<rparr>" "sw_sent w' = sw_sent w @ [CancelSignal sid symbol n target]"
  then obtain p where p: "limit_terms m p" "target = signal_id_of (PlaceSignal p)" "symbol = ps_symbol p" "sw_sent w = [PlaceSignal p]"
    using assms(2) by (auto simp: limit_ok_def limit_sent_def)
  have "limit_terms m' p" using p(1) w(5) by (simp add: limit_terms_def)
  moreover have "sl_cancel_after m \<noteq> None" using assms(2) w(1) by (auto simp: limit_ok_def)
  ultimately have "limit_sent m' (sw_sent w')" unfolding limit_sent_def using p(2-4) w by (intro exI [of _ p]) simp
  then show ?thesis using assms(2) w by (simp add: limit_ok_def)
qed (use assms(2) in simp)

lemma limit_sent_facts [simp]:
  "limit_sent (m\<lparr>sl_fills := xs\<rparr>) sent = limit_sent m sent" "limit_sent (m\<lparr>sl_cancellations := ys\<rparr>) sent = limit_sent m sent"
  by (simp_all add: limit_sent_def limit_terms_def)

lemma limit_step_ok: "limit_step st st' \<Longrightarrow> limit_ok m0 st \<Longrightarrow> limit_ok m0 st'"
proof (induction rule: limit_step.induct)
  case (step_tick ok symbol ts st st')
  then show ?case using limit_place_ok by (cases st; cases st') blast
next
  case (step_wake ok ts st st')
  then show ?case using limit_wake_ok by (cases st; cases st') blast
next
  case (step_event e st st')
  then show ?case
    by (auto simp: limit_on_order_event_def limit_ok_def split: prod.splits order_event.splits)
next
  case (step_restart m m' w n cp)
  then have "m' = m\<lparr>sl_fills := [], sl_cancellations := []\<rparr>"
    by (cases m) (auto simp: limit_restores make_single_limit_def)
  then show ?case using step_restart(2) by (simp add: limit_ok_def)
qed

lemma limit_reach_ok:
  assumes "limit_step\<^sup>*\<^sup>* (m0, w) st" "sl_placed m0 = None" "sl_deadline_ns m0 = None" "\<not> sl_cancelled m0" "sw_sent w = []"
  shows "limit_ok m0 st"
  using assms(1)
proof (induction rule: rtranclp_induct)
  case base
  then show ?case using assms(2-5) by (simp add: limit_ok_def)
qed (rule limit_step_ok)

text \<open>
  The limit strategy sends its one order and, where it has a time limit, at most one cancel of that
  very order, over any run of its callbacks and of restarts between them; and the state in which its
  cancel would have no order to name is never reached.
\<close>

theorem limit_strategy_sends_once:
  assumes "limit_step\<^sup>*\<^sup>* (make_single_limit sd quantity price tif post_only cancel_after, w) (m, w')" and "sw_sent w = []"
  shows "(sw_sent w' = [] \<or> (\<exists>p. limit_terms m p \<and> (sw_sent w' = [PlaceSignal p] \<or> cancel_after \<noteq> None
      \<and> (\<exists>sid n. sw_sent w' = [PlaceSignal p, CancelSignal sid (ps_symbol p) n (signal_id_of (PlaceSignal p))]))))
    \<and> limit_on_wake ok ts (m, w') \<noteq> Inl (Violated (InvariantViolation CancelBeforePlace))"
proof -
  have ok: "limit_ok (make_single_limit sd quantity price tif post_only cancel_after) (m, w')"
    by (rule limit_reach_ok [OF assms(1)]) (simp_all add: make_single_limit_def assms(2))
  then have "sl_cancel_after m = cancel_after" by (simp add: limit_ok_def make_single_limit_def)
  moreover have "limit_on_wake ok ts (m, w') \<noteq> Inl (Violated (InvariantViolation CancelBeforePlace))"
  proof (cases "sl_placed m")
    case None
    then have "sl_deadline_ns m = None" using ok by (auto simp: limit_ok_def)
    then show ?thesis by (simp add: limit_on_wake_def)
  next
    case (Some target)
    then obtain symbol where "sl_symbol m = Some symbol" using ok by (auto simp: limit_ok_def limit_sent_def)
    then show ?thesis using Some cancel_fault by (auto simp: limit_on_wake_def split: option.split sum.split)
  qed
  ultimately show ?thesis using ok by (auto simp: limit_ok_def limit_sent_def split: if_splits)
qed

end
